(* ===== verification/Prelude.thy ===== *)
theory Prelude
  imports Complex_Main "HOL-Library.Word"
begin

unbundle bit_operations_syntax

text \<open>
  The part of Python 2.7 that the server's modules share: byte strings, slices, the
  \<^verbatim>\<open>struct\<close> codes they use, exceptions as values, and the sources of randomness
  and time. In Python 2.7 (the interpreter the package depends on and its init script
  starts) \<^verbatim>\<open>str\<close> and \<^verbatim>\<open>bytes\<close> are one type of 8-bit strings, which is
  exactly HOL's \<^typ>\<open>string\<close>, a list of \<^typ>\<open>char\<close>.

  Randomness is a tape of bytes: every call of \<^verbatim>\<open>os.urandom\<close> takes its bytes from
  the front of the tape, so that a statement about all tapes is a statement about all
  random choices. The clock is an argument of the operations that read it (a rational
  number of seconds); successive reads within one handler are one reading.
\<close>

named_theorems bytes_simps \<open>lengths, slices and struct codes of byte strings\<close>

type_synonym bytes = string
type_synonym tape = string
type_synonym time = rat

subsection \<open>Exceptions as values\<close>

datatype exc =
    StructError
  | IndexError
  | KeyError
  | ValueError
  | TypeError
  | AttributeError
  | ZeroDivisionError
  | RuntimeError
  | UnicodeDecodeError
  | OSError
  | SystemExit
  | NoReturn
  | Exc string

text \<open>\<^const>\<open>NoReturn\<close> marks a call that would never return.\<close>

type_synonym 'a res = "exc + 'a"

definition rbind :: "'a res \<Rightarrow> ('a \<Rightarrow> 'b res) \<Rightarrow> 'b res" where
  "rbind x f = (case x of Inl e \<Rightarrow> Inl e | Inr v \<Rightarrow> f v)"

lemma rbind_simps [simp]:
  "rbind (Inl e) f = Inl e"
  "rbind (Inr v) f = f v"
  by (simp_all add: rbind_def)

lemma rbind_eq_Inr: "rbind x f = Inr y \<longleftrightarrow> (\<exists>v. x = Inr v \<and> f v = Inr y)"
  by (cases x) simp_all

subsection \<open>Bytes\<close>

text \<open>\<^verbatim>\<open>ord\<close> and \<^verbatim>\<open>chr\<close> of common.py on one-byte strings.\<close>

abbreviation ordb :: "char \<Rightarrow> nat" where
  "ordb c \<equiv> of_char c"

abbreviation chrb :: "nat \<Rightarrow> char" where
  "chrb n \<equiv> char_of n"

lemma ordb_less [simp]: "ordb c < 256"
  by (cases c) (simp add: of_char_def horner_sum_foldr)

lemma ordb_le [simp]: "ordb c \<le> 255"
  using ordb_less [of c] by linarith

lemma ordb_chrb [simp]: "ordb (chrb n) = n mod 256"
  by simp

lemma chrb_ordb [simp]: "chrb (ordb c) = c"
  by simp

lemma ordb_inject [simp]: "ordb a = ordb b \<longleftrightarrow> a = b"
  by (metis chrb_ordb)

subsection \<open>Slices\<close>

text \<open>\<^verbatim>\<open>s[i:j]\<close> for indices that are not negative.\<close>

definition py_sub :: "'a list \<Rightarrow> nat \<Rightarrow> nat \<Rightarrow> 'a list" where
  "py_sub s i j = take (j - i) (drop i s)"

text \<open>\<^verbatim>\<open>s[i:j]\<close> for any indices: a negative one counts from the end, then both are
  clamped to the string.\<close>

definition clamp_index :: "nat \<Rightarrow> int \<Rightarrow> nat" where
  "clamp_index n i = nat (max 0 (min (int n) (if i < 0 then i + int n else i)))"

definition py_slice :: "'a list \<Rightarrow> int \<Rightarrow> int \<Rightarrow> 'a list" where
  "py_slice s i j = py_sub s (clamp_index (length s) i) (clamp_index (length s) j)"

lemma clamp_index_nat [simp]: "clamp_index n (int i) = min n i"
  by (simp add: clamp_index_def)

lemma py_slice_nat: "py_slice s (int i) (int j) = py_sub s i j"
  by (auto simp: py_slice_def py_sub_def min_def)

lemma py_slice_diff:
  "k \<le> j \<Longrightarrow> py_slice s (int i) (int j - int k) = py_sub s i (j - k)"
  using py_slice_nat [of s i "j - k"] by (simp add: of_nat_diff)

lemma length_py_sub [bytes_simps]: "length (py_sub s i j) = min (j - i) (length s - i)"
  by (simp add: py_sub_def)

lemma py_sub_append [bytes_simps]: "j \<le> length s \<Longrightarrow> py_sub (s @ t) i j = py_sub s i j"
  by (cases "i \<le> j") (simp_all add: py_sub_def)

lemma py_sub_skip [bytes_simps]:
  "length p \<le> i \<Longrightarrow> py_sub (p @ s) i j = py_sub s (i - length p) (j - length p)"
  by (simp add: py_sub_def drop_append)

lemma py_sub_all: "py_sub s 0 (length s) = s"
  by (simp add: py_sub_def)

lemma py_sub_0 [bytes_simps]: "py_sub s 0 j = take j s"
  by (simp add: py_sub_def)

lemma py_sub_exact: "length p = i \<Longrightarrow> length p + length s = j \<Longrightarrow> py_sub (p @ s @ t) i j = s"
  by (simp add: py_sub_def)

lemma py_sub_exact_end: "length p = i \<Longrightarrow> length p + length s = j \<Longrightarrow> py_sub (p @ s) i j = s"
  by (simp add: py_sub_def)

text \<open>\<^verbatim>\<open>match_begin\<close>, which several plugins declare: a prefix test.\<close>

definition match_begin :: "bytes \<Rightarrow> bytes \<Rightarrow> bool" where
  "match_begin str1 str2 =
     (if length str1 \<ge> length str2 then take (length str2) str1 = str2 else False)"

lemma match_begin_append [simp]: "match_begin (p @ s) p"
  by (simp add: match_begin_def)

lemma match_begin_iff: "match_begin s p \<longleftrightarrow> (\<exists>t. s = p @ t)"
  by (metis append_eq_conv_conj le_add1 length_append match_begin_def)

subsection \<open>The struct codes\<close>

text \<open>Codes \<^verbatim>\<open>'>H'\<close>, \<^verbatim>\<open>'<H'\<close>, \<^verbatim>\<open>'>I'\<close>, \<^verbatim>\<open>'<I'\<close>, \<^verbatim>\<open>'<Q'\<close>. The
  total functions give the bytes of a number in range and the number of a string of the
  right length; \<open>pack_*\<close> and \<open>unpack_*\<close> raise \<^const>\<open>StructError\<close> where Python
  does.\<close>

definition be16 :: "nat \<Rightarrow> bytes" where
  "be16 n = [chrb (n div 256), chrb n]"

definition le16 :: "nat \<Rightarrow> bytes" where
  "le16 n = [chrb n, chrb (n div 256)]"

definition be32 :: "nat \<Rightarrow> bytes" where
  "be32 n = [chrb (n div 16777216), chrb (n div 65536), chrb (n div 256), chrb n]"

definition le32 :: "nat \<Rightarrow> bytes" where
  "le32 n = [chrb n, chrb (n div 256), chrb (n div 65536), chrb (n div 16777216)]"

fun le_val :: "bytes \<Rightarrow> nat" where
  "le_val [] = 0"
| "le_val (c # cs) = ordb c + 256 * le_val cs"

definition be_val :: "bytes \<Rightarrow> nat" where
  "be_val s = le_val (rev s)"

definition pack_be16 :: "nat \<Rightarrow> bytes res" where
  "pack_be16 n = (if n < 65536 then Inr (be16 n) else Inl StructError)"

definition pack_le16 :: "nat \<Rightarrow> bytes res" where
  "pack_le16 n = (if n < 65536 then Inr (le16 n) else Inl StructError)"

definition pack_le32 :: "nat \<Rightarrow> bytes res" where
  "pack_le32 n = (if n < 4294967296 then Inr (le32 n) else Inl StructError)"

definition pack_be32 :: "nat \<Rightarrow> bytes res" where
  "pack_be32 n = (if n < 4294967296 then Inr (be32 n) else Inl StructError)"

definition unpack_be16 :: "bytes \<Rightarrow> nat res" where
  "unpack_be16 s = (if length s = 2 then Inr (be_val s) else Inl StructError)"

definition unpack_be32 :: "bytes \<Rightarrow> nat res" where
  "unpack_be32 s = (if length s = 4 then Inr (be_val s) else Inl StructError)"

definition unpack_le16 :: "bytes \<Rightarrow> nat res" where
  "unpack_le16 s = (if length s = 2 then Inr (le_val s) else Inl StructError)"

definition unpack_le32 :: "bytes \<Rightarrow> nat res" where
  "unpack_le32 s = (if length s = 4 then Inr (le_val s) else Inl StructError)"

text \<open>\<^verbatim>\<open>ord(s[i])\<close>, which raises on an index past the end.\<close>

definition ord_at :: "bytes \<Rightarrow> nat \<Rightarrow> nat res" where
  "ord_at s i = (if i < length s then Inr (ordb (s ! i)) else Inl IndexError)"

lemma length_codes [simp]:
  "length (be16 n) = 2" "length (le16 n) = 2" "length (be32 n) = 4" "length (le32 n) = 4"
  by (simp_all add: be16_def le16_def be32_def le32_def)

lemma codes_not_Nil [simp]: "be16 n \<noteq> []" "le16 n \<noteq> []" "be32 n \<noteq> []" "le32 n \<noteq> []"
  by (simp_all add: be16_def le16_def be32_def le32_def)

lemma le_val_less: "le_val s < 256 ^ length s"
proof (induction s)
  case (Cons c cs)
  have "ordb c + 256 * le_val cs < 256 + 256 * le_val cs" by simp
  also have "\<dots> \<le> 256 * 256 ^ length cs"
    using Cons.IH by (metis Suc_leI mult_Suc_right mult_le_mono2)
  finally show ?case by simp
qed simp

lemma be_val_less: "be_val s < 256 ^ length s"
  using le_val_less [of "rev s"] by (simp add: be_val_def)

lemma be_val_2: "length s = 2 \<Longrightarrow> be_val s < 65536"
  using be_val_less [of s] by simp

lemma le_val_2: "length s = 2 \<Longrightarrow> le_val s < 65536"
  using le_val_less [of s] by simp

lemma le_val_4: "length s = 4 \<Longrightarrow> le_val s < 4294967296"
  using le_val_less [of s] by simp

lemma digits_256:
  "(n::nat) mod 256 + 256 * (n div 256 mod 256) = n mod 65536"
  by (metis mod_mult2_eq numeral_times_numeral semiring_norm(13) num_double add.commute)

lemma be_val_be16 [simp]: "n < 65536 \<Longrightarrow> be_val (be16 n) = n"
  using digits_256 [of n] by (simp add: be_val_def be16_def)

lemma le_val_le16 [simp]: "n < 65536 \<Longrightarrow> le_val (le16 n) = n"
  using digits_256 [of n] by (simp add: le16_def)

lemma be_val_append: "be_val (p @ s) = be_val p * 256 ^ length s + be_val s"
proof -
  have "le_val (p @ s) = le_val p + 256 ^ length p * le_val s" for p s
    by (induction p) (simp_all add: algebra_simps)
  then show ?thesis by (simp add: be_val_def algebra_simps)
qed

lemma digits_65536:
  "(n::nat) mod 65536 + 65536 * (n div 65536 mod 65536) = n mod 4294967296"
  using mod_mult2_eq [of n 65536 65536] by simp

lemma digits_4:
  assumes "(n::nat) < 4294967296"
  shows "n mod 256 + (256 * (n div 256 mod 256)
     + (65536 * (n div 65536 mod 256) + 16777216 * (n div 16777216 mod 256))) = n"
proof -
  have d: "n div 65536 div 256 = n div 16777216" by (simp add: div_mult2_eq)
  have "n mod 65536 + 65536 * (n div 65536 mod 65536) = n"
    using digits_65536 [of n] assms by simp
  moreover have "n div 65536 mod 65536
      = n div 65536 mod 256 + 256 * (n div 16777216 mod 256)"
    using digits_256 [of "n div 65536"] d by simp
  ultimately show ?thesis using digits_256 [of n] by simp
qed

lemma le_val_le32 [simp]: "n < 4294967296 \<Longrightarrow> le_val (le32 n) = n"
  using digits_4 [of n] by (simp add: le32_def algebra_simps)

lemma be_val_be32 [simp]: "n < 4294967296 \<Longrightarrow> be_val (be32 n) = n"
  using digits_4 [of n] by (simp add: be_val_def be32_def algebra_simps)

lemma le_val_inject: "length s = length t \<Longrightarrow> le_val s = le_val t \<Longrightarrow> s = t"
proof (induction s t rule: list_induct2)
  case (Cons c cs d ds)
  have "ordb c = ordb d \<and> le_val cs = le_val ds"
    using Cons.prems ordb_less [of c] ordb_less [of d]
      mod_mult_self2 [of "ordb c" 256 "le_val cs"] mod_mult_self2 [of "ordb d" 256 "le_val ds"]
    by (simp del: ordb_less)
  then show ?case using Cons.IH by simp
qed simp

lemma le_val_4_bytes: "length s = 4 \<Longrightarrow> le32 (le_val s) = s"
  by (rule le_val_inject) (simp_all add: le_val_4)

lemma le32_inject [simp]:
  "m < 4294967296 \<Longrightarrow> n < 4294967296 \<Longrightarrow> le32 m = le32 n \<longleftrightarrow> m = n"
  by (metis le_val_le32)

lemma unpack_codes [simp]:
  "n < 65536 \<Longrightarrow> unpack_be16 (be16 n) = Inr n"
  "n < 65536 \<Longrightarrow> unpack_le16 (le16 n) = Inr n"
  "n < 4294967296 \<Longrightarrow> unpack_be32 (be32 n) = Inr n"
  "n < 4294967296 \<Longrightarrow> unpack_le32 (le32 n) = Inr n"
  by (simp_all add: unpack_be16_def unpack_le16_def unpack_be32_def unpack_le32_def)

subsection \<open>Decimal numbers and letters\<close>

text \<open>\<^verbatim>\<open>str(n)\<close> and \<^verbatim>\<open>'%d' % n\<close>, \<^verbatim>\<open>s.lower()\<close>.\<close>

fun dec :: "nat \<Rightarrow> bytes" where
  "dec n = (if n < 10 then [chrb (48 + n)] else dec (n div 10) @ [chrb (48 + n mod 10)])"

declare dec.simps [simp del]

fun undec :: "nat \<Rightarrow> bytes \<Rightarrow> nat" where
  "undec a [] = a"
| "undec a (c # cs) = undec (10 * a + (ordb c - 48)) cs"

definition is_digit :: "char \<Rightarrow> bool" where
  "is_digit c \<longleftrightarrow> 48 \<le> ordb c \<and> ordb c \<le> 57"

lemma undec_append: "undec a (s @ [c]) = 10 * undec a s + (ordb c - 48)"
  by (induction s arbitrary: a) simp_all

lemma dec_digits: "c \<in> set (dec n) \<Longrightarrow> is_digit c"
proof (induction n rule: dec.induct)
  case (1 n)
  show ?case
  proof (cases "n < 10")
    case True
    then show ?thesis using "1.prems" by (simp add: dec.simps [of n] is_digit_def)
  next
    case False
    then show ?thesis using 1 by (auto simp: dec.simps [of n] is_digit_def)
  qed
qed

lemma undec_dec [simp]: "undec 0 (dec n) = n"
proof (induction n rule: dec.induct)
  case (1 n)
  show ?case
  proof (cases "n < 10")
    case True
    then show ?thesis by (simp add: dec.simps [of n])
  next
    case False
    then show ?thesis using 1 by (simp add: dec.simps [of n] undec_append)
  qed
qed

lemma dec_inject [simp]: "dec m = dec n \<longleftrightarrow> m = n"
  by (metis undec_dec)

lemma dec_not_Nil [simp]: "dec n \<noteq> []"
  by (simp add: dec.simps [of n])

definition lower :: "bytes \<Rightarrow> bytes" where
  "lower s = map (\<lambda>c. if 65 \<le> ordb c \<and> ordb c \<le> 90 then chrb (ordb c + 32) else c) s"

subsection \<open>Exclusive or\<close>

lemma xor_nat_less: "(a::nat) < 2 ^ n \<Longrightarrow> b < 2 ^ n \<Longrightarrow> a XOR b < 2 ^ n"
  by (metis take_bit_nat_eq_self take_bit_nat_eq_self_iff take_bit_xor)

lemma xor_nat_less_16 [simp]: "(a::nat) < 65536 \<Longrightarrow> b < 65536 \<Longrightarrow> a XOR b < 65536"
  using xor_nat_less [of a 16 b] by simp

lemma xor_nat_less_32 [simp]: "(a::nat) < 4294967296 \<Longrightarrow> b < 4294967296 \<Longrightarrow> a XOR b < 4294967296"
  using xor_nat_less [of a 32 b] by simp

lemma xor_nat_cancel [simp]: "(a XOR b) XOR b = (a::nat)"
  by (simp add: xor.assoc)

subsection \<open>Randomness\<close>

text \<open>\<^verbatim>\<open>os.urandom(n)\<close>: the next bytes of the tape (zeros after its end).\<close>

definition urandom :: "nat \<Rightarrow> tape \<Rightarrow> bytes \<times> tape" where
  "urandom n t = (take n (t @ replicate n (chrb 0)), drop n t)"

lemma length_urandom [simp]: "length (fst (urandom n t)) = n"
  by (simp add: urandom_def)

lemma urandom_length: "urandom n t = (r, t') \<Longrightarrow> length r = n"
  using length_urandom [of n t] by simp

lemma urandom_any: "\<exists>t. fst (urandom (length r) t) = r"
  by (rule exI [of _ r]) (simp add: urandom_def)

text \<open>\<^verbatim>\<open>random.randint(a, b)\<close>: a number of the interval, chosen by two bytes of the
  tape (every caller's interval is shorter than \<^verbatim>\<open>2 ** 16\<close>).\<close>

definition randint :: "nat \<Rightarrow> nat \<Rightarrow> tape \<Rightarrow> nat \<times> tape" where
  "randint a b t = (let (r, t') = urandom 2 t in (a + be_val r mod (b + 1 - a), t'))"

lemma randint_bounds: "a \<le> b \<Longrightarrow> randint a b t = (n, t') \<Longrightarrow> a \<le> n \<and> n \<le> b"
proof -
  assume "a \<le> b" and "randint a b t = (n, t')"
  then have "n = a + be_val (fst (urandom 2 t)) mod (b + 1 - a)"
    by (auto simp: randint_def split: prod.splits)
  moreover have "be_val (fst (urandom 2 t)) mod (b + 1 - a) < b + 1 - a"
    using \<open>a \<le> b\<close> by (intro mod_less_divisor) simp
  ultimately show ?thesis using \<open>a \<le> b\<close> by linarith
qed

end
