(* ===== verification/Ciphers.thy ===== *)
theory Ciphers
  imports Prelude "HOL-Library.Multiset"
begin

unbundle bit_operations_syntax

text \<open>
  The cipher objects of \<^verbatim>\<open>shadowsocks/crypto\<close>: \<^verbatim>\<open>table.py\<close> (a byte substitution
  derived from the password, and the null cipher), \<^verbatim>\<open>sodium.py\<close> (a stream cipher of
  libsodium driven at byte granularity over 64-byte blocks), \<^verbatim>\<open>openssl.py\<close> and
  \<^verbatim>\<open>rc4_md5.py\<close> (ciphers of libcrypto), with the table of supported methods. The C
  libraries and MD5 are parameters, the fields of \<open>crypto_lib\<close>; what the code relies on of
  them is stated as \<open>evp_stream\<close> and \<open>sodium_stream\<close>.
\<close>

subsection \<open>The C libraries\<close>

record 'o crypto_lib =
  md5 :: "bytes \<Rightarrow> bytes"
  evp_init :: "string \<Rightarrow> bytes \<Rightarrow> bytes \<Rightarrow> nat \<Rightarrow> 'o option"
  evp_update :: "'o \<Rightarrow> bytes \<Rightarrow> bytes \<times> 'o"
  xor_ic :: "string \<Rightarrow> bytes \<Rightarrow> bytes \<Rightarrow> nat \<Rightarrow> bytes \<Rightarrow> bytes"

subsection \<open>table.py\<close>

definition all_bytes :: bytes where
  "all_bytes = map chrb [0..<256]"

text \<open>\<^verbatim>\<open>string.maketrans\<close>: the identity, changed at each byte of the first string.\<close>

definition maketrans :: "bytes \<Rightarrow> bytes \<Rightarrow> bytes" where
  "maketrans frm to = foldl (\<lambda>t (f, x). t[ordb f := x]) all_bytes (zip frm to)"

definition translate :: "bytes \<Rightarrow> bytes \<Rightarrow> bytes" where
  "translate data table = map (\<lambda>c. table ! ordb c) data"

definition get_table :: "'o crypto_lib \<Rightarrow> bytes \<Rightarrow> bytes" where
  "get_table L key =
     (let s = md5 L key; a = le_val (take 8 s)
      in foldl (\<lambda>table i. sort_key (\<lambda>x. a mod (ordb x + i)) table) all_bytes [1..<1024])"

definition init_table :: "'o crypto_lib \<Rightarrow> bytes \<Rightarrow> bytes \<times> bytes" where
  "init_table L key =
     (let encrypt_table = get_table L key
      in (encrypt_table, maketrans encrypt_table all_bytes))"

subsection \<open>sodium.py\<close>

definition BLOCK_SIZE :: nat where
  "BLOCK_SIZE = 64"

record sodium_obj =
  s_name :: string
  s_key :: bytes
  s_iv :: bytes
  counter :: nat

definition sodium_init :: "string \<Rightarrow> bytes \<Rightarrow> bytes \<Rightarrow> sodium_obj res" where
  "sodium_init cipher_name key iv =
     (if cipher_name = ''salsa20'' \<or> cipher_name = ''chacha20'' \<or> cipher_name = ''chacha20-ietf''
      then Inr \<lparr>s_name = cipher_name, s_key = key, s_iv = iv, counter = 0\<rparr>
      else Inl (Exc ''Unknown cipher''))"

definition sodium_update :: "'o crypto_lib \<Rightarrow> sodium_obj \<Rightarrow> bytes \<Rightarrow> bytes \<times> sodium_obj" where
  "sodium_update L c data =
     (let l = length data;
          padding = counter c mod BLOCK_SIZE;
          data' = (if padding \<noteq> 0 then replicate padding (chrb 0) @ data else data);
          buf = xor_ic L (s_name c) data' (s_iv c) (counter c div BLOCK_SIZE) (s_key c)
      in (py_sub buf padding (padding + l), c\<lparr>counter := counter c + l\<rparr>))"

subsection \<open>One cipher object\<close>

datatype 'o cipher_obj =
    EvpObj 'o
  | SodiumObj sodium_obj
  | TableObj nat bytes bytes
  | NoneObj

datatype cipher_class = Rc4Md5 | OpenSSLCrypto | SodiumCrypto | TableCipher | NoneCipher

text \<open>The classes' constructors; \<^verbatim>\<open>rc4_md5.create_cipher\<close> derives an RC4 key from key and
  iv.\<close>

definition make_cipher :: "'o crypto_lib \<Rightarrow> cipher_class \<Rightarrow> string \<Rightarrow> bytes \<Rightarrow> bytes \<Rightarrow> nat
    \<Rightarrow> 'o cipher_obj res" where
  "make_cipher L cls name key iv op =
     (case cls of
        OpenSSLCrypto \<Rightarrow>
          (case evp_init L name key iv op of
             None \<Rightarrow> Inl (Exc ''cipher not found in libcrypto'')
           | Some x \<Rightarrow> Inr (EvpObj x))
      | Rc4Md5 \<Rightarrow>
          (case evp_init L ''rc4'' (md5 L (key @ iv)) [] op of
             None \<Rightarrow> Inl (Exc ''cipher not found in libcrypto'')
           | Some x \<Rightarrow> Inr (EvpObj x))
      | SodiumCrypto \<Rightarrow> rbind (sodium_init name key iv) (\<lambda>c. Inr (SodiumObj c))
      | TableCipher \<Rightarrow> (let (e, d) = init_table L key in Inr (TableObj op e d))
      | NoneCipher \<Rightarrow> Inr NoneObj)"

fun update_cipher :: "'o crypto_lib \<Rightarrow> 'o cipher_obj \<Rightarrow> bytes \<Rightarrow> bytes \<times> 'o cipher_obj" where
  "update_cipher L (EvpObj x) data = (case evp_update L x data of (r, x') \<Rightarrow> (r, EvpObj x'))"
| "update_cipher L (SodiumObj c) data = (case sodium_update L c data of (r, c') \<Rightarrow> (r, SodiumObj c'))"
| "update_cipher L (TableObj op e d) data =
     ((if op \<noteq> 0 then translate data e else translate data d), TableObj op e d)"
| "update_cipher L NoneObj data = (data, NoneObj)"

text \<open>The dictionaries \<^verbatim>\<open>ciphers\<close>: key length, iv length, class.\<close>

definition rc4_md5_ciphers :: "(string \<times> nat \<times> nat \<times> cipher_class) list" where
  "rc4_md5_ciphers = [(''rc4-md5'', 16, 16, Rc4Md5), (''rc4-md5-6'', 16, 6, Rc4Md5)]"

definition openssl_ciphers :: "(string \<times> nat \<times> nat \<times> cipher_class) list" where
  "openssl_ciphers =
    [(''aes-128-cbc'', 16, 16, OpenSSLCrypto), (''aes-192-cbc'', 24, 16, OpenSSLCrypto),
     (''aes-256-cbc'', 32, 16, OpenSSLCrypto), (''aes-128-cfb'', 16, 16, OpenSSLCrypto),
     (''aes-192-cfb'', 24, 16, OpenSSLCrypto), (''aes-256-cfb'', 32, 16, OpenSSLCrypto),
     (''aes-128-ofb'', 16, 16, OpenSSLCrypto), (''aes-192-ofb'', 24, 16, OpenSSLCrypto),
     (''aes-256-ofb'', 32, 16, OpenSSLCrypto), (''aes-128-ctr'', 16, 16, OpenSSLCrypto),
     (''aes-192-ctr'', 24, 16, OpenSSLCrypto), (''aes-256-ctr'', 32, 16, OpenSSLCrypto),
     (''aes-128-cfb8'', 16, 16, OpenSSLCrypto), (''aes-192-cfb8'', 24, 16, OpenSSLCrypto),
     (''aes-256-cfb8'', 32, 16, OpenSSLCrypto), (''aes-128-cfb1'', 16, 16, OpenSSLCrypto),
     (''aes-192-cfb1'', 24, 16, OpenSSLCrypto), (''aes-256-cfb1'', 32, 16, OpenSSLCrypto),
     (''bf-cfb'', 16, 8, OpenSSLCrypto), (''camellia-128-cfb'', 16, 16, OpenSSLCrypto),
     (''camellia-192-cfb'', 24, 16, OpenSSLCrypto), (''camellia-256-cfb'', 32, 16, OpenSSLCrypto),
     (''cast5-cfb'', 16, 8, OpenSSLCrypto), (''des-cfb'', 8, 8, OpenSSLCrypto),
     (''idea-cfb'', 16, 8, OpenSSLCrypto), (''rc2-cfb'', 16, 8, OpenSSLCrypto),
     (''rc4'', 16, 0, OpenSSLCrypto), (''seed-cfb'', 16, 16, OpenSSLCrypto)]"

definition sodium_ciphers :: "(string \<times> nat \<times> nat \<times> cipher_class) list" where
  "sodium_ciphers =
    [(''salsa20'', 32, 8, SodiumCrypto), (''chacha20'', 32, 8, SodiumCrypto),
     (''chacha20-ietf'', 32, 12, SodiumCrypto)]"

definition table_ciphers :: "(string \<times> nat \<times> nat \<times> cipher_class) list" where
  "table_ciphers = [(''none'', 16, 0, NoneCipher), (''table'', 16, 0, TableCipher)]"

text \<open>The updates of \<^verbatim>\<open>method_supported\<close> in encrypt.py: the names are distinct, so the
  order does not matter.\<close>

definition method_supported :: "string \<Rightarrow> (nat \<times> nat \<times> cipher_class) option" where
  "method_supported = map_of (table_ciphers @ sodium_ciphers @ openssl_ciphers @ rc4_md5_ciphers)"

subsection \<open>The substitution of the table cipher is invertible\<close>

lemma length_all_bytes [simp]: "length all_bytes = 256"
  by (simp add: all_bytes_def)

lemma all_bytes_nth [simp]: "n < 256 \<Longrightarrow> all_bytes ! n = chrb n"
  by (simp add: all_bytes_def)

lemma distinct_all_bytes: "distinct all_bytes"
  by (rule distinct_conv_nth [THEN iffD2]) (auto dest: arg_cong [of _ _ ordb])

lemma set_all_bytes: "set all_bytes = UNIV"
proof -
  have "c \<in> set all_bytes" for c
    using nth_mem [of "ordb c" all_bytes] by simp
  then show ?thesis by auto
qed

lemma get_table_mset: "mset (get_table L key) = mset all_bytes"
proof -
  have "mset (foldl (\<lambda>table i. sort_key (f i) table) t is) = mset t"
    for f :: "nat \<Rightarrow> char \<Rightarrow> nat" and t "is"
    by (induction "is" arbitrary: t) simp_all
  then show ?thesis by (simp add: get_table_def Let_def)
qed

lemma get_table_perm: "length (get_table L key) = 256" "distinct (get_table L key)"
  using mset_eq_length [OF get_table_mset] mset_eq_imp_distinct_iff [OF get_table_mset]
  by (simp_all add: distinct_all_bytes)

lemma maketrans_length: "length (maketrans frm to) = 256"
proof -
  have "length (foldl (\<lambda>t (f, x). t[ordb f := x]) u ps) = length u"
    for u :: bytes and ps :: "(char \<times> char) list"
    by (induction ps arbitrary: u) (auto split: prod.splits)
  then show ?thesis by (simp add: maketrans_def)
qed

lemma foldl_update_other:
  "c \<notin> set (map fst ps) \<Longrightarrow>
   foldl (\<lambda>t (f, x). t[ordb f := x]) u ps ! ordb c = u ! ordb c"
  for u :: "'a list" and ps :: "(char \<times> 'a) list"
  by (induction ps arbitrary: u) (auto split: prod.splits)

lemma maketrans_nth:
  assumes "distinct frm" and "length frm = length to" and "i < length frm"
  shows "maketrans frm to ! ordb (frm ! i) = to ! i"
proof -
  have "foldl (\<lambda>t (f, x). t[ordb f := x]) u (zip frm to) ! ordb (frm ! i) = to ! i"
    if "length u = 256" for u
    using assms(2,1,3) that
  proof (induction frm to arbitrary: i u rule: list_induct2)
    case (Cons f frm x to)
    show ?case
    proof (cases i)
      case 0
      have "f \<notin> set (map fst (zip frm to))" using Cons.prems Cons.hyps by simp
      from foldl_update_other [OF this, of "u[ordb f := x]"] show ?thesis
        using 0 Cons.prems by simp
    qed (use Cons in simp)
  qed simp
  then show ?thesis by (simp add: maketrans_def)
qed

lemma decrypt_encrypt_table:
  assumes "init_table L key = (e, d)"
  shows "translate (translate data e) d = data" "translate (translate data d) e = data"
proof -
  have e: "e = get_table L key" and d: "d = maketrans e all_bytes"
    using assms by (auto simp: init_table_def Let_def)
  have de: "d ! ordb (e ! i) = chrb i" if "i < 256" for i
    using maketrans_nth [of e all_bytes i] that get_table_perm [of L key] by (simp add: e d)
  have "d ! ordb (e ! ordb c) = c" for c using de [of "ordb c"] by simp
  then show "translate (translate data e) d = data" by (simp add: translate_def comp_def)
  have "e ! ordb (d ! ordb c) = c" for c
  proof -
    have "c \<in> set e"
      using mset_eq_setD [OF get_table_mset [of L key]] by (simp add: e set_all_bytes)
    then obtain i where "i < 256" "e ! i = c" using get_table_perm(1) [of L key] e by (metis in_set_conv_nth)
    then show ?thesis using de [of i] by auto
  qed
  then show "translate (translate data d) e = data" by (simp add: translate_def comp_def)
qed

subsection \<open>Stream ciphers\<close>

text \<open>What the relay code needs of a pair of cipher objects, the encrypting one \<open>e\<close> and the
  decrypting one \<open>d\<close>: each keeps lengths and does not care how its input is split, and \<open>d\<close>
  undoes \<open>e\<close> step by step.\<close>

definition splits_freely :: "('c \<Rightarrow> bytes \<Rightarrow> bytes \<times> 'c) \<Rightarrow> 'c \<Rightarrow> bool" where
  "splits_freely upd c \<longleftrightarrow>
     upd c [] = ([], c)
     \<and> (\<forall>x y. upd c (x @ y) = (case upd c x of (a, c1) \<Rightarrow> case upd c1 y of (b, c2) \<Rightarrow> (a @ b, c2)))
     \<and> (\<forall>x. length (fst (upd c x)) = length x)"

locale stream_cipher =
  fixes upd :: "'c \<Rightarrow> bytes \<Rightarrow> bytes \<times> 'c"
    and pair :: "'c \<Rightarrow> 'c \<Rightarrow> bool"
  assumes pair_splits: "pair e d \<Longrightarrow> splits_freely upd e \<and> splits_freely upd d"
    and pair_undo: "pair e d \<Longrightarrow> upd e x = (y, e') \<Longrightarrow> \<exists>d'. upd d y = (x, d') \<and> pair e' d'"
begin

lemma pair_length: "pair e d \<Longrightarrow> upd e x = (y, e') \<Longrightarrow> length y = length x"
  using pair_splits by (metis fst_conv splits_freely_def)

lemma pair_append:
  assumes "pair e d"
  shows "upd e (x @ y) = (case upd e x of (a, c1) \<Rightarrow> case upd c1 y of (b, c2) \<Rightarrow> (a @ b, c2))"
    and "upd d (x @ y) = (case upd d x of (a, c1) \<Rightarrow> case upd c1 y of (b, c2) \<Rightarrow> (a @ b, c2))"
  using pair_splits [OF assms] by (simp_all add: splits_freely_def)

lemma pair_nil: "pair e d \<Longrightarrow> upd e [] = ([], e) \<and> upd d [] = ([], d)"
  using pair_splits by (simp add: splits_freely_def)

end

fun feed :: "('c \<Rightarrow> bytes \<Rightarrow> bytes \<times> 'c) \<Rightarrow> 'c \<Rightarrow> bytes list \<Rightarrow> bytes \<times> 'c" where
  "feed upd c [] = ([], c)"
| "feed upd c (x # xs) = (case upd c x of (a, c1) \<Rightarrow> case feed upd c1 xs of (b, c2) \<Rightarrow> (a @ b, c2))"

context stream_cipher
begin

lemma feed_encrypt: "pair e d \<Longrightarrow> feed upd e xs = upd e (concat xs)"
proof (induction xs arbitrary: e d)
  case (Cons x xs)
  obtain y e' where y: "upd e x = (y, e')" by fastforce
  then obtain d' where "pair e' d'" using pair_undo [OF Cons.prems] by blast
  from Cons.IH [OF this] show ?case
    using y by (simp add: pair_append(1) [OF Cons.prems] split: prod.split)
qed (simp add: pair_nil)

lemma feed_decrypt: "pair e d \<Longrightarrow> upd e p = (concat ys, e') \<Longrightarrow> \<exists>d'. feed upd d ys = (p, d') \<and> pair e' d'"
proof (induction ys arbitrary: e d p)
  case Nil
  then have "p = []" using pair_length [OF Nil.prems] by simp
  then show ?case using Nil pair_nil [OF Nil.prems(1)] by auto
next
  case (Cons y ys)
  let ?p = "take (length y) p" and ?q = "drop (length y) p"
  obtain a e1 where a: "upd e ?p = (a, e1)" by fastforce
  obtain d1 where d1: "upd d a = (?p, d1)" "pair e1 d1" using pair_undo [OF Cons.prems(1) a] by blast
  obtain b e2 where b: "upd e1 ?q = (b, e2)" by fastforce
  have "upd e (?p @ ?q) = (a @ b, e2)"
    unfolding pair_append(1) [OF Cons.prems(1)] using a b by simp
  then have eq: "a @ b = y @ concat ys" "e2 = e'"
    using Cons.prems(2) by simp_all
  have "length p = length (y @ concat ys)" using pair_length [OF Cons.prems] by simp
  then have "length a = length y" using pair_length [OF Cons.prems(1) a] by simp
  then have ab: "a = y" "b = concat ys" using eq(1) by simp_all
  obtain d2 where "feed upd d1 ys = (?q, d2)" "pair e' d2"
    using Cons.IH [OF d1(2)] b ab eq(2) by auto
  then show ?case using d1(1) ab by simp
qed

end

text \<open>The table and null ciphers are such pairs as they stand.\<close>

fun table_pair :: "'o cipher_obj \<Rightarrow> 'o cipher_obj \<Rightarrow> bool" where
  "table_pair (TableObj op e d) (TableObj op' e' d') =
     (op \<noteq> 0 \<and> op' = 0 \<and> e = e' \<and> d = d' \<and> (\<forall>x. translate (translate x e) d = x))"
| "table_pair NoneObj NoneObj = True"
| "table_pair _ _ = False"

lemma table_pair_cases:
  assumes "table_pair a b"
  obtains (table) op e d where "a = TableObj op e d" "b = TableObj 0 e d" "op \<noteq> 0"
      "\<forall>x. translate (translate x e) d = x"
    | (none) "a = NoneObj" "b = NoneObj"
  using assms by (cases "(a, b)" rule: table_pair.cases) auto

lemma splits_freely_table: "splits_freely (update_cipher L) (TableObj op e d)"
  "splits_freely (update_cipher L) NoneObj"
  by (simp_all add: splits_freely_def translate_def)

interpretation tab: stream_cipher "update_cipher L" table_pair
proof unfold_locales
  fix e d :: "'a cipher_obj"
  assume "table_pair e d"
  then show "splits_freely (update_cipher L) e \<and> splits_freely (update_cipher L) d"
    by (cases rule: table_pair_cases) (simp_all add: splits_freely_table)
next
  fix e d :: "'a cipher_obj" and x y e'
  assume "table_pair e d" and "update_cipher L e x = (y, e')"
  then show "\<exists>d'. update_cipher L d y = (x, d') \<and> table_pair e' d'"
    by (cases rule: table_pair_cases) auto
qed

subsection \<open>The byte counter over libsodium's blocks\<close>

definition xor_bytes :: "bytes \<Rightarrow> bytes \<Rightarrow> bytes" where
  "xor_bytes a b = map2 (\<lambda>x y. chrb (ordb x XOR ordb y)) a b"

definition key_bytes :: "(nat \<Rightarrow> char) \<Rightarrow> nat \<Rightarrow> nat \<Rightarrow> bytes" where
  "key_bytes ks i n = map ks [i..<i + n]"

text \<open>The documented behaviour of \<^verbatim>\<open>crypto_stream_*_xor_ic\<close>: the message is combined
  with the key stream of (key, iv) from block \<open>ic\<close> on, a block having 64 bytes.\<close>

definition sodium_stream :: "'o crypto_lib \<Rightarrow> (string \<Rightarrow> bytes \<Rightarrow> bytes \<Rightarrow> nat \<Rightarrow> char) \<Rightarrow> bool" where
  "sodium_stream L ks \<longleftrightarrow> (\<forall>name data iv ic key.
     xor_ic L name data iv ic key = xor_bytes data (key_bytes (ks name key iv) (64 * ic) (length data)))"

lemma length_key_bytes [simp]: "length (key_bytes ks i n) = n"
  by (simp add: key_bytes_def)

lemma key_bytes_0 [simp]: "key_bytes ks i 0 = []"
  by (simp add: key_bytes_def)

lemma key_bytes_add: "key_bytes ks i (m + n) = key_bytes ks i m @ key_bytes ks (i + m) n"
proof -
  have "[i..<i + (m + n)] = [i..<i + m] @ [i + m..<i + m + n]"
    by (metis add.assoc upt_add_eq_append le_add1)
  then show ?thesis by (simp add: key_bytes_def)
qed

lemma xor_bytes_append:
  "length a = length b \<Longrightarrow> xor_bytes (a @ a') (b @ b') = xor_bytes a b @ xor_bytes a' b'"
  by (simp add: xor_bytes_def)

lemma length_xor_bytes [simp]: "length (xor_bytes a b) = min (length a) (length b)"
  by (simp add: xor_bytes_def)

lemma xor_byte_twice: "chrb ((ordb x XOR ordb k) mod 256 XOR ordb k) = x"
proof -
  have "ordb x XOR ordb k < 256"
    using xor_nat_less [of "ordb x" 8 "ordb k"] by simp
  then show ?thesis by simp
qed

lemma xor_bytes_twice: "length b = length a \<Longrightarrow> xor_bytes (xor_bytes a b) b = a"
  by (induction a b rule: list_induct2') (simp_all add: xor_bytes_def xor_byte_twice)

text \<open>An update at any byte position continues the key stream there.\<close>

lemma sodium_update_eq:
  assumes "sodium_stream L ks"
  shows "sodium_update L c data =
    (xor_bytes data (key_bytes (ks (s_name c) (s_key c) (s_iv c)) (counter c) (length data)),
     c\<lparr>counter := counter c + length data\<rparr>)"
proof -
  let ?k = "ks (s_name c) (s_key c) (s_iv c)"
  let ?p = "counter c mod 64" and ?b = "64 * (counter c div 64)"
  have bp: "?b + ?p = counter c" by simp
  let ?d = "if ?p \<noteq> 0 then replicate ?p (chrb 0) @ data else data"
  have "xor_bytes ?d (key_bytes ?k ?b (?p + length data))
      = xor_bytes (replicate ?p (chrb 0)) (key_bytes ?k ?b ?p) @ xor_bytes data (key_bytes ?k (counter c) (length data))"
    unfolding key_bytes_add bp by (simp add: xor_bytes_append) (simp add: xor_bytes_def)
  moreover have "length ?d = ?p + length data" by simp
  ultimately show ?thesis
    using assms by (simp add: sodium_update_def sodium_stream_def Let_def BLOCK_SIZE_def py_sub_def)
qed

lemma splits_freely_sodium:
  assumes "sodium_stream L ks"
  shows "splits_freely (update_cipher L) (SodiumObj c)"
  unfolding splits_freely_def
  by (simp add: sodium_update_eq [OF assms] key_bytes_add xor_bytes_append add.assoc)
     (simp add: xor_bytes_def)

lemma splits_freely_evp:
  "splits_freely (evp_update L) x \<Longrightarrow> splits_freely (update_cipher L) (EvpObj x)"
  by (simp add: splits_freely_def case_prod_beta)

text \<open>All cipher objects: given what libcrypto and libsodium document, an encrypting and a
  decrypting object of one method, key and iv are a stream cipher pair.\<close>

fun obj_pair :: "('o \<Rightarrow> 'o \<Rightarrow> bool) \<Rightarrow> 'o cipher_obj \<Rightarrow> 'o cipher_obj \<Rightarrow> bool" where
  "obj_pair R (EvpObj a) (EvpObj b) = R a b"
| "obj_pair R (SodiumObj a) (SodiumObj b) = (a = b)"
| "obj_pair R a b = table_pair a b"

lemma obj_pair_cases:
  assumes "obj_pair R a b"
  obtains (evp) x y where "a = EvpObj x" "b = EvpObj y" "R x y"
    | (sodium) c where "a = SodiumObj c" "b = SodiumObj c"
    | (table) "table_pair a b"
  using assms by (cases "(R, a, b)" rule: obj_pair.cases) auto

lemma table_pair_obj_pair: "table_pair a b \<Longrightarrow> obj_pair R a b"
  by (cases "(R, a, b)" rule: obj_pair.cases) auto

theorem cipher_objects_stream:
  assumes evp: "stream_cipher (evp_update L) R" and sodium: "sodium_stream L ks"
  shows "stream_cipher (update_cipher L) (obj_pair R)"
proof
  fix a b
  assume "obj_pair R a b"
  then show "splits_freely (update_cipher L) a \<and> splits_freely (update_cipher L) b"
  proof (cases rule: obj_pair_cases)
    case (evp x y)
    then have "splits_freely (evp_update L) x \<and> splits_freely (evp_update L) y"
      using stream_cipher.pair_splits [OF assms(1)] by blast
    with evp show ?thesis by (simp add: splits_freely_evp)
  qed (use splits_freely_sodium [OF sodium] tab.pair_splits in blast)+
next
  fix a b x y a'
  assume p: "obj_pair R a b" and u: "update_cipher L a x = (y, a')"
  from p show "\<exists>b'. update_cipher L b y = (x, b') \<and> obj_pair R a' b'"
  proof (cases rule: obj_pair_cases)
    case (evp e d)
    then show ?thesis
      using stream_cipher.pair_undo [OF assms(1)] u by (fastforce split: prod.splits)
  next
    case (sodium c)
    then show ?thesis
      using u by (auto simp: sodium_update_eq [OF assms(2)] xor_bytes_twice)
  next
    case table
    then show ?thesis using tab.pair_undo [OF table u] table_pair_obj_pair by blast
  qed
qed

text \<open>A concrete library for the examples: a key stream of counted bytes, no key dependence.\<close>

definition plain_lib :: "unit crypto_lib" where
  "plain_lib = \<lparr>md5 = (\<lambda>x. replicate 16 (CHR ''k'')), evp_init = (\<lambda>_ _ _ _. Some ()),
     evp_update = (\<lambda>c x. (x, c)),
     xor_ic = (\<lambda>name data iv ic key. xor_bytes data (key_bytes chrb (64 * ic) (length data)))\<rparr>"

lemma plain_lib_stream: "stream_cipher (evp_update plain_lib) (\<lambda>_ _. True)"
  by unfold_locales (simp_all add: plain_lib_def splits_freely_def)

lemma plain_lib_sodium: "sodium_stream plain_lib (\<lambda>_ _ _. chrb)"
  by (simp add: sodium_stream_def plain_lib_def)

subsection \<open>Properties\<close>

text \<open>The table cipher is a bijection on byte strings for every password: the decryption table
  made from the sorted encryption table inverts it, and the other way round.\<close>

theorem table_cipher_bijective:
  "(case init_table L key of (e, d) \<Rightarrow>
     fst (update_cipher L (TableObj 0 e d) (fst (update_cipher L (TableObj 1 e d) data))) = data
     \<and> fst (update_cipher L (TableObj 1 e d) (fst (update_cipher L (TableObj 0 e d) data))) = data)"
proof -
  obtain e d where i: "init_table L key = (e, d)" by fastforce
  show ?thesis using decrypt_encrypt_table [OF i] i by simp
qed

text \<open>\<^verbatim>\<open>SodiumCrypto.update\<close> at any byte position is the exclusive or with the key stream
  from that position, although the library counts blocks of 64 bytes: pieces of any length give
  the bytes that one call would.\<close>

theorem sodium_update_bytewise:
  assumes "sodium_stream L ks"
  shows "fst (sodium_update L c data)
      = xor_bytes data (map (ks (s_name c) (s_key c) (s_iv c)) [counter c..<counter c + length data])
    \<and> fst (sodium_update L c (x @ y))
      = fst (sodium_update L c x) @ fst (sodium_update L (snd (sodium_update L c x)) y)"
  by (simp add: sodium_update_eq [OF assms] key_bytes_add xor_bytes_append key_bytes_def [symmetric])

theorem sodium_update_bytewise_witness:
  "fst (sodium_update plain_lib \<lparr>s_name = ''salsa20'', s_key = ''k'', s_iv = ''v'', counter = 70\<rparr> ''abc'')
     = xor_bytes ''abc'' (map chrb [70..<73])"
  using sodium_update_bytewise [OF plain_lib_sodium,
      of "\<lparr>s_name = ''salsa20'', s_key = ''k'', s_iv = ''v'', counter = 70\<rparr>" "''abc''"]
  by simp

end
