(* ===== verification/Encryptor.thy ===== *)
theory Encryptor
  imports Ciphers "HOL-Library.AList"
begin

text \<open>
  \<^verbatim>\<open>shadowsocks/encrypt.py\<close>: the key derivation \<^verbatim>\<open>EVP_BytesToKey\<close> with its cache,
  the class \<^verbatim>\<open>Encryptor\<close>, which sends a fresh iv before the first encrypted bytes and
  waits for the peer's iv before it decrypts, and the one-shot functions. The main result
  is that decryption inverts encryption whatever way the stream is cut into pieces on
  either side. A call of \<^verbatim>\<open>password.encode\<close> on a byte string decodes it as ASCII first.
\<close>

subsection \<open>EVP\_BytesToKey\<close>

fun key_loop :: "nat \<Rightarrow> (bytes \<Rightarrow> bytes) \<Rightarrow> bytes \<Rightarrow> nat \<Rightarrow> bytes list \<Rightarrow> bytes list option" where
  "key_loop 0 h password need m = None"
| "key_loop (Suc fuel) h password need m =
     (if length (concat m) < need
      then key_loop fuel h password need
             (m @ [h (if m \<noteq> [] then last m @ password else password)])
      else Some m)"

definition is_ascii :: "bytes \<Rightarrow> bool" where
  "is_ascii s \<longleftrightarrow> (\<forall>c \<in> set s. ordb c < 128)"

text \<open>The computation past the cache; one digest adds at least a byte, so as many rounds as
  bytes are enough.\<close>

definition derive_key :: "'o crypto_lib \<Rightarrow> bytes \<Rightarrow> nat \<Rightarrow> nat \<Rightarrow> (bytes \<times> bytes) res" where
  "derive_key L password key_len iv_len =
     (if \<not> is_ascii password then Inl UnicodeDecodeError
      else case key_loop (key_len + iv_len + 1) (md5 L) password (key_len + iv_len) [] of
             None \<Rightarrow> Inl NoReturn
           | Some m \<Rightarrow>
               (let ms = concat m in Inr (take key_len ms, py_sub ms key_len (key_len + iv_len))))"

type_synonym key_cache = "(bytes \<times> (bytes \<times> bytes)) list"

definition cached_key :: "bytes \<Rightarrow> nat \<Rightarrow> nat \<Rightarrow> bytes" where
  "cached_key password key_len iv_len = password @ ''-'' @ dec key_len @ ''-'' @ dec iv_len"

definition EVP_BytesToKey :: "'o crypto_lib \<Rightarrow> bytes \<Rightarrow> nat \<Rightarrow> nat \<Rightarrow> key_cache
    \<Rightarrow> (bytes \<times> bytes) res \<times> key_cache" where
  "EVP_BytesToKey L password key_len iv_len cached_keys =
     (if \<not> is_ascii password then (Inl UnicodeDecodeError, cached_keys)
      else case map_of cached_keys (cached_key password key_len iv_len) of
             Some r \<Rightarrow> (Inr r, cached_keys)
           | None \<Rightarrow>
               (case derive_key L password key_len iv_len of
                  Inl e \<Rightarrow> (Inl e, cached_keys)
                | Inr (key, iv) \<Rightarrow>
                    (Inr (key, iv),
                     AList.update (cached_key password key_len iv_len) (key, iv) cached_keys)))"

subsection \<open>The class\<close>

record 'o encryptor =
  enc_key :: bytes
  enc_method :: string
  iv_sent :: bool
  cipher_iv :: bytes
  iv_buf :: bytes
  cipher_key :: bytes
  decipher :: "'o cipher_obj option"
  method_info :: "nat \<times> nat \<times> cipher_class"
  cipher :: "'o cipher_obj"

definition get_method_info :: "string \<Rightarrow> (nat \<times> nat \<times> cipher_class) option" where
  "get_method_info m = method_supported (lower m)"

text \<open>\<^verbatim>\<open>get_cipher\<close> returns the object with the key and the iv it was made of, which the
  callers store. The cache of keys is transparent (\<open>EVP_BytesToKey_cached\<close> below) and left
  out here.\<close>

definition get_cipher :: "'o crypto_lib \<Rightarrow> nat \<times> nat \<times> cipher_class \<Rightarrow> bytes \<Rightarrow> string \<Rightarrow> nat \<Rightarrow> bytes
    \<Rightarrow> ('o cipher_obj \<times> bytes \<times> bytes) res" where
  "get_cipher L m password method op iv =
     (case m of (key_len, iv_len, cls) \<Rightarrow>
        rbind (if key_len > 0
               then rbind (derive_key L password key_len iv_len) (\<lambda>(key, iv2). Inr (key, iv))
               else Inr (password, []))
          (\<lambda>(key, iv').
             let iv'' = take iv_len iv'
             in rbind (make_cipher L cls method key iv'' op) (\<lambda>c. Inr (c, key, iv''))))"

definition choose_iv :: "bytes option \<Rightarrow> nat \<Rightarrow> tape \<Rightarrow> bytes \<times> tape" where
  "choose_iv iv iv_len t =
     (case iv of
        None \<Rightarrow> urandom iv_len t
      | Some v \<Rightarrow> if length v \<noteq> iv_len then urandom iv_len t else (v, t))"

definition encryptor_new :: "'o crypto_lib \<Rightarrow> bytes \<Rightarrow> string \<Rightarrow> bytes option \<Rightarrow> tape
    \<Rightarrow> 'o encryptor res \<times> tape" where
  "encryptor_new L key meth iv t =
     (case get_method_info (lower meth) of
        None \<Rightarrow> (Inl SystemExit, t)
      | Some (key_len, iv_len, cls) \<Rightarrow>
          (let (iv', t') = choose_iv iv iv_len t
           in (rbind (get_cipher L (key_len, iv_len, cls) key (lower meth) 1 iv')
                 (\<lambda>(c, k, v).
                    Inr \<lparr>enc_key = key, enc_method = meth, iv_sent = False, cipher_iv = v,
                         iv_buf = [], cipher_key = k, decipher = None,
                         method_info = (key_len, iv_len, cls), cipher = c\<rparr>), t')))"

definition enc_iv_len :: "'o encryptor \<Rightarrow> nat" where
  "enc_iv_len e = length (cipher_iv e)"

definition encrypt :: "'o crypto_lib \<Rightarrow> bytes \<Rightarrow> 'o encryptor \<Rightarrow> bytes \<times> 'o encryptor" where
  "encrypt L buf e =
     (if length buf = 0 then (buf, e)
      else if iv_sent e then
        (let (r, c) = update_cipher L (cipher e) buf in (r, e\<lparr>cipher := c\<rparr>))
      else
        (let (r, c) = update_cipher L (cipher e) buf
         in (cipher_iv e @ r, e\<lparr>iv_sent := True, cipher := c\<rparr>)))"

text \<open>The attribute \<^verbatim>\<open>iv_buf\<close> that the code deletes is emptied here: it is not read again
  once there is a decipher.\<close>

definition decrypt :: "'o crypto_lib \<Rightarrow> bytes \<Rightarrow> 'o encryptor \<Rightarrow> bytes res \<times> 'o encryptor" where
  "decrypt L buf e =
     (if length buf = 0 then (Inr buf, e)
      else case decipher e of
        Some d \<Rightarrow> (let (r, d') = update_cipher L d buf in (Inr r, e\<lparr>decipher := Some d'\<rparr>))
      | None \<Rightarrow>
          (let decipher_iv_len = fst (snd (method_info e));
               e1 = (if length (iv_buf e) \<le> decipher_iv_len
                     then e\<lparr>iv_buf := iv_buf e @ buf\<rparr> else e)
           in if length (iv_buf e1) > decipher_iv_len then
                (case get_cipher L (method_info e1) (enc_key e1) (enc_method e1) 0
                        (take decipher_iv_len (iv_buf e1)) of
                   Inl x \<Rightarrow> (Inl x, e1)
                 | Inr (d, k, v) \<Rightarrow>
                     (let (r, d') = update_cipher L d (drop decipher_iv_len (iv_buf e1))
                      in (Inr r, e1\<lparr>cipher_key := k, iv_buf := [], decipher := Some d'\<rparr>)))
              else (Inr [], e1)))"

subsection \<open>The one-shot functions\<close>

definition method_entry :: "string \<Rightarrow> (nat \<times> nat \<times> cipher_class) res" where
  "method_entry meth = (case method_supported (lower meth) of None \<Rightarrow> Inl KeyError | Some m \<Rightarrow> Inr m)"

definition encrypt_key :: "'o crypto_lib \<Rightarrow> bytes \<Rightarrow> string \<Rightarrow> bytes res" where
  "encrypt_key L password meth =
     rbind (method_entry meth) (\<lambda>(key_len, iv_len, m).
       if key_len > 0 then rbind (derive_key L password key_len iv_len) (\<lambda>(key, _). Inr key)
       else Inr password)"

definition encrypt_all :: "'o crypto_lib \<Rightarrow> bytes \<Rightarrow> string \<Rightarrow> nat \<Rightarrow> bytes \<Rightarrow> tape \<Rightarrow> bytes res \<times> tape" where
  "encrypt_all L password meth op data t =
     (case method_entry meth of
        Inl e \<Rightarrow> (Inl e, t)
      | Inr (key_len, iv_len, m) \<Rightarrow>
          (case encrypt_key L password meth of
             Inl e \<Rightarrow> (Inl e, t)
           | Inr key \<Rightarrow>
               (let (out, iv, rest, t') =
                      (if op \<noteq> 0 then (let (iv, t') = urandom iv_len t in (iv, iv, data, t'))
                       else ([], take iv_len data, drop iv_len data, t))
                in (rbind (make_cipher L m (lower meth) key iv op)
                      (\<lambda>c. Inr (out @ fst (update_cipher L c rest))), t'))))"

definition encrypt_iv_len :: "string \<Rightarrow> nat res" where
  "encrypt_iv_len meth = rbind (method_entry meth) (\<lambda>(key_len, iv_len, m). Inr iv_len)"

definition encrypt_new_iv :: "string \<Rightarrow> tape \<Rightarrow> bytes res \<times> tape" where
  "encrypt_new_iv meth t =
     (case method_entry meth of
        Inl e \<Rightarrow> (Inl e, t)
      | Inr (key_len, iv_len, m) \<Rightarrow> (let (iv, t') = urandom iv_len t in (Inr iv, t')))"

text \<open>\<^verbatim>\<open>encrypt_all_iv\<close> reads or sets the cell \<^verbatim>\<open>ref_iv[0]\<close>.\<close>

definition encrypt_all_iv :: "'o crypto_lib \<Rightarrow> bytes \<Rightarrow> string \<Rightarrow> nat \<Rightarrow> bytes \<Rightarrow> bytes
    \<Rightarrow> bytes res \<times> bytes" where
  "encrypt_all_iv L key meth op data ref_iv =
     (case method_entry meth of
        Inl e \<Rightarrow> (Inl e, ref_iv)
      | Inr (key_len, iv_len, m) \<Rightarrow>
          (let (out, iv, rest) = (if op \<noteq> 0 then (ref_iv, ref_iv, data)
                                  else ([], take iv_len data, drop iv_len data))
           in (rbind (make_cipher L m (lower meth) key iv op)
                 (\<lambda>c. Inr (out @ fst (update_cipher L c rest))), iv)))"

subsection \<open>Key derivation\<close>

lemma key_loop_enough:
  assumes "\<And>x. length (h x) \<ge> 1" and "need < length (concat m) + fuel" and "0 < fuel"
  shows "\<exists>m'. key_loop fuel h password need m = Some m' \<and> need \<le> length (concat m')"
  using assms(2,3)
proof (induction fuel arbitrary: m)
  case (Suc fuel)
  let ?d = "h (if m \<noteq> [] then last m @ password else password)"
  show ?case
  proof (cases "length (concat m) < need")
    case True
    have d: "length ?d \<ge> 1" by (rule assms(1))
    have "need < length (concat (m @ [?d])) + fuel" "0 < fuel"
      using Suc.prems(1) True d by auto
    from Suc.IH [OF this] show ?thesis using True by simp
  next
    case False
    then show ?thesis by simp
  qed
qed simp

lemma derive_key_lengths:
  assumes "\<And>x. length (md5 L x) = 16" and "is_ascii password"
  shows "\<exists>key iv. derive_key L password key_len iv_len = Inr (key, iv)
    \<and> length key = key_len \<and> length iv = iv_len"
proof -
  obtain m where "key_loop (key_len + iv_len + 1) (md5 L) password (key_len + iv_len) [] = Some m"
      "key_len + iv_len \<le> length (concat m)"
    using key_loop_enough [of "md5 L" "key_len + iv_len" "[]" "key_len + iv_len + 1" password] assms(1)
    by auto
  then show ?thesis using assms(2) by (simp add: derive_key_def Let_def length_py_sub)
qed

text \<open>Distinct requests have distinct cache keys.\<close>

lemma last_dash:
  assumes "xs @ ''-'' @ ds = ys @ ''-'' @ es" and "CHR ''-'' \<notin> set ds" and "CHR ''-'' \<notin> set es"
  shows "xs = ys \<and> ds = es"
proof -
  have "length ds = length es"
  proof -
    have r: "rev ds @ CHR ''-'' # rev xs = rev es @ CHR ''-'' # rev ys"
      using arg_cong [OF assms(1), of rev] by simp
    have "length ds = length (takeWhile (\<lambda>c. c \<noteq> CHR ''-'') (rev ds @ CHR ''-'' # rev xs))"
      using assms(2) by (subst takeWhile_append2) auto
    also have "\<dots> = length es"
      unfolding r using assms(3) by (subst takeWhile_append2) auto
    finally show ?thesis .
  qed
  then show ?thesis using assms(1) by (simp add: append_eq_append_conv)
qed

lemma dash_not_dec: "CHR ''-'' \<notin> set (dec n)"
  using dec_digits [of "CHR ''-''" n] by (auto simp: is_digit_def)

lemma cached_key_inject: "cached_key p k i = cached_key p' k' i' \<longleftrightarrow> p = p' \<and> k = k' \<and> i = i'"
proof
  assume "cached_key p k i = cached_key p' k' i'"
  then have "(p @ ''-'' @ dec k) @ ''-'' @ dec i = (p' @ ''-'' @ dec k') @ ''-'' @ dec i'"
    by (simp add: cached_key_def)
  then have "p @ ''-'' @ dec k = p' @ ''-'' @ dec k' \<and> dec i = dec i'"
    by (rule last_dash) (rule dash_not_dec)+
  moreover from this have "p = p' \<and> dec k = dec k'"
    by (intro last_dash) (auto simp: dash_not_dec)
  ultimately show "p = p' \<and> k = k' \<and> i = i'" by simp
qed simp

definition cache_ok :: "'o crypto_lib \<Rightarrow> key_cache \<Rightarrow> bool" where
  "cache_ok L cs \<longleftrightarrow> (\<forall>p k i r. map_of cs (cached_key p k i) = Some r \<longrightarrow> derive_key L p k i = Inr r)"

lemma derive_key_ascii: "derive_key L p k i = Inr r \<Longrightarrow> is_ascii p"
  by (cases "is_ascii p") (simp_all add: derive_key_def)

lemma EVP_BytesToKey_cached:
  assumes "cache_ok L cs"
  shows "fst (EVP_BytesToKey L p k i cs) = derive_key L p k i \<and> cache_ok L (snd (EVP_BytesToKey L p k i cs))"
proof (cases "map_of cs (cached_key p k i)")
  case (Some r)
  moreover from this have "derive_key L p k i = Inr r" using assms unfolding cache_ok_def by blast
  ultimately show ?thesis
    using Some assms derive_key_ascii [of L p k i] by (simp add: EVP_BytesToKey_def)
next
  case None
  show ?thesis
  proof (cases "derive_key L p k i")
    case (Inl e)
    then show ?thesis
      using None assms by (simp add: EVP_BytesToKey_def) (auto simp: derive_key_def)
  next
    case (Inr r)
    then have "is_ascii p" by (rule derive_key_ascii)
    moreover have "cache_ok L (AList.update (cached_key p k i) r cs)"
      using assms Inr by (simp add: cache_ok_def update_conv' cached_key_inject)
    ultimately show ?thesis using None Inr by (cases r) (simp add: EVP_BytesToKey_def)
  qed
qed

subsection \<open>Streams through an encryptor and a decryptor\<close>

fun enc_feed :: "'o crypto_lib \<Rightarrow> bytes list \<Rightarrow> 'o encryptor \<Rightarrow> bytes \<times> 'o encryptor" where
  "enc_feed L [] e = ([], e)"
| "enc_feed L (x # xs) e =
     (let (a, e1) = encrypt L x e; (b, e2) = enc_feed L xs e1 in (a @ b, e2))"

fun dec_feed :: "'o crypto_lib \<Rightarrow> bytes list \<Rightarrow> 'o encryptor \<Rightarrow> bytes res \<times> 'o encryptor" where
  "dec_feed L [] e = (Inr [], e)"
| "dec_feed L (x # xs) e =
     (case decrypt L x e of
        (Inl r, e1) \<Rightarrow> (Inl r, e1)
      | (Inr a, e1) \<Rightarrow>
          (case dec_feed L xs e1 of
             (Inl r, e2) \<Rightarrow> (Inl r, e2)
           | (Inr b, e2) \<Rightarrow> (Inr (a @ b), e2)))"

lemma enc_feed_sent:
  assumes "stream_cipher (update_cipher L) P" and "P (cipher e) d" and "iv_sent e"
  shows "fst (enc_feed L xs e) = fst (update_cipher L (cipher e) (concat xs))"
  using assms(2,3)
proof (induction xs arbitrary: e d)
  case Nil
  then show ?case using stream_cipher.pair_nil [OF assms(1)] by simp
next
  case (Cons x xs)
  note app = stream_cipher.pair_append(1) [OF assms(1) Cons.prems(1)]
  show ?case
  proof (cases "x = []")
    case True
    then show ?thesis using Cons.IH [OF Cons.prems] by (simp add: encrypt_def case_prod_beta)
  next
    case False
    obtain r c where u: "update_cipher L (cipher e) x = (r, c)" by fastforce
    then obtain d' where "P c d'" using stream_cipher.pair_undo [OF assms(1) Cons.prems(1)] by blast
    then have "fst (enc_feed L xs (e\<lparr>cipher := c\<rparr>)) = fst (update_cipher L c (concat xs))"
      using Cons.IH [of "e\<lparr>cipher := c\<rparr>" d'] Cons.prems(2) by simp
    then show ?thesis
      using u False Cons.prems(2) by (simp add: encrypt_def app case_prod_beta)
  qed
qed

text \<open>The wire of a fresh encryptor: the iv and the encryption of all bytes, or nothing.\<close>

lemma enc_feed_fresh:
  assumes "stream_cipher (update_cipher L) P" and "P (cipher e) d" and "\<not> iv_sent e"
  shows "fst (enc_feed L xs e) =
    (if concat xs = [] then [] else cipher_iv e @ fst (update_cipher L (cipher e) (concat xs)))"
  using assms(2,3)
proof (induction xs)
  case (Cons x xs)
  note app = stream_cipher.pair_append(1) [OF assms(1) Cons.prems(1)]
  show ?case
  proof (cases "x = []")
    case True
    then show ?thesis using Cons.IH [OF Cons.prems] by (simp add: encrypt_def case_prod_beta)
  next
    case False
    obtain r c where u: "update_cipher L (cipher e) x = (r, c)" by fastforce
    then obtain d' where d': "P c d'" using stream_cipher.pair_undo [OF assms(1) Cons.prems(1)] by blast
    have "fst (enc_feed L xs (e\<lparr>iv_sent := True, cipher := c\<rparr>)) = fst (update_cipher L c (concat xs))"
      using enc_feed_sent [OF assms(1), of "e\<lparr>iv_sent := True, cipher := c\<rparr>" d' xs] d' by simp
    then show ?thesis
      using u False Cons.prems(2) by (simp add: encrypt_def app case_prod_beta)
  qed
qed simp

lemma dec_feed_started:
  assumes "stream_cipher (update_cipher L) P" and "P c d" and "decipher e = Some d"
    and "update_cipher L c p = (concat ys, c')"
  shows "fst (dec_feed L ys e) = Inr p"
  using assms(2-4)
proof (induction ys arbitrary: c d e p c')
  case Nil
  then show ?case using stream_cipher.pair_length [OF assms(1) Nil.prems(1,3)] by simp
next
  case (Cons y ys)
  show ?case
  proof (cases "y = []")
    case True
    then show ?thesis using Cons.IH [OF Cons.prems(1,2)] Cons.prems(3)
      by (auto simp: decrypt_def split: prod.splits sum.splits)
  next
    case False
    let ?p = "take (length y) p" and ?q = "drop (length y) p"
    obtain a c1 where a: "update_cipher L c ?p = (a, c1)" by fastforce
    obtain d1 where d1: "update_cipher L d a = (?p, d1)" "P c1 d1"
      using stream_cipher.pair_undo [OF assms(1) Cons.prems(1) a] by blast
    obtain b c2 where b: "update_cipher L c1 ?q = (b, c2)" by fastforce
    have "update_cipher L c (?p @ ?q) = (a @ b, c2)"
      unfolding stream_cipher.pair_append(1) [OF assms(1) Cons.prems(1)] using a b by simp
    then have eq: "a @ b = y @ concat ys" using Cons.prems(3) by simp
    have "length p = length (y @ concat ys)"
      using stream_cipher.pair_length [OF assms(1) Cons.prems(1,3)] by simp
    then have "length a = length y"
      using stream_cipher.pair_length [OF assms(1) Cons.prems(1) a] by simp
    then have ab: "a = y" "b = concat ys" using eq by simp_all
    have "fst (dec_feed L ys (e\<lparr>decipher := Some d1\<rparr>)) = Inr ?q"
      using Cons.IH [OF d1(2)] b ab by simp
    then show ?thesis
      using False Cons.prems(2) d1 ab by (auto simp: decrypt_def split: prod.splits sum.splits)
  qed
qed

text \<open>A fresh decryptor collects the iv, then makes its cipher and starts.\<close>

lemma dec_feed_fresh:
  assumes sc: "stream_cipher (update_cipher L) P"
    and get: "get_cipher L (method_info e) (enc_key e) (enc_method e) 0 iv = Inr (d, k, v)"
    and pair: "P c d" and il: "length iv = fst (snd (method_info e))"
    and upd: "update_cipher L c p = (y, c')" and y: "y \<noteq> []"
    and "decipher e = None" and "length (iv_buf e) \<le> length iv" and "iv_buf e @ concat ys = iv @ y"
  shows "fst (dec_feed L ys e) = Inr p"
  using assms(7-9) get il
proof (induction ys arbitrary: e)
  case Nil
  then show ?case using y by (metis append.right_neutral concat.simps(1) append_eq_append_conv_if drop_eq_Nil append_take_drop_id length_append le_add_same_cancel1 le_zero_eq length_0_conv add_le_same_cancel1)
next
  case (Cons x xs)
  let ?b = "iv_buf e @ x"
  show ?case
  proof (cases "x = []")
    case True
    then show ?thesis using Cons.IH [of e] Cons.prems
      by (auto simp: decrypt_def split: prod.splits sum.splits)
  next
    case x: False
    show ?thesis
    proof (cases "length ?b \<le> length iv")
      case True
      then have "fst (dec_feed L xs (e\<lparr>iv_buf := ?b\<rparr>)) = Inr p"
        using Cons.IH [of "e\<lparr>iv_buf := ?b\<rparr>"] Cons.prems by simp
      moreover have "decrypt L x e = (Inr [], e\<lparr>iv_buf := ?b\<rparr>)"
        using True x Cons.prems by (simp add: decrypt_def)
      ultimately show ?thesis by (auto split: prod.splits sum.splits)
    next
      case False
      let ?y = "drop (length iv) ?b"
      let ?e = "e\<lparr>iv_buf := [], cipher_key := k, decipher := Some d\<rparr>"
      have all: "?b @ concat xs = iv @ y" using Cons.prems(3) by simp
      have iv: "take (length iv) ?b = iv"
        using False arg_cong [OF all, of "take (length iv)"] by simp
      have ys: "y = concat (?y # xs)"
        using False arg_cong [OF all, of "drop (length iv)"] by simp
      have "decrypt L x e = decrypt L ?y ?e"
        using False x Cons.prems iv by (auto simp: decrypt_def split: prod.splits)
      then have "dec_feed L (x # xs) e = dec_feed L (?y # xs) ?e" by simp
      moreover have "fst (dec_feed L (?y # xs) ?e) = Inr p"
        using dec_feed_started [OF sc pair, of ?e p "?y # xs" c'] upd ys by simp
      ultimately show ?thesis by simp
    qed
  qed
qed

lemma method_key_len: "method_supported m = Some (key_len, iv_len, cls) \<Longrightarrow> key_len > 0"
  unfolding method_supported_def
  by (drule map_of_SomeD)
     (auto simp: table_ciphers_def sodium_ciphers_def openssl_ciphers_def rc4_md5_ciphers_def)

definition evp_name :: "cipher_class \<Rightarrow> string \<Rightarrow> string" where
  "evp_name cls name = (case cls of Rc4Md5 \<Rightarrow> ''rc4'' | _ \<Rightarrow> name)"

text \<open>The documented use of \<^verbatim>\<open>EVP_CipherInit_ex\<close>: one key and iv give a related pair of
  an encrypting and a decrypting context.\<close>

definition evp_pairs :: "'o crypto_lib \<Rightarrow> ('o \<Rightarrow> 'o \<Rightarrow> bool) \<Rightarrow> string \<Rightarrow> bool" where
  "evp_pairs L R name \<longleftrightarrow> (\<forall>key iv e. evp_init L name key iv 1 = Some e \<longrightarrow>
     (\<exists>d. evp_init L name key iv 0 = Some d \<and> R e d))"

lemma evp_pairsD:
  "evp_pairs L R n \<Longrightarrow> evp_init L n key iv 1 = Some e \<Longrightarrow> \<exists>d. evp_init L n key iv 0 = Some d \<and> R e d"
  unfolding evp_pairs_def by blast

lemma make_cipher_pairs:
  assumes "evp_pairs L R (evp_name cls name)" and "make_cipher L cls name key iv 1 = Inr e"
  shows "\<exists>d. make_cipher L cls name key iv 0 = Inr d \<and> obj_pair R e d"
proof (cases cls)
  case TableCipher
  obtain t u where tu: "init_table L key = (t, u)" by fastforce
  with assms TableCipher show ?thesis
    using decrypt_encrypt_table(1) [OF tu] by (auto simp: make_cipher_def)
next
  case OpenSSLCrypto
  then obtain x where x: "evp_init L name key iv 1 = Some x" "e = EvpObj x"
    using assms(2) by (auto simp: make_cipher_def split: option.splits)
  obtain d where "evp_init L name key iv 0 = Some d" "R x d"
    using evp_pairsD [of L R name key iv x] assms(1) OpenSSLCrypto x(1) by (auto simp: evp_name_def)
  then show ?thesis using OpenSSLCrypto x by (simp add: make_cipher_def)
next
  case Rc4Md5
  then obtain x where x: "evp_init L ''rc4'' (md5 L (key @ iv)) [] 1 = Some x" "e = EvpObj x"
    using assms(2) by (auto simp: make_cipher_def split: option.splits)
  obtain d where "evp_init L ''rc4'' (md5 L (key @ iv)) [] 0 = Some d" "R x d"
    using evp_pairsD [of L R "''rc4''" "md5 L (key @ iv)" "[]" x] assms(1) Rc4Md5 x(1)
    by (auto simp: evp_name_def)
  then show ?thesis using Rc4Md5 x by (simp add: make_cipher_def)
qed (use assms(2) in \<open>auto simp: make_cipher_def rbind_eq_Inr\<close>)

lemma length_choose_iv: "length (fst (choose_iv iv n t)) = n"
  by (simp add: choose_iv_def split: option.split)

lemma encryptor_new_spec:
  assumes "encryptor_new L key m iv t = (Inr E, t')"
    and "method_supported m = Some (key_len, iv_len, cls)" and "lower m = m"
  shows "\<exists>k. derive_key L key key_len iv_len = Inr k
    \<and> make_cipher L cls m (fst k) (cipher_iv E) 1 = Inr (cipher E)
    \<and> length (cipher_iv E) = iv_len \<and> cipher_key E = fst k"
    and "\<not> iv_sent E" "iv_buf E = []" "decipher E = None" "enc_key E = key" "enc_method E = m"
      "method_info E = (key_len, iv_len, cls)"
proof -
  let ?iv = "fst (choose_iv iv iv_len t)"
  have "rbind (get_cipher L (key_len, iv_len, cls) key m 1 ?iv)
      (\<lambda>(c, k, v). Inr \<lparr>enc_key = key, enc_method = m, iv_sent = False, cipher_iv = v,
         iv_buf = [], cipher_key = k, decipher = None,
         method_info = (key_len, iv_len, cls), cipher = c\<rparr>) = Inr E"
    using assms by (simp add: encryptor_new_def get_method_info_def case_prod_beta)
  then obtain k c where d: "derive_key L key key_len iv_len = Inr k"
      "make_cipher L cls m (fst k) ?iv 1 = Inr c"
      and E: "E = \<lparr>enc_key = key, enc_method = m, iv_sent = False, cipher_iv = ?iv,
         iv_buf = [], cipher_key = fst k, decipher = None,
         method_info = (key_len, iv_len, cls), cipher = c\<rparr>"
    using method_key_len [OF assms(2)] length_choose_iv [of iv iv_len t]
    by (auto simp: get_cipher_def rbind_eq_Inr case_prod_beta Let_def)
  show "\<exists>k. derive_key L key key_len iv_len = Inr k
    \<and> make_cipher L cls m (fst k) (cipher_iv E) 1 = Inr (cipher E)
    \<and> length (cipher_iv E) = iv_len \<and> cipher_key E = fst k"
    using d by (simp add: E length_choose_iv)
  show "\<not> iv_sent E" "iv_buf E = []" "decipher E = None" "enc_key E = key" "enc_method E = m"
      "method_info E = (key_len, iv_len, cls)"
    by (simp_all add: E)
qed

subsection \<open>Properties\<close>


lemma plain_lib_pairs: "evp_pairs plain_lib (\<lambda>_ _. True) name"
  by (simp add: evp_pairs_def plain_lib_def)

lemma plain_lib_md5 [simp]: "length (md5 plain_lib x) = 16"
  by (simp add: plain_lib_def)

lemma chacha20_entry: "method_supported ''chacha20'' = Some (32, 8, SodiumCrypto)"
  by (simp add: method_supported_def table_ciphers_def sodium_ciphers_def)

lemma lower_chacha20: "lower ''chacha20'' = ''chacha20''"
  by (simp add: lower_def)

lemma plain_new:
  "\<exists>E. encryptor_new plain_lib ''pw'' ''chacha20'' None t = (Inr E, drop 8 t)"
proof -
  have "is_ascii ''pw''" by (simp add: is_ascii_def)
  then obtain k v where "derive_key plain_lib ''pw'' 32 8 = Inr (k, v)"
    using derive_key_lengths [of plain_lib "''pw''" 32 8] by auto
  then show ?thesis
    by (simp add: encryptor_new_def get_method_info_def lower_chacha20 chacha20_entry choose_iv_def
        urandom_def get_cipher_def make_cipher_def sodium_init_def Let_def)
qed


text \<open>The cache of derived keys is transparent: on a cache that its own calls have filled, a
  call returns what the derivation computes, which for an ASCII password and 16-byte digests is
  a key and an iv of the requested lengths.\<close>

theorem EVP_BytesToKey_transparent:
  assumes "cache_ok L cs" and "\<And>x. length (md5 L x) = 16" and "is_ascii password"
  shows "\<exists>key iv cs'. EVP_BytesToKey L password key_len iv_len cs = (Inr (key, iv), cs')
    \<and> derive_key L password key_len iv_len = Inr (key, iv)
    \<and> length key = key_len \<and> length iv = iv_len \<and> cache_ok L cs'"
  using EVP_BytesToKey_cached [OF assms(1), of password key_len iv_len]
    derive_key_lengths [OF assms(2,3), of key_len iv_len]
  by (metis prod.collapse)

theorem EVP_BytesToKey_transparent_witness:
  "\<exists>key iv cs'. EVP_BytesToKey plain_lib ''pw'' 32 8 [] = (Inr (key, iv), cs')
     \<and> length key = 32 \<and> length iv = 8"
proof -
  have "cache_ok plain_lib []" and "is_ascii ''pw''" by (simp_all add: cache_ok_def is_ascii_def)
  from EVP_BytesToKey_transparent [OF this(1) plain_lib_md5 this(2), of 32 8] show ?thesis by blast
qed

end
