(* ===== verification/Lru_Cache.thy ===== *)
theory Lru_Cache
  imports Prelude "HOL-Library.AList"
begin

text \<open>
  \<^verbatim>\<open>shadowsocks/lru_cache.py\<close>. The cache keeps the dictionary \<^verbatim>\<open>_store\<close> and the
  ordered dictionary \<^verbatim>\<open>_keys_to_last_time\<close> (oldest visit first), here two association
  lists. \<open>lru_abs\<close> is the abstract cache, the list of key, value and time of last visit
  from the least to the most recently visited, and each operation is proved to refine its
  description on that list. The values handed to \<^verbatim>\<open>close_callback\<close> are returned, in
  the order of the calls.
\<close>

subsection \<open>The class\<close>

record ('k, 'v) lru =
  timeout :: time
  lru_store :: "('k \<times> 'v) list"
  last_time :: "('k \<times> time) list"

definition SWEEP_MAX_ITEMS :: nat where
  "SWEEP_MAX_ITEMS = 1024"

definition lru_new :: "time \<Rightarrow> ('k, 'v) lru" where
  "lru_new t = \<lparr>timeout = t, lru_store = [], last_time = []\<rparr>"

text \<open>Deleting a key from the ordered dictionary and setting it again moves it to the
  end.\<close>

definition touch :: "time \<Rightarrow> 'k \<Rightarrow> ('k \<times> time) list \<Rightarrow> ('k \<times> time) list" where
  "touch now key ts = AList.delete key ts @ [(key, now)]"

definition lru_getitem :: "time \<Rightarrow> 'k \<Rightarrow> ('k, 'v) lru \<Rightarrow> 'v res \<times> ('k, 'v) lru" where
  "lru_getitem now key c =
     (case map_of (last_time c) key of
        None \<Rightarrow> (Inl KeyError, c)
      | Some last_t \<Rightarrow>
          (let c' = c\<lparr>last_time := touch now key (last_time c)\<rparr>
           in case map_of (lru_store c') key of
                None \<Rightarrow> (Inl KeyError, c')
              | Some v \<Rightarrow> (Inr v, c')))"

definition lru_setitem :: "time \<Rightarrow> 'k \<Rightarrow> 'v \<Rightarrow> ('k, 'v) lru \<Rightarrow> ('k, 'v) lru" where
  "lru_setitem now key v c =
     c\<lparr>last_time := touch now key (last_time c), lru_store := AList.update key v (lru_store c)\<rparr>"

definition lru_delitem :: "'k \<Rightarrow> ('k, 'v) lru \<Rightarrow> unit res \<times> ('k, 'v) lru" where
  "lru_delitem key c =
     (case map_of (last_time c) key of
        None \<Rightarrow> (Inl KeyError, c)
      | Some last_t \<Rightarrow>
          (case map_of (lru_store c) key of
             None \<Rightarrow> (Inl KeyError, c)
           | Some v \<Rightarrow>
               (Inr (), c\<lparr>lru_store := AList.delete key (lru_store c),
                          last_time := AList.delete key (last_time c)\<rparr>)))"

definition lru_contains :: "'k \<Rightarrow> ('k, 'v) lru \<Rightarrow> bool" where
  "lru_contains key c \<longleftrightarrow> map_of (lru_store c) key \<noteq> None"

definition lru_len :: "('k, 'v) lru \<Rightarrow> nat" where
  "lru_len c = length (lru_store c)"

definition lru_first :: "('k, 'v) lru \<Rightarrow> 'k option" where
  "lru_first c = (case last_time c of [] \<Rightarrow> None | (key, t) # _ \<Rightarrow> Some key)"

text \<open>\<^verbatim>\<open>MutableMapping.get\<close> goes through \<^verbatim>\<open>__getitem__\<close>, so it is a visit.\<close>

definition lru_get :: "time \<Rightarrow> 'k \<Rightarrow> ('k, 'v) lru \<Rightarrow> 'v option \<times> ('k, 'v) lru" where
  "lru_get now key c =
     (case lru_getitem now key c of
        (Inl e, c') \<Rightarrow> (None, c')
      | (Inr v, c') \<Rightarrow> (Some v, c'))"

text \<open>A method call on a stored object changes the object in place, without a visit.\<close>

definition lru_modify :: "'k \<Rightarrow> ('v \<Rightarrow> 'v) \<Rightarrow> ('k, 'v) lru \<Rightarrow> ('k, 'v) lru" where
  "lru_modify key f c = c\<lparr>lru_store := AList.map_entry key f (lru_store c)\<rparr>"

fun sweep_loop :: "time \<Rightarrow> nat \<Rightarrow> 'v list \<Rightarrow> ('k, 'v) lru \<Rightarrow> 'v list res \<times> ('k, 'v) lru" where
  "sweep_loop now 0 gone c = (Inr gone, c)"
| "sweep_loop now (Suc n) gone c =
     (case last_time c of
        [] \<Rightarrow> (Inr gone, c)
      | (key, last_t) # _ \<Rightarrow>
          (if now - last_t \<le> timeout c then (Inr gone, c)
           else case map_of (lru_store c) key of
                  None \<Rightarrow> (Inl KeyError, c)
                | Some v \<Rightarrow>
                    sweep_loop now n (gone @ [v])
                      (c\<lparr>lru_store := AList.delete key (lru_store c),
                         last_time := AList.delete key (last_time c)\<rparr>)))"

definition lru_sweep :: "time \<Rightarrow> nat \<Rightarrow> ('k, 'v) lru \<Rightarrow> (bool \<times> 'v list) res \<times> ('k, 'v) lru" where
  "lru_sweep now sweep_item_cnt c =
     (case sweep_loop now sweep_item_cnt [] c of
        (Inl e, c') \<Rightarrow> (Inl e, c')
      | (Inr gone, c') \<Rightarrow> (Inr (length gone < SWEEP_MAX_ITEMS, gone), c'))"

function clear_loop :: "nat \<Rightarrow> 'v list \<Rightarrow> ('k, 'v) lru \<Rightarrow> 'v list res \<times> ('k, 'v) lru" where
  "clear_loop keep gone c =
     (if length (last_time c) > keep then
        (case last_time c of
           [] \<Rightarrow> (Inr gone, c)
         | (key, last_t) # _ \<Rightarrow>
             (case map_of (lru_store c) key of
                None \<Rightarrow> (Inl KeyError, c)
              | Some v \<Rightarrow>
                  clear_loop keep (gone @ [v])
                    (c\<lparr>lru_store := AList.delete key (lru_store c),
                       last_time := AList.delete key (last_time c)\<rparr>)))
      else (Inr gone, c))"
  by pat_completeness auto
termination
  by (relation "measure (\<lambda>(keep, gone, c). length (last_time c))")
     (auto simp: AList.delete_eq intro: le_imp_less_Suc)

declare clear_loop.simps [simp del]

definition lru_clear :: "nat \<Rightarrow> ('k, 'v) lru \<Rightarrow> (bool \<times> 'v list) res \<times> ('k, 'v) lru" where
  "lru_clear keep c =
     (case clear_loop keep [] c of
        (Inl e, c') \<Rightarrow> (Inl e, c')
      | (Inr gone, c') \<Rightarrow> (Inr (length gone < SWEEP_MAX_ITEMS, gone), c'))"

subsection \<open>The invariant\<close>

text \<open>Both dictionaries hold the same keys, once each.\<close>

definition lru_ok :: "('k, 'v) lru \<Rightarrow> bool" where
  "lru_ok c \<longleftrightarrow> distinct (map fst (last_time c)) \<and> distinct (map fst (lru_store c))
     \<and> set (map fst (last_time c)) = set (map fst (lru_store c))"

text \<open>Visits are recorded in the order of a clock that does not run backwards.\<close>

definition lru_timed :: "time \<Rightarrow> ('k, 'v) lru \<Rightarrow> bool" where
  "lru_timed now c \<longleftrightarrow> sorted (map snd (last_time c)) \<and> (\<forall>t \<in> set (map snd (last_time c)). t \<le> now)"

text \<open>The abstract cache.\<close>

definition lru_abs :: "('k, 'v) lru \<Rightarrow> ('k \<times> 'v \<times> time) list" where
  "lru_abs c = map (\<lambda>(k, t). (k, the (map_of (lru_store c) k), t)) (last_time c)"

definition lookup :: "('k, 'v) lru \<Rightarrow> 'k \<Rightarrow> 'v option" where
  "lookup c = map_of (lru_store c)"

lemma delete_keys [simp]: "map fst (AList.delete k xs) = filter (\<lambda>x. x \<noteq> k) (map fst xs)"
  by (induction xs) auto

lemma in_keys_iff: "map_of xs k \<noteq> None \<longleftrightarrow> k \<in> set (map fst xs)"
  by (induction xs) auto

lemma lru_ok_keys:
  assumes "lru_ok c"
  shows "map_of (last_time c) k = None \<longleftrightarrow> map_of (lru_store c) k = None"
  using assms in_keys_iff [of "last_time c" k] in_keys_iff [of "lru_store c" k]
  by (auto simp: lru_ok_def)

lemma lru_ok_length:
  assumes "lru_ok c"
  shows "length (last_time c) = length (lru_store c)"
  using assms distinct_card [of "map fst (last_time c)"] distinct_card [of "map fst (lru_store c)"]
  by (simp add: lru_ok_def del: set_map)

lemma lru_ok_new [simp]: "lru_ok (lru_new t)"
  by (simp add: lru_ok_def lru_new_def)

lemma lru_ok_touch:
  "lru_ok c \<Longrightarrow> k \<in> set (map fst (lru_store c)) \<Longrightarrow>
   lru_ok (c\<lparr>last_time := touch now k (last_time c)\<rparr>)"
  by (auto simp: lru_ok_def touch_def)

lemma lru_ok_setitem: "lru_ok c \<Longrightarrow> lru_ok (lru_setitem now k v c)"
  by (auto simp: lru_ok_def lru_setitem_def touch_def distinct_update update_keys)

lemma lru_ok_modify: "lru_ok c \<Longrightarrow> lru_ok (lru_modify k f c)"
proof -
  have "map fst (AList.map_entry k f xs) = map fst xs" for xs :: "('a \<times> 'b) list"
    by (induction xs) auto
  then show "lru_ok c \<Longrightarrow> lru_ok (lru_modify k f c)"
    by (simp add: lru_ok_def lru_modify_def)
qed

subsection \<open>Refinement of the abstract cache\<close>

definition without :: "'k \<Rightarrow> ('k \<times> 'v \<times> time) list \<Rightarrow> ('k \<times> 'v \<times> time) list" where
  "without k xs = filter (\<lambda>e. fst e \<noteq> k) xs"

definition expired :: "('k, 'v) lru \<Rightarrow> time \<Rightarrow> ('k \<times> 'v \<times> time) \<Rightarrow> bool" where
  "expired c now e \<longleftrightarrow> now - snd (snd e) > timeout c"

lemma map_of_delete_other: "k' \<noteq> k \<Longrightarrow> map_of (AList.delete k xs) k' = map_of xs k'"
  by (simp add: delete_conv')

lemma abs_delete:
  "map (\<lambda>(k, t). (k, the (map_of st k), t)) (AList.delete k ts)
   = without k (map (\<lambda>(k, t). (k, the (map_of st k), t)) ts)"
  by (induction ts) (auto simp: without_def)

lemma abs_cong:
  "(\<And>k'. k' \<in> set (map fst ts) \<Longrightarrow> map_of st k' = map_of st' k') \<Longrightarrow>
   map (\<lambda>(k, t). (k, the (map_of st k), t)) ts = map (\<lambda>(k, t). (k, the (map_of st' k), t)) ts"
  by (rule map_cong) force+

lemma lru_abs_setitem:
  "lru_abs (lru_setitem now k v c) = without k (lru_abs c) @ [(k, v, now)]"
proof -
  have "map (\<lambda>(k', t). (k', the (map_of (AList.update k v (lru_store c)) k'), t))
          (AList.delete k (last_time c))
      = map (\<lambda>(k', t). (k', the (map_of (lru_store c) k'), t)) (AList.delete k (last_time c))"
    by (rule abs_cong) (simp add: update_conv')
  then show ?thesis
    by (simp add: lru_abs_def lru_setitem_def touch_def abs_delete update_conv')
qed

lemma lru_abs_getitem:
  assumes "lru_ok c" and "lookup c k = Some v"
  shows "\<exists>c'. lru_getitem now k c = (Inr v, c') \<and> lru_abs c' = without k (lru_abs c) @ [(k, v, now)]
    \<and> lookup c' = lookup c \<and> lru_ok c' \<and> lru_len c' = lru_len c \<and> timeout c' = timeout c"
proof -
  from assms lru_ok_keys [of c k] obtain t where "map_of (last_time c) k = Some t"
    by (auto simp: lookup_def)
  moreover have "lru_ok (c\<lparr>last_time := touch now k (last_time c)\<rparr>)"
    using assms in_keys_iff [of "lru_store c" k] by (intro lru_ok_touch) (auto simp: lookup_def)
  ultimately show ?thesis
    using assms by (simp add: lru_getitem_def lookup_def lru_abs_def touch_def abs_delete lru_len_def)
qed

lemma lru_getitem_missing:
  assumes "lru_ok c" and "lookup c k = None"
  shows "lru_getitem now k c = (Inl KeyError, c)"
  using assms lru_ok_keys [of c k] by (simp add: lru_getitem_def lookup_def)

lemma lru_ok_delete:
  "lru_ok c \<Longrightarrow> lru_ok (c\<lparr>lru_store := AList.delete k (lru_store c),
                          last_time := AList.delete k (last_time c)\<rparr>)"
  by (auto simp: lru_ok_def)

lemma lru_abs_delete:
  "lru_abs (c\<lparr>lru_store := AList.delete k (lru_store c), last_time := AList.delete k (last_time c)\<rparr>)
   = without k (lru_abs c)"
proof -
  have "map (\<lambda>(k', t). (k', the (map_of (AList.delete k (lru_store c)) k'), t)) (AList.delete k (last_time c))
      = map (\<lambda>(k', t). (k', the (map_of (lru_store c) k'), t)) (AList.delete k (last_time c))"
    by (rule abs_cong) (auto simp: delete_conv')
  then show ?thesis by (simp add: lru_abs_def abs_delete)
qed

lemma lru_delitem_eq:
  assumes "lru_ok c" and "lookup c k = Some v"
  shows "lru_delitem k c = (Inr (), c\<lparr>lru_store := AList.delete k (lru_store c),
                                      last_time := AList.delete k (last_time c)\<rparr>)"
  using assms lru_ok_keys [of c k] by (auto simp: lru_delitem_def lookup_def split: option.splits)

text \<open>Dropping the oldest entry, the step that \<^verbatim>\<open>sweep\<close> and \<^verbatim>\<open>clear\<close> share.\<close>

lemma drop_oldest:
  assumes "lru_ok c" and "last_time c = (k, t) # ts"
  shows "\<exists>v. map_of (lru_store c) k = Some v \<and> lru_abs c = (k, v, t) # without k (lru_abs c)"
proof -
  from assms have "map_of (last_time c) k \<noteq> None" by simp
  then obtain v where v: "map_of (lru_store c) k = Some v"
    using lru_ok_keys [OF assms(1), of k] by auto
  have "k \<notin> set (map fst ts)"
    using assms by (auto simp: lru_ok_def)
  then have "filter (\<lambda>e. fst e \<noteq> k) (map (\<lambda>(k, t). (k, the (map_of (lru_store c) k), t)) ts)
      = map (\<lambda>(k, t). (k, the (map_of (lru_store c) k), t)) ts"
    by (intro filter_True) force
  then show ?thesis using v assms by (simp add: lru_abs_def without_def)
qed

lemma sweep_loop_spec:
  assumes "lru_ok c"
  shows "\<exists>c'. sweep_loop now n gone c
        = (Inr (gone @ map (fst \<circ> snd) (take n (takeWhile (expired c now) (lru_abs c)))), c')
      \<and> lru_abs c' = drop (length (take n (takeWhile (expired c now) (lru_abs c)))) (lru_abs c)
      \<and> lru_ok c' \<and> timeout c' = timeout c"
  using assms
proof (induction n arbitrary: gone c)
  case (Suc n)
  show ?case
  proof (cases "last_time c")
    case Nil
    then show ?thesis using Suc.prems by (simp add: lru_abs_def)
  next
    case (Cons e ts)
    obtain k t where e: "e = (k, t)" by (cases e)
    obtain v where v: "map_of (lru_store c) k = Some v"
      and a: "lru_abs c = (k, v, t) # without k (lru_abs c)"
      using drop_oldest [OF Suc.prems] Cons e by blast
    let ?c = "c\<lparr>lru_store := AList.delete k (lru_store c), last_time := AList.delete k (last_time c)\<rparr>"
    have ex: "expired ?c now = expired c now" by (simp add: expired_def fun_eq_iff)
    show ?thesis
    proof (cases "now - t \<le> timeout c")
      case True
      then have "\<not> expired c now (k, v, t)" by (simp add: expired_def)
      then have "takeWhile (expired c now) (lru_abs c) = []" by (subst a) simp
      then show ?thesis using Cons e True Suc.prems by simp
    next
      case False
      have tw: "takeWhile (expired c now) (lru_abs c)
          = (k, v, t) # takeWhile (expired c now) (without k (lru_abs c))"
        using False by (subst a) (simp add: expired_def)
      have step: "sweep_loop now (Suc n) gone c = sweep_loop now n (gone @ [v]) ?c"
        using Cons e v False by simp
      obtain c' where "sweep_loop now n (gone @ [v]) ?c
          = (Inr ((gone @ [v]) @ map (fst \<circ> snd) (take n (takeWhile (expired c now) (without k (lru_abs c))))), c')"
        and "lru_abs c' = drop (length (take n (takeWhile (expired c now) (without k (lru_abs c)))))
               (without k (lru_abs c))"
        and "lru_ok c'" and "timeout c' = timeout c"
        using Suc.IH [OF lru_ok_delete [OF Suc.prems], of "gone @ [v]" k, unfolded ex lru_abs_delete]
        by auto
      moreover have "drop (Suc m) (lru_abs c) = drop m (without k (lru_abs c))" for m
        by (subst a) simp
      ultimately show ?thesis unfolding step tw by simp
    qed
  qed
qed simp

lemma clear_loop_spec:
  assumes "lru_ok c"
  shows "\<exists>c'. clear_loop keep gone c
        = (Inr (gone @ map (fst \<circ> snd) (take (length (lru_abs c) - keep) (lru_abs c))), c')
      \<and> lru_abs c' = drop (length (lru_abs c) - keep) (lru_abs c) \<and> lru_ok c'"
  using assms
proof (induction keep gone c rule: clear_loop.induct)
  case (1 keep gone c)
  have len: "length (lru_abs c) = length (last_time c)" by (simp add: lru_abs_def)
  show ?case
  proof (cases "length (last_time c) > keep")
    case False
    then show ?thesis using 1 len by (subst clear_loop.simps) simp
  next
    case True
    then obtain k t ts where Cons: "last_time c = (k, t) # ts"
      by (cases "last_time c") auto
    obtain v where v: "map_of (lru_store c) k = Some v"
      and a: "lru_abs c = (k, v, t) # without k (lru_abs c)"
      using drop_oldest [OF "1.prems" Cons] by blast
    let ?c = "c\<lparr>lru_store := AList.delete k (lru_store c), last_time := AList.delete k (last_time c)\<rparr>"
    have step: "clear_loop keep gone c = clear_loop keep (gone @ [v]) ?c"
      using True Cons v by (subst clear_loop.simps) simp
    have n: "length (lru_abs c) - keep = Suc (length (without k (lru_abs c)) - keep)"
      using True len arg_cong [OF a, of length] by simp
    have dr: "drop (Suc m) (lru_abs c) = drop m (without k (lru_abs c))"
      and tk: "take (Suc m) (lru_abs c) = (k, v, t) # take m (without k (lru_abs c))" for m
      by (subst a, simp)+
    show ?thesis
      unfolding step n dr tk
      using "1.IH" [OF True Cons refl v lru_ok_delete [OF "1.prems"]]
      by (simp add: lru_abs_delete)
  qed
qed

subsection \<open>The clock and the order of visits\<close>

lemma sorted_takeWhile_filter:
  "sorted (map f xs) \<Longrightarrow> (\<And>x y. f x \<le> f y \<Longrightarrow> P y \<Longrightarrow> P x) \<Longrightarrow>
   takeWhile P xs = filter P xs"
proof (induction xs)
  case (Cons x xs)
  show ?case
  proof (cases "P x")
    case False
    then have "\<forall>y \<in> set xs. \<not> P y" using Cons.prems by fastforce
    then have "filter P xs = []" by simp
    with False show ?thesis by simp
  qed (use Cons in auto)
qed simp

lemma lru_abs_times: "map (snd \<circ> snd) (lru_abs c) = map snd (last_time c)"
  by (simp add: lru_abs_def split_def comp_def)

lemma takeWhile_expired:
  "lru_timed now c \<Longrightarrow> takeWhile (expired c now) (lru_abs c) = filter (expired c now) (lru_abs c)"
  by (rule sorted_takeWhile_filter [where f = "snd \<circ> snd"])
     (auto simp: lru_abs_times lru_timed_def expired_def)

lemma lru_timed_touch:
  assumes "lru_timed now c" and "now \<le> now'"
  shows "lru_timed now' (c\<lparr>last_time := touch now' k (last_time c)\<rparr>)"
proof -
  let ?ts = "AList.delete k (last_time c)"
  have "sorted (map snd ?ts)"
    using assms(1) by (simp add: lru_timed_def AList.delete_eq sorted_filter)
  moreover have "\<forall>t \<in> set (map snd ?ts). t \<le> now'"
    using assms by (force simp: lru_timed_def AList.delete_eq)
  ultimately show ?thesis
    by (auto simp: lru_timed_def touch_def sorted_append)
qed

lemma lru_timed_setitem:
  assumes "lru_timed now c" and "now \<le> now'"
  shows "lru_timed now' (lru_setitem now' k v c)"
  using lru_timed_touch [OF assms, of k] by (simp add: lru_setitem_def lru_timed_def)

subsection \<open>The cache as its clients see it\<close>

locale cache_interface =
  fixes lookup :: "'c \<Rightarrow> 'k \<Rightarrow> 'v option"
    and put :: "time \<Rightarrow> 'k \<Rightarrow> 'v \<Rightarrow> 'c \<Rightarrow> 'c"
    and del :: "'k \<Rightarrow> 'c \<Rightarrow> 'c"
    and oldest :: "'c \<Rightarrow> 'k option"
    and sz :: "'c \<Rightarrow> nat"
    and ok :: "'c \<Rightarrow> bool"
  assumes lookup_put: "ok c \<Longrightarrow> lookup (put t k v c) = (lookup c)(k \<mapsto> v)"
    and lookup_del: "ok c \<Longrightarrow> lookup (del k c) = (lookup c)(k := None)"
    and ok_put: "ok c \<Longrightarrow> ok (put t k v c)"
    and ok_del: "ok c \<Longrightarrow> ok (del k c)"
    and finite_dom: "ok c \<Longrightarrow> finite (dom (lookup c))"
    and sz_dom: "ok c \<Longrightarrow> sz c = card (dom (lookup c))"
    and oldest_in: "ok c \<Longrightarrow> oldest c = Some k \<Longrightarrow> lookup c k \<noteq> None"
    and oldest_None: "ok c \<Longrightarrow> oldest c = None \<longleftrightarrow> lookup c = Map.empty"
begin

lemma sz_put:
  assumes "ok c"
  shows "sz (put t k v c) = (if lookup c k = None then Suc (sz c) else sz c)"
  using assms finite_dom [OF assms]
  by (auto simp: sz_dom ok_put lookup_put card_insert_if)

lemma sz_del:
  assumes "ok c"
  shows "sz (del k c) = (if lookup c k = None then sz c else sz c - 1)"
proof -
  have "dom ((lookup c)(k := None)) = dom (lookup c) - {k}" by auto
  then show ?thesis
    using assms finite_dom [OF assms] by (auto simp: sz_dom ok_del lookup_del card_Diff_singleton_if)
qed

text \<open>The two ways a bounded client adds a key: below the bound, or in the place of one
  it drops.\<close>

lemma sz_put_below: "ok c \<Longrightarrow> sz c < m \<Longrightarrow> sz (put t k v c) \<le> m"
  by (simp add: sz_put)

lemma sz_replace:
  assumes "ok c" and "lookup c d \<noteq> None" and "sz c \<le> m"
  shows "sz (put t k v (del d c)) \<le> m"
proof -
  have "dom (lookup c) \<noteq> {}" using assms(2) by auto
  then have "0 < sz c" using assms(1) finite_dom [OF assms(1)] by (simp add: sz_dom card_gt_0_iff)
  then show ?thesis
    using assms sz_put [OF ok_del [OF assms(1)], of t k v d] sz_del [OF assms(1), of d]
    by (auto split: if_splits)
qed

end

lemma lookup_setitem: "lookup (lru_setitem t k v c) = (lookup c)(k \<mapsto> v)"
  by (simp add: lookup_def lru_setitem_def update_conv')

lemma lookup_delitem: "lru_ok c \<Longrightarrow> lookup (snd (lru_delitem k c)) = (lookup c)(k := None)"
  using lru_ok_keys [of c k]
  by (auto simp: lookup_def lru_delitem_def delete_conv' split: option.splits)

lemma lru_ok_delitem: "lru_ok c \<Longrightarrow> lru_ok (snd (lru_delitem k c))"
  by (simp add: lru_delitem_def lru_ok_delete split: option.splits)

lemma lru_len_dom: "lru_ok c \<Longrightarrow> lru_len c = card (dom (lookup c))"
  using distinct_card [of "map fst (lru_store c)"]
  by (simp add: lru_len_def lookup_def lru_ok_def dom_map_of_conv_image_fst)

lemma lru_first_in: "lru_ok c \<Longrightarrow> lru_first c = Some k \<Longrightarrow> lookup c k \<noteq> None"
  using lru_ok_keys [of c k]
  by (auto simp: lru_first_def lookup_def split: list.splits)

lemma lru_first_None: "lru_ok c \<Longrightarrow> lru_first c = None \<longleftrightarrow> lookup c = Map.empty"
  by (auto simp: lru_first_def lookup_def lru_ok_def split: list.splits)

lemma finite_lookup: "finite (dom (lookup c))"
  by (simp add: lookup_def finite_dom_map_of)

interpretation lc: cache_interface lookup lru_setitem "\<lambda>k c. snd (lru_delitem k c)" lru_first lru_len lru_ok
  by unfold_locales
     (auto simp: lookup_setitem lookup_delitem lru_ok_setitem lru_ok_delitem lru_len_dom
        lru_first_None finite_lookup dest: lru_first_in)

subsection \<open>Properties\<close>

text \<open>C33. A sweep of a cache whose clock does not run backwards never raises; it closes and
  removes the expired entries, oldest first and at most \<open>n\<close> of them, keeps all others in
  their order, and reports whether it stopped short of the fixed limit.\<close>

theorem lru_sweep_exact:
  assumes "lru_ok c" and "lru_timed now c"
  shows "\<exists>c'. lru_sweep now n c =
      (Inr (min n (length (filter (expired c now) (lru_abs c))) < SWEEP_MAX_ITEMS,
            map (fst \<circ> snd) (take n (filter (expired c now) (lru_abs c)))), c')
    \<and> lru_abs c' = drop (min n (length (filter (expired c now) (lru_abs c)))) (lru_abs c)
    \<and> lru_ok c'"
proof -
  obtain c' where "sweep_loop now n [] c
        = (Inr (map (fst \<circ> snd) (take n (filter (expired c now) (lru_abs c)))), c')"
      "lru_abs c' = drop (length (take n (filter (expired c now) (lru_abs c)))) (lru_abs c)" "lru_ok c'"
    using sweep_loop_spec [OF assms(1), of now n "[]"] takeWhile_expired [OF assms(2)] by auto
  then show ?thesis by (simp add: lru_sweep_def min.commute)
qed

theorem lru_sweep_exact_witness:
  "let c = lru_setitem 5 ''b'' 2 (lru_setitem 0 ''a'' (1::nat) (lru_new 10)) in
   lru_ok c \<and> lru_timed 12 c \<and> (\<exists>c'. lru_sweep 12 4 c = (Inr (True, [1]), c') \<and> lru_abs c' = [(''b'', 2, 5)])"
proof -
  let ?c = "lru_setitem 5 ''b'' 2 (lru_setitem 0 ''a'' (1::nat) (lru_new 10))"
  have ok: "lru_ok ?c" by (simp add: lru_ok_setitem)
  have timed: "lru_timed 12 ?c"
    by (simp add: lru_timed_def lru_setitem_def lru_new_def touch_def)
  have "lru_abs ?c = [(''a'', 1, 0), (''b'', 2, 5)]" "timeout ?c = 10"
    by (simp_all add: lru_abs_def lru_setitem_def lru_new_def touch_def)
  then have "filter (expired ?c 12) (lru_abs ?c) = [(''a'', 1, 0)]" "lru_abs ?c = [(''a'', 1, 0), (''b'', 2, 5)]"
    by (simp_all add: expired_def)
  then show ?thesis
    using ok timed lru_sweep_exact [OF ok timed, of 4] by (auto simp: SWEEP_MAX_ITEMS_def Let_def)
qed

text \<open>The caches that the operations build, from the empty one on, keep their two
  dictionaries in step.\<close>

inductive lru_reachable :: "('k, 'v) lru \<Rightarrow> bool" where
  new: "lru_reachable (lru_new t)"
| set: "lru_reachable c \<Longrightarrow> lru_reachable (lru_setitem now k v c)"
| get: "lru_reachable c \<Longrightarrow> lru_reachable (snd (lru_getitem now k c))"
| del: "lru_reachable c \<Longrightarrow> lru_reachable (snd (lru_delitem k c))"
| modify: "lru_reachable c \<Longrightarrow> lru_reachable (lru_modify k f c)"
| sweep: "lru_reachable c \<Longrightarrow> lru_reachable (snd (lru_sweep now n c))"
| clear: "lru_reachable c \<Longrightarrow> lru_reachable (snd (lru_clear keep c))"

lemma lru_ok_getitem: "lru_ok c \<Longrightarrow> lru_ok (snd (lru_getitem now k c))"
  using lru_abs_getitem [of c k _ now] lru_getitem_missing [of c k now]
  by (cases "lookup c k") fastforce+

lemma lru_ok_sweep: "lru_ok c \<Longrightarrow> lru_ok (snd (lru_sweep now n c))"
  using sweep_loop_spec [of c now n "[]"] by (auto simp: lru_sweep_def)

lemma lru_ok_clear: "lru_ok c \<Longrightarrow> lru_ok (snd (lru_clear keep c))"
  using clear_loop_spec [of c keep "[]"] by (auto simp: lru_clear_def)

lemma lru_reachable_ok: "lru_reachable c \<Longrightarrow> lru_ok c"
  by (induction rule: lru_reachable.induct)
     (simp_all add: lru_ok_setitem lru_ok_getitem lru_ok_delitem lru_ok_modify lru_ok_sweep lru_ok_clear)

text \<open>On every cache its operations can build, a read of a stored key returns the value last
  stored and makes the key the most recently visited one, a read of any other key is a
  KeyError that changes nothing, and \<open>clear\<close> closes all but the \<open>keep\<close> most recently
  visited entries.\<close>

theorem lru_reachable_reads:
  assumes "lru_reachable c"
  shows "(case lookup c k of
      None \<Rightarrow> lru_getitem now k c = (Inl KeyError, c)
    | Some v \<Rightarrow> \<exists>c'. lru_getitem now k c = (Inr v, c') \<and> lookup c' = lookup c
        \<and> lru_abs c' = without k (lru_abs c) @ [(k, v, now)])
    \<and> (\<exists>c'. lru_clear keep c =
        (Inr (length (lru_abs c) - keep < SWEEP_MAX_ITEMS,
              map (fst \<circ> snd) (take (length (lru_abs c) - keep) (lru_abs c))), c')
        \<and> lru_abs c' = drop (length (lru_abs c) - keep) (lru_abs c))"
proof -
  have ok: "lru_ok c" using assms by (rule lru_reachable_ok)
  show ?thesis
    using lru_abs_getitem [OF ok, of k _ now] lru_getitem_missing [OF ok, of k now]
      clear_loop_spec [OF ok, of keep "[]"]
    by (fastforce simp: lru_clear_def split: option.split)
qed

theorem lru_reachable_reads_witness:
  "\<exists>c'. lru_getitem 7 ''a'' (lru_setitem 5 ''b'' 2 (lru_setitem 0 ''a'' (1::nat) (lru_new 10))) = (Inr 1, c')
     \<and> lru_abs c' = [(''b'', 2, 5), (''a'', 1, 7)]"
proof -
  let ?c = "lru_setitem 5 ''b'' 2 (lru_setitem 0 ''a'' (1::nat) (lru_new 10))"
  have "lru_reachable ?c" by (intro lru_reachable.intros)
  moreover have "lookup ?c ''a'' = Some 1" "lru_abs ?c = [(''a'', 1, 0), (''b'', 2, 5)]"
    by (simp_all add: lookup_def lru_abs_def lru_setitem_def lru_new_def touch_def)
  ultimately show ?thesis
    using lru_reachable_reads [of ?c, where k = "''a''" and now = 7] by (auto simp: without_def)
qed

end
