(* ===== verification/Replay.thy ===== *)
theory Replay
  imports Lru_Cache
begin

text \<open>
  Replay protection of the auth protocols: the classes \<^verbatim>\<open>client_queue\<close> of
  \<^verbatim>\<open>obfsplugin/auth.py\<close> and of \<^verbatim>\<open>obfsplugin/auth_chain.py\<close>, and the tables of clients
  \<^verbatim>\<open>obfs_auth_v2_data\<close>, \<^verbatim>\<open>obfs_auth_mu_data\<close> and \<^verbatim>\<open>obfs_auth_chain_data\<close> that
  keep one queue per client in an LRU cache. A queue accepts each connection id at most
  once: ids below \<open>front\<close> are refused as deprecated, ids in \<open>alloc\<close> as duplicates, and
  \<open>front\<close> moves on so that at most \<^verbatim>\<open>0x1000\<close> ids are ever remembered.
  The dictionary \<^verbatim>\<open>alloc\<close>, whose values are all 1, is the list of its keys.
\<close>

subsection \<open>The sliding window\<close>

record client_queue =
  front :: int
  qback :: int
  alloc :: "int list"
  enable :: bool
  last_update :: time

record chain_queue = client_queue +
  ref :: nat

definition client_queue_new :: "time \<Rightarrow> int \<Rightarrow> client_queue" where
  "client_queue_new now begin_id =
     \<lparr>front = begin_id - 64, qback = begin_id + 1, alloc = [], enable = True, last_update = now\<rparr>"

definition queue_update :: "time \<Rightarrow> 'a client_queue_scheme \<Rightarrow> 'a client_queue_scheme" where
  "queue_update now q = q\<lparr>last_update := now\<rparr>"

definition queue_is_active :: "time \<Rightarrow> 'a client_queue_scheme \<Rightarrow> bool" where
  "queue_is_active now q \<longleftrightarrow> now - last_update q < 60 * 3"

definition queue_re_enable :: "int \<Rightarrow> 'a client_queue_scheme \<Rightarrow> 'a client_queue_scheme" where
  "queue_re_enable connection_id q =
     q\<lparr>enable := True, front := connection_id - 64, qback := connection_id + 1, alloc := []\<rparr>"

text \<open>The loop that moves \<open>front\<close>.\<close>

function advance :: "int \<Rightarrow> int \<Rightarrow> int list \<Rightarrow> int \<times> int list" where
  "advance bk fr al =
     (if fr \<in> set al \<or> fr + 0x1000 < bk
      then advance bk (fr + 1) (if fr \<in> set al then removeAll fr al else al)
      else (fr, al))"
  by pat_completeness auto
termination
proof (relation "measure (\<lambda>(bk, fr, al). length al + nat (bk - fr))")
  fix bk fr :: int and al :: "int list"
  assume "fr \<in> set al \<or> fr + 0x1000 < bk"
  moreover have "fr \<in> set al \<Longrightarrow> length (removeAll fr al) < length al"
    by (rule length_removeAll_less)
  ultimately show "((bk, fr + 1, if fr \<in> set al then removeAll fr al else al), bk, fr, al)
      \<in> measure (\<lambda>(bk, fr, al). length al + nat (bk - fr))"
    by auto
qed simp

declare advance.simps [simp del]

text \<open>The part of \<^verbatim>\<open>insert\<close> after the checks of \<open>enable\<close> and activity.\<close>

definition window_insert :: "int \<Rightarrow> 'a client_queue_scheme \<Rightarrow> bool \<times> 'a client_queue_scheme" where
  "window_insert connection_id q =
     (if connection_id < front q then (False, q)
      else if connection_id > front q + 0x4000 then (False, q)
      else if connection_id \<in> set (alloc q) then (False, q)
      else
        (let bk = (if qback q \<le> connection_id then connection_id + 1 else qback q);
             (fr, al) = advance bk (front q) (connection_id # alloc q)
         in (True, q\<lparr>qback := bk, front := fr, alloc := al\<rparr>)))"

definition queue_insert :: "time \<Rightarrow> int \<Rightarrow> 'a client_queue_scheme \<Rightarrow> bool \<times> 'a client_queue_scheme" where
  "queue_insert now connection_id q =
     (if \<not> enable q then (False, q)
      else
        (let q1 = (if \<not> queue_is_active now q then queue_re_enable connection_id q else q)
         in window_insert connection_id (queue_update now q1)))"

subsection \<open>The variant of auth_chain, which counts the connections of a client\<close>

definition chain_queue_new :: "time \<Rightarrow> int \<Rightarrow> chain_queue" where
  "chain_queue_new now begin_id =
     \<lparr>front = begin_id - 64, qback = begin_id + 1, alloc = [], enable = True, last_update = now,
      ref = 0\<rparr>"

definition chain_addref :: "chain_queue \<Rightarrow> chain_queue" where
  "chain_addref q = q\<lparr>ref := ref q + 1\<rparr>"

definition chain_delref :: "chain_queue \<Rightarrow> chain_queue" where
  "chain_delref q = (if ref q > 0 then q\<lparr>ref := ref q - 1\<rparr> else q)"

definition chain_is_active :: "time \<Rightarrow> chain_queue \<Rightarrow> bool" where
  "chain_is_active now q \<longleftrightarrow> ref q > 0 \<and> now - last_update q < 60 * 10"

definition chain_queue_insert :: "time \<Rightarrow> int \<Rightarrow> chain_queue \<Rightarrow> bool \<times> chain_queue" where
  "chain_queue_insert now connection_id q =
     (if \<not> enable q then (False, q)
      else
        (let q1 = (if \<not> chain_is_active now q then queue_re_enable connection_id q else q);
             (r, q2) = window_insert connection_id (queue_update now q1)
         in (r, if r then chain_addref q2 else q2)))"

subsection \<open>The window invariant\<close>

text \<open>\<open>window q S\<close>: the queue remembers exactly the accepted ids \<open>S\<close> that are not below
  \<open>front\<close>, and no more than \<^verbatim>\<open>0x1000\<close> positions.\<close>

definition window :: "'a client_queue_scheme \<Rightarrow> int set \<Rightarrow> bool" where
  "window q S \<longleftrightarrow> distinct (alloc q) \<and> set (alloc q) = {x \<in> S. front q \<le> x}
     \<and> (\<forall>x \<in> S. x < qback q) \<and> qback q \<le> front q + 0x1000"

lemma advance_spec:
  assumes "\<forall>x \<in> set al. fr \<le> x" and "distinct al"
  shows "fr \<le> fst (advance bk fr al)
     \<and> set (snd (advance bk fr al)) = {x \<in> set al. fst (advance bk fr al) \<le> x}
     \<and> distinct (snd (advance bk fr al))
     \<and> bk \<le> fst (advance bk fr al) + 0x1000
     \<and> fst (advance bk fr al) \<notin> set (snd (advance bk fr al))"
  using assms
proof (induction bk fr al rule: advance.induct)
  case (1 bk fr al)
  let ?al = "if fr \<in> set al then removeAll fr al else al"
  show ?case
  proof (cases "fr \<in> set al \<or> fr + 0x1000 < bk")
    case True
    have eq: "advance bk fr al = advance bk (fr + 1) ?al"
      using True by (subst advance.simps) (rule if_P)
    have rm: "set ?al = set al - {fr}" by simp
    then have ge: "\<forall>x \<in> set ?al. fr + 1 \<le> x"
      using "1.prems"(1) by (metis DiffE insertI1 order_le_less zless_imp_add1_zle)
    have "distinct ?al" using "1.prems"(2) by (simp add: distinct_removeAll)
    obtain f s where e: "advance bk (fr + 1) ?al = (f, s)" by fastforce
    note IH = "1.IH" [OF True ge \<open>distinct ?al\<close>, unfolded e fst_conv snd_conv rm]
    have st: "{x \<in> set al - {fr}. f \<le> x} = {x \<in> set al. f \<le> x}"
      using conjunct1 [OF IH] by auto
    have "fr \<le> f" using conjunct1 [OF IH] by linarith
    then show ?thesis
      unfolding eq e fst_conv snd_conv using conjunct2 [OF IH, unfolded st] by (rule conjI)
  next
    case False
    then have "advance bk fr al = (fr, al)" by (simp add: advance.simps [of bk fr al])
    with False "1.prems" show ?thesis by auto
  qed
qed

lemma window_re_enable: "window (queue_re_enable c q) {}"
  by (simp add: window_def queue_re_enable_def)

lemma window_new: "window (client_queue_new now c) {}" "window (chain_queue_new now c) {}"
  by (simp_all add: window_def client_queue_new_def chain_queue_new_def)

lemma window_update: "window (queue_update now q) S \<longleftrightarrow> window q S"
  by (simp add: window_def queue_update_def)

text \<open>The outcome of \<open>window_insert\<close> in terms of the accepted ids alone.\<close>

lemma window_insert_accepts:
  assumes "window q S"
  shows "fst (window_insert c q) \<longleftrightarrow> front q \<le> c \<and> c \<le> front q + 0x4000 \<and> c \<notin> S"
  using assms by (auto simp: window_insert_def window_def Let_def split: prod.splits)

lemma window_insert_window:
  assumes "window q S" and "window_insert c q = (r, q')"
  shows "window q' (if r then insert c S else S) \<and> front q \<le> front q'"
proof (cases r)
  case False
  then show ?thesis using assms by (auto simp: window_insert_def Let_def split: if_splits prod.splits)
next
  case True
  let ?bk = "if qback q \<le> c then c + 1 else qback q"
  let ?a = "advance ?bk (front q) (c # alloc q)"
  have acc: "front q \<le> c" "c \<notin> set (alloc q)" "q' = q\<lparr>qback := ?bk, front := fst ?a, alloc := snd ?a\<rparr>"
    using assms(2) True by (auto simp: window_insert_def Let_def split: if_splits prod.splits)
  have "\<forall>x \<in> set (c # alloc q). front q \<le> x" "distinct (c # alloc q)"
    using assms(1) acc by (auto simp: window_def)
  note A = advance_spec [OF this, of ?bk]
  have "\<forall>x \<in> insert c S. x < ?bk" using assms(1) by (auto simp: window_def)
  then show ?thesis
    using A assms(1) acc True by (auto simp: window_def)
qed

lemma window_bound:
  assumes "window q S"
  shows "length (alloc q) \<le> 0x1000"
proof -
  have "set (alloc q) \<subseteq> {front q..<qback q}" using assms by (auto simp: window_def)
  then have "card (set (alloc q)) \<le> card {front q..<qback q}" by (rule card_mono [rotated]) simp
  moreover have "card {front q..<qback q} \<le> 0x1000"
    using assms by (simp add: window_def nat_le_iff)
  moreover have "distinct (alloc q)" using assms by (simp add: window_def)
  ultimately show ?thesis by (metis distinct_card le_trans)
qed

subsection \<open>No id is accepted twice while the queue stays active\<close>

fun run_ids :: "(time \<Rightarrow> int \<Rightarrow> 'q \<Rightarrow> bool \<times> 'q) \<Rightarrow> (time \<times> int) list \<Rightarrow> 'q \<Rightarrow> int list" where
  "run_ids ins [] q = []"
| "run_ids ins ((now, c) # evs) q =
     (case ins now c q of (r, q') \<Rightarrow> (if r then [c] else []) @ run_ids ins evs q')"

fun stays_live :: "(time \<Rightarrow> int \<Rightarrow> 'q \<Rightarrow> bool \<times> 'q) \<Rightarrow> (time \<Rightarrow> 'q \<Rightarrow> bool) \<Rightarrow>
    (time \<times> int) list \<Rightarrow> 'q \<Rightarrow> bool" where
  "stays_live ins live [] q = True"
| "stays_live ins live ((now, c) # evs) q = (live now q \<and> stays_live ins live evs (snd (ins now c q)))"

locale replay_guard =
  fixes ins :: "time \<Rightarrow> int \<Rightarrow> 'q \<Rightarrow> bool \<times> 'q"
    and live :: "time \<Rightarrow> 'q \<Rightarrow> bool"
    and inv :: "'q \<Rightarrow> int set \<Rightarrow> bool"
  assumes ins_inv: "inv q S \<Longrightarrow> live now q \<Longrightarrow> ins now c q = (r, q') \<Longrightarrow>
      inv q' (if r then insert c S else S)"
    and ins_seen: "inv q S \<Longrightarrow> live now q \<Longrightarrow> c \<in> S \<Longrightarrow> \<not> fst (ins now c q)"
begin

lemma accepted_once:
  "inv q S \<Longrightarrow> stays_live ins live evs q \<Longrightarrow>
   distinct (run_ids ins evs q) \<and> set (run_ids ins evs q) \<inter> S = {}"
proof (induction evs arbitrary: q S)
  case (Cons e evs)
  obtain now c where e: "e = (now, c)" by fastforce
  obtain r q' where i: "ins now c q = (r, q')" by fastforce
  have live: "live now q" and rest: "stays_live ins live evs q'"
    using Cons.prems(2) i e by simp_all
  have "inv q' (if r then insert c S else S)"
    by (rule ins_inv [OF Cons.prems(1) live i])
  note IH = Cons.IH [OF this rest]
  have "r \<Longrightarrow> c \<notin> S" using ins_seen [OF Cons.prems(1) live] i by force
  with IH show ?case using e i by auto
qed simp

end

lemma queue_insert_live:
  assumes "enable q" and "queue_is_active now q"
  shows "queue_insert now c q = window_insert c (queue_update now q)"
  using assms by (simp add: queue_insert_def)

lemma chain_queue_insert_live:
  assumes "enable q" and "chain_is_active now q"
  shows "chain_queue_insert now c q =
    (case window_insert c (queue_update now q) of (r, q2) \<Rightarrow> (r, if r then chain_addref q2 else q2))"
  using assms by (simp add: chain_queue_insert_def)

lemma window_addref [simp]: "window (chain_addref q) S \<longleftrightarrow> window q S"
  by (simp add: window_def chain_addref_def)

interpretation qg: replay_guard queue_insert "\<lambda>now q. enable q \<and> queue_is_active now q" window
proof unfold_locales
  fix q :: "'a client_queue_scheme" and S now c r q'
  assume w: "window q S" and l: "enable q \<and> queue_is_active now q"
  then show "window q' (if r then insert c S else S)" if "queue_insert now c q = (r, q')"
    using that window_insert_window [of "queue_update now q" S c r q']
    by (simp add: queue_insert_live window_update)
  show "\<not> fst (queue_insert now c q)" if "c \<in> S"
    using that w l window_insert_accepts [of "queue_update now q" S c]
    by (simp add: queue_insert_live window_update)
qed

interpretation cg: replay_guard chain_queue_insert "\<lambda>now q. enable q \<and> chain_is_active now q" window
proof unfold_locales
  fix q :: chain_queue and S now c r q'
  assume w: "window q S" and l: "enable q \<and> chain_is_active now q"
  then show "window q' (if r then insert c S else S)" if "chain_queue_insert now c q = (r, q')"
    using that window_insert_window [of "queue_update now q" S c]
    by (auto simp: chain_queue_insert_live window_update split: prod.splits if_splits)
  show "\<not> fst (chain_queue_insert now c q)" if "c \<in> S"
    using that w l window_insert_accepts [of "queue_update now q" S c]
    by (auto simp: chain_queue_insert_live window_update split: prod.splits)
qed

text \<open>For the queues of auth.py, staying active is a matter of the gaps between visits.\<close>

fun steady :: "time \<Rightarrow> time \<Rightarrow> (time \<times> int) list \<Rightarrow> bool" where
  "steady gap t [] = True"
| "steady gap t ((now, c) # evs) = (now - t < gap \<and> steady gap now evs)"

lemma queue_insert_frame:
  "enable q \<Longrightarrow> enable (snd (queue_insert now c q)) \<and> last_update (snd (queue_insert now c q)) = now"
  by (auto simp: queue_insert_def window_insert_def queue_update_def queue_re_enable_def Let_def
        split: prod.splits)

lemma steady_stays_live:
  "enable q \<Longrightarrow> steady 180 (last_update q) evs \<Longrightarrow>
   stays_live queue_insert (\<lambda>now q. enable q \<and> queue_is_active now q) evs q"
proof (induction evs arbitrary: q)
  case (Cons e evs)
  then show ?case
    using queue_insert_frame [of q "fst e" "snd e"] by (cases e) (simp add: queue_is_active_def)
qed simp

lemma chain_insert_frame:
  assumes "enable q" and "ref q > 0"
  shows "enable (snd (chain_queue_insert now c q)) \<and> last_update (snd (chain_queue_insert now c q)) = now
    \<and> ref (snd (chain_queue_insert now c q)) > 0"
  using assms
  by (auto simp: chain_queue_insert_def window_insert_def queue_update_def queue_re_enable_def Let_def
        chain_addref_def split: prod.splits)

lemma steady_stays_live_chain:
  "enable q \<Longrightarrow> ref q > 0 \<Longrightarrow> steady 600 (last_update q) evs \<Longrightarrow>
   stays_live chain_queue_insert (\<lambda>now q. enable q \<and> chain_is_active now q) evs q"
proof (induction evs arbitrary: q)
  case (Cons e evs)
  then show ?case
    using chain_insert_frame [of q "fst e" "snd e"] by (cases e) (simp add: chain_is_active_def)
qed simp

subsection \<open>The tables of clients\<close>

text \<open>The three \<^verbatim>\<open>insert\<close> methods have one body over one LRU cache of queues. A method
  call on a cached queue is a visit of the cache followed by a change of the stored object.\<close>

record 'q queue_ops =
  q_new :: "time \<Rightarrow> int \<Rightarrow> 'q"
  q_enabled :: "'q \<Rightarrow> bool"
  q_active :: "time \<Rightarrow> 'q \<Rightarrow> bool"
  q_re_enable :: "int \<Rightarrow> 'q \<Rightarrow> 'q"
  q_insert :: "time \<Rightarrow> int \<Rightarrow> 'q \<Rightarrow> bool \<times> 'q"

definition auth_ops :: "client_queue queue_ops" where
  "auth_ops = \<lparr>q_new = client_queue_new, q_enabled = enable, q_active = queue_is_active,
     q_re_enable = queue_re_enable, q_insert = queue_insert\<rparr>"

definition chain_ops :: "chain_queue queue_ops" where
  "chain_ops = \<lparr>q_new = chain_queue_new, q_enabled = enable, q_active = chain_is_active,
     q_re_enable = queue_re_enable, q_insert = chain_queue_insert\<rparr>"

definition call_on :: "time \<Rightarrow> 'k \<Rightarrow> ('q \<Rightarrow> 'r \<times> 'q) \<Rightarrow> ('k, 'q) lru \<Rightarrow> 'r res \<times> ('k, 'q) lru" where
  "call_on now key m c =
     (case lru_getitem now key c of
        (Inl e, c') \<Rightarrow> (Inl e, c')
      | (Inr q, c') \<Rightarrow> (let (r, q') = m q in (Inr r, lru_modify key (\<lambda>_. q') c')))"

definition open_client :: "'q queue_ops \<Rightarrow> time \<Rightarrow> 'k \<Rightarrow> int \<Rightarrow> ('k, 'q) lru \<Rightarrow> bool res \<times> ('k, 'q) lru" where
  "open_client ops now client_id connection_id c =
     (let (r, c1) = (if \<not> lru_contains client_id c
                     then (Inr (), lru_setitem now client_id (q_new ops now connection_id) c)
                     else call_on now client_id (\<lambda>q. ((), q_re_enable ops connection_id q)) c)
      in case r of
           Inl e \<Rightarrow> (Inl e, c1)
         | Inr _ \<Rightarrow> call_on now client_id (q_insert ops now connection_id) c1)"

text \<open>The branch of a full table: look at the oldest client, and when it is inactive delete
  what \<^verbatim>\<open>first()\<close> names by then.\<close>

definition evict_and_open :: "'q queue_ops \<Rightarrow> time \<Rightarrow> 'k \<Rightarrow> int \<Rightarrow> 'k \<Rightarrow> ('k, 'q) lru
    \<Rightarrow> bool res \<times> ('k, 'q) lru" where
  "evict_and_open ops now client_id connection_id f c =
     (case call_on now f (\<lambda>q. (q_active ops now q, q)) c of
        (Inl e, c3) \<Rightarrow> (Inl e, c3)
      | (Inr active, c3) \<Rightarrow>
          if active then (Inr False, c3)
          else (case lru_first c3 of
                  None \<Rightarrow> (Inl KeyError, c3)
                | Some f' \<Rightarrow>
                    (case lru_delitem f' c3 of
                       (Inl e, c4) \<Rightarrow> (Inl e, c4)
                     | (Inr _, c4) \<Rightarrow> open_client ops now client_id connection_id c4)))"

definition client_insert :: "'q queue_ops \<Rightarrow> time \<Rightarrow> int \<Rightarrow> 'k \<Rightarrow> int \<Rightarrow> ('k, 'q) lru
    \<Rightarrow> bool res \<times> ('k, 'q) lru" where
  "client_insert ops now max_client client_id connection_id c =
     (let (v, c1) = lru_get now client_id c;
          (need, c2) = (case v of
                          None \<Rightarrow> (Inr True, c1)
                        | Some _ \<Rightarrow> call_on now client_id (\<lambda>q. (\<not> q_enabled ops q, q)) c1)
      in case need of
           Inl e \<Rightarrow> (Inl e, c2)
         | Inr new \<Rightarrow>
             if new then
               (case lru_first c2 of
                  None \<Rightarrow> open_client ops now client_id connection_id c2
                | Some f \<Rightarrow>
                    if int (lru_len c2) < max_client
                    then open_client ops now client_id connection_id c2
                    else evict_and_open ops now client_id connection_id f c2)
             else call_on now client_id (q_insert ops now connection_id) c2)"

text \<open>\<^verbatim>\<open>obfs_auth_v2_data\<close>: one table, and the ids the client side uses.\<close>

record v2_data =
  v2_client_id :: "(nat, client_queue) lru"
  v2_local_client_id :: bytes
  v2_connection_id :: nat
  v2_max_client :: int
  v2_max_buffer :: int

definition set_max_client_v2 :: "int \<Rightarrow> v2_data \<Rightarrow> v2_data" where
  "set_max_client_v2 m d = d\<lparr>v2_max_client := m, v2_max_buffer := max (m * 2) 1024\<rparr>"

definition v2_data_new :: v2_data where
  "v2_data_new = set_max_client_v2 64
     \<lparr>v2_client_id = lru_new 60, v2_local_client_id = '''', v2_connection_id = 0,
      v2_max_client = 0, v2_max_buffer = 0\<rparr>"

definition v2_insert :: "time \<Rightarrow> nat \<Rightarrow> nat \<Rightarrow> v2_data \<Rightarrow> bool res \<times> v2_data" where
  "v2_insert now client_id conn_id d =
     (let (r, c) = client_insert auth_ops now (v2_max_client d) client_id (int conn_id) (v2_client_id d)
      in (r, d\<lparr>v2_client_id := c\<rparr>))"

definition v2_update :: "time \<Rightarrow> nat \<Rightarrow> nat \<Rightarrow> v2_data \<Rightarrow> v2_data" where
  "v2_update now client_id conn_id d =
     (if lru_contains client_id (v2_client_id d)
      then d\<lparr>v2_client_id := snd (call_on now client_id (\<lambda>q. ((), queue_update now q)) (v2_client_id d))\<rparr>
      else d)"

text \<open>\<^verbatim>\<open>obfs_auth_mu_data\<close> and \<^verbatim>\<open>obfs_auth_chain_data\<close>: a table per user id
  (\<^verbatim>\<open>None\<close> for a connection of no user), made on first use.\<close>

record 'q mu_data =
  mu_user_id :: "(bytes option \<times> (nat, 'q) lru) list"
  mu_local_client_id :: bytes
  mu_connection_id :: nat
  mu_max_client :: int
  mu_max_buffer :: int

definition set_max_client_mu :: "int \<Rightarrow> 'q mu_data \<Rightarrow> 'q mu_data" where
  "set_max_client_mu m d = d\<lparr>mu_max_client := m, mu_max_buffer := max (m * 2) 1024\<rparr>"

definition mu_data_new :: "'q mu_data" where
  "mu_data_new = set_max_client_mu 64
     \<lparr>mu_user_id = [], mu_local_client_id = '''', mu_connection_id = 0, mu_max_client = 0,
      mu_max_buffer = 0\<rparr>"

definition user_table :: "bytes option \<Rightarrow> 'q mu_data \<Rightarrow> (nat, 'q) lru" where
  "user_table u d = (case map_of (mu_user_id d) u of None \<Rightarrow> lru_new 60 | Some c \<Rightarrow> c)"

definition set_table :: "bytes option \<Rightarrow> (nat, 'q) lru \<Rightarrow> 'q mu_data \<Rightarrow> 'q mu_data" where
  "set_table u c d = d\<lparr>mu_user_id := AList.update u c (mu_user_id d)\<rparr>"

definition mu_insert :: "'q queue_ops \<Rightarrow> time \<Rightarrow> bytes option \<Rightarrow> nat \<Rightarrow> nat \<Rightarrow> 'q mu_data
    \<Rightarrow> bool res \<times> 'q mu_data" where
  "mu_insert ops now user_id client_id conn_id d =
     (let (r, c) = client_insert ops now (mu_max_client d) client_id (int conn_id) (user_table user_id d)
      in (r, set_table user_id c d))"

definition mu_update :: "time \<Rightarrow> bytes option \<Rightarrow> nat \<Rightarrow> nat \<Rightarrow> ('a client_queue_scheme) mu_data
    \<Rightarrow> ('a client_queue_scheme) mu_data" where
  "mu_update now user_id client_id conn_id d =
     (let c = user_table user_id d
      in set_table user_id
           (if lru_contains client_id c
            then snd (call_on now client_id (\<lambda>q. ((), queue_update now q)) c) else c) d)"

definition chain_remove :: "time \<Rightarrow> bytes option \<Rightarrow> nat \<Rightarrow> chain_queue mu_data \<Rightarrow> chain_queue mu_data" where
  "chain_remove now user_id client_id d =
     (case map_of (mu_user_id d) user_id of
        None \<Rightarrow> d
      | Some c \<Rightarrow>
          if lru_contains client_id c
          then set_table user_id (snd (call_on now client_id (\<lambda>q. ((), chain_delref q)) c)) d
          else d)"

subsection \<open>A call on a table keeps its keys\<close>

lemma lookup_modify: "lookup (lru_modify k f c) = (\<lambda>k'. if k' = k then map_option f (lookup c k) else lookup c k')"
proof -
  have "map_of (AList.map_entry k f xs) = (\<lambda>k'. if k' = k then map_option f (map_of xs k) else map_of xs k')"
    for xs :: "('a \<times> 'b) list"
    by (induction xs) (auto simp: fun_eq_iff)
  then show ?thesis by (simp add: lookup_def lru_modify_def fun_eq_iff)
qed

lemma last_time_modify [simp]: "last_time (lru_modify k f c) = last_time c"
  by (simp add: lru_modify_def)

lemma lru_contains_lookup: "lru_contains k c \<longleftrightarrow> lookup c k \<noteq> None"
  by (simp add: lru_contains_def lookup_def)

lemma call_on_missing: "lru_ok c \<Longrightarrow> lookup c k = None \<Longrightarrow> call_on now k m c = (Inl KeyError, c)"
  by (simp add: call_on_def lru_getitem_missing)

lemma call_on_spec:
  assumes "lru_ok c" and "lookup c k = Some q"
  shows "\<exists>c'. call_on now k m c = (Inr (fst (m q)), c') \<and> lru_ok c'
    \<and> lookup c' = (lookup c)(k \<mapsto> snd (m q)) \<and> lru_len c' = lru_len c
    \<and> last_time c' = touch now k (last_time c)"
proof -
  obtain c1 where c1: "lru_getitem now k c = (Inr q, c1)" "lookup c1 = lookup c" "lru_ok c1"
      "lru_len c1 = lru_len c"
    using lru_abs_getitem [OF assms] by blast
  moreover have "last_time c1 = touch now k (last_time c)"
    using c1(1) by (auto simp: lru_getitem_def Let_def split: option.splits)
  moreover have "lru_len (lru_modify k f c1) = lru_len c1" for f
  proof -
    have "length (AList.map_entry k f xs) = length xs" for xs :: "('a \<times> 'b) list"
      by (induction xs) auto
    then show ?thesis by (simp add: lru_len_def lru_modify_def)
  qed
  ultimately show ?thesis
    using assms(2)
    by (auto simp: call_on_def Let_def lookup_modify lru_ok_modify fun_eq_iff last_time_modify split: prod.splits)
qed

lemma open_client_spec:
  assumes "lru_ok c"
  shows "\<exists>r c'. open_client ops now k conn c = (Inr r, c') \<and> lru_ok c'
    \<and> (\<forall>k'. k' \<noteq> k \<longrightarrow> lookup c' k' = lookup c k') \<and> lookup c' k \<noteq> None
    \<and> lru_len c' = (if lookup c k = None then Suc (lru_len c) else lru_len c)"
proof (cases "lookup c k")
  case None
  let ?c = "lru_setitem now k (q_new ops now conn) c"
  have "lru_ok ?c" "lookup ?c k = Some (q_new ops now conn)"
    using assms by (simp_all add: lru_ok_setitem lookup_setitem)
  from call_on_spec [OF this, of now "q_insert ops now conn"] show ?thesis
    using None lc.sz_put [OF assms, of now k "q_new ops now conn"]
    by (auto simp: open_client_def lru_contains_lookup lookup_setitem)
next
  case (Some q)
  obtain c1 where c1: "call_on now k (\<lambda>q. ((), q_re_enable ops conn q)) c = (Inr (), c1)" "lru_ok c1"
      "lookup c1 = (lookup c)(k \<mapsto> q_re_enable ops conn q)" "lru_len c1 = lru_len c"
    using call_on_spec [OF assms Some, of now "\<lambda>q. ((), q_re_enable ops conn q)"] by auto
  have "lookup c1 k = Some (q_re_enable ops conn q)" using c1(3) by simp
  from call_on_spec [OF c1(2) this, of now "q_insert ops now conn"] show ?thesis
    using Some c1 by (auto simp: open_client_def lru_contains_lookup)
qed

lemma lru_get_spec:
  assumes "lru_ok c"
  shows "\<exists>c'. lru_get now k c = (lookup c k, c') \<and> lru_ok c' \<and> lookup c' = lookup c \<and> lru_len c' = lru_len c
    \<and> (lookup c k = None \<longrightarrow> c' = c)"
proof (cases "lookup c k")
  case None
  then show ?thesis using assms by (simp add: lru_get_def lru_getitem_missing)
next
  case (Some v)
  then show ?thesis using lru_abs_getitem [OF assms Some, of now] by (auto simp: lru_get_def)
qed

lemma evict_and_open_spec:
  assumes "lru_ok c" and "lru_first c = Some f"
  shows "\<exists>r c'. evict_and_open ops now k conn f c = (Inr r, c') \<and> lru_ok c' \<and> lru_len c' \<le> lru_len c"
proof -
  obtain q where q: "lookup c f = Some q" using lru_first_in [OF assms(1,2)] by auto
  obtain c3 where c3: "call_on now f (\<lambda>q. (q_active ops now q, q)) c = (Inr (q_active ops now q), c3)"
      "lru_ok c3" "lookup c3 = lookup c" "lru_len c3 = lru_len c"
    using call_on_spec [OF assms(1) q, of now "\<lambda>q. (q_active ops now q, q)"] q
    by (auto simp: fun_upd_idem)
  show ?thesis
  proof (cases "q_active ops now q")
    case True
    then show ?thesis using c3 by (auto simp: evict_and_open_def)
  next
    case False
    have "lookup c3 \<noteq> Map.empty" using q c3(3) by auto
    then obtain f' where f': "lru_first c3 = Some f'" using lru_first_None [OF c3(2)] by auto
    then obtain q' where q': "lookup c3 f' = Some q'" using lru_first_in [OF c3(2)] by auto
    obtain c4 where d: "lru_delitem f' c3 = (Inr (), c4)"
      using lru_delitem_eq [OF c3(2) q'] by simp
    have ok: "lru_ok c4" using lru_ok_delitem [OF c3(2), of f'] d by simp
    have "0 < lru_len c3"
      using lc.sz_dom [OF c3(2)] finite_lookup [of c3] q' by (metis card_gt_0_iff domI empty_iff)
    moreover have "lru_len c4 = lru_len c3 - 1"
      using lc.sz_del [OF c3(2), of f'] q' d by simp
    ultimately show ?thesis
      using open_client_spec [OF ok, of ops now k conn] d c3 False f'
      by (auto simp: evict_and_open_def)
  qed
qed

lemma client_insert_spec:
  assumes "lru_ok c" and "int (lru_len c) \<le> M" and "1 \<le> M" and "m \<le> M"
  shows "\<exists>r c'. client_insert ops now m k conn c = (Inr r, c') \<and> lru_ok c' \<and> int (lru_len c') \<le> M"
proof -
  obtain c1 where g: "lru_get now k c = (lookup c k, c1)" and c1: "lru_ok c1" "lookup c1 = lookup c"
      "lru_len c1 = lru_len c"
    using lru_get_spec [OF assms(1)] by blast
  have open_ok: "\<exists>r c'. open_client ops now k conn c2 = (Inr r, c') \<and> lru_ok c' \<and> int (lru_len c') \<le> M"
    if "lru_ok c2" "lru_len c2 \<le> lru_len c1" "lookup c2 k \<noteq> None \<or> int (lru_len c2) < M" for c2
    using open_client_spec [OF that(1), of ops now k conn] that c1 assms by auto
  have evict_ok: "\<exists>r c'. evict_and_open ops now k conn f c2 = (Inr r, c') \<and> lru_ok c' \<and> int (lru_len c') \<le> M"
    if "lru_ok c2" "lru_len c2 \<le> lru_len c1" "lru_first c2 = Some f" for c2 f
    using evict_and_open_spec [OF that(1,3), of ops now k conn] that(2) c1 assms by auto
  show ?thesis
  proof (cases "lookup c k")
    case None
    have empty: "lru_len c1 = 0" if "lru_first c1 = None"
      using that lru_first_None [OF c1(1)] lc.sz_dom [OF c1(1)] by simp
    show ?thesis
    proof (cases "lru_first c1")
      case None
      then show ?thesis
        using g \<open>lookup c k = None\<close> open_ok [OF c1(1) order_refl] empty
assms
        by (simp add: client_insert_def)
    next
      case (Some f)
      then show ?thesis
        using g \<open>lookup c k = None\<close> c1 open_ok [OF c1(1) order_refl] evict_ok [OF c1(1) order_refl Some] assms
        by (simp add: client_insert_def)
    qed
  next
    case (Some q)
    then have "lookup c1 k = Some q" using c1 by simp
    then obtain c2 where c2: "call_on now k (\<lambda>q. (\<not> q_enabled ops q, q)) c1 = (Inr (\<not> q_enabled ops q), c2)"
        "lru_ok c2" "lookup c2 = lookup c" "lru_len c2 = lru_len c1"
      using call_on_spec [OF c1(1), of k q now "\<lambda>q. (\<not> q_enabled ops q, q)"] Some c1
      by (auto simp: fun_upd_idem)
    have q2: "lookup c2 k = Some q" using c2 Some by simp
    show ?thesis
    proof (cases "q_enabled ops q")
      case True
      then show ?thesis
        using call_on_spec [OF c2(2) q2, of now "q_insert ops now conn"] g Some c2 c1 assms
        by (auto simp: client_insert_def)
    next
      case False
      have "lru_first c2 \<noteq> None"
        using q2 lru_first_None [OF c2(2)] by auto
      then obtain f where f: "lru_first c2 = Some f" by auto
      show ?thesis
        using False f g Some c2 q2 open_ok [OF c2(2)] evict_ok [OF c2(2) _ f] c1 assms
        by (simp add: client_insert_def)
    qed
  qed
qed

subsection \<open>Properties\<close>

text \<open>C4. Replay protection of auth.py: while a client's connections come less than 180 seconds
  apart, no connection id is accepted twice, and none of those accepted before.\<close>

theorem queue_no_replay:
  assumes "window q S" and "enable q" and "steady 180 (last_update q) evs"
  shows "distinct (run_ids queue_insert evs q) \<and> set (run_ids queue_insert evs q) \<inter> S = {}"
  using assms(1) steady_stays_live [OF assms(2,3)] by (rule qg.accepted_once)

theorem queue_no_replay_witness:
  "steady 180 0 [(1, 7), (2, 8), (3, 7)]
   \<and> run_ids queue_insert [(1, 7), (2, 8), (3, 7)] (client_queue_new 0 7) = [7, 8]
   \<and> distinct (run_ids queue_insert [(1, 7), (2, 8), (3, 7)] (client_queue_new 0 7))"
proof -
  let ?q = "client_queue_new 0 7"
  have s: "steady 180 (last_update ?q) [(1, 7), (2, 8), (3, 7)]" and e: "enable ?q"
    by (simp_all add: client_queue_new_def)
  have "run_ids queue_insert [(1, 7), (2, 8), (3, 7)] ?q = [7, 8]"
    by (simp add: client_queue_new_def queue_insert_def queue_is_active_def queue_update_def
        window_insert_def advance.simps)
  moreover have "distinct (run_ids queue_insert [(1, 7), (2, 8), (3, 7)] ?q)"
    using queue_no_replay [OF window_new(1) e s] by simp
  ultimately show ?thesis by simp
qed

text \<open>C5. Replay protection of auth_chain.py: while a client keeps a connection open (its
  reference count is positive) and its connections come less than 600 seconds apart, no
  connection id is accepted twice.\<close>

theorem chain_no_replay:
  assumes "window q S" and "enable q" and "ref q > 0" and "steady 600 (last_update q) evs"
  shows "distinct (run_ids chain_queue_insert evs q) \<and> set (run_ids chain_queue_insert evs q) \<inter> S = {}"
  using assms(1) steady_stays_live_chain [OF assms(2-4)] by (rule cg.accepted_once)

theorem chain_no_replay_witness:
  "run_ids chain_queue_insert [(1, 7), (2, 8), (3, 7)] (chain_addref (chain_queue_new 0 7)) = [7, 8]
   \<and> distinct (run_ids chain_queue_insert [(1, 7), (2, 8), (3, 7)] (chain_addref (chain_queue_new 0 7)))"
proof -
  let ?q = "chain_addref (chain_queue_new 0 7)"
  have w: "window ?q {}" using window_new(2) by simp
  have s: "steady 600 (last_update ?q) [(1, 7), (2, 8), (3, 7)]" and e: "enable ?q" "ref ?q > 0"
    by (simp_all add: chain_queue_new_def chain_addref_def)
  have "run_ids chain_queue_insert [(1, 7), (2, 8), (3, 7)] ?q = [7, 8]"
    by (simp add: chain_queue_new_def chain_queue_insert_def chain_is_active_def chain_addref_def
        queue_update_def window_insert_def advance.simps)
  moreover have "distinct (run_ids chain_queue_insert [(1, 7), (2, 8), (3, 7)] ?q)"
    using chain_no_replay [OF w e s] by simp
  ultimately show ?thesis by simp
qed

text \<open>The decision of \<open>insert\<close>: an active queue accepts exactly the ids of the window
  \<open>[front, front + 0x4000]\<close> that it has not accepted before, an inactive one forgets its
  history and accepts any id; either way at most 4096 ids are remembered afterwards.\<close>

theorem queue_insert_decision:
  assumes "window q S" and "enable q"
  shows "(fst (queue_insert now c q) \<longleftrightarrow>
           \<not> queue_is_active now q \<or> front q \<le> c \<and> c \<le> front q + 0x4000 \<and> c \<notin> S)
    \<and> length (alloc (snd (queue_insert now c q))) \<le> 0x1000"
proof -
  define q1 where "q1 = queue_update now (if \<not> queue_is_active now q then queue_re_enable c q else q)"
  define T where "T = (if queue_is_active now q then S else {})"
  have w: "window q1 T"
    using assms(1) by (simp add: q1_def T_def window_re_enable window_update)
  have i: "queue_insert now c q = window_insert c q1"
    using assms(2) by (simp add: queue_insert_def q1_def)
  have "window (snd (window_insert c q1)) (if fst (window_insert c q1) then insert c T else T)"
    using window_insert_window [OF w] by (metis prod.collapse)
  then have "length (alloc (snd (window_insert c q1))) \<le> 0x1000" by (rule window_bound)
  then show ?thesis
    unfolding i using window_insert_accepts [OF w, of c]
    by (auto simp: q1_def T_def queue_update_def queue_re_enable_def)
qed

theorem queue_insert_decision_witness:
  "fst (queue_insert 5 100 (client_queue_new 0 7)) \<and> \<not> fst (queue_insert 5 (-100) (client_queue_new 0 7))
   \<and> fst (queue_insert 200 (-100) (client_queue_new 0 7))"
proof -
  have e: "enable (client_queue_new 0 7)" by (simp add: client_queue_new_def)
  show ?thesis
    using queue_insert_decision [OF window_new(1) e, of 5 100]
      queue_insert_decision [OF window_new(1) e, of 5 "-100"]
      queue_insert_decision [OF window_new(1) e, of 200 "-100"]
    by (simp add: client_queue_new_def queue_is_active_def)
qed

text \<open>The table of clients of auth_aes128 and auth_chain never holds more than the configured
  number of clients of a user (or one), and its \<open>insert\<close> never raises.\<close>

theorem mu_insert_bound:
  assumes "lru_ok (user_table u d)" and "int (lru_len (user_table u d)) \<le> max 1 (mu_max_client d)"
  shows "\<exists>r d'. mu_insert ops now u client_id conn_id d = (Inr r, d')
    \<and> lru_ok (user_table u d') \<and> int (lru_len (user_table u d')) \<le> max 1 (mu_max_client d')
    \<and> (\<forall>u'. u' \<noteq> u \<longrightarrow> user_table u' d' = user_table u' d)"
proof -
  obtain r c' where "client_insert ops now (mu_max_client d) client_id (int conn_id) (user_table u d)
        = (Inr r, c')" "lru_ok c'" "int (lru_len c') \<le> max 1 (mu_max_client d)"
    using client_insert_spec [OF assms(1,2) max.cobounded1 max.cobounded2] by blast
  then show ?thesis
    by (simp add: mu_insert_def set_table_def user_table_def update_conv')
qed

theorem mu_insert_bound_witness:
  "\<exists>r d'. mu_insert chain_ops 0 None 3 9 mu_data_new = (Inr r, d')
     \<and> int (lru_len (user_table None d')) \<le> max 1 (mu_max_client d')"
proof -
  have "lru_ok (user_table None (mu_data_new :: chain_queue mu_data))"
    and "int (lru_len (user_table None (mu_data_new :: chain_queue mu_data)))
      \<le> max 1 (mu_max_client (mu_data_new :: chain_queue mu_data))"
    by (simp_all add: mu_data_new_def set_max_client_mu_def user_table_def lru_new_def lru_ok_def lru_len_def)
  from mu_insert_bound [OF this, of chain_ops 0 3 9] show ?thesis by blast
qed

text \<open>What a full table evicts: the check of the oldest client is itself a visit that makes it
  the newest, so the client that \<open>first()\<close> names at the deletion is the second oldest,
  active or not, and the inactive client stays.\<close>

theorem full_table_evicts_second_oldest:
  assumes "lru_ok c" and "last_time c = (f, tf) # (g, tg) # ts" and "lookup c k = None"
    and "m \<le> int (lru_len c)" and "lookup c f = Some qf" and "\<not> q_active ops now qf"
  shows "\<exists>r c'. client_insert ops now m k conn c = (Inr r, c') \<and> lookup c' f = Some qf
    \<and> lookup c' g = None"
proof -
  have fg: "f \<noteq> g" using assms(1,2) by (auto simp: lru_ok_def)
  have "map_of (last_time c) g \<noteq> None" using assms(2) by simp
  then have g: "lookup c g \<noteq> None" using lru_ok_keys [OF assms(1), of g] by (auto simp: lookup_def)
  have kf: "f \<noteq> k" "g \<noteq> k" using assms(3,5) g by auto
  obtain c3 where c3: "call_on now f (\<lambda>q. (q_active ops now q, q)) c = (Inr False, c3)" "lru_ok c3"
      "lookup c3 = lookup c" "last_time c3 = touch now f (last_time c)"
    using call_on_spec [OF assms(1,5), of now "\<lambda>q. (q_active ops now q, q)"] assms(5,6)
    by (auto simp: fun_upd_idem)
  have "lru_first c3 = Some g"
    using c3(4) assms(2) fg by (simp add: lru_first_def touch_def)
  moreover obtain c4 where c4: "lru_delitem g c3 = (Inr (), c4)"
    using lru_delitem_eq [OF c3(2), of g] g c3(3) by auto
  moreover have "lookup c4 = (lookup c)(g := None)" "lru_ok c4"
    using lookup_delitem [OF c3(2), of g] lru_ok_delitem [OF c3(2), of g] c4 c3(3) by simp_all
  moreover obtain r c5 where "open_client ops now k conn c4 = (Inr r, c5)"
      "\<forall>k'. k' \<noteq> k \<longrightarrow> lookup c5 k' = lookup c4 k'"
    using open_client_spec [OF \<open>lru_ok c4\<close>, of ops now k conn] by blast
  moreover have "lru_get now k c = (None, c)" "lru_first c = Some f"
    using lru_get_spec [OF assms(1), of now k] assms(2,3) by (auto simp: lru_first_def)
  ultimately show ?thesis
    using assms(4,5) c3(1) fg kf by (auto simp: client_insert_def evict_and_open_def)
qed

theorem full_table_evicts_second_oldest_witness:
  "let c = lru_setitem 500 (2::nat) (client_queue_new 500 1) (lru_setitem 0 1 (client_queue_new 0 1) (lru_new 60)) in
   \<not> queue_is_active 501 (client_queue_new 0 1) \<and> queue_is_active 501 (client_queue_new 500 1) \<and>
   (\<exists>r c'. client_insert auth_ops 501 2 3 1 c = (Inr r, c')
      \<and> lookup c' 1 = Some (client_queue_new 0 1) \<and> lookup c' 2 = None)"
proof -
  let ?c = "lru_setitem 500 (2::nat) (client_queue_new 500 1) (lru_setitem 0 1 (client_queue_new 0 1) (lru_new 60))"
  have a: "\<not> queue_is_active 501 (client_queue_new 0 1)" "queue_is_active 501 (client_queue_new 500 1)"
    by (simp_all add: queue_is_active_def client_queue_new_def)
  have "lru_ok ?c" by (simp add: lru_ok_setitem)
  moreover have "last_time ?c = [(1, 0), (2, 500)]" "lookup ?c 3 = None" "(2::int) \<le> int (lru_len ?c)"
      "lookup ?c 1 = Some (client_queue_new 0 1)"
    by (simp_all add: lru_setitem_def lru_new_def touch_def lookup_def lru_len_def)
  moreover have "\<not> q_active auth_ops 501 (client_queue_new 0 1)" using a(1) by (simp add: auth_ops_def)
  ultimately show ?thesis
    using a full_table_evicts_second_oldest [of ?c 1 0 2 500 "[]" 3 2] by simp
qed

subsection \<open>The first client\<close>

lemma client_insert_fresh:
  fixes k :: 'k and ops :: "'q queue_ops"
  assumes "fst (q_insert ops now conn (q_new ops now conn))"
  shows "fst (client_insert ops now m k conn (lru_new t)) = Inr True"
proof -
  let ?e = "lru_new t :: ('k, 'q) lru"
  let ?q = "q_new ops now conn"
  have 1: "lru_get now k ?e = (None, ?e)" "lru_first ?e = None" "\<not> lru_contains k ?e"
    by (simp_all add: lru_get_def lru_getitem_def lru_first_def lru_contains_def lru_new_def)
  have 2: "fst (lru_getitem now k (lru_setitem now k ?q ?e)) = Inr ?q"
    by (simp add: lru_getitem_def lru_setitem_def lru_new_def touch_def)
  then show ?thesis
    using assms 1 by (simp add: client_insert_def open_client_def call_on_def split_beta
        split: sum.split)
qed

lemma queue_insert_new: "fst (queue_insert now c (client_queue_new now c))"
  by (simp add: queue_insert_def queue_is_active_def client_queue_new_def window_insert_def
      queue_update_def Let_def split_beta)

lemma chain_queue_insert_new: "fst (chain_queue_insert now c (chain_queue_new now c))"
  by (simp add: chain_queue_insert_def chain_is_active_def chain_queue_new_def window_insert_def
      queue_update_def queue_re_enable_def Let_def split_beta)

lemma v2_insert_fresh: "fst (v2_insert now k conn v2_data_new) = Inr True"
  using client_insert_fresh [of auth_ops now "int conn" 64 k 60] queue_insert_new
  by (simp add: v2_insert_def v2_data_new_def set_max_client_v2_def auth_ops_def split_beta)

lemma mu_insert_fresh:
  assumes "ops = auth_ops"
  shows "fst (mu_insert ops now u k conn mu_data_new) = Inr True"
  using client_insert_fresh [of ops now "int conn" 64 k 60] queue_insert_new assms
  by (simp add: mu_insert_def mu_data_new_def set_max_client_mu_def user_table_def auth_ops_def split_beta)

lemma mu_insert_fresh_chain:
  "fst (mu_insert chain_ops now u k conn mu_data_new) = Inr True"
  using client_insert_fresh [of chain_ops now "int conn" 64 k 60] chain_queue_insert_new
  by (simp add: mu_insert_def mu_data_new_def set_max_client_mu_def user_table_def chain_ops_def split_beta)

end
