(* ===== verification/Checksums.thy ===== *)
theory Checksums
  imports Prelude
begin

unbundle bit_operations_syntax

text \<open>
  The two checksums of Python's \<^verbatim>\<open>binascii\<close> and \<^verbatim>\<open>zlib\<close> that the obfuscation
  plugins and \<^verbatim>\<open>common.pre_parse_header\<close> compute: CRC-32 (reflected polynomial
  \<^verbatim>\<open>0xEDB88320\<close>) and Adler-32, as the callers read them after
  \<^verbatim>\<open>& 0xffffffff\<close>. The callers rely on two facts of CRC-32: the residue of a message
  followed by its inverted checksum is \<^verbatim>\<open>0xffffffff\<close>, and the value has 32 bits.
\<close>

subsection \<open>CRC-32\<close>

definition crc_bit :: "32 word \<Rightarrow> 32 word" where
  "crc_bit c = (if bit c 0 then drop_bit 1 c XOR 0xEDB88320 else drop_bit 1 c)"

definition crc_byte :: "32 word \<Rightarrow> char \<Rightarrow> 32 word" where
  "crc_byte c b = (crc_bit ^^ 8) (c XOR of_nat (ordb b))"

definition crc_reg :: "32 word \<Rightarrow> bytes \<Rightarrow> 32 word" where
  "crc_reg c s = foldl crc_byte c s"

definition crc32 :: "bytes \<Rightarrow> nat" where
  "crc32 s = unat (NOT (crc_reg 0xFFFFFFFF s))"

lemma unat_less_32: "unat (w :: 32 word) < 4294967296"
proof -
  have "unat w < 2 ^ LENGTH(32)" by (rule unsigned_less)
  then show ?thesis by simp
qed

lemma crc32_less: "crc32 s < 4294967296"
  by (simp add: crc32_def unat_less_32)

text \<open>A register whose low bits are clear is only shifted.\<close>

lemma crc_bit_clear:
  assumes "take_bit (Suc n) c = 0"
  shows "crc_bit c = drop_bit 1 c" "take_bit n (drop_bit 1 c) = 0"
proof -
  have b: "\<not> bit c i" if "i < Suc n" for i
    using assms that by (metis bit_take_bit_iff bit_0_eq bot_apply bot_bool_def)
  show "crc_bit c = drop_bit 1 c" using b [of 0] by (simp add: crc_bit_def)
  show "take_bit n (drop_bit 1 c) = 0"
    by (rule bit_eqI) (auto simp: bit_take_bit_iff bit_drop_bit_eq b)
qed

lemma crc_bit_clear_pow: "take_bit n c = 0 \<Longrightarrow> (crc_bit ^^ n) c = drop_bit n c"
proof (induction n arbitrary: c)
  case (Suc n)
  have "(crc_bit ^^ Suc n) c = (crc_bit ^^ n) (drop_bit 1 c)"
    using crc_bit_clear(1) [OF Suc.prems] by (simp add: funpow_swap1)
  also have "\<dots> = drop_bit n (drop_bit 1 c)"
    using crc_bit_clear(2) [OF Suc.prems] by (rule Suc.IH)
  finally show ?case by (simp add: drop_bit_drop_bit)
qed simp

text \<open>Feeding the register its own low byte shifts it by eight.\<close>

lemma crc_byte_own:
  "crc_byte c (chrb (unat c mod 256)) = drop_bit 8 c"
proof -
  let ?x = "c XOR of_nat (unat c mod 256)"
  have "take_bit 8 c = of_nat (unat (take_bit 8 c))" by simp
  also have "\<dots> = of_nat (unat c mod 256)"
    by (simp only: unsigned_take_bit_eq) (simp add: take_bit_eq_mod)
  finally have low: "of_nat (unat c mod 256) = take_bit 8 c" ..
  have "take_bit 8 ?x = 0"
    by (rule bit_eqI) (auto simp: low bit_take_bit_iff bit_xor_iff)
  moreover have "drop_bit 8 ?x = drop_bit 8 c"
    by (rule bit_eqI) (auto simp: low bit_take_bit_iff bit_xor_iff bit_drop_bit_eq)
  ultimately show ?thesis
    by (simp add: crc_byte_def crc_bit_clear_pow)
qed

text \<open>Feeding it its own four bytes, low byte first, clears it.\<close>

lemma crc_reg_append: "crc_reg c (s @ t) = crc_reg (crc_reg c s) t"
  by (simp add: crc_reg_def)

lemma crc_reg_own: "crc_reg c (le32 (unat c)) = 0"
proof -
  have step: "crc_byte (drop_bit n c) (chrb (unat c div 2 ^ n)) = drop_bit (n + 8) c" for n
  proof -
    have u: "unat (drop_bit n c) = unat c div 2 ^ n"
      by (simp only: unsigned_drop_bit_eq) (simp add: drop_bit_eq_div take_bit_nat_eq_self unat_less_32)
    show ?thesis
      using crc_byte_own [of "drop_bit n c"]
      by (simp add: u char_of_mod_256 drop_bit_drop_bit add.commute)
  qed
  have "drop_bit 32 c = 0"
    by (rule bit_word_eqI) (simp add: bit_drop_bit_eq)
  then show ?thesis
    using step [of 0] step [of 8] step [of 16] step [of 24]
    by (simp add: crc_reg_def le32_def)
qed

lemma unat_not_32: "unat (NOT w) = 0xFFFFFFFF - unat (w :: 32 word)"
proof -
  have "NOT w = 0xFFFFFFFF - w"
    by (simp add: not_eq_complement)
  moreover have "unat ((0xFFFFFFFF :: 32 word) - w) = unat (0xFFFFFFFF :: 32 word) - unat w"
    using unat_less_32 [of w] by (intro unat_sub) (simp add: word_le_nat_alt)
  ultimately show ?thesis by simp
qed

text \<open>The residue: a message followed by its inverted CRC has the CRC
  \<^verbatim>\<open>0xffffffff\<close>, whatever the message.\<close>

lemma crc32_residue: "crc32 (s @ le32 (0xFFFFFFFF - crc32 s)) = 0xFFFFFFFF"
proof -
  let ?r = "crc_reg 0xFFFFFFFF s"
  have "0xFFFFFFFF - crc32 s = unat ?r"
    by (simp add: crc32_def flip: unat_not_32)
  then show ?thesis
    by (simp add: crc32_def crc_reg_append crc_reg_own unsigned_minus_1_eq_mask
        mask_eq_exp_minus_1)
qed

subsection \<open>Adler-32\<close>

definition adler_step :: "nat \<times> nat \<Rightarrow> char \<Rightarrow> nat \<times> nat" where
  "adler_step ab c = (let a = (fst ab + ordb c) mod 65521 in (a, (snd ab + a) mod 65521))"

definition adler32 :: "bytes \<Rightarrow> nat" where
  "adler32 s = (let (a, b) = foldl adler_step (1, 0) s in b * 65536 + a)"

lemma adler_step_less: "fst (adler_step p c) < 65521 \<and> snd (adler_step p c) < 65521"
  by (simp add: adler_step_def Let_def)

lemma adler_fold_less:
  "fst p < 65521 \<Longrightarrow> snd p < 65521 \<Longrightarrow>
   fst (foldl adler_step p s) < 65521 \<and> snd (foldl adler_step p s) < 65521"
  by (induction s arbitrary: p) (simp_all add: adler_step_less)

lemma adler32_less: "adler32 s < 4294967296"
  using adler_fold_less [of "(1, 0)" s]
  by (cases "foldl adler_step (1, 0) s") (simp add: adler32_def)

end
