(* ===== verification/Py_Strings.thy ===== *)
theory Py_Strings
  imports Prelude
begin

text \<open>
  The string methods of Python 2.7 that the plugins and the management tools call:
  \<^verbatim>\<open>find\<close>, \<^verbatim>\<open>in\<close>, \<^verbatim>\<open>split\<close>, \<^verbatim>\<open>join\<close>, \<^verbatim>\<open>replace\<close>, \<^verbatim>\<open>int\<close>, and
  \<^verbatim>\<open>hexlify\<close>/\<^verbatim>\<open>unhexlify\<close> of \<^verbatim>\<open>binascii\<close>.
\<close>

subsection \<open>Searching\<close>

text \<open>\<^verbatim>\<open>s.find(sub)\<close>, with \<^const>\<open>None\<close> for -1.\<close>

fun py_find :: "bytes \<Rightarrow> bytes \<Rightarrow> nat option" where
  "py_find sub [] = (if sub = [] then Some 0 else None)"
| "py_find sub (c # cs) =
     (if match_begin (c # cs) sub then Some 0 else map_option Suc (py_find sub cs))"

definition py_in :: "bytes \<Rightarrow> bytes \<Rightarrow> bool" where
  "py_in sub s \<longleftrightarrow> py_find sub s \<noteq> None"

lemma match_begin_Nil_left [simp]: "match_begin [] p \<longleftrightarrow> p = []"
  by (simp add: match_begin_def)

lemma match_begin_Nil_right [simp]: "match_begin s []"
  by (simp add: match_begin_def)

lemma match_begin_Cons [simp]: "match_begin (c # s) (d # p) \<longleftrightarrow> c = d \<and> match_begin s p"
  by (auto simp: match_begin_def)

lemma py_find_Some:
  "py_find sub s = Some i \<Longrightarrow> s = take i s @ sub @ drop (i + length sub) s \<and> i + length sub \<le> length s"
proof (induction sub s arbitrary: i rule: py_find.induct)
  case (1 sub)
  then show ?case by (auto split: if_splits)
next
  case (2 sub c cs)
  show ?case
  proof (cases "match_begin (c # cs) sub")
    case True
    then obtain t where "c # cs = sub @ t" using match_begin_iff by blast
    moreover have "i = 0" using True 2(2) by simp
    ultimately show ?thesis by simp
  next
    case False
    then obtain j where "i = Suc j" "py_find sub cs = Some j" using 2(2) by auto
    then show ?thesis using 2(1) [OF False, of j] by simp
  qed
qed

lemma py_find_fresh: "c \<notin> set s \<Longrightarrow> py_find (c # p) s = None"
  by (induction s) auto

text \<open>A separator is found at its first byte, when the text before has no such byte.\<close>

lemma py_find_first: "c \<notin> set s \<Longrightarrow> py_find (c # p) (s @ (c # p) @ t) = Some (length s)"
proof (induction s)
  case Nil
  show ?case using match_begin_append [of "c # p" t] by simp
qed auto

lemma py_find_skip:
  "c \<notin> set s \<Longrightarrow> py_find (c # p) (s @ t) = map_option (\<lambda>i. i + length s) (py_find (c # p) t)"
  by (induction s) (auto simp: option.map_comp comp_def option.map_id0 [unfolded id_def])

subsection \<open>Splitting and joining\<close>

function py_split :: "bytes \<Rightarrow> bytes \<Rightarrow> bytes list" where
  "py_split sep s =
     (case py_find sep s of
        None \<Rightarrow> [s]
      | Some i \<Rightarrow>
          if sep = [] then [s]
          else take i s # py_split sep (drop (i + length sep) s))"
  by pat_completeness auto
termination
proof (relation "measure (\<lambda>(sep, s). length s)")
  fix sep s :: bytes and i
  assume "py_find sep s = Some i" and "sep \<noteq> []"
  moreover from this have "i + length sep \<le> length s" using py_find_Some by blast
  moreover have "0 < length sep" using \<open>sep \<noteq> []\<close> by simp
  ultimately show "((sep, drop (i + length sep) s), (sep, s)) \<in> measure (\<lambda>(sep, s). length s)"
    by (simp del: length_greater_0_conv)
qed simp

declare py_split.simps [simp del]

text \<open>\<^verbatim>\<open>s.split(sep, 1)\<close>\<close>

definition py_split1 :: "bytes \<Rightarrow> bytes \<Rightarrow> bytes list" where
  "py_split1 sep s =
     (case py_find sep s of
        None \<Rightarrow> [s]
      | Some i \<Rightarrow> [take i s, drop (i + length sep) s])"

fun py_join :: "bytes \<Rightarrow> bytes list \<Rightarrow> bytes" where
  "py_join sep [] = []"
| "py_join sep [x] = x"
| "py_join sep (x # y # xs) = x @ sep @ py_join sep (y # xs)"

definition py_replace :: "bytes \<Rightarrow> bytes \<Rightarrow> bytes \<Rightarrow> bytes" where
  "py_replace old new s = py_join new (py_split old s)"

lemma py_split_not_Nil [simp]: "py_split sep s \<noteq> []"
  by (simp add: py_split.simps [of sep s] split: option.split)

lemma py_join_Cons: "xs \<noteq> [] \<Longrightarrow> py_join sep (x # xs) = x @ sep @ py_join sep xs"
  by (cases xs) simp_all

lemma py_join_split: "py_join sep (py_split sep s) = s"
proof (induction sep s rule: py_split.induct)
  case (1 sep s)
  show ?case
  proof (cases "py_find sep s")
    case None
    then show ?thesis by (simp add: py_split.simps [of sep s])
  next
    case (Some i)
    show ?thesis
    proof (cases "sep = []")
      case True
      then have "py_split sep s = [s]" using Some by (simp add: py_split.simps [of "[]" s])
      then show ?thesis by simp
    next
      case False
      then show ?thesis
        using Some 1 [OF Some False] py_find_Some [OF Some]
        by (simp add: py_split.simps [of sep s] py_join_Cons)
    qed
  qed
qed

lemma py_split_fresh: "c \<notin> set s \<Longrightarrow> py_split (c # p) s = [s]"
  by (simp add: py_split.simps [of "c # p" s] py_find_fresh)

lemma py_split_Cons:
  "c \<notin> set s \<Longrightarrow> py_split (c # p) (s @ (c # p) @ t) = s # py_split (c # p) t"
  using py_find_first [of c s p t] py_split.simps [of "c # p" "s @ (c # p) @ t"] by simp

lemma py_split_join:
  "xs \<noteq> [] \<Longrightarrow> \<forall>x \<in> set xs. c \<notin> set x \<Longrightarrow> py_split (c # p) (py_join (c # p) xs) = xs"
proof (induction xs)
  case (Cons x xs)
  then show ?case
    using py_split_Cons [of c x p "py_join (c # p) xs"]
    by (cases "xs = []") (simp_all add: py_split_fresh py_join_Cons)
qed simp

subsection \<open>Numbers in text\<close>

definition is_space :: "char \<Rightarrow> bool" where
  "is_space c \<longleftrightarrow> ordb c = 32 \<or> (9 \<le> ordb c \<and> ordb c \<le> 13)"

definition py_strip :: "bytes \<Rightarrow> bytes" where
  "py_strip s = rev (dropWhile is_space (rev (dropWhile is_space s)))"

text \<open>\<^verbatim>\<open>int(s)\<close>: white space around, an optional sign, decimal digits; \<^const>\<open>None\<close>
  where Python raises \<^verbatim>\<open>ValueError\<close>.\<close>

definition py_int :: "bytes \<Rightarrow> int option" where
  "py_int s =
     (let t = py_strip s;
          neg = (t \<noteq> [] \<and> ordb (hd t) = 45);
          body = (if t \<noteq> [] \<and> (ordb (hd t) = 45 \<or> ordb (hd t) = 43) then tl t else t)
      in if body \<noteq> [] \<and> list_all is_digit body
         then Some (if neg then - int (undec 0 body) else int (undec 0 body))
         else None)"

lemma digit_not_space: "is_digit c \<Longrightarrow> \<not> is_space c"
  by (auto simp: is_digit_def is_space_def)

lemma dec_strip: "dropWhile is_space (dec n) = dec n" "dropWhile is_space (rev (dec n)) = rev (dec n)"
  using dec_digits [of _ n] digit_not_space
  by (simp_all add: dropWhile_eq_self_iff last_rev hd_rev)

lemma py_int_dec [simp]: "py_int (dec n) = Some (int n)"
proof -
  have "py_strip (dec n) = dec n" by (simp add: py_strip_def dec_strip)
  moreover have "is_digit (hd (dec n))" using dec_digits [of "hd (dec n)" n] by simp
  moreover have "list_all is_digit (dec n)" using dec_digits by (simp add: list_all_iff)
  ultimately show ?thesis by (simp add: py_int_def is_digit_def Let_def)
qed

subsection \<open>Hexadecimal\<close>

definition hex_digit :: "nat \<Rightarrow> char" where
  "hex_digit n = (if n < 10 then chrb (48 + n) else chrb (87 + n))"

fun hexlify :: "bytes \<Rightarrow> bytes" where
  "hexlify [] = []"
| "hexlify (c # cs) = hex_digit (ordb c div 16) # hex_digit (ordb c mod 16) # hexlify cs"

definition unhex_digit :: "char \<Rightarrow> nat option" where
  "unhex_digit c =
     (let n = ordb c in
        if 48 \<le> n \<and> n \<le> 57 then Some (n - 48)
        else if 97 \<le> n \<and> n \<le> 102 then Some (n - 87)
        else if 65 \<le> n \<and> n \<le> 70 then Some (n - 55)
        else None)"

text \<open>\<^verbatim>\<open>unhexlify\<close> raises \<^verbatim>\<open>TypeError\<close> on an odd length and on a byte that is no
  digit.\<close>

fun unhexlify :: "bytes \<Rightarrow> bytes res" where
  "unhexlify [] = Inr []"
| "unhexlify [c] = Inl TypeError"
| "unhexlify (c # d # cs) =
     (case unhex_digit c of
        None \<Rightarrow> Inl TypeError
      | Some h \<Rightarrow>
          (case unhex_digit d of
             None \<Rightarrow> Inl TypeError
           | Some l \<Rightarrow>
               (case unhexlify cs of
                  Inl e \<Rightarrow> Inl e
                | Inr r \<Rightarrow> Inr (chrb (16 * h + l) # r))))"

lemma unhex_hex [simp]: "n < 16 \<Longrightarrow> unhex_digit (hex_digit n) = Some n"
  by (simp add: unhex_digit_def hex_digit_def Let_def)

lemma unhexlify_hexlify [simp]: "unhexlify (hexlify s) = Inr s"
proof (induction s)
  case (Cons c s)
  have "ordb c div 16 < 16" using ordb_less [of c] by (simp add: less_mult_imp_div_less)
  then show ?case using Cons by simp
qed simp

lemma length_hexlify [simp]: "length (hexlify s) = 2 * length s"
  by (induction s) simp_all

lemma hexlify_append: "hexlify (s @ t) = hexlify s @ hexlify t"
  by (induction s) simp_all

lemma hex_digit_graph: "n < 16 \<Longrightarrow> 48 \<le> ordb (hex_digit n) \<and> ordb (hex_digit n) \<le> 102"
  by (auto simp: hex_digit_def)

end
