(* ===== verification/Plain.thy ===== *)
theory Plain
  imports Py_Strings
begin

text \<open>
  \<^verbatim>\<open>obfsplugin/plain.py\<close>, the base class of every plugin, and what all plugins share:
  the \<^verbatim>\<open>server_info\<close> object of \<^verbatim>\<open>obfs.py\<close> with the attributes that
  \<^verbatim>\<open>tcprelay.py\<close> and \<^verbatim>\<open>udprelay.py\<close> set, the hash functions (\<^verbatim>\<open>hashlib\<close> and
  \<^verbatim>\<open>hmac\<close> are C code and a parameter), and the differences of 32-bit time stamps.
  A plugin's operation takes its object's state and gives the result with the new state.
\<close>

subsection \<open>The server's description\<close>

text \<open>\<open>si_updates\<close> is the list of the users for which \<^verbatim>\<open>update_user_func\<close> was called,
  the latest first. \<open>si_data\<close> is what the plugin's \<^verbatim>\<open>init_data\<close> made, one object shared
  by all connections of a port.\<close>

record 'd server_info =
  si_host :: bytes
  si_port :: nat
  si_client :: bytes
  si_client_port :: nat
  si_protocol_param :: bytes
  si_obfs_param :: bytes
  si_iv :: bytes
  si_recv_iv :: bytes
  si_key_str :: bytes
  si_key :: bytes
  si_head_len :: nat
  si_tcp_mss :: int
  si_buffer_size :: nat
  si_overhead :: int
  si_users :: "(bytes \<times> bytes) list"
  si_updates :: "bytes list"
  si_data :: 'd

definition server_info_new :: "'d \<Rightarrow> 'd server_info" where
  "server_info_new d =
     \<lparr>si_host = [], si_port = 0, si_client = [], si_client_port = 0, si_protocol_param = [],
      si_obfs_param = [], si_iv = [], si_recv_iv = [], si_key_str = [], si_key = [],
      si_head_len = 0, si_tcp_mss = 0, si_buffer_size = 0, si_overhead = 0,
      si_users = [], si_updates = [], si_data = d\<rparr>"

subsection \<open>Hashes\<close>

datatype hashfunc = MD5 | SHA1

record hash_lib =
  digest :: "hashfunc \<Rightarrow> bytes \<Rightarrow> bytes"
  hmac :: "hashfunc \<Rightarrow> bytes \<Rightarrow> bytes \<Rightarrow> bytes"

fun digest_size :: "hashfunc \<Rightarrow> nat" where
  "digest_size MD5 = 16"
| "digest_size SHA1 = 20"

text \<open>The documented lengths of the digests, which the frame formats rely on.\<close>

definition hash_sizes :: "hash_lib \<Rightarrow> bool" where
  "hash_sizes hl \<longleftrightarrow> (\<forall>h k m. length (hmac hl h k m) = digest_size h)
     \<and> (\<forall>h m. length (digest hl h m) = digest_size h)"

lemma hash_sizes_lengths:
  assumes "hash_sizes hl"
  shows "length (hmac hl h k m) = digest_size h" and "length (digest hl h m) = digest_size h"
  using assms by (simp_all add: hash_sizes_def)

lemma digest_size_ge [simp]: "16 \<le> digest_size h"
  by (cases h) simp_all

lemma hash_sizes_take:
  "hash_sizes hl \<Longrightarrow> n \<le> 16 \<Longrightarrow> length (take n (hmac hl h k m)) = n"
  by (simp add: hash_sizes_lengths min_absorb2 order_trans [OF _ digest_size_ge])

text \<open>An example library, for concrete runs.\<close>

definition plain_hashes :: hash_lib where
  "plain_hashes =
     \<lparr>digest = (\<lambda>h m. take (digest_size h) (m @ replicate (digest_size h) (chrb 7))),
      hmac = (\<lambda>h k m. take (digest_size h)
        ([chrb (length m), chrb (length k + 1)] @ rev m @ k @ replicate (digest_size h) (chrb 9)))\<rparr>"

lemma plain_hashes_sizes: "hash_sizes plain_hashes"
  by (auto simp: hash_sizes_def plain_hashes_def min_def)

subsection \<open>Differences of time stamps\<close>

text \<open>\<^verbatim>\<open>common.int32\<close>\<close>

definition int32 :: "int \<Rightarrow> int" where
  "int32 x =
     (let y = (if x > 0xFFFFFFFF \<or> x < 0 then x AND 0xFFFFFFFF else x)
      in if y > 0x7FFFFFFF
         then (let z = 0x100000000 - y in if z < 0x80000000 then - z else - 2147483648)
         else y)"

lemma int32_signed_take_bit: "int32 x = signed_take_bit 31 x"
proof -
  have m: "y AND 0xFFFFFFFF = y mod 4294967296" for y :: int
    using take_bit_eq_mask [of 32 y] by (simp add: mask_eq_exp_minus_1 take_bit_eq_mod)
  have y: "(if x > 0xFFFFFFFF \<or> x < 0 then x AND 0xFFFFFFFF else x) = x mod 4294967296"
    by (auto simp: m)
  have "signed_take_bit 31 x = (x + 2147483648) mod 4294967296 - 2147483648"
    by (simp add: signed_take_bit_eq_take_bit_shift take_bit_eq_mod)
  also have "\<dots> = int32 x"
  proof (cases "x mod 4294967296 > 2147483647")
    case True
    have "(x + 2147483648) mod 4294967296 = (x mod 4294967296 + 2147483648) mod 4294967296"
      by (simp add: mod_add_left_eq)
    also have "\<dots> = (x mod 4294967296 - 2147483648) mod 4294967296"
      using mod_add_self2 [of "x mod 4294967296 - 2147483648" 4294967296] by (simp add: algebra_simps)
    also have "\<dots> = x mod 4294967296 - 2147483648"
      using True pos_mod_bound [of 4294967296 x] by (intro mod_pos_pos_trivial) linarith+
    finally show ?thesis using True unfolding int32_def y by (simp add: Let_def)
  next
    case False
    have "(x + 2147483648) mod 4294967296 = (x mod 4294967296 + 2147483648) mod 4294967296"
      by (simp add: mod_add_left_eq)
    also have "\<dots> = x mod 4294967296 + 2147483648"
      using False pos_mod_sign [of 4294967296 x] by (intro mod_pos_pos_trivial) linarith+
    finally show ?thesis using False unfolding int32_def y by (simp add: Let_def)
  qed
  finally show ?thesis by simp
qed

text \<open>\<^verbatim>\<open>int(time.time()) & 0xFFFFFFFF\<close>\<close>

definition utc32 :: "time \<Rightarrow> nat" where
  "utc32 now = nat (floor now mod 4294967296)"

lemma utc32_less [simp]: "utc32 now < 4294967296"
  by (simp add: utc32_def nat_less_iff)

lemma int32_bounds: "- 2147483648 \<le> int32 x \<and> int32 x < 2147483648"
  unfolding int32_signed_take_bit
  using signed_take_bit_int_greater_eq_minus_exp [of 31 x] signed_take_bit_int_less_exp [of 31 x]
  by simp

lemma int32_small: "- 2147483648 \<le> x \<Longrightarrow> x < 2147483648 \<Longrightarrow> int32 x = x"
  unfolding int32_signed_take_bit by (rule signed_take_bit_int_eq_self) simp_all

lemma int32_mod: "int32 (x mod 4294967296) = int32 x"
  unfolding int32_signed_take_bit
  by (simp add: signed_take_bit_eq_take_bit_shift take_bit_eq_mod mod_add_left_eq)

text \<open>Clocks that differ by less than 68 years differ by as much on 32 bits.\<close>

lemma int32_diff:
  assumes "\<bar>floor t - floor u\<bar> < 2147483648"
  shows "int32 (int (utc32 t) - int (utc32 u)) = floor t - floor u"
proof -
  have "int32 (int (utc32 t) - int (utc32 u))
      = int32 ((floor t mod 4294967296 - floor u mod 4294967296) mod 4294967296)"
    by (simp add: utc32_def int32_mod)
  also have "\<dots> = int32 (floor t - floor u)"
    by (simp only: mod_diff_eq int32_mod)
  also have "\<dots> = floor t - floor u"
    using assms by (intro int32_small) linarith+
  finally show ?thesis .
qed

subsection \<open>The class plain\<close>

record 'd plain =
  p_method :: bytes
  p_server_info :: "'d server_info option"

definition plain_new :: "bytes \<Rightarrow> 'd plain" where
  "plain_new method = \<lparr>p_method = method, p_server_info = None\<rparr>"

definition plain_init_data :: bytes where
  "plain_init_data = []"

definition plain_get_overhead :: "bool \<Rightarrow> int" where
  "plain_get_overhead direction = 0"

definition plain_set_server_info :: "'d server_info \<Rightarrow> 'd plain \<Rightarrow> 'd plain" where
  "plain_set_server_info i p = p\<lparr>p_server_info := Some i\<rparr>"

text \<open>A TCP operation gives the bytes to pass on; \<open>decode\<close> of a client adds whether to answer
  at once, \<open>decode\<close> of a server whether the bytes have to be decrypted and whether to answer.\<close>

definition plain_client_pre_encrypt :: "bytes \<Rightarrow> bytes" where
  "plain_client_pre_encrypt buf = buf"

definition plain_client_encode :: "bytes \<Rightarrow> bytes" where
  "plain_client_encode buf = buf"

definition plain_client_decode :: "bytes \<Rightarrow> bytes \<times> bool" where
  "plain_client_decode buf = (buf, False)"

definition plain_client_post_decrypt :: "bytes \<Rightarrow> bytes" where
  "plain_client_post_decrypt buf = buf"

definition plain_server_pre_encrypt :: "bytes \<Rightarrow> bytes" where
  "plain_server_pre_encrypt buf = buf"

definition plain_server_encode :: "bytes \<Rightarrow> bytes" where
  "plain_server_encode buf = buf"

definition plain_server_decode :: "bytes \<Rightarrow> bytes \<times> bool \<times> bool" where
  "plain_server_decode buf = (buf, True, False)"

definition plain_server_post_decrypt :: "bytes \<Rightarrow> bytes \<times> bool" where
  "plain_server_post_decrypt buf = (buf, False)"

definition plain_client_udp_pre_encrypt :: "bytes \<Rightarrow> bytes" where
  "plain_client_udp_pre_encrypt buf = buf"

definition plain_client_udp_post_decrypt :: "bytes \<Rightarrow> bytes" where
  "plain_client_udp_post_decrypt buf = buf"

definition plain_server_udp_pre_encrypt :: "bytes \<Rightarrow> bytes option \<Rightarrow> bytes" where
  "plain_server_udp_pre_encrypt buf uid = buf"

definition plain_server_udp_post_decrypt :: "bytes \<Rightarrow> bytes \<times> bytes option" where
  "plain_server_udp_post_decrypt buf = (buf, None)"

definition get_head_size :: "bytes \<Rightarrow> nat \<Rightarrow> nat" where
  "get_head_size buf def_value =
     (if length buf < 2 then def_value
      else
        (let head_type = ordb (buf ! 0) mod 8
         in if head_type = 1 then 7
            else if head_type = 4 then 19
            else if head_type = 3 then 4 + ordb (buf ! 1)
            else def_value))"

lemma get_head_size_bound: "get_head_size buf d \<le> max d 259"
  using ordb_le [of "buf ! 1"] by (auto simp: get_head_size_def Let_def simp del: ordb_le)

text \<open>What a plugin answers to a stranger.\<close>

definition decoy :: bytes where
  "decoy = replicate 2048 CHR ''E''"

lemma decoy_not_Nil [simp]: "decoy \<noteq> []"
  by (simp add: decoy_def)

end
