(* ===== verification/Framing.thy ===== *)
theory Framing
  imports Prelude
begin

text \<open>
  The shape that the plugins' receivers share. Each keeps \<^verbatim>\<open>recv_buf\<close> and runs a
  \<^verbatim>\<open>while\<close> loop that looks at the front of the buffer: it stops when a frame is not
  complete yet, fails on a bad one, and otherwise takes the frame's payload and cuts the
  frame off. One round of the loop is a function into \<open>frame_step\<close>; \<open>drain\<close> is the
  loop. The locale \<open>frame_stream\<close> states what a round must guarantee for the receiver not
  to depend on how the network cuts the stream, and proves that it then does not. The
  senders' loops, which pack a buffer in pieces of bounded length, are \<open>chunk_list\<close> and
  \<open>pack_chunks\<close>.
\<close>

lemma append_longer:
  assumes "a @ b = c @ d" and "\<not> length a < length c"
  shows "\<exists>e. a = c @ e \<and> d = e @ b"
proof -
  have "take (length c) a = c"
    using arg_cong [OF assms(1), of "take (length c)"] assms(2) by simp
  then have "a = c @ drop (length c) a" by (metis append_take_drop_id)
  then show ?thesis using assms(1) by (metis append.assoc same_append_eq)
qed

subsection \<open>Receiving\<close>

datatype ('st, 'p, 'e) frame_step =
    More
  | Bad 'e
  | Frame 'p 'st nat

text \<open>The outcome of the loop: the state and buffer it leaves and the payloads it took.
  A round that takes a frame of no bytes would leave the loop running forever.\<close>

datatype ('st, 'p, 'e) drained =
    Drained 'st bytes "'p list"
  | Broken 'e 'st bytes "'p list"
  | Endless

fun after :: "'p list \<Rightarrow> ('st, 'p, 'e) drained \<Rightarrow> ('st, 'p, 'e) drained" where
  "after ps (Drained st r qs) = Drained st r (ps @ qs)"
| "after ps (Broken e st r qs) = Broken e st r (ps @ qs)"
| "after ps Endless = Endless"

lemma after_Nil [simp]: "after [] d = d"
  by (cases d) simp_all

lemma after_after [simp]: "after ps (after qs d) = after (ps @ qs) d"
  by (cases d) simp_all

function drain :: "('st \<Rightarrow> bytes \<Rightarrow> ('st, 'p, 'e) frame_step) \<Rightarrow> 'st \<Rightarrow> bytes
    \<Rightarrow> ('st, 'p, 'e) drained" where
  "drain step st buf =
     (case step st buf of
        More \<Rightarrow> Drained st buf []
      | Bad e \<Rightarrow> Broken e st buf []
      | Frame p st' n \<Rightarrow>
          if 0 < n \<and> n \<le> length buf then after [p] (drain step st' (drop n buf)) else Endless)"
  by pat_completeness auto
termination
  by (relation "measure (\<lambda>(step, st, buf). length buf)") auto

declare drain.simps [simp del]

fun receive :: "('st \<Rightarrow> bytes \<Rightarrow> ('st, 'p, 'e) frame_step) \<Rightarrow> 'st \<Rightarrow> bytes \<Rightarrow> bytes list
    \<Rightarrow> ('st, 'p, 'e) drained" where
  "receive step st buf [] = Drained st buf []"
| "receive step st buf (c # cs) =
     (case drain step st (buf @ c) of
        Drained st' r ps \<Rightarrow> after ps (receive step st' r cs)
      | Broken e st' r ps \<Rightarrow> Broken e st' r ps
      | Endless \<Rightarrow> Endless)"

locale frame_stream =
  fixes step :: "'st \<Rightarrow> bytes \<Rightarrow> ('st, 'p, 'e) frame_step"
  assumes frame_len: "step st buf = Frame p st' n \<Longrightarrow> 0 < n \<and> n \<le> length buf"
    and frame_stable: "step st buf = Frame p st' n \<Longrightarrow> step st (buf @ more) = Frame p st' n"
    and bad_stable: "step st buf = Bad e \<Longrightarrow> step st (buf @ more) = Bad e"
begin

lemma drain_More: "step st buf = More \<Longrightarrow> drain step st buf = Drained st buf []"
  by (simp add: drain.simps)

lemma drain_Bad: "step st buf = Bad e \<Longrightarrow> drain step st buf = Broken e st buf []"
  by (simp add: drain.simps)

lemma drain_Frame:
  assumes "step st buf = Frame p st' n"
  shows "drain step st buf = after [p] (drain step st' (drop n buf))"
  using assms frame_len [OF assms] by (subst drain.simps) simp

text \<open>The loop always ends.\<close>

lemma drain_ends: "drain step st buf \<noteq> Endless"
proof (induction "length buf" arbitrary: st buf rule: less_induct)
  case less
  show ?case
  proof (cases "step st buf")
    case (Frame p st' n)
    then have "length (drop n buf) < length buf" using frame_len by force
    from less.hyps [OF this, of st'] show ?thesis
      by (cases "drain step st' (drop n buf)") (simp_all add: drain_Frame [OF Frame])
  qed (simp_all add: drain_More drain_Bad)
qed

text \<open>Draining a longer buffer is draining the shorter one and going on with what it left.\<close>

lemma drain_append:
  "drain step st (a @ b) =
    (case drain step st a of
       Drained st' r ps \<Rightarrow> after ps (drain step st' (r @ b))
     | Broken e st' r ps \<Rightarrow> Broken e st' (r @ b) ps
     | Endless \<Rightarrow> Endless)"
proof (induction "length a" arbitrary: st a rule: less_induct)
  case less
  show ?case
  proof (cases "step st a")
    case More
    then show ?thesis by (simp add: drain_More)
  next
    case (Bad e)
    then show ?thesis by (simp add: drain_Bad bad_stable)
  next
    case (Frame p st' n)
    note n = frame_len [OF Frame]
    then have lt: "length (drop n a) < length a" by auto
    have "drain step st (a @ b) = after [p] (drain step st' (drop n a @ b))"
      using drain_Frame [OF frame_stable [OF Frame]] n by simp
    also have "\<dots> = (case drain step st' (drop n a) of
         Drained st'' r ps \<Rightarrow> after (p # ps) (drain step st'' (r @ b))
       | Broken e st'' r ps \<Rightarrow> Broken e st'' (r @ b) (p # ps)
       | Endless \<Rightarrow> Endless)"
      using less.hyps [OF lt, of st'] by (simp split: drained.split)
    finally show ?thesis
      by (simp add: drain_Frame [OF Frame] split: drained.split)
  qed
qed

lemma drain_rest: "drain step st buf = Drained st' r ps \<Longrightarrow> step st' r = More"
proof (induction "length buf" arbitrary: st buf ps rule: less_induct)
  case less
  show ?case
  proof (cases "step st buf")
    case (Frame p st1 n)
    then have "length (drop n buf) < length buf" using frame_len by force
    moreover obtain qs where "drain step st1 (drop n buf) = Drained st' r qs"
      using less.prems drain_Frame [OF Frame] by (cases "drain step st1 (drop n buf)") auto
    ultimately show ?thesis by (rule less.hyps)
  qed (use less.prems in \<open>simp_all add: drain_More drain_Bad\<close>)
qed

text \<open>The chunks of the network do not matter: a receiver fed in pieces takes the payloads, ends
  in the state and fails with the error of one that gets all bytes at once.\<close>

lemma receive_concat:
  assumes "step st buf = More"
  shows "case drain step st (buf @ concat cs) of
      Drained st' r ps \<Rightarrow> receive step st buf cs = Drained st' r ps
    | Broken e st' r ps \<Rightarrow> (\<exists>r'. receive step st buf cs = Broken e st' r' ps)
    | Endless \<Rightarrow> False"
  using assms
proof (induction cs arbitrary: st buf)
  case (Cons c cs)
  note app = drain_append [of st "buf @ c" "concat cs"]
  show ?case
  proof (cases "drain step st (buf @ c)")
    case (Drained st1 r1 ps1)
    note IH = Cons.IH [OF drain_rest [OF Drained]]
    show ?thesis
    proof (cases "drain step st1 (r1 @ concat cs)")
      case (Broken e st2 r2 ps2)
      then obtain r' where "receive step st1 r1 cs = Broken e st2 r' ps2" using IH by auto
      then show ?thesis using Broken Drained app by simp
    qed (use IH Drained app in simp_all)
  next
    case (Broken e st1 r1 ps1)
    then show ?thesis using app by simp
  next
    case Endless
    then show ?thesis using drain_ends by simp
  qed
qed (simp add: drain_More)

lemma receive_drained:
  assumes "drain step st (concat cs) = Drained st' r ps" and "step st [] = More"
  shows "receive step st [] cs = Drained st' r ps"
  using receive_concat [OF assms(2), of cs] assms(1) by simp

end

text \<open>The bytes that a sender made frame by frame, each accepted in the state the last one
  left.\<close>

fun framed :: "('st \<Rightarrow> bytes \<Rightarrow> ('st, 'p, 'e) frame_step) \<Rightarrow> 'st \<Rightarrow> (bytes \<times> 'p) list \<Rightarrow> 'st \<Rightarrow> bool" where
  "framed step st [] st' = (st' = st)"
| "framed step st ((f, p) # fs) st' =
     (\<exists>st1. step st f = Frame p st1 (length f) \<and> framed step st1 fs st')"

context frame_stream
begin

lemma drain_framed:
  assumes "framed step st fs st'" and "step st' [] = More"
  shows "drain step st (concat (map fst fs)) = Drained st' [] (map snd fs)"
  using assms(1)
proof (induction fs arbitrary: st)
  case Nil
  then show ?case using assms(2) by (simp add: drain_More)
next
  case (Cons fp fs)
  obtain f p where fp: "fp = (f, p)" by fastforce
  then obtain st1 where st1: "step st f = Frame p st1 (length f)" "framed step st1 fs st'"
    using Cons.prems by auto
  show ?case
    using drain_Frame [OF frame_stable [OF st1(1)], of "concat (map fst fs)"] Cons.IH [OF st1(2)] fp
    by simp
qed

lemma receive_framed:
  assumes "framed step st fs st'" and "step st' [] = More" and "step st [] = More"
    and "concat cs = concat (map fst fs)"
  shows "receive step st [] cs = Drained st' [] (map snd fs)"
  using receive_drained [OF _ assms(3), of cs] drain_framed [OF assms(1,2)] assms(4) by simp

end

lemma framed_append:
  "framed step st (fs @ gs) st' \<longleftrightarrow> (\<exists>st1. framed step st fs st1 \<and> framed step st1 gs st')"
proof (induction fs arbitrary: st)
  case (Cons fp fs)
  obtain f p where "fp = (f, p)" by fastforce
  then show ?case using Cons.IH by simp blast
qed simp

subsection \<open>Sending\<close>

text \<open>\<^verbatim>\<open>while len(buf) > unit_len: pack(buf[:unit_len]); buf = buf[unit_len:]\<close>, then
  \<^verbatim>\<open>pack(buf)\<close>: the pieces that are packed, for a positive bound.\<close>

function chunk_list :: "nat \<Rightarrow> 'a list \<Rightarrow> 'a list list" where
  "chunk_list unit_len buf =
     (if 0 < unit_len \<and> unit_len < length buf
      then take unit_len buf # chunk_list unit_len (drop unit_len buf)
      else [buf])"
  by pat_completeness auto
termination
  by (relation "measure (\<lambda>(n, buf). length buf)") auto

declare chunk_list.simps [simp del]

lemma chunk_list_concat [simp]: "concat (chunk_list n buf) = buf"
proof (induction n buf rule: chunk_list.induct)
  case (1 n buf)
  then show ?case by (subst chunk_list.simps) simp
qed

lemma chunk_list_length:
  assumes "0 < n"
  shows "\<forall>c \<in> set (chunk_list n buf). length c \<le> n"
  using assms
proof (induction n buf rule: chunk_list.induct)
  case (1 n buf)
  then show ?case by (subst chunk_list.simps) auto
qed

text \<open>Packing the pieces one after the other, with the packer's state threaded through; the first
  error ends the call.\<close>

fun pack_chunks :: "('s \<Rightarrow> bytes \<Rightarrow> bytes res \<times> 's) \<Rightarrow> 's \<Rightarrow> bytes list \<Rightarrow> bytes res \<times> 's" where
  "pack_chunks pack s [] = (Inr [], s)"
| "pack_chunks pack s (c # cs) =
     (case pack s c of
        (Inl e, s1) \<Rightarrow> (Inl e, s1)
      | (Inr a, s1) \<Rightarrow>
          (case pack_chunks pack s1 cs of
             (Inl e, s2) \<Rightarrow> (Inl e, s2)
           | (Inr b, s2) \<Rightarrow> (Inr (a @ b), s2)))"

text \<open>A packer that never fails and whose frames a receiver in a corresponding state accepts
  makes a framed stream.\<close>

lemma pack_chunks_framed:
  assumes step: "\<And>s st c. rel s st \<Longrightarrow> ok c \<Longrightarrow> \<exists>f s' st'. pack s c = (Inr f, s')
      \<and> rel s' st' \<and> framed step st (if f = [] then [] else [(f, val c)]) st'
      \<and> (f = [] \<longrightarrow> val c = [])"
    and "rel s st" and "\<forall>c \<in> set cs. ok c"
  shows "\<exists>fs s' st'. pack_chunks pack s cs = (Inr (concat (map fst fs)), s') \<and> rel s' st'
    \<and> framed step st fs st' \<and> concat (map snd fs) = concat (map val cs)"
  using assms(2,3)
proof (induction cs arbitrary: s st)
  case (Cons c cs)
  obtain f s1 st1 where 1: "pack s c = (Inr f, s1)" "rel s1 st1"
      "framed step st (if f = [] then [] else [(f, val c)]) st1"
      "f = [] \<longrightarrow> val c = []"
    using step [OF Cons.prems(1), of c] Cons.prems(2) by auto
  obtain fs s2 st2 where 2: "pack_chunks pack s1 cs = (Inr (concat (map fst fs)), s2)" "rel s2 st2"
      "framed step st1 fs st2" "concat (map snd fs) = concat (map val cs)"
    using Cons.IH [OF 1(2)] Cons.prems(2) by auto
  let ?gs = "(if f = [] then [] else [(f, val c)]) @ fs"
  have "pack_chunks pack s (c # cs) = (Inr (concat (map fst ?gs)), s2)"
    using 1(1) 2(1) by simp
  moreover have "framed step st ?gs st2" unfolding framed_append using 1(3) 2(3) by blast
  moreover have "concat (map snd ?gs) = concat (map val (c # cs))" using 1(4) 2(4) by simp
  ultimately show ?case using 2(2) by blast
next
  case Nil
  then show ?case by (intro exI [of _ "[]"] exI [of _ s] exI [of _ st]) simp
qed

text \<open>The same for a packer that makes a frame of every piece, and payloads from which \<open>pay\<close> reads
  the piece.\<close>

lemma pack_chunks_payloads:
  assumes step: "\<And>s st c. rel s st \<Longrightarrow> ok c \<Longrightarrow> \<exists>f s' st' v. pack s c = (Inr f, s')
      \<and> rel s' st' \<and> step st f = Frame v st' (length f) \<and> pay v = c"
    and "rel s st" and "\<forall>c \<in> set cs. ok c"
  shows "\<exists>fs s' st'. pack_chunks pack s cs = (Inr (concat (map fst fs)), s') \<and> rel s' st'
    \<and> framed step st fs st' \<and> concat (map pay (map snd fs)) = concat cs"
  using assms(2,3)
proof (induction cs arbitrary: s st)
  case (Cons c cs)
  obtain f s1 st1 v where 1: "pack s c = (Inr f, s1)" "rel s1 st1" "step st f = Frame v st1 (length f)" "pay v = c"
    using step [OF Cons.prems(1), of c] Cons.prems(2) by auto
  obtain fs s2 st2 where 2: "pack_chunks pack s1 cs = (Inr (concat (map fst fs)), s2)" "rel s2 st2"
      "framed step st1 fs st2" "concat (map pay (map snd fs)) = concat cs"
    using Cons.IH [OF 1(2)] Cons.prems(2) unfolding list.set ball_simps by blast
  show ?case
    by (rule exI [of _ "(f, v) # fs"], rule exI [of _ s2], rule exI [of _ st2])
       (use 1 2 in \<open>simp add: comp_def\<close>)
next
  case Nil
  then show ?case by (intro exI [of _ "[]"] exI [of _ s] exI [of _ st]) simp
qed

text \<open>Writing buffer after buffer.\<close>

fun encode_all :: "(bytes \<Rightarrow> tape \<Rightarrow> 'p \<Rightarrow> bytes res \<times> tape \<times> 'p) \<Rightarrow> bytes list \<Rightarrow> tape \<Rightarrow> 'p
    \<Rightarrow> bytes list res \<times> tape \<times> 'p" where
  "encode_all f [] t p = (Inr [], t, p)"
| "encode_all f (b # bs) t p =
     (case f b t p of
        (Inl e, t1, p1) \<Rightarrow> (Inl e, t1, p1)
      | (Inr w, t1, p1) \<Rightarrow>
          (case encode_all f bs t1 p1 of
             (Inl e, t2, p2) \<Rightarrow> (Inl e, t2, p2)
           | (Inr ws, t2, p2) \<Rightarrow> (Inr (w # ws), t2, p2)))"

text \<open>A writer whose calls are framed, each call leaving it ready for the next.\<close>

lemma encode_all_framed:
  fixes inv :: "'p \<Rightarrow> 'st \<Rightarrow> bool" and step :: "'st \<Rightarrow> bytes \<Rightarrow> ('st, bytes \<times> bool, 'e) frame_step"
  assumes "\<And>b t p st. inv p st \<Longrightarrow> \<exists>fs t' p' st'. f b t p = (Inr (concat (map fst fs)), t', p') \<and> inv p' st'
      \<and> framed step st fs st' \<and> concat (map fst (map snd fs)) = b"
    and "inv p st"
  shows "\<exists>ws t' p' st' fs. encode_all f bs t p = (Inr ws, t', p') \<and> concat ws = concat (map fst fs) \<and> inv p' st'
    \<and> framed step st fs st' \<and> concat (map fst (map snd fs)) = concat bs"
  using assms(2)
proof (induction bs arbitrary: t p st)
  case Nil
  then show ?case by (intro exI [of _ "[]"] exI [of _ t] exI [of _ p] exI [of _ st]) simp
next
  case (Cons b bs)
  obtain fs t1 p1 st1 where 1: "f b t p = (Inr (concat (map fst fs)), t1, p1)" "inv p1 st1" "framed step st fs st1"
      "concat (map fst (map snd fs)) = b" using assms(1) [OF Cons.prems] by blast
  obtain ws t2 p2 st2 gs where 2: "encode_all f bs t1 p1 = (Inr ws, t2, p2)" "concat ws = concat (map fst gs)"
      "inv p2 st2" "framed step st1 gs st2" "concat (map fst (map snd gs)) = concat bs"
    using Cons.IH [OF 1(2)] by blast
  have "framed step st (fs @ gs) st2" unfolding framed_append using 1(3) 2(4) by blast
  then show ?case
    using 1 2 by (intro exI [of _ "concat (map fst fs) # ws"] exI [of _ t2] exI [of _ p2] exI [of _ st2]
        exI [of _ "fs @ gs"]) (simp add: comp_def)
qed

subsection \<open>A receiver as an object\<close>

text \<open>Calling a receiver for chunk after chunk; the first exception ends the run.\<close>

fun feed_all :: "(bytes \<Rightarrow> 's \<Rightarrow> 'r res \<times> 's) \<Rightarrow> bytes list \<Rightarrow> 's \<Rightarrow> 'r list res \<times> 's" where
  "feed_all f [] s = (Inr [], s)"
| "feed_all f (c # cs) s =
     (case f c s of
        (Inl e, s1) \<Rightarrow> (Inl e, s1)
      | (Inr r, s1) \<Rightarrow>
          (case feed_all f cs s1 of
             (Inl e, s2) \<Rightarrow> (Inl e, s2)
           | (Inr rs, s2) \<Rightarrow> (Inr (r # rs), s2)))"

text \<open>An object whose call takes what the loop takes delivers over a run what the loop takes from
  the whole stream.\<close>

lemma feed_all_payloads:
  assumes call: "\<And>s st buf c st' r ps. rel s st buf \<Longrightarrow> drain step st (buf @ c) = Drained st' r ps \<Longrightarrow>
      \<exists>out s'. f c s = (Inr out, s') \<and> val out = concat (map pay ps) \<and> rel s' st' r"
    and "receive step st buf cs = Drained st' r ps" and "rel s st buf"
  shows "\<exists>outs s'. feed_all f cs s = (Inr outs, s') \<and> concat (map val outs) = concat (map pay ps) \<and> rel s' st' r"
  using assms(2,3)
proof (induction cs arbitrary: s st buf ps)
  case (Cons c cs)
  obtain st1 r1 ps1 where d: "drain step st (buf @ c) = Drained st1 r1 ps1"
    using Cons.prems(1) by (cases "drain step st (buf @ c)") auto
  obtain out s1 where o: "f c s = (Inr out, s1)" "val out = concat (map pay ps1)" "rel s1 st1 r1"
    using call [OF Cons.prems(2) d] by auto
  obtain ps2 where r: "receive step st1 r1 cs = Drained st' r ps2" "ps = ps1 @ ps2"
    using Cons.prems(1) d by (cases "receive step st1 r1 cs") auto
  show ?case using Cons.IH [OF r(1) o(3)] o r(2) by auto
qed auto

lemma feed_all_receive:
  assumes call: "\<And>s st buf c st' r ps. rel s st buf \<Longrightarrow> drain step st (buf @ c) = Drained st' r ps \<Longrightarrow>
      \<exists>out s'. f c s = (Inr out, s') \<and> val out = concat ps \<and> rel s' st' r"
    and "receive step st buf cs = Drained st' r ps" and "rel s st buf"
  shows "\<exists>outs s'. feed_all f cs s = (Inr outs, s') \<and> concat (map val outs) = concat ps \<and> rel s' st' r"
  using feed_all_payloads [where pay = id and val = val and rel = rel and f = f, OF _ assms(2,3)] call
  by simp

context frame_stream
begin

lemma drain_split:
  assumes "drain step st (a @ concat cs) = Drained st' r ps"
  shows "\<exists>st1 r1 ps1 ps2. drain step st a = Drained st1 r1 ps1
    \<and> receive step st1 r1 cs = Drained st' r ps2 \<and> ps = ps1 @ ps2"
proof (cases "drain step st a")
  case (Drained st1 r1 ps1)
  then obtain ps2 where "drain step st1 (r1 @ concat cs) = Drained st' r ps2" "ps = ps1 @ ps2"
    using assms drain_append [of st a "concat cs"] by (cases "drain step st1 (r1 @ concat cs)") auto
  then show ?thesis using Drained receive_concat [OF drain_rest [OF Drained], of cs] by auto
qed (use assms drain_append [of st a "concat cs"] in auto)

text \<open>An object that first waits for a header \<open>h\<close>, which stands for the bytes \<open>d\<close>, and then
  goes on with the loop.\<close>

lemma feed_all_header:
  assumes wait: "\<And>s b c x. waiting s b \<Longrightarrow> (b @ c) @ x = h \<Longrightarrow> x \<noteq> [] \<Longrightarrow>
      \<exists>out s'. f c s = (Inr out, s') \<and> val out = [] \<and> waiting s' (b @ c)"
    and arrive: "\<And>s b c y st' r ps. waiting s b \<Longrightarrow> b @ c = h @ y \<Longrightarrow> drain step st y = Drained st' r ps \<Longrightarrow>
      \<exists>out s'. f c s = (Inr out, s') \<and> val out = d @ concat (map pay ps) \<and> rel s' st' r"
    and call: "\<And>s st buf c st' r ps. rel s st buf \<Longrightarrow> drain step st (buf @ c) = Drained st' r ps \<Longrightarrow>
      \<exists>out s'. f c s = (Inr out, s') \<and> val out = concat (map pay ps) \<and> rel s' st' r"
    and stream: "drain step st y = Drained st' r ps" "b @ concat cs = h @ y" "length b < length h"
      "waiting s b"
  shows "\<exists>outs s'. feed_all f cs s = (Inr outs, s') \<and> concat (map val outs) = d @ concat (map pay ps) \<and> rel s' st' r"
  using stream(2-4)
proof (induction cs arbitrary: s b)
  case Nil
  then show ?case by (metis append_Nil2 concat.simps(1) le_add1 length_append not_le)
next
  case (Cons c cs)
  have eq: "(b @ c) @ concat cs = h @ y" using Cons.prems(1) by simp
  show ?case
  proof (cases "length (b @ c) < length h")
    case True
    then obtain x where x: "h = (b @ c) @ x" "concat cs = x @ y"
      using append_longer [OF eq [symmetric], OF leD] less_imp_le by metis
    then have "x \<noteq> []" using True by auto
    then obtain out s1 where o: "f c s = (Inr out, s1)" "val out = []" "waiting s1 (b @ c)"
      using wait [OF Cons.prems(3)] x(1) by metis
    from Cons.IH [OF eq True o(3)] show ?thesis using o by auto
  next
    case False
    then obtain y' where y': "b @ c = h @ y'" "y = y' @ concat cs"
      using append_longer [OF eq False] by blast
    obtain st1 r1 ps1 ps2 where d: "drain step st y' = Drained st1 r1 ps1"
        "receive step st1 r1 cs = Drained st' r ps2" "ps = ps1 @ ps2"
      using drain_split stream(1) y'(2) by metis
    obtain out s1 where o: "f c s = (Inr out, s1)" "val out = d @ concat (map pay ps1)" "rel s1 st1 r1"
      using arrive [OF Cons.prems(3) y'(1) d(1)] by blast
    have "\<exists>outs s'. feed_all f cs s1 = (Inr outs, s')
        \<and> concat (map val outs) = concat (map pay ps2) \<and> rel s' st' r"
      by (rule feed_all_payloads [where rel = rel and pay = pay, OF call d(2) o(3)])
    then show ?thesis using o d(3) by auto
  qed
qed

end

end
