(* ===== verification/Verify_Deflate.thy ===== *)
theory Verify_Deflate
  imports Plain Framing
begin

text \<open>
  \<^verbatim>\<open>obfsplugin/verify.py\<close>: the protocol \<^verbatim>\<open>verify_deflate\<close>, which sends every piece of
  at most 32700 bytes as a zlib stream without its first two bytes, behind a 16-bit length.
  \<^verbatim>\<open>zlib\<close> is C code and a parameter (\<open>zlib_lib\<close>); \<open>zlib_ok\<close> is what the code relies on: the
  stream of a piece starts with the two bytes the receiver puts back, fits the length field
  that the receiver accepts, and decompresses to the piece.
\<close>

record zlib_lib =
  compress :: "bytes \<Rightarrow> bytes"
  decompress :: "bytes \<Rightarrow> bytes res"

definition zlib_ok :: "zlib_lib \<Rightarrow> bool" where
  "zlib_ok z \<longleftrightarrow> (\<forall>b. length b \<le> 32700 \<longrightarrow>
     take 2 (compress z b) = [CHR 0x78, CHR 0x9C]
     \<and> 6 \<le> length (compress z b) \<and> length (compress z b) < 32768
     \<and> decompress z (compress z b) = Inr b)"

subsection \<open>The plugin\<close>

record 'd verify_deflate = "'d plain" +
  vd_recv_buf :: bytes
  vd_unit_len :: nat
  vd_decrypt_packet_num :: nat
  vd_raw_trans :: bool

definition verify_deflate_new :: "bytes \<Rightarrow> 'd verify_deflate" where
  "verify_deflate_new method =
     \<lparr>p_method = method, p_server_info = None, vd_recv_buf = [], vd_unit_len = 32700,
      vd_decrypt_packet_num = 0, vd_raw_trans = False\<rparr>"

definition vd_pack_data :: "zlib_lib \<Rightarrow> bytes \<Rightarrow> bytes res" where
  "vd_pack_data z buf =
     (if length buf = 0 then Inr []
      else (let data = compress z buf
            in rbind (pack_be16 (length data)) (\<lambda>h. Inr (h @ drop 2 data))))"

text \<open>\<^verbatim>\<open>client_pre_encrypt\<close> and \<^verbatim>\<open>server_pre_encrypt\<close> are the same code.\<close>

definition vd_pre_encrypt :: "zlib_lib \<Rightarrow> bytes \<Rightarrow> 'd verify_deflate \<Rightarrow> bytes res" where
  "vd_pre_encrypt z buf v =
     fst (pack_chunks (\<lambda>s c. (vd_pack_data z c, s)) () (chunk_list (vd_unit_len v) buf))"

datatype deflate_error = BadLength | ZlibError exc

text \<open>One round of the loop of \<^verbatim>\<open>client_post_decrypt\<close> and \<^verbatim>\<open>server_post_decrypt\<close>.\<close>

definition vd_step :: "zlib_lib \<Rightarrow> unit \<Rightarrow> bytes \<Rightarrow> (unit, bytes, deflate_error) frame_step" where
  "vd_step z st recv_buf =
     (if length recv_buf > 2 then
        (let len = be_val (take 2 recv_buf)
         in if len \<ge> 32768 \<or> len < 6 then Bad BadLength
            else if len > length recv_buf then More
            else
              (case decompress z ([CHR 0x78, CHR 0x9C] @ py_sub recv_buf 2 len) of
                 Inl e \<Rightarrow> Bad (ZlibError e)
               | Inr p \<Rightarrow> Frame p () len))
      else More)"

definition vd_accept :: "bytes list \<Rightarrow> bytes \<Rightarrow> 'd verify_deflate \<Rightarrow> bytes \<times> 'd verify_deflate" where
  "vd_accept ps r v =
     (let out_buf = concat ps
      in (out_buf, v\<lparr>vd_recv_buf := r,
           vd_decrypt_packet_num := (if out_buf \<noteq> [] then vd_decrypt_packet_num v + 1
             else vd_decrypt_packet_num v)\<rparr>))"

definition vd_client_post_decrypt :: "zlib_lib \<Rightarrow> bytes \<Rightarrow> 'd verify_deflate
    \<Rightarrow> bytes res \<times> 'd verify_deflate" where
  "vd_client_post_decrypt z buf v =
     (if vd_raw_trans v then (Inr buf, v)
      else
        (case drain (vd_step z) () (vd_recv_buf v @ buf) of
           Drained _ r ps \<Rightarrow> (let (out, v') = vd_accept ps r v in (Inr out, v'))
         | Broken BadLength _ r ps \<Rightarrow>
             (Inl (Exc ''client_post_decrypt data error''),
              v\<lparr>vd_raw_trans := True, vd_recv_buf := []\<rparr>)
         | Broken (ZlibError e) _ r ps \<Rightarrow> (Inl e, v\<lparr>vd_recv_buf := r\<rparr>)
         | Endless \<Rightarrow> (Inl NoReturn, v)))"

definition vd_server_post_decrypt :: "zlib_lib \<Rightarrow> bytes \<Rightarrow> 'd verify_deflate
    \<Rightarrow> (bytes \<times> bool) res \<times> 'd verify_deflate" where
  "vd_server_post_decrypt z buf v =
     (if vd_raw_trans v then (Inr (buf, False), v)
      else
        (case drain (vd_step z) () (vd_recv_buf v @ buf) of
           Drained _ r ps \<Rightarrow> (let (out, v') = vd_accept ps r v in (Inr (out, False), v'))
         | Broken BadLength _ r ps \<Rightarrow>
             (if vd_decrypt_packet_num v = 0 then Inr (decoy, False)
              else Inl (Exc ''server_post_decrype data error''),
              v\<lparr>vd_raw_trans := True, vd_recv_buf := []\<rparr>)
         | Broken (ZlibError e) _ r ps \<Rightarrow> (Inl e, v\<lparr>vd_recv_buf := r\<rparr>)
         | Endless \<Rightarrow> (Inl NoReturn, v)))"

subsection \<open>The receiver does not depend on the cuts\<close>

interpretation vd: frame_stream "vd_step z" for z
proof
  fix st st' :: unit and buf more p n and e
  show "vd_step z st buf = Frame p st' n \<Longrightarrow> 0 < n \<and> n \<le> length buf"
    by (auto simp: vd_step_def Let_def split: if_splits sum.splits)
  show "vd_step z st buf = Frame p st' n \<Longrightarrow> vd_step z st (buf @ more) = Frame p st' n"
    by (auto simp: vd_step_def Let_def py_sub_append split: if_splits sum.splits)
  show "vd_step z st buf = Bad e \<Longrightarrow> vd_step z st (buf @ more) = Bad e"
    by (auto simp: vd_step_def Let_def py_sub_append split: if_splits sum.splits)
qed

lemma vd_step_Nil [simp]: "vd_step z st [] = More"
  by (simp add: vd_step_def)

lemma vd_pack_framed:
  assumes "zlib_ok z" and "length c \<le> 32700"
  shows "\<exists>f. vd_pack_data z c = Inr f \<and> (f = [] \<longrightarrow> c = [])
     \<and> framed (vd_step z) () (if f = [] then [] else [(f, c)]) ()"
proof (cases "c = []")
  case False
  let ?d = "compress z c"
  have d: "take 2 ?d = [CHR 0x78, CHR 0x9C]" "6 \<le> length ?d" "length ?d < 32768"
      "decompress z ?d = Inr c"
    using assms by (simp_all add: zlib_ok_def)
  have split: "[CHR 0x78, CHR 0x9C] @ drop 2 ?d = ?d"
    using append_take_drop_id [of 2 ?d] d(1) by simp
  have sub: "py_sub (be16 (length ?d) @ drop 2 ?d) 2 (length ?d) = drop 2 ?d"
    using d(2) by (intro py_sub_exact_end) simp_all
  have "vd_step z () (be16 (length ?d) @ drop 2 ?d)
      = Frame c () (length (be16 (length ?d) @ drop 2 ?d))"
    using d split le_add_diff_inverse [of 2 "length ?d"]
    by (simp add: vd_step_def sub Let_def del: le_add_diff_inverse)
  then have "framed (vd_step z) () [(be16 (length ?d) @ drop 2 ?d, c)] ()" by simp
  moreover have "vd_pack_data z c = Inr (be16 (length ?d) @ drop 2 ?d)"
    using False d by (simp add: vd_pack_data_def pack_be16_def Let_def)
  moreover have "be16 (length ?d) @ drop 2 ?d \<noteq> []" by (simp add: be16_def)
  ultimately show ?thesis
    by (intro exI [of _ "be16 (length ?d) @ drop 2 ?d"]) simp
qed (simp add: vd_pack_data_def)

lemma vd_pre_encrypt_framed:
  assumes "zlib_ok z" and "vd_unit_len v = 32700"
  shows "\<exists>fs. vd_pre_encrypt z buf v = Inr (concat (map fst fs)) \<and> framed (vd_step z) () fs ()
     \<and> concat (map snd fs) = buf"
proof -
  let ?pack = "\<lambda>s c. (vd_pack_data z c, s)"
  have "\<exists>fs s' st'. pack_chunks ?pack () (chunk_list 32700 buf) = (Inr (concat (map fst fs)), s')
      \<and> True \<and> framed (vd_step z) () fs st' \<and> concat (map snd fs) = concat (map id (chunk_list 32700 buf))"
  proof (rule pack_chunks_framed [where rel = "\<lambda>s st. True" and ok = "\<lambda>c. length c \<le> 32700"])
    show "\<exists>f s' st'. ?pack s c = (Inr f, s') \<and> True
        \<and> framed (vd_step z) st (if f = [] then [] else [(f, id c)]) st' \<and> (f = [] \<longrightarrow> id c = [])"
      if "length c \<le> 32700" for s c and st :: unit
    proof -
      note len = that
      obtain f where "vd_pack_data z c = Inr f" "f = [] \<longrightarrow> c = []"
          "framed (vd_step z) () (if f = [] then [] else [(f, c)]) ()"
        using vd_pack_framed [OF assms(1) len] by blast
      then show ?thesis by (intro exI [of _ f] exI [of _ s] exI [of _ "()"]) (simp split: if_splits)
    qed
    show "\<forall>c \<in> set (chunk_list 32700 buf). length c \<le> 32700" by (rule chunk_list_length) simp
  qed simp
  then obtain fs s' where "pack_chunks ?pack () (chunk_list 32700 buf) = (Inr (concat (map fst fs)), s')"
    and "framed (vd_step z) () fs ()" and "concat (map snd fs) = buf"
    by (auto simp: map_idI)
  then show ?thesis by (intro exI [of _ fs]) (simp add: vd_pre_encrypt_def assms(2))
qed

subsection \<open>A whole connection\<close>

definition vd_running :: "'d verify_deflate \<Rightarrow> bytes \<Rightarrow> bool" where
  "vd_running v r \<longleftrightarrow> \<not> vd_raw_trans v \<and> vd_recv_buf v = r"

lemma vd_server_feed:
  assumes "receive (vd_step z) () r cs = Drained () r' ps" and "vd_running v r"
  shows "\<exists>outs v'. feed_all (vd_server_post_decrypt z) cs v = (Inr outs, v')
     \<and> concat (map fst outs) = concat ps \<and> vd_running v' r'"
  by (rule feed_all_receive [where rel = "\<lambda>v st r. vd_running v r" and step = "vd_step z",
        OF _ assms])
     (auto simp: vd_server_post_decrypt_def vd_running_def vd_accept_def Let_def)

lemma vd_client_feed:
  assumes "receive (vd_step z) () r cs = Drained () r' ps" and "vd_running v r"
  shows "\<exists>outs v'. feed_all (vd_client_post_decrypt z) cs v = (Inr outs, v')
     \<and> concat outs = concat ps \<and> vd_running v' r'"
  using feed_all_receive [where rel = "\<lambda>v st r. vd_running v r" and step = "vd_step z"
      and f = "vd_client_post_decrypt z" and val = id, OF _ assms]
  by (auto simp: vd_client_post_decrypt_def vd_running_def vd_accept_def Let_def)

lemma vd_new_unit: "vd_unit_len (verify_deflate_new m) = 32700"
  by (simp add: verify_deflate_new_def)

text \<open>C8. Whatever pieces the network makes of the stream that one side of verify_deflate sends
  for a list of writes, the other side (server and client alike) accepts every piece without an
  exception and delivers exactly the bytes written, and nothing is left in its buffer.\<close>

theorem verify_deflate_roundtrip:
  assumes "zlib_ok z"
    and "list_all2 (\<lambda>buf w. vd_pre_encrypt z buf (verify_deflate_new m :: 'd verify_deflate) = Inr w) bufs ws"
    and "concat cs = concat ws"
  shows "(\<exists>outs v. feed_all (vd_server_post_decrypt z) cs (verify_deflate_new m :: 'd verify_deflate) = (Inr outs, v)
            \<and> concat (map fst outs) = concat bufs \<and> vd_recv_buf v = [])
       \<and> (\<exists>outs v. feed_all (vd_client_post_decrypt z) cs (verify_deflate_new m :: 'd verify_deflate) = (Inr outs, v)
            \<and> concat outs = concat bufs \<and> vd_recv_buf v = [])"
proof -
  have "\<exists>fs. concat ws = concat (map fst fs) \<and> framed (vd_step z) () fs ()
      \<and> concat (map snd fs) = concat bufs"
    using assms(2)
  proof (induction bufs ws rule: list_all2_induct)
    case (Cons b bs w ws)
    then obtain fs where fs: "concat ws = concat (map fst fs)" "framed (vd_step z) () fs ()"
        "concat (map snd fs) = concat bs" by auto
    obtain gs where gs': "vd_pre_encrypt z b (verify_deflate_new m :: 'd verify_deflate) = Inr (concat (map fst gs))"
        and gs: "framed (vd_step z) () gs ()" "concat (map snd gs) = b"
      using vd_pre_encrypt_framed [OF assms(1) vd_new_unit [where m = m and 'a = 'd], where buf = b] by blast
    have w: "w = concat (map fst gs)" using gs' Cons.hyps(1) by simp
    have "framed (vd_step z) () (gs @ fs) ()" unfolding framed_append using gs fs by blast
    then show ?case using gs fs w by (intro exI [of _ "gs @ fs"]) simp
  next
    case Nil
    show ?case by (intro exI [of _ "[]"]) simp
  qed
  then obtain fs where fs: "concat ws = concat (map fst fs)" "framed (vd_step z) () fs ()"
      "concat (map snd fs) = concat bufs" by auto
  have r: "receive (vd_step z) () [] cs = Drained () [] (map snd fs)"
    using vd.receive_framed [OF fs(2)] fs(1) assms(3) by simp
  have "vd_running (verify_deflate_new m :: 'd verify_deflate) []" by (simp add: vd_running_def verify_deflate_new_def)
  from vd_server_feed [OF r this] vd_client_feed [OF r this]
  show ?thesis using fs(3) by (auto simp: vd_running_def)
qed

text \<open>An example library: a piece goes out as it is, between the two bytes and four more.\<close>

definition plain_zlib :: zlib_lib where
  "plain_zlib =
     \<lparr>compress = (\<lambda>b. [CHR 0x78, CHR 0x9C] @ b @ ''adlr''),
      decompress = (\<lambda>s. if length s < 6 then Inl (Exc ''zlib.error'')
        else Inr (take (length s - 6) (drop 2 s)))\<rparr>"

lemma plain_zlib_ok: "zlib_ok plain_zlib"
  by (auto simp: zlib_ok_def plain_zlib_def)

theorem verify_deflate_roundtrip_witness:
  "(\<exists>outs v. feed_all (vd_server_post_decrypt plain_zlib)
        [[chrb 0, chrb 8, CHR ''h''], [], ''iadlr'' @ [chrb 0], chrb 7 # ''!adlr'']
        (verify_deflate_new ''verify_deflate'' :: nat verify_deflate) = (Inr outs, v)
      \<and> concat (map fst outs) = ''hi!'' \<and> vd_recv_buf v = [])
   \<and> (\<exists>outs v. feed_all (vd_client_post_decrypt plain_zlib)
        [[chrb 0, chrb 8, CHR ''h''], [], ''iadlr'' @ [chrb 0], chrb 7 # ''!adlr'']
        (verify_deflate_new ''verify_deflate'' :: nat verify_deflate) = (Inr outs, v)
      \<and> concat outs = ''hi!'' \<and> vd_recv_buf v = [])"
  using verify_deflate_roundtrip [OF plain_zlib_ok, of "''verify_deflate''" "[''hi'', '''', ''!'']"
      "[[chrb 0, chrb 8] @ ''hiadlr'', [], [chrb 0, chrb 7] @ ''!adlr'']"
      "[[chrb 0, chrb 8, CHR ''h''], [], ''iadlr'' @ [chrb 0], chrb 7 # ''!adlr'']",
      where 'd = nat]
  by (simp add: vd_pre_encrypt_def verify_deflate_new_def chunk_list.simps vd_pack_data_def
      plain_zlib_def pack_be16_def be16_def)

text \<open>What the server does with a length field outside 6..32767: as long as no data was
  delivered on the connection it answers with 2048 bytes 'E' and passes everything through
  from then on, and once data was delivered it raises; a client always raises.\<close>

theorem verify_deflate_bad_length:
  assumes "\<not> vd_raw_trans v" and "length (vd_recv_buf v @ buf) > 2"
    and "be_val (take 2 (vd_recv_buf v @ buf)) < 6 \<or> be_val (take 2 (vd_recv_buf v @ buf)) \<ge> 32768"
  shows "fst (vd_server_post_decrypt z buf v) =
           (if vd_decrypt_packet_num v = 0 then Inr (decoy, False)
            else Inl (Exc ''server_post_decrype data error''))
    \<and> vd_server_post_decrypt z later (snd (vd_server_post_decrypt z buf v)) =
           (Inr (later, False), v\<lparr>vd_raw_trans := True, vd_recv_buf := []\<rparr>)
    \<and> fst (vd_client_post_decrypt z buf v) = Inl (Exc ''client_post_decrypt data error'')"
proof -
  have "vd_step z () (vd_recv_buf v @ buf) = Bad BadLength"
    using assms(2,3) by (auto simp: vd_step_def Let_def)
  then have "drain (vd_step z) () (vd_recv_buf v @ buf) = Broken BadLength () (vd_recv_buf v @ buf) []"
    by (rule vd.drain_Bad)
  then show ?thesis
    using assms(1) by (simp add: vd_server_post_decrypt_def vd_client_post_decrypt_def)
qed

theorem verify_deflate_bad_length_witness:
  "fst (vd_server_post_decrypt plain_zlib (chrb 0 # ''x'') ((verify_deflate_new [] :: nat verify_deflate)\<lparr>vd_recv_buf := [chrb 0]\<rparr>))
     = Inr (decoy, False)"
  using verify_deflate_bad_length [of "(verify_deflate_new [] :: nat verify_deflate)\<lparr>vd_recv_buf := [chrb 0]\<rparr>"
      "chrb 0 # ''x''" plain_zlib "[]"]
  by (simp add: verify_deflate_new_def be_val_def)

end
