(* ===== verification/Http_Simple.thy ===== *)
theory Http_Simple
  imports Plain Framing Checksums
begin

text \<open>
  \<^verbatim>\<open>obfsplugin/http_simple.py\<close>: the plugins \<^verbatim>\<open>http_simple\<close> and \<^verbatim>\<open>http_post\<close>, which
  dress the start of a connection as an HTTP request whose path holds the first bytes in
  hexadecimal, and \<^verbatim>\<open>random_head\<close>, which starts with random bytes that carry a CRC.
  The two HTTP classes differ in \<open>hs_post\<close> only. \<^verbatim>\<open>recv_buffer\<close> is \<^verbatim>\<open>None\<close> after the
  server gave up reading a header.
\<close>

subsection \<open>The HTTP plugins\<close>

definition crlf :: bytes where
  "crlf = [CHR 0x0D, CHR 0x0A]"

definition user_agents :: "bytes list" where
  "user_agents =
    [''Mozilla/5.0 (Windows NT 6.3; WOW64; rv:40.0) Gecko/20100101 Firefox/40.0'',
     ''Mozilla/5.0 (Windows NT 6.3; WOW64; rv:40.0) Gecko/20100101 Firefox/44.0'',
     ''Mozilla/5.0 (Windows NT 6.1) AppleWebKit/537.36 (KHTML, like Gecko) Chrome/41.0.2228.0 Safari/537.36'',
     ''Mozilla/5.0 (X11; Linux x86_64) AppleWebKit/535.11 (KHTML, like Gecko) Ubuntu/11.10 Chromium/27.0.1453.93 Chrome/27.0.1453.93 Safari/537.36'',
     ''Mozilla/5.0 (X11; Ubuntu; Linux x86_64; rv:35.0) Gecko/20100101 Firefox/35.0'',
     ''Mozilla/5.0 (compatible; WOW64; MSIE 10.0; Windows NT 6.2)'',
     ''Mozilla/5.0 (Windows; U; Windows NT 6.1; en-US) AppleWebKit/533.20.25 (KHTML, like Gecko) Version/5.0.4 Safari/533.20.27'',
     ''Mozilla/4.0 (compatible; MSIE 7.0; Windows NT 6.3; Trident/7.0; .NET4.0E; .NET4.0C)'',
     ''Mozilla/5.0 (Windows NT 6.3; Trident/7.0; rv:11.0) like Gecko'',
     ''Mozilla/5.0 (Linux; Android 4.4; Nexus 5 Build/BuildID) AppleWebKit/537.36 (KHTML, like Gecko) Version/4.0 Chrome/30.0.0.0 Mobile Safari/537.36'',
     ''Mozilla/5.0 (iPad; CPU OS 5_0 like Mac OS X) AppleWebKit/534.46 (KHTML, like Gecko) Version/5.1 Mobile/9A334 Safari/7534.48.3'',
     ''Mozilla/5.0 (iPhone; CPU iPhone OS 5_0 like Mac OS X) AppleWebKit/534.46 (KHTML, like Gecko) Version/5.1 Mobile/9A334 Safari/7534.48.3'']"

record 'd http_simple = "'d plain" +
  hs_post :: bool
  hs_has_sent_header :: bool
  hs_has_recv_header :: bool
  hs_recv_buffer :: "bytes option"

definition http_simple_new :: "bool \<Rightarrow> bytes \<Rightarrow> 'd http_simple" where
  "http_simple_new post method =
     \<lparr>p_method = method, p_server_info = None, hs_post = post, hs_has_sent_header = False,
      hs_has_recv_header = False, hs_recv_buffer = Some []\<rparr>"

fun percent :: "bytes \<Rightarrow> bytes" where
  "percent (a # b # hexstr) = CHR 0x25 # a # b # percent hexstr"
| "percent [a] = [CHR 0x25, a]"
| "percent [] = []"

definition encode_head :: "bytes \<Rightarrow> bytes" where
  "encode_head buf = percent (hexlify buf)"

definition choice :: "'a list \<Rightarrow> tape \<Rightarrow> 'a \<times> tape" where
  "choice xs t = (let (i, t') = randint 0 (length xs - 1) t in (xs ! i, t'))"

text \<open>The first lines of \<^verbatim>\<open>client_encode\<close>, the same in both classes: how many bytes go into
  the path, the port, and the text before and after the first \<^verbatim>\<open>#\<close> of the parameter.\<close>

definition http_headlen :: "bytes \<Rightarrow> 'd server_info \<Rightarrow> tape \<Rightarrow> nat \<times> tape" where
  "http_headlen buf i t =
     (let head_size = length (si_iv i) + si_head_len i
      in if length buf > head_size + 64
         then (let (r, t') = randint 0 64 t in (head_size + r, t'))
         else (length buf, t))"

definition http_port :: "'d server_info \<Rightarrow> bytes" where
  "http_port i = (if si_port i \<noteq> 80 then '':'' @ dec (si_port i) else [])"

definition http_hosts :: "'d server_info \<Rightarrow> bytes \<times> bytes option" where
  "http_hosts i =
     (let hosts = (if si_obfs_param i \<noteq> [] then si_obfs_param i else si_host i)
      in case py_find ''#'' hosts of
           None \<Rightarrow> (hosts, None)
         | Some pos \<Rightarrow> (take pos hosts, Some (drop (pos + 1) hosts)))"

definition boundary :: "tape \<Rightarrow> bytes \<times> tape" where
  "boundary t =
     fold (\<lambda>i (s, t).
        let (c, t') = choice ''ABCDEFGHIJKLMNOPQRSTUVWXYZabcdefghijklmnopqrstuvwxyz0123456789'' t
        in (s @ [c], t')) [0..<32] ([], t)"

definition accept_lines :: bytes where
  "accept_lines =
     ''Accept: text/html,application/xhtml+xml,application/xml;q=0.9,*/*;q=0.8'' @ crlf
     @ ''Accept-Language: en-US,en;q=0.8'' @ crlf @ ''Accept-Encoding: gzip, deflate'' @ crlf"

definition newline_text :: bytes where
  "newline_text = [CHR 0x5C, CHR ''n'']"

definition http_simple_client_encode :: "bytes \<Rightarrow> tape \<Rightarrow> 'd http_simple
    \<Rightarrow> bytes res \<times> tape \<times> 'd http_simple" where
  "http_simple_client_encode buf t h =
     (if hs_has_sent_header h then (Inr buf, t, h)
      else
        (case p_server_info h of
           None \<Rightarrow> (Inl AttributeError, t, h)
         | Some i \<Rightarrow>
             (let (headlen, t1) = http_headlen buf i t;
                  (hosts, b) = http_hosts i;
                  body = map_option (\<lambda>b. py_replace newline_text crlf (py_replace [CHR 0x0A] crlf b)) b;
                  (host, t2) = choice (py_split '','' hosts) t1;
                  http_head = ''GET /'' @ encode_head (take headlen buf) @ '' HTTP/1.1'' @ crlf
                    @ ''Host: '' @ host @ http_port i @ crlf;
                  (tail, t3) =
                    (if body \<noteq> None \<and> body \<noteq> Some [] then (the body @ crlf @ crlf, t2)
                     else (let (ua, t3) = choice user_agents t2
                           in (''User-Agent: '' @ ua @ crlf @ accept_lines
                               @ ''DNT: 1'' @ crlf @ ''Connection: keep-alive'' @ crlf @ crlf, t3)))
              in (Inr (http_head @ tail @ drop headlen buf), t3, h\<lparr>hs_has_sent_header := True\<rparr>))))"

definition http_post_client_encode :: "bytes \<Rightarrow> tape \<Rightarrow> 'd http_simple
    \<Rightarrow> bytes res \<times> tape \<times> 'd http_simple" where
  "http_post_client_encode buf t h =
     (if hs_has_sent_header h then (Inr buf, t, h)
      else
        (case p_server_info h of
           None \<Rightarrow> (Inl AttributeError, t, h)
         | Some i \<Rightarrow>
             (let (headlen, t1) = http_headlen buf i t;
                  (hosts, b) = http_hosts i;
                  body = map_option (py_replace newline_text crlf) b;
                  (host, t2) = choice (py_split '','' hosts) t1;
                  http_head = ''POST /'' @ encode_head (take headlen buf) @ '' HTTP/1.1'' @ crlf
                    @ ''Host: '' @ host @ http_port i @ crlf;
                  (tail, t3) =
                    (if body \<noteq> None \<and> body \<noteq> Some [] then (the body @ crlf @ crlf, t2)
                     else (let (ua, t3) = choice user_agents t2; (bd, t4) = boundary t3
                           in (''User-Agent: '' @ ua @ crlf @ accept_lines
                               @ ''Content-Type: multipart/form-data; boundary='' @ bd @ crlf
                               @ ''DNT: 1'' @ crlf @ ''Connection: keep-alive'' @ crlf @ crlf, t4)))
              in (Inr (http_head @ tail @ drop headlen buf), t3, h\<lparr>hs_has_sent_header := True\<rparr>))))"

definition http_client_encode :: "bytes \<Rightarrow> tape \<Rightarrow> 'd http_simple
    \<Rightarrow> bytes res \<times> tape \<times> 'd http_simple" where
  "http_client_encode buf t h =
     (if hs_post h then http_post_client_encode buf t h else http_simple_client_encode buf t h)"

definition http_client_decode :: "bytes \<Rightarrow> 'd http_simple \<Rightarrow> (bytes \<times> bool) \<times> 'd http_simple" where
  "http_client_decode buf h =
     (if hs_has_recv_header h then ((buf, False), h)
      else
        (case py_find (crlf @ crlf) buf of
           Some pos \<Rightarrow> ((drop (pos + 4) buf, False), h\<lparr>hs_has_recv_header := True\<rparr>)
         | None \<Rightarrow> (([], False), h)))"

text \<open>\<open>date\<close> is the formatted time of the call.\<close>

definition http_server_encode :: "bytes \<Rightarrow> bytes \<Rightarrow> 'd http_simple \<Rightarrow> bytes \<times> 'd http_simple" where
  "http_server_encode date buf h =
     (if hs_has_sent_header h then (buf, h)
      else
        (let header = ''HTTP/1.1 200 OK'' @ crlf @ ''Connection: keep-alive'' @ crlf
               @ ''Content-Encoding: gzip'' @ crlf @ ''Content-Type: text/html'' @ crlf @ ''Date: ''
               @ date @ crlf @ ''Server: nginx'' @ crlf @ ''Vary: Accept-Encoding'' @ crlf @ crlf
         in (header @ buf, h\<lparr>hs_has_sent_header := True\<rparr>)))"

subsection \<open>Reading the request\<close>

fun unhex_items :: "bytes \<Rightarrow> bytes list \<Rightarrow> bytes res" where
  "unhex_items ret_buf [] = Inr ret_buf"
| "unhex_items ret_buf (item # items) =
     (if length item < 2 then rbind (unhexlify (''0'' @ item)) (\<lambda>r. Inr (ret_buf @ r))
      else if length item > 2 then rbind (unhexlify (take 2 item)) (\<lambda>r. Inr (ret_buf @ r))
      else rbind (unhexlify item) (\<lambda>r. unhex_items (ret_buf @ r) items))"

definition get_data_from_http_header :: "bytes \<Rightarrow> bytes res" where
  "get_data_from_http_header buf =
     (let lines = py_split crlf buf
      in if length lines > 1 then
           (let hex_items = py_split ''%'' (hd lines)
            in if length hex_items > 1 then unhex_items [] (tl hex_items) else Inr [])
         else Inr [])"

definition get_host_from_http_header :: "bytes \<Rightarrow> bytes option" where
  "get_host_from_http_header buf =
     (let lines = py_split crlf buf
      in if length lines > 1
         then map_option (drop 6) (find (\<lambda>line. match_begin line ''Host: '') lines)
         else None)"

definition http_not_match_return :: "bytes \<Rightarrow> 'd http_simple
    \<Rightarrow> (bytes \<times> bool \<times> bool) \<times> 'd http_simple" where
  "http_not_match_return buf h =
     (if p_method h = (if hs_post h then ''http_post'' else ''http_simple'')
      then (decoy, False, False) else (buf, True, False),
      h\<lparr>hs_has_sent_header := True, hs_has_recv_header := True\<rparr>)"

definition http_error_return :: "bytes \<Rightarrow> 'd http_simple
    \<Rightarrow> (bytes \<times> bool \<times> bool) \<times> 'd http_simple" where
  "http_error_return buf h =
     ((decoy, False, False), h\<lparr>hs_has_sent_header := True, hs_has_recv_header := True\<rparr>)"

text \<open>Whether the server refuses the host: it has a parameter, the request names a host, and the
  host without its port is not in the list.\<close>

definition http_wrong_host :: "bytes option \<Rightarrow> bytes \<Rightarrow> bool" where
  "http_wrong_host host obfs_param \<longleftrightarrow>
     (case host of
        None \<Rightarrow> False
      | Some h \<Rightarrow>
          h \<noteq> [] \<and> obfs_param \<noteq> []
          \<and> (let name = (case py_find '':'' h of None \<Rightarrow> h | Some pos \<Rightarrow> take pos h)
             in name \<notin> set (py_split '','' obfs_param)))"

text \<open>The last checks, after the host was accepted.\<close>

definition http_finish :: "bytes \<Rightarrow> bytes \<Rightarrow> 'd http_simple
    \<Rightarrow> (bytes \<times> bool \<times> bool) \<times> 'd http_simple" where
  "http_finish buf data h =
     (if length data < 4 then http_error_return buf h
      else
        (let datas = py_split1 (crlf @ crlf) buf;
             ret_buf = (if length datas > 1 then data @ (datas ! 1) else data)
         in if length ret_buf \<ge> 13
            then ((ret_buf, True, False), h\<lparr>hs_has_recv_header := True\<rparr>)
            else http_not_match_return buf h))"

definition http_server_decode :: "bytes \<Rightarrow> 'd http_simple
    \<Rightarrow> (bytes \<times> bool \<times> bool) res \<times> 'd http_simple" where
  "http_server_decode data h0 =
     (if hs_has_recv_header h0 then (Inr (data, True, False), h0)
      else
        (case hs_recv_buffer h0 of
           None \<Rightarrow> (Inl TypeError, h0)
         | Some rb \<Rightarrow>
             (let buf = rb @ data;
                  h = h0\<lparr>hs_recv_buffer := Some buf\<rparr>
              in if length buf \<le> 10 then (Inr ([], True, False), h)
                 else if match_begin buf ''GET '' \<or> match_begin buf ''POST '' then
                   (if length buf > 65536
                    then apfst Inr (http_not_match_return buf (h\<lparr>hs_recv_buffer := None\<rparr>))
                    else if py_in (crlf @ crlf) buf then
                      (case get_data_from_http_header buf of
                         Inl e \<Rightarrow> (Inl e, h)
                       | Inr ret_buf \<Rightarrow>
                           (case p_server_info h of
                              None \<Rightarrow>
                                (if get_host_from_http_header buf \<noteq> None
                                    \<and> get_host_from_http_header buf \<noteq> Some []
                                 then (Inl AttributeError, h)
                                 else apfst Inr (http_finish buf ret_buf h))
                            | Some i \<Rightarrow>
                                (if http_wrong_host (get_host_from_http_header buf) (si_obfs_param i)
                                 then apfst Inr (http_not_match_return buf h)
                                 else apfst Inr (http_finish buf ret_buf h))))
                    else (Inr ([], True, False), h))
                 else apfst Inr (http_not_match_return buf (h\<lparr>hs_recv_buffer := None\<rparr>)))))"

subsection \<open>The end of the header\<close>

lemma crlf2: "crlf @ crlf = CHR 0x0D # [CHR 0x0A, CHR 0x0D, CHR 0x0A]"
  by (simp add: crlf_def)

lemma find_crlf2_line:
  assumes "CHR 0x0D \<notin> set l" and "\<not> match_begin s crlf"
  shows "py_find (crlf @ crlf) (l @ crlf @ s)
    = map_option (\<lambda>i. i + length l + 2) (py_find (crlf @ crlf) s)"
proof -
  have "py_find (crlf @ crlf) (crlf @ s) = map_option (\<lambda>i. i + 2) (py_find (crlf @ crlf) s)"
    using assms(2) by (auto simp: crlf_def option.map_comp comp_def)
  then show ?thesis
    using py_find_skip [OF assms(1), of "[CHR 0x0A, CHR 0x0D, CHR 0x0A]" "crlf @ s"]
    by (simp add: crlf2 option.map_comp comp_def algebra_simps)
qed

text \<open>A line of a header: not empty and without a carriage return.\<close>

definition header_line :: "bytes \<Rightarrow> bool" where
  "header_line l \<longleftrightarrow> l \<noteq> [] \<and> CHR 0x0D \<notin> set l"

lemma header_line_no_crlf: "header_line l \<Longrightarrow> \<not> match_begin (l @ s) crlf"
  by (cases l) (auto simp: header_line_def crlf_def)

lemma find_crlf2_lines:
  assumes "ls \<noteq> []" and "list_all header_line ls"
  shows "py_find (crlf @ crlf) (py_join crlf ls @ crlf @ crlf @ s) = Some (length (py_join crlf ls))"
  using assms
proof (induction ls)
  case (Cons l ls)
  show ?case
  proof (cases "ls = []")
    case True
    then show ?thesis
      using Cons.prems py_find_first [of "CHR 0x0D" l "[CHR 0x0A, CHR 0x0D, CHR 0x0A]" s]
      by (simp add: header_line_def crlf_def)
  next
    case False
    then obtain m ms where ms: "ls = m # ms" by (cases ls) simp
    have n: "\<not> match_begin (py_join crlf ls @ crlf @ crlf @ s) crlf"
    proof (cases "ms = []")
      case True
      then show ?thesis using header_line_no_crlf [of m "crlf @ crlf @ s"] Cons.prems(2) ms by simp
    next
      case False
      then show ?thesis
        using header_line_no_crlf [of m "crlf @ py_join crlf ms @ crlf @ crlf @ s"] Cons.prems(2) ms
        by (simp add: py_join_Cons)
    qed
    have "py_find (crlf @ crlf) (l @ crlf @ py_join crlf ls @ crlf @ crlf @ s)
        = Some (length (py_join crlf ls) + length l + 2)"
      using find_crlf2_line [OF _ n, of l] Cons.IH [OF False] Cons.prems(2)
      by (simp add: header_line_def)
    then show ?thesis using False by (simp add: py_join_Cons crlf_def)
  qed
qed simp

text \<open>A first occurrence stays the first one when the text grows.\<close>

lemma py_find_prefix: "py_find sub s = Some i \<Longrightarrow> py_find sub (s @ t) = Some i"
proof (induction s arbitrary: i)
  case Nil
  then show ?case by (cases t) (auto split: if_splits)
next
  case (Cons c s)
  show ?case
  proof (cases "match_begin (c # s) sub")
    case True
    then have "match_begin (c # s @ t) sub" using match_begin_iff by (metis append_Cons append.assoc)
    then show ?thesis using Cons.prems True by simp
  next
    case False
    then obtain j where j: "i = Suc j" "py_find sub s = Some j" using Cons.prems by auto
    have le: "length sub \<le> Suc (length s)" using py_find_Some [OF j(2)] by simp
    then have "take (length sub) (c # s @ t) = take (length sub) (c # s)" by (cases sub) simp_all
    then have "\<not> match_begin (c # s @ t) sub" using False le by (simp add: match_begin_def)
    then show ?thesis using Cons.IH [OF j(2)] j(1) by simp
  qed
qed

lemma py_find_early:
  assumes "py_find sub (s @ t) = Some i" and "length s < i + length sub"
  shows "py_find sub s = None"
proof (rule ccontr)
  assume "py_find sub s \<noteq> None"
  then obtain j where j: "py_find sub s = Some j" by auto
  from py_find_prefix [OF j, of t] py_find_Some [OF j] assms show False by simp
qed

subsection \<open>The path\<close>

lemma encode_head_Nil [simp]: "encode_head [] = []"
  by (simp add: encode_head_def)

lemma encode_head_Cons [simp]: "encode_head (c # cs) = ''%'' @ hexlify [c] @ encode_head cs"
  by (simp add: encode_head_def)

lemma hex_digit_plain [simp]:
  "n < 16 \<Longrightarrow> hex_digit n \<noteq> CHR 0x0D \<and> hex_digit n \<noteq> CHR 0x25"
proof -
  assume "n < 16"
  then have "48 \<le> ordb (hex_digit n)" using hex_digit_graph by blast
  then show ?thesis by auto
qed

fun path_items :: "bytes \<Rightarrow> bytes \<Rightarrow> bytes list" where
  "path_items [] t = []"
| "path_items [c] t = [hexlify [c] @ t]"
| "path_items (c # d # cs) t = hexlify [c] # path_items (d # cs) t"

lemma hexlify_plain: "x \<in> set (hexlify s) \<Longrightarrow> x \<noteq> CHR 0x0D \<and> x \<noteq> CHR 0x25"
proof (induction s)
  case (Cons c s)
  have "ordb c div 16 < 16" using ordb_less [of c] by (simp add: less_mult_imp_div_less)
  then show ?case
    using Cons hex_digit_plain [of "ordb c div 16"] hex_digit_plain [of "ordb c mod 16"] by auto
qed simp

lemma encode_head_no_cr [simp]: "CHR 0x0D \<notin> set (encode_head s)"
proof (induction s)
  case (Cons c s)
  have "CHR 0x0D \<notin> set (hexlify [c])" using hexlify_plain by blast
  then show ?case using Cons by (simp del: hexlify.simps)
qed simp

lemma split_path:
  assumes "CHR 0x25 \<notin> set p" and "CHR 0x25 \<notin> set t" and "d \<noteq> []"
  shows "py_split ''%'' (p @ encode_head d @ t) = p # path_items d t"
  using assms
proof (induction d arbitrary: p)
  case (Cons c d)
  have h: "CHR 0x25 \<notin> set (hexlify [c])" using hexlify_plain by blast
  have s: "py_split ''%'' (p @ encode_head (c # d) @ t)
      = p # py_split ''%'' (hexlify [c] @ encode_head d @ t)"
    using py_split_Cons [OF Cons.prems(1), of "[]" "hexlify [c] @ encode_head d @ t"]
    by (simp del: hexlify.simps)
  show ?case
  proof (cases "d = []")
    case True
    then show ?thesis
      using s h Cons.prems(2) py_split_fresh [of "CHR 0x25" "hexlify [c] @ t" "[]"]
      by (simp del: hexlify.simps)
  next
    case False
    then obtain c' d' where "d = c' # d'" by (cases d) simp
    then show ?thesis using s Cons.IH [OF h Cons.prems(2)] by (simp del: hexlify.simps encode_head_Cons)
  qed
qed simp

lemma unhex_path:
  assumes "t \<noteq> []" and "d \<noteq> []"
  shows "unhex_items ret (path_items d t) = Inr (ret @ d)"
  using assms
proof (induction d t arbitrary: ret rule: path_items.induct)
  case (2 c t)
  have "take 2 (hexlify [c] @ t) = hexlify [c]" by simp
  moreover have "length (hexlify [c] @ t) > 2" using 2 by simp
  ultimately show ?case using unhexlify_hexlify [of "[c]"] by (simp del: hexlify.simps unhexlify.simps)
next
  case (3 c d cs t)
  have "length (hexlify [c]) = 2" by simp
  then show ?case
    using 3 unhexlify_hexlify [of "[c]"]
    by (simp del: hexlify.simps unhexlify.simps length_hexlify path_items.simps(2))
qed simp

lemma get_data_request:
  assumes "CHR 0x25 \<notin> set p" and "CHR 0x0D \<notin> set p" and "d \<noteq> []"
  shows "get_data_from_http_header (p @ encode_head d @ '' HTTP/1.1'' @ crlf @ s) = Inr d"
proof -
  have "py_split crlf ((p @ encode_head d @ '' HTTP/1.1'') @ crlf @ s)
      = (p @ encode_head d @ '' HTTP/1.1'') # py_split crlf s"
    using assms(2) py_split_Cons [of "CHR 0x0D" "p @ encode_head d @ '' HTTP/1.1''" "[CHR 0x0A]" s]
    by (simp add: crlf_def)
  moreover have "py_split ''%'' (p @ encode_head d @ '' HTTP/1.1'') = p # path_items d '' HTTP/1.1''"
    using assms by (intro split_path) simp_all
  moreover have "path_items d '' HTTP/1.1'' \<noteq> []" using assms(3) by (cases d rule: remdups_adj.cases) simp_all
  ultimately show ?thesis
    using unhex_path [of "'' HTTP/1.1''" d "[]"] assms(3)
    by (simp add: get_data_from_http_header_def Let_def)
qed

lemma get_host_request:
  assumes "CHR 0x0D \<notin> set l" and "\<not> match_begin l ''Host: ''" and "CHR 0x0D \<notin> set h"
  shows "get_host_from_http_header (l @ crlf @ ''Host: '' @ h @ crlf @ s) = Some h"
proof -
  have "py_split crlf (l @ crlf @ (''Host: '' @ h) @ crlf @ s)
      = l # (''Host: '' @ h) # py_split crlf s"
    using assms py_split_Cons [of "CHR 0x0D" l "[CHR 0x0A]" "(''Host: '' @ h) @ crlf @ s"]
      py_split_Cons [of "CHR 0x0D" "''Host: '' @ h" "[CHR 0x0A]" s]
    by (simp add: crlf_def)
  then show ?thesis using assms(2) by (simp add: get_host_from_http_header_def)
qed

subsection \<open>The request the client makes\<close>

definition request_header :: "bytes \<Rightarrow> bytes \<Rightarrow> bytes \<Rightarrow> bytes list \<Rightarrow> bytes" where
  "request_header pre d hostport ls =
     py_join crlf ((pre @ encode_head d @ '' HTTP/1.1'') # (''Host: '' @ hostport) # ls) @ crlf @ crlf"

definition http_prefix :: "bool \<Rightarrow> bytes" where
  "http_prefix post = (if post then ''POST /'' else ''GET /'')"

lemma choice_in:
  assumes "choice xs t = (x, t')" and "xs \<noteq> []"
  shows "x \<in> set xs"
proof -
  obtain i where i: "randint 0 (length xs - 1) t = (i, t')" "x = xs ! i"
    using assms(1) by (auto simp: choice_def split: prod.splits)
  then have "i < length xs" using randint_bounds [OF _ i(1)] assms(2) by (cases xs) auto
  then show ?thesis using i(2) by simp
qed

lemma user_agents_lines: "ua \<in> set user_agents \<Longrightarrow> CHR 0x0D \<notin> set ua"
  by (auto simp: user_agents_def)

lemma user_agents_not_Nil [simp]: "user_agents \<noteq> []"
  by (simp add: user_agents_def)

lemma boundary_no_cr: "boundary t = (bd, t') \<Longrightarrow> CHR 0x0D \<notin> set bd"
proof -
  let ?cs = "''ABCDEFGHIJKLMNOPQRSTUVWXYZabcdefghijklmnopqrstuvwxyz0123456789''"
  let ?f = "\<lambda>i (s, t). let (c, t') = choice ?cs t in (s @ [c], t')"
  have "CHR 0x0D \<notin> set s \<Longrightarrow> CHR 0x0D \<notin> set (fst (fold ?f is (s, t)))" for s "is" t
  proof (induction "is" arbitrary: s t)
    case (Cons i "is")
    obtain c t1 where c: "choice ?cs t = (c, t1)" by fastforce
    then have "c \<in> set ?cs" by (rule choice_in) simp
    then have "c \<noteq> CHR 0x0D" by auto
    then show ?case using Cons c by simp
  qed simp
  from this [of "[]" "[0..<32]" t] show "boundary t = (bd, t') \<Longrightarrow> CHR 0x0D \<notin> set bd"
    unfolding boundary_def by simp
qed

lemma http_headlen_cases:
  assumes "http_headlen buf i t = (n, t')"
  shows "n = length buf \<or> length (si_iv i) + si_head_len i \<le> n"
  using assms by (auto simp: http_headlen_def Let_def split: if_splits prod.splits)

lemma no_hash_hosts:
  assumes "CHR ''#'' \<notin> set (if si_obfs_param i \<noteq> [] then si_obfs_param i else si_host i)"
  shows "http_hosts i = (if si_obfs_param i \<noteq> [] then si_obfs_param i else si_host i, None)"
  using assms py_find_fresh [of "CHR ''#''" _ "[]"] by (simp add: http_hosts_def Let_def)

lemma http_client_shape:
  assumes "\<not> hs_has_sent_header h" and i: "p_server_info h = Some i"
    and hosts: "hosts = (if si_obfs_param i \<noteq> [] then si_obfs_param i else si_host i)"
    and nohash: "CHR ''#'' \<notin> set hosts"
    and out: "http_client_encode buf t h = (Inr w, t', h')"
  shows "\<exists>n host ls. w = request_header (http_prefix (hs_post h)) (take n buf) (host @ http_port i) ls
      @ drop n buf \<and> host \<in> set (py_split '','' hosts) \<and> list_all header_line ls
    \<and> (n = length buf \<or> length (si_iv i) + si_head_len i \<le> n)
    \<and> h' = h\<lparr>hs_has_sent_header := True\<rparr>"
proof -
  have hh: "http_hosts i = (hosts, None)" using no_hash_hosts [of i] hosts nohash by simp
  obtain n t1 where n: "http_headlen buf i t = (n, t1)" by fastforce
  obtain host t2 where host: "choice (py_split '','' hosts) t1 = (host, t2)" by fastforce
  obtain ua t3 where ua: "choice user_agents t2 = (ua, t3)" by fastforce
  obtain bd t4 where bd: "boundary t3 = (bd, t4)" by fastforce
  have hin: "host \<in> set (py_split '','' hosts)" using choice_in [OF host] by simp
  have uaok: "CHR 0x0D \<notin> set ua" using choice_in [OF ua] user_agents_lines by simp
  have bdok: "CHR 0x0D \<notin> set bd" by (rule boundary_no_cr [OF bd])
  let ?ls = "[''User-Agent: '' @ ua,
      ''Accept: text/html,application/xhtml+xml,application/xml;q=0.9,*/*;q=0.8'',
      ''Accept-Language: en-US,en;q=0.8'', ''Accept-Encoding: gzip, deflate'']"
  let ?tl = "[''DNT: 1'', ''Connection: keep-alive'']"
  show ?thesis
  proof (cases "hs_post h")
    case True
    have "w = request_header ''POST /'' (take n buf) (host @ http_port i)
        (?ls @ (''Content-Type: multipart/form-data; boundary='' @ bd) # ?tl) @ drop n buf"
      and "h' = h\<lparr>hs_has_sent_header := True\<rparr>"
      using out assms(1) i True hh n host ua bd
      by (simp_all add: http_client_encode_def http_post_client_encode_def request_header_def accept_lines_def)
    moreover have "list_all header_line
        (?ls @ (''Content-Type: multipart/form-data; boundary='' @ bd) # ?tl)"
      using uaok bdok by (simp add: header_line_def)
    moreover have pre: "http_prefix (hs_post h) = ''POST /''" using True by (simp add: http_prefix_def)
    ultimately show ?thesis unfolding pre using hin http_headlen_cases [OF n] by blast
  next
    case False
    have "w = request_header ''GET /'' (take n buf) (host @ http_port i) (?ls @ ?tl) @ drop n buf"
      and "h' = h\<lparr>hs_has_sent_header := True\<rparr>"
      using out assms(1) i False hh n host ua
      by (simp_all add: http_client_encode_def http_simple_client_encode_def request_header_def accept_lines_def)
    moreover have "list_all header_line (?ls @ ?tl)"
      using uaok by (simp add: header_line_def)
    moreover have pre: "http_prefix (hs_post h) = ''GET /''" using False by (simp add: http_prefix_def)
    ultimately show ?thesis unfolding pre using hin http_headlen_cases [OF n] by blast
  qed
qed

subsection \<open>The server reads it back\<close>

lemma find_request_end:
  assumes "CHR 0x0D \<notin> set (pre @ hostport)" and "list_all header_line ls"
  shows "py_find (crlf @ crlf) (request_header pre d hostport ls @ s)
    = Some (length (request_header pre d hostport ls) - 4)"
proof -
  let ?ls = "(pre @ encode_head d @ '' HTTP/1.1'') # (''Host: '' @ hostport) # ls"
  have "list_all header_line ?ls" using assms by (simp add: header_line_def)
  from find_crlf2_lines [OF _ this, of s] show ?thesis
    by (simp add: request_header_def crlf_def)
qed

lemma length_request: "10 < length (request_header pre d hostport ls)"
  by (cases ls) (simp_all add: request_header_def crlf_def)

lemma request_data:
  assumes "CHR 0x25 \<notin> set pre" and "CHR 0x0D \<notin> set pre" and "d \<noteq> []"
  shows "get_data_from_http_header (request_header pre d hostport ls @ s) = Inr d"
  using get_data_request [OF assms, of "py_join crlf ((''Host: '' @ hostport) # ls) @ crlf @ crlf @ s"]
  by (simp add: request_header_def)

lemma request_host:
  assumes "CHR 0x0D \<notin> set pre" and "CHR 0x0D \<notin> set hostport" and "pre = http_prefix post"
  shows "get_host_from_http_header (request_header pre d hostport ls @ s) = Some hostport"
proof -
  let ?l = "pre @ encode_head d @ '' HTTP/1.1''"
  let ?r = "if ls = [] then crlf @ s else py_join crlf ls @ crlf @ crlf @ s"
  have "request_header pre d hostport ls @ s = ?l @ crlf @ ''Host: '' @ hostport @ crlf @ ?r"
    by (cases ls) (simp_all add: request_header_def)
  moreover have "get_host_from_http_header (?l @ crlf @ ''Host: '' @ hostport @ crlf @ ?r) = Some hostport"
  proof (rule get_host_request)
    show "\<not> match_begin ?l ''Host: ''" by (simp add: assms(3) http_prefix_def)
  qed (use assms(1,2) in simp_all)
  ultimately show ?thesis by (simp only:)
qed

lemma request_begin: "match_begin (request_header (http_prefix post) d hostport ls @ s) ''GET ''
  \<or> match_begin (request_header (http_prefix post) d hostport ls @ s) ''POST ''"
  by (simp add: request_header_def http_prefix_def)

lemma match_begin_shorter:
  "match_begin (s @ t) p \<Longrightarrow> length p \<le> length s \<Longrightarrow> match_begin s p"
  by (simp add: match_begin_def)

definition http_reading :: "'d server_info \<Rightarrow> 'd http_simple \<Rightarrow> bytes \<Rightarrow> bool" where
  "http_reading si h b \<longleftrightarrow> \<not> hs_has_recv_header h \<and> hs_recv_buffer h = Some b \<and> p_server_info h = Some si"

text \<open>A buffer that holds only a part of the header is kept, and one that holds all of it gives the
  path's bytes and what follows the header.\<close>

lemma http_server_wait:
  assumes "http_reading si h b" and "b @ c @ s = request_header (http_prefix post) d hostport ls @ y"
    and "length (b @ c) < length (request_header (http_prefix post) d hostport ls)"
    and "CHR 0x0D \<notin> set hostport" and "list_all header_line ls" and "length (b @ c) \<le> 65536"
  shows "http_server_decode c h = (Inr ([], True, False), h\<lparr>hs_recv_buffer := Some (b @ c)\<rparr>)"
proof -
  let ?H = "request_header (http_prefix post) d hostport ls"
  have "CHR 0x0D \<notin> set (http_prefix post @ hostport)" using assms(4) by (simp add: http_prefix_def)
  from find_request_end [OF this assms(5), of d y] have "py_find (crlf @ crlf) ((b @ c) @ s) = Some (length ?H - 4)"
    using assms(2) by simp
  then have "py_find (crlf @ crlf) (b @ c) = None"
    by (rule py_find_early) (use assms(3) length_request [of "http_prefix post" d hostport ls] in \<open>simp add: crlf_def\<close>)
  moreover have "match_begin (b @ c) ''GET '' \<or> match_begin (b @ c) ''POST ''" if "\<not> length (b @ c) \<le> 10"
    using match_begin_shorter [of "b @ c" s] request_begin [of post d hostport ls y] assms(2) that
    by auto
  ultimately show ?thesis
    using assms(1,6) by (simp add: http_server_decode_def http_reading_def py_in_def Let_def)
qed

lemma http_server_done:
  assumes "http_reading si h b" and "b @ c = request_header (http_prefix post) d hostport ls @ y"
    and "CHR 0x0D \<notin> set hostport" and "list_all header_line ls" and "length (b @ c) \<le> 65536"
    and "13 \<le> length d" and "\<not> http_wrong_host (Some hostport) (si_obfs_param si)"
  shows "http_server_decode c h = (Inr (d @ y, True, False),
    h\<lparr>hs_recv_buffer := Some (b @ c), hs_has_recv_header := True\<rparr>)"
proof -
  let ?H = "request_header (http_prefix post) d hostport ls"
  have pre: "CHR 0x0D \<notin> set (http_prefix post @ hostport)" "CHR 0x25 \<notin> set (http_prefix post)"
      "CHR 0x0D \<notin> set (http_prefix post)"
    using assms(3) by (simp_all add: http_prefix_def)
  have f: "py_find (crlf @ crlf) (b @ c) = Some (length ?H - 4)"
    using find_request_end [OF pre(1) assms(4), of d y] assms(2) by simp
  have len: "10 < length (b @ c)" using length_request [of "http_prefix post" d hostport ls] assms(2) by simp
  have "get_data_from_http_header (b @ c) = Inr d"
    unfolding assms(2) by (rule request_data [OF pre(2,3)]) (use assms(6) in auto)
  moreover have "get_host_from_http_header (b @ c) = Some hostport"
    unfolding assms(2) by (rule request_host [OF pre(3) assms(3) refl])
  moreover have "py_split1 (crlf @ crlf) (b @ c) = [take (length ?H - 4) ?H, y]"
    using f assms(2) length_request [of "http_prefix post" d hostport ls]
    by (simp add: py_split1_def crlf_def)
  moreover have "match_begin (b @ c) ''GET '' \<or> match_begin (b @ c) ''POST ''"
    unfolding assms(2) by (rule request_begin)
  ultimately show ?thesis
    using assms(1,5,6,7) len f
    by (simp add: http_server_decode_def http_reading_def py_in_def http_finish_def Let_def)
qed

lemma http_server_pass:
  "hs_has_recv_header h \<Longrightarrow> \<exists>outs. feed_all http_server_decode cs h = (Inr outs, h)
     \<and> concat (map fst outs) = concat cs \<and> (\<forall>o' \<in> set outs. snd o' = (True, False))"
proof (induction cs)
  case (Cons c cs)
  then show ?case by (auto simp: http_server_decode_def)
qed simp

lemma http_server_run:
  assumes "http_reading si h b" and "b @ concat cs = request_header (http_prefix post) d hostport ls @ y"
    and "length b < length (request_header (http_prefix post) d hostport ls)"
    and "\<forall>c \<in> set cs. length (request_header (http_prefix post) d hostport ls) + length c \<le> 65536"
    and "CHR 0x0D \<notin> set hostport" and "list_all header_line ls" and "13 \<le> length d"
    and "\<not> http_wrong_host (Some hostport) (si_obfs_param si)"
  shows "\<exists>outs h'. feed_all http_server_decode cs h = (Inr outs, h')
     \<and> concat (map fst outs) = d @ y \<and> (\<forall>o' \<in> set outs. snd o' = (True, False))"
  using assms(1-4)
proof (induction cs arbitrary: h b)
  case Nil
  then show ?case by (metis append_Nil2 concat.simps(1) le_add1 length_append not_le)
next
  case (Cons c cs)
  let ?H = "request_header (http_prefix post) d hostport ls"
  have eq: "b @ c @ concat cs = ?H @ y" using Cons.prems(2) by simp
  have small: "length (b @ c) \<le> 65536" using Cons.prems(3,4) by simp
  show ?case
  proof (cases "length (b @ c) < length ?H")
    case True
    note step = http_server_wait [OF Cons.prems(1) eq True assms(5,6) small]
    have "http_reading si (h\<lparr>hs_recv_buffer := Some (b @ c)\<rparr>) (b @ c)"
      using Cons.prems(1) by (simp add: http_reading_def)
    from Cons.IH [OF this] obtain outs h' where
      "feed_all http_server_decode cs (h\<lparr>hs_recv_buffer := Some (b @ c)\<rparr>) = (Inr outs, h')"
      "concat (map fst outs) = d @ y" "\<forall>o' \<in> set outs. snd o' = (True, False)"
      using eq True Cons.prems(4) by auto
    then show ?thesis using step by simp
  next
    case False
    obtain y' where y': "b @ c = ?H @ y'" "y = y' @ concat cs"
      using append_longer [OF _ False, of "concat cs" y] eq by auto
    note step = http_server_done [OF Cons.prems(1) y'(1) assms(5,6) small assms(7,8)]
    show ?thesis
      using step y'(2) http_server_pass [of "h\<lparr>hs_recv_buffer := Some (b @ c), hs_has_recv_header := True\<rparr>" cs]
      by auto
  qed
qed

lemma set_join: "x \<in> set xs \<Longrightarrow> set x \<subseteq> set (py_join sep xs)"
  by (induction sep xs rule: py_join.induct) auto

lemma host_accepted:
  assumes "host \<in> set (py_split '','' hosts)" and "CHR '':'' \<notin> set hosts"
    and "si_obfs_param si = [] \<or> si_obfs_param si = hosts"
  shows "\<not> http_wrong_host (Some (host @ http_port i)) (si_obfs_param si)"
proof -
  have "CHR '':'' \<notin> set host"
    using set_join [OF assms(1), of "'',''"] assms(2) py_join_split [of "'',''" hosts] by auto
  then have "(case py_find '':'' (host @ http_port i) of None \<Rightarrow> host @ http_port i
      | Some pos \<Rightarrow> take pos (host @ http_port i)) = host"
    using py_find_first [of "CHR '':''" host "[]" "dec (si_port i)"]
      py_find_fresh [of "CHR '':''" host "[]"]
    by (simp add: http_port_def)
  then show ?thesis using assms(1,3) by (auto simp: http_wrong_host_def)
qed

lemma port_no_cr: "CHR 0x0D \<notin> set (http_port i)"
  using dec_digits [of "CHR 0x0D" "si_port i"] by (auto simp: http_port_def is_digit_def)


definition example_info :: "nat server_info" where
  "example_info = (server_info_new 0)\<lparr>si_host := ''a.b,c.d'', si_port := 80, si_head_len := 30\<rparr>"


text \<open>A stranger, whose first chunk has more than ten bytes and starts with neither GET nor
  POST, gets 2048 bytes 'E' under the plain method name only: under the \<^verbatim>\<open>_compatible\<close> names
  the chunk goes through as it is, and under both whatever comes after it does.\<close>

theorem http_stranger:
  assumes "\<not> hs_has_recv_header h" and "hs_recv_buffer h = Some []" and "10 < length data"
    and "\<not> match_begin data ''GET ''" and "\<not> match_begin data ''POST ''"
  shows "fst (http_server_decode data h) =
      Inr (if p_method h = (if hs_post h then ''http_post'' else ''http_simple'')
           then (decoy, False, False) else (data, True, False))
    \<and> fst (http_server_decode later (snd (http_server_decode data h))) = Inr (later, True, False)"
  using assms by (simp add: http_server_decode_def http_not_match_return_def Let_def)

theorem http_stranger_witness:
  "fst (http_server_decode ''SSH-2.0-OpenSSH'' (http_simple_new False ''http_simple'' :: nat http_simple))
     = Inr (decoy, False, False)"
  using http_stranger [of "http_simple_new False ''http_simple'' :: nat http_simple" "''SSH-2.0-OpenSSH''"]
  by (simp add: http_simple_new_def)

text \<open>A request whose path is not hexadecimal makes the server raise.\<close>

lemma http_bad_path:
  "fst (http_server_decode (''GET /%zz HTTP/1.1'' @ crlf @ crlf) (http_simple_new post m)) = Inl TypeError"
proof -
  have "py_in (crlf @ crlf) (''GET /%zz HTTP/1.1'' @ crlf @ crlf)" by code_simp
  moreover have "get_data_from_http_header (''GET /%zz HTTP/1.1'' @ crlf @ crlf) = Inl TypeError"
    by code_simp
  ultimately show ?thesis by (simp add: http_server_decode_def http_simple_new_def crlf_def)
qed

subsection \<open>random_head\<close>

record 'd random_head = "'d plain" +
  rh_has_sent_header :: bool
  rh_has_recv_header :: bool
  rh_raw_trans_sent :: bool
  rh_raw_trans_recv :: bool
  rh_send_buffer :: bytes

definition random_head_new :: "bytes \<Rightarrow> 'd random_head" where
  "random_head_new method =
     \<lparr>p_method = method, p_server_info = None, rh_has_sent_header = False, rh_has_recv_header = False,
      rh_raw_trans_sent = False, rh_raw_trans_recv = False, rh_send_buffer = []\<rparr>"

text \<open>\<^verbatim>\<open>os.urandom(common.ord(os.urandom(1)[0]) % 96 + 4)\<close>\<close>

definition random_noise :: "tape \<Rightarrow> bytes \<times> tape" where
  "random_noise t = (let (r, t1) = urandom 1 t in urandom (ordb (hd r) mod 96 + 4) t1)"

definition random_head_client_encode :: "bytes \<Rightarrow> tape \<Rightarrow> 'd random_head
    \<Rightarrow> bytes \<times> tape \<times> 'd random_head" where
  "random_head_client_encode buf t h =
     (if rh_raw_trans_sent h then (buf, t, h)
      else
        (let h1 = h\<lparr>rh_send_buffer := rh_send_buffer h @ buf\<rparr>
         in if \<not> rh_has_sent_header h1 then
              (let (data, t1) = random_noise t;
                   crc = 0xFFFFFFFF - crc32 data
               in (data @ le32 crc, t1, h1\<lparr>rh_has_sent_header := True\<rparr>))
            else if rh_raw_trans_recv h1 then
              (rh_send_buffer h1, t, h1\<lparr>rh_send_buffer := [], rh_raw_trans_sent := True\<rparr>)
            else ([], t, h1)))"

definition random_head_client_decode :: "bytes \<Rightarrow> 'd random_head \<Rightarrow> (bytes \<times> bool) \<times> 'd random_head" where
  "random_head_client_decode buf h =
     (if rh_raw_trans_recv h then ((buf, False), h)
      else (([], True), h\<lparr>rh_raw_trans_recv := True\<rparr>))"

definition random_head_server_encode :: "bytes \<Rightarrow> tape \<Rightarrow> 'd random_head
    \<Rightarrow> bytes \<times> tape \<times> 'd random_head" where
  "random_head_server_encode buf t h =
     (if rh_has_sent_header h then (buf, t, h)
      else (let (data, t1) = random_noise t in (data, t1, h\<lparr>rh_has_sent_header := True\<rparr>)))"

definition random_head_server_decode :: "bytes \<Rightarrow> 'd random_head
    \<Rightarrow> (bytes \<times> bool \<times> bool) \<times> 'd random_head" where
  "random_head_server_decode buf h =
     (if rh_has_recv_header h then ((buf, True, False), h)
      else
        (let h1 = h\<lparr>rh_has_recv_header := True\<rparr>
         in if crc32 buf \<noteq> 0xFFFFFFFF then
              (if p_method h = ''random_head'' then (decoy, False, False) else (buf, True, False),
               h1\<lparr>rh_has_sent_header := True\<rparr>)
            else (([], False, True), h1)))"

text \<open>The greeting of random_head works for every random choice: the server accepts the client's
  first message, answers it, and the client then sends what it had to hold back, which the server
  passes on; both directions are plain from there on.\<close>

theorem random_head_handshake:
  assumes "random_head_client_encode buf t (random_head_new m) = (hello, t1, c1)"
    and "random_head_server_decode hello (random_head_new m) = (r, s1)"
    and "random_head_server_encode [] t1 s1 = (answer, t2, s2)"
    and "random_head_client_decode answer c1 = (r', c2)"
    and "random_head_client_encode [] t2 c2 = (held, t3, c3)"
  shows "r = ([], False, True) \<and> r' = ([], True) \<and> held = buf
    \<and> random_head_server_decode held s2 = ((buf, True, False), s2)
    \<and> random_head_client_encode x t3 c3 = (x, t3, c3)
    \<and> random_head_server_encode y t3 s2 = (y, t3, s2)
    \<and> random_head_client_decode y c3 = ((y, False), c3)
    \<and> answer \<noteq> []"
proof -
  obtain d t' where d: "random_noise t = (d, t')" by fastforce
  have hello: "hello = d @ le32 (0xFFFFFFFF - crc32 d)"
      "c1 = random_head_new m\<lparr>rh_send_buffer := buf, rh_has_sent_header := True\<rparr>" "t1 = t'"
    using assms(1) d by (simp_all add: random_head_client_encode_def random_head_new_def Let_def)
  have s1: "r = ([], False, True)" "s1 = random_head_new m\<lparr>rh_has_recv_header := True\<rparr>"
    using assms(2) hello(1) crc32_residue [of d]
    by (simp_all add: random_head_server_decode_def random_head_new_def)
  obtain a t'' where a: "random_noise t1 = (a, t'')" by fastforce
  have "length a \<ge> 4" using a urandom_length by (auto simp: random_noise_def Let_def split: prod.splits)
  then have a0: "a \<noteq> []" by auto
  have s2: "answer = a" "t2 = t''" "s2 = random_head_new m\<lparr>rh_has_recv_header := True, rh_has_sent_header := True\<rparr>"
    using assms(3) a s1(2) by (simp_all add: random_head_server_encode_def random_head_new_def)
  have c2: "r' = ([], True)" "c2 = c1\<lparr>rh_raw_trans_recv := True\<rparr>"
    using assms(4) hello(2) by (simp_all add: random_head_client_decode_def random_head_new_def)
  have c3: "held = buf" "c3 = c2\<lparr>rh_send_buffer := [], rh_raw_trans_sent := True\<rparr>"
    using assms(5) c2(2) hello(2) by (simp_all add: random_head_client_encode_def random_head_new_def)
  show ?thesis
    using s1(1) c2 c3 s2 a0 hello(2)
    by (simp add: random_head_server_decode_def random_head_client_encode_def
        random_head_server_encode_def random_head_client_decode_def random_head_new_def)
qed

theorem random_head_handshake_witness:
  "\<exists>hello t1 c1 r s1. random_head_client_encode ''abc'' ''xyz'' (random_head_new ''random_head'' :: nat random_head)
      = (hello, t1, c1)
    \<and> random_head_server_decode hello (random_head_new ''random_head'' :: nat random_head) = (r, s1)
    \<and> r = ([], False, True)"
proof -
  let ?n = "random_head_new ''random_head'' :: nat random_head"
  obtain hello t1 c1 where 1: "random_head_client_encode ''abc'' ''xyz'' ?n = (hello, t1, c1)"
    using prod_cases3 by blast
  obtain r s1 where 2: "random_head_server_decode hello ?n = (r, s1)" by fastforce
  obtain a t2 s2 where 3: "random_head_server_encode [] t1 s1 = (a, t2, s2)" using prod_cases3 by blast
  obtain r' c2 where 4: "random_head_client_decode a c1 = (r', c2)" by fastforce
  obtain held t3 c3 where 5: "random_head_client_encode [] t2 c2 = (held, t3, c3)" using prod_cases3 by blast
  from random_head_handshake [OF 1 2 3 4 5] 1 2 show ?thesis by auto
qed

end
