(* ===== verification/Tls_Ticket.thy ===== *)
theory Tls_Ticket
  imports Plain Framing Lru_Cache
begin

text \<open>
  \<^verbatim>\<open>obfsplugin/obfs_tls.py\<close>: the plugin \<^verbatim>\<open>tls1.2_ticket_auth\<close>, which makes a connection
  look like TLS. The client's hello carries a random number, a time stamp and a MAC; the server
  checks them, refuses a hello it has seen, and answers; the client finishes the handshake and
  sends what it held back, and from then on both sides wrap the data in records.
  \<^verbatim>\<open>handshake_status\<close> is a number whose bits the server sets: 1 after a hello, 4 after the
  client's finish, 8 after its own answer; -1 after a refusal. The client uses 0, 1 and 8.
  \<^verbatim>\<open>server_decode\<close> calls itself from each stage for the next; here each stage is a function.
\<close>

subsection \<open>State\<close>

record tls_data =
  td_client_data :: "(bytes, bytes) lru"
  td_client_id :: bytes
  td_startup_time :: nat
  td_ticket_buf :: "bytes \<rightharpoonup> bytes"

definition tls_data_new :: "time \<Rightarrow> tape \<Rightarrow> tls_data \<times> tape" where
  "tls_data_new now t =
     (let (cid, t') = urandom 32 t
      in (\<lparr>td_client_data = lru_new (60 * 5), td_client_id = cid,
           td_startup_time = utc32 (now - 60 * 30), td_ticket_buf = Map.empty\<rparr>, t'))"

record tls_ticket_auth = "tls_data plain" +
  tk_status :: int
  tk_send_buffer :: bytes
  tk_recv_buffer :: bytes
  tk_client_id :: bytes
  tk_max_time_dif :: int
  tk_overhead :: int

definition tls_ticket_auth_new :: "bytes \<Rightarrow> tls_ticket_auth" where
  "tls_ticket_auth_new method =
     \<lparr>p_method = method, p_server_info = None, tk_status = 0, tk_send_buffer = [],
      tk_recv_buffer = [], tk_client_id = [], tk_max_time_dif = 60 * 60 * 24, tk_overhead = 5\<rparr>"

definition tls_version :: bytes where
  "tls_version = [CHR 0x03, CHR 0x03]"

definition tls_get_overhead :: "bool \<Rightarrow> tls_ticket_auth \<Rightarrow> int" where
  "tls_get_overhead direction p = tk_overhead p"

subsection \<open>Records of application data\<close>

definition tls_record :: "bytes \<Rightarrow> bytes" where
  "tls_record buf = [CHR 0x17] @ tls_version @ be16 (length buf) @ buf"

text \<open>The loop that \<^verbatim>\<open>client_encode\<close> and \<^verbatim>\<open>server_encode\<close> share: pieces of random size
  while more than 2048 bytes are left.\<close>

function tls_app_data :: "bytes \<Rightarrow> tape \<Rightarrow> bytes \<times> tape" where
  "tls_app_data buf t =
     (if length buf > 2048 then
        (let (r, t1) = urandom 2 t;
             size = min (be_val r mod 4096 + 100) (length buf);
             (ret, t2) = tls_app_data (drop size buf) t1
         in (tls_record (take size buf) @ ret, t2))
      else if length buf > 0 then (tls_record buf, t)
      else ([], t))"
  by pat_completeness auto
termination
  by (relation "measure (\<lambda>(buf, t). length buf)") auto

declare tls_app_data.simps [simp del]

subsection \<open>The client\<close>

definition sni :: "bytes \<Rightarrow> bytes res" where
  "sni url =
     rbind (pack_be16 (length url)) (\<lambda>l.
     let data = [CHR 0x00] @ l @ url
     in rbind (pack_be16 (length data + 2)) (\<lambda>l1.
        rbind (pack_be16 (length data)) (\<lambda>l2.
        Inr ([CHR 0x00, CHR 0x00] @ l1 @ l2 @ data))))"

definition tls_pack_auth_data :: "hash_lib \<Rightarrow> time \<Rightarrow> bytes \<Rightarrow> bytes \<Rightarrow> tape \<Rightarrow> bytes \<times> tape" where
  "tls_pack_auth_data hl now key client_id t =
     (let (r, t') = urandom 18 t;
          data = be32 (utc32 now) @ r
      in (data @ take 10 (hmac hl SHA1 (key @ client_id) data), t'))"

text \<open>\<^verbatim>\<open>binascii.unhexlify\<close> of a constant.\<close>

definition hexs :: "bytes \<Rightarrow> bytes" where
  "hexs s = (case unhexlify s of Inl e \<Rightarrow> [] | Inr b \<Rightarrow> b)"

definition hello_suites :: bytes where
  "hello_suites = hexs ''001cc02bc02fcca9cca8cc14cc13c00ac014c009c013009c0035002f000a0100''"

definition hello_ext_tail :: bytes where
  "hello_ext_tail = hexs ''000d001600140601060305010503040104030301030302010203''
     @ hexs ''000500050100000000'' @ hexs ''00120000'' @ hexs ''75500000''
     @ hexs ''000b00020100'' @ hexs ''000a0006000400170018''"

definition tls_choose_host :: "'d server_info \<Rightarrow> tape \<Rightarrow> bytes \<times> tape" where
  "tls_choose_host i t =
     (let host = (if si_obfs_param i \<noteq> [] then si_obfs_param i else si_host i);
          host1 = (if host \<noteq> [] \<and> is_digit (last host) then [] else host);
          hosts = py_split '','' host1;
          (k, t') = randint 0 (length hosts - 1) t
      in (hosts ! k, t'))"

definition tls_ticket :: "bytes \<Rightarrow> tls_data \<Rightarrow> tape \<Rightarrow> bytes \<times> tls_data \<times> tape" where
  "tls_ticket host d t =
     (case td_ticket_buf d host of
        Some b \<Rightarrow> (b, d, t)
      | None \<Rightarrow>
          (let (r, t1) = urandom 2 t;
               (b, t2) = urandom ((be_val r mod 17 + 8) * 16) t1
           in (b, d\<lparr>td_ticket_buf := (td_ticket_buf d)(host \<mapsto> b)\<rparr>, t2)))"

definition tls_client_hello :: "hash_lib \<Rightarrow> time \<Rightarrow> tls_data server_info \<Rightarrow> tape
    \<Rightarrow> bytes res \<times> tls_data \<times> tape" where
  "tls_client_hello hl now i t =
     (let d = si_data i;
          (auth, t1) = tls_pack_auth_data hl now (si_key i) (td_client_id d) t;
          data = tls_version @ auth @ [CHR 0x20] @ td_client_id d @ hello_suites;
          (host, t2) = tls_choose_host i t1
      in case sni host of
           Inl e \<Rightarrow> (Inl e, d, t2)
         | Inr name \<Rightarrow>
             (let (ticket, d', t3) = tls_ticket host d t2
              in (rbind (pack_be16 (length ticket)) (\<lambda>tl.
                  let ext = hexs ''ff01000100'' @ name @ hexs ''00170000'' @ hexs ''0023'' @ tl @ ticket
                        @ hello_ext_tail
                  in rbind (pack_be16 (length ext)) (\<lambda>el.
                     let data1 = data @ el @ ext
                     in rbind (pack_be16 (length data1)) (\<lambda>dl.
                        let data2 = [CHR 0x01, CHR 0x00] @ dl @ data1
                        in rbind (pack_be16 (length data2)) (\<lambda>rl.
                           Inr ([CHR 0x16, CHR 0x03, CHR 0x01] @ rl @ data2))))),
                  d', t3)))"

definition tls_client_finish :: "hash_lib \<Rightarrow> tls_data server_info \<Rightarrow> tape \<Rightarrow> bytes \<times> tape" where
  "tls_client_finish hl i t =
     (let (r, t') = urandom 22 t;
          data = [CHR 0x14] @ tls_version @ [CHR 0x00, CHR 0x01, CHR 0x01]
            @ [CHR 0x16] @ tls_version @ [CHR 0x00, CHR 0x20] @ r
      in (data @ take 10 (hmac hl SHA1 (si_key i @ td_client_id (si_data i)) data), t'))"

definition tls_client_encode :: "hash_lib \<Rightarrow> time \<Rightarrow> bytes \<Rightarrow> tape \<Rightarrow> tls_ticket_auth
    \<Rightarrow> bytes res \<times> tape \<times> tls_ticket_auth" where
  "tls_client_encode hl now buf t p =
     (if tk_status p = -1 then (Inr buf, t, p)
      else if tk_status p = 8 then (let (ret, t') = tls_app_data buf t in (Inr ret, t', p))
      else if length buf \<ge> 65536 then (Inl StructError, t, p)
      else
        (let p1 = (if length buf > 0
                   then p\<lparr>tk_send_buffer := tk_send_buffer p @ tls_record buf\<rparr> else p)
         in case p_server_info p1 of
              None \<Rightarrow>
                (if tk_status p1 = 0 then (Inl AttributeError, t, p1\<lparr>tk_status := 1\<rparr>)
                 else if tk_status p1 = 1 \<and> length buf = 0 then (Inl AttributeError, t, p1)
                 else (Inr [], t, p1))
            | Some i \<Rightarrow>
                (if tk_status p1 = 0 then
                   (let (data, d, t') = tls_client_hello hl now i t
                    in (data, t', p1\<lparr>tk_status := 1, p_server_info := Some (i\<lparr>si_data := d\<rparr>)\<rparr>))
                 else if tk_status p1 = 1 \<and> length buf = 0 then
                   (let (data, t') = tls_client_finish hl i t
                    in (Inr (data @ tk_send_buffer p1), t', p1\<lparr>tk_send_buffer := [], tk_status := 8\<rparr>))
                 else (Inr [], t, p1))))"

datatype tls_error = AppDataError

text \<open>One round of the client's loop over the received records, which checks the type only, and of
  the server's, which checks the version too.\<close>

definition tls_client_step :: "unit \<Rightarrow> bytes \<Rightarrow> (unit, bytes, tls_error) frame_step" where
  "tls_client_step st rb =
     (if length rb > 5 then
        (if ordb (rb ! 0) \<noteq> 0x17 then Bad AppDataError
         else
           (let size = be_val (py_sub rb 3 5)
            in if length rb < size + 5 then More else Frame (py_sub rb 5 (size + 5)) () (size + 5)))
      else More)"

definition tls_server_step :: "unit \<Rightarrow> bytes \<Rightarrow> (unit, bytes, tls_error) frame_step" where
  "tls_server_step st rb =
     (if length rb > 5 then
        (if ordb (rb ! 0) \<noteq> 0x17 \<or> ordb (rb ! 1) \<noteq> 0x3 \<or> ordb (rb ! 2) \<noteq> 0x3 then Bad AppDataError
         else
           (let size = be_val (py_sub rb 3 5)
            in if length rb < size + 5 then More else Frame (py_sub rb 5 (size + 5)) () (size + 5)))
      else More)"

definition tls_client_decode :: "hash_lib \<Rightarrow> bytes \<Rightarrow> tls_ticket_auth
    \<Rightarrow> (bytes \<times> bool) res \<times> tls_ticket_auth" where
  "tls_client_decode hl buf p =
     (if tk_status p = -1 then (Inr (buf, False), p)
      else if tk_status p = 8 then
        (case drain tls_client_step () (tk_recv_buffer p @ buf) of
           Drained _ r ps \<Rightarrow> (Inr (concat ps, False), p\<lparr>tk_recv_buffer := r\<rparr>)
         | Broken e _ r ps \<Rightarrow> (Inl (Exc ''server_decode appdata error''), p\<lparr>tk_recv_buffer := r\<rparr>)
         | Endless \<Rightarrow> (Inl NoReturn, p))
      else if length buf < 11 + 32 + 1 + 32 then (Inl (Exc ''client_decode data error''), p)
      else
        (case p_server_info p of
           None \<Rightarrow> (Inl AttributeError, p)
         | Some i \<Rightarrow>
             (let key = si_key i @ td_client_id (si_data i)
              in if take 10 (hmac hl SHA1 key (py_sub buf 11 33)) \<noteq> py_sub buf 33 43
                 then (Inl (Exc ''client_decode data error''), p)
                 else if take 10 (hmac hl SHA1 key (take (length buf - 10) buf)) \<noteq> drop (length buf - 10) buf
                 then (Inl (Exc ''client_decode data error''), p)
                 else (Inr ([], True), p))))"

subsection \<open>The server\<close>

definition tls_session_ticket :: "tape \<Rightarrow> bytes \<times> tape" where
  "tls_session_ticket t =
     (let (r, t1) = urandom 2 t;
          (b, t2) = urandom ((be_val r mod 164) * 2 + 64) t1
      in ([CHR 0x16] @ tls_version @ be16 (length b + 4) @ [CHR 0x04, CHR 0x00] @ be16 (length b) @ b,
          t2))"

definition tls_server_hello :: "hash_lib \<Rightarrow> time \<Rightarrow> tls_data server_info \<Rightarrow> bytes \<Rightarrow> tape
    \<Rightarrow> bytes res \<times> tape" where
  "tls_server_hello hl now i client_id t =
     (let (auth, t1) = tls_pack_auth_data hl now (si_key i) client_id t;
          data = tls_version @ auth @ [CHR 0x20] @ client_id @ hexs ''c02f000005ff01000100'';
          (k, t2) = randint 0 8 t1;
          (ticket, t3) = (if k < 1 then tls_session_ticket t2 else ([], t2));
          (f, t4) = randint 0 1 t3;
          finish_len = [32, 40] ! f;
          (r, t5) = urandom (finish_len - 10) t4
      in (rbind (pack_be16 (length data)) (\<lambda>l1.
          let data1 = [CHR 0x02, CHR 0x00] @ l1 @ data
          in rbind (pack_be16 (length data1)) (\<lambda>l2.
             let data2 = [CHR 0x16] @ tls_version @ l2 @ data1 @ ticket
                   @ [CHR 0x14] @ tls_version @ [CHR 0x00, CHR 0x01, CHR 0x01]
                   @ [CHR 0x16] @ tls_version @ be16 finish_len @ r
             in Inr (data2 @ take 10 (hmac hl SHA1 (si_key i @ client_id) data2)))), t5))"

definition tls_server_encode :: "hash_lib \<Rightarrow> time \<Rightarrow> bytes \<Rightarrow> tape \<Rightarrow> tls_ticket_auth
    \<Rightarrow> bytes res \<times> tape \<times> tls_ticket_auth" where
  "tls_server_encode hl now buf t p =
     (if tk_status p = -1 then (Inr buf, t, p)
      else if tk_status p AND 8 = 8 then (let (ret, t') = tls_app_data buf t in (Inr ret, t', p))
      else
        (let p1 = p\<lparr>tk_status := tk_status p OR 8\<rparr>
         in case p_server_info p1 of
              None \<Rightarrow> (Inl AttributeError, t, p1)
            | Some i \<Rightarrow>
                (case tls_server_hello hl now i (tk_client_id p1) t of
                   (Inl e, t1) \<Rightarrow> (Inl e, t1, p1)
                 | (Inr data, t1) \<Rightarrow>
                     (if buf \<noteq> [] then (let (ret, t2) = tls_app_data buf t1 in (Inr (data @ ret), t2, p1))
                      else (Inr data, t1, p1)))))"

type_synonym decoded = "bytes \<times> bool \<times> bool"

definition decode_error_return :: "bytes \<Rightarrow> tls_ticket_auth \<Rightarrow> decoded res \<times> tls_ticket_auth" where
  "decode_error_return buf p =
     (let p1 = p\<lparr>tk_status := -1, tk_overhead := 0,
                 p_server_info := (if tk_overhead p > 0
                   then map_option (\<lambda>i. i\<lparr>si_overhead := si_overhead i - tk_overhead p\<rparr>) (p_server_info p)
                   else p_server_info p)\<rparr>
      in (Inr (if p_method p1 \<in> {''tls1.2_ticket_auth'', ''tls1.2_ticket_fastauth''}
               then (decoy, False, False) else (buf, True, False)), p1))"

definition tls_server_app :: "bytes \<Rightarrow> tls_ticket_auth \<Rightarrow> decoded res \<times> tls_ticket_auth" where
  "tls_server_app buf p =
     (case drain tls_server_step () (tk_recv_buffer p @ buf) of
        Drained _ r ps \<Rightarrow> (Inr (concat ps, True, False), p\<lparr>tk_recv_buffer := r\<rparr>)
      | Broken e _ r ps \<Rightarrow> (Inl (Exc ''server_decode appdata error''), p\<lparr>tk_recv_buffer := r\<rparr>)
      | Endless \<Rightarrow> (Inl NoReturn, p))"

definition tls_data_error :: "'a res" where
  "tls_data_error = Inl (Exc ''server_decode data error'')"

definition tls_server_finish :: "hash_lib \<Rightarrow> bytes \<Rightarrow> tls_ticket_auth \<Rightarrow> decoded res \<times> tls_ticket_auth" where
  "tls_server_finish hl data p0 =
     (let verify = tk_recv_buffer p0 @ data;
          p = p0\<lparr>tk_recv_buffer := verify\<rparr>
      in if length verify < 11 then (tls_data_error, p)
         else if \<not> match_begin verify ([CHR 0x14] @ tls_version @ [CHR 0x00, CHR 0x01, CHR 0x01])
         then (tls_data_error, p)
         else
           (let buf = drop 6 verify
            in if \<not> match_begin buf ([CHR 0x16] @ tls_version @ [CHR 0x00]) then (tls_data_error, p)
               else
                 (let verify_len = be_val (py_sub buf 3 5) + 1
                  in if length verify < verify_len + 10 then (Inr ([], False, False), p)
                     else
                       (case p_server_info p of
                          None \<Rightarrow> (Inl AttributeError, p)
                        | Some i \<Rightarrow>
                            (if take 10 (hmac hl SHA1 (si_key i @ tk_client_id p) (take verify_len verify))
                                \<noteq> py_sub verify verify_len (verify_len + 10)
                             then (tls_data_error, p)
                             else tls_server_app []
                               (p\<lparr>tk_recv_buffer := drop (verify_len + 10) verify,
                                  tk_status := tk_status p OR 4\<rparr>))))))"

text \<open>The checks of a hello after its fields were cut out: the clock, the MAC, and whether it was
  seen before.\<close>

definition tls_wrong_time :: "time \<Rightarrow> int \<Rightarrow> nat \<Rightarrow> nat \<Rightarrow> bool" where
  "tls_wrong_time now max_time_dif utc_time startup_time \<longleftrightarrow>
     (let time_dif = int32 (int (utc32 now) - int utc_time)
      in max_time_dif > 0
         \<and> (time_dif < - max_time_dif \<or> time_dif > max_time_dif
            \<or> 2 * int32 (int utc_time - int startup_time) < - max_time_dif))"

definition tls_time_setting :: "'d server_info \<Rightarrow> int \<Rightarrow> int" where
  "tls_time_setting i m =
     (if si_obfs_param i \<noteq> [] then (case py_int (si_obfs_param i) of Some n \<Rightarrow> n | None \<Rightarrow> m) else m)"

definition tls_admit :: "hash_lib \<Rightarrow> time \<Rightarrow> bytes \<Rightarrow> bytes \<Rightarrow> bytes \<Rightarrow> tls_data server_info
    \<Rightarrow> tls_ticket_auth \<Rightarrow> decoded res \<times> tls_ticket_auth" where
  "tls_admit hl now ogn_buf verifyid sessionid i p0 =
     (let sha1 = take 10 (hmac hl SHA1 (si_key i @ sessionid) (take 22 verifyid))
      in case unpack_be32 (take 4 verifyid) of
           Inl e \<Rightarrow> (Inl e, p0)
         | Inr utc_time \<Rightarrow>
             (let p = p0\<lparr>tk_max_time_dif := tls_time_setting i (tk_max_time_dif p0)\<rparr>
              in if tls_wrong_time now (tk_max_time_dif p) utc_time (td_startup_time (si_data i))
                 then decode_error_return ogn_buf p
                 else if sha1 \<noteq> drop 22 verifyid then decode_error_return ogn_buf p
                 else
                   (let d = si_data i;
                        (seen, c) = lru_get now (take 22 verifyid) (td_client_data d);
                        p1 = p\<lparr>p_server_info := Some (i\<lparr>si_data := d\<lparr>td_client_data := c\<rparr>\<rparr>)\<rparr>
                    in if seen \<noteq> None \<and> seen \<noteq> Some [] then decode_error_return ogn_buf p1
                       else
                         (case lru_sweep now SWEEP_MAX_ITEMS c of
                            (Inl e, c1) \<Rightarrow>
                              (Inl e, p\<lparr>p_server_info := Some (i\<lparr>si_data := d\<lparr>td_client_data := c1\<rparr>\<rparr>)\<rparr>)
                          | (Inr _, c1) \<Rightarrow>
                              (let c2 = lru_setitem now (take 22 verifyid) sessionid c1;
                                   p2 = p\<lparr>p_server_info := Some (i\<lparr>si_data := d\<lparr>td_client_data := c2\<rparr>\<rparr>)\<rparr>
                               in if length (tk_recv_buffer p2) \<ge> 11 then
                                    (let (r, p3) = tls_server_finish hl [] p2
                                     in (rbind r (\<lambda>(ret, _, _). Inr (ret, True, True)), p3))
                                  else (Inr ([], False, True), p2))))))"

definition tls_server_read_hello :: "hash_lib \<Rightarrow> time \<Rightarrow> bytes \<Rightarrow> tls_ticket_auth
    \<Rightarrow> decoded res \<times> tls_ticket_auth" where
  "tls_server_read_hello hl now data p0 =
     (let ogn_buf = tk_recv_buffer p0 @ data;
          p = p0\<lparr>tk_recv_buffer := ogn_buf\<rparr>
      in if length ogn_buf < 3 then (Inr ([], False, False), p)
         else if \<not> match_begin ogn_buf [CHR 0x16, CHR 0x03, CHR 0x01] then decode_error_return ogn_buf p
         else
           (let buf = drop 3 ogn_buf
            in case unpack_be16 (take 2 buf) of
                 Inl e \<Rightarrow> (Inl e, p)
               | Inr header_len \<Rightarrow>
                   (if header_len > length buf - 2 then (Inr ([], False, False), p)
                    else
                      (let p1 = p\<lparr>tk_recv_buffer := drop (header_len + 5) ogn_buf, tk_status := 1\<rparr>;
                           buf1 = py_sub buf 2 (header_len + 2)
                       in if \<not> match_begin buf1 [CHR 0x01, CHR 0x00] then decode_error_return ogn_buf p1
                          else
                            (let buf2 = drop 2 buf1
                             in case unpack_be16 (take 2 buf2) of
                                  Inl e \<Rightarrow> (Inl e, p1)
                                | Inr msg_len \<Rightarrow>
                                    (if msg_len \<noteq> length buf2 - 2 then decode_error_return ogn_buf p1
                                     else
                                       (let buf3 = drop 2 buf2
                                        in if \<not> match_begin buf3 tls_version
                                           then decode_error_return ogn_buf p1
                                           else
                                             (let buf4 = drop 2 buf3; verifyid = take 32 buf4;
                                                  buf5 = drop 32 buf4
                                              in case ord_at buf5 0 of
                                                   Inl e \<Rightarrow> (Inl e, p1)
                                                 | Inr sessionid_len \<Rightarrow>
                                                     (if sessionid_len < 32 then decode_error_return ogn_buf p1
                                                      else
                                                        (let sessionid = py_sub buf5 1 (sessionid_len + 1);
                                                             p2 = p1\<lparr>tk_client_id := sessionid\<rparr>
                                                         in case p_server_info p2 of
                                                              None \<Rightarrow> (Inl AttributeError, p2)
                                                            | Some i \<Rightarrow>
                                                                tls_admit hl now ogn_buf verifyid sessionid i p2))))))))))"

definition tls_server_decode :: "hash_lib \<Rightarrow> time \<Rightarrow> bytes \<Rightarrow> tls_ticket_auth
    \<Rightarrow> decoded res \<times> tls_ticket_auth" where
  "tls_server_decode hl now buf p =
     (if tk_status p = -1 then (Inr (buf, True, False), p)
      else if tk_status p AND 4 = 4 then tls_server_app buf p
      else if tk_status p AND 1 = 1 then tls_server_finish hl buf p
      else tls_server_read_hello hl now buf p)"

subsection \<open>Records survive any cuts\<close>

lemma tls_client_frame_stream: "frame_stream tls_client_step"
proof
  fix st st' :: unit and buf ext p n and e
  show "tls_client_step st buf = Frame p st' n \<Longrightarrow> 0 < n \<and> n \<le> length buf"
    by (auto simp: tls_client_step_def Let_def split: if_splits)
  show "tls_client_step st buf = Frame p st' n \<Longrightarrow> tls_client_step st (buf @ ext) = Frame p st' n"
    by (auto simp: tls_client_step_def Let_def py_sub_append nth_append split: if_splits)
  show "tls_client_step st buf = Bad e \<Longrightarrow> tls_client_step st (buf @ ext) = Bad e"
    by (auto simp: tls_client_step_def Let_def py_sub_append nth_append split: if_splits)
qed

lemma tls_server_frame_stream: "frame_stream tls_server_step"
proof
  fix st st' :: unit and buf ext p n and e
  show "tls_server_step st buf = Frame p st' n \<Longrightarrow> 0 < n \<and> n \<le> length buf"
    by (auto simp: tls_server_step_def Let_def split: if_splits)
  show "tls_server_step st buf = Frame p st' n \<Longrightarrow> tls_server_step st (buf @ ext) = Frame p st' n"
    by (auto simp: tls_server_step_def Let_def py_sub_append nth_append split: if_splits)
  show "tls_server_step st buf = Bad e \<Longrightarrow> tls_server_step st (buf @ ext) = Bad e"
    by (auto simp: tls_server_step_def Let_def py_sub_append nth_append split: if_splits)
qed

interpretation tc: frame_stream tls_client_step
  by (rule tls_client_frame_stream)

interpretation ts: frame_stream tls_server_step
  by (rule tls_server_frame_stream)

lemma tls_steps_Nil [simp]: "tls_client_step st [] = More" "tls_server_step st [] = More"
  by (simp_all add: tls_client_step_def tls_server_step_def)

lemma tls_record_fields:
  "py_sub (tls_record c) 3 5 = be16 (length c)" "py_sub (tls_record c) 5 (length c + 5) = c"
  "length (tls_record c) = length c + 5"
proof -
  show "py_sub (tls_record c) 3 5 = be16 (length c)"
    using py_sub_exact [of "[CHR 0x17] @ tls_version" 3 "be16 (length c)" 5 c]
    by (simp add: tls_record_def tls_version_def)
  show "py_sub (tls_record c) 5 (length c + 5) = c"
    using py_sub_exact_end [of "[CHR 0x17] @ tls_version @ be16 (length c)" 5 c "length c + 5"]
    by (simp add: tls_record_def tls_version_def)
  show "length (tls_record c) = length c + 5" by (simp add: tls_record_def tls_version_def)
qed

lemma tls_record_steps:
  assumes "0 < length c" and "length c < 65536"
  shows "tls_client_step () (tls_record c) = Frame c () (length (tls_record c))"
    and "tls_server_step () (tls_record c) = Frame c () (length (tls_record c))"
proof -
  have "ordb (tls_record c ! 0) = 0x17" "ordb (tls_record c ! 1) = 3" "ordb (tls_record c ! 2) = 3"
    by (simp_all add: tls_record_def tls_version_def nth_Cons')
  then show "tls_client_step () (tls_record c) = Frame c () (length (tls_record c))"
    and "tls_server_step () (tls_record c) = Frame c () (length (tls_record c))"
    using assms by (simp_all add: tls_client_step_def tls_server_step_def tls_record_fields)
qed

definition tls_framed :: "bytes \<Rightarrow> bytes \<Rightarrow> bool" where
  "tls_framed w buf \<longleftrightarrow> (\<exists>fs. w = concat (map fst fs) \<and> concat (map snd fs) = buf
     \<and> framed tls_client_step () fs () \<and> framed tls_server_step () fs ())"

lemma tls_framed_Nil: "tls_framed [] []"
  unfolding tls_framed_def by (rule exI [of _ "[]"]) simp

lemma tls_framed_record: "0 < length c \<Longrightarrow> length c < 65536 \<Longrightarrow> tls_framed (tls_record c) c"
  unfolding tls_framed_def by (rule exI [of _ "[(tls_record c, c)]"]) (simp add: tls_record_steps)

lemma tls_framed_append:
  assumes "tls_framed w buf" and "tls_framed w' buf'"
  shows "tls_framed (w @ w') (buf @ buf')"
proof -
  obtain fs gs where "w = concat (map fst fs)" "concat (map snd fs) = buf"
      "framed tls_client_step () fs ()" "framed tls_server_step () fs ()"
      "w' = concat (map fst gs)" "concat (map snd gs) = buf'"
      "framed tls_client_step () gs ()" "framed tls_server_step () gs ()"
    using assms unfolding tls_framed_def by blast
  then show ?thesis unfolding tls_framed_def by (intro exI [of _ "fs @ gs"]) (auto simp: framed_append)
qed

lemma tls_app_data_framed: "tls_framed (fst (tls_app_data buf t)) buf"
proof (induction buf t rule: tls_app_data.induct)
  case (1 buf t)
  show ?case
  proof (cases "length buf > 2048")
    case True
    obtain r t1 where r: "urandom 2 t = (r, t1)" by fastforce
    let ?n = "min (be_val r mod 4096 + 100) (length buf)"
    have "be_val r mod 4096 + 100 < 65536"
      using pos_mod_bound [of 4096 "int (be_val r)"] by (simp add: zmod_int [symmetric])
    moreover have "0 < length buf" using True by linarith
    ultimately have "tls_framed (tls_record (take ?n buf)) (take ?n buf)"
      by (intro tls_framed_record) auto
    moreover have "tls_framed (fst (tls_app_data (drop ?n buf) t1)) (drop ?n buf)"
      using "1.IH" [OF True r [symmetric] refl refl] by (simp add: r)
    ultimately have "tls_framed (tls_record (take ?n buf) @ fst (tls_app_data (drop ?n buf) t1)) buf"
      using tls_framed_append by fastforce
    then show ?thesis using True r by (simp add: tls_app_data.simps [of buf t] Let_def split_def)
  next
    case False
    then show ?thesis
      using tls_framed_record [of buf] tls_framed_Nil by (simp add: tls_app_data.simps [of buf t])
  qed
qed

definition tls_open :: "tls_ticket_auth \<Rightarrow> bytes \<Rightarrow> bool" where
  "tls_open p r \<longleftrightarrow> tk_status p \<noteq> -1 \<and> tk_status p AND 4 = 4 \<and> tk_recv_buffer p = r"

lemma tls_server_feed:
  assumes "receive tls_server_step () r cs = Drained () r' ps" and "tls_open p r"
  shows "\<exists>outs p'. feed_all (tls_server_decode hl now) cs p = (Inr outs, p')
     \<and> concat (map fst outs) = concat ps \<and> tls_open p' r'"
  by (rule feed_all_receive [where rel = "\<lambda>p st r. tls_open p r" and step = tls_server_step, OF _ assms])
     (auto simp: tls_server_decode_def tls_server_app_def tls_open_def)

lemma tls_client_feed:
  assumes "receive tls_client_step () r cs = Drained () r' ps" and "tk_status p = 8" and "tk_recv_buffer p = r"
  shows "\<exists>outs p'. feed_all (tls_client_decode hl) cs p = (Inr outs, p')
     \<and> concat (map fst outs) = concat ps \<and> tk_status p' = 8 \<and> tk_recv_buffer p' = r'"
  using feed_all_receive [where rel = "\<lambda>p st r. tk_status p = 8 \<and> tk_recv_buffer p = r"
      and f = "tls_client_decode hl" and val = fst, OF _ assms(1)] assms(2,3)
  by (auto simp: tls_client_decode_def)

lemma tls_encode_all_framed:
  assumes "\<And>b t. f b t p = (let (ret, t') = tls_app_data b t in (Inr ret, t', p))"
  shows "\<exists>ws t'. encode_all f bs t p = (Inr ws, t', p) \<and> tls_framed (concat ws) (concat bs)"
proof (induction bs arbitrary: t)
  case (Cons b bs)
  obtain w t1 where w: "tls_app_data b t = (w, t1)" by fastforce
  then have "tls_framed w b" using tls_app_data_framed [of b t] by simp
  moreover obtain ws t' where ws: "encode_all f bs t1 p = (Inr ws, t', p)" "tls_framed (concat ws) (concat bs)"
    using Cons.IH by blast
  moreover have "encode_all f (b # bs) t p = (Inr (w # ws), t', p)" using assms w ws(1) by simp
  ultimately show ?case using tls_framed_append by fastforce
qed (simp add: tls_framed_Nil)

lemma tls_framed_drain:
  assumes "tls_framed w buf" and "concat cs = w"
  shows "\<exists>ps. receive tls_client_step () [] cs = Drained () [] ps \<and> concat ps = buf"
    and "\<exists>ps. receive tls_server_step () [] cs = Drained () [] ps \<and> concat ps = buf"
proof -
  obtain fs where fs: "w = concat (map fst fs)" "concat (map snd fs) = buf"
      "framed tls_client_step () fs ()" "framed tls_server_step () fs ()"
    using assms(1) unfolding tls_framed_def by blast
  have eq: "concat cs = concat (map fst fs)" using fs(1) assms(2) by simp
  show "\<exists>ps. receive tls_client_step () [] cs = Drained () [] ps \<and> concat ps = buf"
    using tc.receive_framed [OF fs(3) _ _ eq] fs(2) by auto
  show "\<exists>ps. receive tls_server_step () [] cs = Drained () [] ps \<and> concat ps = buf"
    using ts.receive_framed [OF fs(4) _ _ eq] fs(2) by auto
qed

text \<open>C7. Once the handshake is over, both directions of a TLS-like connection are transparent:
  whatever is written, however it is cut into records by the random sizes and into chunks by the
  network, the other side takes every chunk without an exception and delivers exactly what was
  written, with empty buffers at the end.\<close>

theorem tls_app_roundtrip:
  assumes "tk_status c = 8" and "tk_recv_buffer c = []"
    and "tk_status s \<noteq> -1" and "tk_status s AND 4 = 4" and "tk_status s AND 8 = 8"
    and "tk_recv_buffer s = []"
  shows "\<exists>up t' down t''. encode_all (tls_client_encode hl now) bufs t c = (Inr up, t', c)
     \<and> encode_all (tls_server_encode hl now') bufs' t' s = (Inr down, t'', s)
     \<and> (\<forall>cs. concat cs = concat up \<longrightarrow>
          (\<exists>outs s'. feed_all (tls_server_decode hl now') cs s = (Inr outs, s')
             \<and> concat (map fst outs) = concat bufs \<and> tk_recv_buffer s' = []))
     \<and> (\<forall>cs. concat cs = concat down \<longrightarrow>
          (\<exists>outs c'. feed_all (tls_client_decode hl) cs c = (Inr outs, c')
             \<and> concat (map fst outs) = concat bufs' \<and> tk_recv_buffer c' = []))"
proof -
  obtain up t' where up: "encode_all (tls_client_encode hl now) bufs t c = (Inr up, t', c)"
      "tls_framed (concat up) (concat bufs)"
    using tls_encode_all_framed [of "tls_client_encode hl now" c bufs t] assms(1)
    by (auto simp: tls_client_encode_def)
  obtain down t'' where down: "encode_all (tls_server_encode hl now') bufs' t' s = (Inr down, t'', s)"
      "tls_framed (concat down) (concat bufs')"
    using tls_encode_all_framed [of "tls_server_encode hl now'" s bufs' t'] assms(3,5)
    by (auto simp: tls_server_encode_def)
  have op: "tls_open s []" using assms by (simp add: tls_open_def)
  have "\<exists>outs s'. feed_all (tls_server_decode hl now') cs s = (Inr outs, s')
      \<and> concat (map fst outs) = concat bufs \<and> tk_recv_buffer s' = []" if "concat cs = concat up" for cs
    using tls_framed_drain(2) [OF up(2) that] tls_server_feed [OF _ op] unfolding tls_open_def by metis
  moreover have "\<exists>outs c'. feed_all (tls_client_decode hl) cs c = (Inr outs, c')
      \<and> concat (map fst outs) = concat bufs' \<and> tk_recv_buffer c' = []" if "concat cs = concat down" for cs
    using tls_framed_drain(1) [OF down(2) that] tls_client_feed [OF _ assms(1,2)] by metis
  ultimately show ?thesis using up(1) down(1) by blast
qed

theorem tls_app_roundtrip_witness:
  "\<exists>up t'. encode_all (tls_client_encode plain_hashes 0) [''hello'', [], ''world''] []
       (tls_ticket_auth_new [] \<lparr>tk_status := 8\<rparr>) = (Inr up, t', tls_ticket_auth_new [] \<lparr>tk_status := 8\<rparr>)
     \<and> (\<exists>outs s'. feed_all (tls_server_decode plain_hashes 0) (map (\<lambda>c. [c]) (concat up))
            (tls_ticket_auth_new [] \<lparr>tk_status := 13\<rparr>) = (Inr outs, s')
          \<and> concat (map fst outs) = ''helloworld'')"
proof -
  have c: "concat (map (\<lambda>c. [c]) w) = w" for w :: bytes by (induction w) simp_all
  have "(13::int) AND 4 = 4" "(13::int) AND 8 = 8" by simp_all
  then show ?thesis
    using tls_app_roundtrip [of "tls_ticket_auth_new [] \<lparr>tk_status := 8\<rparr>" "tls_ticket_auth_new [] \<lparr>tk_status := 13\<rparr>"
        plain_hashes 0 "[''hello'', [], ''world'']" "[]" 0 "[]"]
    by (simp add: tls_ticket_auth_new_def del: encode_all.simps) (metis c)
qed

subsection \<open>The handshake\<close>

definition hello_inner :: "bytes \<Rightarrow> bytes \<Rightarrow> bytes \<Rightarrow> bytes" where
  "hello_inner verifyid sid rest = tls_version @ verifyid @ [CHR 0x20] @ sid @ rest"

definition hello_bytes :: "bytes \<Rightarrow> bytes" where
  "hello_bytes x =
     (let y = [CHR 0x01, CHR 0x00] @ be16 (length x) @ x
      in [CHR 0x16, CHR 0x03, CHR 0x01] @ be16 (length y) @ y)"

lemma tls_client_hello_shape:
  assumes "tls_client_hello hl now i t = (Inr w, d, t')"
  shows "\<exists>auth rest t1. tls_pack_auth_data hl now (si_key i) (td_client_id (si_data i)) t = (auth, t1)
    \<and> w = hello_bytes (hello_inner auth (td_client_id (si_data i)) rest)
    \<and> length (hello_inner auth (td_client_id (si_data i)) rest) + 4 < 65536
    \<and> td_client_id d = td_client_id (si_data i) \<and> td_client_data d = td_client_data (si_data i)"
proof -
  obtain auth t1 where a: "tls_pack_auth_data hl now (si_key i) (td_client_id (si_data i)) t = (auth, t1)"
    by fastforce
  obtain host t2 where h: "tls_choose_host i t1 = (host, t2)" by fastforce
  obtain name where n: "sni host = Inr name"
    using assms a h by (cases "sni host") (auto simp: tls_client_hello_def)
  obtain ticket d' t3 where k: "tls_ticket host (si_data i) t2 = (ticket, d', t3)"
    using prod_cases3 by blast
  have d': "td_client_id d' = td_client_id (si_data i) \<and> td_client_data d' = td_client_data (si_data i)"
    using k by (auto simp: tls_ticket_def Let_def split: option.splits prod.splits)
  let ?ext = "hexs ''ff01000100'' @ name @ hexs ''00170000'' @ hexs ''0023'' @ be16 (length ticket) @ ticket
      @ hello_ext_tail"
  let ?rest = "hello_suites @ be16 (length ?ext) @ ?ext"
  let ?x = "hello_inner auth (td_client_id (si_data i)) ?rest"
  have "w = hello_bytes ?x \<and> length ?x + 4 < 65536 \<and> d = d'"
    using assms a h n k
    by (simp add: tls_client_hello_def Let_def hello_inner_def hello_bytes_def rbind_eq_Inr
        pack_be16_def split: if_splits)
  then show ?thesis using a d' by blast
qed

lemma tls_pack_auth_fields:
  assumes "tls_pack_auth_data hl now key cid t = (auth, t')" and "hash_sizes hl"
  shows "length auth = 32" and "drop 22 auth = take 10 (hmac hl SHA1 (key @ cid) (take 22 auth))"
    and "take 4 auth = be32 (utc32 now)"
proof -
  obtain r where r: "urandom 18 t = (r, t')" "auth = (be32 (utc32 now) @ r)
      @ take 10 (hmac hl SHA1 (key @ cid) (be32 (utc32 now) @ r))"
    using assms(1) by (auto simp: tls_pack_auth_data_def Let_def split: prod.splits)
  have len: "length r = 18" by (rule urandom_length [OF r(1)])
  show "length auth = 32" "drop 22 auth = take 10 (hmac hl SHA1 (key @ cid) (take 22 auth))"
    "take 4 auth = be32 (utc32 now)"
    using len by (simp_all add: r(2) hash_sizes_lengths [OF assms(2)])
qed

lemma tls_read_hello:
  assumes "tk_recv_buffer p = []" and "length verifyid = 32" and "length sid = 32"
    and "length (hello_inner verifyid sid rest) + 4 < 65536" and "p_server_info p = Some i"
  shows "tls_server_read_hello hl now (hello_bytes (hello_inner verifyid sid rest)) p
    = tls_admit hl now (hello_bytes (hello_inner verifyid sid rest)) verifyid sid i
        (p\<lparr>tk_recv_buffer := [], tk_status := 1, tk_client_id := sid\<rparr>)"
proof -
  define x where "x = hello_inner verifyid sid rest"
  define y where "y = [CHR 0x01, CHR 0x00] @ be16 (length x) @ x"
  define z where "z = be16 (length y) @ y"
  define w where "w = hello_bytes x"
  define v where "v = verifyid @ [CHR 0x20] @ sid @ rest"
  define u where "u = [CHR 0x20] @ sid @ rest"
  have w: "w = [CHR 0x16, CHR 0x03, CHR 0x01] @ z"
    by (simp add: w_def hello_bytes_def Let_def y_def z_def)
  have l: "length y < 65536" "length x < 65536" using assms(4) by (simp_all add: y_def x_def)
  have 1: "drop 3 w = z" "drop (length y + 5) w = []" "\<not> length w < 3"
      "match_begin w [CHR 0x16, CHR 0x03, CHR 0x01]"
    unfolding w z_def by simp_all
  have 2: "unpack_be16 (take 2 z) = Inr (length y)" "length z - 2 = length y"
      "py_sub z 2 (length y + 2) = y"
    using l(1) py_sub_exact_end [of "be16 (length y)" 2 y "length y + 2"] by (simp_all add: z_def)
  have 3: "match_begin y [CHR 0x01, CHR 0x00]" "unpack_be16 (take 2 (drop 2 y)) = Inr (length x)"
      "length (drop 2 y) - 2 = length x" "drop 2 (drop 2 y) = x"
    using l(2) by (simp_all add: y_def)
  have 4: "match_begin x tls_version" "drop 2 x = v"
    by (simp_all add: x_def v_def hello_inner_def tls_version_def)
  have 5: "take 32 v = verifyid" "drop 32 v = u" using assms(2) by (simp_all add: v_def u_def)
  have 6: "ord_at u 0 = Inr 32" "py_sub u 1 (32 + 1) = sid"
    using py_sub_exact [of "[CHR 0x20]" 1 sid 33 rest] assms(3) by (simp_all add: u_def ord_at_def)
  show ?thesis
    unfolding x_def [symmetric] w_def [symmetric] tls_server_read_hello_def assms(1) append_Nil Let_def
    using 1 2 3 4 5 6 assms(5) by (simp del: drop_drop)
qed

lemma tls_time_ok:
  assumes "\<bar>floor ts - floor tc\<bar> \<le> 86400" and "floor u - 43200 \<le> floor tc"
    and "floor tc - floor u < 2147483648"
  shows "\<not> tls_wrong_time ts 86400 (utc32 tc) (utc32 u)"
proof -
  have "int32 (int (utc32 ts) - int (utc32 tc)) = floor ts - floor tc"
    using assms(1) by (intro int32_diff) linarith
  moreover have "int32 (int (utc32 tc) - int (utc32 u)) = floor tc - floor u"
    using assms(2,3) by (intro int32_diff) linarith
  ultimately show ?thesis using assms unfolding tls_wrong_time_def Let_def by linarith
qed

lemma tls_admit_accepts:
  assumes "hash_sizes hl" and auth: "tls_pack_auth_data hl tc (si_key i) sid t = (auth, t')"
    and "\<not> tls_wrong_time ts (tls_time_setting i (tk_max_time_dif p)) (utc32 tc) (td_startup_time (si_data i))"
    and "lru_ok (td_client_data (si_data i))"
    and "lookup (td_client_data (si_data i)) (take 22 auth) = None"
    and "tk_recv_buffer p = []"
  shows "\<exists>j. tls_admit hl ts w auth sid i p
      = (Inr ([], False, True), p\<lparr>tk_max_time_dif := tls_time_setting i (tk_max_time_dif p), p_server_info := Some j\<rparr>)
    \<and> si_key j = si_key i"
proof -
  let ?c = "td_client_data (si_data i)"
  have f: "drop 22 auth = take 10 (hmac hl SHA1 (si_key i @ sid) (take 22 auth))"
    "unpack_be32 (take 4 auth) = Inr (utc32 tc)"
    using tls_pack_auth_fields [OF auth assms(1)] by simp_all
  have g: "lru_get ts (take 22 auth) ?c = (None, ?c)"
    using lru_getitem_missing [OF assms(4,5)] by (simp add: lru_get_def)
  obtain r c1 where "lru_sweep ts SWEEP_MAX_ITEMS ?c = (Inr r, c1)"
    using sweep_loop_spec [OF assms(4), of ts SWEEP_MAX_ITEMS "[]"] by (auto simp: lru_sweep_def)
  then show ?thesis
    using f g assms(3,6)
    by (intro exI [of _ "i\<lparr>si_data := si_data i\<lparr>td_client_data := lru_setitem ts (take 22 auth) sid c1\<rparr>\<rparr>"])
      (simp add: tls_admit_def Let_def)
qed

lemma tls_server_hello_shape:
  assumes "hash_sizes hl" and "length cid = 32"
  shows "\<exists>w t'. tls_server_hello hl now i cid t = (Inr w, t') \<and> 76 \<le> length w
    \<and> take 10 (hmac hl SHA1 (si_key i @ cid) (py_sub w 11 33)) = py_sub w 33 43
    \<and> take 10 (hmac hl SHA1 (si_key i @ cid) (take (length w - 10) w)) = drop (length w - 10) w"
proof -
  obtain auth t1 where a: "tls_pack_auth_data hl now (si_key i) cid t = (auth, t1)" by fastforce
  note af = tls_pack_auth_fields [OF a assms(1)]
  let ?data = "tls_version @ auth @ [CHR 0x20] @ cid @ hexs ''c02f000005ff01000100''"
  obtain k t2 where k: "randint 0 8 t1 = (k, t2)" by fastforce
  obtain ticket t3 where tt: "(if k < 1 then tls_session_ticket t2 else ([], t2)) = (ticket, t3)" by fastforce
  obtain f t4 where f: "randint 0 1 t3 = (f, t4)" by fastforce
  obtain r t5 where r: "urandom ([32, 40] ! f - 10) t4 = (r, t5)" by fastforce
  let ?d1 = "[CHR 0x02, CHR 0x00] @ be16 (length ?data) @ ?data"
  let ?d2 = "[CHR 0x16] @ tls_version @ be16 (length ?d1) @ ?d1 @ ticket
      @ [CHR 0x14] @ tls_version @ [CHR 0x00, CHR 0x01, CHR 0x01]
      @ [CHR 0x16] @ tls_version @ be16 ([32, 40] ! f) @ r"
  let ?mac = "take 10 (hmac hl SHA1 (si_key i @ cid) ?d2)"
  have hx: "length (hexs ''c02f000005ff01000100'') = 10" by code_simp
  have len: "length ?data = 77" "length ?d1 = 81"
    using af(1) assms(2) hx by (simp_all add: tls_version_def)
  have w: "tls_server_hello hl now i cid t = (Inr (?d2 @ ?mac), t5)"
  proof -
    have p: "pack_be16 (length ?data) = Inr (be16 (length ?data))" "pack_be16 (length ?d1) = Inr (be16 (length ?d1))"
      using len by (simp_all add: pack_be16_def)
    show ?thesis
      unfolding tls_server_hello_def
      by (simp only: a k tt f r p Let_def prod.case rbind_simps)
  qed
  have m: "length ?mac = 10" by (rule hash_sizes_take [OF assms(1)]) simp
  let ?pre = "[CHR 0x16] @ tls_version @ be16 (length ?d1) @ [CHR 0x02, CHR 0x00] @ be16 (length ?data) @ tls_version"
  let ?post = "[CHR 0x20] @ cid @ hexs ''c02f000005ff01000100'' @ ticket
      @ [CHR 0x14] @ tls_version @ [CHR 0x00, CHR 0x01, CHR 0x01]
      @ [CHR 0x16] @ tls_version @ be16 ([32, 40] ! f) @ r @ ?mac"
  have eq: "?d2 @ ?mac = ?pre @ take 22 auth @ drop 22 auth @ ?post" by simp
  have lp: "length ?pre = 11" by (simp add: tls_version_def)
  obtain pre post where pp: "?d2 @ ?mac = pre @ take 22 auth @ drop 22 auth @ post" "length pre = 11"
    using eq lp by blast
  have s1: "py_sub (?d2 @ ?mac) 11 33 = take 22 auth" unfolding pp(1)
    by (rule py_sub_exact) (use pp(2) af(1) in simp_all)
  have s2: "py_sub (?d2 @ ?mac) 33 43 = drop 22 auth"
    unfolding pp(1) using py_sub_exact [of "pre @ take 22 auth" 33 "drop 22 auth" 43 post] pp(2) af(1)
    by simp
  have big: "76 \<le> length (?d2 @ ?mac)" using len m by simp
  obtain d2 mac where gen: "?d2 = d2" "?mac = mac" by blast
  have mac: "mac = take 10 (hmac hl SHA1 (si_key i @ cid) d2)" using gen by simp
  show ?thesis
    using w s1 s2 big m af(2) unfolding gen by (intro exI [of _ "d2 @ mac"] exI [of _ t5]) (simp add: mac)
qed

lemma tls_finish_accepted:
  assumes "hash_sizes hl" and fin: "tls_client_finish hl ic t = (fin, t')"
    and "tk_recv_buffer p = []" and "p_server_info p = Some i" and "si_key i = si_key ic"
    and "tk_client_id p = td_client_id (si_data ic)"
    and "tls_framed w buf"
  shows "tls_server_finish hl (fin @ w) p
    = (Inr (buf, True, False), p\<lparr>tk_recv_buffer := [], tk_status := tk_status p OR 4\<rparr>)"
proof -
  let ?mac = "\<lambda>d. take 10 (hmac hl SHA1 (si_key i @ tk_client_id p) d)"
  obtain r where r: "urandom 22 t = (r, t')" using fin
    by (cases "urandom 22 t") (auto simp: tls_client_finish_def Let_def)
  define ccs where "ccs = [CHR 0x14] @ tls_version @ [CHR 0x00, CHR 0x01, CHR 0x01]"
  define head where "head = [CHR 0x16] @ tls_version @ [CHR 0x00]"
  define d where "d = ccs @ head @ [CHR 0x20] @ r"
  have "fin = d @ take 10 (hmac hl SHA1 (si_key ic @ td_client_id (si_data ic)) d)"
    using fin r by (simp add: tls_client_finish_def d_def ccs_def head_def Let_def)
  then have f: "fin = d @ ?mac d" using assms(5,6) by simp
  have len: "length ccs = 6" "length head = 4" "length r = 22" "length (?mac d) = 10" "length d = 33"
    using urandom_length [OF r] hash_sizes_take [OF assms(1), of 10]
    by (simp_all add: ccs_def head_def d_def tls_version_def)
  let ?v = "fin @ w"
  have 1: "\<not> length ?v < 11" "match_begin ?v ccs" "drop 6 ?v = head @ [CHR 0x20] @ r @ ?mac d @ w"
    using len by (simp_all add: f d_def)
  have 2: "match_begin (head @ [CHR 0x20] @ r @ ?mac d @ w) head" by simp
  have "py_sub (head @ [CHR 0x20] @ r @ ?mac d @ w) 3 5 = [CHR 0x00, CHR 0x20]"
    by (simp add: head_def tls_version_def py_sub_def)
  then have 3: "be_val (py_sub (head @ [CHR 0x20] @ r @ ?mac d @ w) 3 5) + 1 = 33"
    by (simp add: be_val_def)
  have 4: "\<not> length ?v < 33 + 10" "take 33 ?v = d" "drop (33 + 10) ?v = w"
    using len by (simp_all add: f)
  have 5: "py_sub ?v 33 (33 + 10) = ?mac d"
    unfolding f using py_sub_exact [of d 33 "?mac d" 43 w] len by simp
  let ?p = "p\<lparr>tk_recv_buffer := w, tk_status := tk_status p OR 4\<rparr>"
  obtain ps where "receive tls_server_step () [] [w] = Drained () [] ps" "concat ps = buf"
    using tls_framed_drain(2) [OF assms(7), of "[w]"] by auto
  then have "drain tls_server_step () w = Drained () [] ps \<and> concat ps = buf"
    by (cases "drain tls_server_step () w") auto
  then have app: "tls_server_app [] ?p = (Inr (buf, True, False), ?p\<lparr>tk_recv_buffer := []\<rparr>)"
    by (simp add: tls_server_app_def)
  have "tls_server_finish hl ?v p = tls_server_app [] ?p"
    unfolding tls_server_finish_def Let_def assms(3) append_Nil ccs_def [symmetric] head_def [symmetric]
    using 1 2 3 4 5 assms(4) by (simp del: append_assoc)
  then show ?thesis using app by simp
qed

lemma tls_hello_admitted:
  assumes "hash_sizes hl" and "si_key is = si_key ic" and "length (td_client_id (si_data ic)) = 32"
    and "length buf < 65536"
    and hello: "tls_client_encode hl tc buf t (tls_ticket_auth_new m \<lparr>p_server_info := Some ic\<rparr>)
        = (Inr hello, t1, c1)"
    and "lru_ok (td_client_data (si_data is))"
    and "lookup (td_client_data (si_data is)) (py_sub hello 11 33) = None"
    and "si_obfs_param is = []" and "td_startup_time (si_data is) = utc32 u"
    and "\<bar>floor ts - floor tc\<bar> \<le> 86400" and "floor u - 43200 \<le> floor tc"
    and "floor tc - floor u < 2147483648"
  shows "\<exists>d j. tls_server_decode hl ts hello (tls_ticket_auth_new m' \<lparr>p_server_info := Some is\<rparr>)
        = (Inr ([], False, True), tls_ticket_auth_new m' \<lparr>tk_status := 1,
             tk_client_id := td_client_id (si_data ic), p_server_info := Some j\<rparr>)
    \<and> si_key j = si_key is \<and> td_client_id d = td_client_id (si_data ic)
    \<and> c1 = tls_ticket_auth_new m \<lparr>tk_send_buffer := (if buf = [] then [] else tls_record buf),
        tk_status := 1, p_server_info := Some (ic\<lparr>si_data := d\<rparr>)\<rparr>"
proof -
  let ?cli = "tls_ticket_auth_new m \<lparr>p_server_info := Some ic\<rparr>"
  let ?srv = "tls_ticket_auth_new m' \<lparr>p_server_info := Some is\<rparr>"
  let ?sid = "td_client_id (si_data ic)"
  let ?held = "if buf = [] then [] else tls_record buf"
  obtain d where d: "tls_client_hello hl tc ic t = (Inr hello, d, t1)"
      "c1 = ?cli\<lparr>tk_send_buffer := ?held, tk_status := 1, p_server_info := Some (ic\<lparr>si_data := d\<rparr>)\<rparr>"
    using hello assms(4)
    by (auto simp: tls_client_encode_def tls_ticket_auth_new_def Let_def split: prod.splits if_splits)
  obtain auth rest t' where a: "tls_pack_auth_data hl tc (si_key ic) ?sid t = (auth, t')"
      "hello = hello_bytes (hello_inner auth ?sid rest)" "length (hello_inner auth ?sid rest) + 4 < 65536"
      "td_client_id d = ?sid" "td_client_data d = td_client_data (si_data ic)"
    using tls_client_hello_shape [OF d(1)] by blast
  note af = tls_pack_auth_fields [OF a(1) assms(1)]
  have "py_sub hello 11 33 = take 22 auth"
  proof -
    obtain pre post where "hello = pre @ take 22 auth @ post" "length pre = 11"
    proof
      show "hello = ([CHR 0x16, CHR 0x03, CHR 0x01] @ be16 (length ([CHR 0x01, CHR 0x00]
          @ be16 (length (hello_inner auth ?sid rest)) @ hello_inner auth ?sid rest))
          @ [CHR 0x01, CHR 0x00] @ be16 (length (hello_inner auth ?sid rest)) @ tls_version)
          @ take 22 auth @ drop 22 auth @ [CHR 0x20] @ ?sid @ rest"
        unfolding a(2) hello_bytes_def Let_def by (simp add: hello_inner_def)
    qed (simp add: tls_version_def)
    then show ?thesis using af(1) by (simp add: py_sub_exact)
  qed
  then have unseen: "lookup (td_client_data (si_data is)) (take 22 auth) = None" using assms(7) by simp
  let ?srvH = "?srv\<lparr>tk_recv_buffer := [], tk_status := 1, tk_client_id := ?sid\<rparr>"
  have t: "\<not> tls_wrong_time ts (tls_time_setting is (tk_max_time_dif ?srvH)) (utc32 tc) (td_startup_time (si_data is))"
    using tls_time_ok [OF assms(10-12)] assms(8,9)
    by (simp add: tls_time_setting_def tls_ticket_auth_new_def)
  obtain j where j: "tls_admit hl ts hello auth ?sid is ?srvH
      = (Inr ([], False, True), ?srvH\<lparr>tk_max_time_dif := tls_time_setting is (tk_max_time_dif ?srvH), p_server_info := Some j\<rparr>)"
      "si_key j = si_key is"
    using tls_admit_accepts [OF assms(1) a(1) [folded assms(2)] t assms(6) unseen, of hello] by auto
  let ?srvA = "?srvH\<lparr>tk_max_time_dif := tls_time_setting is (tk_max_time_dif ?srvH), p_server_info := Some j\<rparr>"
  have "tls_server_decode hl ts hello ?srv = (Inr ([], False, True), ?srvA)"
    using tls_read_hello [OF _ af(1) assms(3) a(3), of ?srv "is" hl ts] j(1)
    by (simp add: tls_server_decode_def a(2) tls_ticket_auth_new_def)
  then show ?thesis
    using j(2) d(2) a(4) assms(8) by (auto simp: tls_ticket_auth_new_def tls_time_setting_def)
qed

text \<open>C2. The handshake succeeds for every random choice: the server admits a hello that it has not
  seen, from a client with the same key whose clock differs from its own by at most a day and is
  not more than half a day before the server's start; its answer satisfies the client, whose
  finish satisfies the server, and the data the client held back arrive. Both sides are then in the
  state of an open connection. The hello may say any host.\<close>

theorem tls_handshake:
  assumes "hash_sizes hl" and "si_key is = si_key ic" and "length (td_client_id (si_data ic)) = 32"
    and "length buf < 65536"
    and hello: "tls_client_encode hl tc buf t (tls_ticket_auth_new m \<lparr>p_server_info := Some ic\<rparr>)
        = (Inr hello, t1, c1)"
    and "lru_ok (td_client_data (si_data is))"
    and "lookup (td_client_data (si_data is)) (py_sub hello 11 33) = None"
    and "si_obfs_param is = []" and "td_startup_time (si_data is) = utc32 u"
    and "\<bar>floor ts - floor tc\<bar> \<le> 86400" and "floor u - 43200 \<le> floor tc"
    and "floor tc - floor u < 2147483648"
  shows "\<exists>s1 flight t2 s2 fin t3 c2 s3.
      tls_server_decode hl ts hello (tls_ticket_auth_new m' \<lparr>p_server_info := Some is\<rparr>)
        = (Inr ([], False, True), s1)
    \<and> tls_server_encode hl ts [] t1 s1 = (Inr flight, t2, s2)
    \<and> tls_client_decode hl flight c1 = (Inr ([], True), c1)
    \<and> tls_client_encode hl tc [] t2 c1 = (Inr fin, t3, c2)
    \<and> tls_server_decode hl ts fin s2 = (Inr (buf, True, False), s3)
    \<and> tk_status c2 = 8 \<and> tk_recv_buffer c2 = [] \<and> tk_status s3 = 13 \<and> tk_recv_buffer s3 = []"
proof -
  let ?sid = "td_client_id (si_data ic)"
  let ?held = "if buf = [] then [] else tls_record buf"
  obtain d j where 1: "tls_server_decode hl ts hello (tls_ticket_auth_new m' \<lparr>p_server_info := Some is\<rparr>)
      = (Inr ([], False, True), tls_ticket_auth_new m' \<lparr>tk_status := 1, tk_client_id := ?sid, p_server_info := Some j\<rparr>)"
      and j: "si_key j = si_key is" and d: "td_client_id d = ?sid"
      and c1: "c1 = tls_ticket_auth_new m \<lparr>tk_send_buffer := ?held, tk_status := 1,
        p_server_info := Some (ic\<lparr>si_data := d\<rparr>)\<rparr>"
    using tls_hello_admitted [OF assms, of m'] by blast
  let ?srvA = "tls_ticket_auth_new m' \<lparr>tk_status := 1, tk_client_id := ?sid, p_server_info := Some j\<rparr>"
  obtain flight t2 where fl: "tls_server_hello hl ts j ?sid t1 = (Inr flight, t2)" "76 \<le> length flight"
      "take 10 (hmac hl SHA1 (si_key j @ ?sid) (py_sub flight 11 33)) = py_sub flight 33 43"
      "take 10 (hmac hl SHA1 (si_key j @ ?sid) (take (length flight - 10) flight)) = drop (length flight - 10) flight"
    using tls_server_hello_shape [OF assms(1,3), of ts j t1] by blast
  let ?srvB = "?srvA\<lparr>tk_status := 9\<rparr>"
  have 2: "tls_server_encode hl ts [] t1 ?srvA = (Inr flight, t2, ?srvB)"
    using fl(1) by (simp add: tls_server_encode_def tls_ticket_auth_new_def)
  have 3: "tls_client_decode hl flight c1 = (Inr ([], True), c1)"
    using fl j assms(2) d by (simp add: tls_client_decode_def c1 tls_ticket_auth_new_def)
  obtain fin t3 where fin: "tls_client_finish hl (ic\<lparr>si_data := d\<rparr>) t2 = (fin, t3)" by fastforce
  let ?cliB = "c1\<lparr>tk_send_buffer := [], tk_status := 8\<rparr>"
  have 4: "tls_client_encode hl tc [] t2 c1 = (Inr (fin @ ?held), t3, ?cliB)"
    using fin by (simp add: tls_client_encode_def c1 tls_ticket_auth_new_def)
  have "tls_framed ?held buf" using tls_framed_record [of buf] assms(4) tls_framed_Nil by simp
  then have 5: "tls_server_decode hl ts (fin @ ?held) ?srvB
      = (Inr (buf, True, False), ?srvB\<lparr>tk_recv_buffer := [], tk_status := 13\<rparr>)"
    using tls_finish_accepted [OF assms(1) fin, of ?srvB j ?held buf] j assms(2) d
    by (simp add: tls_server_decode_def tls_ticket_auth_new_def)
  show ?thesis
    by (intro exI conjI, rule 1, rule 2, rule 3, rule 4, rule 5)
       (simp_all add: c1 tls_ticket_auth_new_def)
qed

lemma tls_choose_host_length:
  assumes "tls_choose_host i t = (host, t')"
  shows "length host \<le> max (length (si_obfs_param i)) (length (si_host i))"
proof -
  define h where "h = (if si_obfs_param i \<noteq> [] then si_obfs_param i else si_host i)"
  define h1 where "h1 = (if h \<noteq> [] \<and> is_digit (last h) then [] else h)"
  obtain k where k: "randint 0 (length (py_split '','' h1) - 1) t = (k, t')" "host = py_split '','' h1 ! k"
    using assms unfolding tls_choose_host_def Let_def h_def [symmetric] h1_def [symmetric]
    by (auto split: prod.splits)
  have "k < length (py_split '','' h1)"
    using randint_bounds [OF _ k(1)] by (cases "py_split '','' h1") auto
  then have "host \<in> set (py_split '','' h1)" using k(2) by simp
  moreover have "x \<in> set xs \<Longrightarrow> length x \<le> length (py_join sep xs)" for x sep and xs :: "bytes list"
    by (induction sep xs rule: py_join.induct) auto
  ultimately have "length host \<le> length h1" using py_join_split [of "'',''" h1] by metis
  then show ?thesis by (auto simp: h1_def h_def split: if_splits)
qed

text \<open>A hello is made whenever host, session id and ticket leave room in the 16-bit lengths.\<close>

lemma tls_client_hello_total:
  assumes "length (si_obfs_param i) \<le> 60000" and "length (si_host i) \<le> 60000"
    and "length (td_client_id (si_data i)) \<le> 255" and "td_ticket_buf (si_data i) = Map.empty"
    and "hash_sizes hl"
  shows "\<exists>w d t'. tls_client_hello hl now i t = (Inr w, d, t')"
proof -
  obtain auth t1 where a: "tls_pack_auth_data hl now (si_key i) (td_client_id (si_data i)) t = (auth, t1)"
    by fastforce
  obtain host t2 where h: "tls_choose_host i t1 = (host, t2)" by fastforce
  have lh: "length host \<le> 60000" using tls_choose_host_length [OF h] assms(1,2) by linarith
  obtain r ta where r: "urandom 2 t2 = (r, ta)" by fastforce
  obtain b tb where b: "urandom ((be_val r mod 17 + 8) * 16) ta = (b, tb)" by fastforce
  have lb: "length b \<le> 384" using urandom_length [OF b] mod_less_divisor [of 17 "be_val r"] by simp
  obtain name where n: "sni host = Inr name" "length name = length host + 9"
    using lh by (auto simp: sni_def pack_be16_def)
  have k: "tls_ticket host (si_data i) t2
      = (b, si_data i\<lparr>td_ticket_buf := [host \<mapsto> b]\<rparr>, tb)"
    using assms(4) r b by (simp add: tls_ticket_def)
  have hx: "length (hexs ''ff01000100'') = 5" "length (hexs ''00170000'') = 4" "length (hexs ''0023'') = 2"
      "length hello_ext_tail = 59" "length hello_suites = 32"
    by code_simp+
  let ?ext = "hexs ''ff01000100'' @ name @ hexs ''00170000'' @ hexs ''0023'' @ be16 (length b) @ b @ hello_ext_tail"
  let ?x = "(tls_version @ auth @ [CHR 0x20] @ td_client_id (si_data i) @ hello_suites) @ be16 (length ?ext) @ ?ext"
  have l: "length ?ext < 65536" "length ?x + 4 < 65536" "length b < 65536"
    using lh lb n(2) tls_pack_auth_fields(1) [OF a assms(5)] assms(3) hx by (simp_all add: tls_version_def)
  then show ?thesis
    unfolding tls_client_hello_def Let_def a h n k prod.case sum.case by (simp add: pack_be16_def)
qed

theorem tls_handshake_witness:
  "\<exists>hello t1 c1 s1. tls_client_encode plain_hashes 1000 ''GET'' [] (tls_ticket_auth_new ''tls1.2_ticket_auth''
        \<lparr>p_server_info := Some ((server_info_new (fst (tls_data_new 0 [])))\<lparr>si_host := ''h.org''\<rparr>)\<rparr>)
      = (Inr hello, t1, c1)
    \<and> tls_server_decode plain_hashes 2000 hello (tls_ticket_auth_new ''tls1.2_ticket_auth''
        \<lparr>p_server_info := Some (server_info_new (fst (tls_data_new 0 [])))\<rparr>) = (Inr ([], False, True), s1)"
proof -
  let ?d = "fst (tls_data_new 0 [])"
  let ?ic = "(server_info_new ?d)\<lparr>si_host := ''h.org''\<rparr>"
  have d: "length (td_client_id ?d) = 32" "td_ticket_buf ?d = Map.empty" "td_client_data ?d = lru_new (60 * 5)"
      "td_startup_time ?d = utc32 (- 1800)"
    by (simp_all add: tls_data_new_def urandom_def)
  obtain w d' t' where "tls_client_hello plain_hashes 1000 ?ic [] = (Inr w, d', t')"
    using tls_client_hello_total [OF _ _ _ _ plain_hashes_sizes, of ?ic 1000 "[]"] d
    by (auto simp: server_info_new_def)
  then obtain c1 where h: "tls_client_encode plain_hashes 1000 ''GET'' [] (tls_ticket_auth_new ''tls1.2_ticket_auth''
        \<lparr>p_server_info := Some ?ic\<rparr>) = (Inr w, t', c1)"
    by (simp add: tls_client_encode_def tls_ticket_auth_new_def)
  show ?thesis
    using tls_handshake [OF plain_hashes_sizes _ _ _ h, of "server_info_new ?d" "- 1800" 2000 "''tls1.2_ticket_auth''"] d h
    by (fastforce simp: server_info_new_def lookup_def lru_new_def lru_ok_def)
qed

subsection \<open>Repeated hellos\<close>

text \<open>A new connection of a port, whose first chunk is \<open>w\<close>; the ports' shared data go in and
  out.\<close>

definition tls_connect :: "hash_lib \<Rightarrow> bytes \<Rightarrow> tls_data server_info \<Rightarrow> time \<Rightarrow> bytes \<Rightarrow> tls_data
    \<Rightarrow> decoded res \<times> tls_ticket_auth" where
  "tls_connect hl m i now w d =
     tls_server_decode hl now w (tls_ticket_auth_new m \<lparr>p_server_info := Some (i\<lparr>si_data := d\<rparr>)\<rparr>)"

definition tls_data_of :: "tls_ticket_auth \<Rightarrow> tls_data" where
  "tls_data_of p = si_data (the (p_server_info p))"

fun tls_connects :: "hash_lib \<Rightarrow> (bytes \<times> tls_data server_info \<times> time \<times> bytes) list \<Rightarrow> tls_data \<Rightarrow> tls_data" where
  "tls_connects hl [] d = d"
| "tls_connects hl ((m, i, now, w) # evs) d =
     tls_connects hl evs (tls_data_of (snd (tls_connect hl m i now w d)))"

definition remembers :: "time \<Rightarrow> bytes \<Rightarrow> (bytes, bytes) lru \<Rightarrow> bool" where
  "remembers t0 vid c \<longleftrightarrow> lru_ok c \<and> timeout c = 300
     \<and> (\<exists>s v. s \<noteq> [] \<and> (vid, s, v) \<in> set (lru_abs c) \<and> t0 \<le> v)"

lemma lru_abs_lookup: "lru_ok c \<Longrightarrow> (k, s, v) \<in> set (lru_abs c) \<Longrightarrow> lookup c k = Some s"
proof -
  assume "lru_ok c" and "(k, s, v) \<in> set (lru_abs c)"
  then have s: "s = the (map_of (lru_store c) k)" and "k \<in> set (map fst (last_time c))"
    by (auto simp: lru_abs_def image_iff split: prod.splits) force
  then have "map_of (last_time c) k \<noteq> None" by (simp only: in_keys_iff not_False_eq_True)
  then have "map_of (lru_store c) k \<noteq> None" using lru_ok_keys [OF \<open>lru_ok c\<close>, of k] by simp
  then show "lookup c k = Some s" using s by (auto simp: lookup_def)
qed

lemma remembers_get:
  assumes "remembers t0 vid c" and "t0 \<le> now"
  shows "remembers t0 vid (snd (lru_get now k c))"
    and "k = vid \<Longrightarrow> \<exists>s. s \<noteq> [] \<and> fst (lru_get now k c) = Some s"
proof -
  obtain s v where sv: "lru_ok c" "timeout c = 300" "s \<noteq> []" "(vid, s, v) \<in> set (lru_abs c)" "t0 \<le> v"
    using assms(1) by (auto simp: remembers_def)
  have l: "lookup c vid = Some s" by (rule lru_abs_lookup [OF sv(1,4)])
  show "k = vid \<Longrightarrow> \<exists>s. s \<noteq> [] \<and> fst (lru_get now k c) = Some s"
    using lru_abs_getitem [OF sv(1) l, of now] sv(3) by (auto simp: lru_get_def)
  show "remembers t0 vid (snd (lru_get now k c))"
  proof (cases "lookup c k")
    case None
    then show ?thesis using lru_getitem_missing [OF sv(1) None, of now] assms(1) by (simp add: lru_get_def)
  next
    case (Some x)
    then obtain c' where c': "lru_getitem now k c = (Inr x, c')" "lru_abs c' = without k (lru_abs c) @ [(k, x, now)]"
        "lru_ok c'" "timeout c' = timeout c"
      using lru_abs_getitem [OF sv(1) Some, of now] by auto
    have "\<exists>v'. (vid, s, v') \<in> set (lru_abs c') \<and> t0 \<le> v'"
    proof (cases "k = vid")
      case True
      then show ?thesis using c'(2) Some l assms(2) by auto
    next
      case False
      then have "(vid, s, v) \<in> set (without k (lru_abs c))" using sv(4) by (simp add: without_def)
      then show ?thesis using c'(2) sv(5) by auto
    qed
    then show ?thesis using c' sv by (auto simp: remembers_def lru_get_def)
  qed
qed

lemma remembers_sweep:
  assumes "remembers t0 vid c" and "now \<le> t0 + 300"
  shows "\<exists>r c'. lru_sweep now n c = (Inr r, c') \<and> remembers t0 vid c'"
proof -
  obtain s v where sv: "lru_ok c" "timeout c = 300" "s \<noteq> []" "(vid, s, v) \<in> set (lru_abs c)" "t0 \<le> v"
    using assms(1) by (auto simp: remembers_def)
  let ?gone = "take n (takeWhile (expired c now) (lru_abs c))"
  obtain c' where c': "sweep_loop now n [] c = (Inr (map (fst \<circ> snd) ?gone), c')"
      "lru_abs c' = drop (length ?gone) (lru_abs c)" "lru_ok c'" "timeout c' = timeout c"
    using sweep_loop_spec [OF sv(1), of now n "[]"] by auto
  have "\<not> expired c now (vid, s, v)" using sv(2,5) assms(2) by (simp add: expired_def)
  then have "(vid, s, v) \<notin> set ?gone" using set_takeWhileD by (metis in_set_takeD)
  moreover have "lru_abs c = ?gone @ drop (length ?gone) (lru_abs c)"
  proof -
    have "?gone = take (length ?gone) (lru_abs c)"
      by (metis append_eq_conv_conj append_take_drop_id takeWhile_dropWhile_id append.assoc)
    then show ?thesis by (metis append_take_drop_id)
  qed
  ultimately have "(vid, s, v) \<in> set (lru_abs c')" using sv(4) c'(2) by (metis Un_iff set_append)
  then show ?thesis using c' sv by (auto simp: lru_sweep_def remembers_def)
qed

lemma remembers_set_other:
  assumes "remembers t0 vid c" and "k \<noteq> vid"
  shows "remembers t0 vid (lru_setitem now k x c)"
proof -
  have "timeout (lru_setitem now k x c) = timeout c" by (simp add: lru_setitem_def)
  then show ?thesis
    using assms unfolding remembers_def by (auto simp: lru_ok_setitem lru_abs_setitem without_def)
qed

lemma remembers_set:
  assumes "lru_ok c" and "timeout c = 300" and "x \<noteq> []"
  shows "remembers now vid (lru_setitem now vid x c)"
proof -
  have "timeout (lru_setitem now vid x c) = 300" using assms(2) by (simp add: lru_setitem_def)
  then show ?thesis using assms by (auto simp: remembers_def lru_ok_setitem lru_abs_setitem)
qed

text \<open>What a refusal and the later stages of the handshake do to the shared data: nothing.\<close>

lemma decode_error_data:
  "p_server_info p = Some i \<Longrightarrow> si_data (the (p_server_info (snd (decode_error_return w p)))) = si_data i"
  by (auto simp: decode_error_return_def Let_def)

lemma decode_error_result:
  "fst (decode_error_return w p) =
     Inr (if p_method p \<in> {''tls1.2_ticket_auth'', ''tls1.2_ticket_fastauth''}
          then (decoy, False, False) else (w, True, False))"
  "tk_status (snd (decode_error_return w p)) = -1"
  by (simp_all add: decode_error_return_def Let_def)

lemma tls_server_app_info [simp]:
  "p_server_info (snd (tls_server_app b p)) = p_server_info p"
  "tk_client_id (snd (tls_server_app b p)) = tk_client_id p"
  by (simp_all add: tls_server_app_def split: drained.split)

lemma tls_server_finish_info [simp]:
  "p_server_info (snd (tls_server_finish hl b p)) = p_server_info p"
  "tk_client_id (snd (tls_server_finish hl b p)) = tk_client_id p"
  by (simp_all add: tls_server_finish_def Let_def split: option.split)

definition tls_cache_ok :: "tls_data \<Rightarrow> bool" where
  "tls_cache_ok d \<longleftrightarrow> lru_ok (td_client_data d) \<and> timeout (td_client_data d) = 300"

lemma tls_admit_remembers:
  assumes "remembers t0 vid (td_client_data (si_data i))" and "p_server_info p = Some i"
    and "t0 \<le> now" and "now \<le> t0 + 300"
  shows "remembers t0 vid (td_client_data (tls_data_of (snd (tls_admit hl now w verifyid sid i p))))"
    and "take 22 verifyid = vid \<Longrightarrow> length verifyid \<ge> 4 \<Longrightarrow>
      fst (tls_admit hl now w verifyid sid i p) = fst (decode_error_return w p)
      \<and> tk_status (snd (tls_admit hl now w verifyid sid i p)) = -1"
proof -
  let ?c = "td_client_data (si_data i)"
  obtain seen c where g: "lru_get now (take 22 verifyid) ?c = (seen, c)" by fastforce
  have rc: "remembers t0 vid c" using remembers_get(1) [OF assms(1,3), of "take 22 verifyid"] g by simp
  obtain r c1 where sw: "lru_sweep now SWEEP_MAX_ITEMS c = (Inr r, c1)" "remembers t0 vid c1"
    using remembers_sweep [OF rc assms(4)] by blast
  have same: "seen \<noteq> None \<and> seen \<noteq> Some []" if "take 22 verifyid = vid"
    using remembers_get(2) [OF assms(1,3) that] g by auto
  have d: "tls_data_of p = si_data i" using assms(2) by (simp add: tls_data_of_def)
  show "remembers t0 vid (td_client_data (tls_data_of (snd (tls_admit hl now w verifyid sid i p))))"
  proof (cases "take 22 verifyid = vid")
    case True
    then show ?thesis
      using same g rc assms(1,2)
      by (simp add: tls_admit_def Let_def decode_error_data tls_data_of_def split: sum.split)
  next
    case False
    have rs: "remembers t0 vid (lru_setitem now (take 22 verifyid) sid c1)"
      by (rule remembers_set_other [OF sw(2) False])
    show ?thesis
      using g rc sw(1) rs assms(1,2)
      by (simp add: tls_admit_def Let_def decode_error_data tls_data_of_def split_beta split: sum.split)
  qed
  show "take 22 verifyid = vid \<Longrightarrow> length verifyid \<ge> 4 \<Longrightarrow>
      fst (tls_admit hl now w verifyid sid i p) = fst (decode_error_return w p)
      \<and> tk_status (snd (tls_admit hl now w verifyid sid i p)) = -1"
    using same g by (simp add: tls_admit_def Let_def decode_error_result unpack_be32_def)
qed

lemma tls_connect_remembers:
  assumes "remembers t0 vid (td_client_data d)" and "t0 \<le> now" and "now \<le> t0 + 300"
  shows "remembers t0 vid (td_client_data (tls_data_of (snd (tls_connect hl m i now w d))))"
  using assms
  by (simp add: tls_connect_def tls_server_decode_def tls_ticket_auth_new_def tls_server_read_hello_def
      Let_def decode_error_data tls_data_of_def split: sum.split)
    (intro conjI allI impI tls_admit_remembers(1) [unfolded tls_data_of_def]; simp)

lemma tls_connects_remembers:
  assumes "remembers t0 vid (td_client_data d)"
    and "\<forall>(m, i, now, w) \<in> set evs. t0 \<le> now \<and> now \<le> t0 + 300"
  shows "remembers t0 vid (td_client_data (tls_connects hl evs d))"
  using assms
proof (induction evs arbitrary: d)
  case (Cons ev evs)
  obtain m i now w where "ev = (m, i, now, w)" using prod_cases4 by blast
  then show ?case using Cons tls_connect_remembers [of t0 vid d now hl m i w] by simp
qed simp

text \<open>A hello that is admitted was cut into the same fields whatever the connection.\<close>

lemma tls_read_hello_fields:
  assumes "tls_server_read_hello hl now w p = (Inr (x, y, True), p')" and "tk_recv_buffer p = []"
    and "p_server_info p = Some i"
  shows "\<exists>verifyid sid rb. length verifyid \<ge> 4
    \<and> (\<forall>hl now p i. tk_recv_buffer p = [] \<longrightarrow> p_server_info p = Some i \<longrightarrow>
        tls_server_read_hello hl now w p = tls_admit hl now w verifyid sid i
          (p\<lparr>tk_recv_buffer := rb, tk_status := 1, tk_client_id := sid\<rparr>))"
proof -
  let ?buf = "drop 3 w"
  have err: "decode_error_return b q \<noteq> (Inr (x, y, True), p')" for b q
    by (auto simp: decode_error_return_def Let_def)
  obtain n where n: "\<not> length w < 3" "match_begin w [CHR 0x16, CHR 0x03, CHR 0x01]"
      "unpack_be16 (take 2 ?buf) = Inr n" "\<not> n > length ?buf - 2"
    using assms err by (auto simp: tls_server_read_hello_def Let_def split: if_splits sum.splits)
  let ?b1 = "py_sub ?buf 2 (n + 2)"
  obtain l where l: "match_begin ?b1 [CHR 0x01, CHR 0x00]" "unpack_be16 (take 2 (drop 2 ?b1)) = Inr l"
      "l = length (drop 2 ?b1) - 2" "match_begin (drop 2 (drop 2 ?b1)) tls_version"
    using assms err n by (auto simp: tls_server_read_hello_def Let_def split: if_splits sum.splits)
  let ?b4 = "drop 2 (drop 2 (drop 2 ?b1))"
  obtain k where k: "ord_at (drop 32 ?b4) 0 = Inr k" "\<not> k < 32"
    using assms err n l by (auto simp: tls_server_read_hello_def Let_def split: if_splits sum.splits)
  have "length (take 32 ?b4) \<ge> 4" using k(1) by (simp add: ord_at_def split: if_splits)
  moreover have "tls_server_read_hello hl now w p = tls_admit hl now w (take 32 ?b4)
      (py_sub (drop 32 ?b4) 1 (k + 1)) i (p\<lparr>tk_recv_buffer := drop (n + 5) w, tk_status := 1,
        tk_client_id := py_sub (drop 32 ?b4) 1 (k + 1)\<rparr>)"
    if "tk_recv_buffer p = []" and "p_server_info p = Some i" for hl now p i
    using n l k that by (simp add: tls_server_read_hello_def Let_def del: drop_drop)
  ultimately show ?thesis by blast
qed

lemma tls_admit_accepted:
  assumes "tls_admit hl now w verifyid sid i p = (Inr (x, y, True), p')"
    and "tls_cache_ok (si_data i)" and "tk_client_id p' \<noteq> []" and "tk_client_id p = sid"
  shows "remembers now (take 22 verifyid) (td_client_data (tls_data_of p'))"
proof -
  let ?c = "td_client_data (si_data i)"
  have err: "decode_error_return b q \<noteq> (Inr (x, y, True), p')" for b q
    by (auto simp: decode_error_return_def Let_def)
  obtain seen c where g: "lru_get now (take 22 verifyid) ?c = (seen, c)" by fastforce
  have ok: "lru_ok c" "timeout c = 300"
  proof -
    have "lru_ok (snd (lru_getitem now (take 22 verifyid) ?c))
        \<and> timeout (snd (lru_getitem now (take 22 verifyid) ?c)) = timeout ?c"
      using assms(2) lru_ok_getitem [of ?c now "take 22 verifyid"]
      by (auto simp: tls_cache_ok_def lru_getitem_def Let_def split: option.split)
    then show "lru_ok c" "timeout c = 300"
      using g assms(2) by (auto simp: lru_get_def tls_cache_ok_def split: prod.splits sum.splits)
  qed
  obtain r c1 where sw: "lru_sweep now SWEEP_MAX_ITEMS c = (Inr r, c1)" "lru_ok c1" "timeout c1 = 300"
    using sweep_loop_spec [OF ok(1), of now SWEEP_MAX_ITEMS "[]"] ok(2) by (auto simp: lru_sweep_def)
  have fields: "tls_data_of p' = (si_data i)\<lparr>td_client_data := lru_setitem now (take 22 verifyid) sid c1\<rparr>
      \<and> tk_client_id p' = sid"
    using assms(1,4) err g sw(1)
    by (auto simp: tls_admit_def Let_def tls_data_of_def split_beta split: if_splits sum.splits)
  then have "sid \<noteq> []" using assms(3) by simp
  from remembers_set [OF sw(2,3) this] fields show ?thesis by simp
qed

text \<open>C3. No hello works twice within five minutes: once the server admitted a hello, the same
  bytes on another connection of the port are refused - with 2048 bytes 'E' under the plain names -
  however many other hellos, good or bad, came in between, and however those made the server sweep
  its table. (The table forgets after 300 seconds, the time stamps are valid for a day.)\<close>

theorem tls_hello_once:
  assumes "tls_connect hl m i t0 w d = (Inr (x, y, True), p)" and "tk_client_id p \<noteq> []"
    and "tls_cache_ok d"
    and "\<forall>(m, i, now, w) \<in> set evs. t0 \<le> now \<and> now \<le> t0 + 300"
    and "t0 \<le> t" and "t \<le> t0 + 300"
  shows "\<exists>p'. tls_connect hl m' i' t w (tls_connects hl evs (tls_data_of p))
      = (Inr (if m' \<in> {''tls1.2_ticket_auth'', ''tls1.2_ticket_fastauth''}
              then (decoy, False, False) else (w, True, False)), p')
    \<and> tk_status p' = -1"
proof -
  let ?new = "\<lambda>m i d. tls_ticket_auth_new m \<lparr>p_server_info := Some (i\<lparr>si_data := d\<rparr>)\<rparr>"
  have dec: "tls_connect hl m i t w d = tls_server_read_hello hl t w (?new m i d)" for hl m i t w d
    by (simp add: tls_connect_def tls_server_decode_def tls_ticket_auth_new_def)
  have new: "tk_recv_buffer (?new m i d) = []" "p_server_info (?new m i d) = Some (i\<lparr>si_data := d\<rparr>)" for m i d
    by (simp_all add: tls_ticket_auth_new_def)
  obtain verifyid sid rb where v: "length verifyid \<ge> 4"
      "\<And>hl now p i. tk_recv_buffer p = [] \<Longrightarrow> p_server_info p = Some i \<Longrightarrow>
        tls_server_read_hello hl now w p = tls_admit hl now w verifyid sid i
          (p\<lparr>tk_recv_buffer := rb, tk_status := 1, tk_client_id := sid\<rparr>)"
    using tls_read_hello_fields [OF assms(1) [unfolded dec] new] by blast
  have "remembers t0 (take 22 verifyid) (td_client_data (tls_data_of p))"
    by (rule tls_admit_accepted [OF assms(1) [unfolded dec v(2) [OF new]] _ assms(2)])
       (simp_all add: assms(3))
  from tls_connects_remembers [OF this assms(4), of hl]
  have rem: "remembers t0 (take 22 verifyid) (td_client_data (tls_connects hl evs (tls_data_of p)))" .
  let ?d = "tls_connects hl evs (tls_data_of p)"
  let ?p = "(?new m' i' ?d)\<lparr>tk_recv_buffer := rb, tk_status := 1, tk_client_id := sid\<rparr>"
  have "fst (tls_admit hl t w verifyid sid (i'\<lparr>si_data := ?d\<rparr>) ?p) = fst (decode_error_return w ?p)
      \<and> tk_status (snd (tls_admit hl t w verifyid sid (i'\<lparr>si_data := ?d\<rparr>) ?p)) = -1"
    by (rule tls_admit_remembers(2) [OF _ _ assms(5,6) refl v(1)])
       (use rem in \<open>simp_all add: new tls_ticket_auth_new_def\<close>)
  then show ?thesis
    unfolding dec v(2) [OF new]
    by (intro exI [of _ "snd (tls_admit hl t w verifyid sid (i'\<lparr>si_data := ?d\<rparr>) ?p)"])
       (simp add: decode_error_result prod_eq_iff tls_ticket_auth_new_def)
qed

theorem tls_hello_once_witness:
  "\<exists>w p p'. tls_connect plain_hashes ''tls1.2_ticket_auth'' (server_info_new (fst (tls_data_new 0 []))) 2000 w
        (fst (tls_data_new 0 [])) = (Inr ([], False, True), p)
    \<and> tls_connect plain_hashes ''tls1.2_ticket_auth'' (server_info_new (fst (tls_data_new 0 []))) 2100 w
        (tls_connects plain_hashes [([], server_info_new (fst (tls_data_new 0 [])), 2050, ''GET /'')] (tls_data_of p))
      = (Inr (decoy, False, False), p')"
proof -
  let ?d = "fst (tls_data_new 0 [])"
  let ?ic = "(server_info_new ?d)\<lparr>si_host := ''h.org''\<rparr>"
  let ?is = "server_info_new ?d"
  have d: "length (td_client_id ?d) = 32" "td_ticket_buf ?d = Map.empty" "td_client_data ?d = lru_new (60 * 5)"
      "td_startup_time ?d = utc32 (- 1800)" "td_client_id ?d \<noteq> []"
    by (simp_all add: tls_data_new_def urandom_def)
  have i: "?is\<lparr>si_data := ?d\<rparr> = ?is" by (simp add: server_info_new_def)
  obtain w d' t' where "tls_client_hello plain_hashes 1000 ?ic [] = (Inr w, d', t')"
    using tls_client_hello_total [OF _ _ _ _ plain_hashes_sizes, of ?ic 1000 "[]"] d
    by (auto simp: server_info_new_def)
  then obtain c1 where h: "tls_client_encode plain_hashes 1000 ''GET'' [] (tls_ticket_auth_new ''tls1.2_ticket_auth''
        \<lparr>p_server_info := Some ?ic\<rparr>) = (Inr w, t', c1)"
    by (simp add: tls_client_encode_def tls_ticket_auth_new_def)
  have "\<exists>d j. tls_server_decode plain_hashes 2000 w (tls_ticket_auth_new ''tls1.2_ticket_auth'' \<lparr>p_server_info := Some ?is\<rparr>)
        = (Inr ([], False, True), tls_ticket_auth_new ''tls1.2_ticket_auth'' \<lparr>tk_status := 1,
             tk_client_id := td_client_id (si_data ?ic), p_server_info := Some j\<rparr>)
    \<and> si_key j = si_key ?is \<and> td_client_id d = td_client_id (si_data ?ic)
    \<and> c1 = tls_ticket_auth_new ''tls1.2_ticket_auth'' \<lparr>tk_send_buffer := (if ''GET'' = [] then [] else tls_record ''GET''),
        tk_status := 1, p_server_info := Some (?ic\<lparr>si_data := d\<rparr>)\<rparr>"
    by (rule tls_hello_admitted [OF plain_hashes_sizes _ _ _ h, where u = "- 1800"])
       (simp_all add: d server_info_new_def lookup_def lru_new_def lru_ok_def)
  then obtain p where p: "tls_connect plain_hashes ''tls1.2_ticket_auth'' ?is 2000 w ?d = (Inr ([], False, True), p)"
      "tk_client_id p \<noteq> []"
    using d(5) by (auto simp: tls_connect_def i server_info_new_def)
  have "tls_cache_ok ?d" by (simp add: tls_cache_ok_def d lru_new_def lru_ok_def)
  from tls_hello_once [OF p(1,2) this, of "[([], ?is, 2050, ''GET /'')]" 2100 "''tls1.2_ticket_auth''" ?is]
  show ?thesis using p(1) by (auto simp del: tls_connects.simps)
qed

text \<open>A hello whose first chunk ends inside the record length makes the server raise.\<close>

lemma tls_short_hello_raises:
  "fst (tls_connect hl m i now [CHR 0x16, CHR 0x03, CHR 0x01, CHR 0x02] d) = Inl StructError"
  by (simp add: tls_connect_def tls_server_decode_def tls_ticket_auth_new_def tls_server_read_hello_def
      unpack_be16_def)

end
