(* ===== verification/Auth_Sha1_V4.thy ===== *)
theory Auth_Sha1_V4
  imports Plain Framing Checksums Replay
begin

text \<open>
  The protocol \<^verbatim>\<open>auth_sha1_v4\<close> of \<^verbatim>\<open>obfsplugin/auth.py\<close>. A client starts with a header
  that carries the time, a client id and a connection id, guarded by a CRC and an HMAC; all data
  go in frames: length, CRC of the length, random padding, data, Adler-32. The server admits a
  header with a current time stamp whose connection id its replay window accepts.
\<close>

subsection \<open>What the auth protocols share\<close>

text \<open>The end of the padding: one byte below 255, or 255 and two bytes.\<close>

definition pad_end :: "nat \<Rightarrow> (bytes \<Rightarrow> nat) \<Rightarrow> bytes \<Rightarrow> nat" where
  "pad_end k val16 rb =
     (let pos = ordb (rb ! k) in if pos < 255 then pos + k else val16 (py_sub rb (k + 1) (k + 3)) + k)"

text \<open>What the reading of a header gives: a value to return at once, or data to go on with and
  whether to answer.\<close>

datatype header_read =
    HReturn "(bytes \<times> bool) res"
  | HGo bytes bool

subsection \<open>State\<close>

record auth_sha1_v4 = "v2_data plain" +
  s4_overhead :: int
  s4_recv_buf :: bytes
  s4_unit_len :: nat
  s4_decrypt_packet_num :: nat
  s4_raw_trans :: bool
  s4_has_sent_header :: bool
  s4_has_recv_header :: bool
  s4_client_id :: nat
  s4_connection_id :: nat
  s4_max_time_dif :: int
  s4_salt :: bytes
  s4_no_compatible_method :: bytes

definition auth_sha1_v4_new :: "bytes \<Rightarrow> auth_sha1_v4" where
  "auth_sha1_v4_new method =
     \<lparr>p_method = method, p_server_info = None, s4_overhead = 7, s4_recv_buf = [], s4_unit_len = 8100,
      s4_decrypt_packet_num = 0, s4_raw_trans = False, s4_has_sent_header = False,
      s4_has_recv_header = False, s4_client_id = 0, s4_connection_id = 0,
      s4_max_time_dif = 60 * 60 * 24, s4_salt = ''auth_sha1_v4'',
      s4_no_compatible_method = ''auth_sha1_v4''\<rparr>"

definition s4_set_server_info :: "v2_data server_info \<Rightarrow> auth_sha1_v4 \<Rightarrow> auth_sha1_v4" where
  "s4_set_server_info i p =
     (let max_client = (case py_int (si_protocol_param i) of Some n \<Rightarrow> n | None \<Rightarrow> 64)
      in p\<lparr>p_server_info := Some (i\<lparr>si_data := set_max_client_v2 max_client (si_data i)\<rparr>)\<rparr>)"

definition s4_not_match_return :: "bytes \<Rightarrow> auth_sha1_v4 \<Rightarrow> (bytes \<times> bool) \<times> auth_sha1_v4" where
  "s4_not_match_return buf p =
     (if p_method p = s4_no_compatible_method p then (decoy, False) else (buf, False),
      p\<lparr>s4_raw_trans := True, s4_overhead := 0\<rparr>)"

subsection \<open>Frames\<close>

definition s4_rnd_data :: "nat \<Rightarrow> tape \<Rightarrow> bytes \<times> tape" where
  "s4_rnd_data buf_size t =
     (if buf_size > 1200 then ([chrb 1], t)
      else
        (let (rnd_data, t') =
           (if buf_size > 400
            then (let (r, t1) = urandom 1 t in urandom (ordb (hd r) mod 256) t1)
            else (let (r, t1) = urandom 2 t in urandom (be_val r mod 512) t1))
         in (if length rnd_data < 128 then [chrb (length rnd_data + 1)] @ rnd_data
             else [chrb 255] @ be16 (length rnd_data + 3) @ rnd_data, t')))"

definition s4_pack_data :: "bytes \<Rightarrow> tape \<Rightarrow> bytes res \<times> tape" where
  "s4_pack_data buf t =
     (let (rnd, t') = s4_rnd_data (length buf) t;
          data = rnd @ buf;
          data_len = length data + 8
      in (rbind (pack_be16 data_len) (\<lambda>l.
          let crc = crc32 l mod 65536;
              data1 = l @ le16 crc @ data
          in Inr (data1 @ le32 (adler32 data1))), t'))"

definition s4_pack_all :: "bytes \<Rightarrow> tape \<Rightarrow> auth_sha1_v4 \<Rightarrow> bytes res \<times> tape" where
  "s4_pack_all buf t p = pack_chunks (\<lambda>t c. s4_pack_data c t) t (chunk_list (s4_unit_len p) buf)"

datatype s4_error = WrongCrc | OverSize | BadSum

definition s4_step :: "unit \<Rightarrow> bytes \<Rightarrow> (unit, bytes \<times> bool, s4_error) frame_step" where
  "s4_step st rb =
     (if length rb > 4 then
        (if le16 (crc32 (take 2 rb) mod 65536) \<noteq> py_sub rb 2 4 then Bad WrongCrc
         else
           (let len = be_val (take 2 rb)
            in if len \<ge> 8192 \<or> len < 7 then Bad OverSize
               else if len > length rb then More
               else if le32 (adler32 (take (len - 4) rb)) \<noteq> py_sub rb (len - 4) len then Bad BadSum
               else
                 (let pos = pad_end 4 be_val rb
                  in Frame (py_sub rb pos (len - 4), pos = len - 4) () len)))
      else More)"

subsection \<open>The client\<close>

definition s4_auth_data :: "time \<Rightarrow> v2_data \<Rightarrow> tape \<Rightarrow> bytes \<times> v2_data \<times> tape" where
  "s4_auth_data now d t =
     (let d1 = (if v2_connection_id d > 0xFF000000 then d\<lparr>v2_local_client_id := []\<rparr> else d);
          (d2, t2) =
            (if v2_local_client_id d1 = [] then
               (let (r, t1) = urandom 4 t; (c, t2) = urandom 4 t1
                in (d1\<lparr>v2_local_client_id := r, v2_connection_id := le_val c mod 16777216\<rparr>, t2))
             else (d1, t));
          d3 = d2\<lparr>v2_connection_id := v2_connection_id d2 + 1\<rparr>
      in (le32 (utc32 now) @ v2_local_client_id d3 @ le32 (v2_connection_id d3), d3, t2))"

definition s4_pack_auth_data :: "hash_lib \<Rightarrow> bytes \<Rightarrow> v2_data server_info \<Rightarrow> tape \<Rightarrow> bytes \<Rightarrow> bytes res \<times> tape" where
  "s4_pack_auth_data hl salt i t buf =
     (if length buf = 0 then (Inr [], t)
      else
        (let (rnd, t') = s4_rnd_data (length buf) t;
             data = rnd @ buf;
             data_len = length data + 16
         in (rbind (pack_be16 data_len) (\<lambda>l.
             let crc = crc32 (l @ salt @ si_key i);
                 data1 = l @ le32 crc @ data
             in Inr (data1 @ take 10 (hmac hl SHA1 (si_iv i @ si_key i) data1))), t')))"

definition s4_client_pre_encrypt :: "hash_lib \<Rightarrow> time \<Rightarrow> bytes \<Rightarrow> tape \<Rightarrow> auth_sha1_v4
    \<Rightarrow> bytes res \<times> tape \<times> auth_sha1_v4" where
  "s4_client_pre_encrypt hl now buf t p =
     (if s4_has_sent_header p then
        (let (r, t1) = s4_pack_all buf t p in (r, t1, p))
      else
        (case p_server_info p of
           None \<Rightarrow> (Inl AttributeError, t, p)
         | Some i \<Rightarrow>
             (let head_size = get_head_size buf 30;
                  (k, t1) = randint 0 31 t;
                  datalen = min (length buf) (k + head_size);
                  (auth, d, t2) = s4_auth_data now (si_data i) t1;
                  p1 = p\<lparr>p_server_info := Some (i\<lparr>si_data := d\<rparr>)\<rparr>
              in case s4_pack_auth_data hl (s4_salt p) i t2 (auth @ take datalen buf) of
                   (Inl e, t3) \<Rightarrow> (Inl e, t3, p1)
                 | (Inr head, t3) \<Rightarrow>
                     (let p2 = p1\<lparr>s4_has_sent_header := True\<rparr>;
                          (r, t4) = s4_pack_all (drop datalen buf) t3 p2
                      in (rbind r (\<lambda>w. Inr (head @ w)), t4, p2)))))"

definition s4_client_post_decrypt :: "bytes \<Rightarrow> auth_sha1_v4 \<Rightarrow> bytes res \<times> auth_sha1_v4" where
  "s4_client_post_decrypt buf p =
     (if s4_raw_trans p then (Inr buf, p)
      else
        (case drain s4_step () (s4_recv_buf p @ buf) of
           Drained _ r ps \<Rightarrow>
             (let out_buf = concat (map fst ps)
              in (Inr out_buf, p\<lparr>s4_recv_buf := r,
                   s4_decrypt_packet_num := (if out_buf \<noteq> [] then s4_decrypt_packet_num p + 1
                     else s4_decrypt_packet_num p)\<rparr>))
         | Broken WrongCrc _ r ps \<Rightarrow>
             (Inl (Exc ''client_post_decrypt data uncorrect crc''), p\<lparr>s4_recv_buf := r\<rparr>)
         | Broken OverSize _ r ps \<Rightarrow>
             (Inl (Exc ''client_post_decrypt data error''), p\<lparr>s4_raw_trans := True, s4_recv_buf := []\<rparr>)
         | Broken BadSum _ r ps \<Rightarrow>
             (Inl (Exc ''client_post_decrypt data uncorrect checksum''),
              p\<lparr>s4_raw_trans := True, s4_recv_buf := []\<rparr>)
         | Endless \<Rightarrow> (Inl NoReturn, p)))"

subsection \<open>The server\<close>

definition s4_server_pre_encrypt :: "bytes \<Rightarrow> tape \<Rightarrow> auth_sha1_v4 \<Rightarrow> bytes res \<times> tape" where
  "s4_server_pre_encrypt buf t p = (if s4_raw_trans p then (Inr buf, t) else s4_pack_all buf t p)"

text \<open>Cutting out the header's fields and checking them; \<open>len\<close> is the length it claims, and
  the slices follow Python for one that is too short.\<close>

definition s4_admit :: "time \<Rightarrow> bytes \<Rightarrow> nat \<Rightarrow> v2_data server_info \<Rightarrow> auth_sha1_v4
    \<Rightarrow> header_read \<times> auth_sha1_v4" where
  "s4_admit now out_buf len i p =
     (let utc_time = le_val (take 4 out_buf);
          client_id = le_val (py_sub out_buf 4 8);
          conn_id = le_val (py_sub out_buf 8 12);
          time_dif = int32 (int utc_time - int (utc32 now))
      in if time_dif < - s4_max_time_dif p \<or> time_dif > s4_max_time_dif p
         then apfst (\<lambda>r. HReturn (Inr r)) (s4_not_match_return (s4_recv_buf p) p)
         else
           (case v2_insert now client_id conn_id (si_data i) of
              (r, d) \<Rightarrow>
                (let p1 = p\<lparr>p_server_info := Some (i\<lparr>si_data := d\<rparr>)\<rparr>
                 in case r of
                      Inl e \<Rightarrow> (HReturn (Inl e), p1)
                    | Inr False \<Rightarrow> apfst (\<lambda>r. HReturn (Inr r)) (s4_not_match_return (s4_recv_buf p1) p1)
                    | Inr True \<Rightarrow>
                        (HGo (drop 12 out_buf) True,
                         p1\<lparr>s4_has_recv_header := True, s4_client_id := client_id,
                            s4_connection_id := conn_id, s4_recv_buf := drop len (s4_recv_buf p1)\<rparr>))))"

definition s4_read_header :: "hash_lib \<Rightarrow> time \<Rightarrow> auth_sha1_v4 \<Rightarrow> header_read \<times> auth_sha1_v4" where
  "s4_read_header hl now p =
     (let rb = s4_recv_buf p;
          refuse = apfst (\<lambda>r. HReturn (Inr r)) (s4_not_match_return rb p)
      in if length rb \<le> 6 then (HReturn (Inr ([], False)), p)
         else
           (case p_server_info p of
              None \<Rightarrow> (HReturn (Inl AttributeError), p)
            | Some i \<Rightarrow>
                (if le32 (crc32 (take 2 rb @ s4_salt p @ si_key i)) \<noteq> py_sub rb 2 6 then refuse
                 else
                   (let len = be_val (take 2 rb)
                    in if len > length rb then (HReturn (Inr ([], False)), p)
                       else if take 10 (hmac hl SHA1 (si_recv_iv i @ si_key i) (py_slice rb 0 (int len - 10)))
                           \<noteq> py_slice rb (int len - 10) (int len) then refuse
                       else if ordb (rb ! 6) = 255 \<and> length rb < 9 then (HReturn (Inl StructError), p)
                       else
                         (let out_buf = py_slice rb (int (pad_end 6 be_val rb)) (int len - 10)
                          in if length out_buf < 12 then refuse
                             else s4_admit now out_buf len i p)))))"

text \<open>The loop after the header, with the data and the answer flag found so far.\<close>

definition s4_server_frames :: "time \<Rightarrow> bytes \<Rightarrow> bool \<Rightarrow> auth_sha1_v4 \<Rightarrow> (bytes \<times> bool) res \<times> auth_sha1_v4" where
  "s4_server_frames now out0 sendback0 p =
     (let broken = (\<lambda>msg q. (if s4_decrypt_packet_num p = 0 then Inr (decoy, False) else Inl (Exc msg), q))
      in case drain s4_step () (s4_recv_buf p) of
           Drained _ r ps \<Rightarrow>
             (let out_buf = out0 @ concat (map fst ps);
                  p1 = p\<lparr>s4_recv_buf := r\<rparr>;
                  p2 = (if out_buf \<noteq> []
                        then p1\<lparr>p_server_info := map_option (\<lambda>i. i\<lparr>si_data :=
                               v2_update now (s4_client_id p) (s4_connection_id p) (si_data i)\<rparr>) (p_server_info p1),
                             s4_decrypt_packet_num := s4_decrypt_packet_num p + 1\<rparr>
                        else p1)
              in (Inr (out_buf, sendback0 \<or> (\<exists>q \<in> set ps. snd q)), p2))
         | Broken WrongCrc _ r ps \<Rightarrow>
             broken ''server_post_decrype data error'' (p\<lparr>s4_raw_trans := True, s4_recv_buf := r\<rparr>)
         | Broken OverSize _ r ps \<Rightarrow>
             broken ''server_post_decrype data error'' (p\<lparr>s4_raw_trans := True, s4_recv_buf := []\<rparr>)
         | Broken BadSum _ r ps \<Rightarrow>
             broken ''server_post_decrype data uncorrect checksum'' (p\<lparr>s4_raw_trans := True, s4_recv_buf := []\<rparr>)
         | Endless \<Rightarrow> (Inl NoReturn, p))"

definition s4_server_post_decrypt :: "hash_lib \<Rightarrow> time \<Rightarrow> bytes \<Rightarrow> auth_sha1_v4
    \<Rightarrow> (bytes \<times> bool) res \<times> auth_sha1_v4" where
  "s4_server_post_decrypt hl now buf p0 =
     (if s4_raw_trans p0 then (Inr (buf, False), p0)
      else
        (let p = p0\<lparr>s4_recv_buf := s4_recv_buf p0 @ buf\<rparr>
         in if s4_has_recv_header p then s4_server_frames now [] False p
            else
              (case s4_read_header hl now p of
                 (HReturn r, p1) \<Rightarrow> (r, p1)
               | (HGo out_buf sendback, p1) \<Rightarrow> s4_server_frames now out_buf sendback p1)))"

subsection \<open>Padding\<close>

definition padding :: "(bytes \<Rightarrow> nat) \<Rightarrow> bytes \<Rightarrow> bool" where
  "padding val16 rnd \<longleftrightarrow>
     (\<exists>data. length data < 254 \<and> rnd = chrb (length data + 1) # data)
     \<or> (\<exists>c data. length c = 2 \<and> val16 c = length data + 3 \<and> rnd = chrb 255 # c @ data)"

lemma padding_not_Nil: "padding val16 rnd \<Longrightarrow> 0 < length rnd"
  by (auto simp: padding_def)

lemma pad_end_padding:
  assumes "padding val16 rnd" and "length pre = k"
  shows "pad_end k val16 (pre @ rnd @ x) = length rnd + k"
  using assms(1) unfolding padding_def
proof (elim disjE exE conjE)
  fix data assume r: "length data < 254" "rnd = chrb (length data + 1) # data"
  have "ordb ((pre @ rnd @ x) ! k) = length data + 1"
    using r assms(2) by (simp add: nth_append)
  then show ?thesis using r unfolding pad_end_def Let_def by simp
next
  fix c data assume r: "length c = 2" "val16 c = length data + 3" "rnd = chrb 255 # c @ data"
  have "ordb ((pre @ rnd @ x) ! k) = 255" using r(3) assms(2) by (simp add: nth_append)
  moreover have "py_sub (pre @ rnd @ x) (k + 1) (k + 3) = c"
    using py_sub_exact [of "pre @ [chrb 255]" "k + 1" c "k + 3" "data @ x"] r assms(2) by simp
  ultimately show ?thesis using r unfolding pad_end_def Let_def by simp
qed

lemma s4_rnd_data_padding:
  assumes "s4_rnd_data n t = (rnd, t')"
  shows "padding be_val rnd" and "length rnd \<le> 514" and "1200 < n \<Longrightarrow> length rnd = 1"
proof -
  have short: "padding be_val [chrb 1]" unfolding padding_def by (intro disjI1 exI [of _ "[]"]) simp
  consider (big) "1200 < n" "rnd = [chrb 1]"
    | (small) data where "\<not> 1200 < n" "length data < 512"
      "rnd = (if length data < 128 then [chrb (length data + 1)] @ data
              else [chrb 255] @ be16 (length data + 3) @ data)"
  proof (cases "1200 < n")
    case False
    obtain r t1 d t2 where d: "(if n > 400 then (let (r, t1) = urandom 1 t in urandom (ordb (hd r) mod 256) t1)
            else (let (r, t1) = urandom 2 t in urandom (be_val r mod 512) t1)) = (d, t2)"
      by fastforce
    then have "length d < 512"
    proof (cases "n > 400")
      case True
      obtain r t1 where r: "urandom 1 t = (r, t1)" by fastforce
      then have "length d = ordb (hd r) mod 256" using d True urandom_length by simp
      then show ?thesis using mod_less_divisor [of 256 "ordb (hd r)"] by linarith
    next
      case False
      obtain r t1 where r: "urandom 2 t = (r, t1)" by fastforce
      then have "length d = be_val r mod 512" using d False urandom_length by simp
      then show ?thesis using mod_less_divisor [of 512 "be_val r"] by linarith
    qed
    then show ?thesis using small [of d] False d assms by (simp add: s4_rnd_data_def Let_def)
  qed (use assms in \<open>simp add: s4_rnd_data_def\<close>)
  then have "padding be_val rnd \<and> length rnd \<le> 514 \<and> (1200 < n \<longrightarrow> length rnd = 1)"
  proof cases
    case (small data)
    show ?thesis
    proof (cases "length data < 128")
      case True
      then have "padding be_val rnd"
        unfolding padding_def small(3) by (intro disjI1 exI [of _ data]) simp
      then show ?thesis using True small by simp
    next
      case False
      then have "padding be_val rnd"
        unfolding padding_def small(3)
        by (intro disjI2 exI [of _ "be16 (length data + 3)"] exI [of _ data]) (use small(2) in simp)
      then show ?thesis using False small by simp
    qed
  qed (use short in auto)
  then show "padding be_val rnd" and "length rnd \<le> 514" and "1200 < n \<Longrightarrow> length rnd = 1" by auto
qed

subsection \<open>Frames are accepted\<close>

interpretation s4: frame_stream s4_step
proof
  fix st st' :: unit and buf ext p n and e
  have pad: "pad_end 4 be_val (buf @ ext) = pad_end 4 be_val buf" if "7 \<le> length buf"
    using that by (simp add: pad_end_def nth_append py_sub_append Let_def)
  show "s4_step st buf = Frame p st' n \<Longrightarrow> 0 < n \<and> n \<le> length buf"
    by (auto simp: s4_step_def Let_def split: if_splits)
  show "s4_step st buf = Frame p st' n \<Longrightarrow> s4_step st (buf @ ext) = Frame p st' n"
    using pad by (auto simp: s4_step_def Let_def py_sub_append split: if_splits)
  show "s4_step st buf = Bad e \<Longrightarrow> s4_step st (buf @ ext) = Bad e"
    by (auto simp: s4_step_def Let_def py_sub_append split: if_splits)
qed

lemma s4_step_Nil [simp]: "s4_step st [] = More"
  by (simp add: s4_step_def)

lemma s4_pack_data_step:
  assumes "length c \<le> 8100"
  shows "\<exists>f t'. s4_pack_data c t = (Inr f, t') \<and> s4_step () f = Frame (c, c = []) () (length f) \<and> f \<noteq> []"
proof -
  obtain rnd t' where r: "s4_rnd_data (length c) t = (rnd, t')" by fastforce
  note pad = s4_rnd_data_padding [OF r] padding_not_Nil [OF s4_rnd_data_padding(1) [OF r]]
  define len where "len = length rnd + length c + 8"
  have len: "len < 8192" "7 \<le> len"
    using pad assms by (cases "1200 < length c"; simp add: len_def)+
  define pre where "pre = be16 len @ le16 (crc32 (be16 len) mod 65536)"
  define body where "body = pre @ rnd @ c"
  define f where "f = body @ le32 (adler32 body)"
  have w: "s4_pack_data c t = (Inr f, t')"
    using r len by (simp add: s4_pack_data_def pack_be16_def len_def f_def body_def pre_def Let_def)
  have lb: "length pre = 4" "length body = len - 4" "length f = len" "body \<noteq> []"
    by (auto simp: f_def body_def pre_def len_def)
  have 1: "take 2 f = be16 len" "py_sub f 2 4 = le16 (crc32 (be16 len) mod 65536)"
    using py_sub_exact [of "be16 len" 2 "le16 (crc32 (be16 len) mod 65536)" 4]
    by (simp_all add: f_def body_def pre_def)
  have 2: "take (len - 4) f = body" "py_sub f (len - 4) len = le32 (adler32 body)"
    using lb len by (simp_all add: f_def py_sub_exact_end)
  have 3: "pad_end 4 be_val f = length rnd + 4"
    using pad_end_padding [OF pad(1) lb(1)] by (simp add: f_def body_def)
  have 4: "py_sub f (length rnd + 4) (len - 4) = c"
    using py_sub_exact [of "pre @ rnd" "length rnd + 4" c "len - 4" "le32 (adler32 body)"] lb(1)
    by (simp add: f_def body_def len_def)
  have 5: "(length rnd + 4 = len - 4) = (c = [])" by (auto simp: len_def)
  have "s4_step () f = Frame (c, c = []) () (length f)"
    using len by (simp add: s4_step_def 1 2 3 4 5 lb Let_def)
  then show ?thesis using w lb(3) len by auto
qed

lemma s4_pack_all_framed:
  assumes "s4_unit_len p = 8100"
  shows "\<exists>fs t'. s4_pack_all buf t p = (Inr (concat (map fst fs)), t') \<and> framed s4_step () fs ()
    \<and> concat (map fst (map snd fs)) = buf"
proof -
  have step: "\<exists>f t' st' v. s4_pack_data c t = (Inr f, t') \<and> True
      \<and> s4_step st f = Frame v st' (length f) \<and> fst v = c" if "length c \<le> 8100" for t c st
    using s4_pack_data_step [OF that, of t] by (metis (full_types) fst_conv old.unit.exhaust)
  have "\<forall>c \<in> set (chunk_list 8100 buf). length c \<le> 8100" by (rule chunk_list_length) simp
  from pack_chunks_payloads [where rel = "\<lambda>t st. True" and step = s4_step and st = "()" and s = t
      and pack = "\<lambda>t c. s4_pack_data c t" and ok = "\<lambda>c. length c \<le> 8100" and pay = fst,
      OF step TrueI this]
  show ?thesis using assms unfolding s4_pack_all_def by (simp del: map_map)
qed

subsection \<open>Both directions\<close>

definition s4_open :: "auth_sha1_v4 \<Rightarrow> bytes \<Rightarrow> bool" where
  "s4_open p r \<longleftrightarrow> \<not> s4_raw_trans p \<and> s4_has_recv_header p \<and> s4_recv_buf p = r"

lemma s4_server_frames_drained:
  assumes "drain s4_step () (s4_recv_buf p) = Drained st r ps" and "\<not> s4_raw_trans p" and "s4_has_recv_header p"
  shows "\<exists>b q. s4_server_frames now out0 sb p = (Inr (out0 @ concat (map fst ps), b), q) \<and> s4_open q r"
  using assms by (simp add: s4_server_frames_def s4_open_def Let_def)

lemma s4_server_call:
  assumes "s4_open p b" and "drain s4_step () (b @ c) = Drained st r ps"
  shows "\<exists>out q. s4_server_post_decrypt hl now c p = (Inr out, q) \<and> fst out = concat (map fst ps) \<and> s4_open q r"
proof -
  let ?p = "p\<lparr>s4_recv_buf := s4_recv_buf p @ c\<rparr>"
  obtain f q where "s4_server_frames now [] False ?p = (Inr ([] @ concat (map fst ps), f), q)" "s4_open q r"
    using s4_server_frames_drained [of ?p st r ps now "[]" False] assms by (auto simp: s4_open_def)
  then show ?thesis using assms(1) by (simp add: s4_server_post_decrypt_def s4_open_def)
qed

lemma s4_client_call:
  assumes "\<not> s4_raw_trans p \<and> s4_recv_buf p = b" and "drain s4_step () (b @ c) = Drained st r ps"
  shows "\<exists>out q. s4_client_post_decrypt c p = (Inr out, q) \<and> out = concat (map fst ps)
    \<and> \<not> s4_raw_trans q \<and> s4_recv_buf q = r"
  using assms by (simp add: s4_client_post_decrypt_def Let_def)

lemma s4_encode_all:
  assumes "\<And>b t. \<exists>fs t'. f b t p = (Inr (concat (map fst fs)), t', p) \<and> framed s4_step () fs ()
      \<and> concat (map fst (map snd fs)) = b"
  shows "\<exists>ws t' fs. encode_all f bs t p = (Inr ws, t', p) \<and> concat ws = concat (map fst fs)
    \<and> framed s4_step () fs () \<and> concat (map fst (map snd fs)) = concat bs"
proof (induction bs arbitrary: t)
  case Nil
  show ?case by (intro exI [of _ "[]"] exI [of _ t]) simp
next
  case (Cons b bs)
  obtain fs t1 where 1: "f b t p = (Inr (concat (map fst fs)), t1, p)" "framed s4_step () fs ()"
      "concat (map fst (map snd fs)) = b" using assms by blast
  obtain ws t2 gs where 2: "encode_all f bs t1 p = (Inr ws, t2, p)" "concat ws = concat (map fst gs)"
      "framed s4_step () gs ()" "concat (map fst (map snd gs)) = concat bs"
    using Cons.IH by blast
  have "framed s4_step () (fs @ gs) ()" unfolding framed_append using 1(2) 2(3) by blast
  then show ?case
    using 1 2 by (intro exI [of _ "concat (map fst fs) # ws"] exI [of _ t2] exI [of _ "fs @ gs"]) (simp add: comp_def)
qed

text \<open>What the server of auth_sha1_v4 writes, the client reads: for every random padding and
  every cut of the stream the client takes every chunk without an exception and delivers exactly the
  bytes written.\<close>

theorem auth_sha1_v4_down:
  assumes "\<not> s4_raw_trans s" and "s4_unit_len s = 8100" and "\<not> s4_raw_trans c" and "s4_recv_buf c = []"
  shows "\<exists>ws t'. encode_all (\<lambda>b t p. let (r, t') = s4_server_pre_encrypt b t p in (r, t', p)) bufs t s
        = (Inr ws, t', s)
    \<and> (\<forall>cs. concat cs = concat ws \<longrightarrow>
         (\<exists>outs c'. feed_all s4_client_post_decrypt cs c = (Inr outs, c')
            \<and> concat outs = concat bufs \<and> s4_recv_buf c' = []))"
proof -
  let ?f = "\<lambda>b t p. let (r, t') = s4_server_pre_encrypt b t p in (r, t', p)"
  have "\<exists>fs t'. ?f b t s = (Inr (concat (map fst fs)), t', s) \<and> framed s4_step () fs ()
      \<and> concat (map fst (map snd fs)) = b" for b t
    using s4_pack_all_framed [OF assms(2), of b t] assms(1) by (fastforce simp: s4_server_pre_encrypt_def)
  from s4_encode_all [of ?f s, OF this]
  obtain ws t' fs where w: "encode_all ?f bufs t s = (Inr ws, t', s)" "concat ws = concat (map fst fs)"
      "framed s4_step () fs ()" "concat (map fst (map snd fs)) = concat bufs" by blast
  have "\<exists>outs c'. feed_all s4_client_post_decrypt cs c = (Inr outs, c')
      \<and> concat outs = concat bufs \<and> s4_recv_buf c' = []" if "concat cs = concat ws" for cs
  proof -
    have r: "receive s4_step () [] cs = Drained () [] (map snd fs)"
      using s4.receive_framed [OF w(3)] w(2) that by simp
    have call: "\<exists>out q. s4_client_post_decrypt c p = (Inr out, q) \<and> id out = concat (map fst ps)
        \<and> \<not> s4_raw_trans q \<and> s4_recv_buf q = r"
      if "\<not> s4_raw_trans p \<and> s4_recv_buf p = b" and "drain s4_step () (b @ c) = Drained st' r ps" for p b c st' r ps
      using s4_client_call [OF that] by simp
    have "\<exists>outs c'. feed_all s4_client_post_decrypt cs c = (Inr outs, c')
        \<and> concat (map id outs) = concat (map fst (map snd fs)) \<and> \<not> s4_raw_trans c' \<and> s4_recv_buf c' = []"
      by (rule feed_all_payloads [where rel = "\<lambda>p st b. \<not> s4_raw_trans p \<and> s4_recv_buf p = b"
            and step = s4_step, OF call r]) (use assms(3,4) in auto)
    then show ?thesis using w(4) by auto
  qed
  then show ?thesis using w(1) by blast
qed

theorem auth_sha1_v4_down_witness:
  "\<exists>ws t'. encode_all (\<lambda>b t p. let (r, t') = s4_server_pre_encrypt b t p in (r, t', p)) [''abc'', [], ''d''] ''seed''
        (auth_sha1_v4_new []) = (Inr ws, t', auth_sha1_v4_new [])
    \<and> (\<exists>outs c'. feed_all s4_client_post_decrypt (map (\<lambda>c. [c]) (concat ws)) (auth_sha1_v4_new []) = (Inr outs, c')
         \<and> concat outs = ''abcd'')"
proof -
  let ?f = "\<lambda>b t p. let (r, t') = s4_server_pre_encrypt b t p in (r, t', p)"
  let ?n = "auth_sha1_v4_new []"
  have c: "concat (map (\<lambda>c. [c]) w) = w" for w :: bytes by (induction w) simp_all
  have n: "\<not> s4_raw_trans ?n" "s4_unit_len ?n = 8100" "s4_recv_buf ?n = []"
    by (simp_all add: auth_sha1_v4_new_def)
  obtain ws t' where w: "encode_all ?f [''abc'', [], ''d''] ''seed'' ?n = (Inr ws, t', ?n)"
      and all: "\<forall>cs. concat cs = concat ws \<longrightarrow> (\<exists>outs c'. feed_all s4_client_post_decrypt cs ?n = (Inr outs, c')
         \<and> concat outs = concat [''abc'', [], ''d''] \<and> s4_recv_buf c' = [])"
    using auth_sha1_v4_down [OF n(1,2,1,3), of "[''abc'', [], ''d'']" "''seed''"]
    by (elim exE conjE) (rule that)
  have "concat [''abc'', [], ''d''] = ''abcd''" by simp
  then have "\<exists>outs c'. feed_all s4_client_post_decrypt (map (\<lambda>c. [c]) (concat ws)) ?n = (Inr outs, c')
      \<and> concat outs = ''abcd''"
    using all [rule_format, OF c] by auto
  from conjI [OF w this] show ?thesis by (intro exI)
qed

subsection \<open>The header\<close>

lemma s4_auth_data_fields:
  assumes "s4_auth_data now d t = (auth, d', t')"
    and "v2_local_client_id d = [] \<or> length (v2_local_client_id d) = 4"
    and "v2_connection_id d < 0xFFFFFFFF"
  shows "auth = le32 (utc32 now) @ v2_local_client_id d' @ le32 (v2_connection_id d')"
    and "length (v2_local_client_id d') = 4" and "v2_connection_id d' < 4294967296"
    and "length auth = 12"
proof -
  have "le_val c mod 16777216 < 16777216" for c by simp
  then show "auth = le32 (utc32 now) @ v2_local_client_id d' @ le32 (v2_connection_id d')"
    and "length (v2_local_client_id d') = 4" and "v2_connection_id d' < 4294967296"
    using assms by (auto simp: s4_auth_data_def Let_def split: prod.splits if_splits
        intro: less_trans dest: urandom_length simp flip: Suc_le_eq)
  then show "length auth = 12" by simp
qed

lemma s4_pack_auth_shape:
  assumes "0 < length buf" and "length buf \<le> 8100"
  shows "\<exists>rnd t'. padding be_val rnd \<and> length rnd \<le> 514
    \<and> (let len = length rnd + length buf + 16;
           data1 = be16 len @ le32 (crc32 (be16 len @ salt @ si_key i)) @ rnd @ buf
       in s4_pack_auth_data hl salt i t buf
            = (Inr (data1 @ take 10 (hmac hl SHA1 (si_iv i @ si_key i) data1)), t'))"
proof -
  obtain rnd t' where r: "s4_rnd_data (length buf) t = (rnd, t')" by fastforce
  note pad = s4_rnd_data_padding [OF r]
  have "length rnd + length buf + 16 < 65536" using pad(2) assms(2) by linarith
  then show ?thesis
    using pad assms r
    by (intro exI [of _ rnd] exI [of _ t']) (simp add: s4_pack_auth_data_def pack_be16_def Let_def)
qed

lemma py_slice_diff' [simp]: "k \<le> j \<Longrightarrow> py_slice s (int i) (int j - int k) = py_sub s i (j - k)"
  by (rule py_slice_diff)

text \<open>The server waits for the rest of a header of length \<open>len\<close>, and then cuts its fields out.\<close>

lemma s4_header_wait:
  assumes "s4_recv_buf p @ x = be16 len @ le32 (crc32 (be16 len @ s4_salt p @ si_key i)) @ rest"
    and "p_server_info p = Some i" and "length (s4_recv_buf p) < len" and "len < 65536"
  shows "s4_read_header hl now p = (HReturn (Inr ([], False)), p)"
proof (cases "length (s4_recv_buf p) \<le> 6")
  case False
  let ?rb = "s4_recv_buf p"
  have "take 2 (?rb @ x) = be16 len" "py_sub (?rb @ x) 2 6 = le32 (crc32 (be16 len @ s4_salt p @ si_key i))"
    using py_sub_exact [of "be16 len" 2 "le32 (crc32 (be16 len @ s4_salt p @ si_key i))" 6 rest]
    by (simp_all add: assms(1))
  then have "take 2 ?rb = be16 len" "py_sub ?rb 2 6 = le32 (crc32 (be16 len @ s4_salt p @ si_key i))"
    using False by (simp_all add: py_sub_append)
  then show ?thesis using assms False by (simp add: s4_read_header_def Let_def)
qed (simp add: s4_read_header_def)

lemma s4_header_read:
  assumes rb: "s4_recv_buf p = (be16 len @ le32 (crc32 (be16 len @ s4_salt p @ si_key i)) @ rnd @ body) @ mac @ y"
    and "p_server_info p = Some i" and "padding be_val rnd" and "length mac = 10"
    and mac: "mac = take 10 (hmac hl SHA1 (si_recv_iv i @ si_key i)
        (be16 len @ le32 (crc32 (be16 len @ s4_salt p @ si_key i)) @ rnd @ body))"
    and "len = length rnd + length body + 16" and "len < 65536" and "12 \<le> length body"
  shows "s4_read_header hl now p = s4_admit now body len i p"
proof -
  let ?rb = "s4_recv_buf p"
  define pre where "pre = be16 len @ le32 (crc32 (be16 len @ s4_salt p @ si_key i))"
  define d where "d = pre @ rnd @ body"
  have l: "length pre = 6" "length d = len - 10" "length ?rb = len + length y"
    using assms(4,6) rb by (simp_all add: pre_def d_def)
  have rbd: "?rb = d @ mac @ y" "?rb = pre @ rnd @ body @ mac @ y"
    using rb by (simp_all add: d_def pre_def)
  have 1: "take 2 ?rb = be16 len" by (simp add: rb)
  have 2: "py_sub ?rb 2 6 = le32 (crc32 (be16 len @ s4_salt p @ si_key i))"
    using py_sub_exact [of "be16 len" 2 "le32 (crc32 (be16 len @ s4_salt p @ si_key i))" 6 "rnd @ body @ mac @ y"]
    by (simp add: rb)
  have 3: "py_slice ?rb 0 (int len - 10) = d"
    using py_slice_diff [of 10 len ?rb 0] assms(6) l(2) by (simp add: py_sub_def rbd(1))
  have 4: "py_slice ?rb (int len - 10) (int len) = mac"
  proof -
    have "py_slice ?rb (int (len - 10)) (int len) = mac"
      unfolding py_slice_nat rbd(1) by (rule py_sub_exact) (use l assms(4,6) in simp_all)
    then show ?thesis using assms(6) by (simp add: of_nat_diff)
  qed
  have 5: "pad_end 6 be_val ?rb = length rnd + 6"
    unfolding rbd(2) by (rule pad_end_padding [OF assms(3) l(1)])
  have 6: "py_slice ?rb (int (length rnd + 6)) (int len - 10) = body"
  proof -
    have "py_slice ?rb (int (length rnd + 6)) (int len - int 10) = py_sub ?rb (length rnd + 6) (len - 10)"
      using assms(6) by (intro py_slice_diff) simp
    also have "\<dots> = body"
      using py_sub_exact [of "pre @ rnd" "length rnd + 6" body "len - 10" "mac @ y"] l(1) assms(6)
      by (simp add: rbd(2))
    finally show ?thesis by simp
  qed
  have "\<not> length ?rb \<le> 6" "\<not> len > length ?rb" "\<not> length ?rb < 9"
    using l assms(6,8) by simp_all
  then show ?thesis
    using assms(2,7,8) mac 1 2 3 4 5 6
    by (simp add: s4_read_header_def Let_def d_def pre_def)
qed

lemma s4_admit_go:
  assumes "length lid = 4" and "cid < 4294967296"
    and "\<bar>floor ts - floor tc\<bar> \<le> 86400" and "s4_max_time_dif p = 86400"
    and "v2_insert ts (le_val lid) cid (si_data i) = (Inr True, d)"
  shows "s4_admit ts ((le32 (utc32 tc) @ lid @ le32 cid) @ body) len i p
    = (HGo body True, p\<lparr>p_server_info := Some (i\<lparr>si_data := d\<rparr>), s4_has_recv_header := True,
         s4_client_id := le_val lid, s4_connection_id := cid, s4_recv_buf := drop len (s4_recv_buf p)\<rparr>)"
proof -
  have "int32 (int (utc32 tc) - int (utc32 ts)) = floor tc - floor ts"
    using assms(3) by (intro int32_diff) linarith
  moreover have "py_sub ((le32 (utc32 tc) @ lid @ le32 cid) @ body) 4 8 = lid"
    using py_sub_exact [of "le32 (utc32 tc)" 4 lid 8 "le32 cid @ body"] assms(1) by simp
  moreover have "py_sub ((le32 (utc32 tc) @ lid @ le32 cid) @ body) 8 12 = le32 cid"
    using py_sub_exact [of "le32 (utc32 tc) @ lid" 8 "le32 cid" 12 body] assms(1) by simp
  moreover have "\<not> floor tc - floor ts < - 86400" "\<not> 86400 < floor tc - floor ts"
    using assms(3) by linarith+
  ultimately show ?thesis
    using assms(1,2,4,5) by (simp add: s4_admit_def Let_def)
qed

lemma s4_waits:
  assumes "p = s\<lparr>s4_recv_buf := b\<rparr>" and "\<not> s4_raw_trans s" and "\<not> s4_has_recv_header s"
    and "p_server_info s = Some i"
    and h: "(b @ c) @ x = be16 len @ le32 (crc32 (be16 len @ s4_salt s @ si_key i)) @ rest"
    and "x \<noteq> []" and len: "length ((b @ c) @ x) = len" "len < 65536"
  shows "s4_server_post_decrypt hl now c p = (Inr ([], False), s\<lparr>s4_recv_buf := b @ c\<rparr>)"
proof -
  let ?q = "s\<lparr>s4_recv_buf := b @ c\<rparr>"
  have "s4_read_header hl now ?q = (HReturn (Inr ([], False)), ?q)"
  proof (rule s4_header_wait [where x = x and len = len and rest = rest])
    have "0 < length x" using assms(6) by simp
    then show "length (s4_recv_buf ?q) < len" unfolding len(1) [symmetric] by simp
  qed (use assms(4) h len(2) in simp_all)
  then show ?thesis using assms(1-3) by (simp add: s4_server_post_decrypt_def)
qed

lemma s4_client_first:
  assumes "\<not> s4_has_sent_header c" and "p_server_info c = Some i" and "s4_unit_len c = 8100"
    and "v2_local_client_id (si_data i) = [] \<or> length (v2_local_client_id (si_data i)) = 4"
    and "v2_connection_id (si_data i) < 0xFFFFFFFF"
  shows "\<exists>k rnd d t' fs. let body = (le32 (utc32 tc) @ v2_local_client_id d @ le32 (v2_connection_id d)) @ take k buf;
      len = length rnd + length body + 16;
      data1 = be16 len @ le32 (crc32 (be16 len @ s4_salt c @ si_key i)) @ rnd @ body
    in s4_client_pre_encrypt hl tc buf t c
        = (Inr ((data1 @ take 10 (hmac hl SHA1 (si_iv i @ si_key i) data1)) @ concat (map fst fs)), t',
           c\<lparr>p_server_info := Some (i\<lparr>si_data := d\<rparr>), s4_has_sent_header := True\<rparr>)
      \<and> padding be_val rnd \<and> length rnd \<le> 514 \<and> k \<le> 290
      \<and> length (v2_local_client_id d) = 4 \<and> v2_connection_id d < 4294967296
      \<and> framed s4_step () fs () \<and> concat (map fst (map snd fs)) = drop k buf"
proof -
  obtain k t1 where k: "randint 0 31 t = (k, t1)" by fastforce
  define n where "n = min (length buf) (k + get_head_size buf 30)"
  have n: "n \<le> 290" using randint_bounds [OF _ k] get_head_size_bound [of buf 30] by (simp add: n_def)
  obtain auth d t2 where a: "s4_auth_data tc (si_data i) t1 = (auth, d, t2)" using prod_cases3 by blast
  note af = s4_auth_data_fields [OF a assms(4,5)]
  let ?body = "auth @ take n buf"
  have "0 < length ?body" "length ?body \<le> 8100" using af(4) n by simp_all
  from s4_pack_auth_shape [OF this, of "s4_salt c" i hl t2] obtain rnd t3 where r: "padding be_val rnd" "length rnd \<le> 514"
      "let len = length rnd + length ?body + 16;
           data1 = be16 len @ le32 (crc32 (be16 len @ s4_salt c @ si_key i)) @ rnd @ ?body
       in s4_pack_auth_data hl (s4_salt c) i t2 ?body
            = (Inr (data1 @ take 10 (hmac hl SHA1 (si_iv i @ si_key i) data1)), t3)"
    by blast
  let ?c = "c\<lparr>p_server_info := Some (i\<lparr>si_data := d\<rparr>), s4_has_sent_header := True\<rparr>"
  obtain fs t4 where fs: "s4_pack_all (drop n buf) t3 ?c = (Inr (concat (map fst fs)), t4)"
      "framed s4_step () fs ()" "concat (map fst (map snd fs)) = drop n buf"
    using s4_pack_all_framed [of ?c "drop n buf" t3] assms(3) by auto
  define data1 where "data1 = be16 (length rnd + length ?body + 16)
      @ le32 (crc32 (be16 (length rnd + length ?body + 16) @ s4_salt c @ si_key i)) @ rnd @ ?body"
  have "s4_client_pre_encrypt hl tc buf t c
        = (Inr ((data1 @ take 10 (hmac hl SHA1 (si_iv i @ si_key i) data1)) @ concat (map fst fs)), t4, ?c)"
    using r(3) fs(1) assms(1,2) k a
    by (simp add: s4_client_pre_encrypt_def n_def [symmetric] Let_def data1_def)
  then show ?thesis
    using r(1,2) n af fs(2,3) unfolding data1_def af(1) Let_def by blast
qed

text \<open>The server's side: a request in this form is taken in whatever pieces it comes.\<close>

lemma s4_server_stream:
  assumes hl: "hash_sizes hl" and key: "si_key is = k0" and iv: "si_recv_iv is = v0"
    and body_def: "body = (le32 (utc32 tc) @ v2_local_client_id d @ le32 (v2_connection_id d)) @ pre"
    and len_def: "len = length rnd + length body + 16"
    and data1_def: "data1 = be16 len @ le32 (crc32 (be16 len @ ''auth_sha1_v4'' @ k0)) @ rnd @ body"
    and mac_def: "mac = take 10 (hmac hl SHA1 (v0 @ k0) data1)"
    and pad: "padding be_val rnd" "length rnd \<le> 514" "length pre \<le> 290"
    and ids: "length (v2_local_client_id d) = 4" "v2_connection_id d < 4294967296"
    and ins: "v2_insert ts (le_val (v2_local_client_id d)) (v2_connection_id d) (si_data is) = (Inr True, ds)"
    and time: "\<bar>floor ts - floor tc\<bar> \<le> 86400" and all: "framed s4_step () fs ()"
    and cs: "concat cs = (data1 @ mac) @ concat (map fst fs)"
  shows "\<exists>outs s. feed_all (s4_server_post_decrypt hl ts) cs (auth_sha1_v4_new m' \<lparr>p_server_info := Some is\<rparr>) = (Inr outs, s)
      \<and> concat (map fst outs) = pre @ concat (map fst (map snd fs)) \<and> s4_open s []"
proof -
  let ?srv = "auth_sha1_v4_new m' \<lparr>p_server_info := Some is\<rparr>"
  let ?salt = "''auth_sha1_v4''"
  have lm: "length mac = 10" unfolding mac_def by (rule hash_sizes_take [OF hl]) simp
  have lh: "length (data1 @ mac) = len" "len < 65536" "12 \<le> length body"
    using lm pad ids(1) by (auto simp: data1_def len_def body_def)
  have srv: "\<not> s4_raw_trans ?srv" "\<not> s4_has_recv_header ?srv" "p_server_info ?srv = Some is"
      "s4_salt ?srv = ?salt" "s4_max_time_dif ?srv = 86400"
    by (simp_all add: auth_sha1_v4_new_def)
  have drained: "drain s4_step () (concat (map fst fs)) = Drained () [] (map snd fs)"
    by (rule s4.drain_framed [OF all]) simp
  show ?thesis
  proof (rule s4.feed_all_header [where f = "s4_server_post_decrypt hl ts" and val = fst and pay = fst
        and waiting = "\<lambda>p b. p = ?srv\<lparr>s4_recv_buf := b\<rparr>" and rel = "\<lambda>p st r. s4_open p r"
        and h = "data1 @ mac", OF _ _ _ drained])
    fix s b c x assume s: "s = ?srv\<lparr>s4_recv_buf := b\<rparr>" and h: "(b @ c) @ x = data1 @ mac" and x: "x \<noteq> []"
    have "s4_server_post_decrypt hl ts c s = (Inr ([], False), ?srv\<lparr>s4_recv_buf := b @ c\<rparr>)"
      by (rule s4_waits [where x = x and rest = "rnd @ body @ mac" and len = len, OF s srv(1-3) _ x])
         (use h lh in \<open>simp_all add: data1_def srv(4) key\<close>)
    then show "\<exists>out s'. s4_server_post_decrypt hl ts c s = (Inr out, s') \<and> fst out = []
        \<and> s' = ?srv\<lparr>s4_recv_buf := b @ c\<rparr>" by simp
  next
    fix s b c y and st' :: unit and r ps
    assume s: "s = ?srv\<lparr>s4_recv_buf := b\<rparr>" and h: "b @ c = (data1 @ mac) @ y"
      and dr: "drain s4_step () y = Drained st' r ps"
    let ?q = "?srv\<lparr>s4_recv_buf := b @ c\<rparr>"
    have "s4_read_header hl ts ?q = s4_admit ts body len is ?q"
      by (rule s4_header_read [where rnd = rnd and mac = mac and y = y])
         (use h pad lm lh len_def key iv srv in \<open>simp_all add: data1_def mac_def\<close>)
    also have "\<dots> = (HGo pre True, ?q\<lparr>p_server_info := Some (is\<lparr>si_data := ds\<rparr>), s4_has_recv_header := True,
         s4_client_id := le_val (v2_local_client_id d), s4_connection_id := v2_connection_id d,
         s4_recv_buf := drop len (s4_recv_buf ?q)\<rparr>)"
      unfolding body_def by (rule s4_admit_go [OF ids time _ ins]) (simp add: auth_sha1_v4_new_def)
    finally have rd: "s4_read_header hl ts ?q = (HGo pre True, ?q\<lparr>p_server_info := Some (is\<lparr>si_data := ds\<rparr>),
         s4_has_recv_header := True, s4_client_id := le_val (v2_local_client_id d),
         s4_connection_id := v2_connection_id d, s4_recv_buf := y\<rparr>)"
      using lh(1) by (simp add: h)
    let ?q2 = "?q\<lparr>p_server_info := Some (is\<lparr>si_data := ds\<rparr>), s4_has_recv_header := True,
         s4_client_id := le_val (v2_local_client_id d), s4_connection_id := v2_connection_id d, s4_recv_buf := y\<rparr>"
    obtain b2 q3 where "s4_server_frames ts pre True ?q2 = (Inr (pre @ concat (map fst ps), b2), q3)"
        "s4_open q3 r"
      using s4_server_frames_drained [of ?q2 st' r ps ts "pre" True] dr srv by auto
    then show "\<exists>out s'. s4_server_post_decrypt hl ts c s = (Inr out, s')
        \<and> fst out = pre @ concat (map fst ps) \<and> s4_open s' r"
      using rd srv s by (simp add: s4_server_post_decrypt_def)
  next
    fix s b c and st st' :: unit and r ps
    assume "s4_open s b" and "drain s4_step st (b @ c) = Drained st' r ps"
    then show "\<exists>out s'. s4_server_post_decrypt hl ts c s = (Inr out, s') \<and> fst out = concat (map fst ps)
        \<and> s4_open s' r"
      using s4_server_call [of s b c st' r ps] by simp
  next
    show "[] @ concat cs = (data1 @ mac) @ concat (map fst fs)"
      using cs by simp
    show "length [] < length (data1 @ mac)" using lm by simp
    show "?srv = ?srv\<lparr>s4_recv_buf := []\<rparr>" by (simp add: auth_sha1_v4_new_def)
  qed
qed

text \<open>C34. A connection of auth_sha1_v4 from a client to a server with the same key, near clocks, and
  a replay window that accepts the client's ids: for any random padding and any cut of the stream -
  header included - the server takes every chunk without an exception and delivers exactly the bytes
  that the client wrote.\<close>

theorem auth_sha1_v4_up:
  assumes "hash_sizes hl" and "si_key is = si_key ic" and "si_recv_iv is = si_iv ic"
    and "v2_local_client_id (si_data ic) = [] \<or> length (v2_local_client_id (si_data ic)) = 4"
    and "v2_connection_id (si_data ic) < 0xFFFFFFFF"
    and enc: "encode_all (s4_client_pre_encrypt hl tc) (buf # bufs) t
        (auth_sha1_v4_new m \<lparr>p_server_info := Some ic\<rparr>) = (Inr ws, t', c)"
    and "p_server_info c = Some jc"
    and "fst (v2_insert ts (le_val (v2_local_client_id (si_data jc))) (v2_connection_id (si_data jc)) (si_data is))
        = Inr True"
    and "\<bar>floor ts - floor tc\<bar> \<le> 86400" and "concat cs = concat ws"
  shows "\<exists>outs s. feed_all (s4_server_post_decrypt hl ts) cs (auth_sha1_v4_new m' \<lparr>p_server_info := Some is\<rparr>)
      = (Inr outs, s) \<and> concat (map fst outs) = concat (buf # bufs) \<and> s4_recv_buf s = []
      \<and> s4_has_recv_header s \<and> \<not> s4_raw_trans s"
proof -
  let ?cli = "auth_sha1_v4_new m \<lparr>p_server_info := Some ic\<rparr>"
  let ?srv = "auth_sha1_v4_new m' \<lparr>p_server_info := Some is\<rparr>"
  let ?salt = "''auth_sha1_v4''"
  have new: "\<not> s4_has_sent_header ?cli" "p_server_info ?cli = Some ic" "s4_unit_len ?cli = 8100"
      "s4_salt ?cli = ?salt"
    by (simp_all add: auth_sha1_v4_new_def)
  obtain k rnd d t1 fs where f: "let body = (le32 (utc32 tc) @ v2_local_client_id d @ le32 (v2_connection_id d)) @ take k buf;
      len = length rnd + length body + 16;
      data1 = be16 len @ le32 (crc32 (be16 len @ s4_salt ?cli @ si_key ic)) @ rnd @ body
    in s4_client_pre_encrypt hl tc buf t ?cli
        = (Inr ((data1 @ take 10 (hmac hl SHA1 (si_iv ic @ si_key ic) data1)) @ concat (map fst fs)), t1,
           ?cli\<lparr>p_server_info := Some (ic\<lparr>si_data := d\<rparr>), s4_has_sent_header := True\<rparr>)
      \<and> padding be_val rnd \<and> length rnd \<le> 514 \<and> k \<le> 290
      \<and> length (v2_local_client_id d) = 4 \<and> v2_connection_id d < 4294967296
      \<and> framed s4_step () fs () \<and> concat (map fst (map snd fs)) = drop k buf"
    using s4_client_first [OF new(1-3) assms(4,5), of tc buf hl t] by blast
  define body where "body = (le32 (utc32 tc) @ v2_local_client_id d @ le32 (v2_connection_id d)) @ take k buf"
  define len where "len = length rnd + length body + 16"
  define data1 where "data1 = be16 len @ le32 (crc32 (be16 len @ ?salt @ si_key ic)) @ rnd @ body"
  define mac where "mac = take 10 (hmac hl SHA1 (si_iv ic @ si_key ic) data1)"
  let ?cliB = "?cli\<lparr>p_server_info := Some (ic\<lparr>si_data := d\<rparr>), s4_has_sent_header := True\<rparr>"
  have w: "s4_client_pre_encrypt hl tc buf t ?cli = (Inr ((data1 @ mac) @ concat (map fst fs)), t1, ?cliB)"
    and pad: "padding be_val rnd" "length rnd \<le> 514" "k \<le> 290"
    and ids: "length (v2_local_client_id d) = 4" "v2_connection_id d < 4294967296"
    and fs: "framed s4_step () fs ()" "concat (map fst (map snd fs)) = drop k buf"
    using f unfolding Let_def new(4) body_def [symmetric] len_def [symmetric] data1_def [symmetric]
      mac_def [symmetric] by auto
  have sent: "\<exists>fs t'. s4_client_pre_encrypt hl tc b t ?cliB = (Inr (concat (map fst fs)), t', ?cliB)
      \<and> framed s4_step () fs () \<and> concat (map fst (map snd fs)) = b" for b t
    using s4_pack_all_framed [of ?cliB b t] by (fastforce simp: s4_client_pre_encrypt_def auth_sha1_v4_new_def)
  obtain ws2 t2 gs where g: "encode_all (s4_client_pre_encrypt hl tc) bufs t1 ?cliB = (Inr ws2, t2, ?cliB)"
      "concat ws2 = concat (map fst gs)" "framed s4_step () gs ()" "concat (map fst (map snd gs)) = concat bufs"
    using s4_encode_all [where f = "s4_client_pre_encrypt hl tc" and p = ?cliB, OF sent, of bufs t1]
    by (elim exE conjE) (rule that)
  have ws: "ws = ((data1 @ mac) @ concat (map fst fs)) # ws2" "c = ?cliB"
    using enc w g(1) by simp_all
  have jc: "si_data jc = d" using assms(7) by (auto simp: ws(2))
  obtain ds where ins: "v2_insert ts (le_val (v2_local_client_id d)) (v2_connection_id d) (si_data is) = (Inr True, ds)"
    using assms(8) by (cases "v2_insert ts (le_val (v2_local_client_id d)) (v2_connection_id d) (si_data is)")
      (simp add: jc)
  have all: "framed s4_step () (fs @ gs) ()" unfolding framed_append using fs(1) g(3) by blast
  have cs: "concat cs = (data1 @ mac) @ concat (map fst (fs @ gs))" using assms(10) g(2) by (simp add: ws(1))
  have "length (take k buf) \<le> 290" using pad(3) by simp
  from s4_server_stream [OF assms(1-3) body_def len_def data1_def mac_def pad(1,2) this ids ins assms(9) all cs, of m']
  have "\<exists>outs s. feed_all (s4_server_post_decrypt hl ts) cs ?srv = (Inr outs, s)
      \<and> concat (map fst outs) = take k buf @ concat (map fst (map snd (fs @ gs))) \<and> s4_open s []" .
  moreover have "take k buf @ concat (map fst (map snd (fs @ gs))) = concat (buf # bufs)"
    using fs(2) g(4) by (simp add: append_assoc [symmetric] del: append_assoc map_map)
  ultimately show ?thesis unfolding s4_open_def by auto
qed

theorem auth_sha1_v4_up_witness:
  "\<exists>ws outs s. fst (encode_all (s4_client_pre_encrypt plain_hashes 1000) [''GET /'', ''x''] []
        (auth_sha1_v4_new ''auth_sha1_v4'' \<lparr>p_server_info := Some (server_info_new v2_data_new)\<rparr>)) = Inr ws
    \<and> feed_all (s4_server_post_decrypt plain_hashes 2000) (map (\<lambda>c. [c]) (concat ws))
        (auth_sha1_v4_new ''auth_sha1_v4'' \<lparr>p_server_info := Some (server_info_new v2_data_new)\<rparr>) = (Inr outs, s)
    \<and> concat (map fst outs) = ''GET /x''"
proof -
  let ?i = "server_info_new v2_data_new"
  let ?c = "auth_sha1_v4_new ''auth_sha1_v4'' \<lparr>p_server_info := Some ?i\<rparr>"
  have d: "v2_local_client_id (si_data ?i) = []" "v2_connection_id (si_data ?i) = 0" "si_data ?i = v2_data_new"
    by (simp_all add: server_info_new_def v2_data_new_def set_max_client_v2_def)
  have n: "\<not> s4_has_sent_header ?c" "p_server_info ?c = Some ?i" "s4_unit_len ?c = 8100"
    by (simp_all add: auth_sha1_v4_new_def)
  obtain w t1 d1 where 1: "s4_client_pre_encrypt plain_hashes 1000 ''GET /'' [] ?c
      = (Inr w, t1, ?c\<lparr>p_server_info := Some (?i\<lparr>si_data := d1\<rparr>), s4_has_sent_header := True\<rparr>)"
    using s4_client_first [OF n, of 1000 "''GET /''" plain_hashes "[]"] d unfolding Let_def by auto
  let ?c1 = "?c\<lparr>p_server_info := Some (?i\<lparr>si_data := d1\<rparr>), s4_has_sent_header := True\<rparr>"
  obtain w2 t2 where 2: "s4_client_pre_encrypt plain_hashes 1000 ''x'' t1 ?c1 = (Inr w2, t2, ?c1)"
    using s4_pack_all_framed [of ?c1 "''x''" t1] by (auto simp: s4_client_pre_encrypt_def auth_sha1_v4_new_def)
  have e: "encode_all (s4_client_pre_encrypt plain_hashes 1000) [''GET /'', ''x''] [] ?c = (Inr [w, w2], t2, ?c1)"
    using 1 2 by simp
  have c: "concat (map (\<lambda>c. [c]) w) = w" for w :: bytes by (induction w) simp_all
  have "\<exists>outs s. feed_all (s4_server_post_decrypt plain_hashes 2000) (map (\<lambda>c. [c]) (concat [w, w2])) ?c = (Inr outs, s)
      \<and> concat (map fst outs) = concat [''GET /'', ''x''] \<and> s4_recv_buf s = [] \<and> s4_has_recv_header s \<and> \<not> s4_raw_trans s"
    by (rule auth_sha1_v4_up [OF plain_hashes_sizes refl _ _ _ e _ _ _ c])
       (simp_all add: d v2_insert_fresh, simp_all add: server_info_new_def v2_data_new_def set_max_client_v2_def)
  then obtain outs s where run: "feed_all (s4_server_post_decrypt plain_hashes 2000) (map (\<lambda>c. [c]) (concat [w, w2])) ?c
      = (Inr outs, s)" "concat (map fst outs) = concat [''GET /'', ''x'']" by blast
  have "concat (map fst outs) = ''GET /x''" using run(2) by simp
  moreover have "fst (encode_all (s4_client_pre_encrypt plain_hashes 1000) [''GET /'', ''x''] [] ?c) = Inr [w, w2]"
    unfolding e by simp
  ultimately show ?thesis using run(1) by blast
qed

end
