(* ===== verification/Auth_Aes128.thy ===== *)
theory Auth_Aes128
  imports Auth_Sha1_V4 Encryptor Py_Strings Complex_Main
begin

text \<open>
  The protocols \<^verbatim>\<open>auth_aes128_md5\<close> and \<^verbatim>\<open>auth_aes128_sha1\<close> of
  \<^verbatim>\<open>obfsplugin/auth.py\<close> (class \<^verbatim>\<open>auth_aes128_sha1\<close>), TCP and UDP. The header names the
  user, whose password gives the key of the connection, and carries time, client id and connection
  id in one AES-CBC block; every frame has two HMACs under the key and a running number. AES and
  the hashes are parameters; floating-point numbers are modelled by reals.
\<close>

subsection \<open>Base64\<close>

text \<open>\<^verbatim>\<open>base64.b64encode\<close>\<close>

definition b64_char :: "nat \<Rightarrow> char" where
  "b64_char n =
     (if n < 26 then chrb (65 + n) else if n < 52 then chrb (71 + n)
      else if n < 62 then chrb (n - 4) else if n = 62 then CHR ''+'' else CHR ''/'')"

fun b64encode :: "bytes \<Rightarrow> bytes" where
  "b64encode [] = []"
| "b64encode [a] =
     [b64_char (ordb a div 4), b64_char (ordb a mod 4 * 16), CHR ''='', CHR ''='']"
| "b64encode [a, b] =
     [b64_char (ordb a div 4), b64_char (ordb a mod 4 * 16 + ordb b div 16),
      b64_char (ordb b mod 16 * 4), CHR ''='']"
| "b64encode (a # b # c # s) =
     [b64_char (ordb a div 4), b64_char (ordb a mod 4 * 16 + ordb b div 16),
      b64_char (ordb b mod 16 * 4 + ordb c div 64), b64_char (ordb c mod 64)] @ b64encode s"

lemma b64_char_ascii: "n < 64 \<Longrightarrow> ordb (b64_char n) < 128"
  by (auto simp: b64_char_def)

lemma b64encode_ascii: "is_ascii (b64encode s)"
proof -
  have d: "ordb c div 4 < 64" "ordb c div 16 < 16" "ordb c div 64 < 4" "ordb c mod 4 < 4"
      "ordb c mod 16 < 16" "ordb c mod 64 < 64" for c
    using ordb_less [of c] by (simp_all add: less_mult_imp_div_less)
  have "ordb a mod 4 * 16 + ordb b div 16 < 64" "ordb a mod 16 * 4 + ordb b div 64 < 64"
      "ordb a mod 4 * 16 < 64" "ordb a mod 16 * 4 < 64" for a b
    using d [of a] d [of b] by linarith+
  then show ?thesis
    by (induction s rule: b64encode.induct) (simp_all add: is_ascii_def b64_char_ascii d)
qed

subsection \<open>State\<close>

record auth_aes128 = "client_queue mu_data plain" +
  a1_hashfunc :: hashfunc
  a1_recv_buf :: bytes
  a1_unit_len :: nat
  a1_raw_trans :: bool
  a1_has_sent_header :: bool
  a1_has_recv_header :: bool
  a1_client_id :: nat
  a1_connection_id :: nat
  a1_max_time_dif :: int
  a1_salt :: bytes
  a1_no_compatible_method :: bytes
  a1_extra_wait_size :: nat
  a1_pack_id :: nat
  a1_recv_id :: nat
  a1_user_id :: "bytes option"
  a1_user_key :: "bytes option"
  a1_last_rnd_len :: nat
  a1_overhead :: int

definition auth_aes128_new :: "bytes \<Rightarrow> hashfunc \<Rightarrow> tape \<Rightarrow> auth_aes128 \<times> tape" where
  "auth_aes128_new method hf t =
     (let (r, t') = urandom 2 t;
          name = (if hf = MD5 then ''auth_aes128_md5'' else ''auth_aes128_sha1'')
      in (\<lparr>p_method = method, p_server_info = None, a1_hashfunc = hf, a1_recv_buf = [],
           a1_unit_len = 8100, a1_raw_trans = False, a1_has_sent_header = False,
           a1_has_recv_header = False, a1_client_id = 0, a1_connection_id = 0,
           a1_max_time_dif = 60 * 60 * 24, a1_salt = name, a1_no_compatible_method = name,
           a1_extra_wait_size = be_val r mod 1024, a1_pack_id = 1, a1_recv_id = 1,
           a1_user_id = None, a1_user_key = None, a1_last_rnd_len = 0, a1_overhead = 9\<rparr>, t'))"

definition a1_get_overhead :: "bool \<Rightarrow> auth_aes128 \<Rightarrow> int" where
  "a1_get_overhead direction p = a1_overhead p"

definition max_client_param :: "bytes \<Rightarrow> int" where
  "max_client_param param = (case py_int (hd (py_split ''#'' param)) of Some n \<Rightarrow> n | None \<Rightarrow> 64)"

definition a1_set_server_info :: "client_queue mu_data server_info \<Rightarrow> auth_aes128 \<Rightarrow> auth_aes128" where
  "a1_set_server_info i p =
     p\<lparr>p_server_info := Some (i\<lparr>si_data :=
         set_max_client_mu (max_client_param (si_protocol_param i)) (si_data i)\<rparr>)\<rparr>"

definition a1_not_match_return :: "bytes \<Rightarrow> auth_aes128 \<Rightarrow> (bytes \<times> bool) \<times> auth_aes128" where
  "a1_not_match_return buf p =
     (if p_method p = a1_no_compatible_method p then (decoy, False) else (buf, False),
      p\<lparr>a1_raw_trans := True, a1_overhead := 0\<rparr>)"


subsection \<open>Frames\<close>

text \<open>\<^verbatim>\<open>random.random()\<close>: a multiple of \<^verbatim>\<open>2 ** -53\<close> below 1.\<close>

definition random_random :: "tape \<Rightarrow> real \<times> tape" where
  "random_random t = (let (r, t') = urandom 7 t in (real (le_val r mod 2 ^ 53) / 2 ^ 53, t'))"

definition trapezoid_random_float :: "real \<Rightarrow> tape \<Rightarrow> real \<times> tape" where
  "trapezoid_random_float d t =
     (let (s, t') = random_random t
      in if d = 0 then (s, t')
         else (let a = 1 - d in ((sqrt (a * a + 4 * d * s) - a) / (2 * d), t')))"

text \<open>\<^verbatim>\<open>int(x)\<close> cuts towards zero.\<close>

definition trapezoid_random_int :: "int \<Rightarrow> real \<Rightarrow> tape \<Rightarrow> int \<times> tape" where
  "trapezoid_random_int max_val d t =
     (let (v, t') = trapezoid_random_float d t;
          x = v * real_of_int max_val
      in (if x < 0 then - floor (- x) else floor x, t'))"

text \<open>A length of the padding; it is never negative (\<open>trapezoid_bounds\<close> below).\<close>

definition a1_rnd_data_len :: "nat \<Rightarrow> nat \<Rightarrow> 'd server_info \<Rightarrow> tape \<Rightarrow> nat \<times> tape" where
  "a1_rnd_data_len buf_size full_buf_size i t =
     (if full_buf_size \<ge> si_buffer_size i then (0, t)
      else
        (let tcp_mss = si_tcp_mss i;
             rev_len = tcp_mss - int buf_size - 9
         in if rev_len = 0 then (0, t)
            else if rev_len < 0 then
              (if rev_len > - tcp_mss
               then apfst nat (trapezoid_random_int (rev_len + tcp_mss) (-0.3) t)
               else (let (r, t') = urandom 1 t in (ordb (hd r) mod 32, t')))
            else if buf_size > 900 then (let (r, t') = urandom 2 t in (be_val r mod nat rev_len, t'))
            else apfst nat (trapezoid_random_int rev_len (-0.3) t)))"

definition a1_rnd_data :: "nat \<Rightarrow> nat \<Rightarrow> 'd server_info \<Rightarrow> tape \<Rightarrow> bytes res \<times> tape" where
  "a1_rnd_data buf_size full_buf_size i t =
     (let (data_len, t1) = a1_rnd_data_len buf_size full_buf_size i t
      in if data_len < 128 then
           (let (r, t2) = urandom data_len t1 in (Inr (chrb (data_len + 1) # r), t2))
         else
           (case pack_le16 (data_len + 1) of
              Inl e \<Rightarrow> (Inl e, t1)
            | Inr l \<Rightarrow> (let (r, t2) = urandom (data_len - 2) t1 in (Inr (chrb 255 # l @ r), t2))))"

text \<open>The packer's state is \<^verbatim>\<open>pack_id\<close> and the tape.\<close>

definition a1_pack_data :: "hash_lib \<Rightarrow> auth_aes128 \<Rightarrow> nat \<Rightarrow> nat \<times> tape \<Rightarrow> bytes \<Rightarrow> bytes res \<times> nat \<times> tape" where
  "a1_pack_data hl p full_buf_size s buf =
     (case s of (pid, t) \<Rightarrow>
        (case p_server_info p of
           None \<Rightarrow> (Inl AttributeError, pid, t)
         | Some i \<Rightarrow>
             (case a1_rnd_data (length buf) full_buf_size i t of
                (Inl e, t1) \<Rightarrow> (Inl e, pid, t1)
              | (Inr rnd, t1) \<Rightarrow>
                  (case a1_user_key p of
                     None \<Rightarrow> (Inl TypeError, pid, t1)
                   | Some key \<Rightarrow>
                       (let data = rnd @ buf;
                            mac_key = key @ le32 pid
                        in case pack_le16 (length data + 8) of
                             Inl e \<Rightarrow> (Inl e, pid, t1)
                           | Inr l \<Rightarrow>
                               (let data1 = l @ take 2 (hmac hl (a1_hashfunc p) mac_key l) @ data
                                in (Inr (data1 @ take 4 (hmac hl (a1_hashfunc p) mac_key data1)),
                                    (pid + 1) mod 4294967296, t1)))))))"

definition a1_pack_all :: "hash_lib \<Rightarrow> nat \<Rightarrow> bytes \<Rightarrow> tape \<Rightarrow> auth_aes128 \<Rightarrow> bytes res \<times> tape \<times> auth_aes128" where
  "a1_pack_all hl ogn_data_len buf t p =
     (case pack_chunks (a1_pack_data hl p ogn_data_len) (a1_pack_id p, t) (chunk_list (a1_unit_len p) buf) of
        (Inl e, pid, t') \<Rightarrow> (Inl e, t', p\<lparr>a1_pack_id := pid\<rparr>)
      | (Inr w, pid, t') \<Rightarrow> (Inr w, t', p\<lparr>a1_pack_id := pid, a1_last_rnd_len := ogn_data_len\<rparr>))"

datatype a1_error = NoUserKey | WrongMac | WrongLength | WrongChecksum

text \<open>A round of the receiver's loop; its state is \<^verbatim>\<open>recv_id\<close>.\<close>

definition a1_step :: "hash_lib \<Rightarrow> hashfunc \<Rightarrow> bytes option \<Rightarrow> nat \<Rightarrow> bytes
    \<Rightarrow> (nat, bytes \<times> bool, a1_error) frame_step" where
  "a1_step hl hf user_key rid rb =
     (if length rb > 4 then
        (case user_key of
           None \<Rightarrow> Bad NoUserKey
         | Some key \<Rightarrow>
             (let mac_key = key @ le32 rid
              in if take 2 (hmac hl hf mac_key (take 2 rb)) \<noteq> py_sub rb 2 4 then Bad WrongMac
                 else
                   (let len = le_val (take 2 rb)
                    in if len \<ge> 8192 \<or> len < 7 then Bad WrongLength
                       else if len > length rb then More
                       else if take 4 (hmac hl hf mac_key (take (len - 4) rb)) \<noteq> py_sub rb (len - 4) len
                         then Bad WrongChecksum
                       else
                         (let pos = pad_end 4 le_val rb
                          in Frame (py_sub rb pos (len - 4), pos = len - 4) ((rid + 1) mod 4294967296) len))))
      else More)"

subsection \<open>The client\<close>

definition a1_auth_data :: "time \<Rightarrow> 'q mu_data \<Rightarrow> tape \<Rightarrow> bytes \<times> 'q mu_data \<times> tape" where
  "a1_auth_data now d t =
     (let d1 = (if mu_connection_id d > 0xFF000000 then d\<lparr>mu_local_client_id := []\<rparr> else d);
          (d2, t2) =
            (if mu_local_client_id d1 = [] then
               (let (r, t1) = urandom 4 t; (c, t2) = urandom 4 t1
                in (d1\<lparr>mu_local_client_id := r, mu_connection_id := le_val c mod 16777216\<rparr>, t2))
             else (d1, t));
          d3 = d2\<lparr>mu_connection_id := mu_connection_id d2 + 1\<rparr>
      in (le32 (utc32 now) @ mu_local_client_id d3 @ le32 (mu_connection_id d3), d3, t2))"

text \<open>The user that \<^verbatim>\<open>protocol_param\<close> names, as \<^verbatim>\<open>id:password\<close>. An id that is no number
  of 32 bits raises after the key is set, and the exception is dropped.\<close>

definition param_user :: "hash_lib \<Rightarrow> hashfunc \<Rightarrow> bytes \<Rightarrow> (bytes \<times> bytes option) option" where
  "param_user hl hf param =
     (if py_in '':'' param
      then
        (let items = py_split '':'' param
         in Some (digest hl hf (items ! 1),
              (case py_int (items ! 0) of
                 Some n \<Rightarrow> if 0 \<le> n \<and> n < 4294967296 then Some (le32 (nat n)) else None
               | None \<Rightarrow> None)))
      else None)"

definition a1_head_cipher :: "'o crypto_lib \<Rightarrow> bytes \<Rightarrow> bytes \<Rightarrow> bytes option \<Rightarrow> tape \<Rightarrow> 'o encryptor res \<times> tape" where
  "a1_head_cipher L key salt iv t = encryptor_new L (b64encode key @ salt) ''aes-128-cbc'' iv t"

definition a1_pack_auth_data :: "hash_lib \<Rightarrow> 'o crypto_lib \<Rightarrow> bytes \<Rightarrow> bytes \<Rightarrow> client_queue mu_data server_info
    \<Rightarrow> tape \<Rightarrow> auth_aes128 \<Rightarrow> bytes res \<times> tape \<times> auth_aes128" where
  "a1_pack_auth_data hl L auth_data buf i t p =
     (if length buf = 0 then (Inr [], t, p)
      else
        (let (r, t1) = urandom 2 t;
             rnd_len = (if length buf > 400 then le_val r mod 512 else le_val r mod 1024);
             data_len = 7 + 4 + 16 + 4 + length buf + rnd_len + 4
         in case pack_le16 data_len of
              Inl e \<Rightarrow> (Inl e, t1, p)
            | Inr l \<Rightarrow>
                (let data = auth_data @ l @ le16 rnd_len;
                     mac_key = si_iv i @ si_key i;
                     (uid0, t2) = urandom 4 t1;
                     (key0, uid) =
                       (case param_user hl (a1_hashfunc p) (si_protocol_param i) of
                          None \<Rightarrow> (a1_user_key p, uid0)
                        | Some (k, None) \<Rightarrow> (Some k, uid0)
                        | Some (k, Some u) \<Rightarrow> (Some k, u));
                     key = (case key0 of None \<Rightarrow> si_key i | Some k \<Rightarrow> k);
                     p1 = p\<lparr>a1_user_key := Some key\<rparr>
                 in case a1_head_cipher L key (a1_salt p) (Some (replicate 16 (chrb 0))) t2 of
                      (Inl e, t3) \<Rightarrow> (Inl e, t3, p1)
                    | (Inr encryptor, t3) \<Rightarrow>
                        (let data1 = uid @ drop 16 (fst (encrypt L data encryptor));
                             data2 = data1 @ take 4 (hmac hl (a1_hashfunc p) mac_key data1);
                             (c, t4) = urandom 1 t3;
                             check_head = c @ take 6 (hmac hl (a1_hashfunc p) mac_key c);
                             (rnd, t5) = urandom rnd_len t4;
                             data3 = check_head @ data2 @ rnd @ buf
                         in (Inr (data3 @ take 4 (hmac hl (a1_hashfunc p) key data3)), t5, p1)))))"

definition a1_client_pre_encrypt :: "hash_lib \<Rightarrow> 'o crypto_lib \<Rightarrow> time \<Rightarrow> bytes \<Rightarrow> tape \<Rightarrow> auth_aes128
    \<Rightarrow> bytes res \<times> tape \<times> auth_aes128" where
  "a1_client_pre_encrypt hl L now buf t p =
     (if a1_has_sent_header p then a1_pack_all hl (length buf) buf t p
      else
        (case p_server_info p of
           None \<Rightarrow> (Inl AttributeError, t, p)
         | Some i \<Rightarrow>
             (let head_size = get_head_size buf 30;
                  (k, t1) = randint 0 31 t;
                  datalen = min (length buf) (k + head_size);
                  (auth, d, t2) = a1_auth_data now (si_data i) t1;
                  p1 = p\<lparr>p_server_info := Some (i\<lparr>si_data := d\<rparr>)\<rparr>
              in case a1_pack_auth_data hl L auth (take datalen buf) i t2 p1 of
                   (Inl e, t3, p2) \<Rightarrow> (Inl e, t3, p2)
                 | (Inr head, t3, p2) \<Rightarrow>
                     (case a1_pack_all hl (length buf) (drop datalen buf) t3 (p2\<lparr>a1_has_sent_header := True\<rparr>) of
                        (r, t4, p3) \<Rightarrow> (rbind r (\<lambda>w. Inr (head @ w)), t4, p3)))))"

definition a1_client_post_decrypt :: "hash_lib \<Rightarrow> bytes \<Rightarrow> auth_aes128 \<Rightarrow> bytes res \<times> auth_aes128" where
  "a1_client_post_decrypt hl buf p =
     (if a1_raw_trans p then (Inr buf, p)
      else
        (case drain (a1_step hl (a1_hashfunc p) (a1_user_key p)) (a1_recv_id p) (a1_recv_buf p @ buf) of
           Drained rid r ps \<Rightarrow> (Inr (concat (map fst ps)), p\<lparr>a1_recv_id := rid, a1_recv_buf := r\<rparr>)
         | Broken NoUserKey rid r ps \<Rightarrow> (Inl TypeError, p\<lparr>a1_recv_id := rid, a1_recv_buf := r\<rparr>)
         | Broken WrongMac rid r ps \<Rightarrow>
             (Inl (Exc ''client_post_decrypt data uncorrect mac''), p\<lparr>a1_recv_id := rid, a1_recv_buf := r\<rparr>)
         | Broken WrongLength rid r ps \<Rightarrow>
             (Inl (Exc ''client_post_decrypt data error''),
              p\<lparr>a1_recv_id := rid, a1_raw_trans := True, a1_recv_buf := []\<rparr>)
         | Broken WrongChecksum rid r ps \<Rightarrow>
             (Inl (Exc ''client_post_decrypt data uncorrect checksum''),
              p\<lparr>a1_recv_id := rid, a1_raw_trans := True, a1_recv_buf := []\<rparr>)
         | Endless \<Rightarrow> (Inl NoReturn, p)))"


subsection \<open>The server\<close>

definition a1_server_pre_encrypt :: "hash_lib \<Rightarrow> bytes \<Rightarrow> tape \<Rightarrow> auth_aes128 \<Rightarrow> bytes res \<times> tape \<times> auth_aes128" where
  "a1_server_pre_encrypt hl buf t p =
     (if a1_raw_trans p then (Inr buf, t, p) else a1_pack_all hl (length buf) buf t p)"

text \<open>The key of the user that a header or a packet names.\<close>

definition a1_key_of :: "hash_lib \<Rightarrow> hashfunc \<Rightarrow> 'd server_info \<Rightarrow> bytes \<Rightarrow> bytes" where
  "a1_key_of hl hf i uid =
     (case map_of (si_users i) uid of
        Some password \<Rightarrow> digest hl hf password
      | None \<Rightarrow> if si_users i = [] then si_key i else si_recv_iv i)"

definition a1_take_user :: "hash_lib \<Rightarrow> 'd server_info \<Rightarrow> bytes \<Rightarrow> 'd server_info \<times> bytes option" where
  "a1_take_user hl i uid =
     (if map_of (si_users i) uid \<noteq> None then (i\<lparr>si_updates := uid # si_updates i\<rparr>, Some uid) else (i, None))"

text \<open>The fields of the decrypted block, the checks and the insertion into the user's table.\<close>

definition a1_admit :: "hash_lib \<Rightarrow> time \<Rightarrow> bytes \<Rightarrow> bytes \<Rightarrow> client_queue mu_data server_info \<Rightarrow> auth_aes128
    \<Rightarrow> header_read \<times> auth_aes128" where
  "a1_admit hl now head key i p =
     (let rb = a1_recv_buf p;
          refuse = (\<lambda>q. apfst (\<lambda>r. HReturn (Inr r)) (a1_not_match_return rb q))
      in if length head < 14 then (HReturn (Inl StructError), p)
         else
           (let len = le_val (py_sub head 12 14)
            in if length rb < len then (HReturn (Inr ([], False)), p)
               else if length head < 16 then (HReturn (Inl StructError), p)
               else
                 (let utc_time = le_val (take 4 head);
                      client_id = le_val (py_sub head 4 8);
                      conn_id = le_val (py_sub head 8 12);
                      rnd_len = le_val (py_sub head 14 16)
                  in if take 4 (hmac hl (a1_hashfunc p) key (py_slice rb 0 (int len - 4)))
                       \<noteq> py_slice rb (int len - 4) (int len) then refuse p
                     else
                       (let time_dif = int32 (int utc_time - int (utc32 now))
                        in if time_dif < - a1_max_time_dif p \<or> time_dif > a1_max_time_dif p then refuse p
                           else
                             (case mu_insert auth_ops now (a1_user_id p) client_id conn_id (si_data i) of
                                (r, d) \<Rightarrow>
                                  (let p1 = p\<lparr>p_server_info := Some (i\<lparr>si_data := d\<rparr>)\<rparr>
                                   in case r of
                                        Inl e \<Rightarrow> (HReturn (Inl e), p1)
                                      | Inr False \<Rightarrow> refuse p1
                                      | Inr True \<Rightarrow>
                                          (HGo (py_slice rb (31 + int rnd_len) (int len - 4)) True,
                                           p1\<lparr>a1_has_recv_header := True, a1_client_id := client_id,
                                              a1_connection_id := conn_id, a1_recv_buf := drop len rb\<rparr>)))))))"

definition a1_open_block :: "hash_lib \<Rightarrow> 'o crypto_lib \<Rightarrow> time \<Rightarrow> client_queue mu_data server_info \<Rightarrow> auth_aes128
    \<Rightarrow> tape \<Rightarrow> header_read \<times> auth_aes128 \<times> tape" where
  "a1_open_block hl L now i p t =
     (let rb = a1_recv_buf p;
          uid = py_sub rb 7 11;
          key = a1_key_of hl (a1_hashfunc p) i uid;
          (i1, u) = a1_take_user hl i uid;
          p1 = p\<lparr>p_server_info := Some i1, a1_user_key := Some key,
                 a1_user_id := (case u of None \<Rightarrow> a1_user_id p | Some x \<Rightarrow> Some x)\<rparr>
      in case a1_head_cipher L key (a1_salt p) None t of
           (Inl e, t1) \<Rightarrow> (HReturn (Inl e), p1, t1)
         | (Inr encryptor, t1) \<Rightarrow>
             (case fst (decrypt L (replicate 16 (chrb 0) @ py_sub rb 11 27 @ [chrb 0]) encryptor) of
                Inl e \<Rightarrow> (HReturn (Inl e), p1, t1)
              | Inr head \<Rightarrow> (case a1_admit hl now head key i1 p1 of (h, p2) \<Rightarrow> (h, p2, t1))))"

definition a1_read_header :: "hash_lib \<Rightarrow> 'o crypto_lib \<Rightarrow> time \<Rightarrow> auth_aes128 \<Rightarrow> tape
    \<Rightarrow> header_read \<times> auth_aes128 \<times> tape" where
  "a1_read_header hl L now p t =
     (let rb = a1_recv_buf p;
          n = length rb;
          check = (n \<ge> 7 \<or> n = 2 \<or> n = 3);
          recv_len = min n 7;
          wait = (HReturn (Inr ([], False)), p, t);
          refuse = (case a1_not_match_return rb p of (r, q) \<Rightarrow> (HReturn (Inr r), q, t))
      in if \<not> check then wait
         else
           (case p_server_info p of
              None \<Rightarrow> (HReturn (Inl AttributeError), p, t)
            | Some i \<Rightarrow>
                (let mac_key = si_recv_iv i @ si_key i
                 in if take (recv_len - 1) (hmac hl (a1_hashfunc p) mac_key (take 1 rb)) \<noteq> py_sub rb 1 recv_len
                    then refuse
                    else if n < 31 then wait
                    else if take 4 (hmac hl (a1_hashfunc p) mac_key (py_sub rb 7 27)) \<noteq> py_sub rb 27 31
                    then (if n < 31 + a1_extra_wait_size p then wait else refuse)
                    else a1_open_block hl L now i p t)))"

definition a1_server_frames :: "hash_lib \<Rightarrow> time \<Rightarrow> bytes \<Rightarrow> bool \<Rightarrow> auth_aes128 \<Rightarrow> (bytes \<times> bool) res \<times> auth_aes128" where
  "a1_server_frames hl now out0 sendback0 p =
     (let broken = (\<lambda>rid msg q. (if rid = 0 then Inr (decoy, False) else Inl (Exc msg), q\<lparr>a1_recv_id := rid\<rparr>))
      in case drain (a1_step hl (a1_hashfunc p) (a1_user_key p)) (a1_recv_id p) (a1_recv_buf p) of
           Drained rid r ps \<Rightarrow>
             (let out_buf = out0 @ concat (map fst ps);
                  p1 = p\<lparr>a1_recv_id := rid, a1_recv_buf := r\<rparr>
              in (Inr (out_buf, sendback0 \<or> (\<exists>q \<in> set ps. snd q)),
                  (if out_buf \<noteq> []
                   then p1\<lparr>p_server_info := map_option (\<lambda>i. i\<lparr>si_data :=
                          mu_update now (a1_user_id p) (a1_client_id p) (a1_connection_id p) (si_data i)\<rparr>)
                        (p_server_info p)\<rparr>
                   else p1)))
         | Broken NoUserKey rid r ps \<Rightarrow> (Inl TypeError, p\<lparr>a1_recv_id := rid, a1_recv_buf := r\<rparr>)
         | Broken WrongMac rid r ps \<Rightarrow>
             broken rid ''server_post_decrype data error'' (p\<lparr>a1_raw_trans := True, a1_recv_buf := r\<rparr>)
         | Broken WrongLength rid r ps \<Rightarrow>
             broken rid ''server_post_decrype data error'' (p\<lparr>a1_raw_trans := True, a1_recv_buf := []\<rparr>)
         | Broken WrongChecksum rid r ps \<Rightarrow>
             broken rid ''server_post_decrype data uncorrect checksum'' (p\<lparr>a1_raw_trans := True, a1_recv_buf := []\<rparr>)
         | Endless \<Rightarrow> (Inl NoReturn, p))"

definition a1_server_post_decrypt :: "hash_lib \<Rightarrow> 'o crypto_lib \<Rightarrow> time \<Rightarrow> bytes \<Rightarrow> auth_aes128 \<times> tape
    \<Rightarrow> (bytes \<times> bool) res \<times> auth_aes128 \<times> tape" where
  "a1_server_post_decrypt hl L now buf s =
     (case s of (p0, t) \<Rightarrow>
        (if a1_raw_trans p0 then (Inr (buf, False), p0, t)
         else
           (let p = p0\<lparr>a1_recv_buf := a1_recv_buf p0 @ buf\<rparr>
            in if a1_has_recv_header p
               then (case a1_server_frames hl now [] False p of (r, q) \<Rightarrow> (r, q, t))
               else
                 (case a1_read_header hl L now p t of
                    (HReturn r, p1, t1) \<Rightarrow> (r, p1, t1)
                  | (HGo out_buf sendback, p1, t1) \<Rightarrow>
                      (case a1_server_frames hl now out_buf sendback p1 of (r, q) \<Rightarrow> (r, q, t1))))))"

subsection \<open>Datagrams\<close>

definition a1_client_udp_pre_encrypt :: "hash_lib \<Rightarrow> bytes \<Rightarrow> tape \<Rightarrow> auth_aes128 \<Rightarrow> bytes res \<times> tape \<times> auth_aes128" where
  "a1_client_udp_pre_encrypt hl buf t p =
     (case p_server_info p of
        None \<Rightarrow> (Inl AttributeError, t, p)
      | Some i \<Rightarrow>
          (let (p1, t1) =
             (case a1_user_key p of
                Some k \<Rightarrow> (p, t)
              | None \<Rightarrow>
                  (case param_user hl (a1_hashfunc p) (si_protocol_param i) of
                     Some (k, None) \<Rightarrow> (p\<lparr>a1_user_key := Some k\<rparr>, t)
                   | Some (k, Some u) \<Rightarrow> (p\<lparr>a1_user_key := Some k, a1_user_id := Some u\<rparr>, t)
                   | None \<Rightarrow>
                       (let (u, t') = urandom 4 t
                        in (p\<lparr>a1_user_id := Some u, a1_user_key := Some (si_key i)\<rparr>, t'))))
           in case (a1_user_id p1, a1_user_key p1) of
                (Some u, Some k) \<Rightarrow>
                  (Inr ((buf @ u) @ take 4 (hmac hl (a1_hashfunc p) k (buf @ u))), t1, p1)
              | _ \<Rightarrow> (Inl TypeError, t1, p1)))"

text \<open>\<^verbatim>\<open>buf[:-n]\<close> and \<^verbatim>\<open>buf[-n:]\<close>\<close>

definition but_last :: "nat \<Rightarrow> bytes \<Rightarrow> bytes" where
  "but_last n buf = py_slice buf 0 (- int n)"

definition last_bytes :: "nat \<Rightarrow> bytes \<Rightarrow> bytes" where
  "last_bytes n buf = py_slice buf (- int n) (int (length buf))"

definition a1_client_udp_post_decrypt :: "hash_lib \<Rightarrow> bytes \<Rightarrow> auth_aes128 \<Rightarrow> bytes res" where
  "a1_client_udp_post_decrypt hl buf p =
     (case p_server_info p of
        None \<Rightarrow> Inl AttributeError
      | Some i \<Rightarrow>
          (if take 4 (hmac hl (a1_hashfunc p) (si_key i) (but_last 4 buf)) \<noteq> last_bytes 4 buf
           then Inr [] else Inr (but_last 4 buf)))"

definition a1_server_udp_pre_encrypt :: "hash_lib \<Rightarrow> bytes \<Rightarrow> bytes option \<Rightarrow> auth_aes128 \<Rightarrow> bytes res" where
  "a1_server_udp_pre_encrypt hl buf uid p =
     (case p_server_info p of
        None \<Rightarrow> Inl AttributeError
      | Some i \<Rightarrow> Inr (buf @ take 4 (hmac hl (a1_hashfunc p) (si_key i) buf)))"

definition a1_server_udp_post_decrypt :: "hash_lib \<Rightarrow> bytes \<Rightarrow> auth_aes128 \<Rightarrow> (bytes \<times> bytes option) res" where
  "a1_server_udp_post_decrypt hl buf p =
     (case p_server_info p of
        None \<Rightarrow> Inl AttributeError
      | Some i \<Rightarrow>
          (let u = py_slice buf (-8) (-4);
               uid = (if map_of (si_users i) u \<noteq> None then Some u else None);
               user_key = a1_key_of hl (a1_hashfunc p) i u
           in if take 4 (hmac hl (a1_hashfunc p) user_key (but_last 4 buf)) \<noteq> last_bytes 4 buf
              then Inr ([], None) else Inr (but_last 8 buf, uid)))"


subsection \<open>Lengths of the padding\<close>

lemma random_random_bounds:
  assumes "random_random t = (s, t')"
  shows "0 \<le> s" and "s < 1"
proof -
  obtain r u where r: "urandom 7 t = (r, u)" by fastforce
  then have s: "s = real (le_val r mod 2 ^ 53) / 2 ^ 53" using assms by (simp add: random_random_def)
  have "le_val r mod 2 ^ 53 < 2 ^ 53" by simp
  then have "real (le_val r mod 2 ^ 53) < 2 ^ 53" by (metis of_nat_less_iff of_nat_numeral of_nat_power)
  then show "0 \<le> s" and "s < 1" by (simp_all add: s)
qed

lemma trapezoid_float_bounds:
  assumes "trapezoid_random_float (-0.3) t = (v, t')"
  shows "0 \<le> v" and "v < 1"
proof -
  obtain s u where s: "random_random t = (s, u)" by fastforce
  note b = random_random_bounds [OF s]
  define x where "x = 1.69 - 1.2 * s"
  have v: "v = (sqrt x - 1.3) / (-0.6)"
    using assms s by (simp add: trapezoid_random_float_def x_def Let_def algebra_simps)
  have "0.7 < sqrt x"
    by (rule real_less_rsqrt) (use b in \<open>simp add: x_def power2_eq_square\<close>)
  moreover have "sqrt x \<le> 1.3"
    by (rule real_le_lsqrt) (use b in \<open>simp_all add: x_def power2_eq_square\<close>)
  ultimately show "0 \<le> v" and "v < 1" by (simp_all add: v field_simps)
qed

lemma trapezoid_bounds:
  assumes "trapezoid_random_int n (-0.3) t = (k, t')" and "0 < n"
  shows "0 \<le> k \<and> k < n"
proof -
  obtain v u where v: "trapezoid_random_float (-0.3) t = (v, u)" by fastforce
  note b = trapezoid_float_bounds [OF v]
  have x: "0 \<le> v * real_of_int n" using b(1) assms(2) by simp
  then have k: "k = floor (v * real_of_int n)"
    using assms(1) v by (simp add: trapezoid_random_int_def Let_def)
  have "v * real_of_int n < real_of_int n" using b(2) assms(2) by simp
  then show ?thesis using x by (simp add: k floor_less_iff)
qed

lemma a1_rnd_data_len_bound:
  assumes "a1_rnd_data_len n full i t = (k, t')" and "si_tcp_mss i \<le> 1500" and "n \<le> 8100"
  shows "n + k \<le> 8131" and "k \<le> 1500"
proof -
  define rev where "rev = si_tcp_mss i - int n - 9"
  have eq: "(if full \<ge> si_buffer_size i then (0, t)
      else if rev = 0 then (0, t)
      else if rev < 0 then
        (if rev > - si_tcp_mss i then apfst nat (trapezoid_random_int (rev + si_tcp_mss i) (-0.3) t)
         else (let (r, t') = urandom 1 t in (ordb (hd r) mod 32, t')))
      else if n > 900 then (let (r, t') = urandom 2 t in (be_val r mod nat rev, t'))
      else apfst nat (trapezoid_random_int rev (-0.3) t)) = (k, t')"
    using assms(1) unfolding a1_rnd_data_len_def Let_def rev_def .
  consider "k = 0" | "k < 32" | "rev < 0" "rev > - si_tcp_mss i" "int k < rev + si_tcp_mss i"
    | "0 < rev" "int k < rev"
  proof (cases "full \<ge> si_buffer_size i \<or> rev = 0")
    case False
    show ?thesis
    proof (cases "rev < 0")
      case True
      show ?thesis
      proof (cases "rev > - si_tcp_mss i")
        case t: True
        obtain x u where x: "trapezoid_random_int (rev + si_tcp_mss i) (-0.3) t = (x, u)" by fastforce
        have "k = nat x" using eq False True t x by simp
        moreover have "0 \<le> x \<and> x < rev + si_tcp_mss i" using trapezoid_bounds [OF x] t by simp
        ultimately show ?thesis using that(3) True t by simp
      next
        case f: False
        obtain r u where r: "urandom 1 t = (r, u)" by fastforce
        have "k = ordb (hd r) mod 32" using eq False True f r by simp
        then show ?thesis using that(2) mod_less_divisor [of 32 "ordb (hd r)"] by simp
      qed
    next
      case pos: False
      then have p: "0 < rev" using False by simp
      show ?thesis
      proof (cases "n > 900")
        case True
        obtain r u where r: "urandom 2 t = (r, u)" by fastforce
        have "k = be_val r mod nat rev" using eq False pos True r by simp
        then have "k < nat rev" using p by simp
        then show ?thesis using that(4) p by simp
      next
        case f: False
        obtain x u where x: "trapezoid_random_int rev (-0.3) t = (x, u)" by fastforce
        have "k = nat x" using eq False pos f x by simp
        moreover have "0 \<le> x \<and> x < rev" using trapezoid_bounds [OF x p] .
        ultimately show ?thesis using that(4) p by simp
      qed
    qed
  qed (use eq in \<open>auto split: if_splits\<close>)
  then have "n + k \<le> 8131 \<and> k \<le> 1500"
    by cases (use assms(2,3) in \<open>auto simp: rev_def\<close>)
  then show "n + k \<le> 8131" and "k \<le> 1500" by auto
qed

lemma a1_rnd_data_padding:
  assumes "si_tcp_mss i \<le> 1500" and "n \<le> 8100"
  shows "\<exists>rnd t'. a1_rnd_data n full i t = (Inr rnd, t') \<and> padding le_val rnd \<and> n + length rnd \<le> 8132"
proof -
  obtain k t1 where k: "a1_rnd_data_len n full i t = (k, t1)" by fastforce
  note b = a1_rnd_data_len_bound [OF k assms]
  show ?thesis
  proof (cases "k < 128")
    case True
    obtain r t2 where r: "urandom k t1 = (r, t2)" by fastforce
    have "padding le_val (chrb (k + 1) # r)"
      unfolding padding_def using urandom_length [OF r] True by (intro disjI1 exI [of _ r]) simp
    then show ?thesis using b k r True urandom_length [OF r] by (simp add: a1_rnd_data_def)
  next
    case False
    obtain r t2 where r: "urandom (k - 2) t1 = (r, t2)" by fastforce
    have "padding le_val (chrb 255 # le16 (k + 1) @ r)"
      unfolding padding_def using urandom_length [OF r] False b
      by (intro disjI2 exI [of _ "le16 (k + 1)"] exI [of _ r]) simp
    then show ?thesis using b k r False urandom_length [OF r] by (simp add: a1_rnd_data_def pack_le16_def)
  qed
qed


subsection \<open>Frames are accepted\<close>

lemma pad_end_append: "k + 3 \<le> length buf \<Longrightarrow> pad_end k v (buf @ ext) = pad_end k v buf"
  by (simp add: pad_end_def nth_append py_sub_append Let_def)

interpretation a1: frame_stream "a1_step hl hf key" for hl hf key
proof
  fix rid rid' :: nat and buf ext p n and e
  show "a1_step hl hf key rid buf = Frame p rid' n \<Longrightarrow> 0 < n \<and> n \<le> length buf"
    by (auto simp: a1_step_def Let_def split: if_splits option.splits)
  show "a1_step hl hf key rid buf = Frame p rid' n \<Longrightarrow> a1_step hl hf key rid (buf @ ext) = Frame p rid' n"
    by (auto simp: a1_step_def Let_def py_sub_append pad_end_append split: if_splits option.splits)
  show "a1_step hl hf key rid buf = Bad e \<Longrightarrow> a1_step hl hf key rid (buf @ ext) = Bad e"
    by (auto simp: a1_step_def Let_def py_sub_append split: if_splits option.splits)
qed

lemma a1_step_Nil [simp]: "a1_step hl hf key rid [] = More"
  by (simp add: a1_step_def)

definition a1_ready :: "hash_lib \<Rightarrow> bytes \<Rightarrow> auth_aes128 \<Rightarrow> bool" where
  "a1_ready hl key p \<longleftrightarrow> hash_sizes hl \<and> a1_unit_len p = 8100 \<and> a1_user_key p = Some key
     \<and> (\<exists>i. p_server_info p = Some i \<and> si_tcp_mss i \<le> 1500)"

lemma a1_pack_data_step:
  assumes "a1_ready hl key p" and "length c \<le> 8100"
  shows "\<exists>f t'. a1_pack_data hl p full (pid, t) c = (Inr f, (pid + 1) mod 4294967296, t')
    \<and> a1_step hl (a1_hashfunc p) (Some key) pid f = Frame (c, c = []) ((pid + 1) mod 4294967296) (length f)"
proof -
  obtain i where i: "p_server_info p = Some i" "si_tcp_mss i \<le> 1500" "a1_user_key p = Some key" "hash_sizes hl"
    using assms(1) unfolding a1_ready_def by blast
  obtain rnd t' where r: "a1_rnd_data (length c) full i t = (Inr rnd, t')" "padding le_val rnd"
      "length c + length rnd \<le> 8132" using a1_rnd_data_padding [OF i(2) assms(2)] by blast
  define len where "len = length rnd + length c + 8"
  define mk where "mk = key @ le32 pid"
  define m2 where "m2 = take 2 (hmac hl (a1_hashfunc p) mk (le16 len))"
  define body where "body = (le16 len @ m2) @ rnd @ c"
  define m4 where "m4 = take 4 (hmac hl (a1_hashfunc p) mk body)"
  define f where "f = body @ m4"
  have len: "len < 8192" "7 \<le> len" using r(3) padding_not_Nil [OF r(2)] by (simp_all add: len_def)
  have ml: "length m2 = 2" "length m4 = 4" unfolding m2_def m4_def by (rule hash_sizes_take [OF i(4)], simp)+
  have w: "a1_pack_data hl p full (pid, t) c = (Inr f, (pid + 1) mod 4294967296, t')"
    using r(1) len i(1,3) by (simp add: a1_pack_data_def pack_le16_def len_def f_def body_def m2_def m4_def mk_def Let_def)
  have lb: "length body = len - 4" "length f = len" "body \<noteq> []"
    using ml by (auto simp: f_def body_def len_def)
  have 1: "take 2 f = le16 len" "py_sub f 2 4 = m2"
    using py_sub_exact [of "le16 len" 2 m2 4] ml by (simp_all add: f_def body_def)
  have 2: "take (len - 4) f = body" "py_sub f (len - 4) len = m4"
    using lb len ml by (simp_all add: f_def py_sub_exact_end)
  have pre: "length (le16 len @ m2) = 4" using ml by simp
  have 3: "pad_end 4 le_val f = length rnd + 4"
    using pad_end_padding [OF r(2) pre, of "c @ m4"] by (simp add: f_def body_def)
  have 4: "py_sub f (length rnd + 4) (len - 4) = c"
    using py_sub_exact [of "(le16 len @ m2) @ rnd" "length rnd + 4" c "len - 4" m4] pre
    by (simp add: f_def body_def len_def)
  have 5: "(length rnd + 4 = len - 4) = (c = [])" by (auto simp: len_def)
  have "a1_step hl (a1_hashfunc p) (Some key) pid f = Frame (c, c = []) ((pid + 1) mod 4294967296) (length f)"
    using len m2_def m4_def by (simp add: a1_step_def 1 2 3 4 5 lb mk_def [symmetric] Let_def)
  then show ?thesis using w by blast
qed

lemma a1_pack_all_framed:
  assumes "a1_ready hl key p"
  shows "\<exists>fs t' pid. a1_pack_all hl n buf t p
      = (Inr (concat (map fst fs)), t', p\<lparr>a1_pack_id := pid, a1_last_rnd_len := n\<rparr>)
    \<and> framed (a1_step hl (a1_hashfunc p) (Some key)) (a1_pack_id p) fs pid \<and> concat (map fst (map snd fs)) = buf"
proof -
  let ?step = "a1_step hl (a1_hashfunc p) (Some key)"
  have step: "\<exists>f s' st' v. a1_pack_data hl p n s c = (Inr f, s') \<and> fst s' = st'
      \<and> ?step st f = Frame v st' (length f) \<and> fst v = c" if "fst s = st" "length c \<le> 8100" for s st c
    using a1_pack_data_step [OF assms that(2), of n "fst s" "snd s"] that(1) by fastforce
  have "\<forall>c \<in> set (chunk_list 8100 buf). length c \<le> 8100" by (rule chunk_list_length) simp
  from pack_chunks_payloads [where rel = "\<lambda>s st. fst s = st" and step = ?step and st = "a1_pack_id p"
      and s = "(a1_pack_id p, t)" and pack = "a1_pack_data hl p n" and ok = "\<lambda>c. length c \<le> 8100" and pay = fst,
      OF step _ this]
  obtain fs s' where s': "pack_chunks (a1_pack_data hl p n) (a1_pack_id p, t) (chunk_list 8100 buf)
      = (Inr (concat (map fst fs)), s')" "framed ?step (a1_pack_id p) fs (fst s')"
      "concat (map fst (map snd fs)) = buf"
    by auto
  obtain pid t' where "s' = (pid, t')" by fastforce
  then show ?thesis
    using s' assms unfolding a1_pack_all_def a1_ready_def by (intro exI [of _ fs] exI [of _ t'] exI [of _ pid]) simp
qed


subsection \<open>Both directions\<close>

definition a1_rel :: "hashfunc \<Rightarrow> bytes \<Rightarrow> auth_aes128 \<Rightarrow> nat \<Rightarrow> bytes \<Rightarrow> bool" where
  "a1_rel hf key p rid r \<longleftrightarrow> \<not> a1_raw_trans p \<and> a1_hashfunc p = hf \<and> a1_user_key p = Some key
     \<and> a1_recv_id p = rid \<and> a1_recv_buf p = r"

lemma a1_client_call:
  assumes "a1_rel hf key p rid b" and "drain (a1_step hl hf (Some key)) rid (b @ c) = Drained rid' r ps"
  shows "\<exists>out q. a1_client_post_decrypt hl c p = (Inr out, q) \<and> id out = concat (map fst ps)
    \<and> a1_rel hf key q rid' r"
  using assms by (simp add: a1_client_post_decrypt_def a1_rel_def)

lemma a1_server_frames_drained:
  assumes "a1_rel hf key p rid b" and "a1_has_recv_header p"
    and "drain (a1_step hl hf (Some key)) rid b = Drained rid' r ps"
  shows "\<exists>x q. a1_server_frames hl now out0 sb p = (Inr (out0 @ concat (map fst ps), x), q)
    \<and> a1_rel hf key q rid' r \<and> a1_has_recv_header q \<and> a1_user_id q = a1_user_id p"
  using assms by (simp add: a1_server_frames_def a1_rel_def Let_def)

lemma a1_server_call:
  assumes "a1_rel hf key p rid b" and "a1_has_recv_header p"
    and "drain (a1_step hl hf (Some key)) rid (b @ c) = Drained rid' r ps"
  shows "\<exists>out q. a1_server_post_decrypt hl L now c (p, t) = (Inr out, q, t) \<and> fst out = concat (map fst ps)
    \<and> a1_rel hf key q rid' r \<and> a1_has_recv_header q \<and> a1_user_id q = a1_user_id p"
proof -
  let ?p = "p\<lparr>a1_recv_buf := a1_recv_buf p @ c\<rparr>"
  have "a1_rel hf key ?p rid (b @ c)" "a1_has_recv_header ?p" using assms by (simp_all add: a1_rel_def)
  from a1_server_frames_drained [OF this assms(3), of now "[]" False]
  obtain x q where "a1_server_frames hl now [] False ?p = (Inr (concat (map fst ps), x), q)"
      "a1_rel hf key q rid' r" "a1_has_recv_header q" "a1_user_id q = a1_user_id p" by auto
  then show ?thesis using assms(1,2) by (simp add: a1_server_post_decrypt_def a1_rel_def)
qed

text \<open>What the server of auth_aes128 writes, the client reads: with one user key, counters in step
  and an MSS in the range that the relay sets, for every random padding and every cut of the stream the
  client takes every chunk without an exception and delivers exactly the bytes written, and the
  counters are in step again.\<close>

theorem auth_aes128_down:
  assumes "hash_sizes hl" and "p_server_info s = Some i" and "si_tcp_mss i \<le> 1500"
    and "a1_user_key s = Some key" and "a1_unit_len s = 8100" and "\<not> a1_raw_trans s"
    and "a1_user_key c = Some key" and "a1_hashfunc c = a1_hashfunc s" and "a1_recv_id c = a1_pack_id s"
    and "\<not> a1_raw_trans c" and "a1_recv_buf c = []"
  shows "\<exists>ws t' s'. encode_all (a1_server_pre_encrypt hl) bufs t s = (Inr ws, t', s')
    \<and> (\<forall>cs. concat cs = concat ws \<longrightarrow>
         (\<exists>outs c'. feed_all (a1_client_post_decrypt hl) cs c = (Inr outs, c')
            \<and> concat outs = concat bufs \<and> a1_recv_buf c' = [] \<and> a1_recv_id c' = a1_pack_id s'))"
proof -
  let ?step = "a1_step hl (a1_hashfunc s) (Some key)"
  define inv where "inv = (\<lambda>p st. a1_ready hl key p \<and> \<not> a1_raw_trans p \<and> a1_hashfunc p = a1_hashfunc s
      \<and> a1_pack_id p = st)"
  have wr: "\<exists>fs t' p' st'. a1_server_pre_encrypt hl b t p = (Inr (concat (map fst fs)), t', p') \<and> inv p' st'
      \<and> framed ?step st fs st' \<and> concat (map fst (map snd fs)) = b" if "inv p st" for b t p st
  proof -
    obtain fs t' pid where "a1_pack_all hl (length b) b t p
        = (Inr (concat (map fst fs)), t', p\<lparr>a1_pack_id := pid, a1_last_rnd_len := length b\<rparr>)"
        "framed ?step st fs pid" "concat (map fst (map snd fs)) = b"
      using a1_pack_all_framed [of hl key p "length b" b t] \<open>inv p st\<close>
      unfolding inv_def by (elim conjE) (simp del: map_map, blast)
    then show ?thesis
      using \<open>inv p st\<close> unfolding inv_def by (intro exI [of _ fs] exI [of _ t'] exI [of _ "p\<lparr>a1_pack_id := pid, a1_last_rnd_len := length b\<rparr>"]
          exI [of _ pid]) (simp add: a1_server_pre_encrypt_def a1_ready_def)
  qed
  have start: "inv s (a1_pack_id s)" using assms by (simp add: a1_ready_def inv_def)
  have "\<exists>ws t' s' st' fs. encode_all (a1_server_pre_encrypt hl) bufs t s = (Inr ws, t', s')
      \<and> concat ws = concat (map fst fs) \<and> inv s' st' \<and> framed ?step (a1_pack_id s) fs st'
      \<and> concat (map fst (map snd fs)) = concat bufs"
    by (rule encode_all_framed [where inv = inv and step = ?step, OF wr start])
  then obtain ws t' s' st' fs where w: "encode_all (a1_server_pre_encrypt hl) bufs t s = (Inr ws, t', s')"
      "concat ws = concat (map fst fs)" "inv s' st'" "framed ?step (a1_pack_id s) fs st'"
      "concat (map fst (map snd fs)) = concat bufs"
    by (elim exE conjE) (rule that)
  have "\<exists>outs c'. feed_all (a1_client_post_decrypt hl) cs c = (Inr outs, c')
      \<and> concat outs = concat bufs \<and> a1_recv_buf c' = [] \<and> a1_recv_id c' = st'" if "concat cs = concat ws" for cs
  proof -
    have r: "receive ?step (a1_pack_id s) [] cs = Drained st' [] (map snd fs)"
      using a1.receive_framed [OF w(4)] w(2) that by simp
    have "a1_rel (a1_hashfunc s) key c (a1_pack_id s) []" using assms by (simp add: a1_rel_def)
    have "\<exists>outs c'. feed_all (a1_client_post_decrypt hl) cs c = (Inr outs, c')
        \<and> concat (map id outs) = concat (map fst (map snd fs)) \<and> a1_rel (a1_hashfunc s) key c' st' []"
      by (rule feed_all_payloads [where rel = "a1_rel (a1_hashfunc s) key" and step = ?step, OF a1_client_call r])
         (assumption | fact)+
    then show ?thesis using w(5) by (auto simp: a1_rel_def)
  qed
  then show ?thesis using w(1,3) unfolding inv_def by blast
qed


text \<open>An object for concrete runs.\<close>

definition a1_example :: auth_aes128 where
  "a1_example = (fst (auth_aes128_new ''auth_aes128_md5'' MD5 [])) \<lparr>p_server_info := Some (server_info_new mu_data_new)\<rparr>"

lemma a1_example_fields:
  "p_server_info a1_example = Some (server_info_new mu_data_new)" "a1_unit_len a1_example = 8100"
  "\<not> a1_raw_trans a1_example" "a1_recv_id a1_example = 1" "a1_pack_id a1_example = 1"
  "a1_recv_buf a1_example = []" "a1_hashfunc a1_example = MD5" "a1_user_key a1_example = None"
  "\<not> a1_has_sent_header a1_example" "\<not> a1_has_recv_header a1_example" "a1_user_id a1_example = None"
  "si_tcp_mss (server_info_new d) = 0"
  by (simp_all add: a1_example_def auth_aes128_new_def urandom_def server_info_new_def Let_def)

lemma concat_singles [simp]: "concat (map (\<lambda>c. [c]) w) = w"
  by (induction w) simp_all

theorem auth_aes128_down_witness:
  "\<exists>ws t' s'. encode_all (a1_server_pre_encrypt plain_hashes) [''abc'', [], ''d''] ''seed''
        (a1_example\<lparr>a1_user_key := Some ''key''\<rparr>) = (Inr ws, t', s')
    \<and> (\<exists>outs c'. feed_all (a1_client_post_decrypt plain_hashes) (map (\<lambda>c. [c]) (concat ws))
           (a1_example\<lparr>a1_user_key := Some ''key''\<rparr>) = (Inr outs, c') \<and> concat outs = ''abcd'')"
proof -
  let ?n = "a1_example\<lparr>a1_user_key := Some ''key''\<rparr>"
  have "\<exists>ws t' s'. encode_all (a1_server_pre_encrypt plain_hashes) [''abc'', [], ''d''] ''seed'' ?n = (Inr ws, t', s')
    \<and> (\<forall>cs. concat cs = concat ws \<longrightarrow>
         (\<exists>outs c'. feed_all (a1_client_post_decrypt plain_hashes) cs ?n = (Inr outs, c')
            \<and> concat outs = concat [''abc'', [], ''d''] \<and> a1_recv_buf c' = [] \<and> a1_recv_id c' = a1_pack_id s'))"
    by (rule auth_aes128_down [where i = "server_info_new mu_data_new", OF plain_hashes_sizes]) (simp_all add: a1_example_fields)
  then obtain ws t' s' where w: "encode_all (a1_server_pre_encrypt plain_hashes) [''abc'', [], ''d''] ''seed'' ?n = (Inr ws, t', s')"
      and all: "\<forall>cs. concat cs = concat ws \<longrightarrow> (\<exists>outs c'. feed_all (a1_client_post_decrypt plain_hashes) cs ?n = (Inr outs, c')
         \<and> concat outs = concat [''abc'', [], ''d''] \<and> a1_recv_buf c' = [] \<and> a1_recv_id c' = a1_pack_id s')"
    by (elim exE conjE) (rule that)
  have "concat [''abc'', [], ''d''] = ''abcd''" by simp
  then have "\<exists>outs c'. feed_all (a1_client_post_decrypt plain_hashes) (map (\<lambda>c. [c]) (concat ws)) ?n = (Inr outs, c')
      \<and> concat outs = ''abcd''"
    using all [rule_format, OF concat_singles] by auto
  from conjI [OF w this] show ?thesis by (intro exI)
qed

subsection \<open>The header\<close>

text \<open>What libcrypto documents of AES-CBC, as the plugin uses it: a context encrypts one block of 16
  bytes to 16 bytes, and the decrypting context of the same key and iv gives it back as soon as a
  further byte follows.\<close>

definition aes_block :: "'o crypto_lib \<Rightarrow> bool" where
  "aes_block L \<longleftrightarrow> (\<forall>key iv m. length m = 16 \<longrightarrow>
     (\<exists>e d c. evp_init L ''aes-128-cbc'' key iv 1 = Some e \<and> evp_init L ''aes-128-cbc'' key iv 0 = Some d
        \<and> fst (evp_update L e m) = c \<and> length c = 16 \<and> (\<forall>x. fst (evp_update L d (c @ [x])) = m)))"

lemma aes_entry: "method_supported ''aes-128-cbc'' = Some (16, 16, OpenSSLCrypto)"
  by (simp add: method_supported_def table_ciphers_def sodium_ciphers_def openssl_ciphers_def)

lemma lower_aes: "lower ''aes-128-cbc'' = ''aes-128-cbc''"
  by (simp add: lower_def)

lemma head_cipher_new:
  assumes "\<And>x. length (md5 L x) = 16" and "is_ascii salt" and "aes_block L"
    and "iv = None \<or> iv = Some (replicate 16 (chrb 0))"
  shows "\<exists>k e v iv2 t'. derive_key L (b64encode key @ salt) 16 16 = Inr (k, v)
    \<and> evp_init L ''aes-128-cbc'' k iv2 1 = Some e \<and> (iv \<noteq> None \<longrightarrow> iv2 = replicate 16 (chrb 0))
    \<and> a1_head_cipher L key salt iv t = (Inr \<lparr>enc_key = b64encode key @ salt, enc_method = ''aes-128-cbc'',
        iv_sent = False, cipher_iv = iv2, iv_buf = [], cipher_key = k, decipher = None,
        method_info = (16, 16, OpenSSLCrypto), cipher = EvpObj e\<rparr>, t')"
proof -
  have "is_ascii (b64encode key @ salt)" using b64encode_ascii [of key] assms(2) by (auto simp: is_ascii_def)
  from derive_key_lengths [OF assms(1) this, of 16 16]
  obtain k v where k: "derive_key L (b64encode key @ salt) 16 16 = Inr (k, v)" by blast
  obtain iv2 t' where iv2: "choose_iv iv 16 t = (iv2, t')" by fastforce
  have l: "length iv2 = 16" using length_choose_iv [of iv 16 t] iv2 by simp
  have z: "iv \<noteq> None \<longrightarrow> iv2 = replicate 16 (chrb 0)" using iv2 assms(4) by (auto simp: choose_iv_def)
  have "\<exists>e. evp_init L ''aes-128-cbc'' k iv2 1 = Some e"
    using assms(3) unfolding aes_block_def by (metis length_replicate)
  then obtain e where e: "evp_init L ''aes-128-cbc'' k iv2 1 = Some e" by blast
  show ?thesis
    by (intro exI [of _ k] exI [of _ e] exI [of _ v] exI [of _ iv2] exI [of _ t'])
       (use k e z l iv2 in \<open>simp add: a1_head_cipher_def encryptor_new_def get_method_info_def lower_aes aes_entry
          get_cipher_def make_cipher_def\<close>)
qed

text \<open>The block that the client makes is the block that the server reads.\<close>

lemma head_block:
  assumes "\<And>x. length (md5 L x) = 16" and "is_ascii salt" and "aes_block L" and "length m = 16"
  shows "\<exists>E t' c. a1_head_cipher L key salt (Some (replicate 16 (chrb 0))) t = (Inr E, t')
    \<and> drop 16 (fst (encrypt L m E)) = c \<and> length c = 16
    \<and> (\<forall>u. \<exists>D u'. a1_head_cipher L key salt None u = (Inr D, u')
          \<and> fst (decrypt L (replicate 16 (chrb 0) @ c @ [chrb 0]) D) = Inr m)"
proof -
  let ?z = "replicate 16 (chrb 0)"
  obtain k e v t' where 1: "derive_key L (b64encode key @ salt) 16 16 = Inr (k, v)"
    "a1_head_cipher L key salt (Some ?z) t = (Inr \<lparr>enc_key = b64encode key @ salt, enc_method = ''aes-128-cbc'',
        iv_sent = False, cipher_iv = ?z, iv_buf = [], cipher_key = k, decipher = None,
        method_info = (16, 16, OpenSSLCrypto), cipher = EvpObj e\<rparr>, t')"
    "evp_init L ''aes-128-cbc'' k ?z 1 = Some e"
    using head_cipher_new [of L salt "Some ?z" key t, OF assms(1-3)] by auto
  obtain d c where c: "evp_init L ''aes-128-cbc'' k ?z 0 = Some d" "fst (evp_update L e m) = c" "length c = 16"
      "\<And>x. fst (evp_update L d (c @ [x])) = m"
    using assms(3) [unfolded aes_block_def, rule_format, OF assms(4), of k ?z] 1(3) by auto
  have m: "m \<noteq> []" using assms(4) by auto
  have "\<exists>D u'. a1_head_cipher L key salt None u = (Inr D, u') \<and> fst (decrypt L (?z @ c @ [chrb 0]) D) = Inr m" for u
  proof -
    obtain k' e' v' iv2 u' where 2: "derive_key L (b64encode key @ salt) 16 16 = Inr (k', v')"
      "a1_head_cipher L key salt None u = (Inr \<lparr>enc_key = b64encode key @ salt, enc_method = ''aes-128-cbc'',
        iv_sent = False, cipher_iv = iv2, iv_buf = [], cipher_key = k', decipher = None,
        method_info = (16, 16, OpenSSLCrypto), cipher = EvpObj e'\<rparr>, u')"
      using head_cipher_new [of L salt None key u, OF assms(1-3)] by auto
    have "evp_init L ''aes-128-cbc'' k' ?z 0 = Some d" using 1(1) 2(1) c(1) by simp
    moreover have "update_cipher L (EvpObj d) (c @ [chrb 0]) = (m, snd (update_cipher L (EvpObj d) (c @ [chrb 0])))"
      using c(4) [of "chrb 0"] by (simp add: case_prod_beta)
    ultimately show ?thesis
      using 2 by (intro exI [of _ "\<lparr>enc_key = b64encode key @ salt, enc_method = ''aes-128-cbc'',
        iv_sent = False, cipher_iv = iv2, iv_buf = [], cipher_key = k', decipher = None,
        method_info = (16, 16, OpenSSLCrypto), cipher = EvpObj e'\<rparr>"] exI [of _ u'])
        (simp add: decrypt_def get_cipher_def make_cipher_def case_prod_beta)
  qed
  moreover have "drop 16 (fst (encrypt L m \<lparr>enc_key = b64encode key @ salt, enc_method = ''aes-128-cbc'',
        iv_sent = False, cipher_iv = ?z, iv_buf = [], cipher_key = k, decipher = None,
        method_info = (16, 16, OpenSSLCrypto), cipher = EvpObj e\<rparr>)) = c"
    using c(2) m by (simp add: encrypt_def case_prod_beta)
  ultimately show ?thesis using 1(2) c(3) by blast
qed


text \<open>The header's bytes, by its parts.\<close>

definition a1_header :: "hash_lib \<Rightarrow> hashfunc \<Rightarrow> bytes \<Rightarrow> bytes \<Rightarrow> bytes \<Rightarrow> bytes \<Rightarrow> bytes \<Rightarrow> bytes \<Rightarrow> bytes \<Rightarrow> bytes" where
  "a1_header hl hf mac_key key c uid blk rnd body =
     (let d = (c @ take 6 (hmac hl hf mac_key c)) @ (uid @ blk) @ take 4 (hmac hl hf mac_key (uid @ blk)) @ rnd @ body
      in d @ take 4 (hmac hl hf key d))"

lemma py_sub_same:
  assumes "a @ x = b @ y" and "j \<le> length a" and "j \<le> length b"
  shows "py_sub a i j = py_sub b i j"
  using py_sub_append [OF assms(2), of x i] py_sub_append [OF assms(3), of y i] assms(1) by simp

lemma a1_header_fields:
  assumes "hash_sizes hl" and "length c = 1" and "length uid = 4" and "length blk = 16"
    and h_def: "h = a1_header hl hf mac_key key c uid blk rnd body"
  shows "py_sub h 0 1 = c" and "j \<le> 7 \<Longrightarrow> py_sub h 1 j = take (j - 1) (hmac hl hf mac_key c)"
    and "py_sub h 7 11 = uid" and "py_sub h 11 27 = blk" and "py_sub h 7 27 = uid @ blk"
    and "py_sub h 27 31 = take 4 (hmac hl hf mac_key (uid @ blk))"
    and "length h = 35 + length rnd + length body"
    and "py_sub h (length h - 4) (length h) = take 4 (hmac hl hf key (take (length h - 4) h))"
    and "py_sub h (31 + length rnd) (length h - 4) = body"
proof -
  define m6 where "m6 = take 6 (hmac hl hf mac_key c)"
  define m4 where "m4 = take 4 (hmac hl hf mac_key (uid @ blk))"
  define d where "d = (c @ m6) @ (uid @ blk) @ m4 @ rnd @ body"
  define m where "m = take 4 (hmac hl hf key d)"
  have l: "length m6 = 6" "length m4 = 4" "length m = 4"
    unfolding m6_def m4_def m_def by (rule hash_sizes_take [OF assms(1)], simp)+
  have h: "h = d @ m" by (simp add: h_def a1_header_def d_def m_def m6_def m4_def Let_def)
  have ld: "length d = 31 + length rnd + length body" using l assms(2-4) by (simp add: d_def)
  show "py_sub h 0 1 = c" using assms(2) by (simp add: h d_def py_sub_def)
  have "py_sub h 1 7 = m6" unfolding h d_def using py_sub_exact [of c 1 m6 7] l assms(2) by simp
  moreover have "py_sub h 1 j = take (j - 1) (py_sub h 1 7)" if "j \<le> 7"
    using that by (simp add: py_sub_def min_absorb1)
  ultimately show "py_sub h 1 j = take (j - 1) (hmac hl hf mac_key c)" if "j \<le> 7"
    using that by (simp add: m6_def min_absorb1)
  show "py_sub h 7 11 = uid"
    unfolding h d_def using py_sub_exact [of "c @ m6" 7 uid 11] l assms(2,3) by simp
  show "py_sub h 11 27 = blk"
    unfolding h d_def using py_sub_exact [of "c @ m6 @ uid" 11 blk 27] l assms(2-4) by simp
  show "py_sub h 7 27 = uid @ blk"
    unfolding h d_def using py_sub_exact [of "c @ m6" 7 "uid @ blk" 27] l assms(2-4) by simp
  show "py_sub h 27 31 = take 4 (hmac hl hf mac_key (uid @ blk))"
    unfolding h d_def m4_def [symmetric]
    using py_sub_exact [of "c @ m6 @ uid @ blk" 27 m4 31] l assms(2-4) by simp
  show lh: "length h = 35 + length rnd + length body" using ld l by (simp add: h)
  have "take (length h - 4) h = d" using ld l by (simp add: h)
  then show "py_sub h (length h - 4) (length h) = take 4 (hmac hl hf key (take (length h - 4) h))"
    unfolding h using py_sub_exact_end [of d "length d" m "length d + 4"] l by (simp add: m_def)
  show "py_sub h (31 + length rnd) (length h - 4) = body"
    unfolding h d_def using py_sub_exact [of "(c @ m6) @ (uid @ blk) @ m4 @ rnd" "31 + length rnd" body] l assms(2-4) by simp
qed

lemma a1_header_read:
  assumes h: "h = a1_header hl (a1_hashfunc p) (si_recv_iv i @ si_key i) key c uid blk rnd body"
    and "hash_sizes hl" and "length c = 1" and "length uid = 4" and "length blk = 16"
    and same: "a1_recv_buf p @ x = h @ y" and "p_server_info p = Some i"
  shows "a1_read_header hl L now p t =
    (if length (a1_recv_buf p) < 31 then (HReturn (Inr ([], False)), p, t) else a1_open_block hl L now i p t)"
proof -
  note f = a1_header_fields [OF assms(2-5) h]
  let ?rb = "a1_recv_buf p" and ?mk = "si_recv_iv i @ si_key i"
  define n where "n = length ?rb"
  have sub: "py_sub ?rb i j = py_sub h i j" if "j \<le> n" "j \<le> 31" for i j
    using py_sub_same [OF same, of j i] that f(7) by (simp add: n_def)
  have c1: "py_sub ?rb 1 (min n 7) = take (min n 7 - 1) (hmac hl (a1_hashfunc p) ?mk (take 1 ?rb))" if "1 \<le> n"
    using sub [of "min n 7" 1] f(2) [of "min n 7"] sub [of 1 0] that f(1) by (simp add: py_sub_0)
  show ?thesis
  proof (cases "n < 31")
    case True
    then show ?thesis
      using c1 assms(7) by (auto simp: a1_read_header_def Let_def n_def)
  next
    case False
    have "py_sub ?rb 27 31 = take 4 (hmac hl (a1_hashfunc p) ?mk (py_sub ?rb 7 27))"
      using sub [of 31 27] sub [of 27 7] f(5,6) False by simp
    then show ?thesis using c1 False assms(7) by (simp add: a1_read_header_def Let_def n_def)
  qed
qed

lemma a1_open_block_head:
  assumes "\<And>x. length (md5 L x) = 16" and "is_ascii (a1_salt p)" and "aes_block L" and "length m = 16"
    and "py_sub (a1_recv_buf p) 7 11 = uid" and "a1_key_of hl (a1_hashfunc p) i uid = key"
    and "py_sub (a1_recv_buf p) 11 27 = drop 16 (fst (encrypt L m E))"
    and "a1_head_cipher L key (a1_salt p) (Some (replicate 16 (chrb 0))) t0 = (Inr E, t1)"
  shows "\<exists>t'. a1_open_block hl L now i p t =
    (case a1_admit hl now m key (fst (a1_take_user hl i uid))
        (p\<lparr>p_server_info := Some (fst (a1_take_user hl i uid)), a1_user_key := Some key,
           a1_user_id := (case snd (a1_take_user hl i uid) of None \<Rightarrow> a1_user_id p | Some x \<Rightarrow> Some x)\<rparr>)
     of (h, q) \<Rightarrow> (h, q, t'))"
proof -
  obtain E' t2 c where 1: "a1_head_cipher L key (a1_salt p) (Some (replicate 16 (chrb 0))) t0 = (Inr E', t2)"
      "drop 16 (fst (encrypt L m E')) = c"
      "\<forall>u. \<exists>D u'. a1_head_cipher L key (a1_salt p) None u = (Inr D, u')
          \<and> fst (decrypt L (replicate 16 (chrb 0) @ c @ [chrb 0]) D) = Inr m"
    using head_block [OF assms(1-4), of key t0] by blast
  obtain D t' where 2: "a1_head_cipher L key (a1_salt p) None t = (Inr D, t')"
      "fst (decrypt L (replicate 16 (chrb 0) @ c @ [chrb 0]) D) = Inr m" using 1(3) by blast
  have "py_sub (a1_recv_buf p) 11 27 = c" using 1(1,2) assms(7,8) by simp
  then show ?thesis
    using 2 assms(5,6) by (intro exI [of _ t']) (simp add: a1_open_block_def Let_def case_prod_beta)
qed


lemma a1_admit_wait:
  assumes "length (a1_recv_buf p) < len" and "len < 65536" and "length auth = 12"
  shows "a1_admit hl now (auth @ le16 len @ le16 rl) key i p = (HReturn (Inr ([], False)), p)"
proof -
  have "py_sub (auth @ le16 len @ le16 rl) 12 14 = le16 len"
    using py_sub_exact [of auth 12 "le16 len" 14] assms(3) by simp
  then show ?thesis using assms by (simp add: a1_admit_def Let_def)
qed

lemma a1_admit_go:
  assumes "length lid = 4" and "cid < 4294967296" and "len < 65536" and "rl < 65536" and "4 \<le> len"
    and "len \<le> length (a1_recv_buf p)"
    and mac: "py_sub (a1_recv_buf p) (len - 4) len = take 4 (hmac hl (a1_hashfunc p) key (take (len - 4) (a1_recv_buf p)))"
    and "\<bar>floor ts - floor tc\<bar> \<le> 86400" and "a1_max_time_dif p = 86400"
    and "mu_insert auth_ops ts (a1_user_id p) (le_val lid) cid (si_data i) = (Inr True, d)"
  shows "a1_admit hl ts ((le32 (utc32 tc) @ lid @ le32 cid) @ le16 len @ le16 rl) key i p
    = (HGo (py_sub (a1_recv_buf p) (31 + rl) (len - 4)) True,
       p\<lparr>p_server_info := Some (i\<lparr>si_data := d\<rparr>), a1_has_recv_header := True, a1_client_id := le_val lid,
         a1_connection_id := cid, a1_recv_buf := drop len (a1_recv_buf p)\<rparr>)"
proof -
  define head where "head = (le32 (utc32 tc) @ lid @ le32 cid) @ le16 len @ le16 rl"
  have 0: "length head = 16" using assms(1) by (simp add: head_def)
  have 1: "take 4 head = le32 (utc32 tc)" by (simp add: head_def)
  have 2: "py_sub head 4 8 = lid"
    using py_sub_exact [of "le32 (utc32 tc)" 4 lid 8] assms(1) by (simp add: head_def)
  have 3: "py_sub head 8 12 = le32 cid"
    using py_sub_exact [of "le32 (utc32 tc) @ lid" 8 "le32 cid" 12] assms(1) by (simp add: head_def)
  have 4: "py_sub head 12 14 = le16 len"
    using py_sub_exact [of "le32 (utc32 tc) @ lid @ le32 cid" 12 "le16 len" 14] assms(1) by (simp add: head_def)
  have 5: "py_sub head 14 16 = le16 rl"
    using py_sub_exact_end [of "le32 (utc32 tc) @ lid @ le32 cid @ le16 len" 14 "le16 rl" 16] assms(1)
    by (simp add: head_def)
  have t: "int32 (int (utc32 tc) - int (utc32 ts)) = floor tc - floor ts"
    using assms(8) by (intro int32_diff) linarith
  have tt: "\<not> floor tc - floor ts < - 86400" "\<not> 86400 < floor tc - floor ts"
    using assms(8) by linarith+
  let ?rb = "a1_recv_buf p"
  have s1: "py_slice ?rb 0 (int len - 4) = take (len - 4) ?rb"
    using py_slice_diff [of 4 len ?rb 0] assms(5) by (simp add: py_sub_0)
  have s2: "py_slice ?rb (int len - 4) (int len) = py_sub ?rb (len - 4) len"
    using py_slice_nat [of ?rb "len - 4" len] assms(5) by (simp add: of_nat_diff)
  have s3: "py_slice ?rb (31 + int rl) (int len - 4) = py_sub ?rb (31 + rl) (len - 4)"
    using py_slice_diff [of 4 len ?rb "31 + rl"] assms(5) by simp
  show ?thesis
    unfolding head_def [symmetric] a1_admit_def Let_def
    using assms(2-4,6,9,10) mac by (simp add: 0 1 2 3 4 5 t tt s1 s2 s3)
qed

subsection \<open>The client's first write\<close>

text \<open>An account that both sides know: none at all, or the client's parameter is the id and password of
  an entry of the server's table.\<close>

definition a1_account :: "bytes \<Rightarrow> (bytes \<times> bytes) list \<Rightarrow> bytes option \<Rightarrow> bool" where
  "a1_account param users u \<longleftrightarrow>
     (case u of
        None \<Rightarrow> \<not> py_in '':'' param \<and> users = []
      | Some uid \<Rightarrow> (\<exists>n pw. n < 4294967296 \<and> param = dec n @ '':'' @ pw \<and> CHR '':'' \<notin> set pw \<and> uid = le32 n
          \<and> map_of users uid = Some pw))"

definition a1_user_of :: "bytes option \<Rightarrow> bytes \<Rightarrow> bytes" where
  "a1_user_of u r = (case u of None \<Rightarrow> r | Some uid \<Rightarrow> uid)"

lemma colon_not_dec: "CHR '':'' \<notin> set (dec n)"
  using dec_digits [of "CHR '':''" n] by (auto simp: is_digit_def)

lemma param_user_named:
  assumes "n < 4294967296" and "CHR '':'' \<notin> set pw"
  shows "param_user hl hf (dec n @ '':'' @ pw) = Some (digest hl hf pw, Some (le32 n))"
proof -
  have "py_split '':'' (dec n @ '':'' @ pw) = [dec n, pw]"
    using py_split_Cons [OF colon_not_dec [of n], where p = "[]" and t = pw] py_split_fresh [OF assms(2), where p = "[]"] by simp
  moreover have "py_in '':'' (dec n @ '':'' @ pw)"
    using py_find_first [OF colon_not_dec [of n], where p = "[]" and t = pw] by (simp add: py_in_def)
  ultimately show ?thesis using assms(1) by (simp add: param_user_def)
qed

definition a1_finds :: "hash_lib \<Rightarrow> 'd server_info \<Rightarrow> bytes option \<Rightarrow> bytes \<Rightarrow> bool" where
  "a1_finds hl i u r \<longleftrightarrow> (case u of None \<Rightarrow> a1_take_user hl i r = (i, None)
     | Some uid \<Rightarrow> a1_take_user hl i uid = (i\<lparr>si_updates := uid # si_updates i\<rparr>, Some uid))"

lemma a1_findsD:
  "a1_finds hl i u r \<Longrightarrow> u = None \<Longrightarrow> a1_take_user hl i r = (i, None)"
  "a1_finds hl i u r \<Longrightarrow> u = Some uid \<Longrightarrow> a1_take_user hl i uid = (i\<lparr>si_updates := uid # si_updates i\<rparr>, Some uid)"
  by (simp_all add: a1_finds_def)

text \<open>Client and server take the same key and the server finds the user.\<close>

lemma a1_account_key:
  assumes "a1_account (si_protocol_param ic) (si_users is) u" and "si_key is = si_key ic"
  shows "\<exists>key. (case param_user hl hf (si_protocol_param ic) of
       None \<Rightarrow> u = None \<and> key = si_key ic | Some (k, x) \<Rightarrow> u \<noteq> None \<and> x = u \<and> key = k)
    \<and> (\<forall>r. a1_key_of hl hf is (a1_user_of u r) = key
         \<and> a1_finds hl is u r)"
proof (cases u)
  case None
  then show ?thesis
    using assms by (simp add: a1_account_def param_user_def a1_key_of_def a1_take_user_def a1_finds_def)
next
  case (Some uid)
  then obtain n pw where n: "n < 4294967296" "si_protocol_param ic = dec n @ '':'' @ pw" "CHR '':'' \<notin> set pw"
      "uid = le32 n" "map_of (si_users is) uid = Some pw"
    using assms(1) unfolding a1_account_def by auto
  then show ?thesis
    using Some by (intro exI [of _ "digest hl hf pw"])
      (simp add: param_user_named a1_user_of_def a1_key_of_def a1_take_user_def a1_finds_def del: append.simps)
qed


lemma a1_auth_data_fields:
  assumes "a1_auth_data now d t = (auth, d', t')"
    and "mu_local_client_id d = [] \<or> length (mu_local_client_id d) = 4"
    and "mu_connection_id d < 0xFFFFFFFF"
  shows "auth = le32 (utc32 now) @ mu_local_client_id d' @ le32 (mu_connection_id d')"
    and "length (mu_local_client_id d') = 4" and "mu_connection_id d' < 4294967296"
proof -
  have "le_val c mod 16777216 < 16777216" for c by simp
  then show "auth = le32 (utc32 now) @ mu_local_client_id d' @ le32 (mu_connection_id d')"
    and "length (mu_local_client_id d') = 4" and "mu_connection_id d' < 4294967296"
    using assms by (auto simp: a1_auth_data_def Let_def split: prod.splits if_splits
        intro: less_trans dest: urandom_length simp flip: Suc_le_eq)
qed

lemma get_head_size_pos: "0 < get_head_size buf 30"
  by (simp add: get_head_size_def Let_def)

lemma a1_pack_auth_shape:
  assumes "\<And>x. length (md5 L x) = 16" and "is_ascii (a1_salt p)" and "aes_block L" and "length auth = 12"
    and "buf \<noteq> []" and "length buf \<le> 8100" and "a1_user_key p = None"
    and "case param_user hl (a1_hashfunc p) (si_protocol_param i) of
       None \<Rightarrow> u = None \<and> key = si_key i | Some (k, x) \<Rightarrow> u \<noteq> None \<and> x = u \<and> key = k"
    and "u \<noteq> None \<longrightarrow> length (the u) = 4"
  shows "\<exists>c r E t1 t2 rnd t'. length c = 1 \<and> length r = 4 \<and> length rnd < 1024
    \<and> a1_head_cipher L key (a1_salt p) (Some (replicate 16 (chrb 0))) t1 = (Inr E, t2)
    \<and> (let m = auth @ le16 (35 + length rnd + length buf) @ le16 (length rnd);
           blk = drop 16 (fst (encrypt L m E))
       in length blk = 16
        \<and> a1_pack_auth_data hl L auth buf i t p = (Inr (a1_header hl (a1_hashfunc p) (si_iv i @ si_key i) key c
             (a1_user_of u r) blk rnd buf), t', p\<lparr>a1_user_key := Some key\<rparr>))"
proof -
  obtain x ta where x: "urandom 2 t = (x, ta)" by fastforce
  define n where "n = (if length buf > 400 then le_val x mod 512 else le_val x mod 1024)"
  have n: "n < 1024"
    using mod_less_divisor [of 512 "le_val x"] mod_less_divisor [of 1024 "le_val x"] unfolding n_def
    by (simp del: mod_less_divisor)
  obtain r tb where r: "urandom 4 ta = (r, tb)" by fastforce
  define m where "m = auth @ le16 (35 + n + length buf) @ le16 n"
  have "length m = 16" using assms(4) by (simp add: m_def)
  from head_block [OF assms(1-3) this, of key tb]
  obtain E tc where E: "a1_head_cipher L key (a1_salt p) (Some (replicate 16 (chrb 0))) tb = (Inr E, tc)"
      "length (drop 16 (fst (encrypt L m E))) = 16" by blast
  obtain c td where c: "urandom 1 tc = (c, td)" by fastforce
  obtain rnd te where rnd: "urandom n td = (rnd, te)" by fastforce
  note l = urandom_length [OF r] urandom_length [OF c] urandom_length [OF rnd]
  have pk: "pack_le16 (7 + 4 + 16 + 4 + length buf + n + 4) = Inr (le16 (35 + n + length buf))"
    using n assms(6) by (simp add: pack_le16_def algebra_simps)
  have lb: "(length buf = 0) = False" using assms(5) by simp
  have sel: "(case (case param_user hl (a1_hashfunc p) (si_protocol_param i) of
       None \<Rightarrow> (a1_user_key p, r) | Some (k, None) \<Rightarrow> (Some k, r) | Some (k, Some u) \<Rightarrow> (Some k, u)) of
       (key0, uid) \<Rightarrow> ((case key0 of None \<Rightarrow> si_key i | Some k \<Rightarrow> k), uid)) = (key, a1_user_of u r)"
    using assms(7,8) by (auto simp: a1_user_of_def split: option.splits prod.splits)
  obtain key0 uid where ku: "(case param_user hl (a1_hashfunc p) (si_protocol_param i) of
       None \<Rightarrow> (a1_user_key p, r) | Some (k, None) \<Rightarrow> (Some k, r) | Some (k, Some u) \<Rightarrow> (Some k, u)) = (key0, uid)"
    by fastforce
  have k: "(case key0 of None \<Rightarrow> si_key i | Some k \<Rightarrow> k) = key" "uid = a1_user_of u r"
    using sel unfolding ku by simp_all
  have "a1_pack_auth_data hl L auth buf i t p = (Inr (a1_header hl (a1_hashfunc p) (si_iv i @ si_key i) key c
             (a1_user_of u r) (drop 16 (fst (encrypt L m E))) rnd buf), te, p\<lparr>a1_user_key := Some key\<rparr>)"
    by (simp only: a1_pack_auth_data_def Let_def x prod.case n_def [symmetric] pk sum.case r ku k lb if_False
        E(1) [unfolded m_def] m_def [symmetric] E(1) c rnd a1_header_def append_assoc)
  then show ?thesis
    using l n E unfolding m_def
    by (intro exI [of _ c] exI [of _ r] exI [of _ E] exI [of _ tb] exI [of _ tc] exI [of _ rnd] exI [of _ te])
       (simp add: Let_def)
qed


lemma a1_client_first:
  assumes "hash_sizes hl" and "\<And>x. length (md5 L x) = 16" and "is_ascii (a1_salt p)" and "aes_block L"
    and "\<not> a1_has_sent_header p" and "p_server_info p = Some i" and "a1_unit_len p = 8100" and "a1_user_key p = None"
    and "si_tcp_mss i \<le> 1500" and "buf \<noteq> []"
    and "mu_local_client_id (si_data i) = [] \<or> length (mu_local_client_id (si_data i)) = 4"
    and "mu_connection_id (si_data i) < 0xFFFFFFFF"
    and "case param_user hl (a1_hashfunc p) (si_protocol_param i) of
       None \<Rightarrow> u = None \<and> key = si_key i | Some (k, x) \<Rightarrow> u \<noteq> None \<and> x = u \<and> key = k"
    and "u \<noteq> None \<longrightarrow> length (the u) = 4"
  shows "\<exists>d k c r E t1 t2 rnd t' fs pid. length c = 1 \<and> length r = 4 \<and> length rnd < 1024 \<and> k \<le> 290
    \<and> length (mu_local_client_id d) = 4 \<and> mu_connection_id d < 4294967296
    \<and> a1_head_cipher L key (a1_salt p) (Some (replicate 16 (chrb 0))) t1 = (Inr E, t2)
    \<and> (let m = (le32 (utc32 now) @ mu_local_client_id d @ le32 (mu_connection_id d))
               @ le16 (35 + length rnd + length (take k buf)) @ le16 (length rnd);
           blk = drop 16 (fst (encrypt L m E))
       in length blk = 16
        \<and> a1_client_pre_encrypt hl L now buf t p
          = (Inr (a1_header hl (a1_hashfunc p) (si_iv i @ si_key i) key c (a1_user_of u r) blk rnd (take k buf)
                  @ concat (map fst fs)), t',
             p\<lparr>p_server_info := Some (i\<lparr>si_data := d\<rparr>), a1_user_key := Some key, a1_has_sent_header := True,
               a1_pack_id := pid, a1_last_rnd_len := length buf\<rparr>))
    \<and> framed (a1_step hl (a1_hashfunc p) (Some key)) (a1_pack_id p) fs pid
    \<and> concat (map fst (map snd fs)) = drop k buf"
proof -
  obtain j ta where j: "randint 0 31 t = (j, ta)" by fastforce
  define k where "k = min (length buf) (j + get_head_size buf 30)"
  have k: "k \<le> 290" "0 < k"
    using randint_bounds [OF _ j] get_head_size_bound [of buf 30] get_head_size_pos [of buf] assms(10)
    by (auto simp: k_def)
  obtain auth d tb where a: "a1_auth_data now (si_data i) ta = (auth, d, tb)" using prod_cases3 by blast
  note af = a1_auth_data_fields [OF a assms(11,12)]
  let ?p1 = "p\<lparr>p_server_info := Some (i\<lparr>si_data := d\<rparr>)\<rparr>"
  have la: "length auth = 12" using af by simp
  have tk: "take k buf \<noteq> []" "length (take k buf) \<le> 8100" using k assms(10) by auto
  obtain c r E t1 t2 rnd tc where h: "length c = 1" "length r = 4" "length rnd < 1024"
      "a1_head_cipher L key (a1_salt p) (Some (replicate 16 (chrb 0))) t1 = (Inr E, t2)"
      "let m = auth @ le16 (35 + length rnd + length (take k buf)) @ le16 (length rnd);
           blk = drop 16 (fst (encrypt L m E))
       in length blk = 16
        \<and> a1_pack_auth_data hl L auth (take k buf) i tb ?p1 = (Inr (a1_header hl (a1_hashfunc p) (si_iv i @ si_key i) key c
             (a1_user_of u r) blk rnd (take k buf)), tc, ?p1\<lparr>a1_user_key := Some key\<rparr>)"
    using a1_pack_auth_shape [where L = L and p = ?p1 and auth = auth and buf = "take k buf" and hl = hl and i = i
        and u = u and key = key and t = tb] assms(2-4,8,13,14) la tk by auto
  let ?p2 = "?p1\<lparr>a1_user_key := Some key, a1_has_sent_header := True\<rparr>"
  have "a1_ready hl key ?p2" using assms by (simp add: a1_ready_def)
  from a1_pack_all_framed [OF this, of "length buf" "drop k buf" tc]
  obtain fs td pid where fs: "a1_pack_all hl (length buf) (drop k buf) tc ?p2
      = (Inr (concat (map fst fs)), td, ?p2\<lparr>a1_pack_id := pid, a1_last_rnd_len := length buf\<rparr>)"
      "framed (a1_step hl (a1_hashfunc p) (Some key)) (a1_pack_id p) fs pid" "concat (map fst (map snd fs)) = drop k buf"
    by auto
  define m where "m = auth @ le16 (35 + length rnd + length (take k buf)) @ le16 (length rnd)"
  define blk where "blk = drop 16 (fst (encrypt L m E))"
  let ?h = "a1_header hl (a1_hashfunc p) (si_iv i @ si_key i) key c (a1_user_of u r) blk rnd (take k buf)"
  let ?p3 = "p\<lparr>p_server_info := Some (i\<lparr>si_data := d\<rparr>), a1_user_key := Some key, a1_has_sent_header := True,
               a1_pack_id := pid, a1_last_rnd_len := length buf\<rparr>"
  have blk: "length blk = 16"
    and w: "a1_pack_auth_data hl L auth (take k buf) i tb ?p1 = (Inr ?h, tc, ?p1\<lparr>a1_user_key := Some key\<rparr>)"
    using h(5) unfolding Let_def m_def [symmetric] blk_def [symmetric] by (rule conjunct1, rule conjunct2)
  have c: "a1_client_pre_encrypt hl L now buf t p = (Inr (?h @ concat (map fst fs)), td, ?p3)"
    using assms(5,6) j a w fs(1) by (simp add: a1_client_pre_encrypt_def k_def [symmetric])
  note blk = blk [unfolded blk_def m_def af(1)] and c = c [unfolded blk_def m_def af(1)]
  show ?thesis
    unfolding Let_def
    by (rule exI [of _ d], rule exI [of _ k], rule exI [of _ c], rule exI [of _ r], rule exI [of _ E], rule exI [of _ t1],
        rule exI [of _ t2], rule exI [of _ rnd], rule exI [of _ td], rule exI [of _ fs], rule exI [of _ pid],
        intro conjI, rule h(1), rule h(2), rule h(3), rule k(1), rule af(2), rule af(3), rule h(4), rule blk, rule c,
        rule fs(2), rule fs(3))
qed


subsection \<open>The server reads the header\<close>

text \<open>A server that has got a part of the header: it may have looked up the user already.\<close>

definition a1_waiting :: "auth_aes128 \<Rightarrow> client_queue mu_data server_info \<Rightarrow> bytes option \<Rightarrow> auth_aes128 \<times> tape \<Rightarrow> bytes \<Rightarrow> bool" where
  "a1_waiting p0 i u s b \<longleftrightarrow> (\<exists>p us. p = fst s \<and> p_server_info p = Some (i\<lparr>si_updates := us\<rparr>)
     \<and> \<not> a1_raw_trans p \<and> \<not> a1_has_recv_header p \<and> a1_hashfunc p = a1_hashfunc p0 \<and> a1_salt p = a1_salt p0
     \<and> a1_max_time_dif p = a1_max_time_dif p0 \<and> a1_recv_id p = a1_recv_id p0
     \<and> (a1_user_id p = None \<or> a1_user_id p = u) \<and> a1_recv_buf p = b)"

lemma a1_key_of_updates [simp]: "a1_key_of hl hf (i\<lparr>si_updates := us\<rparr>) uid = a1_key_of hl hf i uid"
  by (simp add: a1_key_of_def split: option.split)

lemma a1_take_user_updates:
  "u = None \<Longrightarrow> a1_take_user hl i uid = (i, None) \<Longrightarrow> a1_take_user hl (i\<lparr>si_updates := us\<rparr>) uid = (i\<lparr>si_updates := us\<rparr>, None)"
  "a1_take_user hl i uid = (i\<lparr>si_updates := uid # si_updates i\<rparr>, Some uid) \<Longrightarrow>
   a1_take_user hl (i\<lparr>si_updates := us\<rparr>) uid = (i\<lparr>si_updates := uid # us\<rparr>, Some uid)"
  by (auto simp: a1_take_user_def split: if_splits)

lemma a1_waiting_reads:
  assumes w: "a1_waiting p0 i u s b" and hs: "hash_sizes hl" and md5: "\<And>x. length (md5 L x) = 16"
    and salt: "is_ascii (a1_salt p0)" and aes: "aes_block L"
    and h: "h = a1_header hl (a1_hashfunc p0) (si_recv_iv i @ si_key i) key c (a1_user_of u r)
        (drop 16 (fst (encrypt L m E))) rnd body"
    and len: "length c = 1" "length (a1_user_of u r) = 4" "length (drop 16 (fst (encrypt L m E))) = 16" "length m = 16"
    and E: "a1_head_cipher L key (a1_salt p0) (Some (replicate 16 (chrb 0))) t0 = (Inr E, t1)"
    and key: "a1_key_of hl (a1_hashfunc p0) i (a1_user_of u r) = key"
    and finds: "a1_finds hl i u r"
    and same: "(b @ x) @ y = h @ z" and q: "q = (fst s)\<lparr>a1_recv_buf := b @ x\<rparr>"
  shows "a1_read_header hl L now q t = (HReturn (Inr ([], False)), q, t) \<and> length (b @ x) < 31
    \<or> (\<exists>us t'. a1_read_header hl L now q t =
         (case a1_admit hl now m key (i\<lparr>si_updates := us\<rparr>) (q\<lparr>p_server_info := Some (i\<lparr>si_updates := us\<rparr>),
            a1_user_key := Some key, a1_user_id := u\<rparr>) of (hr, q') \<Rightarrow> (hr, q', t')))"
proof -
  obtain us where p: "p_server_info q = Some (i\<lparr>si_updates := us\<rparr>)" "a1_hashfunc q = a1_hashfunc p0" "a1_salt q = a1_salt p0"
      "a1_user_id q = None \<or> a1_user_id q = u" "a1_recv_buf q = b @ x"
    using w q unfolding a1_waiting_def by auto
  let ?i = "i\<lparr>si_updates := us\<rparr>" and ?blk = "drop 16 (fst (encrypt L m E))"
  have h': "h = a1_header hl (a1_hashfunc q) (si_recv_iv ?i @ si_key ?i) key c (a1_user_of u r) ?blk rnd body"
    using h p by simp
  have same': "a1_recv_buf q @ y = h @ z" using same p by simp
  note f = a1_header_fields [OF hs len(1-3) h']
  note rd = a1_header_read [OF h' hs len(1-3) same' p(1), of L now t]
  show ?thesis
  proof (cases "length (b @ x) < 31")
    case True
    then show ?thesis using rd p(5) by simp
  next
    case False
    have sub: "py_sub (a1_recv_buf q) j k = py_sub h j k" if "k \<le> 31" for j k
      using py_sub_same [OF same', of k j] that False p(5) f(7) by simp
    have s1: "py_sub (a1_recv_buf q) 7 11 = a1_user_of u r" "py_sub (a1_recv_buf q) 11 27 = ?blk"
      using sub [of 11 7] sub [of 27 11] f(3,4) by simp_all
    have tu: "\<exists>us'. fst (a1_take_user hl ?i (a1_user_of u r)) = i\<lparr>si_updates := us'\<rparr>
        \<and> snd (a1_take_user hl ?i (a1_user_of u r)) = u"
    proof (cases u)
      case None
      then show ?thesis
        using a1_take_user_updates(1) [OF None a1_findsD(1) [OF finds None], of us] by (intro exI [of _ us]) (simp add: a1_user_of_def)
    next
      case (Some uid)
      then show ?thesis
        using a1_take_user_updates(2) [OF a1_findsD(2) [OF finds Some], of us]
        by (intro exI [of _ "uid # us"]) (simp add: a1_user_of_def)
    qed
    then obtain us' where tu: "fst (a1_take_user hl ?i (a1_user_of u r)) = i\<lparr>si_updates := us'\<rparr>"
        "snd (a1_take_user hl ?i (a1_user_of u r)) = u" by blast
    have id: "(case u of None \<Rightarrow> a1_user_id q | Some x \<Rightarrow> Some x) = u" using p(4) by (cases u) auto
    have "\<exists>t'. a1_open_block hl L now ?i q t =
      (case a1_admit hl now m key (fst (a1_take_user hl ?i (a1_user_of u r)))
        (q\<lparr>p_server_info := Some (fst (a1_take_user hl ?i (a1_user_of u r))), a1_user_key := Some key,
           a1_user_id := (case snd (a1_take_user hl ?i (a1_user_of u r)) of None \<Rightarrow> a1_user_id q | Some x \<Rightarrow> Some x)\<rparr>)
       of (h, q) \<Rightarrow> (h, q, t'))"
      by (rule a1_open_block_head [OF md5 _ aes len(4) s1(1) _ s1(2)]) (use salt p key E in simp_all)
    then show ?thesis using rd False p(5) tu id by auto
  qed
qed


text \<open>A call that leaves the header incomplete keeps waiting, with nothing delivered.\<close>

lemma a1_header_wait:
  assumes w: "a1_waiting srv is u (p, t) b" and q: "q = p\<lparr>a1_recv_buf := b @ x\<rparr>"
    and rd: "a1_read_header hl L ts q t = (HReturn (Inr ([], False)), q, t) \<or> (\<exists>us t'. a1_read_header hl L ts q t =
         (case a1_admit hl ts m key (is\<lparr>si_updates := us\<rparr>) (q\<lparr>p_server_info := Some (is\<lparr>si_updates := us\<rparr>),
            a1_user_key := Some key, a1_user_id := u\<rparr>) of (hr, q') \<Rightarrow> (hr, q', t')))"
    and m: "m = (le32 (utc32 tc) @ lid @ le32 cid) @ le16 (35 + length rnd + length body) @ le16 (length rnd)"
    and ids: "length lid = 4" "cid < 4294967296" "length rnd < 1024" "length body \<le> 8100"
    and short: "length (b @ x) < 35 + length rnd + length body"
  shows "\<exists>out s'. a1_server_post_decrypt hl L ts x (p, t) = (Inr out, s') \<and> fst out = [] \<and> a1_waiting srv is u s' (b @ x)"
proof -
  have wait: "a1_admit hl ts m key i' p' = (HReturn (Inr ([], False)), p')" if "a1_recv_buf p' = b @ x" for i' p'
    unfolding m by (rule a1_admit_wait) (use that short ids in simp_all)
  have "\<exists>q' t'. a1_read_header hl L ts q t = (HReturn (Inr ([], False)), q', t') \<and> a1_waiting srv is u (q', t') (b @ x)"
    using rd
  proof (elim disjE exE)
    show ?thesis if "a1_read_header hl L ts q t = (HReturn (Inr ([], False)), q, t)"
      using that w by (auto simp: a1_waiting_def q)
    fix us t' assume "a1_read_header hl L ts q t =
       (case a1_admit hl ts m key (is\<lparr>si_updates := us\<rparr>) (q\<lparr>p_server_info := Some (is\<lparr>si_updates := us\<rparr>),
          a1_user_key := Some key, a1_user_id := u\<rparr>) of (hr, q') \<Rightarrow> (hr, q', t'))"
    then show ?thesis using w wait by (auto simp: a1_waiting_def q)
  qed
  then show ?thesis
    using w by (auto simp: a1_server_post_decrypt_def a1_waiting_def q)
qed

text \<open>The call that completes the header admits the client, and goes on with the frames behind it.\<close>

lemma a1_header_last:
  assumes w: "a1_waiting srv is u (p, t) b" and md: "a1_max_time_dif srv = 86400"
    and rd: "a1_read_header hl L ts (p\<lparr>a1_recv_buf := b @ x\<rparr>) t =
         (case a1_admit hl ts m key (is\<lparr>si_updates := us\<rparr>) (p\<lparr>a1_recv_buf := b @ x, p_server_info := Some (is\<lparr>si_updates := us\<rparr>),
            a1_user_key := Some key, a1_user_id := u\<rparr>) of (hr, q') \<Rightarrow> (hr, q', t'))"
    and m: "m = (le32 (utc32 tc) @ lid @ le32 cid) @ le16 (35 + length rnd + length body) @ le16 (length rnd)"
    and ids: "length lid = 4" "cid < 4294967296" "length rnd < 1024" "length body \<le> 8100"
    and ins: "mu_insert auth_ops ts u (le_val lid) cid (si_data is) = (Inr True, ds)"
    and time: "\<bar>floor ts - floor tc\<bar> \<le> 86400"
    and same: "b @ x = h @ y" and len: "length h = 35 + length rnd + length body"
    and mac: "py_sub h (35 + length rnd + length body - 4) (35 + length rnd + length body)
        = take 4 (hmac hl (a1_hashfunc srv) key (take (35 + length rnd + length body - 4) h))"
    and body: "py_sub h (31 + length rnd) (35 + length rnd + length body - 4) = body"
    and dr: "drain (a1_step hl (a1_hashfunc srv) (Some key)) (a1_recv_id srv) y = Drained st' r' ps"
  shows "\<exists>out s'. a1_server_post_decrypt hl L ts x (p, t) = (Inr out, s') \<and> fst out = body @ concat (map fst ps)
      \<and> (a1_rel (a1_hashfunc srv) key (fst s') st' r' \<and> a1_has_recv_header (fst s') \<and> a1_user_id (fst s') = u)"
proof -
  let ?p = "p\<lparr>a1_recv_buf := b @ x, p_server_info := Some (is\<lparr>si_updates := us\<rparr>), a1_user_key := Some key, a1_user_id := u\<rparr>"
  have pp: "a1_hashfunc p = a1_hashfunc srv" "a1_max_time_dif p = 86400" "\<not> a1_raw_trans p"
      "a1_recv_id p = a1_recv_id srv" "\<not> a1_has_recv_header p" "a1_recv_buf p = b"
    using w md by (auto simp: a1_waiting_def)
  have rb: "a1_recv_buf ?p = h @ y" using same by simp
  let ?p2 = "?p\<lparr>p_server_info := Some (is\<lparr>si_updates := us, si_data := ds\<rparr>), a1_has_recv_header := True,
       a1_client_id := le_val lid, a1_connection_id := cid, a1_recv_buf := y\<rparr>"
  have "a1_admit hl ts m key (is\<lparr>si_updates := us\<rparr>) ?p
    = (HGo (py_sub (h @ y) (31 + length rnd) (35 + length rnd + length body - 4)) True,
       ?p\<lparr>p_server_info := Some (is\<lparr>si_updates := us, si_data := ds\<rparr>), a1_has_recv_header := True,
       a1_client_id := le_val lid, a1_connection_id := cid,
       a1_recv_buf := drop (35 + length rnd + length body) (h @ y)\<rparr>)"
    unfolding m rb [symmetric]
  proof (rule a1_admit_go [OF ids(1,2)])
    show "py_sub (a1_recv_buf ?p) (35 + length rnd + length body - 4) (35 + length rnd + length body)
        = take 4 (hmac hl (a1_hashfunc ?p) key (take (35 + length rnd + length body - 4) (a1_recv_buf ?p)))"
      unfolding rb using mac pp(1) by (simp add: py_sub_append len)
  qed (use ids time pp ins len rb in simp_all)
  also have "py_sub (h @ y) (31 + length rnd) (35 + length rnd + length body - 4) = body"
    using body by (simp add: py_sub_append len)
  finally have "a1_read_header hl L ts (p\<lparr>a1_recv_buf := b @ x\<rparr>) t = (HGo body True, ?p2, t')" using rd len by simp
  moreover obtain x' q' where "a1_server_frames hl ts body True ?p2 = (Inr (body @ concat (map fst ps), x'), q')"
      "a1_rel (a1_hashfunc srv) key q' st' r'" "a1_has_recv_header q'" "a1_user_id q' = u"
    using a1_server_frames_drained [of "a1_hashfunc srv" key ?p2 "a1_recv_id srv" y hl st' r' ps ts body True] dr pp
    by (auto simp: a1_rel_def)
  ultimately show ?thesis
    using pp by (simp add: a1_server_post_decrypt_def)
qed

lemma a1_server_stream:
  assumes w: "a1_waiting srv is u (srv, t3) []" and hs: "hash_sizes hl" and md5: "\<And>x. length (md5 L x) = 16"
    and salt: "is_ascii (a1_salt srv)" and aes: "aes_block L" and md: "a1_max_time_dif srv = 86400"
    and m: "m = (le32 (utc32 tc) @ lid @ le32 cid) @ le16 (35 + length rnd + length body) @ le16 (length rnd)"
    and ids: "length lid = 4" "cid < 4294967296" "length rnd < 1024" "length body \<le> 8100"
    and blk: "blk = drop 16 (fst (encrypt L m E))"
    and h: "h = a1_header hl (a1_hashfunc srv) (si_recv_iv is @ si_key is) key c (a1_user_of u r) blk rnd body"
    and len: "length c = 1" "length (a1_user_of u r) = 4" "length blk = 16"
    and E: "a1_head_cipher L key (a1_salt srv) (Some (replicate 16 (chrb 0))) t0 = (Inr E, t1)"
    and key: "a1_key_of hl (a1_hashfunc srv) is (a1_user_of u r) = key"
    and finds: "a1_finds hl is u r"
    and ins: "mu_insert auth_ops ts u (le_val lid) cid (si_data is) = (Inr True, ds)"
    and time: "\<bar>floor ts - floor tc\<bar> \<le> 86400"
    and fs: "framed (a1_step hl (a1_hashfunc srv) (Some key)) (a1_recv_id srv) fs rid'"
    and cs: "concat cs = h @ concat (map fst fs)"
  shows "\<exists>outs s'. feed_all (a1_server_post_decrypt hl L ts) cs (srv, t3) = (Inr outs, s')
      \<and> concat (map fst outs) = body @ concat (map fst (map snd fs))
      \<and> (a1_rel (a1_hashfunc srv) key (fst s') rid' [] \<and> a1_has_recv_header (fst s') \<and> a1_user_id (fst s') = u)"
proof -
  let ?step = "a1_step hl (a1_hashfunc srv) (Some key)"
  let ?rel = "\<lambda>s rid r. a1_rel (a1_hashfunc srv) key (fst s) rid r \<and> a1_has_recv_header (fst s) \<and> a1_user_id (fst s) = u"
  note f = a1_header_fields [OF hs len h]
  have lm: "length m = 16" using ids(1) by (simp add: m)
  note reads = a1_waiting_reads [OF _ hs md5 salt aes h [unfolded blk] len(1,2) len(3) [unfolded blk] lm E key finds]
  have drained: "drain ?step (a1_recv_id srv) (concat (map fst fs)) = Drained rid' [] (map snd fs)"
    by (rule a1.drain_framed [OF fs]) simp
  show ?thesis
  proof (rule a1.feed_all_header [where f = "a1_server_post_decrypt hl L ts" and val = fst and pay = fst
        and waiting = "a1_waiting srv is u" and rel = ?rel and h = h, OF _ _ _ drained])
    fix s b x y assume w: "a1_waiting srv is u s b" and same: "(b @ x) @ y = h" and y: "y \<noteq> []"
    obtain p t where s: "s = (p, t)" by fastforce
    have short: "length (b @ x) < 35 + length rnd + length body" using f(7) same y by (cases y) auto
    have same': "(b @ x) @ y = h @ []" using same by simp
    have "(p\<lparr>a1_recv_buf := b @ x\<rparr>) = (fst s)\<lparr>a1_recv_buf := b @ x\<rparr>" by (simp add: s)
    note rd = reads [OF w same' this, where t = t and now = ts]
    show "\<exists>out s'. a1_server_post_decrypt hl L ts x s = (Inr out, s') \<and> fst out = [] \<and> a1_waiting srv is u s' (b @ x)"
      unfolding s by (rule a1_header_wait [OF w [unfolded s] refl _ m ids short]) (use rd in blast)
  next
    fix s b x y st' r' ps
    assume w: "a1_waiting srv is u s b" and same: "b @ x = h @ y" and dr: "drain ?step (a1_recv_id srv) y = Drained st' r' ps"
    obtain p t where s: "s = (p, t)" by fastforce
    have q: "(p\<lparr>a1_recv_buf := b @ x\<rparr>) = (fst s)\<lparr>a1_recv_buf := b @ x\<rparr>" by (simp add: s)
    have same': "(b @ x) @ [] = h @ y" using same by simp
    have "\<not> length (b @ x) < 31" using f(7) same by simp
    then obtain us t' where rd: "a1_read_header hl L ts (p\<lparr>a1_recv_buf := b @ x\<rparr>) t =
         (case a1_admit hl ts m key (is\<lparr>si_updates := us\<rparr>) (p\<lparr>a1_recv_buf := b @ x, p_server_info := Some (is\<lparr>si_updates := us\<rparr>),
            a1_user_key := Some key, a1_user_id := u\<rparr>) of (hr, q') \<Rightarrow> (hr, q', t'))"
      using reads [OF w same' q, where t = t and now = ts] by blast
    show "\<exists>out s'. a1_server_post_decrypt hl L ts x s = (Inr out, s') \<and> fst out = body @ concat (map fst ps)
        \<and> ?rel s' st' r'"
      unfolding s by (rule a1_header_last [OF w [unfolded s] md rd m ids ins time same f(7) f(8,9) [unfolded f(7)] dr])
  next
    fix s :: "auth_aes128 \<times> tape" and rid b x rid2 r' ps
    assume "?rel s rid b" and "drain ?step rid (b @ x) = Drained rid2 r' ps"
    then show "\<exists>out s'. a1_server_post_decrypt hl L ts x s = (Inr out, s') \<and> fst out = concat (map fst ps) \<and> ?rel s' rid2 r'"
      using a1_server_call [of "a1_hashfunc srv" key "fst s" rid b hl x rid2 r' ps L ts "snd s"] by fastforce
  next
    show "[] @ concat cs = h @ concat (map fst fs)" using cs by simp
    show "length [] < length h" using f(7) by simp
    show "a1_waiting srv is u (srv, t3) []" by (rule w)
  qed
qed

lemma a1_later_writes:
  assumes "a1_ready hl key p" and "a1_has_sent_header p" and "a1_hashfunc p = hf"
  shows "\<exists>ws t' q fs pid. encode_all (a1_client_pre_encrypt hl L now) bufs t p = (Inr ws, t', q)
    \<and> concat ws = concat (map fst fs) \<and> framed (a1_step hl hf (Some key)) (a1_pack_id p) fs pid
    \<and> concat (map fst (map snd fs)) = concat bufs \<and> p_server_info q = p_server_info p \<and> a1_user_key q = a1_user_key p"
proof -
  define inv where "inv = (\<lambda>q st. a1_ready hl key q \<and> a1_has_sent_header q \<and> a1_hashfunc q = hf \<and> a1_pack_id q = st
      \<and> p_server_info q = p_server_info p \<and> a1_user_key q = a1_user_key p)"
  have wr: "\<exists>fs t' q' st'. a1_client_pre_encrypt hl L now b t q = (Inr (concat (map fst fs)), t', q') \<and> inv q' st'
      \<and> framed (a1_step hl hf (Some key)) st fs st' \<and> concat (map fst (map snd fs)) = b" if q: "inv q st" for b t q st
  proof -
    have i: "a1_ready hl key q" "a1_has_sent_header q" "a1_hashfunc q = hf" "a1_pack_id q = st"
      using q unfolding inv_def by auto
    obtain fs t' pid where a: "a1_pack_all hl (length b) b t q
        = (Inr (concat (map fst fs)), t', q\<lparr>a1_pack_id := pid, a1_last_rnd_len := length b\<rparr>)"
        "framed (a1_step hl hf (Some key)) st fs pid" "concat (map fst (map snd fs)) = b"
      using a1_pack_all_framed [OF i(1), of "length b" b t] unfolding i(3,4) by (elim exE conjE) (rule that)
    have "inv (q\<lparr>a1_pack_id := pid, a1_last_rnd_len := length b\<rparr>) pid"
      using q unfolding inv_def a1_ready_def by auto
    then show ?thesis using a i(2) by (auto simp: a1_client_pre_encrypt_def)
  qed
  have "inv p (a1_pack_id p)" using assms by (simp add: inv_def)
  from encode_all_framed [where inv = inv and step = "a1_step hl hf (Some key)" and f = "a1_client_pre_encrypt hl L now"
      and bs = bufs and t = t, OF _ this] wr
  have "\<exists>ws t' q st' fs. encode_all (a1_client_pre_encrypt hl L now) bufs t p = (Inr ws, t', q)
      \<and> concat ws = concat (map fst fs) \<and> inv q st' \<and> framed (a1_step hl hf (Some key)) (a1_pack_id p) fs st'
      \<and> concat (map fst (map snd fs)) = concat bufs"
    by blast
  then show ?thesis unfolding inv_def by (elim exE conjE) (intro exI conjI)
qed

text \<open>All that a fresh client writes: its header with the head of the first buffer, then whole frames.\<close>

lemma a1_client_stream:
  assumes hs: "hash_sizes hl" and md5: "\<And>x. length (md5 L x) = 16" and sa: "is_ascii (a1_salt cli)" and aes: "aes_block L"
    and cli: "\<not> a1_has_sent_header cli" "p_server_info cli = Some ic" "a1_unit_len cli = 8100" "a1_user_key cli = None"
    and id1: "a1_pack_id cli = 1"
    and ic: "si_tcp_mss ic \<le> 1500" "buf \<noteq> []"
      "mu_local_client_id (si_data ic) = [] \<or> length (mu_local_client_id (si_data ic)) = 4"
      "mu_connection_id (si_data ic) < 0xFFFFFFFF"
    and key: "case param_user hl (a1_hashfunc cli) (si_protocol_param ic) of
       None \<Rightarrow> u = None \<and> key = si_key ic | Some (k, x) \<Rightarrow> u \<noteq> None \<and> x = u \<and> key = k"
    and u4: "u \<noteq> None \<longrightarrow> length (the u) = 4"
    and enc: "encode_all (a1_client_pre_encrypt hl L tq) (buf # bufs) t cli = (Inr ws, t', c)"
  obtains d k c1 r E ta tb rnd fs pid m blk where "length c1 = 1" "length r = 4" "length rnd < 1024" "k \<le> 290"
      "length (mu_local_client_id d) = 4" "mu_connection_id d < 4294967296"
      "a1_head_cipher L key (a1_salt cli) (Some (replicate 16 (chrb 0))) ta = (Inr E, tb)"
      "m = (le32 (utc32 tq) @ mu_local_client_id d @ le32 (mu_connection_id d))
           @ le16 (35 + length rnd + length (take k buf)) @ le16 (length rnd)"
      "blk = drop 16 (fst (encrypt L m E))" "length blk = 16"
      "concat ws = a1_header hl (a1_hashfunc cli) (si_iv ic @ si_key ic) key c1 (a1_user_of u r) blk rnd (take k buf)
         @ concat (map fst fs)"
      "framed (a1_step hl (a1_hashfunc cli) (Some key)) 1 fs pid"
      "take k buf @ concat (map fst (map snd fs)) = concat (buf # bufs)"
      "p_server_info c = Some (ic\<lparr>si_data := d\<rparr>)" "a1_user_key c = Some key"
proof -
  obtain d k c1 r E ta tb rnd tc fs pid where f: "length c1 = 1" "length r = 4" "length rnd < 1024" "k \<le> 290"
      "length (mu_local_client_id d) = 4" "mu_connection_id d < 4294967296"
      "a1_head_cipher L key (a1_salt cli) (Some (replicate 16 (chrb 0))) ta = (Inr E, tb)"
    and first: "let m = (le32 (utc32 tq) @ mu_local_client_id d @ le32 (mu_connection_id d))
               @ le16 (35 + length rnd + length (take k buf)) @ le16 (length rnd);
           blk = drop 16 (fst (encrypt L m E))
       in length blk = 16
        \<and> a1_client_pre_encrypt hl L tq buf t cli
          = (Inr (a1_header hl (a1_hashfunc cli) (si_iv ic @ si_key ic) key c1 (a1_user_of u r) blk rnd (take k buf)
                  @ concat (map fst fs)), tc,
             cli\<lparr>p_server_info := Some (ic\<lparr>si_data := d\<rparr>), a1_user_key := Some key, a1_has_sent_header := True,
               a1_pack_id := pid, a1_last_rnd_len := length buf\<rparr>)"
    and fs: "framed (a1_step hl (a1_hashfunc cli) (Some key)) 1 fs pid" "concat (map fst (map snd fs)) = drop k buf"
    using a1_client_first [OF hs md5 sa aes cli ic key u4, where now = tq and t = t]
    unfolding id1 by (elim exE conjE) (rule that)
  define m where "m = (le32 (utc32 tq) @ mu_local_client_id d @ le32 (mu_connection_id d))
               @ le16 (35 + length rnd + length (take k buf)) @ le16 (length rnd)"
  define blk where "blk = drop 16 (fst (encrypt L m E))"
  let ?h = "a1_header hl (a1_hashfunc cli) (si_iv ic @ si_key ic) key c1 (a1_user_of u r) blk rnd (take k buf)"
  let ?c1 = "cli\<lparr>p_server_info := Some (ic\<lparr>si_data := d\<rparr>), a1_user_key := Some key, a1_has_sent_header := True,
               a1_pack_id := pid, a1_last_rnd_len := length buf\<rparr>"
  have blk: "length blk = 16" and w1: "a1_client_pre_encrypt hl L tq buf t cli = (Inr (?h @ concat (map fst fs)), tc, ?c1)"
    using first unfolding Let_def m_def [symmetric] blk_def [symmetric] by (rule conjunct1, rule conjunct2)
  obtain ws2 t4 c4 gs pid2 where w2: "encode_all (a1_client_pre_encrypt hl L tq) bufs tc ?c1 = (Inr ws2, t4, c4)"
      "concat ws2 = concat (map fst gs)" "framed (a1_step hl (a1_hashfunc cli) (Some key)) pid gs pid2"
      "concat (map fst (map snd gs)) = concat bufs" "p_server_info c4 = Some (ic\<lparr>si_data := d\<rparr>)" "a1_user_key c4 = Some key"
    using a1_later_writes [of hl key ?c1 "a1_hashfunc cli" L tq bufs tc] hs ic(1) cli
    by (auto simp: a1_ready_def)
  have ws: "ws = (?h @ concat (map fst fs)) # ws2" "c = c4" using enc w1 w2(1) by simp_all
  show thesis
  proof (rule that [OF f m_def blk_def blk])
    show "concat ws = ?h @ concat (map fst (fs @ gs))" using ws(1) w2(2) by simp
    show "framed (a1_step hl (a1_hashfunc cli) (Some key)) 1 (fs @ gs) pid2" unfolding framed_append using fs(1) w2(3) by blast
    show "take k buf @ concat (map fst (map snd (fs @ gs))) = concat (buf # bufs)" using fs(2) w2(4) by simp
  qed (use w2(5,6) ws(2) in simp_all)
qed

text \<open>C35. A connection of auth_aes128 between a client and a server with the same key, near clocks, an
  account both know, and a table that accepts the client's ids: for any random choices, any padding,
  any cut of the stream - header included - the server takes every chunk without an exception,
  delivers exactly the bytes that the client wrote, and holds the connection for the client's user.\<close>

theorem auth_aes128_up:
  assumes "hash_sizes hl" and "\<And>x. length (md5 L x) = 16" and "aes_block L"
    and "si_key is = si_key ic" and "si_recv_iv is = si_iv ic"
    and "a1_account (si_protocol_param ic) (si_users is) u" and "si_tcp_mss ic \<le> 1500" and "buf \<noteq> []"
    and "mu_local_client_id (si_data ic) = [] \<or> length (mu_local_client_id (si_data ic)) = 4"
    and "mu_connection_id (si_data ic) < 0xFFFFFFFF"
    and enc: "encode_all (a1_client_pre_encrypt hl L tq) (buf # bufs) t
        ((fst (auth_aes128_new m hf t1))\<lparr>p_server_info := Some ic\<rparr>) = (Inr ws, t', c)"
    and "p_server_info c = Some jc"
    and "fst (mu_insert auth_ops ts u (le_val (mu_local_client_id (si_data jc))) (mu_connection_id (si_data jc)) (si_data is))
        = Inr True"
    and "\<bar>floor ts - floor tq\<bar> \<le> 86400" and "concat cs = concat ws"
  shows "\<exists>outs s t''. feed_all (a1_server_post_decrypt hl L ts) cs
        ((fst (auth_aes128_new m' hf t2))\<lparr>p_server_info := Some is\<rparr>, t3) = (Inr outs, s, t'')
      \<and> concat (map fst outs) = concat (buf # bufs) \<and> a1_recv_buf s = [] \<and> a1_has_recv_header s
      \<and> \<not> a1_raw_trans s \<and> a1_user_id s = u \<and> a1_user_key s = a1_user_key c"
proof -
  define cli where "cli = (fst (auth_aes128_new m hf t1))\<lparr>p_server_info := Some ic\<rparr>"
  define srv where "srv = (fst (auth_aes128_new m' hf t2))\<lparr>p_server_info := Some is\<rparr>"
  define salt where "salt = (if hf = MD5 then ''auth_aes128_md5'' else ''auth_aes128_sha1'')"
  have cli: "\<not> a1_has_sent_header cli" "p_server_info cli = Some ic" "a1_unit_len cli = 8100" "a1_user_key cli = None"
      and cli': "a1_pack_id cli = 1" "a1_hashfunc cli = hf" "a1_salt cli = salt"
    by (simp_all add: cli_def auth_aes128_new_def salt_def Let_def split_beta)
  have srv: "a1_hashfunc srv = hf" "a1_salt srv = salt" "a1_max_time_dif srv = 86400" "a1_recv_id srv = 1"
    and srv': "a1_waiting srv is u (srv, t3) []"
    by (simp_all add: srv_def auth_aes128_new_def salt_def a1_waiting_def Let_def split_beta)
       (metis server_info.surjective server_info.update_convs(16))
  have sa: "is_ascii salt" by (simp add: salt_def is_ascii_def)
  from a1_account_key [OF assms(6,4), of hl hf] obtain key
    where k1: "case param_user hl hf (si_protocol_param ic) of
       None \<Rightarrow> u = None \<and> key = si_key ic | Some (k, x) \<Rightarrow> u \<noteq> None \<and> x = u \<and> key = k"
    and k2: "\<And>r. a1_key_of hl hf is (a1_user_of u r) = key" "\<And>r. a1_finds hl is u r"
    by blast
  have u4: "u \<noteq> None \<longrightarrow> length (the u) = 4" using assms(6) by (auto simp: a1_account_def split: option.splits)
  obtain d k c1 r E ta tb rnd fs pid m1 blk where f: "length c1 = 1" "length r = 4" "length rnd < 1024" "k \<le> 290"
      "length (mu_local_client_id d) = 4" "mu_connection_id d < 4294967296"
      "a1_head_cipher L key salt (Some (replicate 16 (chrb 0))) ta = (Inr E, tb)"
    and m1: "m1 = (le32 (utc32 tq) @ mu_local_client_id d @ le32 (mu_connection_id d))
           @ le16 (35 + length rnd + length (take k buf)) @ le16 (length rnd)"
    and blk: "blk = drop 16 (fst (encrypt L m1 E))" "length blk = 16"
    and w: "concat ws = a1_header hl hf (si_iv ic @ si_key ic) key c1 (a1_user_of u r) blk rnd (take k buf)
         @ concat (map fst fs)"
      "framed (a1_step hl hf (Some key)) 1 fs pid" "take k buf @ concat (map fst (map snd fs)) = concat (buf # bufs)"
    and c: "p_server_info c = Some (ic\<lparr>si_data := d\<rparr>)" "a1_user_key c = Some key"
    using a1_client_stream [OF assms(1,2) _ assms(3) cli cli'(1) assms(7-10) _ u4 enc [folded cli_def],
        unfolded cli', OF sa k1] by metis
  have jc: "si_data jc = d" using assms(12) c(1) by auto
  obtain ds where ins: "mu_insert auth_ops ts u (le_val (mu_local_client_id d)) (mu_connection_id d) (si_data is) = (Inr True, ds)"
    using assms(13) unfolding jc by (metis prod.collapse)
  note all = w(2) [folded srv(4)]
  have u4': "length (a1_user_of u r) = 4" using u4 f(2) by (cases u) (simp_all add: a1_user_of_def)
  have "\<exists>outs s'. feed_all (a1_server_post_decrypt hl L ts) cs (srv, t3) = (Inr outs, s')
      \<and> concat (map fst outs) = take k buf @ concat (map fst (map snd fs))
      \<and> (a1_rel (a1_hashfunc srv) key (fst s') pid [] \<and> a1_has_recv_header (fst s') \<and> a1_user_id (fst s') = u)"
    by (rule a1_server_stream [OF srv' assms(1,2) _ assms(3) srv(3) m1 f(5,6,3) _ blk(1) _ f(1) u4' blk(2) _ _ k2(2) ins])
       (use sa srv f(4,7) k2(1) assms(4,5,14,15) all w(1) in simp_all)
  then show ?thesis
    using w(3) c(2) by (auto simp: srv_def [symmetric] a1_rel_def)
qed


text \<open>A block cipher for concrete runs: it keeps the block, and holds back the byte that follows.\<close>

definition block_lib :: "unit crypto_lib" where
  "block_lib = plain_lib\<lparr>evp_update := (\<lambda>c x. (take 16 x, c))\<rparr>"

lemma block_lib_aes: "aes_block block_lib"
  by (simp add: aes_block_def block_lib_def plain_lib_def)

lemma block_lib_md5: "length (md5 block_lib x) = 16"
  by (simp add: block_lib_def plain_lib_def)

definition a1_client_info :: "client_queue mu_data server_info" where
  "a1_client_info = (server_info_new mu_data_new)\<lparr>si_protocol_param := ''7:pw''\<rparr>"

definition a1_server_info :: "client_queue mu_data server_info" where
  "a1_server_info = (server_info_new mu_data_new)\<lparr>si_users := [(le32 7, ''pw'')]\<rparr>"

lemma dec_7: "dec 7 = ''7''"
  by code_simp

lemma a1_info_fields:
  "si_key a1_server_info = si_key a1_client_info" "si_recv_iv a1_server_info = si_iv a1_client_info"
  "si_tcp_mss a1_client_info \<le> 1500" "si_data a1_client_info = mu_data_new" "si_data a1_server_info = mu_data_new"
  "mu_local_client_id mu_data_new = []" "mu_connection_id mu_data_new = 0"
  "a1_account (si_protocol_param a1_client_info) (si_users a1_server_info) (Some (le32 7))"
proof -
  show "a1_account (si_protocol_param a1_client_info) (si_users a1_server_info) (Some (le32 7))"
    by (simp add: a1_account_def a1_client_info_def a1_server_info_def)
       (intro exI [of _ 7], simp add: dec_7)
qed (simp_all add: a1_client_info_def a1_server_info_def server_info_new_def mu_data_new_def set_max_client_mu_def)

theorem auth_aes128_up_witness:
  "\<exists>ws outs s t''. fst (encode_all (a1_client_pre_encrypt plain_hashes block_lib 1000) [''GET /'', ''x''] []
        ((fst (auth_aes128_new ''a'' MD5 []))\<lparr>p_server_info := Some a1_client_info\<rparr>)) = Inr ws
    \<and> feed_all (a1_server_post_decrypt plain_hashes block_lib 2000) (map (\<lambda>c. [c]) (concat ws))
        ((fst (auth_aes128_new ''a'' MD5 []))\<lparr>p_server_info := Some a1_server_info\<rparr>, []) = (Inr outs, s, t'')
    \<and> concat (map fst outs) = ''GET /x'' \<and> a1_user_id s = Some (le32 7)"
proof -
  let ?c = "(fst (auth_aes128_new ''a'' MD5 []))\<lparr>p_server_info := Some a1_client_info\<rparr>"
  let ?f = "a1_client_pre_encrypt plain_hashes block_lib 1000"
  note f = a1_info_fields
  have n: "\<not> a1_has_sent_header ?c" "p_server_info ?c = Some a1_client_info" "a1_unit_len ?c = 8100"
      "a1_user_key ?c = None" "is_ascii (a1_salt ?c)" "a1_hashfunc ?c = MD5"
    by (simp_all add: auth_aes128_new_def Let_def split_beta is_ascii_def)
  obtain key where k: "case param_user plain_hashes (a1_hashfunc ?c) (si_protocol_param a1_client_info) of
       None \<Rightarrow> Some (le32 7) = None \<and> key = si_key a1_client_info
     | Some (k, x) \<Rightarrow> Some (le32 7) \<noteq> None \<and> x = Some (le32 7) \<and> key = k"
    using a1_account_key [OF f(8,1), of plain_hashes MD5] unfolding n(6) by blast
  have g: "''GET /'' \<noteq> []"
      "mu_local_client_id (si_data a1_client_info) = [] \<or> length (mu_local_client_id (si_data a1_client_info)) = 4"
      "mu_connection_id (si_data a1_client_info) < 0xFFFFFFFF" "Some (le32 7) \<noteq> None \<longrightarrow> length (the (Some (le32 7))) = 4"
    by (simp_all add: f)
  obtain w t1 d pid where 1: "?f ''GET /'' [] ?c = (Inr w, t1, ?c\<lparr>p_server_info := Some (a1_client_info\<lparr>si_data := d\<rparr>),
      a1_user_key := Some key, a1_has_sent_header := True, a1_pack_id := pid, a1_last_rnd_len := length ''GET /''\<rparr>)"
    using a1_client_first [OF plain_hashes_sizes block_lib_md5 n(5) block_lib_aes n(1-4) f(3) g(1-3) k g(4),
        where now = 1000 and t = "[]"] unfolding Let_def by (elim exE conjE) (rule that)
  let ?c1 = "?c\<lparr>p_server_info := Some (a1_client_info\<lparr>si_data := d\<rparr>),
      a1_user_key := Some key, a1_has_sent_header := True, a1_pack_id := pid, a1_last_rnd_len := length ''GET /''\<rparr>"
  obtain ws t2 q where 2: "encode_all ?f [''x''] t1 ?c1 = (Inr ws, t2, q)" "p_server_info q = p_server_info ?c1"
    using a1_later_writes [of plain_hashes key ?c1 MD5 block_lib 1000 "[''x'']" t1] plain_hashes_sizes n f(3)
    by (auto simp: a1_ready_def)
  have e: "encode_all ?f [''GET /'', ''x''] [] ?c = (Inr (w # ws), t2, q)"
    using encode_all.simps(2) [of ?f "''GET /''" "[''x'']" "[]" ?c] 1 2(1) by (simp del: encode_all.simps)
  have j: "p_server_info q = Some (a1_client_info\<lparr>si_data := d\<rparr>)" using 2(2) by simp
  have "\<exists>outs s t''. feed_all (a1_server_post_decrypt plain_hashes block_lib 2000) (map (\<lambda>c. [c]) (concat (w # ws)))
        ((fst (auth_aes128_new ''a'' MD5 []))\<lparr>p_server_info := Some a1_server_info\<rparr>, []) = (Inr outs, s, t'')
      \<and> concat (map fst outs) = concat [''GET /'', ''x''] \<and> a1_recv_buf s = [] \<and> a1_has_recv_header s
      \<and> \<not> a1_raw_trans s \<and> a1_user_id s = Some (le32 7) \<and> a1_user_key s = a1_user_key q"
    by (rule auth_aes128_up [OF plain_hashes_sizes block_lib_md5 block_lib_aes f(1,2,8,3) _ _ _ e j _ _ concat_singles])
       (simp_all add: f mu_insert_fresh)
  then obtain outs s t'' where run: "feed_all (a1_server_post_decrypt plain_hashes block_lib 2000) (map (\<lambda>c. [c]) (concat (w # ws)))
        ((fst (auth_aes128_new ''a'' MD5 []))\<lparr>p_server_info := Some a1_server_info\<rparr>, []) = (Inr outs, s, t'')"
      "concat (map fst outs) = concat [''GET /'', ''x'']" "a1_user_id s = Some (le32 7)"
    by (elim exE conjE) (rule that)
  have "concat (map fst outs) = ''GET /x''" using run(2) by simp
  moreover have "fst (encode_all ?f [''GET /'', ''x''] [] ?c) = Inr (w # ws)" unfolding e by simp
  ultimately show ?thesis using run(1,3) by blast
qed


subsection \<open>Datagrams arrive\<close>

lemma clamp_index_neg: "0 < n \<Longrightarrow> n \<le> m \<Longrightarrow> clamp_index m (- int n) = m - n"
  by (auto simp: clamp_index_def)

lemma but_last_append [simp]: "0 < n \<Longrightarrow> length b = n \<Longrightarrow> but_last n (a @ b) = a"
  unfolding but_last_def py_slice_def by (simp add: clamp_index_neg py_sub_0) (simp add: clamp_index_def py_sub_def)

lemma last_bytes_append [simp]: "0 < n \<Longrightarrow> length b = n \<Longrightarrow> last_bytes n (a @ b) = b"
  using clamp_index_nat [of "length a + n" "length a + n"]
  by (simp add: last_bytes_def py_slice_def clamp_index_neg py_sub_def del: clamp_index_nat)

lemma py_slice_before_last:
  assumes "length u = 4" and "length m = 4"
  shows "py_slice ((a @ u) @ m) (-8) (-4) = u" and "but_last 8 ((a @ u) @ m) = a"
proof -
  show "py_slice ((a @ u) @ m) (-8) (-4) = u"
    using assms clamp_index_neg [of 8 "length ((a @ u) @ m)"] clamp_index_neg [of 4 "length ((a @ u) @ m)"]
    by (simp add: py_slice_def py_sub_def)
  show "but_last 8 ((a @ u) @ m) = a" using assms but_last_append [of 8 "u @ m" a] by simp
qed

text \<open>A datagram of auth_aes128 from a client with an account that the server knows arrives
  unchanged and under the client's user, an answer arrives unchanged, and the server drops a datagram
  whose four last bytes are not the HMAC under the key of the user it names.\<close>

theorem auth_aes128_udp:
  assumes "hash_sizes hl" and "p_server_info c = Some ic" and "p_server_info s = Some is"
    and "a1_hashfunc s = a1_hashfunc c" and "a1_user_key c = None" and "si_key is = si_key ic"
    and "a1_account (si_protocol_param ic) (si_users is) u"
  shows "(\<exists>w t' c'. a1_client_udp_pre_encrypt hl buf t c = (Inr w, t', c') \<and> a1_server_udp_post_decrypt hl w s = Inr (buf, u))
    \<and> (\<exists>w. a1_server_udp_pre_encrypt hl ans v s = Inr w \<and> a1_client_udp_post_decrypt hl w c = Inr ans)
    \<and> (last_bytes 4 pkt \<noteq> take 4 (hmac hl (a1_hashfunc s) (a1_key_of hl (a1_hashfunc s) is (py_slice pkt (-8) (-4)))
           (but_last 4 pkt)) \<longrightarrow> a1_server_udp_post_decrypt hl pkt s = Inr ([], None))"
proof (intro conjI impI)
  have len: "length (take 4 (hmac hl h k m)) = 4" for h k m by (rule hash_sizes_take [OF assms(1)]) simp
  from a1_account_key [OF assms(7,6), of hl "a1_hashfunc c"] obtain key
    where k1: "case param_user hl (a1_hashfunc c) (si_protocol_param ic) of
       None \<Rightarrow> u = None \<and> key = si_key ic | Some (k, x) \<Rightarrow> u \<noteq> None \<and> x = u \<and> key = k"
    and k2: "\<And>r. a1_key_of hl (a1_hashfunc c) is (a1_user_of u r) = key" by blast
  obtain r t1 where r: "urandom 4 t = (r, t1)" by fastforce
  define x where "x = a1_user_of u r"
  have x: "length x = 4" and ux: "(if map_of (si_users is) x \<noteq> None then Some x else None) = u"
    using assms(7) urandom_length [OF r] unfolding x_def a1_account_def a1_user_of_def by (cases u; auto)+
  define m where "m = take 4 (hmac hl (a1_hashfunc c) key (buf @ x))"
  have m: "length m = 4" unfolding m_def by (rule len)
  have "\<exists>t' c'. a1_client_udp_pre_encrypt hl buf t c = (Inr ((buf @ x) @ m), t', c')"
    using assms(2,5) k1 r unfolding a1_client_udp_pre_encrypt_def x_def m_def a1_user_of_def
    by (cases u) (auto split: option.splits prod.splits)
  moreover have "a1_server_udp_post_decrypt hl ((buf @ x) @ m) s = Inr (buf, u)"
    using assms(3,4) k2 [of r] ux m x unfolding a1_server_udp_post_decrypt_def Let_def
    by (simp add: py_slice_before_last x_def [symmetric] m_def [symmetric] del: append_assoc)
      (auto split: if_splits)
  ultimately show "\<exists>w t' c'. a1_client_udp_pre_encrypt hl buf t c = (Inr w, t', c') \<and> a1_server_udp_post_decrypt hl w s = Inr (buf, u)"
    by blast
  show "\<exists>w. a1_server_udp_pre_encrypt hl ans v s = Inr w \<and> a1_client_udp_post_decrypt hl w c = Inr ans"
    using assms(2-4,6) len by (simp add: a1_server_udp_pre_encrypt_def a1_client_udp_post_decrypt_def)
  assume "last_bytes 4 pkt \<noteq> take 4 (hmac hl (a1_hashfunc s)
      (a1_key_of hl (a1_hashfunc s) is (py_slice pkt (-8) (-4))) (but_last 4 pkt))"
  then show "a1_server_udp_post_decrypt hl pkt s = Inr ([], None)"
    using assms(3) by (auto simp: a1_server_udp_post_decrypt_def Let_def)
qed

theorem auth_aes128_udp_witness:
  "\<exists>w t' c'. a1_client_udp_pre_encrypt plain_hashes ''ping'' [] (a1_example\<lparr>p_server_info := Some a1_client_info\<rparr>) = (Inr w, t', c')
    \<and> a1_server_udp_post_decrypt plain_hashes w (a1_example\<lparr>p_server_info := Some a1_server_info\<rparr>) = Inr (''ping'', Some (le32 7))"
proof -
  have "(\<exists>w t' c'. a1_client_udp_pre_encrypt plain_hashes ''ping'' [] (a1_example\<lparr>p_server_info := Some a1_client_info\<rparr>) = (Inr w, t', c')
      \<and> a1_server_udp_post_decrypt plain_hashes w (a1_example\<lparr>p_server_info := Some a1_server_info\<rparr>) = Inr (''ping'', Some (le32 7)))
    \<and> (\<exists>w. a1_server_udp_pre_encrypt plain_hashes ''pong'' None (a1_example\<lparr>p_server_info := Some a1_server_info\<rparr>) = Inr w
      \<and> a1_client_udp_post_decrypt plain_hashes w (a1_example\<lparr>p_server_info := Some a1_client_info\<rparr>) = Inr ''pong'')
    \<and> (last_bytes 4 [] \<noteq> take 4 (hmac plain_hashes (a1_hashfunc (a1_example\<lparr>p_server_info := Some a1_server_info\<rparr>))
         (a1_key_of plain_hashes (a1_hashfunc (a1_example\<lparr>p_server_info := Some a1_server_info\<rparr>)) a1_server_info
            (py_slice [] (-8) (-4))) (but_last 4 []))
       \<longrightarrow> a1_server_udp_post_decrypt plain_hashes [] (a1_example\<lparr>p_server_info := Some a1_server_info\<rparr>) = Inr ([], None))"
    by (rule auth_aes128_udp [OF plain_hashes_sizes, where ic = a1_client_info]) (simp_all add: a1_example_fields a1_info_fields)
  then show ?thesis by (rule conjunct1)
qed


text \<open>A client whose protocol parameter names a user by something that is not a 32-bit number raises
  TypeError on its first datagram: the key is set, the user id is not, and the two are
  concatenated.\<close>

theorem auth_aes128_udp_bad_id:
  assumes "p_server_info c = Some i" and "a1_user_key c = None" and "a1_user_id c = None"
    and "py_in '':'' (si_protocol_param i)"
    and "\<And>n. py_int (hd (py_split '':'' (si_protocol_param i))) = Some n \<Longrightarrow> n < 0 \<or> 4294967296 \<le> n"
  shows "fst (a1_client_udp_pre_encrypt hl buf t c) = Inl TypeError"
proof -
  have h: "py_split '':'' (si_protocol_param i) ! 0 = hd (py_split '':'' (si_protocol_param i))"
    by (rule hd_conv_nth [symmetric]) simp
  have "\<exists>k. param_user hl (a1_hashfunc c) (si_protocol_param i) = Some (k, None)"
  proof (cases "py_int (hd (py_split '':'' (si_protocol_param i)))")
    case (Some n)
    then have "\<not> (0 \<le> n \<and> n < 4294967296)" using assms(5) by force
    then show ?thesis using Some assms(4) by (simp add: param_user_def h)
  qed (use assms(4) in \<open>simp add: param_user_def h\<close>)
  then show ?thesis using assms(1-3) by (auto simp: a1_client_udp_pre_encrypt_def)
qed

theorem auth_aes128_udp_bad_id_witness:
  "fst (a1_client_udp_pre_encrypt plain_hashes ''ping'' []
     (a1_example\<lparr>p_server_info := Some ((server_info_new mu_data_new)\<lparr>si_protocol_param := ''x:pw''\<rparr>)\<rparr>)) = Inl TypeError"
proof -
  have "py_in '':'' ''x:pw''" and "py_int (hd (py_split '':'' ''x:pw'')) = None" by code_simp+
  then show ?thesis
    using auth_aes128_udp_bad_id [of "a1_example\<lparr>p_server_info := Some ((server_info_new mu_data_new)\<lparr>si_protocol_param := ''x:pw''\<rparr>)\<rparr>"
        "(server_info_new mu_data_new)\<lparr>si_protocol_param := ''x:pw''\<rparr>" plain_hashes "''ping''" "[]"]
    by (simp add: a1_example_fields)
qed

end
