(* ===== verification/Auth_Chain.thy ===== *)
theory Auth_Chain
  imports Auth_Aes128
begin

unbundle bit_operations_syntax

text \<open>
  The protocols \<^verbatim>\<open>auth_chain_a\<close> to \<^verbatim>\<open>auth_chain_d\<close> of
  \<^verbatim>\<open>obfsplugin/auth_chain.py\<close>, TCP and UDP. Every frame's HMAC is the key of the next: it masks
  the length and seeds the generator from which both sides compute the length and the place of the
  padding, so that the wire shows neither. The four classes differ in how the padding's length is
  chosen. RC4 runs through the connection. The generators \<^verbatim>\<open>random_client\<close> and
  \<^verbatim>\<open>random_server\<close> are not part of the state: each method seeds the generator before it draws
  from it.
\<close>

subsection \<open>The generator\<close>

type_synonym xorshift = "nat \<times> nat"

definition max_int :: nat where
  "max_int = 2 ^ 64 - 1"

definition mov_mask :: nat where
  "mov_mask = 2 ^ (64 - 23) - 1"

definition xs_next :: "xorshift \<Rightarrow> nat \<times> xorshift" where
  "xs_next s =
     (case s of (v0, v1) \<Rightarrow>
        (let x = v0; y = v1;
             x1 = x XOR push_bit 23 (x AND mov_mask);
             x2 = x1 XOR ((y XOR drop_bit 17 x1 XOR drop_bit 26 y) AND max_int)
         in ((x2 + y) AND max_int, (y, x2))))"

definition init_from_bin :: "bytes \<Rightarrow> xorshift" where
  "init_from_bin s = (let b = s @ replicate 16 (chrb 0) in (le_val (take 8 b), le_val (py_sub b 8 16)))"

text \<open>\<^verbatim>\<open>struct.pack('<H', length)\<close> is given a 16-bit length by every caller but a sender of more
  than 65535 bytes at once, who fails there.\<close>

definition init_from_bin_len :: "bytes \<Rightarrow> nat \<Rightarrow> xorshift" where
  "init_from_bin_len s n =
     (let b = le16 n @ drop 2 (s @ replicate 16 (chrb 0));
          next = (\<lambda>g. snd (xs_next g))
      in next (next (next (next (le_val (take 8 b), le_val (py_sub b 8 16))))))"

subsection \<open>Lengths of the padding\<close>

datatype chain_variant = ChainA | ChainB | ChainC | ChainD

record chain_sizes =
  cs_variant :: chain_variant
  data_size_list :: "nat list"
  data_size_list2 :: "nat list"
  data_size_list0 :: "nat list"

fun draw_sizes :: "nat \<Rightarrow> xorshift \<Rightarrow> nat list \<times> xorshift" where
  "draw_sizes 0 g = ([], g)"
| "draw_sizes (Suc n) g =
     (let (r, g1) = xs_next g; (rs, g2) = draw_sizes n g1 in (r mod 2340 mod 2040 mod 1440 # rs, g2))"

definition init_sizes_b :: "bytes \<Rightarrow> nat list \<times> nat list" where
  "init_sizes_b key =
     (let (n, g1) = xs_next (init_from_bin key);
          (l, g2) = draw_sizes (n mod 8 + 4) g1;
          (n2, g3) = xs_next g2;
          (l2, g4) = draw_sizes (n2 mod 16 + 8) g3
      in (sort l, sort l2))"

definition init_sizes_c :: "bytes \<Rightarrow> nat list \<times> xorshift" where
  "init_sizes_c key =
     (let (n, g1) = xs_next (init_from_bin key);
          (l, g2) = draw_sizes (n mod (8 + 16) + (4 + 8)) g1
      in (sort l, g2))"

function check_and_patch :: "nat list \<Rightarrow> xorshift \<Rightarrow> nat list" where
  "check_and_patch l g =
     (if last l < 1300 \<and> length l < 64
      then (let (r, g1) = xs_next g in check_and_patch (l @ [r mod 2340 mod 2040 mod 1440]) g1)
      else l)"
  by pat_completeness auto
termination
  by (relation "measure (\<lambda>(l, g). 64 - length l)") auto

declare check_and_patch.simps [simp del]

definition init_sizes_d :: "bytes \<Rightarrow> nat list" where
  "init_sizes_d key =
     (let (l, g) = init_sizes_c key;
          l' = check_and_patch l g
      in if length l \<noteq> length l' then sort l' else l')"

definition init_data_size :: "bytes \<Rightarrow> chain_sizes \<Rightarrow> chain_sizes" where
  "init_data_size key cs =
     (case cs_variant cs of
        ChainA \<Rightarrow> cs
      | ChainB \<Rightarrow> (let (l, l2) = init_sizes_b key in cs\<lparr>data_size_list := l, data_size_list2 := l2\<rparr>)
      | ChainC \<Rightarrow> cs\<lparr>data_size_list0 := fst (init_sizes_c key)\<rparr>
      | ChainD \<Rightarrow> cs\<lparr>data_size_list0 := init_sizes_d key\<rparr>)"

text \<open>\<^verbatim>\<open>bisect.bisect_left\<close> on a sorted list\<close>

definition bisect_left :: "nat list \<Rightarrow> int \<Rightarrow> nat" where
  "bisect_left l x = length (takeWhile (\<lambda>y. int y < x) l)"

definition tail_len :: "int \<Rightarrow> xorshift \<Rightarrow> nat \<times> xorshift" where
  "tail_len n g =
     (let (r, g1) = xs_next g
      in (if n > 1300 then r mod 31 else if n > 900 then r mod 127 else if n > 400 then r mod 521 else r mod 1021, g1))"

text \<open>\<^verbatim>\<open>rnd_data_len\<close> of the four classes, with the generator as it is left. A chosen size is
  never below the data's (\<open>chosen_size\<close> below), so the differences are natural numbers.\<close>

definition rnd_data_len_a :: "nat \<Rightarrow> bytes \<Rightarrow> nat \<times> xorshift" where
  "rnd_data_len_a buf_size last_hash =
     (if buf_size > 1440 then (0, (0, 0)) else tail_len (int buf_size) (init_from_bin_len last_hash buf_size))"

definition rnd_data_len_b :: "chain_sizes \<Rightarrow> int \<Rightarrow> nat \<Rightarrow> bytes \<Rightarrow> nat \<times> xorshift" where
  "rnd_data_len_b cs overhead buf_size last_hash =
     (if buf_size \<ge> 1440 then (0, (0, 0))
      else
        (let other = int buf_size + overhead;
             l = data_size_list cs; l2 = data_size_list2 cs;
             (r, g1) = xs_next (init_from_bin_len last_hash buf_size);
             final_pos = bisect_left l other + r mod length l
         in if final_pos < length l then (nat (int (l ! final_pos) - other), g1)
            else
              (let pos2 = bisect_left l2 other;
                   (r2, g2) = xs_next g1;
                   final_pos2 = pos2 + r2 mod length l2
               in if final_pos2 < length l2 then (nat (int (l2 ! final_pos2) - other), g2)
                  else if final_pos2 < pos2 + length l2 - 1 then (0, g2)
                  else tail_len (int buf_size) g2)))"

definition pick_size0 :: "chain_sizes \<Rightarrow> int \<Rightarrow> xorshift \<Rightarrow> nat \<times> xorshift" where
  "pick_size0 cs other g =
     (let l = data_size_list0 cs;
          pos = bisect_left l other;
          (r, g1) = xs_next g
      in (nat (int (l ! (pos + r mod (length l - pos))) - other), g1))"

definition rnd_data_len_c :: "chain_sizes \<Rightarrow> int \<Rightarrow> nat \<Rightarrow> bytes \<Rightarrow> nat \<times> xorshift" where
  "rnd_data_len_c cs overhead buf_size last_hash =
     (let other = int buf_size + overhead; g = init_from_bin_len last_hash buf_size
      in if other \<ge> int (last (data_size_list0 cs))
         then (if other \<ge> 1440 then (0, g) else tail_len other g)
         else pick_size0 cs other g)"

definition rnd_data_len_d :: "chain_sizes \<Rightarrow> int \<Rightarrow> nat \<Rightarrow> bytes \<Rightarrow> nat \<times> xorshift" where
  "rnd_data_len_d cs overhead buf_size last_hash =
     (let other = int buf_size + overhead
      in if other \<ge> int (last (data_size_list0 cs)) then (0, (0, 0))
         else pick_size0 cs other (init_from_bin_len last_hash buf_size))"

definition c_rnd_data_len :: "chain_sizes \<Rightarrow> int \<Rightarrow> nat \<Rightarrow> bytes \<Rightarrow> nat \<times> xorshift" where
  "c_rnd_data_len cs overhead =
     (case cs_variant cs of
        ChainA \<Rightarrow> rnd_data_len_a
      | ChainB \<Rightarrow> rnd_data_len_b cs overhead
      | ChainC \<Rightarrow> rnd_data_len_c cs overhead
      | ChainD \<Rightarrow> rnd_data_len_d cs overhead)"

definition udp_rnd_data_len :: "bytes \<Rightarrow> nat" where
  "udp_rnd_data_len last_hash = fst (xs_next (init_from_bin last_hash)) mod 127"

definition rnd_start_pos :: "nat \<Rightarrow> xorshift \<Rightarrow> nat" where
  "rnd_start_pos rand_len g = (if rand_len > 0 then fst (xs_next g) mod 8589934609 mod rand_len else 0)"

text \<open>The data with the random bytes around it.\<close>

definition c_rnd_data :: "chain_sizes \<Rightarrow> int \<Rightarrow> bytes \<Rightarrow> bytes \<Rightarrow> tape \<Rightarrow> bytes \<times> tape" where
  "c_rnd_data cs overhead buf last_hash t =
     (let (rand_len, g) = c_rnd_data_len cs overhead (length buf) last_hash;
          (rnd, t') = urandom rand_len t
      in (if length buf = 0 then rnd
          else if rand_len > 0
            then (let start_pos = rnd_start_pos rand_len g in take start_pos rnd @ buf @ drop start_pos rnd)
          else buf, t'))"


subsection \<open>State\<close>

record 'o auth_chain = "chain_queue mu_data plain" +
  c_recv_buf :: bytes
  c_unit_len :: int
  c_raw_trans :: bool
  c_has_sent_header :: bool
  c_has_recv_header :: bool
  c_client_id :: nat
  c_connection_id :: nat
  c_max_time_dif :: int
  c_salt :: bytes
  c_no_compatible_method :: bytes
  c_pack_id :: nat
  c_recv_id :: nat
  c_user_id :: "bytes option"
  c_user_id_num :: nat
  c_user_key :: "bytes option"
  c_overhead :: int
  c_client_over_head :: nat
  c_last_client_hash :: bytes
  c_last_server_hash :: bytes
  c_encryptor :: "'o encryptor option"
  c_sizes :: chain_sizes

definition chain_name :: "chain_variant \<Rightarrow> bytes" where
  "chain_name v =
     (case v of ChainA \<Rightarrow> ''auth_chain_a'' | ChainB \<Rightarrow> ''auth_chain_b'' | ChainC \<Rightarrow> ''auth_chain_c''
      | ChainD \<Rightarrow> ''auth_chain_d'')"

definition auth_chain_new :: "bytes \<Rightarrow> chain_variant \<Rightarrow> 'o auth_chain" where
  "auth_chain_new method v =
     \<lparr>p_method = method, p_server_info = None, c_recv_buf = [], c_unit_len = 2800, c_raw_trans = False,
      c_has_sent_header = False, c_has_recv_header = False, c_client_id = 0, c_connection_id = 0,
      c_max_time_dif = 60 * 60 * 24, c_salt = chain_name v, c_no_compatible_method = chain_name v,
      c_pack_id = 1, c_recv_id = 1, c_user_id = None, c_user_id_num = 0, c_user_key = None,
      c_overhead = 4, c_client_over_head = 4, c_last_client_hash = [], c_last_server_hash = [],
      c_encryptor = None,
      c_sizes = \<lparr>cs_variant = v, data_size_list = [], data_size_list2 = [], data_size_list0 = []\<rparr>\<rparr>"

definition c_get_overhead :: "bool \<Rightarrow> 'o auth_chain \<Rightarrow> int" where
  "c_get_overhead direction p = c_overhead p"

definition c_set_server_info :: "chain_queue mu_data server_info \<Rightarrow> 'o auth_chain \<Rightarrow> 'o auth_chain" where
  "c_set_server_info i p =
     p\<lparr>p_server_info := Some (i\<lparr>si_data :=
         set_max_client_mu (max_client_param (si_protocol_param i)) (si_data i)\<rparr>),
       c_sizes := init_data_size (si_key i) (c_sizes p)\<rparr>"

definition c_not_match_return :: "bytes \<Rightarrow> 'o auth_chain \<Rightarrow> (bytes \<times> bool) \<times> 'o auth_chain" where
  "c_not_match_return buf p =
     (if p_method p = c_no_compatible_method p then (decoy, False) else (buf, False),
      p\<lparr>c_raw_trans := True, c_overhead := 0\<rparr>)"

subsection \<open>Frames\<close>

text \<open>What a sender of frames keeps: the counter, the last hash, the cipher.\<close>

record 'o chain_tx =
  tx_id :: nat
  tx_hash :: bytes
  tx_enc :: "'o encryptor"

text \<open>The common body of \<^verbatim>\<open>pack_client_data\<close> and \<^verbatim>\<open>pack_server_data\<close>, which differ in the
  hash they use.\<close>

definition c_pack_frame :: "hash_lib \<Rightarrow> 'o crypto_lib \<Rightarrow> chain_sizes \<Rightarrow> int \<Rightarrow> bytes option \<Rightarrow> 'o chain_tx \<times> tape
    \<Rightarrow> bytes \<Rightarrow> bytes res \<times> 'o chain_tx \<times> tape" where
  "c_pack_frame hl L cs overhead user_key s buf0 =
     (case s of (x, t) \<Rightarrow>
        (let (buf, e) = encrypt L buf0 (tx_enc x);
             (data, t1) = c_rnd_data cs overhead buf (tx_hash x) t;
             x1 = x\<lparr>tx_enc := e\<rparr>
         in case user_key of
              None \<Rightarrow> (Inl TypeError, x1, t1)
            | Some key \<Rightarrow>
                (case rbind (unpack_le16 (drop 14 (tx_hash x))) (\<lambda>mask. pack_le16 (length buf XOR mask)) of
                   Inl e \<Rightarrow> (Inl e, x1, t1)
                 | Inr l \<Rightarrow>
                     (let data1 = l @ data;
                          hash = hmac hl MD5 (key @ le32 (tx_id x)) data1
                      in (Inr (data1 @ take 2 hash),
                          x1\<lparr>tx_hash := hash, tx_id := (tx_id x + 1) mod 4294967296\<rparr>, t1)))))"

text \<open>\<^verbatim>\<open>while len(buf) > unit_len\<close>: with a bound that is not positive the loop packs forever,
  unless the first frame fails.\<close>

definition c_pack_loop :: "('s \<Rightarrow> bytes \<Rightarrow> bytes res \<times> 's) \<Rightarrow> int \<Rightarrow> bytes \<Rightarrow> 's \<Rightarrow> bytes res \<times> 's" where
  "c_pack_loop pack unit_len buf s =
     (if unit_len < 0 \<or> (unit_len = 0 \<and> buf \<noteq> [])
      then (case pack s (py_slice buf 0 unit_len) of (Inl e, s1) \<Rightarrow> (Inl e, s1) | (Inr _, s1) \<Rightarrow> (Inl NoReturn, s1))
      else pack_chunks pack s (chunk_list (nat unit_len) buf))"

definition c_pack_all :: "hash_lib \<Rightarrow> 'o crypto_lib \<Rightarrow> bool \<Rightarrow> bytes \<Rightarrow> tape \<Rightarrow> 'o auth_chain
    \<Rightarrow> bytes res \<times> tape \<times> 'o auth_chain" where
  "c_pack_all hl L client buf t p =
     (case (c_encryptor p, p_server_info p) of
        (Some e, Some i) \<Rightarrow>
          (let x = \<lparr>tx_id = c_pack_id p, tx_hash = (if client then c_last_client_hash p else c_last_server_hash p), tx_enc = e\<rparr>
           in case c_pack_loop (c_pack_frame hl L (c_sizes p) (si_overhead i) (c_user_key p)) (c_unit_len p) buf (x, t) of
                (r, y, t') \<Rightarrow>
                  (r, t', (if client then p\<lparr>c_last_client_hash := tx_hash y\<rparr> else p\<lparr>c_last_server_hash := tx_hash y\<rparr>)
                            \<lparr>c_pack_id := tx_id y, c_encryptor := Some (tx_enc y)\<rparr>))
      | _ \<Rightarrow> (Inl AttributeError, t, p))"

text \<open>What a receiver of frames keeps, and how a round can fail: with an exception, on a length of
  4096 or more, or on a wrong checksum.\<close>

record 'o chain_rx =
  rx_id :: nat
  rx_hash :: bytes
  rx_enc :: "'o encryptor option"

datatype 'o chain_error = ChainExc exc "'o chain_rx" | ChainLong | ChainSum

text \<open>The body of the loop and a round. The payload is the frame's number, its data and whether it is empty. A
  client (\<open>first\<close>) takes two bytes off the frame number 1; that this frame has them is checked
  here, the only case in which the loop fails there (as long as the number has not come round to 1
  again after \<^verbatim>\<open>2 ** 32\<close> frames). A server counts the frame before it decrypts it.\<close>

definition c_round :: "hash_lib \<Rightarrow> 'o crypto_lib \<Rightarrow> chain_sizes \<Rightarrow> int \<Rightarrow> bytes option \<Rightarrow> bool \<Rightarrow> 'o chain_rx \<Rightarrow> bytes
    \<Rightarrow> ('o chain_rx, nat \<times> bytes \<times> bool, 'o chain_error) frame_step" where
  "c_round hl L cs overhead user_key first x rb =
        (case user_key of
           None \<Rightarrow> Bad (ChainExc TypeError x)
         | Some key \<Rightarrow>
             (if length (rx_hash x) < 16 then Bad (ChainExc StructError x)
              else
                (let data_len = le_val (take 2 rb) XOR le_val (py_sub (rx_hash x) 14 16);
                     (rand_len, g) = c_rnd_data_len cs overhead data_len (rx_hash x);
                     len = data_len + rand_len;
                     hash = hmac hl MD5 (key @ le32 (rx_id x)) (take (len + 2) rb);
                     pos = (if data_len > 0 \<and> rand_len > 0 then 2 + rnd_start_pos rand_len g else 2);
                     failed_id = (if first then rx_id x else (rx_id x + 1) mod 4294967296)
                 in if len \<ge> 4096 then Bad ChainLong
                    else if len + 4 > length rb then More
                    else if take 2 hash \<noteq> py_sub rb (len + 2) (len + 4) then Bad ChainSum
                    else
                      (case rx_enc x of
                         None \<Rightarrow> Bad (ChainExc AttributeError (x\<lparr>rx_id := failed_id\<rparr>))
                       | Some e \<Rightarrow>
                           (case decrypt L (py_sub rb pos (data_len + pos)) e of
                              (Inl ex, e') \<Rightarrow> Bad (ChainExc ex (x\<lparr>rx_id := failed_id, rx_enc := Some e'\<rparr>))
                            | (Inr d, e') \<Rightarrow>
                                (if first \<and> rx_id x = 1 \<and> length d < 2
                                 then Bad (ChainExc StructError (x\<lparr>rx_enc := Some e', rx_hash := hash\<rparr>))
                                 else Frame (rx_id x, d, data_len = 0)
                                        \<lparr>rx_id = (rx_id x + 1) mod 4294967296, rx_hash = hash, rx_enc = Some e'\<rparr>
                                        (len + 4)))))))"

definition c_step :: "hash_lib \<Rightarrow> 'o crypto_lib \<Rightarrow> chain_sizes \<Rightarrow> int \<Rightarrow> bytes option \<Rightarrow> bool \<Rightarrow> 'o chain_rx \<Rightarrow> bytes
    \<Rightarrow> ('o chain_rx, nat \<times> bytes \<times> bool, 'o chain_error) frame_step" where
  "c_step hl L cs overhead user_key first x rb =
     (if length rb > 4 then c_round hl L cs overhead user_key first x rb else More)"

definition c_load :: "bytes \<Rightarrow> 'o auth_chain \<Rightarrow> 'o chain_rx" where
  "c_load hash p = \<lparr>rx_id = c_recv_id p, rx_hash = hash, rx_enc = c_encryptor p\<rparr>"

text \<open>The data that a client collects, and the MSS that the first frame begins with.\<close>

fun c_collect :: "(nat \<times> bytes \<times> bool) list \<Rightarrow> bytes \<Rightarrow> nat option \<Rightarrow> bytes \<times> nat option" where
  "c_collect [] out mss = (out, mss)"
| "c_collect ((rid, d, z) # ps) out mss =
     (if rid = 1 then c_collect ps (drop 2 (out @ d)) (Some (le_val (take 2 (out @ d))))
      else c_collect ps (out @ d) mss)"

definition c_overhead_of :: "'o auth_chain \<Rightarrow> int" where
  "c_overhead_of p = (case p_server_info p of None \<Rightarrow> 0 | Some i \<Rightarrow> si_overhead i)"

definition c_set_mss :: "nat option \<Rightarrow> 'o auth_chain \<Rightarrow> 'o auth_chain" where
  "c_set_mss m p =
     (case m of None \<Rightarrow> p
      | Some n \<Rightarrow> p\<lparr>p_server_info := map_option (\<lambda>i. i\<lparr>si_tcp_mss := int n\<rparr>) (p_server_info p)\<rparr>)"

definition c_client_post_decrypt :: "hash_lib \<Rightarrow> 'o crypto_lib \<Rightarrow> bytes \<Rightarrow> 'o auth_chain \<Rightarrow> bytes res \<times> 'o auth_chain" where
  "c_client_post_decrypt hl L buf p =
     (if c_raw_trans p then (Inr buf, p)
      else
        (let store = (\<lambda>x r ps. c_set_mss (snd (c_collect ps [] None)) (p\<lparr>c_recv_id := rx_id x, c_last_server_hash := rx_hash x,
               c_encryptor := rx_enc x, c_recv_buf := r\<rparr>))
         in case drain (c_step hl L (c_sizes p) (c_overhead_of p) (c_user_key p) True)
                   (c_load (c_last_server_hash p) p) (c_recv_buf p @ buf) of
              Drained x r ps \<Rightarrow> (Inr (fst (c_collect ps [] None)), store x r ps)
            | Broken (ChainExc e x') x r ps \<Rightarrow> (Inl e, store x' r ps)
            | Broken ChainLong x r ps \<Rightarrow>
                (Inl (Exc ''client_post_decrypt data error''), (store x [] ps)\<lparr>c_raw_trans := True\<rparr>)
            | Broken ChainSum x r ps \<Rightarrow>
                (Inl (Exc ''client_post_decrypt data uncorrect checksum''), (store x [] ps)\<lparr>c_raw_trans := True\<rparr>)
            | Endless \<Rightarrow> (Inl NoReturn, p)))"

definition c_server_pre_encrypt :: "hash_lib \<Rightarrow> 'o crypto_lib \<Rightarrow> bytes \<Rightarrow> tape \<Rightarrow> 'o auth_chain
    \<Rightarrow> bytes res \<times> tape \<times> 'o auth_chain" where
  "c_server_pre_encrypt hl L buf t p =
     (if c_raw_trans p then (Inr buf, t, p)
      else if c_pack_id p = 1 then
        (case p_server_info p of
           None \<Rightarrow> (Inl AttributeError, t, p)
         | Some i \<Rightarrow>
             (let tcp_mss = (if si_tcp_mss i < 1500 then si_tcp_mss i else 1500);
                  p1 = p\<lparr>p_server_info := Some (i\<lparr>si_tcp_mss := tcp_mss\<rparr>)\<rparr>
              in if tcp_mss < 0 then (Inl StructError, t, p1)
                 else c_pack_all hl L False (le16 (nat tcp_mss) @ buf) t
                        (p1\<lparr>c_unit_len := tcp_mss - int (c_client_over_head p)\<rparr>)))
      else c_pack_all hl L False buf t p)"


subsection \<open>The client's header\<close>

text \<open>The user of \<^verbatim>\<open>protocol_param\<close>: here the password itself is the key. An id that is no
  number of 32 bits is replaced by a random one.\<close>

definition chain_param_user :: "bytes \<Rightarrow> (bytes \<times> bytes option) option" where
  "chain_param_user param =
     (if py_in '':'' param
      then
        (let items = py_split '':'' param
         in Some (items ! 1,
              (case py_int (items ! 0) of
                 Some n \<Rightarrow> if 0 \<le> n \<and> n < 4294967296 then Some (le32 (nat n)) else None
               | None \<Rightarrow> None)))
      else None)"

definition xor32 :: "bytes \<Rightarrow> bytes \<Rightarrow> bytes" where
  "xor32 a b = le32 (le_val a XOR le_val b)"

definition c_stream_cipher :: "'o crypto_lib \<Rightarrow> bytes \<Rightarrow> bytes \<Rightarrow> tape \<Rightarrow> 'o encryptor res \<times> tape" where
  "c_stream_cipher L key hash t = encryptor_new L (b64encode key @ b64encode hash) ''rc4'' None t"

text \<open>\<^verbatim>\<open>pack_auth_data\<close> up to the first frame: the 36 bytes of the header.\<close>

definition c_pack_header :: "hash_lib \<Rightarrow> 'o crypto_lib \<Rightarrow> bytes \<Rightarrow> chain_queue mu_data server_info \<Rightarrow> tape \<Rightarrow> 'o auth_chain
    \<Rightarrow> bytes res \<times> tape \<times> 'o auth_chain" where
  "c_pack_header hl L auth_data i t p =
     (if si_overhead i < 0 \<or> si_overhead i \<ge> 65536 then (Inl StructError, t, p)
      else
        (let data = auth_data @ le16 (nat (si_overhead i)) @ le16 0;
             mac_key = si_iv i @ si_key i;
             (c, t1) = urandom 4 t;
             client_hash = hmac hl MD5 mac_key c;
             check_head = c @ take 8 client_hash;
             (key0, uid, t2) =
               (case chain_param_user (si_protocol_param i) of
                  Some (k, Some u) \<Rightarrow> (Some k, u, t1)
                | Some (k, None) \<Rightarrow> (let (u, t2) = urandom 4 t1 in (Some k, u, t2))
                | None \<Rightarrow> (let (u, t2) = urandom 4 t1 in (c_user_key p, u, t2)));
             key = (case key0 of None \<Rightarrow> si_key i | Some k \<Rightarrow> k);
             p1 = p\<lparr>c_last_client_hash := client_hash, c_user_key := Some key\<rparr>
         in case a1_head_cipher L key (c_salt p) (Some (replicate 16 (chrb 0))) t2 of
              (Inl e, t3) \<Rightarrow> (Inl e, t3, p1)
            | (Inr encryptor, t3) \<Rightarrow>
                (let data1 = xor32 uid (py_sub client_hash 8 12) @ drop 16 (fst (encrypt L data encryptor));
                     server_hash = hmac hl MD5 key data1;
                     p2 = p1\<lparr>c_last_server_hash := server_hash\<rparr>
                 in case c_stream_cipher L key client_hash t3 of
                      (Inl e, t4) \<Rightarrow> (Inl e, t4, p2)
                    | (Inr e, t4) \<Rightarrow>
                        (Inr (check_head @ data1 @ take 4 server_hash), t4, p2\<lparr>c_encryptor := Some e\<rparr>))))"

text \<open>One frame through the object's state, as \<^verbatim>\<open>pack_client_data\<close> does it.\<close>

definition c_pack_one :: "hash_lib \<Rightarrow> 'o crypto_lib \<Rightarrow> bytes \<Rightarrow> tape \<Rightarrow> 'o auth_chain \<Rightarrow> bytes res \<times> tape \<times> 'o auth_chain" where
  "c_pack_one hl L buf t p =
     (case (c_encryptor p, p_server_info p) of
        (Some e, Some i) \<Rightarrow>
          (case c_pack_frame hl L (c_sizes p) (si_overhead i) (c_user_key p)
                  (\<lparr>tx_id = c_pack_id p, tx_hash = c_last_client_hash p, tx_enc = e\<rparr>, t) buf of
             (r, y, t') \<Rightarrow> (r, t', p\<lparr>c_last_client_hash := tx_hash y, c_pack_id := tx_id y, c_encryptor := Some (tx_enc y)\<rparr>))
      | _ \<Rightarrow> (Inl AttributeError, t, p))"

definition c_pack_auth_data :: "hash_lib \<Rightarrow> 'o crypto_lib \<Rightarrow> bytes \<Rightarrow> bytes \<Rightarrow> chain_queue mu_data server_info \<Rightarrow> tape
    \<Rightarrow> 'o auth_chain \<Rightarrow> bytes res \<times> tape \<times> 'o auth_chain" where
  "c_pack_auth_data hl L auth_data buf i t p =
     (case c_pack_header hl L auth_data i t p of
        (Inl e, t1, p1) \<Rightarrow> (Inl e, t1, p1)
      | (Inr data, t1, p1) \<Rightarrow>
          (case c_pack_one hl L buf t1 p1 of (r, t2, p2) \<Rightarrow> (rbind r (\<lambda>w. Inr (data @ w)), t2, p2)))"

definition c_client_pre_encrypt :: "hash_lib \<Rightarrow> 'o crypto_lib \<Rightarrow> time \<Rightarrow> bytes \<Rightarrow> tape \<Rightarrow> 'o auth_chain
    \<Rightarrow> bytes res \<times> tape \<times> 'o auth_chain" where
  "c_client_pre_encrypt hl L now buf t p =
     (if c_has_sent_header p then c_pack_all hl L True buf t p
      else
        (case p_server_info p of
           None \<Rightarrow> (Inl AttributeError, t, p)
         | Some i \<Rightarrow>
             (let head_size = get_head_size buf 30;
                  (k, t1) = randint 0 31 t;
                  datalen = min (length buf) (k + head_size);
                  (auth, d, t2) = a1_auth_data now (si_data i) t1;
                  p1 = p\<lparr>p_server_info := Some (i\<lparr>si_data := d\<rparr>)\<rparr>
              in case c_pack_auth_data hl L auth (take datalen buf) i t2 p1 of
                   (Inl e, t3, p2) \<Rightarrow> (Inl e, t3, p2)
                 | (Inr head, t3, p2) \<Rightarrow>
                     (case c_pack_all hl L True (drop datalen buf) t3 (p2\<lparr>c_has_sent_header := True\<rparr>) of
                        (r, t4, p3) \<Rightarrow> (rbind r (\<lambda>w. Inr (head @ w)), t4, p3)))))"

subsection \<open>The server\<close>

definition c_key_of :: "'d server_info \<Rightarrow> bytes \<Rightarrow> bytes" where
  "c_key_of i uid =
     (case map_of (si_users i) uid of
        Some password \<Rightarrow> password
      | None \<Rightarrow> if si_users i = [] then si_key i else si_recv_iv i)"

text \<open>From the decrypted block to the insertion and the connection's cipher.\<close>

definition c_admit :: "'o crypto_lib \<Rightarrow> time \<Rightarrow> bytes \<Rightarrow> chain_queue mu_data server_info \<Rightarrow> 'o auth_chain \<Rightarrow> tape
    \<Rightarrow> header_read \<times> 'o auth_chain \<times> tape" where
  "c_admit L now head i p t =
     (let rb = c_recv_buf p;
          refuse = (\<lambda>q. case c_not_match_return rb q of (r, q') \<Rightarrow> (HReturn (Inr r), q', t))
      in if length head < 14 then (HReturn (Inl StructError), p, t)
         else
           (let client_id = le_val (py_sub head 4 8);
                conn_id = le_val (py_sub head 8 12);
                p1 = p\<lparr>c_client_over_head := le_val (py_sub head 12 14)\<rparr>;
                time_dif = int32 (int (le_val (take 4 head)) - int (utc32 now))
            in if time_dif < - c_max_time_dif p \<or> time_dif > c_max_time_dif p then refuse p1
               else
                 (case mu_insert chain_ops now (c_user_id p) client_id conn_id (si_data i) of
                    (r, d) \<Rightarrow>
                      (let p2 = p1\<lparr>p_server_info := Some (i\<lparr>si_data := d\<rparr>)\<rparr>
                       in case r of
                            Inl e \<Rightarrow> (HReturn (Inl e), p2, t)
                          | Inr False \<Rightarrow> refuse p2
                          | Inr True \<Rightarrow>
                              (let p3 = p2\<lparr>c_has_recv_header := True, c_client_id := client_id, c_connection_id := conn_id\<rparr>
                               in case c_user_key p of
                                    None \<Rightarrow> (HReturn (Inl TypeError), p3, t)
                                  | Some key \<Rightarrow>
                                      (case c_stream_cipher L key (c_last_client_hash p) t of
                                         (Inl e, t1) \<Rightarrow> (HReturn (Inl e), p3, t1)
                                       | (Inr e, t1) \<Rightarrow>
                                           (HGo [] True, p3\<lparr>c_encryptor := Some e, c_recv_buf := drop 36 rb\<rparr>, t1)))))))"

definition c_open_block :: "hash_lib \<Rightarrow> 'o crypto_lib \<Rightarrow> time \<Rightarrow> bytes \<Rightarrow> chain_queue mu_data server_info \<Rightarrow> 'o auth_chain
    \<Rightarrow> tape \<Rightarrow> header_read \<times> 'o auth_chain \<times> tape" where
  "c_open_block hl L now md5data i p t =
     (let rb = c_recv_buf p;
          uid = xor32 (py_sub rb 12 16) (py_sub md5data 8 12);
          key = c_key_of i uid;
          (i1, u) = a1_take_user hl i uid;
          p1 = p\<lparr>c_last_client_hash := md5data, p_server_info := Some i1, c_user_key := Some key,
                 c_user_id := (case u of None \<Rightarrow> c_user_id p | Some x \<Rightarrow> Some x),
                 c_user_id_num := (if u = None then 0 else le_val uid)\<rparr>;
          server_hash = hmac hl MD5 key (py_sub rb 12 32)
      in if take 4 server_hash \<noteq> py_sub rb 32 36
         then (case c_not_match_return rb p1 of (r, q) \<Rightarrow> (HReturn (Inr r), q, t))
         else
           (let p2 = p1\<lparr>c_last_server_hash := server_hash\<rparr>
            in case a1_head_cipher L key (c_salt p) None t of
                 (Inl e, t1) \<Rightarrow> (HReturn (Inl e), p2, t1)
               | (Inr encryptor, t1) \<Rightarrow>
                   (case fst (decrypt L (replicate 16 (chrb 0) @ py_sub rb 16 32 @ [chrb 0]) encryptor) of
                      Inl e \<Rightarrow> (HReturn (Inl e), p2, t1)
                    | Inr head \<Rightarrow> c_admit L now head i1 p2 t1)))"

definition c_read_header :: "hash_lib \<Rightarrow> 'o crypto_lib \<Rightarrow> time \<Rightarrow> 'o auth_chain \<Rightarrow> tape
    \<Rightarrow> header_read \<times> 'o auth_chain \<times> tape" where
  "c_read_header hl L now p t =
     (let rb = c_recv_buf p;
          n = length rb;
          check = (n \<ge> 12 \<or> n = 7 \<or> n = 8);
          recv_len = min n 12;
          wait = (HReturn (Inr ([], False)), p, t)
      in if \<not> check then wait
         else
           (case p_server_info p of
              None \<Rightarrow> (HReturn (Inl AttributeError), p, t)
            | Some i \<Rightarrow>
                (let md5data = hmac hl MD5 (si_recv_iv i @ si_key i) (take 4 rb)
                 in if take (recv_len - 4) md5data \<noteq> py_sub rb 4 recv_len
                    then (case c_not_match_return rb p of (r, q) \<Rightarrow> (HReturn (Inr r), q, t))
                    else if n < 36 then wait
                    else c_open_block hl L now md5data i p t)))"

definition c_server_frames :: "hash_lib \<Rightarrow> 'o crypto_lib \<Rightarrow> time \<Rightarrow> bool \<Rightarrow> 'o auth_chain \<Rightarrow> (bytes \<times> bool) res \<times> 'o auth_chain" where
  "c_server_frames hl L now sendback0 p =
     (let store = (\<lambda>x r. p\<lparr>c_recv_id := rx_id x, c_last_client_hash := rx_hash x, c_encryptor := rx_enc x, c_recv_buf := r\<rparr>);
          broken = (\<lambda>x msg. (if rx_id x = 0 then Inr (decoy, False) else Inl (Exc msg), (store x [])\<lparr>c_raw_trans := True\<rparr>))
      in case drain (c_step hl L (c_sizes p) (c_overhead_of p) (c_user_key p) False)
               (c_load (c_last_client_hash p) p) (c_recv_buf p) of
           Drained x r ps \<Rightarrow>
             (let out_buf = concat (map (\<lambda>(_, d, _). d) ps)
              in (Inr (out_buf, sendback0 \<or> (\<exists>(_, _, z) \<in> set ps. z)),
                  (if out_buf \<noteq> []
                   then (store x r)\<lparr>p_server_info := map_option (\<lambda>i. i\<lparr>si_data :=
                          mu_update now (c_user_id p) (c_client_id p) (c_connection_id p) (si_data i)\<rparr>) (p_server_info p)\<rparr>
                   else store x r)))
         | Broken (ChainExc e x') x r ps \<Rightarrow> (Inl e, store x' r)
         | Broken ChainLong x r ps \<Rightarrow> broken x ''server_post_decrype data error''
         | Broken ChainSum x r ps \<Rightarrow> broken x ''server_post_decrype data uncorrect checksum''
         | Endless \<Rightarrow> (Inl NoReturn, p))"

definition c_server_post_decrypt :: "hash_lib \<Rightarrow> 'o crypto_lib \<Rightarrow> time \<Rightarrow> bytes \<Rightarrow> 'o auth_chain \<times> tape
    \<Rightarrow> (bytes \<times> bool) res \<times> 'o auth_chain \<times> tape" where
  "c_server_post_decrypt hl L now buf s =
     (case s of (p0, t) \<Rightarrow>
        (if c_raw_trans p0 then (Inr (buf, False), p0, t)
         else
           (let p = p0\<lparr>c_recv_buf := c_recv_buf p0 @ buf\<rparr>
            in if c_has_recv_header p
               then (case c_server_frames hl L now False p of (r, q) \<Rightarrow> (r, q, t))
               else
                 (case c_read_header hl L now p t of
                    (HReturn r, p1, t1) \<Rightarrow> (r, p1, t1)
                  | (HGo _ sendback, p1, t1) \<Rightarrow>
                      (case c_server_frames hl L now sendback p1 of (r, q) \<Rightarrow> (r, q, t1))))))"

definition c_dispose :: "time \<Rightarrow> 'o auth_chain \<Rightarrow> unit res \<times> 'o auth_chain" where
  "c_dispose now p =
     (case p_server_info p of
        None \<Rightarrow> (Inl AttributeError, p)
      | Some i \<Rightarrow> (Inr (), p\<lparr>p_server_info := Some (i\<lparr>si_data := chain_remove now (c_user_id p) (c_client_id p) (si_data i)\<rparr>)\<rparr>))"


subsection \<open>Datagrams\<close>

definition c_client_udp_pre_encrypt :: "hash_lib \<Rightarrow> 'o crypto_lib \<Rightarrow> bytes \<Rightarrow> tape \<Rightarrow> 'o auth_chain
    \<Rightarrow> bytes res \<times> tape \<times> 'o auth_chain" where
  "c_client_udp_pre_encrypt hl L buf t p =
     (case p_server_info p of
        None \<Rightarrow> (Inl AttributeError, t, p)
      | Some i \<Rightarrow>
          (let (p1, t1) =
             (case c_user_key p of
                Some k \<Rightarrow> (p, t)
              | None \<Rightarrow>
                  (case param_user hl MD5 (si_protocol_param i) of
                     Some (k, None) \<Rightarrow> (p\<lparr>c_user_key := Some k\<rparr>, t)
                   | Some (k, Some u) \<Rightarrow> (p\<lparr>c_user_key := Some k, c_user_id := Some u\<rparr>, t)
                   | None \<Rightarrow>
                       (let (u, t') = urandom 4 t
                        in (p\<lparr>c_user_id := Some u, c_user_key := Some (si_key i)\<rparr>, t'))));
               (authdata, t2) = urandom 3 t1;
               md5data = hmac hl MD5 (si_key i) authdata
           in case (c_user_id p1, c_user_key p1) of
                (Some u, Some key) \<Rightarrow>
                  (if length u \<noteq> 4 then (Inl StructError, t2, p1)
                   else
                     (case c_stream_cipher L key md5data t2 of
                        (Inl e, t3) \<Rightarrow> (Inl e, t3, p1)
                      | (Inr e, t3) \<Rightarrow>
                          (let (rnd, t4) = urandom (udp_rnd_data_len md5data) t3;
                               out = fst (encrypt L buf e) @ rnd @ authdata @ xor32 u (take 4 md5data)
                           in (Inr (out @ take 1 (hmac hl MD5 key out)), t4, p1))))
              | (None, Some _) \<Rightarrow> (Inl StructError, t2, p1)
              | _ \<Rightarrow> (Inl TypeError, t2, p1)))"

text \<open>\<^verbatim>\<open>buf[:-8 - rand_len]\<close>, decrypted\<close>

definition c_udp_body :: "'o crypto_lib \<Rightarrow> bytes \<Rightarrow> bytes \<Rightarrow> bytes \<Rightarrow> tape \<Rightarrow> bytes res \<times> tape" where
  "c_udp_body L key md5data buf t =
     (case c_stream_cipher L key md5data t of
        (Inl e, t1) \<Rightarrow> (Inl e, t1)
      | (Inr e, t1) \<Rightarrow> (fst (decrypt L (but_last (8 + udp_rnd_data_len md5data) buf) e), t1))"

text \<open>The client's method gives a pair where it refuses a datagram and bytes otherwise.\<close>

datatype udp_reply = UdpBytes bytes | UdpPair bytes "bytes option"

definition c_client_udp_post_decrypt :: "hash_lib \<Rightarrow> 'o crypto_lib \<Rightarrow> bytes \<Rightarrow> tape \<Rightarrow> 'o auth_chain
    \<Rightarrow> udp_reply res \<times> tape" where
  "c_client_udp_post_decrypt hl L buf t p =
     (if length buf \<le> 8 then (Inr (UdpPair [] None), t)
      else
        (case (c_user_key p, p_server_info p) of
           (None, _) \<Rightarrow> (Inl TypeError, t)
         | (Some _, None) \<Rightarrow> (Inl AttributeError, t)
         | (Some key, Some i) \<Rightarrow>
             (if take 1 (hmac hl MD5 key (but_last 1 buf)) \<noteq> last_bytes 1 buf then (Inr (UdpPair [] None), t)
              else
                (case c_udp_body L key (hmac hl MD5 (si_key i) (py_slice buf (-8) (-1))) buf t of
                   (r, t1) \<Rightarrow> (rbind r (\<lambda>d. Inr (UdpBytes d)), t1)))))"

definition c_server_udp_pre_encrypt :: "hash_lib \<Rightarrow> 'o crypto_lib \<Rightarrow> bytes \<Rightarrow> bytes option \<Rightarrow> tape \<Rightarrow> 'o auth_chain
    \<Rightarrow> bytes res \<times> tape" where
  "c_server_udp_pre_encrypt hl L buf uid t p =
     (case p_server_info p of
        None \<Rightarrow> (Inl AttributeError, t)
      | Some i \<Rightarrow>
          (let key = (case uid of None \<Rightarrow> (if si_users i = [] then si_key i else si_recv_iv i) | Some u \<Rightarrow> c_key_of i u);
               (authdata, t1) = urandom 7 t;
               md5data = hmac hl MD5 (si_key i) authdata
           in case c_stream_cipher L key md5data t1 of
                (Inl e, t2) \<Rightarrow> (Inl e, t2)
              | (Inr e, t2) \<Rightarrow>
                  (let (rnd, t3) = urandom (udp_rnd_data_len md5data) t2;
                       out = fst (encrypt L buf e) @ rnd @ authdata
                   in (Inr (out @ take 1 (hmac hl MD5 key out)), t3))))"

definition c_server_udp_post_decrypt :: "hash_lib \<Rightarrow> 'o crypto_lib \<Rightarrow> bytes \<Rightarrow> tape \<Rightarrow> 'o auth_chain
    \<Rightarrow> (bytes \<times> bytes option) res \<times> tape" where
  "c_server_udp_post_decrypt hl L buf t p =
     (case p_server_info p of
        None \<Rightarrow> (Inl AttributeError, t)
      | Some i \<Rightarrow>
          (let md5data = hmac hl MD5 (si_key i) (py_slice buf (-8) (-5));
               u = py_slice buf (-5) (-1)
           in if length u \<noteq> 4 then (Inl StructError, t)
              else
                (let id = xor32 u (take 4 md5data);
                     uid = (if map_of (si_users i) id \<noteq> None then Some id else None);
                     key = c_key_of i id
                 in if take 1 (hmac hl MD5 key (but_last 1 buf)) \<noteq> last_bytes 1 buf then (Inr ([], None), t)
                    else (case c_udp_body L key md5data buf t of (r, t1) \<Rightarrow> (rbind r (\<lambda>d. Inr (d, uid)), t1)))))"


subsection \<open>The generator is xorshift128+ on 64-bit words\<close>

definition xs_ref :: "64 word \<times> 64 word \<Rightarrow> 64 word \<times> (64 word \<times> 64 word)" where
  "xs_ref s =
     (case s of (x, y) \<Rightarrow>
        (let x1 = x XOR push_bit 23 x;
             x2 = x1 XOR y XOR drop_bit 17 x1 XOR drop_bit 26 y
         in (x2 + y, (y, x2))))"

lemma max_int_mask: "n AND max_int = take_bit 64 n"
  by (simp add: max_int_def take_bit_eq_mask mask_eq_exp_minus_1)

lemma mov_mask_mask: "n AND mov_mask = take_bit 41 n"
  by (simp add: mov_mask_def take_bit_eq_mask mask_eq_exp_minus_1)

text \<open>The generator that both ends compute on Python's unbounded integers, with masks, is
  xorshift128+ on 64-bit words: it gives the same numbers and states, so nothing overflows and the
  state stays below \<^verbatim>\<open>2 ** 64\<close>.\<close>

theorem xs_next_words:
  "xs_next (unat a, unat b) =
     (unat (fst (xs_ref (a, b))), (unat (fst (snd (xs_ref (a, b)))), unat (snd (snd (xs_ref (a, b))))))"
proof -
  have small: "take_bit 64 (unat w) = unat w" for w :: "64 word"
    by (rule take_bit_nat_eq_self) (use unsigned_less [of w] in simp)
  have push: "push_bit 23 (take_bit 41 (unat a)) = unat (push_bit 23 a)"
    by (simp add: unsigned_push_bit_eq push_bit_take_bit)
  define x1 where "x1 = a XOR push_bit 23 a"
  have x1: "unat a XOR push_bit 23 (take_bit 41 (unat a)) = unat x1"
    unfolding push by (simp add: x1_def unsigned_xor_eq)
  define r where "r = b XOR drop_bit 17 x1 XOR drop_bit 26 b"
  have r: "unat b XOR drop_bit 17 (unat x1) XOR drop_bit 26 (unat b) = unat r"
    by (simp add: r_def unsigned_xor_eq unsigned_drop_bit_eq small take_bit_drop_bit)
  have x2: "unat x1 XOR unat r = unat (x1 XOR r)" by (simp add: unsigned_xor_eq)
  have add: "take_bit 64 (unat (x1 XOR r) + unat b) = unat ((x1 XOR r) + b)"
    by (simp add: unat_word_ariths take_bit_eq_mod)
  have "xs_next (unat a, unat b) = (unat ((x1 XOR r) + b), (unat b, unat (x1 XOR r)))"
    by (simp only: xs_next_def Let_def prod.case max_int_mask mov_mask_mask x1 r small x2 add)
  moreover have "xs_ref (a, b) = ((x1 XOR r) + b, (b, x1 XOR r))"
    by (simp add: xs_ref_def x1_def r_def Let_def xor.assoc)
  ultimately show ?thesis by simp
qed

subsection \<open>The sizes\<close>

lemma draw_sizes_spec: "length (fst (draw_sizes n g)) = n \<and> (\<forall>x \<in> set (fst (draw_sizes n g)). x < 1440)"
  by (induction n arbitrary: g) (simp_all add: Let_def split_beta)

lemma check_and_patch_spec:
  "length l \<le> length (check_and_patch l g) \<and> length (check_and_patch l g) \<le> max 64 (length l)
   \<and> take (length l) (check_and_patch l g) = l
   \<and> ((\<forall>x \<in> set l. x < 1440) \<longrightarrow> (\<forall>x \<in> set (check_and_patch l g). x < 1440))
   \<and> (last (check_and_patch l g) \<ge> 1300 \<or> length (check_and_patch l g) \<ge> 64)"
proof (induction l g rule: check_and_patch.induct)
  case (1 l g)
  show ?case
  proof (cases "last l < 1300 \<and> length l < 64")
    case True
    obtain r g1 where r: "xs_next g = (r, g1)" using prod.exhaust by blast
    let ?l = "l @ [r mod 2340 mod 2040 mod 1440]"
    have eq: "check_and_patch l g = check_and_patch ?l g1"
      using True r by (subst check_and_patch.simps) simp
    note IH = "1.IH" [OF True r [symmetric] refl]
    have "take (length l) (check_and_patch ?l g1) = l"
      using arg_cong [OF conjunct1 [OF conjunct2 [OF conjunct2 [OF IH]]], of "take (length l)"] by simp
    moreover have "max 64 (length ?l) = 64" using True by simp
    moreover have "(\<forall>x \<in> set l. x < 1440) \<longrightarrow> (\<forall>x \<in> set ?l. x < 1440)" by simp
    moreover have "length l \<le> length (check_and_patch ?l g1)" using IH by simp
    ultimately show ?thesis
      unfolding eq using IH by (metis max.coboundedI1 order_refl)
  next
    case False
    then have eq: "check_and_patch l g = l" by (subst check_and_patch.simps) auto
    show ?thesis using False unfolding eq by auto
  qed
qed

definition list_ok :: "nat list \<Rightarrow> bool" where
  "list_ok l \<longleftrightarrow> sorted l \<and> l \<noteq> [] \<and> (\<forall>x \<in> set l. x < 1440)"

definition sizes_ok :: "chain_sizes \<Rightarrow> bool" where
  "sizes_ok cs \<longleftrightarrow>
     (case cs_variant cs of
        ChainA \<Rightarrow> True
      | ChainB \<Rightarrow> list_ok (data_size_list cs) \<and> list_ok (data_size_list2 cs)
      | _ \<Rightarrow> list_ok (data_size_list0 cs))"

lemma list_ok_sort: "l \<noteq> [] \<Longrightarrow> \<forall>x \<in> set l. x < 1440 \<Longrightarrow> list_ok (sort l)"
  unfolding list_ok_def by (metis set_empty set_sort sorted_sort)

lemma init_sizes_ok: "sizes_ok (init_data_size key cs)"
proof -
  have draw: "list_ok (sort (fst (draw_sizes n g)))" if "0 < n" for n g
    using draw_sizes_spec [of n g] that by (intro list_ok_sort) auto
  have c: "list_ok (fst (init_sizes_c key))"
    by (simp add: init_sizes_c_def Let_def split_beta draw)
  have b: "list_ok (fst (init_sizes_b key)) \<and> list_ok (snd (init_sizes_b key))"
    by (simp add: init_sizes_b_def Let_def split_beta draw)
  have d: "list_ok (init_sizes_d key)"
  proof -
    obtain l g where l: "init_sizes_c key = (l, g)" using prod.exhaust by blast
    then have ok: "list_ok l" using c by simp
    note s = check_and_patch_spec [of l g]
    have ne: "check_and_patch l g \<noteq> []" "\<forall>x \<in> set (check_and_patch l g). x < 1440"
      using s ok by (auto simp: list_ok_def)
    show ?thesis
    proof (cases "length l = length (check_and_patch l g)")
      case True
      then have "check_and_patch l g = l" using s by simp
      then show ?thesis using ok l by (simp add: init_sizes_d_def)
    next
      case False
      then show ?thesis using list_ok_sort [OF ne] l by (simp add: init_sizes_d_def)
    qed
  qed
  show ?thesis
    using b c d by (cases "cs_variant cs") (simp_all add: sizes_ok_def init_data_size_def split_beta Let_def)
qed


lemma bisect_left_nth:
  assumes "sorted l" and "bisect_left l x \<le> k" and "k < length l"
  shows "x \<le> int (l ! k)"
proof -
  let ?b = "bisect_left l x"
  have b: "?b < length l" using assms(2,3) by simp
  then have "\<not> int (l ! ?b) < x"
    using nth_length_takeWhile [of "\<lambda>y. int y < x" l] by (simp add: bisect_left_def)
  moreover have "l ! ?b \<le> l ! k" using assms by (intro sorted_nth_mono) simp_all
  ultimately show ?thesis by linarith
qed

lemma bisect_left_less:
  assumes "list_ok l" and "x < int (last l)"
  shows "bisect_left l x < length l"
proof (rule ccontr)
  assume "\<not> bisect_left l x < length l"
  moreover have "length (takeWhile (\<lambda>y. int y < x) l) \<le> length l" by (rule length_takeWhile_le)
  ultimately have "takeWhile (\<lambda>y. int y < x) l = l"
    by (metis bisect_left_def nat_less_le takeWhile_eq_take take_all_iff order_refl)
  then have "\<forall>y \<in> set l. int y < x" by (metis takeWhile_eq_all_conv)
  then have "int (last l) < x" using assms(1) by (simp add: list_ok_def)
  then show False using assms(2) by simp
qed

text \<open>A size chosen from a list is not below the data's.\<close>

lemma chosen_size:
  assumes "list_ok l" and "bisect_left l other \<le> k" and "k < length l"
  shows "0 \<le> int (l ! k) - other" and "int (nat (int (l ! k) - other)) + other < 1440"
  using bisect_left_nth [of l other k] assms nth_mem [OF assms(3)] by (auto simp: list_ok_def)

lemma tail_len_bound: "fst (tail_len n g) < 1021 \<and> (n > 400 \<longrightarrow> fst (tail_len n g) < 521)
    \<and> (n > 900 \<longrightarrow> fst (tail_len n g) < 127) \<and> (n > 1300 \<longrightarrow> fst (tail_len n g) < 31)"
proof -
  define r where "r = fst (xs_next g)"
  have "r mod 31 < 31" "r mod 127 < 127" "r mod 521 < 521" "r mod 1021 < 1021" by simp_all
  then show ?thesis unfolding tail_len_def Let_def split_beta r_def [symmetric] fst_conv by (auto simp del: mod_less_divisor)
qed

lemma tail_sum: "n \<le> 1440 \<Longrightarrow> n + fst (tail_len (int n) g) < 1471"
  using tail_len_bound [of "int n" g] by linarith

text \<open>A frame's data and padding stay far below the receiver's limit of 4096 bytes.\<close>

lemma pick_size0_bound:
  assumes "list_ok (data_size_list0 cs)" and "other < int (last (data_size_list0 cs))"
  shows "int (fst (pick_size0 cs other g)) + other < 1440"
proof -
  let ?l = "data_size_list0 cs" and ?r = "fst (xs_next g)"
  let ?b = "bisect_left ?l other"
  have b: "?b < length ?l" by (rule bisect_left_less [OF assms])
  have "?b + ?r mod (length ?l - ?b) < length ?l"
    using mod_less_divisor [of "length ?l - ?b" ?r] b by linarith
  from chosen_size(2) [OF assms(1) _ this] show ?thesis
    by (simp add: pick_size0_def split_beta Let_def)
qed

lemma rnd_data_len_b_bound:
  assumes "list_ok (data_size_list cs)" and "list_ok (data_size_list2 cs)" and "0 \<le> ov" and "n < 1440"
  shows "n + fst (rnd_data_len_b cs ov n h) < 1471"
proof -
  obtain r g1 where r: "xs_next (init_from_bin_len h n) = (r, g1)" using prod.exhaust by blast
  obtain r2 g2 where r2: "xs_next g1 = (r2, g2)" using prod.exhaust by blast
  let ?l = "data_size_list cs" and ?l2 = "data_size_list2 cs" and ?o = "int n + ov"
  define f where "f = bisect_left ?l ?o + r mod length ?l"
  define f2 where "f2 = bisect_left ?l2 ?o + r2 mod length ?l2"
  have eq: "rnd_data_len_b cs ov n h =
     (if f < length ?l then (nat (int (?l ! f) - ?o), g1)
      else if f2 < length ?l2 then (nat (int (?l2 ! f2) - ?o), g2)
      else if f2 < bisect_left ?l2 ?o + length ?l2 - 1 then (0, g2)
      else tail_len (int n) g2)"
    using assms(4) r r2 by (simp add: rnd_data_len_b_def f_def f2_def Let_def)
  have a: "n + nat (int (?l ! f) - ?o) < 1471" if "f < length ?l"
    using chosen_size(2) [OF assms(1) _ that, of ?o] assms(3) by (simp only: f_def) linarith
  have b: "n + nat (int (?l2 ! f2) - ?o) < 1471" if "f2 < length ?l2"
    using chosen_size(2) [OF assms(2) _ that, of ?o] assms(3) by (simp only: f2_def) linarith
  have c: "n + fst (tail_len (int n) g2) < 1471" using assms(4) by (intro tail_sum) simp
  show ?thesis unfolding eq using a b c assms(4) by (simp split: if_split)
qed

lemma c_rnd_data_len_bound:
  assumes "sizes_ok cs" and "0 \<le> ov" and "n \<le> 2800"
  shows "n + fst (c_rnd_data_len cs ov n h) \<le> 2800"
proof (cases "cs_variant cs")
  case ChainA
  show ?thesis
    using tail_sum [of n "init_from_bin_len h n"] assms(3)
    by (auto simp: ChainA c_rnd_data_len_def rnd_data_len_a_def)
next
  case ChainB
  show ?thesis
  proof (cases "n < 1440")
    case True
    then show ?thesis using rnd_data_len_b_bound [of cs ov n h] assms by (simp add: ChainB c_rnd_data_len_def sizes_ok_def)
  qed (use assms in \<open>simp add: ChainB c_rnd_data_len_def rnd_data_len_b_def\<close>)
next
  case ChainC
  show ?thesis
  proof (cases "int n + ov \<ge> int (last (data_size_list0 cs))")
    case True
    then show ?thesis
      using tail_len_bound [of "int n + ov" "init_from_bin_len h n"] assms
      by (auto simp: ChainC c_rnd_data_len_def rnd_data_len_c_def Let_def)
  next
    case False
    then show ?thesis
      using pick_size0_bound [of cs "int n + ov" "init_from_bin_len h n"] assms
      by (simp add: ChainC c_rnd_data_len_def rnd_data_len_c_def sizes_ok_def Let_def)
  qed
next
  case ChainD
  show ?thesis
  proof (cases "int n + ov \<ge> int (last (data_size_list0 cs))")
    case False
    then show ?thesis
      using pick_size0_bound [of cs "int n + ov" "init_from_bin_len h n"] assms
      by (simp add: ChainD c_rnd_data_len_def rnd_data_len_d_def sizes_ok_def Let_def)
  qed (use assms in \<open>simp add: ChainD c_rnd_data_len_def rnd_data_len_d_def Let_def\<close>)
qed


subsection \<open>The cipher of a connection\<close>

text \<open>An encryptor and the peer's decryptor in step: both fresh, or both started. RC4 has no iv.\<close>

definition enc_pair :: "'o crypto_lib \<Rightarrow> ('o \<Rightarrow> 'o \<Rightarrow> bool) \<Rightarrow> 'o encryptor \<Rightarrow> 'o encryptor \<Rightarrow> bool" where
  "enc_pair L R e d \<longleftrightarrow> cipher_iv e = [] \<and> (\<exists>a b. cipher e = EvpObj a \<and> R a b \<and>
     (if iv_sent e then decipher d = Some (EvpObj b)
      else decipher d = None \<and> iv_buf d = [] \<and> fst (snd (method_info d)) = 0
        \<and> (\<exists>k v. get_cipher L (method_info d) (enc_key d) (enc_method d) 0 [] = Inr (EvpObj b, k, v))))"

lemma enc_pair_step:
  assumes sc: "stream_cipher (evp_update L) R" and "enc_pair L R e d" and "encrypt L x e = (y, e')"
  shows "length y = length x" and "\<exists>d'. decrypt L y d = (Inr x, d') \<and> enc_pair L R e' d'"
proof -
  obtain a b where ab: "cipher_iv e = []" "cipher e = EvpObj a" "R a b"
    and d: "if iv_sent e then decipher d = Some (EvpObj b)
      else decipher d = None \<and> iv_buf d = [] \<and> fst (snd (method_info d)) = 0
        \<and> (\<exists>k v. get_cipher L (method_info d) (enc_key d) (enc_method d) 0 [] = Inr (EvpObj b, k, v))"
    using assms(2) unfolding enc_pair_def by blast
  obtain z a' where z: "evp_update L a x = (z, a')" by fastforce
  note lz = stream_cipher.pair_length [OF sc ab(3) z]
  obtain b' where b': "evp_update L b z = (x, b')" "R a' b'"
    using stream_cipher.pair_undo [OF sc ab(3) z] by blast
  have "length y = length x \<and> (\<exists>d'. decrypt L y d = (Inr x, d') \<and> enc_pair L R e' d')"
  proof (cases "x = []")
    case True
    then have "y = []" "e' = e" using assms(3) by (simp_all add: encrypt_def)
    then show ?thesis using True assms(2) by (simp add: decrypt_def)
  next
    case False
    then have y: "y = z" "e' = e\<lparr>iv_sent := True, cipher := EvpObj a'\<rparr>"
      using assms(3) ab z by (auto simp: encrypt_def split: if_splits)
    have "z \<noteq> []" using lz False by auto
    then have "\<exists>d'. decrypt L z d = (Inr x, d') \<and> decipher d' = Some (EvpObj b')"
      using d b' by (cases "iv_sent e") (auto simp: decrypt_def)
    then show ?thesis using lz y ab(1) b'(2) by (auto simp: enc_pair_def)
  qed
  then show "length y = length x" and "\<exists>d'. decrypt L y d = (Inr x, d') \<and> enc_pair L R e' d'" by auto
qed

lemma rc4_entry: "method_supported ''rc4'' = Some (16, 0, OpenSSLCrypto)"
  by (simp add: method_supported_def table_ciphers_def sodium_ciphers_def openssl_ciphers_def)

lemma lower_rc4: "lower ''rc4'' = ''rc4''"
  by (simp add: lower_def)

text \<open>The documented behaviour of RC4 in libcrypto: a context can be made of every key, and
  encrypting and decrypting contexts of one key undo each other along a stream.\<close>

definition rc4_works :: "'o crypto_lib \<Rightarrow> ('o \<Rightarrow> 'o \<Rightarrow> bool) \<Rightarrow> bool" where
  "rc4_works L R \<longleftrightarrow> stream_cipher (evp_update L) R
     \<and> (\<forall>key. \<exists>e d. evp_init L ''rc4'' key [] 1 = Some e \<and> evp_init L ''rc4'' key [] 0 = Some d \<and> R e d)"

text \<open>Two objects made of one key and hash are in step in both directions.\<close>

lemma c_stream_cipher_pair:
  assumes "rc4_works L R" and "\<And>x. length (md5 L x) = 16"
  shows "\<exists>E t'. c_stream_cipher L key hash t = (Inr E, t') \<and>
    (\<forall>u. \<exists>D u'. c_stream_cipher L key hash u = (Inr D, u') \<and> enc_pair L R E D \<and> enc_pair L R D E)"
proof -
  let ?pw = "b64encode key @ b64encode hash"
  have "is_ascii ?pw" using b64encode_ascii [of key] b64encode_ascii [of hash] by (auto simp: is_ascii_def)
  from derive_key_lengths [OF assms(2) this, of 16 0]
  obtain k v where k: "derive_key L ?pw 16 0 = Inr (k, v)" by blast
  obtain e d where ed: "evp_init L ''rc4'' k [] 1 = Some e" "evp_init L ''rc4'' k [] 0 = Some d" "R e d"
    using assms(1) unfolding rc4_works_def by blast
  let ?E = "\<lparr>enc_key = ?pw, enc_method = ''rc4'', iv_sent = False, cipher_iv = [], iv_buf = [], cipher_key = k,
      decipher = None, method_info = (16, 0, OpenSSLCrypto), cipher = EvpObj e\<rparr>"
  have "c_stream_cipher L key hash t = (Inr ?E, t)" for t
    using k ed by (simp add: c_stream_cipher_def encryptor_new_def get_method_info_def lower_rc4 rc4_entry choose_iv_def
        urandom_def get_cipher_def make_cipher_def)
  moreover have "enc_pair L R ?E ?E"
    using k ed by (auto simp: enc_pair_def get_cipher_def make_cipher_def)
  ultimately show ?thesis by blast
qed


subsection \<open>Frames are accepted\<close>

lemma rnd_start_pos_less: "rl > 0 \<Longrightarrow> rnd_start_pos rl g < rl"
  by (simp add: rnd_start_pos_def)

lemma c_round_append:
  assumes "c_round hl L cs ov key first x buf \<noteq> More" and b4: "length buf \<ge> 4"
  shows "c_round hl L cs ov key first x (buf @ ext) = c_round hl L cs ov key first x buf"
proof -
  have t2: "take 2 (buf @ ext) = take 2 buf" using b4 by simp
  define dl where "dl = le_val (take 2 buf) XOR le_val (py_sub (rx_hash x) 14 16)"
  obtain rl g where rl: "c_rnd_data_len cs ov dl (rx_hash x) = (rl, g)" using prod.exhaust by blast
  define pos where "pos = (if dl > 0 \<and> rl > 0 then 2 + rnd_start_pos rl g else 2)"
  show ?thesis
  proof (cases "key = None \<or> length (rx_hash x) < 16 \<or> dl + rl \<ge> 4096")
    case True
    then show ?thesis using rl unfolding c_round_def Let_def t2 dl_def [symmetric] by (auto split: option.split)
  next
    case False
    then obtain k where k: "key = Some k" "\<not> length (rx_hash x) < 16" "\<not> dl + rl \<ge> 4096" by auto
    have long: "\<not> dl + rl + 4 > length buf"
      using assms k rl unfolding c_round_def Let_def dl_def [symmetric] by (auto split: if_splits)
    have 1: "py_sub (buf @ ext) pos (dl + pos) = py_sub buf pos (dl + pos)"
      by (rule py_sub_append) (use long rnd_start_pos_less [of rl g] in \<open>auto simp: pos_def\<close>)
    have 2: "take (dl + rl + 2) (buf @ ext) = take (dl + rl + 2) buf" using long by simp
    have 3: "py_sub (buf @ ext) (dl + rl + 2) (dl + rl + 4) = py_sub buf (dl + rl + 2) (dl + rl + 4)"
      by (rule py_sub_append) (use long in simp)
    have 4: "(dl + rl + 4 > length (buf @ ext)) = False" "(dl + rl + 4 > length buf) = False" using long by simp_all
    show ?thesis
      unfolding c_round_def Let_def t2 dl_def [symmetric] rl prod.case pos_def [symmetric] 1 2 3 4 if_False by (rule refl)
  qed
qed

text \<open>A round of the loop without the check for five bytes, which is easier to reason about: it takes
  a frame of no data and no padding at once.\<close>

definition c_step0 :: "hash_lib \<Rightarrow> 'o crypto_lib \<Rightarrow> chain_sizes \<Rightarrow> int \<Rightarrow> bytes option \<Rightarrow> bool \<Rightarrow> 'o chain_rx \<Rightarrow> bytes
    \<Rightarrow> ('o chain_rx, nat \<times> bytes \<times> bool, 'o chain_error) frame_step" where
  "c_step0 hl L cs overhead user_key first x rb =
     (if length rb \<ge> 4 then c_round hl L cs overhead user_key first x rb else More)"

lemma c_round_Frame:
  "c_round hl L cs ov key first x buf = Frame p x' n \<Longrightarrow> 0 < n \<and> n \<le> length buf"
  by (auto simp: c_round_def Let_def split: if_splits option.splits prod.splits sum.splits)

interpretation chain: frame_stream "c_step hl L cs ov key first" for hl L cs ov key first
proof
  fix x x' :: "'a chain_rx" and buf ext :: bytes and p :: "nat \<times> bytes \<times> bool" and n and e :: "'a chain_error"
  show "c_step hl L cs ov key first x buf = Frame p x' n \<Longrightarrow> 0 < n \<and> n \<le> length buf"
    using c_round_Frame [of hl L cs ov key first x buf p x' n] by (auto simp: c_step_def split: if_splits)
  show "c_step hl L cs ov key first x buf = Frame p x' n \<Longrightarrow> c_step hl L cs ov key first x (buf @ ext) = Frame p x' n"
    using c_round_append [of hl L cs ov key first x buf ext] by (auto simp: c_step_def split: if_splits)
  show "c_step hl L cs ov key first x buf = Bad e \<Longrightarrow> c_step hl L cs ov key first x (buf @ ext) = Bad e"
    using c_round_append [of hl L cs ov key first x buf ext] by (auto simp: c_step_def split: if_splits)
qed

interpretation chain0: frame_stream "c_step0 hl L cs ov key first" for hl L cs ov key first
proof
  fix x x' :: "'a chain_rx" and buf ext :: bytes and p :: "nat \<times> bytes \<times> bool" and n and e :: "'a chain_error"
  show "c_step0 hl L cs ov key first x buf = Frame p x' n \<Longrightarrow> 0 < n \<and> n \<le> length buf"
    using c_round_Frame [of hl L cs ov key first x buf p x' n] by (auto simp: c_step0_def split: if_splits)
  show "c_step0 hl L cs ov key first x buf = Frame p x' n \<Longrightarrow> c_step0 hl L cs ov key first x (buf @ ext) = Frame p x' n"
    using c_round_append [of hl L cs ov key first x buf ext] by (auto simp: c_step0_def split: if_splits)
  show "c_step0 hl L cs ov key first x buf = Bad e \<Longrightarrow> c_step0 hl L cs ov key first x (buf @ ext) = Bad e"
    using c_round_append [of hl L cs ov key first x buf ext] by (auto simp: c_step0_def split: if_splits)
qed

lemma c_step_Nil [simp]: "c_step hl L cs ov key first x [] = More" "c_step0 hl L cs ov key first x [] = More"
  by (simp_all add: c_step_def c_step0_def)

text \<open>A sender and a receiver of frames in step.\<close>

definition chain_rel :: "'o crypto_lib \<Rightarrow> ('o \<Rightarrow> 'o \<Rightarrow> bool) \<Rightarrow> 'o chain_tx \<Rightarrow> 'o chain_rx \<Rightarrow> bool" where
  "chain_rel L R x y \<longleftrightarrow> rx_id y = tx_id x \<and> rx_hash y = tx_hash x \<and> length (tx_hash x) = 16
     \<and> (\<exists>d. rx_enc y = Some d \<and> enc_pair L R (tx_enc x) d)"

lemma c_rnd_data_shape:
  assumes "c_rnd_data_len cs ov (length buf) h = (rl, g)"
    and "pos = (if length buf > 0 \<and> rl > 0 then rnd_start_pos rl g else 0)"
  shows "\<exists>pre post t'. c_rnd_data cs ov buf h t = (pre @ buf @ post, t') \<and> length pre = pos \<and> length pre + length post = rl"
proof -
  obtain rnd t' where r: "urandom rl t = (rnd, t')" using prod.exhaust by blast
  have l: "length rnd = rl" by (rule urandom_length [OF r])
  consider "length buf = 0" | "length buf > 0" "rl > 0" | "length buf > 0" "rl = 0" by linarith
  then show ?thesis
  proof cases
    case 1
    show ?thesis
      by (rule exI [of _ "[]"], rule exI [of _ rnd], rule exI [of _ t'])
         (use 1 assms r l in \<open>simp add: c_rnd_data_def\<close>)
  next
    case 2
    have less: "rnd_start_pos rl g < rl" using 2 by (intro rnd_start_pos_less)
    show ?thesis
      by (rule exI [of _ "take pos rnd"], rule exI [of _ "drop pos rnd"], rule exI [of _ t'])
         (use 2 less assms r l in \<open>simp add: c_rnd_data_def Let_def\<close>)
  next
    case 3
    show ?thesis
      by (rule exI [of _ "[]"], rule exI [of _ "[]"], rule exI [of _ t'])
         (use 3 assms r l in \<open>simp add: c_rnd_data_def\<close>)
  qed
qed

lemma c_pack_frame_step:
  assumes sc: "stream_cipher (evp_update L) R" and hs: "hash_sizes hl" and ok: "sizes_ok cs" and ov: "0 \<le> ov"
    and rel: "chain_rel L R x y" and c: "length c \<le> 2800" and mss: "first \<and> tx_id x = 1 \<longrightarrow> 2 \<le> length c"
  shows "\<exists>f x' t' y'. c_pack_frame hl L cs ov (Some key) (x, t) c = (Inr f, x', t')
    \<and> chain_rel L R x' y' \<and> tx_id x' = (tx_id x + 1) mod 4294967296
    \<and> c_step0 hl L cs ov (Some key) first y f = Frame (tx_id x, c, c = []) y' (length f)"
proof -
  obtain d where d: "rx_enc y = Some d" "enc_pair L R (tx_enc x) d" "rx_id y = tx_id x" "rx_hash y = tx_hash x"
      "length (tx_hash x) = 16" using rel unfolding chain_rel_def by blast
  obtain b e where e: "encrypt L c (tx_enc x) = (b, e)" using prod.exhaust by blast
  obtain d' where d': "decrypt L b d = (Inr c, d')" "enc_pair L R e d'"
    using enc_pair_step(2) [OF sc d(2) e] by blast
  have lb: "length b = length c" by (rule enc_pair_step(1) [OF sc d(2) e])
  obtain rl g where rl: "c_rnd_data_len cs ov (length b) (tx_hash x) = (rl, g)" using prod.exhaust by blast
  have small: "length b + rl \<le> 2800"
    using c_rnd_data_len_bound [OF ok ov c, of "tx_hash x"] rl lb by simp
  define pos where "pos = (if length b > 0 \<and> rl > 0 then rnd_start_pos rl g else 0)"
  obtain pre post t' where data: "c_rnd_data cs ov b (tx_hash x) t = (pre @ b @ post, t')" "length pre = pos"
      "length pre + length post = rl" using c_rnd_data_shape [OF rl pos_def] by blast
  define mask where "mask = le_val (drop 14 (tx_hash x))"
  have mask: "mask < 65536" unfolding mask_def by (rule le_val_2) (simp add: d(5))
  define l where "l = le16 (length b XOR mask)"
  define data1 where "data1 = l @ pre @ b @ post"
  define h where "h = hmac hl MD5 (key @ le32 (tx_id x)) data1"
  define f where "f = data1 @ take 2 h"
  have lh: "length h = 16" unfolding h_def using hash_sizes_lengths(1) [OF hs] by simp
  have lens: "length l = 2" "length data1 = length b + rl + 2" "length f = length b + rl + 4"
    using data(3) lh by (simp_all add: l_def data1_def f_def)
  have x16: "length b XOR mask < 65536" using small mask by (intro xor_nat_less_16) linarith+
  let ?x' = "x\<lparr>tx_enc := e, tx_hash := h, tx_id := (tx_id x + 1) mod 4294967296\<rparr>"
  let ?y' = "\<lparr>rx_id = (tx_id x + 1) mod 4294967296, rx_hash = h, rx_enc = Some d'\<rparr>"
  have w: "c_pack_frame hl L cs ov (Some key) (x, t) c = (Inr f, ?x', t')"
    using e data(1) x16 d(5)
    by (simp add: c_pack_frame_def unpack_le16_def mask_def [symmetric] pack_le16_def l_def [symmetric] data1_def [symmetric]
        h_def [symmetric] f_def Let_def)
  have "py_sub (tx_hash x) 14 16 = drop 14 (tx_hash x)" using d(5) by (simp add: py_sub_def)
  moreover have "le_val (take 2 f) = length b XOR mask" using x16 by (simp add: f_def data1_def l_def)
  ultimately have dl: "le_val (take 2 f) XOR le_val (py_sub (tx_hash x) 14 16) = length b"
    by (simp add: mask_def)
  have 1: "take (length b + rl + 2) f = data1" using lens by (simp add: f_def)
  have 2: "py_sub f (length b + rl + 2) (length b + rl + 4) = take 2 h"
    unfolding f_def by (rule py_sub_exact_end) (use lens lh in simp_all)
  have 3: "py_sub f (2 + pos) (length b + (2 + pos)) = b"
    using py_sub_exact [of "l @ pre" "2 + pos" b "length b + (2 + pos)" "post @ take 2 h"] lens data(2)
    by (simp add: f_def data1_def)
  have p2: "(if length b > 0 \<and> rl > 0 then 2 + rnd_start_pos rl g else 2) = 2 + pos" by (simp add: pos_def)
  have b0: "(length b = 0) = (c = [])" using lb by auto
  have nm: "\<not> (first \<and> rx_id y = 1 \<and> length c < 2)" using mss d(3) by auto
  have n4: "(length b + rl + 4 > length f) = False" "(length b + rl \<ge> 4096) = False" "length f \<ge> 4"
    "(length (tx_hash x) < 16) = False" using lens small d(4,5) by simp_all
  have step: "c_step0 hl L cs ov (Some key) first y f = Frame (tx_id x, c, c = []) ?y' (length f)"
    using n4(3) nm d(3) lens(3) b0
    unfolding c_step0_def c_round_def Let_def dl n4 d(1) d(4) rl prod.case option.case 1 2 p2 3 d'(1) sum.case
    by (simp add: h_def)
  have "chain_rel L R ?x' ?y'" using d'(2) lh by (simp add: chain_rel_def)
  then show ?thesis using w step by (intro exI [of _ f] exI [of _ ?x'] exI [of _ t'] exI [of _ ?y']) simp
qed


text \<open>What the loop with the check for five bytes leaves: at most one frame of no data.\<close>

definition c_data :: "nat \<times> bytes \<times> bool \<Rightarrow> bytes" where
  "c_data q = fst (snd q)"

lemma c_round_empty:
  assumes "length buf = 4" and "c_round hl L cs ov key first x buf = Frame q x' n"
  shows "n = 4 \<and> c_data q = []"
proof -
  obtain k where k: "key = Some k" "\<not> length (rx_hash x) < 16"
    using assms(2) by (auto simp: c_round_def split: option.splits if_splits)
  define dl where "dl = le_val (take 2 buf) XOR le_val (py_sub (rx_hash x) 14 16)"
  obtain rl g where rl: "c_rnd_data_len cs ov dl (rx_hash x) = (rl, g)" using prod.exhaust by blast
  have z: "dl = 0" "rl = 0"
    using assms k rl unfolding c_round_def Let_def dl_def [symmetric] by (auto split: if_splits)
  show ?thesis
    using assms k rl z unfolding c_round_def Let_def dl_def [symmetric]
    by (auto simp: py_sub_def decrypt_def c_data_def split: if_splits option.splits)
qed

lemma drain_step0:
  assumes "drain (c_step0 hl L cs ov key first) x buf = Drained x' r ps"
  shows "\<exists>x1 r1 ps1. drain (c_step hl L cs ov key first) x buf = Drained x1 r1 ps1
    \<and> (x1 = x' \<and> r1 = r \<and> ps1 = ps \<or> r = [] \<and> length r1 = 4 \<and> (\<exists>q. ps = ps1 @ [q] \<and> c_data q = []))"
  using assms
proof (induction "length buf" arbitrary: x buf ps rule: less_induct)
  case less
  let ?strong = "c_step hl L cs ov key first" and ?weak = "c_step0 hl L cs ov key first"
  show ?case
  proof (cases "length buf > 4")
    case True
    then have eq: "?strong x buf = ?weak x buf" by (simp add: c_step_def c_step0_def)
    show ?thesis
    proof (cases "?weak x buf")
      case (Frame q y n)
      have n: "0 < n \<and> n \<le> length buf" by (rule chain0.frame_len [OF Frame])
      then have lt: "length (drop n buf) < length buf" by auto
      obtain qs where d0: "drain ?weak y (drop n buf) = Drained x' r qs" "ps = q # qs"
        using less.prems chain0.drain_Frame [OF Frame] by (cases "drain ?weak y (drop n buf)") auto
      from less.hyps [OF lt d0(1)] obtain x1 r1 ps1 where d: "drain ?strong y (drop n buf) = Drained x1 r1 ps1"
          "x1 = x' \<and> r1 = r \<and> ps1 = qs \<or> r = [] \<and> length r1 = 4 \<and> (\<exists>q. qs = ps1 @ [q] \<and> c_data q = [])"
        by blast
      have "drain ?strong x buf = Drained x1 r1 (q # ps1)"
        using chain.drain_Frame [of hl L cs ov key first x buf q y n] Frame eq d(1) by simp
      then show ?thesis using d(2) d0(2) by auto
    next
      case More
      then show ?thesis
        using less.prems chain0.drain_More [OF More] chain.drain_More [of hl L cs ov key first x buf] eq by simp
    next
      case (Bad e)
      then show ?thesis using less.prems chain0.drain_Bad [OF Bad] by simp
    qed
  next
    case False
    then have dr: "drain ?strong x buf = Drained x buf []" by (intro chain.drain_More) (simp add: c_step_def)
    show ?thesis
    proof (cases "?weak x buf")
      case (Frame q y n)
      then have b: "length buf = 4" "c_round hl L cs ov key first x buf = Frame q y n"
        using False by (auto simp: c_step0_def split: if_splits)
      note e = c_round_empty [OF b]
      have "drain ?weak x buf = Drained y [] [q]"
        using chain0.drain_Frame [OF Frame] chain0.drain_More [of hl L cs ov key first y "[]"] e b(1) by simp
      then show ?thesis using dr less.prems b(1) e by auto
    next
      case More
      then show ?thesis using less.prems chain0.drain_More [OF More] dr by simp
    next
      case (Bad e)
      then show ?thesis using less.prems chain0.drain_Bad [OF Bad] by simp
    qed
  qed
qed

lemma concat_c_data_snoc: "c_data q = [] \<Longrightarrow> concat (map c_data (ps @ [q])) = concat (map c_data ps)"
  by simp

text \<open>The writes of an object whose cipher and hash are in step with a receiver's.\<close>

definition c_tx :: "bool \<Rightarrow> 'o auth_chain \<Rightarrow> 'o encryptor \<Rightarrow> 'o chain_tx" where
  "c_tx client p e = \<lparr>tx_id = c_pack_id p, tx_hash = (if client then c_last_client_hash p else c_last_server_hash p), tx_enc = e\<rparr>"

definition c_ready :: "'o crypto_lib \<Rightarrow> ('o \<Rightarrow> 'o \<Rightarrow> bool) \<Rightarrow> bool \<Rightarrow> chain_sizes \<Rightarrow> int \<Rightarrow> bytes \<Rightarrow> 'o auth_chain \<Rightarrow> 'o chain_rx \<Rightarrow> bool" where
  "c_ready L R client cs ov key p y \<longleftrightarrow> c_sizes p = cs \<and> c_overhead_of p = ov \<and> p_server_info p \<noteq> None
     \<and> c_user_key p = Some key \<and> 0 < c_unit_len p \<and> c_unit_len p \<le> 2800
     \<and> (\<exists>e. c_encryptor p = Some e \<and> chain_rel L R (c_tx client p e) y)"

lemma c_pack_all_framed:
  assumes "stream_cipher (evp_update L) R" and "hash_sizes hl" and "sizes_ok cs" and "0 \<le> ov"
    and ready: "c_ready L R client cs ov key p y"
  shows "\<exists>fs t' q y'. c_pack_all hl L client buf t p = (Inr (concat (map fst fs)), t', q)
    \<and> c_ready L R client cs ov key q y' \<and> framed (c_step0 hl L cs ov (Some key) False) y fs y'
    \<and> concat (map c_data (map snd fs)) = buf
    \<and> c_has_sent_header q = c_has_sent_header p \<and> c_raw_trans q = c_raw_trans p \<and> p_server_info q = p_server_info p"
proof -
  obtain i e where i: "p_server_info p = Some i" "c_sizes p = cs" "si_overhead i = ov" "c_user_key p = Some key"
      "0 < c_unit_len p" "c_unit_len p \<le> 2800" "c_encryptor p = Some e" "chain_rel L R (c_tx client p e) y"
    using ready unfolding c_ready_def c_overhead_of_def by auto
  let ?step = "c_step0 hl L cs ov (Some key) False"
  have step: "\<exists>f s' st' v. c_pack_frame hl L cs ov (Some key) s c = (Inr f, s') \<and> chain_rel L R (fst s') st'
      \<and> ?step st f = Frame v st' (length f) \<and> c_data v = c" if "chain_rel L R (fst s) st" "length c \<le> 2800" for s st c
    using c_pack_frame_step [OF assms(1-4) that, of False key "snd s"] by (force simp: c_data_def)
  have "length c \<le> 2800" if "c \<in> set (chunk_list (nat (c_unit_len p)) buf)" for c
    using chunk_list_length [of "nat (c_unit_len p)" buf] i(5,6) that by fastforce
  then have "\<forall>c \<in> set (chunk_list (nat (c_unit_len p)) buf). length c \<le> 2800" by blast
  from pack_chunks_payloads [where rel = "\<lambda>s st. chain_rel L R (fst s) st" and step = ?step and st = y
      and s = "(c_tx client p e, t)" and pack = "c_pack_frame hl L cs ov (Some key)" and ok = "\<lambda>c. length c \<le> 2800"
      and pay = c_data, OF step _ this]
  obtain fs s' y' where s': "pack_chunks (c_pack_frame hl L cs ov (Some key)) (c_tx client p e, t)
        (chunk_list (nat (c_unit_len p)) buf) = (Inr (concat (map fst fs)), s')" "chain_rel L R (fst s') y'"
      "framed ?step y fs y'" "concat (map c_data (map snd fs)) = buf"
    using i(8) by auto
  obtain x' t' where x': "s' = (x', t')" using prod.exhaust by blast
  let ?q = "(if client then p\<lparr>c_last_client_hash := tx_hash x'\<rparr> else p\<lparr>c_last_server_hash := tx_hash x'\<rparr>)
      \<lparr>c_pack_id := tx_id x', c_encryptor := Some (tx_enc x')\<rparr>"
  have "c_pack_all hl L client buf t p = (Inr (concat (map fst fs)), t', ?q)"
    using i s'(1) x' by (simp add: c_pack_all_def c_pack_loop_def c_tx_def)
  moreover have "c_ready L R client cs ov key ?q y'"
    using ready s'(2) x' by (auto simp: c_ready_def c_overhead_of_def c_tx_def chain_rel_def)
  ultimately show ?thesis using s'(3,4)
    by (intro exI conjI) (assumption | simp)+
qed


subsection \<open>The header\<close>

definition c_header :: "hash_lib \<Rightarrow> bytes \<Rightarrow> bytes \<Rightarrow> bytes \<Rightarrow> bytes \<Rightarrow> bytes \<Rightarrow> bytes" where
  "c_header hl mac_key key c uidx blk =
     c @ take 8 (hmac hl MD5 mac_key c) @ (uidx @ blk) @ take 4 (hmac hl MD5 key (uidx @ blk))"

lemma c_header_fields:
  assumes "hash_sizes hl" and "length c = 4" and "length uidx = 4" and "length blk = 16"
    and h: "h = c_header hl mac_key key c uidx blk"
  shows "py_sub h 0 4 = c" and "j \<le> 12 \<Longrightarrow> py_sub h 4 j = take (j - 4) (hmac hl MD5 mac_key c)"
    and "py_sub h 12 16 = uidx" and "py_sub h 16 32 = blk" and "py_sub h 12 32 = uidx @ blk"
    and "py_sub h 32 36 = take 4 (hmac hl MD5 key (uidx @ blk))" and "length h = 36"
proof -
  define m8 where "m8 = take 8 (hmac hl MD5 mac_key c)"
  define m4 where "m4 = take 4 (hmac hl MD5 key (uidx @ blk))"
  have l: "length m8 = 8" "length m4 = 4" unfolding m8_def m4_def by (rule hash_sizes_take [OF assms(1)], simp)+
  have hh: "h = c @ m8 @ (uidx @ blk) @ m4" by (simp add: h c_header_def m8_def m4_def)
  show "py_sub h 0 4 = c" using assms(2) by (simp add: hh py_sub_def)
  have "py_sub h 4 12 = m8" unfolding hh using py_sub_exact [of c 4 m8 12] l assms(2) by simp
  moreover have "py_sub h 4 j = take (j - 4) (py_sub h 4 12)" if "j \<le> 12" using that by (simp add: py_sub_def min_absorb1)
  ultimately show "py_sub h 4 j = take (j - 4) (hmac hl MD5 mac_key c)" if "j \<le> 12"
    using that by (simp add: m8_def min_absorb1)
  show "py_sub h 12 16 = uidx" unfolding hh using py_sub_exact [of "c @ m8" 12 uidx 16] l assms(2-4) by simp
  show "py_sub h 16 32 = blk" unfolding hh using py_sub_exact [of "c @ m8 @ uidx" 16 blk 32] l assms(2-4) by simp
  show "py_sub h 12 32 = uidx @ blk" unfolding hh using py_sub_exact [of "c @ m8" 12 "uidx @ blk" 32] l assms(2-4) by simp
  show "py_sub h 32 36 = take 4 (hmac hl MD5 key (uidx @ blk))"
    unfolding hh m4_def [symmetric] using py_sub_exact_end [of "c @ m8 @ uidx @ blk" 32 m4 36] l assms(2-4) by simp
  show "length h = 36" using l assms(2-4) by (simp add: hh)
qed

lemma xor32_undo: "length u = 4 \<Longrightarrow> length m = 4 \<Longrightarrow> xor32 (xor32 u m) m = u"
  using le_val_4 [of u] le_val_4 [of m] by (simp add: xor32_def le_val_4_bytes)

lemma length_xor32 [simp]: "length (xor32 a b) = 4"
  by (simp add: xor32_def)

end
