(* ===== verification/Auth_Chain_Proofs.thy ===== *)
theory Auth_Chain_Proofs
  imports Auth_Chain
begin

text \<open>
  The protocols auth_chain end to end, from the server to the client: \<open>auth_chain_down\<close> composes
  \<^verbatim>\<open>server_pre_encrypt\<close> over any number of writes with \<^verbatim>\<open>client_post_decrypt\<close> over any
  cut of the stream, with the MSS in front of the first frame, the ids of the frames and the loop's check for
  five bytes; \<open>auth_chain_udp\<close> does the same for datagrams in both directions.
\<close>

subsection \<open>Frames of a call\<close>

text \<open>A packer that makes a frame of every piece, and payloads from which \<open>pay\<close> reads the piece.\<close>

lemma pack_chunks_each:
  assumes step: "\<And>s st c. rel s st \<Longrightarrow> ok c \<Longrightarrow> \<exists>f s' st' v. pack s c = (Inr f, s')
      \<and> rel s' st' \<and> step st f = Frame v st' (length f) \<and> pay v = c"
    and "rel s st" and "\<forall>c \<in> set cs. ok c"
  shows "\<exists>fs s' st'. pack_chunks pack s cs = (Inr (concat (map fst fs)), s') \<and> rel s' st'
    \<and> framed step st fs st' \<and> map pay (map snd fs) = cs"
  using assms(2,3)
proof (induction cs arbitrary: s st)
  case (Cons c cs)
  obtain f s1 st1 v where 1: "pack s c = (Inr f, s1)" "rel s1 st1" "step st f = Frame v st1 (length f)" "pay v = c"
    using step [OF Cons.prems(1), of c] Cons.prems(2) by auto
  obtain fs s2 st2 where 2: "pack_chunks pack s1 cs = (Inr (concat (map fst fs)), s2)" "rel s2 st2"
      "framed step st1 fs st2" "map pay (map snd fs) = cs"
    using Cons.IH [OF 1(2)] Cons.prems(2) unfolding list.set ball_simps by blast
  show ?case
    by (rule exI [of _ "(f, v) # fs"], rule exI [of _ s2], rule exI [of _ st2])
       (use 1 2 in \<open>simp add: comp_def\<close>)
next
  case Nil
  then show ?case by (intro exI [of _ "[]"] exI [of _ s] exI [of _ st]) simp
qed

lemma chunk_list_count: "0 < n \<Longrightarrow> length (chunk_list n buf) \<le> length buf + 1"
proof (induction n buf rule: chunk_list.induct)
  case (1 n buf)
  then show ?case by (subst chunk_list.simps) auto
qed

lemma chunk_list_hd: "0 < n \<Longrightarrow> chunk_list n buf \<noteq> [] \<and> hd (chunk_list n buf) = take n buf"
  by (subst (1 2) chunk_list.simps) auto

lemma c_pack_all_each:
  assumes "stream_cipher (evp_update L) R" and "hash_sizes hl" and "sizes_ok cs" and "0 \<le> ov"
    and ready: "c_ready L R client cs ov key p y"
  shows "\<exists>fs t' q y'. c_pack_all hl L client buf t p = (Inr (concat (map fst fs)), t', q)
    \<and> c_ready L R client cs ov key q y' \<and> framed (c_step0 hl L cs ov (Some key) False) y fs y'
    \<and> map c_data (map snd fs) = chunk_list (nat (c_unit_len p)) buf
    \<and> c_raw_trans q = c_raw_trans p \<and> p_server_info q = p_server_info p \<and> c_unit_len q = c_unit_len p"
proof -
  obtain i e where i: "p_server_info p = Some i" "c_sizes p = cs" "si_overhead i = ov" "c_user_key p = Some key"
      "0 < c_unit_len p" "c_unit_len p \<le> 2800" "c_encryptor p = Some e" "chain_rel L R (c_tx client p e) y"
    using ready unfolding c_ready_def c_overhead_of_def by auto
  let ?step = "c_step0 hl L cs ov (Some key) False"
  have step: "\<exists>f s' st' v. c_pack_frame hl L cs ov (Some key) s c = (Inr f, s') \<and> chain_rel L R (fst s') st'
      \<and> ?step st f = Frame v st' (length f) \<and> c_data v = c" if "chain_rel L R (fst s) st" "length c \<le> 2800" for s st c
    using c_pack_frame_step [OF assms(1-4) that, of False key "snd s"] by (force simp: c_data_def)
  have "length c \<le> 2800" if "c \<in> set (chunk_list (nat (c_unit_len p)) buf)" for c
    using chunk_list_length [of "nat (c_unit_len p)" buf] i(5,6) that by fastforce
  then have "\<forall>c \<in> set (chunk_list (nat (c_unit_len p)) buf). length c \<le> 2800" by blast
  from pack_chunks_each [where rel = "\<lambda>s st. chain_rel L R (fst s) st" and step = ?step and st = y
      and s = "(c_tx client p e, t)" and pack = "c_pack_frame hl L cs ov (Some key)" and ok = "\<lambda>c. length c \<le> 2800"
      and pay = c_data, OF step _ this]
  obtain fs s' y' where s': "pack_chunks (c_pack_frame hl L cs ov (Some key)) (c_tx client p e, t)
        (chunk_list (nat (c_unit_len p)) buf) = (Inr (concat (map fst fs)), s')" "chain_rel L R (fst s') y'"
      "framed ?step y fs y'" "map c_data (map snd fs) = chunk_list (nat (c_unit_len p)) buf"
    using i(8) by auto
  obtain x' t' where x': "s' = (x', t')" using prod.exhaust by blast
  let ?q = "(if client then p\<lparr>c_last_client_hash := tx_hash x'\<rparr> else p\<lparr>c_last_server_hash := tx_hash x'\<rparr>)
      \<lparr>c_pack_id := tx_id x', c_encryptor := Some (tx_enc x')\<rparr>"
  have "c_pack_all hl L client buf t p = (Inr (concat (map fst fs)), t', ?q)"
    using i s'(1) x' by (simp add: c_pack_all_def c_pack_loop_def c_tx_def)
  moreover have "c_ready L R client cs ov key ?q y'"
    using ready s'(2) x' by (auto simp: c_ready_def c_overhead_of_def c_tx_def chain_rel_def)
  ultimately show ?thesis using s'(3,4)
    by (intro exI conjI) (assumption | simp)+
qed

subsection \<open>The numbers of the frames\<close>

lemma c_step0_Frame:
  assumes "c_step0 hl L cs ov key first x buf = Frame v x' n"
  shows "fst v = rx_id x \<and> rx_id x' = (rx_id x + 1) mod 4294967296"
  using assms by (auto simp: c_step0_def c_round_def Let_def split: if_splits option.splits prod.splits sum.splits)

lemma c_framed_ids:
  assumes "framed (c_step0 hl L cs ov key first) x fs x'" and "rx_id x + length fs < 4294967296"
  shows "rx_id x' = rx_id x + length fs \<and> map (fst \<circ> snd) fs = [rx_id x ..< rx_id x + length fs]"
  using assms
proof (induction fs arbitrary: x)
  case (Cons fv fs)
  obtain f v where fv: "fv = (f, v)" using prod.exhaust by blast
  then obtain y where y: "c_step0 hl L cs ov key first x f = Frame v y (length f)"
      "framed (c_step0 hl L cs ov key first) y fs x'" using Cons.prems(1) by auto
  have id: "fst v = rx_id x" "rx_id y = rx_id x + 1" using c_step0_Frame [OF y(1)] Cons.prems(2) by auto
  show ?case using Cons.IH [OF y(2)] id Cons.prems(2) fv by (auto simp: upt_rec [of "rx_id x"])
qed simp

text \<open>A client takes the frames that a receiver without the MSS takes, if the frame number 1 has room
  for the MSS.\<close>

lemma c_round_first:
  assumes "c_round hl L cs ov key False x buf = Frame v x' n" and "rx_id x = 1 \<longrightarrow> 2 \<le> length (c_data v)"
  shows "c_round hl L cs ov key True x buf = Frame v x' n"
proof (cases key)
  case (Some k)
  define dl where "dl = le_val (take 2 buf) XOR le_val (py_sub (rx_hash x) 14 16)"
  obtain rl g where rl: "c_rnd_data_len cs ov dl (rx_hash x) = (rl, g)" using prod.exhaust by blast
  define pos where "pos = (if dl > 0 \<and> rl > 0 then 2 + rnd_start_pos rl g else 2)"
  define hash where "hash = hmac hl MD5 (k @ le32 (rx_id x)) (take (dl + rl + 2) buf)"
  define next_id where "next_id = (rx_id x + 1) mod 4294967296"
  note parts = c_round_def Let_def Some option.case dl_def [symmetric] rl prod.case pos_def [symmetric] hash_def [symmetric]
    next_id_def [symmetric]
  have F: "c_round hl L cs ov key False x buf = Frame v x' n" by (fact assms(1))
  have short: "(length (rx_hash x) < 16) = False" "(4096 \<le> dl + rl) = False" "(length buf < dl + rl + 4) = False"
    "(take 2 hash \<noteq> py_sub buf (dl + rl + 2) (dl + rl + 4)) = False"
    using F unfolding parts by (auto split: if_splits)
  note F' = F [unfolded parts short if_False]
  show ?thesis
  proof (cases "rx_enc x")
    case None
    then show ?thesis using F' by simp
  next
    case E: (Some e)
    obtain r e' where r: "decrypt L (py_sub buf pos (dl + pos)) e = (r, e')" using prod.exhaust by blast
    show ?thesis
    proof (cases r)
      case (Inl ex)
      then show ?thesis using F' E r by simp
    next
      case (Inr d)
      have v: "v = (rx_id x, d, dl = 0)" "x' = \<lparr>rx_id = next_id, rx_hash = hash, rx_enc = Some e'\<rparr>" "n = dl + rl + 4"
        using F' E r Inr by simp_all
      have "(True \<and> rx_id x = 1 \<and> length d < 2) = False" using assms(2) v(1) by (auto simp: c_data_def)
      then show ?thesis unfolding parts short if_False using E r Inr v by simp
    qed
  qed
qed (use assms(1) in \<open>simp add: c_round_def\<close>)

lemma c_step0_first:
  assumes "c_step0 hl L cs ov key False x buf = Frame v x' n" and "rx_id x = 1 \<longrightarrow> 2 \<le> length (c_data v)"
  shows "c_step0 hl L cs ov key True x buf = Frame v x' n"
  using c_round_first [of hl L cs ov key x buf v x' n] assms by (simp add: c_step0_def split: if_splits)

lemma c_framed_first:
  assumes "framed (c_step0 hl L cs ov key False) x fs x'"
    and "\<forall>v \<in> set (map snd fs). fst v = 1 \<longrightarrow> 2 \<le> length (c_data v)"
  shows "framed (c_step0 hl L cs ov key True) x fs x'"
  using assms
proof (induction fs arbitrary: x)
  case (Cons fv fs)
  obtain f v where fv: "fv = (f, v)" using prod.exhaust by blast
  then obtain y where y: "c_step0 hl L cs ov key False x f = Frame v y (length f)"
      "framed (c_step0 hl L cs ov key False) y fs x'" using Cons.prems(1) by auto
  have "rx_id x = 1 \<longrightarrow> 2 \<le> length (c_data v)" using c_step0_Frame [OF y(1)] Cons.prems(2) fv by auto
  from c_step0_first [OF y(1) this] Cons.IH [OF y(2)] Cons.prems(2) fv show ?case by auto
qed simp

subsection \<open>The server's writes\<close>

lemma c_ready_id: "c_ready L R client cs ov key p y \<Longrightarrow> rx_id y = c_pack_id p"
  by (auto simp: c_ready_def chain_rel_def c_tx_def)

text \<open>A call behind the first one.\<close>

lemma c_server_write:
  assumes "stream_cipher (evp_update L) R" and "hash_sizes hl" and "sizes_ok cs" and "0 \<le> ov"
    and "c_ready L R False cs ov key p y" and "\<not> c_raw_trans p" and "c_pack_id p \<noteq> 1"
  shows "\<exists>fs t' q y'. c_server_pre_encrypt hl L buf t p = (Inr (concat (map fst fs)), t', q)
    \<and> c_ready L R False cs ov key q y' \<and> \<not> c_raw_trans q \<and> framed (c_step0 hl L cs ov (Some key) False) y fs y'
    \<and> concat (map c_data (map snd fs)) = buf \<and> length fs \<le> length buf + 1"
proof -
  have u: "0 < nat (c_unit_len p)" using assms(5) by (simp add: c_ready_def)
  obtain fs t' q y' where w: "c_pack_all hl L False buf t p = (Inr (concat (map fst fs)), t', q)"
      "c_ready L R False cs ov key q y'" "framed (c_step0 hl L cs ov (Some key) False) y fs y'"
      "map c_data (map snd fs) = chunk_list (nat (c_unit_len p)) buf" "c_raw_trans q = c_raw_trans p"
    using c_pack_all_each [OF assms(1-5), of buf t] by auto
  have "length fs \<le> length buf + 1"
    using chunk_list_count [OF u, of buf] arg_cong [OF w(4), of length] by simp
  moreover have "concat (map c_data (map snd fs)) = buf" unfolding w(4) by (rule chunk_list_concat)
  moreover have "c_server_pre_encrypt hl L buf t p = (Inr (concat (map fst fs)), t', q)"
    using w(1) assms(6,7) by (simp add: c_server_pre_encrypt_def)
  ultimately show ?thesis using w(2,3,5) assms(6) by (intro exI conjI) simp_all
qed

lemma c_server_writes:
  assumes "stream_cipher (evp_update L) R" and "hash_sizes hl" and "sizes_ok cs" and "0 \<le> ov"
    and "c_ready L R False cs ov key p y" and "\<not> c_raw_trans p" and "1 < c_pack_id p"
    and "c_pack_id p + length (concat bufs) + length bufs < 4294967296"
  shows "\<exists>ws t' q fs y'. encode_all (c_server_pre_encrypt hl L) bufs t p = (Inr ws, t', q)
    \<and> concat ws = concat (map fst fs) \<and> framed (c_step0 hl L cs ov (Some key) False) y fs y'
    \<and> concat (map c_data (map snd fs)) = concat bufs \<and> length fs \<le> length (concat bufs) + length bufs"
  using assms(5-8)
proof (induction bufs arbitrary: p t y)
  case Nil
  then show ?case by (intro exI [of _ "[]"] exI [of _ t] exI [of _ p] exI [of _ y]) simp
next
  case (Cons b bs)
  obtain fs t1 q y1 where 1: "c_server_pre_encrypt hl L b t p = (Inr (concat (map fst fs)), t1, q)"
      "c_ready L R False cs ov key q y1" "\<not> c_raw_trans q" "framed (c_step0 hl L cs ov (Some key) False) y fs y1"
      "concat (map c_data (map snd fs)) = b" "length fs \<le> length b + 1"
    using c_server_write [OF assms(1-4) Cons.prems(1,2), of b t] Cons.prems(3) by auto
  have "rx_id y + length fs < 4294967296" using 1(6) Cons.prems(4) c_ready_id [OF Cons.prems(1)] by simp
  then have "c_pack_id q = c_pack_id p + length fs"
    using c_framed_ids [OF 1(4)] c_ready_id [OF 1(2)] c_ready_id [OF Cons.prems(1)] by simp
  then have "1 < c_pack_id q" "c_pack_id q + length (concat bs) + length bs < 4294967296"
    using Cons.prems(3,4) 1(6) by simp_all
  from Cons.IH [OF 1(2,3) this, of t1] obtain ws t2 q2 gs y2 where
      2: "encode_all (c_server_pre_encrypt hl L) bs t1 q = (Inr ws, t2, q2)" "concat ws = concat (map fst gs)"
      "framed (c_step0 hl L cs ov (Some key) False) y1 gs y2" "concat (map c_data (map snd gs)) = concat bs"
      "length gs \<le> length (concat bs) + length bs" by auto
  have "framed (c_step0 hl L cs ov (Some key) False) y (fs @ gs) y2" unfolding framed_append using 1(4) 2(3) by blast
  then show ?case
    using 1 2 by (intro exI [of _ "concat (map fst fs) # ws"] exI [of _ t2] exI [of _ q2] exI [of _ "fs @ gs"] exI [of _ y2])
      (simp add: comp_def)
qed

text \<open>What a payload is to the client.\<close>

definition c_pay :: "nat \<times> bytes \<times> bool \<Rightarrow> bytes" where
  "c_pay v = (if fst v = 1 then drop 2 (c_data v) else c_data v)"

definition mss_first :: "(nat \<times> bytes \<times> bool) list \<Rightarrow> bool" where
  "mss_first ps \<longleftrightarrow> (\<forall>v \<in> set (tl ps). fst v \<noteq> 1)"

lemma map_c_pay: "\<forall>v \<in> set ps. fst v \<noteq> 1 \<Longrightarrow> map c_pay ps = map c_data ps"
  by (simp add: c_pay_def)

lemma ids_not_1:
  assumes "map (fst \<circ> snd) fs = [n ..< m]" and "1 < n"
  shows "\<forall>v \<in> set (map snd fs). fst v \<noteq> 1"
proof
  fix v assume "v \<in> set (map snd fs)"
  then have "fst v \<in> set (map (fst \<circ> snd) fs)" by auto
  then show "fst v \<noteq> 1" using assms(2) unfolding assms(1) by simp
qed

text \<open>All the writes of a fresh connection: the MSS and the data.\<close>

definition c_mss :: "'d server_info \<Rightarrow> int" where
  "c_mss i = (if si_tcp_mss i < 1500 then si_tcp_mss i else 1500)"

lemma c_server_stream:
  assumes sc: "stream_cipher (evp_update L) R" and hs: "hash_sizes hl" and ok: "sizes_ok cs" and ov: "0 \<le> ov"
    and s: "p_server_info s = Some i" "si_overhead i = ov" "c_sizes s = cs" "c_user_key s = Some key" "\<not> c_raw_trans s"
      "c_encryptor s = Some e" "chain_rel L R (c_tx False s e) y" "c_pack_id s = 1"
    and mss: "int (c_client_over_head s) + 2 \<le> c_mss i"
    and len: "length (concat bufs) + length bufs < 4294967292"
  shows "\<exists>ws t' q fs y'. encode_all (c_server_pre_encrypt hl L) bufs t s = (Inr ws, t', q)
    \<and> concat ws = concat (map fst fs) \<and> framed (c_step0 hl L cs ov (Some key) True) y fs y'
    \<and> mss_first (map snd fs) \<and> concat (map c_pay (map snd fs)) = concat bufs"
proof (cases bufs)
  case Nil
  then show ?thesis by (intro exI [of _ "[]"] exI [of _ t] exI [of _ s] exI [of _ y]) (simp add: mss_first_def)
next
  case (Cons b bs)
  let ?step = "c_step0 hl L cs ov (Some key) False" and ?m = "le16 (nat (c_mss i))"
  define p where "p = s\<lparr>p_server_info := Some (i\<lparr>si_tcp_mss := c_mss i\<rparr>), c_unit_len := c_mss i - int (c_client_over_head s)\<rparr>"
  have pos: "0 \<le> c_mss i" "c_mss i \<le> 1500" using mss by (simp_all add: c_mss_def)
  have r: "c_ready L R False cs ov key p y"
    using s mss pos by (simp add: c_ready_def p_def c_overhead_of_def c_tx_def)
  have u: "0 < nat (c_unit_len p)" "2 \<le> nat (c_unit_len p)" using mss by (simp_all add: p_def)
  have id: "rx_id y = 1" using c_ready_id [OF r] s(8) by (simp add: p_def)
  obtain fs t1 q y1 where w: "c_pack_all hl L False (?m @ b) t p = (Inr (concat (map fst fs)), t1, q)"
      "c_ready L R False cs ov key q y1" "framed ?step y fs y1"
      "map c_data (map snd fs) = chunk_list (nat (c_unit_len p)) (?m @ b)" "c_raw_trans q = c_raw_trans p"
    using c_pack_all_each [OF sc hs ok ov r, of "?m @ b" t] by auto
  have call: "c_server_pre_encrypt hl L b t s = (Inr (concat (map fst fs)), t1, q)"
    using w(1) s(1,5,8) pos by (simp add: c_server_pre_encrypt_def Let_def p_def c_mss_def)
  have n: "length fs \<le> length b + 3" using chunk_list_count [OF u(1), of "?m @ b"] arg_cong [OF w(4), of length] by simp
  have l: "rx_id y + length fs < 4294967296" using n len Cons id by simp
  note ids = c_framed_ids [OF w(3) l]
  have q: "c_pack_id q = 1 + length fs" using ids id c_ready_id [OF w(2)] by simp
  note ch = chunk_list_hd [OF u(1), of "?m @ b"]
  obtain f v gs where fs: "fs = (f, v) # gs" using w(4) ch by (cases fs) auto
  have cv: "c_data v = take (nat (c_unit_len p)) (?m @ b)"
    using ch arg_cong [OF w(4), of hd] unfolding fs by simp
  have v: "fst v = 1" using ids id unfolding fs by (auto simp: upt_rec)
  have v2: "2 \<le> length (c_data v)" "take 2 (c_data v) = ?m" using u(2) by (simp_all add: cv)
  have later: "\<forall>v \<in> set (map snd gs). fst v \<noteq> 1"
  proof -
    have "map (fst \<circ> snd) gs = [2 ..< 2 + length gs]" using ids id unfolding fs by (auto simp: upt_rec [of "Suc 0"] numeral_2_eq_2)
    then show ?thesis by (rule ids_not_1) simp
  qed
  obtain ws t2 q2 hs' y2 where x: "encode_all (c_server_pre_encrypt hl L) bs t1 q = (Inr ws, t2, q2)"
      "concat ws = concat (map fst hs')" "framed ?step y1 hs' y2" "concat (map c_data (map snd hs')) = concat bs"
      "length hs' \<le> length (concat bs) + length bs"
    using c_server_writes [OF sc hs ok ov w(2), of bs t1] w(5) s(5) q n len Cons fs by (auto simp: p_def)
  have far: "\<forall>v \<in> set (map snd hs'). fst v \<noteq> 1"
  proof -
    have "rx_id y1 + length hs' < 4294967296" using ids id x(5) n len Cons by simp
    note ids' = c_framed_ids [OF x(3) this]
    show ?thesis using ids id fs by (intro ids_not_1 [OF conjunct2 [OF ids']]) simp
  qed
  have data: "concat (map c_data (map snd fs)) = ?m @ b" unfolding w(4) by (rule chunk_list_concat)
  have "c_data v @ concat (map c_data (map snd gs)) = ?m @ b" using data unfolding fs by simp
  then have "drop 2 (c_data v @ concat (map c_data (map snd gs))) = drop 2 (?m @ b)" by (rule arg_cong)
  then have "drop 2 (c_data v) @ concat (map c_data (map snd gs)) = b" using v2(1) by simp
  then have pay: "concat (map c_pay (map snd (fs @ hs'))) = concat bufs"
    using v x(4) Cons unfolding fs
    by (simp add: c_pay_def [of v] map_c_pay [OF later] map_c_pay [OF far] del: map_map)
  have "framed ?step y (fs @ hs') y2" unfolding framed_append using w(3) x(3) by blast
  then have fr: "framed (c_step0 hl L cs ov (Some key) True) y (fs @ hs') y2"
    by (rule c_framed_first) (use later far v2(1) fs in auto)
  have "mss_first (map snd (fs @ hs'))" using later far fs by (auto simp: mss_first_def)
  moreover have "encode_all (c_server_pre_encrypt hl L) bufs t s = (Inr (concat (map fst fs) # ws), t2, q2)"
    using call x(1) Cons by simp
  moreover have "concat (concat (map fst fs) # ws) = concat (map fst (fs @ hs'))" using x(2) by simp
  ultimately show ?thesis using fr pay by blast
qed

subsection \<open>The client's reads\<close>

text \<open>A receiver whose call is known only on the payloads that can come.\<close>

lemma feed_all_payloads_if:
  assumes call: "\<And>s st buf c st' r ps. rel s st buf \<Longrightarrow> drain step st (buf @ c) = Drained st' r ps \<Longrightarrow> good ps \<Longrightarrow>
      \<exists>out s'. f c s = (Inr out, s') \<and> out = concat (map pay ps) \<and> rel s' st' r"
    and split: "\<And>ps qs. good (ps @ qs) \<Longrightarrow> good ps \<and> good qs"
    and "receive step st buf cs = Drained st' r ps" and "rel s st buf" and "good ps"
  shows "\<exists>outs s'. feed_all f cs s = (Inr outs, s') \<and> concat outs = concat (map pay ps) \<and> rel s' st' r"
  using assms(3-5)
proof (induction cs arbitrary: s st buf ps)
  case (Cons c cs)
  obtain st1 r1 ps1 where d: "drain step st (buf @ c) = Drained st1 r1 ps1"
    using Cons.prems(1) by (cases "drain step st (buf @ c)") auto
  obtain ps2 where r: "receive step st1 r1 cs = Drained st' r ps2" "ps = ps1 @ ps2"
    using Cons.prems(1) d by (cases "receive step st1 r1 cs") auto
  have "good (ps1 @ ps2)" using Cons.prems(3) r(2) by simp
  then have g: "good ps1" "good ps2" using split by blast+
  obtain out s1 where o: "f c s = (Inr out, s1)" "out = concat (map pay ps1)" "rel s1 st1 r1"
    using call [OF Cons.prems(2) d g(1)] by (elim exE conjE) (rule that)
  obtain outs s2 where i: "feed_all f cs s1 = (Inr outs, s2)" "concat outs = concat (map pay ps2)" "rel s2 st' r"
    using Cons.IH [OF r(1) o(3) g(2)] by (elim exE conjE) (rule that)
  show ?case by (intro exI [of _ "out # outs"] exI [of _ s2]) (use o i r(2) in simp)
next
  case Nil
  then show ?case by (intro exI [of _ "[]"] exI [of _ s]) simp
qed

lemma mss_first_split: "mss_first (ps @ qs) \<Longrightarrow> mss_first ps \<and> mss_first qs"
  unfolding mss_first_def by (cases ps; cases qs) simp_all

lemma c_collect_data: "\<forall>v \<in> set ps. fst v \<noteq> 1 \<Longrightarrow> c_collect ps d m = (d @ concat (map c_data ps), m)"
  by (induction ps arbitrary: d) (auto simp: c_data_def)

lemma c_collect_pay:
  assumes "mss_first ps"
  shows "fst (c_collect ps [] m) = concat (map c_pay ps)"
proof (cases ps)
  case (Cons v vs)
  obtain rid d z where v: "v = (rid, d, z)" using prod_cases3 by blast
  have vs: "\<forall>v \<in> set vs. fst v \<noteq> 1" using assms Cons by (simp add: mss_first_def)
  show ?thesis
    using Cons v by (simp add: c_collect_data [OF vs] map_c_pay [OF vs] c_pay_def [of "(_, d, z)"] c_data_def [of "(_, d, z)"])
qed simp

text \<open>The client's object between two calls.\<close>

definition c_client_rel :: "chain_sizes \<Rightarrow> int \<Rightarrow> bytes \<Rightarrow> 'o auth_chain \<Rightarrow> 'o chain_rx \<Rightarrow> bytes \<Rightarrow> bool" where
  "c_client_rel cs ov key p y r \<longleftrightarrow> \<not> c_raw_trans p \<and> c_sizes p = cs \<and> c_overhead_of p = ov \<and> c_user_key p = Some key
     \<and> c_recv_buf p = r \<and> y = c_load (c_last_server_hash p) p"

lemma c_set_mss_fields [simp]:
  "c_raw_trans (c_set_mss m p) = c_raw_trans p" "c_sizes (c_set_mss m p) = c_sizes p"
  "c_overhead_of (c_set_mss m p) = c_overhead_of p" "c_user_key (c_set_mss m p) = c_user_key p"
  "c_recv_buf (c_set_mss m p) = c_recv_buf p" "c_last_server_hash (c_set_mss m p) = c_last_server_hash p"
  "c_recv_id (c_set_mss m p) = c_recv_id p" "c_encryptor (c_set_mss m p) = c_encryptor p"
  by (auto simp: c_set_mss_def c_overhead_of_def split: option.split)

lemma c_client_call:
  assumes "c_client_rel cs ov key p y b" and "drain (c_step hl L cs ov (Some key) True) y (b @ c) = Drained y' r ps"
    and "mss_first ps"
  shows "\<exists>out q. c_client_post_decrypt hl L c p = (Inr out, q) \<and> out = concat (map c_pay ps) \<and> c_client_rel cs ov key q y' r"
proof -
  let ?q = "c_set_mss (snd (c_collect ps [] None)) (p\<lparr>c_recv_id := rx_id y', c_last_server_hash := rx_hash y',
       c_encryptor := rx_enc y', c_recv_buf := r\<rparr>)"
  have "c_client_post_decrypt hl L c p = (Inr (fst (c_collect ps [] None)), ?q)"
    using assms(1,2) by (simp add: c_client_post_decrypt_def c_client_rel_def)
  moreover have "c_client_rel cs ov key ?q y' r"
    using assms(1) by (simp add: c_client_rel_def c_load_def) (simp add: c_overhead_of_def)
  ultimately show ?thesis using c_collect_pay [OF assms(3), of None] by simp
qed

lemma c_client_stream:
  assumes fr: "framed (c_step0 hl L cs ov (Some key) True) y fs y'" and g: "mss_first (map snd fs)"
    and rel: "c_client_rel cs ov key p y []" and bytes: "concat ch = concat (map fst fs)"
  shows "\<exists>outs q. feed_all (c_client_post_decrypt hl L) ch p = (Inr outs, q)
    \<and> concat outs = concat (map c_pay (map snd fs)) \<and> length (c_recv_buf q) \<in> {0, 4}"
proof -
  have "drain (c_step0 hl L cs ov (Some key) True) y (concat ch) = Drained y' [] (map snd fs)"
    using chain0.drain_framed [OF fr] bytes by simp
  from drain_step0 [OF this] obtain y1 r1 ps1 where d: "drain (c_step hl L cs ov (Some key) True) y (concat ch) = Drained y1 r1 ps1"
      and left: "y1 = y' \<and> r1 = [] \<and> ps1 = map snd fs \<or> length r1 = 4 \<and> (\<exists>v. map snd fs = ps1 @ [v] \<and> c_data v = [])"
    by blast
  have good: "mss_first ps1" using left g mss_first_split by metis
  have pay: "concat (map c_pay ps1) = concat (map c_pay (map snd fs))" using left by (auto simp: c_pay_def simp del: map_map)
  have r: "receive (c_step hl L cs ov (Some key) True) y [] ch = Drained y1 r1 ps1"
    by (rule chain.receive_drained [OF d]) simp
  have "\<exists>outs q. feed_all (c_client_post_decrypt hl L) ch p = (Inr outs, q) \<and> concat outs = concat (map c_pay ps1)
      \<and> c_client_rel cs ov key q y1 r1"
    by (rule feed_all_payloads_if [where rel = "c_client_rel cs ov key" and good = mss_first,
          OF c_client_call mss_first_split r rel good])
  then show ?thesis using pay left by (auto simp: c_client_rel_def)
qed

text \<open>C36. What the server of auth_chain_a to d writes, the client reads: with one user key, sizes made of
  the same key, hashes, counters and RC4 contexts in step and an MSS that leaves room for the client's
  overhead, the server packs every buffer, and for every random padding and every cut of the stream the
  client takes every chunk without an exception and delivers exactly the bytes written, the MSS in
  front of them taken off; at most one frame of no data is left in its buffer, which its loop takes only
  when a fifth byte has come. The counters of 32 bits do not come round.\<close>

theorem auth_chain_down:
  assumes "stream_cipher (evp_update L) R" and "hash_sizes hl"
    and "p_server_info s = Some i" and "0 \<le> si_overhead i" and "c_sizes s = init_data_size k cs0"
    and "c_user_key s = Some key" and "\<not> c_raw_trans s" and "c_pack_id s = 1" and "c_encryptor s = Some e"
    and "length (c_last_server_hash s) = 16"
    and "int (c_client_over_head s) + 2 \<le> min (si_tcp_mss i) 1500"
    and "p_server_info c = Some j" and "si_overhead j = si_overhead i" and "c_sizes c = c_sizes s"
    and "c_user_key c = Some key" and "\<not> c_raw_trans c" and "c_recv_id c = 1" and "c_encryptor c = Some d"
    and "c_last_server_hash c = c_last_server_hash s" and "c_recv_buf c = []" and "enc_pair L R e d"
    and "length (concat bufs) + length bufs < 4294967292"
  shows "\<exists>ws t' s'. encode_all (c_server_pre_encrypt hl L) bufs t s = (Inr ws, t', s')
    \<and> (\<forall>ch. concat ch = concat ws \<longrightarrow>
         (\<exists>outs c'. feed_all (c_client_post_decrypt hl L) ch c = (Inr outs, c')
            \<and> concat outs = concat bufs \<and> length (c_recv_buf c') \<in> {0, 4}))"
proof -
  let ?y = "c_load (c_last_server_hash c) c"
  have ok: "sizes_ok (c_sizes s)" unfolding assms(5) by (rule init_sizes_ok)
  have rel: "chain_rel L R (c_tx False s e) ?y" using assms by (simp add: chain_rel_def c_tx_def c_load_def)
  have mss: "int (c_client_over_head s) + 2 \<le> c_mss i" using assms(11) by (simp add: c_mss_def)
  obtain ws t' q fs y' where w: "encode_all (c_server_pre_encrypt hl L) bufs t s = (Inr ws, t', q)"
      "concat ws = concat (map fst fs)" "framed (c_step0 hl L (c_sizes s) (si_overhead i) (Some key) True) ?y fs y'"
      "mss_first (map snd fs)" "concat (map c_pay (map snd fs)) = concat bufs"
    using c_server_stream [OF assms(1,2) ok assms(4,3) refl refl assms(6,7,9) rel assms(8) mss assms(22), of t]
    by (elim exE conjE) (rule that)
  have "c_client_rel (c_sizes s) (si_overhead i) key c ?y []"
    using assms by (simp add: c_client_rel_def c_overhead_of_def)
  from c_client_stream [OF w(3,4) this] have "\<exists>outs c'. feed_all (c_client_post_decrypt hl L) ch c = (Inr outs, c')
      \<and> concat outs = concat bufs \<and> length (c_recv_buf c') \<in> {0, 4}" if "concat ch = concat ws" for ch
    using that w(2,5) by simp
  then show ?thesis using w(1) by blast
qed

text \<open>Both ends of a connection, as the handshake leaves them.\<close>

lemma plain_rc4: "rc4_works plain_lib (\<lambda>_ _. True)"
  using plain_lib_stream by (simp add: rc4_works_def plain_lib_def)

lemma c_stream_cipher_self:
  assumes "rc4_works L R" and "\<And>x. length (md5 L x) = 16"
  obtains e t' where "c_stream_cipher L key hash t = (Inr e, t')" "enc_pair L R e e"
proof -
  obtain e t' where e: "c_stream_cipher L key hash t = (Inr e, t')"
      "\<forall>u. \<exists>D u'. c_stream_cipher L key hash u = (Inr D, u') \<and> enc_pair L R e D \<and> enc_pair L R D e"
    using c_stream_cipher_pair [OF assms, of key hash t] by (elim exE conjE) (rule that)
  obtain D u' where D: "c_stream_cipher L key hash t = (Inr D, u')" "enc_pair L R e D"
    using e(2) by (elim allE [of _ t] exE conjE) (rule that)
  then have "D = e" using e(1) by simp
  then show ?thesis using e(1) D(2) that by simp
qed

definition chain_example_info :: "chain_queue mu_data server_info" where
  "chain_example_info = (server_info_new mu_data_new)\<lparr>si_tcp_mss := 1440, si_overhead := 13\<rparr>"

definition chain_example :: "unit encryptor \<Rightarrow> unit auth_chain" where
  "chain_example e =
     (c_set_server_info chain_example_info (auth_chain_new ''auth_chain_b'' ChainB))
       \<lparr>c_user_key := Some ''key'', c_encryptor := Some e, c_last_client_hash := replicate 16 CHR ''h'',
        c_last_server_hash := replicate 16 CHR ''s''\<rparr>"

theorem auth_chain_down_witness:
  "\<exists>e ws t' s' outs c'. fst (c_stream_cipher plain_lib ''key'' (replicate 16 CHR ''h'') []) = Inr e
    \<and> encode_all (c_server_pre_encrypt plain_hashes plain_lib) [''abc'', [], ''d''] ''seed'' (chain_example e) = (Inr ws, t', s')
    \<and> feed_all (c_client_post_decrypt plain_hashes plain_lib) (map (\<lambda>c. [c]) (concat ws)) (chain_example e) = (Inr outs, c')
    \<and> concat outs = ''abcd''"
proof -
  obtain e t0 where e: "c_stream_cipher plain_lib ''key'' (replicate 16 CHR ''h'') [] = (Inr e, t0)"
      "enc_pair plain_lib (\<lambda>_ _. True) e e"
    by (rule c_stream_cipher_self [OF plain_rc4 plain_lib_md5])
  let ?i = "chain_example_info\<lparr>si_data := set_max_client_mu (max_client_param (si_protocol_param chain_example_info)) (si_data chain_example_info)\<rparr>"
  let ?s0 = "\<lparr>cs_variant = ChainB, data_size_list = [], data_size_list2 = [], data_size_list0 = []\<rparr>"
  have x: "p_server_info (chain_example e) = Some ?i" "si_overhead ?i = 13" "c_user_key (chain_example e) = Some ''key''"
      "c_sizes (chain_example e) = init_data_size (si_key ?i) ?s0"
      "\<not> c_raw_trans (chain_example e)" "c_pack_id (chain_example e) = 1" "c_recv_id (chain_example e) = 1"
      "c_encryptor (chain_example e) = Some e" "length (c_last_server_hash (chain_example e)) = 16"
      "c_recv_buf (chain_example e) = []" "int (c_client_over_head (chain_example e)) + 2 \<le> min (si_tcp_mss ?i) 1500"
    by (simp_all add: chain_example_def chain_example_info_def c_set_server_info_def auth_chain_new_def server_info_new_def)
  have "\<exists>ws t' s'. encode_all (c_server_pre_encrypt plain_hashes plain_lib) [''abc'', [], ''d''] ''seed'' (chain_example e) = (Inr ws, t', s')
    \<and> (\<forall>ch. concat ch = concat ws \<longrightarrow>
         (\<exists>outs c'. feed_all (c_client_post_decrypt plain_hashes plain_lib) ch (chain_example e) = (Inr outs, c')
            \<and> concat outs = concat [''abc'', [], ''d''] \<and> length (c_recv_buf c') \<in> {0, 4}))"
    by (rule auth_chain_down [OF plain_lib_stream plain_hashes_sizes x(1) _ x(4,3,5,6,8,9,11,1) refl refl x(3,5,7,8) refl x(10) e(2)])
       (simp_all add: x(2))
  then obtain ws t' s' where w: "encode_all (c_server_pre_encrypt plain_hashes plain_lib) [''abc'', [], ''d''] ''seed'' (chain_example e) = (Inr ws, t', s')"
      and all: "\<forall>ch. concat ch = concat ws \<longrightarrow> (\<exists>outs c'. feed_all (c_client_post_decrypt plain_hashes plain_lib) ch (chain_example e) = (Inr outs, c')
            \<and> concat outs = concat [''abc'', [], ''d''] \<and> length (c_recv_buf c') \<in> {0, 4})"
    by (elim exE conjE) (rule that)
  obtain outs c' where o': "feed_all (c_client_post_decrypt plain_hashes plain_lib) (map (\<lambda>c. [c]) (concat ws)) (chain_example e) = (Inr outs, c')"
      "concat outs = concat [''abc'', [], ''d'']"
    using all [rule_format, OF concat_singles] by (elim exE conjE) (rule that)
  have "concat outs = ''abcd''" "fst (c_stream_cipher plain_lib ''key'' (replicate 16 CHR ''h'') []) = Inr e"
    using o'(2) e(1) by simp_all
  then show ?thesis using w o'(1) by blast
qed

subsection \<open>Datagrams\<close>

text \<open>The user and key that a client's first datagram settles.\<close>

definition c_udp_account :: "hash_lib \<Rightarrow> bytes \<Rightarrow> chain_queue mu_data server_info \<Rightarrow> 'o auth_chain \<Rightarrow> bytes \<Rightarrow> bytes \<Rightarrow> bool" where
  "c_udp_account hl fresh i p u key \<longleftrightarrow>
     (case c_user_key p of
        Some k \<Rightarrow> key = k \<and> c_user_id p = Some u
      | None \<Rightarrow>
          (case param_user hl MD5 (si_protocol_param i) of
             Some (k, Some x) \<Rightarrow> key = k \<and> u = x
           | Some (k, None) \<Rightarrow> key = k \<and> c_user_id p = Some u
           | None \<Rightarrow> key = si_key i \<and> u = fresh))"

text \<open>What is in front of the last eight bytes and the padding is decrypted with the keys it was
  encrypted with.\<close>

lemma c_udp_body_enc:
  assumes "rc4_works L R" and "\<And>x. length (md5 L x) = 16" and "c_stream_cipher L key m t1 = (Inr e, t2)"
    and "length rnd = udp_rnd_data_len m" and "length end8 = 8"
  shows "\<exists>t'. c_udp_body L key m (fst (encrypt L buf e) @ rnd @ end8) t = (Inr buf, t')"
proof -
  obtain E d u where E: "c_stream_cipher L key m t1 = (Inr E, u)"
      "\<forall>v. \<exists>D v'. c_stream_cipher L key m v = (Inr D, v') \<and> enc_pair L R E D \<and> enc_pair L R D E"
    using c_stream_cipher_pair [OF assms(1,2), of key m t1] by (elim exE conjE) (rule that)
  have "E = e" using E(1) assms(3) by simp
  then obtain D v' where D: "c_stream_cipher L key m t = (Inr D, v')" "enc_pair L R e D"
    using E(2) by (elim allE [of _ t] exE conjE) (rule that, simp_all)
  obtain y e' where y: "encrypt L buf e = (y, e')" using prod.exhaust by blast
  have sc: "stream_cipher (evp_update L) R" using assms(1) by (simp add: rc4_works_def)
  obtain D' where D': "decrypt L y D = (Inr buf, D')" using enc_pair_step(2) [OF sc D(2) y] by blast
  have "but_last (8 + udp_rnd_data_len m) (y @ (rnd @ end8)) = y" by (rule but_last_append) (use assms(4,5) in simp_all)
  then show ?thesis using D(1) D' y by (simp add: c_udp_body_def)
qed

lemma py_slice_tail:
  assumes "length a = 3" and "length u = 4" and "length m = 1"
  shows "py_slice (x @ a @ u @ m) (-8) (-5) = a" and "py_slice (x @ a @ u @ m) (-5) (-1) = u"
  using assms clamp_index_neg [of 8 "length (x @ a @ u @ m)"] clamp_index_neg [of 5 "length (x @ a @ u @ m)"]
    clamp_index_neg [of 1 "length (x @ a @ u @ m)"]
  by (simp_all add: py_slice_def py_sub_def)

lemma py_slice_tail7: "length a = 7 \<Longrightarrow> length m = 1 \<Longrightarrow> py_slice (x @ a @ m) (-8) (-1) = a"
  using clamp_index_neg [of 8 "length (x @ a @ m)"] clamp_index_neg [of 1 "length (x @ a @ m)"]
  by (simp add: py_slice_def py_sub_def)

lemma c_client_udp_sends:
  assumes "rc4_works L R" and md5: "\<And>x. length (md5 L x) = 16" and "p_server_info c = Some ic"
    and "c_udp_account hl (fst (urandom 4 t)) ic c u key" and "length u = 4"
  shows "\<exists>auth rnd e w s v v' t' c'. length auth = 3 \<and> s = hmac hl MD5 (si_key ic) auth \<and> length rnd = udp_rnd_data_len s
    \<and> c_stream_cipher L key s v = (Inr e, v') \<and> w = fst (encrypt L buf e) @ rnd @ auth @ xor32 u (take 4 s)
    \<and> c_client_udp_pre_encrypt hl L buf t c = (Inr (w @ take 1 (hmac hl MD5 key w)), t', c')"
proof -
  obtain fresh t0 where fresh: "urandom 4 t = (fresh, t0)" using prod.exhaust by blast
  obtain p1 t1 where p1: "(case c_user_key c of
                Some k \<Rightarrow> (c, t)
              | None \<Rightarrow>
                  (case param_user hl MD5 (si_protocol_param ic) of
                     Some (k, None) \<Rightarrow> (c\<lparr>c_user_key := Some k\<rparr>, t)
                   | Some (k, Some u) \<Rightarrow> (c\<lparr>c_user_key := Some k, c_user_id := Some u\<rparr>, t)
                   | None \<Rightarrow>
                       (let (u, t') = urandom 4 t
                        in (c\<lparr>c_user_id := Some u, c_user_key := Some (si_key ic)\<rparr>, t')))) = (p1, t1)"
    using prod.exhaust by blast
  then have u: "c_user_id p1 = Some u" "c_user_key p1 = Some key"
    using assms(4) fresh by (auto simp: c_udp_account_def split: option.splits prod.splits)
  obtain auth t2 where a: "urandom 3 t1 = (auth, t2)" using prod.exhaust by blast
  define s where "s = hmac hl MD5 (si_key ic) auth"
  obtain e t3 where e: "c_stream_cipher L key s t2 = (Inr e, t3)"
    by (rule c_stream_cipher_self [OF assms(1) md5])
  obtain rnd t4 where r: "urandom (udp_rnd_data_len s) t3 = (rnd, t4)" using prod.exhaust by blast
  define w where "w = fst (encrypt L buf e) @ rnd @ auth @ xor32 u (take 4 s)"
  have "c_client_udp_pre_encrypt hl L buf t c = (Inr (w @ take 1 (hmac hl MD5 key w)), t4, p1)"
    unfolding c_client_udp_pre_encrypt_def assms(3) option.case Let_def p1 [unfolded Let_def] prod.case a s_def [symmetric] u
    using assms(5) e r by (simp add: w_def)
  then show ?thesis
    using urandom_length [OF a] urandom_length [OF r] e w_def s_def by blast
qed

text \<open>A datagram of auth_chain arrives unchanged, under the user that the client named if the server
  knows it, when the client's key is the one that the server looks up for that user; a datagram of a
  server that uses the client's key arrives unchanged at a client that has its key; and the server
  drops, without a change of state, a datagram of at least five bytes whose last byte is not the first
  of the HMAC under the key of the user it names.\<close>


theorem auth_chain_udp:
  assumes "rc4_works L R" and "\<And>x. length (md5 L x) = 16" and "hash_sizes hl"
    and "p_server_info c = Some ic" and "p_server_info s = Some is" and "si_key is = si_key ic"
    and "c_udp_account hl (fst (urandom 4 t)) ic c u key" and "length u = 4" and "c_key_of is u = key"
  shows "(\<exists>w t' c' v'. c_client_udp_pre_encrypt hl L buf t c = (Inr w, t', c')
      \<and> c_server_udp_post_decrypt hl L w v s = (Inr (buf, if map_of (si_users is) u \<noteq> None then Some u else None), v'))
    \<and> (ans \<noteq> [] \<and> c_user_key c = Some key \<longrightarrow>
        (\<exists>w t' v'. c_server_udp_pre_encrypt hl L ans (Some u) t s = (Inr w, t')
          \<and> c_client_udp_post_decrypt hl L w v c = (Inr (UdpBytes ans), v')))
    \<and> (5 \<le> length pkt \<and> last_bytes 1 pkt \<noteq> take 1 (hmac hl MD5 (c_key_of is (xor32 (py_slice pkt (-5) (-1))
            (take 4 (hmac hl MD5 (si_key is) (py_slice pkt (-8) (-5)))))) (but_last 1 pkt))
         \<longrightarrow> c_server_udp_post_decrypt hl L pkt v s = (Inr ([], None), v))"
proof (intro conjI impI)
  have h16: "length (hmac hl MD5 k m) = 16" for k m using hash_sizes_lengths(1) [OF assms(3)] by simp
  obtain auth rnd e w m v1 v2 t' c' where c: "length auth = 3" "m = hmac hl MD5 (si_key ic) auth" "length rnd = udp_rnd_data_len m"
      "c_stream_cipher L key m v1 = (Inr e, v2)" "w = fst (encrypt L buf e) @ rnd @ auth @ xor32 u (take 4 m)"
      "c_client_udp_pre_encrypt hl L buf t c = (Inr (w @ take 1 (hmac hl MD5 key w)), t', c')"
    using c_client_udp_sends [OF assms(1,2,4,7,8), of buf] by (elim exE conjE) (rule that)
  define x1 where "x1 = take 1 (hmac hl MD5 key w)"
  have x1: "length x1 = 1" by (simp add: x1_def h16)
  let ?pkt = "(fst (encrypt L buf e) @ rnd) @ auth @ xor32 u (take 4 m) @ x1"
  have pkt: "w @ x1 = ?pkt" by (simp add: c(5))
  have sl: "py_slice ?pkt (-8) (-5) = auth" "py_slice ?pkt (-5) (-1) = xor32 u (take 4 m)"
    by (rule py_slice_tail [OF c(1) _ x1], simp)+
  have uu: "xor32 (xor32 u (take 4 m)) (take 4 m) = u"
    by (rule xor32_undo [OF assms(8)]) (simp add: c(2) h16)
  have lb: "but_last 1 ?pkt = w" "last_bytes 1 ?pkt = x1"
    unfolding pkt [symmetric] using x1 by simp_all
  obtain v' where b: "c_udp_body L key m ?pkt v = (Inr buf, v')"
    using c_udp_body_enc [OF assms(1,2) c(4,3), of "auth @ xor32 u (take 4 m) @ x1" buf v] c(1) x1 by auto
  have "c_server_udp_post_decrypt hl L ?pkt v s = (Inr (buf, if map_of (si_users is) u \<noteq> None then Some u else None), v')"
    unfolding c_server_udp_post_decrypt_def assms(5,6) option.case Let_def sl c(2) [symmetric] uu assms(9) lb x1_def [symmetric] b
    by simp
  then show "\<exists>w t' c' v'. c_client_udp_pre_encrypt hl L buf t c = (Inr w, t', c')
      \<and> c_server_udp_post_decrypt hl L w v s = (Inr (buf, if map_of (si_users is) u \<noteq> None then Some u else None), v')"
    using c(6) unfolding x1_def [symmetric] pkt by blast
next
  assume ans: "ans \<noteq> [] \<and> c_user_key c = Some key"
  have h16: "length (hmac hl MD5 k m) = 16" for k m using hash_sizes_lengths(1) [OF assms(3)] by simp
  obtain auth t1 where a: "urandom 7 t = (auth, t1)" using prod.exhaust by blast
  define m where "m = hmac hl MD5 (si_key ic) auth"
  obtain e t2 where e: "c_stream_cipher L key m t1 = (Inr e, t2)" "enc_pair L R e e"
    by (rule c_stream_cipher_self [OF assms(1,2)])
  obtain rnd t3 where r: "urandom (udp_rnd_data_len m) t2 = (rnd, t3)" using prod.exhaust by blast
  obtain y e' where y: "encrypt L ans e = (y, e')" using prod.exhaust by blast
  have ly: "length y = length ans" using enc_pair_step(1) [OF _ e(2) y] assms(1) by (simp add: rc4_works_def)
  define w where "w = y @ rnd @ auth"
  define x1 where "x1 = take 1 (hmac hl MD5 key w)"
  have x1: "length x1 = 1" by (simp add: x1_def h16)
  note la = urandom_length [OF a] and lr = urandom_length [OF r]
  have 1: "c_server_udp_pre_encrypt hl L ans (Some u) t s = (Inr (w @ x1), t3)"
    unfolding c_server_udp_pre_encrypt_def assms(5,6) option.case Let_def assms(9) a prod.case m_def [symmetric] e sum.case r y fst_conv
      w_def [symmetric] x1_def [symmetric] by (rule refl)
  have pkt: "w @ x1 = (y @ rnd) @ auth @ x1" by (simp add: w_def)
  have sl: "py_slice (w @ x1) (-8) (-1) = auth" unfolding pkt by (rule py_slice_tail7 [OF la x1])
  obtain v' where b: "c_udp_body L key m (w @ x1) v = (Inr ans, v')"
    using c_udp_body_enc [OF assms(1,2) e(1) lr, of "auth @ x1" ans v] la x1 y by (auto simp: w_def)
  have "length (w @ x1) > 8" using ly la x1 ans by (cases ans) (simp_all add: w_def)
  then have "c_client_udp_post_decrypt hl L (w @ x1) v c = (Inr (UdpBytes ans), v')"
    using ans assms(4) b x1 sl by (simp add: c_client_udp_post_decrypt_def x1_def [symmetric] m_def [symmetric] rbind_def del: One_nat_def)
  then show "\<exists>w t' v'. c_server_udp_pre_encrypt hl L ans (Some u) t s = (Inr w, t')
          \<and> c_client_udp_post_decrypt hl L w v c = (Inr (UdpBytes ans), v')" using 1 by blast
next
  assume p: "5 \<le> length pkt \<and> last_bytes 1 pkt \<noteq> take 1 (hmac hl MD5 (c_key_of is (xor32 (py_slice pkt (-5) (-1))
            (take 4 (hmac hl MD5 (si_key is) (py_slice pkt (-8) (-5)))))) (but_last 1 pkt))"
  have "length (py_slice pkt (-5) (-1)) = 4"
    using p clamp_index_neg [of 5 "length pkt"] clamp_index_neg [of 1 "length pkt"] by (simp add: py_slice_def py_sub_def)
  then show "c_server_udp_post_decrypt hl L pkt v s = (Inr ([], None), v)"
    using p assms(5) by (auto simp: c_server_udp_post_decrypt_def Let_def)
qed

theorem auth_chain_udp_witness:
  "\<exists>e w t' c' v'. c_client_udp_pre_encrypt plain_hashes plain_lib ''ping'' [] (chain_example e\<lparr>c_user_key := None\<rparr>) = (Inr w, t', c')
    \<and> c_server_udp_post_decrypt plain_hashes plain_lib w [] (chain_example e) = (Inr (''ping'', None), v')"
proof -
  obtain e t0 where "c_stream_cipher plain_lib ''key'' ''h'' [] = (Inr e, t0)"
    by (rule c_stream_cipher_self [OF plain_rc4 plain_lib_md5])
  let ?i = "chain_example_info\<lparr>si_data := set_max_client_mu (max_client_param (si_protocol_param chain_example_info)) (si_data chain_example_info)\<rparr>"
  let ?c = "chain_example e\<lparr>c_user_key := None\<rparr>"
  have x: "p_server_info (chain_example e) = Some ?i" "p_server_info ?c = Some ?i" "si_users ?i = []" "si_protocol_param ?i = []"
      "c_user_key ?c = None" "map_of (si_users ?i) u = None" for u
    by (simp_all add: chain_example_def chain_example_info_def c_set_server_info_def auth_chain_new_def server_info_new_def)
  have acc: "c_udp_account plain_hashes (fst (urandom 4 [])) ?i ?c (fst (urandom 4 [])) (si_key ?i)"
    using x(4,5) by (simp add: c_udp_account_def param_user_def py_in_def)
  have key: "c_key_of ?i (fst (urandom 4 [])) = si_key ?i" using x(3) by (simp add: c_key_of_def)
  from auth_chain_udp [OF plain_rc4 plain_lib_md5 plain_hashes_sizes x(2,1) refl acc length_urandom key, of "''ping''" "[]" "[]" "[]"]
  show ?thesis unfolding x(6) by (elim conjE) (intro exI [of _ e], simp)
qed

text \<open>A client whose protocol parameter names a user sends its datagrams under the MD5 digest of the
  password, while the server looks up the password itself: unless the first bytes of the two HMACs happen
  to agree, the server drops every such datagram, although the user and the password are right.\<close>

theorem auth_chain_udp_named_user:
  assumes "rc4_works L R" and "\<And>x. length (md5 L x) = 16" and "hash_sizes hl"
    and "p_server_info c = Some ic" and "p_server_info s = Some is" and "si_key is = si_key ic"
    and "c_user_key c = None" and "si_protocol_param ic = dec n @ '':'' @ pw" and "n < 4294967296" and "CHR '':'' \<notin> set pw"
    and "map_of (si_users is) (le32 n) = Some pw"
  shows "\<exists>w t' c'. c_client_udp_pre_encrypt hl L buf t c = (Inr w, t', c')
    \<and> (take 1 (hmac hl MD5 pw (but_last 1 w)) \<noteq> take 1 (hmac hl MD5 (digest hl MD5 pw) (but_last 1 w))
         \<longrightarrow> c_server_udp_post_decrypt hl L w v s = (Inr ([], None), v))"
proof -
  have h16: "length (hmac hl MD5 k m) = 16" for k m using hash_sizes_lengths(1) [OF assms(3)] by simp
  let ?key = "digest hl MD5 pw" and ?u = "le32 n"
  have acc: "c_udp_account hl (fst (urandom 4 t)) ic c ?u ?key"
    unfolding c_udp_account_def assms(7,8) param_user_named [OF assms(9,10)] by simp
  have u4: "length ?u = 4" by simp
  obtain auth rnd e w m v1 v2 t' c' where c: "length auth = 3" "m = hmac hl MD5 (si_key ic) auth"
      "w = fst (encrypt L buf e) @ rnd @ auth @ xor32 ?u (take 4 m)"
      "c_client_udp_pre_encrypt hl L buf t c = (Inr (w @ take 1 (hmac hl MD5 ?key w)), t', c')"
    using c_client_udp_sends [OF assms(1,2,4) acc u4, of buf] by (elim exE conjE) (rule that)
  define x1 where "x1 = take 1 (hmac hl MD5 ?key w)"
  have x1: "length x1 = 1" by (simp add: x1_def h16)
  let ?pkt = "(fst (encrypt L buf e) @ rnd) @ auth @ xor32 ?u (take 4 m) @ x1"
  have pkt: "w @ x1 = ?pkt" by (simp add: c(3))
  have sl: "py_slice ?pkt (-8) (-5) = auth" "py_slice ?pkt (-5) (-1) = xor32 ?u (take 4 m)"
    by (rule py_slice_tail [OF c(1) _ x1], simp)+
  have uu: "xor32 (xor32 ?u (take 4 m)) (take 4 m) = ?u" by (rule xor32_undo) (simp_all add: c(2) h16)
  have lb: "but_last 1 ?pkt = w" "last_bytes 1 ?pkt = x1" unfolding pkt [symmetric] using x1 by simp_all
  have key: "c_key_of is ?u = pw" using assms(11) by (simp add: c_key_of_def)
  have "c_server_udp_post_decrypt hl L ?pkt v s = (Inr ([], None), v)"
    if "take 1 (hmac hl MD5 pw (but_last 1 ?pkt)) \<noteq> take 1 (hmac hl MD5 ?key (but_last 1 ?pkt))"
    using that unfolding c_server_udp_post_decrypt_def assms(5,6) option.case Let_def sl c(2) [symmetric] uu key lb x1_def [symmetric]
    by simp
  then show ?thesis using c(4) unfolding x1_def [symmetric] pkt by blast
qed

text \<open>Hashes for a concrete run that show the key.\<close>

definition key_hashes :: hash_lib where
  "key_hashes = \<lparr>digest = (\<lambda>h m. replicate (digest_size h) (chrb 7)),
     hmac = (\<lambda>h k m. take (digest_size h) (k @ replicate (digest_size h) (chrb 9)))\<rparr>"

lemma key_hashes_sizes: "hash_sizes key_hashes"
  by (auto simp: hash_sizes_def key_hashes_def min_def)

definition chain_user :: "'o auth_chain \<Rightarrow> 'o auth_chain" where
  "chain_user p = p\<lparr>c_user_key := None, p_server_info := Some ((server_info_new mu_data_new)
     \<lparr>si_protocol_param := ''7:pw'', si_users := [(le32 7, ''pw'')]\<rparr>)\<rparr>"

theorem auth_chain_udp_named_user_witness:
  "\<exists>e w t' c'. c_client_udp_pre_encrypt key_hashes plain_lib ''ping'' [] (chain_user (chain_example e)) = (Inr w, t', c')
    \<and> c_server_udp_post_decrypt key_hashes plain_lib w [] (chain_user (chain_example e)) = (Inr ([], None), [])"
proof -
  let ?i = "(server_info_new mu_data_new)\<lparr>si_protocol_param := ''7:pw'', si_users := [(le32 7, ''pw'')]\<rparr>"
  obtain e t0 where "c_stream_cipher plain_lib ''key'' ''h'' [] = (Inr e, t0)"
    by (rule c_stream_cipher_self [OF plain_rc4 plain_lib_md5])
  let ?c = "chain_user (chain_example e)"
  have p: "p_server_info ?c = Some ?i" "c_user_key ?c = None" "si_protocol_param ?i = dec 7 @ '':'' @ ''pw''"
      "(7 :: nat) < 4294967296" "CHR '':'' \<notin> set ''pw''" "map_of (si_users ?i) (le32 7) = Some ''pw''"
    by (simp_all add: chain_user_def dec_7)
  have ne: "take 1 (hmac key_hashes MD5 ''pw'' m) \<noteq> take 1 (hmac key_hashes MD5 (digest key_hashes MD5 ''pw'') m)" for m
    by (simp add: key_hashes_def numeral_eq_Suc) code_simp
  from auth_chain_udp_named_user [OF plain_rc4 plain_lib_md5 key_hashes_sizes p(1,1) refl p(2-6), of "''ping''" "[]" "[]"]
  show ?thesis using ne by (elim exE conjE) (intro exI [of _ e] exI conjI, assumption, simp)
qed

end
