(* ===== verification/Inet.thy ===== *)
theory Inet
  imports Py_Strings
begin

text \<open>
  Addresses as text: \<^verbatim>\<open>inet_ntop\<close>, \<^verbatim>\<open>inet_pton\<close>, \<^verbatim>\<open>is_ip\<close> and \<^verbatim>\<open>IPNetwork\<close> of
  \<^verbatim>\<open>common.py\<close>, over the functions of Python's \<^verbatim>\<open>socket\<close> module that they and the
  relays call. The module's functions are those of the C library: \<open>inet_aton\<close> takes one to four
  numbers, decimal, octal or hexadecimal; \<open>sock_pton\<close> takes exactly the forms of RFC 4291 and four
  decimal numbers; \<open>sock_ntop\<close> writes the form of RFC 5952. An error of the module
  (\<^verbatim>\<open>socket.error\<close>, an \<^verbatim>\<open>IOError\<close>) is \<^const>\<open>OSError\<close>.
\<close>

subsection \<open>Numbers in a base\<close>

definition hexstr :: "(nat \<Rightarrow> char) \<Rightarrow> nat \<Rightarrow> bytes" where
  "hexstr d n =
     (if n < 16 then [d n]
      else if n < 256 then [d (n div 16), d (n mod 16)]
      else if n < 4096 then [d (n div 256), d (n div 16 mod 16), d (n mod 16)]
      else [d (n div 4096), d (n div 256 mod 16), d (n div 16 mod 16), d (n mod 16)])"

definition hex_upper :: "nat \<Rightarrow> char" where
  "hex_upper n = (if n < 10 then chrb (48 + n) else chrb (55 + n))"

fun digits_val :: "nat \<Rightarrow> nat \<Rightarrow> bytes \<Rightarrow> nat option" where
  "digits_val base a [] = Some a"
| "digits_val base a (c # cs) =
     (case unhex_digit c of
        None \<Rightarrow> None
      | Some d \<Rightarrow> if d < base then digits_val base (base * a + d) cs else None)"

definition base_val :: "nat \<Rightarrow> bytes \<Rightarrow> nat option" where
  "base_val base s = (if s = [] then None else digits_val base 0 s)"

text \<open>\<^verbatim>\<open>int(s, 16)\<close>: white space around, a sign, the prefix \<^verbatim>\<open>0x\<close>.\<close>

definition py_int16 :: "bytes \<Rightarrow> int res" where
  "py_int16 s =
     (let t = py_strip s;
          neg = (t \<noteq> [] \<and> ordb (hd t) = 45);
          body = (if t \<noteq> [] \<and> (ordb (hd t) = 45 \<or> ordb (hd t) = 43) then tl t else t);
          digits = (if match_begin body ''0x'' \<or> match_begin body ''0X'' then drop 2 body else body)
      in case base_val 16 digits of
           None \<Rightarrow> Inl ValueError
         | Some n \<Rightarrow> Inr (if neg then - int n else int n))"

subsection \<open>The socket module\<close>

datatype family = AF_INET | AF_INET6

text \<open>A number of \<open>inet_aton\<close>, by C's prefixes.\<close>

definition c_number :: "bytes \<Rightarrow> nat option" where
  "c_number s =
     (if match_begin s ''0x'' \<or> match_begin s ''0X'' then base_val 16 (drop 2 s)
      else if match_begin s ''0'' then base_val 8 s
      else base_val 10 s)"

fun aton_parts :: "nat list \<Rightarrow> nat option" where
  "aton_parts [a] = (if a < 4294967296 then Some a else None)"
| "aton_parts [a, b] = (if a < 256 \<and> b < 16777216 then Some (a * 16777216 + b) else None)"
| "aton_parts [a, b, c] =
     (if a < 256 \<and> b < 256 \<and> c < 65536 then Some (a * 16777216 + b * 65536 + c) else None)"
| "aton_parts [a, b, c, d] =
     (if a < 256 \<and> b < 256 \<and> c < 256 \<and> d < 256 then Some (a * 16777216 + b * 65536 + c * 256 + d) else None)"
| "aton_parts _ = None"

fun all_some :: "'a option list \<Rightarrow> 'a list option" where
  "all_some [] = Some []"
| "all_some (x # xs) =
     (case x of None \<Rightarrow> None | Some v \<Rightarrow> (case all_some xs of None \<Rightarrow> None | Some vs \<Rightarrow> Some (v # vs)))"

definition inet_aton :: "bytes \<Rightarrow> bytes res" where
  "inet_aton s =
     (case all_some (map c_number (py_split ''.'' s)) of
        None \<Rightarrow> Inl OSError
      | Some ns \<Rightarrow> (case aton_parts ns of None \<Rightarrow> Inl OSError | Some n \<Rightarrow> Inr (be32 n)))"

definition dotted :: "bytes \<Rightarrow> bytes" where
  "dotted b = py_join ''.'' (map (\<lambda>c. dec (ordb c)) b)"

definition inet_ntoa :: "bytes \<Rightarrow> bytes res" where
  "inet_ntoa b = (if length b = 4 then Inr (dotted b) else Inl OSError)"

text \<open>The strict forms. A part of a dotted address has no superfluous zeros.\<close>

definition dec_octet :: "bytes \<Rightarrow> nat option" where
  "dec_octet s =
     (case base_val 10 s of
        None \<Rightarrow> None
      | Some n \<Rightarrow> if n < 256 \<and> s = dec n then Some n else None)"

definition sock_pton4 :: "bytes \<Rightarrow> bytes option" where
  "sock_pton4 s =
     (case all_some (map dec_octet (py_split ''.'' s)) of
        None \<Rightarrow> None
      | Some ns \<Rightarrow> if length ns = 4 then Some (map chrb ns) else None)"

definition hex_group :: "bytes \<Rightarrow> nat option" where
  "hex_group s = (if length s \<le> 4 then base_val 16 s else None)"

text \<open>The groups between colons; the last one of an address may be dotted.\<close>

fun group_words :: "bytes list \<Rightarrow> nat list option" where
  "group_words [] = Some []"
| "group_words [g] =
     (if py_in ''.'' g
      then (case sock_pton4 g of None \<Rightarrow> None | Some b \<Rightarrow> Some [be_val (take 2 b), be_val (drop 2 b)])
      else (case hex_group g of None \<Rightarrow> None | Some n \<Rightarrow> Some [n]))"
| "group_words (g # gs) =
     (case hex_group g of
        None \<Rightarrow> None
      | Some n \<Rightarrow> (case group_words gs of None \<Rightarrow> None | Some ns \<Rightarrow> Some (n # ns)))"

definition side_words :: "bytes \<Rightarrow> nat list option" where
  "side_words s = (if s = [] then Some [] else group_words (py_split '':'' s))"

definition sock_pton6_words :: "bytes \<Rightarrow> nat list option" where
  "sock_pton6_words s =
     (case py_find ''::'' s of
        None \<Rightarrow> (case side_words s of None \<Rightarrow> None | Some ws \<Rightarrow> if length ws = 8 then Some ws else None)
      | Some i \<Rightarrow>
          (case (if py_in ''.'' (take i s) then None else side_words (take i s), side_words (drop (i + 2) s)) of
             (Some l, Some r) \<Rightarrow>
               if length l + length r \<le> 7 then Some (l @ replicate (8 - length l - length r) 0 @ r) else None
           | _ \<Rightarrow> None))"

definition sock_pton :: "family \<Rightarrow> bytes \<Rightarrow> bytes res" where
  "sock_pton af s =
     (case af of
        AF_INET \<Rightarrow> (case sock_pton4 s of None \<Rightarrow> Inl OSError | Some b \<Rightarrow> Inr b)
      | AF_INET6 \<Rightarrow> (case sock_pton6_words s of None \<Rightarrow> Inl OSError | Some ws \<Rightarrow> Inr (concat (map be16 ws))))"

text \<open>The form of RFC 5952: the first of the longest runs of at least two zeros is left out. The
  addresses \<^verbatim>\<open>::ffff:0:0/96\<close> end with four decimal numbers.\<close>

fun words_of :: "bytes \<Rightarrow> nat list" where
  "words_of (a # b # cs) = be_val [a, b] # words_of cs"
| "words_of _ = []"

definition zeros_at :: "nat list \<Rightarrow> nat \<Rightarrow> nat" where
  "zeros_at ws i = length (takeWhile (\<lambda>w. w = 0) (drop i ws))"

fun best_run :: "nat list \<Rightarrow> nat list \<Rightarrow> nat \<times> nat \<Rightarrow> nat \<times> nat" where
  "best_run ws [] best = best"
| "best_run ws (i # is) best =
     best_run ws is (if zeros_at ws i > snd best then (i, zeros_at ws i) else best)"

definition sock_ntop6 :: "nat list \<Rightarrow> bytes" where
  "sock_ntop6 ws =
     (if take 6 ws = [0, 0, 0, 0, 0, 65535] then ''::ffff:'' @ dotted (concat (map be16 (drop 6 ws)))
      else
        (let (i, n) = best_run ws [0..<length ws] (0, 1);
             text = (\<lambda>l. py_join '':'' (map (hexstr hex_digit) l))
         in if n < 2 then text ws else text (take i ws) @ ''::'' @ text (drop (i + n) ws)))"

definition sock_ntop :: "family \<Rightarrow> bytes \<Rightarrow> bytes res" where
  "sock_ntop af b =
     (case af of
        AF_INET \<Rightarrow> if length b = 4 then Inr (dotted b) else Inl ValueError
      | AF_INET6 \<Rightarrow> if length b = 16 then Inr (sock_ntop6 (words_of b)) else Inl ValueError)"

subsection \<open>The functions of common.py\<close>

definition py_rindex :: "char \<Rightarrow> bytes \<Rightarrow> nat res" where
  "py_rindex c s =
     (if c \<in> set s then Inr (length s - 1 - length (takeWhile (\<lambda>x. x \<noteq> c) (rev s))) else Inl ValueError)"

text \<open>\<^verbatim>\<open>('%02X%02X' % (a, b)).lstrip('0')\<close> and \<^verbatim>\<open>re.sub('::+', '::', s, count=1)\<close>\<close>

definition hex2 :: "char \<Rightarrow> bytes" where
  "hex2 c = [hex_upper (ordb c div 16), hex_upper (ordb c mod 16)]"

fun ntop_groups :: "bytes \<Rightarrow> bytes list" where
  "ntop_groups (a # b # cs) = dropWhile (\<lambda>c. ordb c = 48) (hex2 a @ hex2 b) # ntop_groups cs"
| "ntop_groups _ = []"

definition collapse_colons :: "bytes \<Rightarrow> bytes" where
  "collapse_colons s =
     (case py_find ''::'' s of
        None \<Rightarrow> s
      | Some i \<Rightarrow> take i s @ ''::'' @ dropWhile (\<lambda>c. ordb c = 58) (drop i s))"

definition inet_ntop :: "family \<Rightarrow> bytes \<Rightarrow> bytes res" where
  "inet_ntop af b =
     (case af of AF_INET \<Rightarrow> inet_ntoa b | AF_INET6 \<Rightarrow> Inr (collapse_colons (py_join '':'' (ntop_groups b))))"

text \<open>The eight groups are filled from the front up to the first empty group, then from the back up to
  the last empty group. The index counts down past zero, where Python goes on at the end of the
  list.\<close>

fun fill_back :: "bytes list \<Rightarrow> int \<Rightarrow> int list \<Rightarrow> int list res" where
  "fill_back [] k d = Inr d"
| "fill_back (w # ws) k d =
     (if w = [] then Inr d
      else rbind (py_int16 w) (\<lambda>n.
        if k < -8 then Inl IndexError
        else fill_back ws (k - 1) (d[(if k < 0 then nat (k + 8) else nat k) := n])))"

fun fill_front :: "bytes list \<Rightarrow> bytes list \<Rightarrow> nat \<Rightarrow> int list \<Rightarrow> int list res" where
  "fill_front grps [] i d = Inr d"
| "fill_front grps (v # vs) i d =
     (if v = [] then fill_back (rev grps) 7 d
      else rbind (py_int16 v) (\<lambda>n. if i < 8 then fill_front grps vs (Suc i) (d[i := n]) else Inl IndexError))"

definition groups_bytes :: "int list \<Rightarrow> bytes res" where
  "groups_bytes d =
     (if list_all (\<lambda>n. 0 \<le> n \<and> n < 65536) d then Inr (concat (map (\<lambda>n. be16 (nat n)) d)) else Inl ValueError)"

text \<open>The first argument of \<open>inet_pton6\<close> is the depth of the stack that is left: the dotted form
  calls the function again.\<close>

fun inet_pton6 :: "nat \<Rightarrow> bytes \<Rightarrow> bytes res" where
  "inet_pton6 0 addr = Inl RuntimeError"
| "inet_pton6 (Suc depth) addr =
     (if py_in ''.'' addr
      then rbind (py_rindex CHR '':'' addr) (\<lambda>i.
             rbind (inet_aton (drop (i + 1) addr)) (\<lambda>v4.
               inet_pton6 depth (take (i + 1) addr @
                 hex2 (v4 ! 0) @ hex2 (v4 ! 1) @ '':'' @ hex2 (v4 ! 2) @ hex2 (v4 ! 3))))
      else
        (let grps = py_split '':'' addr
         in rbind (fill_front grps grps 0 (replicate 8 0)) groups_bytes))"

definition stack_depth :: nat where
  "stack_depth = 1000"

definition inet_pton :: "family \<Rightarrow> bytes \<Rightarrow> bytes res" where
  "inet_pton af addr = (case af of AF_INET \<Rightarrow> inet_aton addr | AF_INET6 \<Rightarrow> inet_pton6 stack_depth addr)"

text \<open>\<^verbatim>\<open>except (TypeError, ValueError, OSError, IOError)\<close>\<close>

definition addr_error :: "exc \<Rightarrow> bool" where
  "addr_error e \<longleftrightarrow> e = TypeError \<or> e = ValueError \<or> e = OSError \<or> e = UnicodeDecodeError"

definition is_ip :: "bytes \<Rightarrow> family option res" where
  "is_ip address =
     (let try_family = (\<lambda>af next. case inet_pton af address of
            Inr _ \<Rightarrow> Inr (Some af)
          | Inl e \<Rightarrow> if addr_error e then next else Inl e)
      in try_family AF_INET (try_family AF_INET6 (Inr None)))"

subsection \<open>IPNetwork\<close>

record ip_network =
  network_list_v4 :: "(nat \<times> nat) list"
  network_list_v6 :: "(nat \<times> nat) list"

definition addr_length :: "family \<Rightarrow> nat" where
  "addr_length f = (case f of AF_INET \<Rightarrow> 32 | AF_INET6 \<Rightarrow> 128)"

definition addr_value :: "family \<Rightarrow> bytes \<Rightarrow> nat res" where
  "addr_value f addr = rbind (inet_pton f addr) (\<lambda>b. Inr (be_val b))"

text \<open>\<^verbatim>\<open>while (ip & 1) == 0 and ip is not 0\<close>\<close>

function strip_zeros :: "nat \<Rightarrow> nat \<Rightarrow> nat \<times> nat" where
  "strip_zeros ip prefix_size =
     (if ip mod 2 = 0 \<and> ip \<noteq> 0 then strip_zeros (ip div 2) (prefix_size + 1) else (ip, prefix_size))"
  by pat_completeness auto
termination
  by (relation "measure fst") auto

declare strip_zeros.simps [simp del]

definition not_cidr :: exc where
  "not_cidr = Exc ''Not a valid CIDR notation''"

definition add_network :: "bytes \<Rightarrow> ip_network \<Rightarrow> ip_network res" where
  "add_network addr net =
     (if addr = [] then Inr net
      else
        (let block = py_split ''/'' addr
         in rbind (is_ip (block ! 0)) (\<lambda>family.
              case family of
                None \<Rightarrow> Inl not_cidr
              | Some f \<Rightarrow>
                  rbind (addr_value f (block ! 0)) (\<lambda>ip.
                    rbind
                      (if length block = 1 then Inr (strip_zeros ip 0)
                       else if block ! 1 \<noteq> [] \<and> list_all is_digit (block ! 1) \<and> undec 0 (block ! 1) \<le> addr_length f
                         then (let prefix_size = addr_length f - undec 0 (block ! 1)
                               in Inr (drop_bit prefix_size ip, prefix_size))
                       else Inl not_cidr)
                      (\<lambda>n_ps. Inr (case f of
                           AF_INET \<Rightarrow> net\<lparr>network_list_v4 := network_list_v4 net @ [n_ps]\<rparr>
                         | AF_INET6 \<Rightarrow> net\<lparr>network_list_v6 := network_list_v6 net @ [n_ps]\<rparr>))))))"

fun add_networks :: "bytes list \<Rightarrow> ip_network \<Rightarrow> ip_network res" where
  "add_networks [] net = Inr net"
| "add_networks (a # as) net = rbind (add_network a net) (add_networks as)"

definition ip_network_new :: "bytes \<Rightarrow> ip_network res" where
  "ip_network_new addrs =
     add_networks (py_split '','' addrs) \<lparr>network_list_v4 = [], network_list_v6 = []\<rparr>"

definition in_network :: "bytes \<Rightarrow> ip_network \<Rightarrow> bool res" where
  "in_network addr net =
     rbind (is_ip addr) (\<lambda>family.
       case family of
         None \<Rightarrow> Inr False
       | Some f \<Rightarrow>
           rbind (addr_value f addr) (\<lambda>ip.
             Inr (list_ex (\<lambda>(n, ps). n = drop_bit ps ip)
               (case f of AF_INET \<Rightarrow> network_list_v4 net | AF_INET6 \<Rightarrow> network_list_v6 net))))"


subsection \<open>Texts of numbers\<close>

text \<open>A group of hexadecimal digits: it has no separator, no sign and no space.\<close>

definition hexish :: "bytes \<Rightarrow> bool" where
  "hexish s \<longleftrightarrow> s \<noteq> [] \<and> (\<forall>c \<in> set s. unhex_digit c \<noteq> None)"

definition hex_digits :: "(nat \<Rightarrow> char) \<Rightarrow> bool" where
  "hex_digits d \<longleftrightarrow> (\<forall>n < 16. unhex_digit (d n) = Some n)"

lemma hex_digits_lower [simp]: "hex_digits hex_digit"
  by (simp add: hex_digits_def)

lemma hex_digits_upper [simp]: "hex_digits hex_upper"
  by (auto simp: hex_digits_def hex_upper_def unhex_digit_def)

lemma unhex_codes:
  "unhex_digit c = Some n \<Longrightarrow> 48 \<le> ordb c \<and> ordb c \<noteq> 58 \<and> ordb c \<noteq> 88 \<and> ordb c \<noteq> 120 \<and> ordb c \<le> 102"
  by (auto simp: unhex_digit_def Let_def split: if_splits)

lemma char_by_code: "c = chrb n \<longleftrightarrow> ordb c = n" if "n < 256"
  using that ordb_chrb [of n] chrb_ordb [of c] by (metis mod_less)

lemma hexish_chars:
  assumes "hexish s" and "c \<in> set s"
  shows "\<not> is_space c" "ordb c \<noteq> 43" "ordb c \<noteq> 45" "ordb c \<noteq> 46" "ordb c \<noteq> 47" "ordb c \<noteq> 58" "ordb c \<noteq> 88" "ordb c \<noteq> 120"
proof -
  obtain n where "unhex_digit c = Some n" using assms by (auto simp: hexish_def)
  then show "\<not> is_space c" "ordb c \<noteq> 43" "ordb c \<noteq> 45" "ordb c \<noteq> 46" "ordb c \<noteq> 47" "ordb c \<noteq> 58" "ordb c \<noteq> 88" "ordb c \<noteq> 120"
    using unhex_codes [of c n] by (auto simp: is_space_def)
qed

lemma hexish_seps: "hexish s \<Longrightarrow> CHR '':'' \<notin> set s \<and> CHR ''.'' \<notin> set s \<and> CHR ''/'' \<notin> set s"
  using hexish_chars(4,5,6) [of s] by fastforce

lemma hexish_not_Nil: "hexish s \<Longrightarrow> s \<noteq> []"
  by (simp add: hexish_def)

lemma hexish_strip: "hexish s \<Longrightarrow> py_strip s = s"
proof -
  assume h: "hexish s"
  have "\<not> is_space (hd s)" "\<not> is_space (last s)"
    using hexish_chars(1) [OF h] hexish_not_Nil [OF h] by simp_all
  then have "dropWhile is_space s = s" "dropWhile is_space (rev s) = rev s"
    by (simp_all add: dropWhile_eq_self_iff hd_rev)
  then show ?thesis by (simp add: py_strip_def)
qed

lemma py_int16_hexish:
  assumes h: "hexish s" and "base_val 16 s = Some n"
  shows "py_int16 s = Inr (int n)"
proof -
  obtain c t where s: "s = c # t" using hexish_not_Nil [OF h] by (cases s) auto
  have "ordb c \<noteq> 43" "ordb c \<noteq> 45" using hexish_chars(2,3) [OF h, of c] s by auto
  moreover have "\<not> match_begin t ''x''" "\<not> match_begin t ''X''"
    using hexish_chars(7,8) [OF h, of "hd t"] s by (cases t; auto)+
  ultimately show ?thesis using assms(2) hexish_strip [OF h]
    by (auto simp: py_int16_def Let_def s)
qed

lemma hexstr_spec:
  assumes d: "hex_digits d" and n: "n < 65536"
  shows "hexish (hexstr d n)" "length (hexstr d n) \<le> 4" "base_val 16 (hexstr d n) = Some n"
proof -
  have u: "unhex_digit (d m) = Some m" if "m < 16" for m using d that by (simp add: hex_digits_def)
  have lt: "n div 4096 < 16" "n < 4096 \<Longrightarrow> n div 256 < 16" "n < 256 \<Longrightarrow> n div 16 < 16"
    using n by (simp_all add: less_mult_imp_div_less)
  show "hexish (hexstr d n)" using lt by (auto simp: hexish_def hexstr_def u)
  show "length (hexstr d n) \<le> 4" by (simp add: hexstr_def)
  have a: "16 * (n div 16) + n mod 16 = n" "16 * (n div 256) + n div 16 mod 16 = n div 16"
    "16 * (n div 4096) + n div 256 mod 16 = n div 256"
    using mult_div_mod_eq [of 16 n] mult_div_mod_eq [of 16 "n div 16"] mult_div_mod_eq [of 16 "n div 256"]
    by (simp_all flip: div_mult2_eq)
  show "base_val 16 (hexstr d n) = Some n"
    using lt by (auto simp: base_val_def hexstr_def u a)
qed

lemma base_val_dec: "list_all is_digit s \<Longrightarrow> s \<noteq> [] \<Longrightarrow> base_val 10 s = Some (undec 0 s)"
proof -
  have "list_all is_digit s \<Longrightarrow> digits_val 10 a s = Some (undec a s)" for a
    by (induction s arbitrary: a) (auto simp: is_digit_def unhex_digit_def)
  then show "list_all is_digit s \<Longrightarrow> s \<noteq> [] \<Longrightarrow> base_val 10 s = Some (undec 0 s)"
    by (simp add: base_val_def)
qed

lemma base_val_dec_dec: "base_val 10 (dec n) = Some n"
  using dec_digits [of _ n] by (subst base_val_dec) (auto simp: list_all_iff)

lemma dec_no_zero: "0 < n \<Longrightarrow> ordb (hd (dec n)) \<noteq> 48"
proof (induction n rule: dec.induct)
  case (1 n)
  show ?case
  proof (cases "n < 10")
    case True
    then show ?thesis using 1(2) by (simp add: dec.simps [of n])
  next
    case False
    then show ?thesis using 1 by (simp add: dec.simps [of n])
  qed
qed

lemma c_number_dec: "c_number (dec n) = Some n"
proof (cases "n = 0")
  case True
  then show ?thesis by (simp add: c_number_def dec.simps [of 0] base_val_def unhex_digit_def)
next
  case False
  obtain c t where d: "dec n = c # t" using dec_not_Nil [of n] by (cases "dec n") auto
  have "ordb c \<noteq> 48" using dec_no_zero [of n] False d by simp
  then show ?thesis using base_val_dec_dec [of n] by (auto simp: c_number_def d)
qed


subsection \<open>Dotted addresses\<close>

lemma all_some_map: "(\<And>x. x \<in> set xs \<Longrightarrow> f (g x) = Some (h x)) \<Longrightarrow> all_some (map (\<lambda>x. f (g x)) xs) = Some (map h xs)"
  by (induction xs) auto

lemma dec_seps: "CHR ''.'' \<notin> set (dec n)" "CHR '':'' \<notin> set (dec n)"
  using dec_digits [of _ n] by (fastforce simp: is_digit_def)+

lemma split_dotted: "b \<noteq> [] \<Longrightarrow> py_split ''.'' (dotted b) = map (\<lambda>c. dec (ordb c)) b"
  unfolding dotted_def by (rule py_split_join) (auto simp: dec_seps)

lemma sock_pton4_dotted:
  assumes "length b = 4"
  shows "sock_pton4 (dotted b) = Some b"
proof -
  have "dec_octet (dec (ordb c)) = Some (ordb c)" for c by (simp add: dec_octet_def base_val_dec_dec)
  then have "all_some (map dec_octet (map (\<lambda>c. dec (ordb c)) b)) = Some (map ordb b)"
    using all_some_map [of b dec_octet "\<lambda>c. dec (ordb c)" ordb] by (simp add: comp_def)
  moreover have "b \<noteq> []" using assms by auto
  ultimately show ?thesis using assms by (simp add: sock_pton4_def split_dotted comp_def)
qed

lemma length_4: "length b = 4 \<longleftrightarrow> (\<exists>w x y z. b = [w, x, y, z])"
  by (cases b; cases "tl b"; cases "tl (tl b)"; cases "tl (tl (tl b))") auto

lemma be32_be_val: "length b = 4 \<Longrightarrow> be32 (be_val b) = b"
proof -
  assume b: "length b = 4"
  have "rev (le32 (le_val (rev b))) = b" using le_val_4_bytes [of "rev b"] b by simp
  then show ?thesis by (simp add: be32_def le32_def be_val_def)
qed

lemma inet_aton_dotted:
  assumes "length b = 4"
  shows "inet_aton (dotted b) = Inr b"
proof -
  obtain w x y z where b: "b = [w, x, y, z]" using assms unfolding length_4 by (elim exE) (rule that)
  have "all_some (map c_number (map (\<lambda>c. dec (ordb c)) b)) = Some (map ordb b)"
    using all_some_map [of b c_number "\<lambda>c. dec (ordb c)" ordb] c_number_dec by (simp add: comp_def)
  then have "all_some (map c_number (py_split ''.'' (dotted b))) = Some [ordb w, ordb x, ordb y, ordb z]"
    using split_dotted [of b] by (simp add: b)
  moreover have "be32 (ordb w * 16777216 + ordb x * 65536 + ordb y * 256 + ordb z) = b"
  proof -
    have "be_val b = ordb w * 16777216 + ordb x * 65536 + ordb y * 256 + ordb z"
      unfolding b be_val_def rev.simps append.simps le_val.simps by (simp add: distrib_left)
    then show ?thesis using be32_be_val [OF assms] by (simp only:)
  qed
  ultimately show ?thesis by (simp only: inet_aton_def option.case aton_parts.simps ordb_less simp_thms if_True)
qed

text \<open>The characters of a dotted address: digits and full stops, and a full stop there is.\<close>

lemma dotted_chars:
  assumes "length b = 4"
  shows "CHR '':'' \<notin> set (dotted b)" "py_in ''.'' (dotted b)" "dotted b \<noteq> []"
proof -
  obtain w x y z where b: "b = [w, x, y, z]" using assms unfolding length_4 by (elim exE) (rule that)
  have d: "dotted b = dec (ordb w) @ ''.'' @ dec (ordb x) @ ''.'' @ dec (ordb y) @ ''.'' @ dec (ordb z)"
    by (simp add: dotted_def b)
  show "CHR '':'' \<notin> set (dotted b)" "dotted b \<noteq> []" by (simp_all add: d dec_seps)
  show "py_in ''.'' (dotted b)"
    using py_find_first [of "CHR ''.''" "dec (ordb w)" "[]"] by (simp add: d py_in_def dec_seps)
qed

subsection \<open>Groups between colons\<close>

definition plain_group :: "bytes \<Rightarrow> bool" where
  "plain_group g \<longleftrightarrow> g \<noteq> [] \<and> CHR '':'' \<notin> set g"

lemma hexish_plain: "hexish s \<Longrightarrow> plain_group s"
  using hexish_seps by (simp add: plain_group_def hexish_def)

lemma join_not_Nil: "list_all plain_group gs \<Longrightarrow> py_join '':'' gs = [] \<longleftrightarrow> gs = []"
  by (cases gs; cases "tl gs") (auto simp: plain_group_def)

lemma join_first: "list_all plain_group gs \<Longrightarrow> gs \<noteq> [] \<Longrightarrow> hd (py_join '':'' gs) \<noteq> CHR '':''"
proof (cases gs)
  case (Cons x xs)
  moreover assume "list_all plain_group gs"
  ultimately have "x \<noteq> []" "CHR '':'' \<notin> set x" by (auto simp: plain_group_def)
  then have "x \<noteq> []" "hd x \<noteq> CHR '':''" using hd_in_set [of x] by metis+
  then show ?thesis using Cons by (cases xs) simp_all
qed simp

lemma find_colons_skip: "CHR '':'' \<notin> set g \<Longrightarrow> py_find ''::'' (g @ t) = map_option (\<lambda>i. i + length g) (py_find ''::'' t)"
  by (rule py_find_skip)

lemma find_one_colon: "t = [] \<or> hd t \<noteq> CHR '':'' \<Longrightarrow> py_find ''::'' (CHR '':'' # t) = map_option Suc (py_find ''::'' t)"
  by (cases t) auto

text \<open>The first pair of colons comes after the groups that are not empty.\<close>

lemma find_colons_both:
  "list_all plain_group gs \<Longrightarrow> py_find ''::'' (py_join '':'' gs @ ''::'' @ t) = Some (length (py_join '':'' gs))
     \<and> py_find ''::'' (py_join '':'' gs) = None \<and> py_find ''::'' (py_join '':'' gs @ '':'') = None"
proof (induction gs)
  case (Cons x gs)
  from Cons.prems have x: "CHR '':'' \<notin> set x" and gs: "list_all plain_group gs" by (simp add: plain_group_def, simp)
  show ?case
  proof (cases "gs = []")
    case True
    then show ?thesis
      using py_find_first [OF x, of "'':''" t] py_find_fresh [OF x, of "'':''"] find_colons_skip [OF x, of "'':''"] by simp
  next
    case False
    have h: "hd (py_join '':'' gs) \<noteq> CHR '':''" "py_join '':'' gs \<noteq> []"
      using join_first [OF gs False] join_not_Nil [OF gs] False by simp_all
    have j: "py_join '':'' (x # gs) = x @ CHR '':'' # py_join '':'' gs" using py_join_Cons [OF False] by simp
    have "py_find ''::'' (CHR '':'' # (py_join '':'' gs @ ''::'' @ t)) = Some (Suc (length (py_join '':'' gs)))"
      using find_one_colon [of "py_join '':'' gs @ ''::'' @ t"] h Cons.IH [OF gs] by simp
    moreover have "py_find ''::'' (CHR '':'' # py_join '':'' gs) = None"
      using find_one_colon [of "py_join '':'' gs"] h Cons.IH [OF gs] by simp
    moreover have "py_find ''::'' (CHR '':'' # (py_join '':'' gs @ '':'')) = None"
      using find_one_colon [of "py_join '':'' gs @ '':''"] h Cons.IH [OF gs] by simp
    ultimately show ?thesis
      using find_colons_skip [OF x, of "CHR '':'' # (py_join '':'' gs @ ''::'' @ t)"]
        find_colons_skip [OF x, of "CHR '':'' # (py_join '':'' gs @ '':'')"] find_colons_skip [OF x, of "CHR '':'' # py_join '':'' gs"] by (simp add: j)
  qed
qed simp

lemmas find_colons = find_colons_both [THEN conjunct1] find_colons_both [THEN conjunct2, THEN conjunct1]
  find_colons_both [THEN conjunct2, THEN conjunct2]

text \<open>Two sides with a pair of colons between them, as groups.\<close>

definition side :: "bytes list \<Rightarrow> bytes list" where
  "side gs = (if gs = [] then [[]] else gs)"

lemma join_append: "xs \<noteq> [] \<Longrightarrow> ys \<noteq> [] \<Longrightarrow> py_join sep (xs @ ys) = py_join sep xs @ sep @ py_join sep ys"
proof (induction xs)
  case (Cons x xs)
  then show ?case by (cases "xs = []") (simp_all add: py_join_Cons)
qed simp

lemma join_sides: "py_join '':'' l @ ''::'' @ py_join '':'' r = py_join '':'' (side l @ [[]] @ side r)"
proof -
  have "py_join '':'' (side x) = py_join '':'' x" for x by (simp add: side_def)
  then show ?thesis
    using join_append [of "side l" "[[]] @ side r" "'':''"] join_append [of "[[]]" "side r" "'':''"]
    by (simp add: side_def)
qed

lemma split_groups: "gs \<noteq> [] \<Longrightarrow> \<forall>g \<in> set gs. CHR '':'' \<notin> set g \<Longrightarrow> py_split '':'' (py_join '':'' gs) = gs"
  by (rule py_split_join)


subsection \<open>Words and bytes\<close>

definition words_ok :: "nat list \<Rightarrow> bool" where
  "words_ok ws \<longleftrightarrow> (\<forall>w \<in> set ws. w < 65536)"

lemma words_ok_append [simp]: "words_ok (a @ b) \<longleftrightarrow> words_ok a \<and> words_ok b"
  by (auto simp: words_ok_def)

lemma be16_two: "\<exists>a b. be16 n = [a, b]"
  by (simp add: be16_def)

lemma words_of_be16: "words_ok ws \<Longrightarrow> words_of (concat (map be16 ws)) = ws"
proof (induction ws)
  case (Cons w ws)
  obtain a b where "be16 w = [a, b]" using be16_two by blast
  moreover have "be_val (be16 w) = w" "words_ok ws" using Cons.prems by (simp_all add: words_ok_def)
  ultimately show ?case using Cons.IH by simp
qed simp

lemma be16_be_val: "length s = 2 \<Longrightarrow> be16 (be_val s) = s"
proof -
  assume s: "length s = 2"
  then have "be_val (be16 (be_val s)) = be_val s" using be_val_2 [OF s] by simp
  then have "rev (be16 (be_val s)) = rev s" using s by (intro le_val_inject) (simp_all add: be_val_def)
  then show ?thesis by simp
qed

lemma words_of_spec:
  "even (length b) \<Longrightarrow> words_ok (words_of b) \<and> length (words_of b) = length b div 2 \<and> concat (map be16 (words_of b)) = b"
proof (induction b rule: words_of.induct)
  case (1 x y b)
  then show ?case using be_val_2 [of "[x, y]"] be16_be_val [of "[x, y]"] by (simp add: words_ok_def)
qed (simp_all add: words_ok_def)

subsection \<open>The text of RFC 5952 is read back\<close>

lemma zeros_at_spec: "take (zeros_at ws i) (drop i ws) = replicate (zeros_at ws i) 0"
proof -
  have "takeWhile (\<lambda>w. w = 0) l = replicate (length (takeWhile (\<lambda>w. w = 0) l)) (0::nat)" for l
    by (induction l) auto
  then show ?thesis unfolding zeros_at_def by (metis takeWhile_eq_take)
qed

lemma best_run_spec:
  "best_run ws is best = (i, n) \<Longrightarrow> (i, n) = best \<or> (n = zeros_at ws i \<and> snd best < n)"
proof (induction "is" arbitrary: best)
  case (Cons j "is")
  let ?b = "if zeros_at ws j > snd best then (j, zeros_at ws j) else best"
  have "best_run ws is ?b = (i, n)" using Cons.prems by simp
  from Cons.IH [OF this] show ?case by (auto split: if_splits)
qed simp

definition hex_text :: "nat list \<Rightarrow> bytes" where
  "hex_text l = py_join '':'' (map (hexstr hex_digit) l)"

text \<open>The three shapes of the text.\<close>

lemma sock_ntop6_shape:
  assumes "length ws = 8"
  obtains (mapped) "ws = [0, 0, 0, 0, 0, 65535] @ drop 6 ws" "sock_ntop6 ws = ''::ffff:'' @ dotted (concat (map be16 (drop 6 ws)))"
  | (full) "sock_ntop6 ws = hex_text ws"
  | (short) l n r where "ws = l @ replicate n 0 @ r" "2 \<le> n" "sock_ntop6 ws = hex_text l @ ''::'' @ hex_text r"
proof (cases "take 6 ws = [0, 0, 0, 0, 0, 65535]")
  case True
  then show ?thesis using mapped append_take_drop_id [of 6 ws] by (simp add: sock_ntop6_def)
next
  case False
  obtain i n where b: "best_run ws [0..<length ws] (0, 1) = (i, n)" using prod.exhaust by blast
  then have t: "sock_ntop6 ws = (if n < 2 then hex_text ws else hex_text (take i ws) @ ''::'' @ hex_text (drop (i + n) ws))"
    unfolding sock_ntop6_def hex_text_def if_not_P [OF False] Let_def by (simp only: b case_prod_conv)
  show ?thesis
  proof (cases "n < 2")
    case True
    then show ?thesis using t full by simp
  next
    case False
    then have "n = zeros_at ws i" using best_run_spec [OF b] by auto
    then have "take n (drop i ws) = replicate n 0" using zeros_at_spec by simp
    then have "ws = take i ws @ replicate n 0 @ drop (i + n) ws"
      by (metis append_take_drop_id drop_drop add.commute)
    then show ?thesis using t False short by simp
  qed
qed

lemma hexstr_group: "w < 65536 \<Longrightarrow> hex_group (hexstr hex_digit w) = Some w"
  using hexstr_spec [of hex_digit w] by (simp add: hex_group_def)

lemma hex_groups_plain: "words_ok l \<Longrightarrow> list_all plain_group (map (hexstr hex_digit) l)"
  using hexstr_spec(1) [of hex_digit] hexish_plain by (auto simp: list_all_iff words_ok_def)

lemma hexish_no_dot: "hexish s \<Longrightarrow> \<not> py_in ''.'' s"
  using hexish_seps [of s] py_find_fresh [of "CHR ''.''" s "[]"] by (simp add: py_in_def)

lemma group_words_hex: "words_ok l \<Longrightarrow> group_words (map (hexstr hex_digit) l) = Some l"
proof (induction l rule: induct_list012)
  case (2 w)
  then show ?case
    using hexstr_group [of w] hexish_no_dot [OF hexstr_spec(1)] by (simp add: words_ok_def)
next
  case (3 w v l)
  then show ?case using hexstr_group [of w] by (simp add: words_ok_def)
qed simp

lemma hex_text_Nil: "words_ok l \<Longrightarrow> hex_text l = [] \<longleftrightarrow> l = []"
  using join_not_Nil [OF hex_groups_plain] by (simp add: hex_text_def)

lemma plain_no_colon: "list_all plain_group gs \<Longrightarrow> \<forall>g \<in> set gs. CHR '':'' \<notin> set g"
  by (auto simp: list_all_iff plain_group_def)

lemma side_words_hex: "words_ok l \<Longrightarrow> side_words (hex_text l) = Some l"
proof -
  assume l: "words_ok l"
  have "py_split '':'' (hex_text l) = map (hexstr hex_digit) l" if "l \<noteq> []"
    unfolding hex_text_def using that plain_no_colon [OF hex_groups_plain [OF l]] by (intro split_groups) auto
  then show ?thesis
    using hex_text_Nil [OF l] group_words_hex [OF l] by (auto simp: side_words_def)
qed

lemma hex_text_no_dot: "words_ok l \<Longrightarrow> CHR ''.'' \<notin> set (hex_text l)"
proof (induction l)
  case (Cons w l)
  have "CHR ''.'' \<notin> set (hexstr hex_digit w)"
    using hexish_seps [OF hexstr_spec(1), of hex_digit w] Cons.prems by (simp add: words_ok_def)
  then show ?case using Cons by (cases "l = []") (auto simp: hex_text_def words_ok_def py_join_Cons)
qed (simp add: hex_text_def)

lemma no_dot_in: "CHR ''.'' \<notin> set s \<Longrightarrow> \<not> py_in ''.'' s"
  using py_find_fresh [of "CHR ''.''" s "[]"] by (simp add: py_in_def)

lemma sock_pton6_ntop6:
  assumes ok: "words_ok ws" and len: "length ws = 8"
  shows "sock_pton6_words (sock_ntop6 ws) = Some ws"
  using len
proof (cases rule: sock_ntop6_shape)
  case mapped
  let ?b = "concat (map be16 (drop 6 ws))"
  have "length (drop 6 ws) = 2" using len by simp
  then obtain x y where xy: "drop 6 ws = [x, y]" by (cases "drop 6 ws"; cases "tl (drop 6 ws)") auto
  have xo: "x < 65536" "y < 65536" using ok mapped(1) xy by (auto simp: words_ok_def dest!: in_set_dropD)
  have b: "length ?b = 4" "take 2 ?b = be16 x" "drop 2 ?b = be16 y" by (simp_all add: xy)
  note d = dotted_chars [OF b(1)]
  have "py_split '':'' (''ffff'' @ '':'' @ dotted ?b) = [''ffff'', dotted ?b]"
    using split_groups [of "[''ffff'', dotted ?b]"] d(1) by simp
  moreover have "hex_group ''ffff'' = Some 65535" by (simp add: hex_group_def base_val_def unhex_digit_def)
  ultimately have s: "side_words (''ffff:'' @ dotted ?b) = Some [65535, x, y]"
    using d(2) sock_pton4_dotted [OF b(1)] b xo by (simp add: side_words_def)
  define t where "t = dotted ?b"
  have z: "replicate 5 (0::nat) = [0, 0, 0, 0, 0]" by (simp add: numeral_eq_Suc)
  have e: "side_words [] = Some []" "\<not> py_in ''.'' []" by (simp_all add: side_words_def py_in_def)
  have "sock_pton6_words (''::ffff:'' @ t) = Some ([0, 0, 0, 0, 0] @ [65535, x, y])"
    using s by (simp add: sock_pton6_words_def e t_def [symmetric] z)
  then show ?thesis using mapped xy by (simp add: t_def)
next
  case full
  show ?thesis
    using full find_colons(2) [OF hex_groups_plain [OF ok]] side_words_hex [OF ok] len
    by (simp add: sock_pton6_words_def hex_text_def)
next
  case (short l n r)
  have o: "words_ok l" "words_ok r" using ok short(1) by simp_all
  have f: "py_find ''::'' (hex_text l @ ''::'' @ hex_text r) = Some (length (hex_text l))"
    unfolding hex_text_def using find_colons(1) [OF hex_groups_plain [OF o(1)]] by simp
  have n: "n = 8 - length l - length r" "length l + length r \<le> 7" using short(1,2) len by simp_all
  show ?thesis
    unfolding short(3) sock_pton6_words_def f
    using side_words_hex [OF o(1)] side_words_hex [OF o(2)] no_dot_in [OF hex_text_no_dot [OF o(1)]] n short(1)
    by simp
qed


subsection \<open>The groups of common.inet_pton\<close>

text \<open>A group stands for a number: the text of a number that is not empty.\<close>

definition stands :: "bytes \<Rightarrow> nat \<Rightarrow> bool" where
  "stands g w \<longleftrightarrow> hexish g \<and> base_val 16 g = Some w"

lemma stands_int: "stands g w \<Longrightarrow> py_int16 g = Inr (int w) \<and> g \<noteq> []"
  using py_int16_hexish hexish_not_Nil by (simp add: stands_def)

lemma stands_hexstr: "hex_digits d \<Longrightarrow> w < 65536 \<Longrightarrow> stands (hexstr d w) w"
  using hexstr_spec by (simp add: stands_def)

lemma fill_front_groups:
  "list_all2 stands gs ws \<Longrightarrow> i + length ws \<le> 8 \<Longrightarrow> length d = 8 \<Longrightarrow>
   fill_front G (gs @ rest) i d = fill_front G rest (i + length ws) (take i d @ map int ws @ drop (i + length ws) d)"
proof (induction gs ws arbitrary: i d rule: list_all2_induct)
  case (Cons g gs w ws)
  then have "py_int16 g = Inr (int w)" "g \<noteq> []" using stands_int by blast+
  moreover have "drop (Suc i) (d[i := int w]) = drop (Suc i) d" "take (Suc i) (d[i := int w]) = take i d @ [int w]"
    using Cons.prems by (simp_all add: take_Suc_conv_app_nth)
  moreover have "drop (Suc i + length ws) (d[i := int w]) = drop (Suc i + length ws) d" by simp
  ultimately show ?case using Cons.IH [of "Suc i" "d[i := int w]"] Cons.prems by simp
qed simp

lemma fill_back_groups:
  "list_all2 stands gs ws \<Longrightarrow> length ws \<le> k \<Longrightarrow> k \<le> length d \<Longrightarrow>
   fill_back (gs @ [] # rest) (int k - 1) d = Inr (take (k - length ws) d @ map int (rev ws) @ drop k d)"
proof (induction gs ws arbitrary: k d rule: list_all2_induct)
  case (Cons g gs w ws)
  then have g: "py_int16 g = Inr (int w)" "g \<noteq> []" using stands_int by blast+
  obtain j where k: "k = Suc j" using Cons.prems(1) by (cases k) auto
  have u: "take (j - length ws) (d[j := int w]) = take (j - length ws) d"
    "drop j (d[j := int w]) = int w # drop k d"
    using Cons.prems k by (simp_all add: Cons_nth_drop_Suc [symmetric])
  show ?case using g Cons.IH [of j "d[j := int w]"] Cons.prems u by (simp add: k)
qed simp

text \<open>A list of groups is read as its first groups, zeros, and its last groups.\<close>

lemma fill_gap:
  assumes G: "G = gl @ [] # x" "G = y @ [] # gr" and "list_all2 stands gl l" and "list_all2 stands gr r"
    and "length l \<le> 8" and "length r \<le> 8"
  shows "fill_front G G 0 (replicate 8 0) = Inr (take (8 - length r) (map int l @ replicate (8 - length l) 0) @ map int r)"
proof -
  have "fill_front G (gl @ [] # x) 0 (replicate 8 0) = fill_back (rev G) 7 (map int l @ replicate (8 - length l) 0)"
    using fill_front_groups [OF assms(3), of 0 "replicate 8 0" G "[] # x"] assms(5) by simp
  moreover have "list_all2 stands (rev gr) (rev r)" using assms(4) by simp
  then have "fill_back (rev gr @ [] # rev y) (int 8 - 1) (map int l @ replicate (8 - length l) 0)
      = Inr (take (8 - length r) (map int l @ replicate (8 - length l) 0) @ map int r)"
    using fill_back_groups [of "rev gr" "rev r" 8 "map int l @ replicate (8 - length l) 0" "rev y"] assms(5,6) by simp
  moreover have "rev G = rev gr @ [] # rev y" unfolding G(2) by simp
  moreover have "G = gl @ [] # x" by fact
  ultimately show ?thesis by (simp only: of_nat_numeral) simp
qed

lemma fill_full: "list_all2 stands G ws \<Longrightarrow> length ws = 8 \<Longrightarrow> fill_front G G 0 (replicate 8 0) = Inr (map int ws)"
  using fill_front_groups [of G ws 0 "replicate 8 0" G "[]"] by simp

lemma groups_bytes_words: "words_ok ws \<Longrightarrow> groups_bytes (map int ws) = Inr (concat (map be16 ws))"
  by (auto simp: groups_bytes_def list_all_iff words_ok_def comp_def)

lemma inet_pton6_groups:
  assumes "G \<noteq> []" and "\<forall>g \<in> set G. CHR '':'' \<notin> set g \<and> CHR ''.'' \<notin> set g"
  shows "inet_pton6 (Suc n) (py_join '':'' G) = rbind (fill_front G G 0 (replicate 8 0)) groups_bytes"
proof -
  have "CHR ''.'' \<notin> set (py_join '':'' gs)" if "\<forall>g \<in> set gs. CHR ''.'' \<notin> set g" for gs
    using that
  proof (induction gs)
    case (Cons g gs)
    then show ?case by (cases "gs = []") (simp_all add: py_join_Cons)
  qed simp
  then have "\<not> py_in ''.'' (py_join '':'' G)" using assms no_dot_in by blast
  moreover have "py_split '':'' (py_join '':'' G) = G" using assms by (intro split_groups) auto
  ultimately show ?thesis by simp
qed

lemma all2_stands_hex: "hex_digits d \<Longrightarrow> words_ok l \<Longrightarrow> list_all2 stands (map (hexstr d) l) l"
  by (auto simp: list_all2_conv_all_nth words_ok_def intro: stands_hexstr)

lemma hexstr_clean: "hex_digits d \<Longrightarrow> words_ok l \<Longrightarrow> \<forall>g \<in> set (map (hexstr d) l). CHR '':'' \<notin> set g \<and> CHR ''.'' \<notin> set g"
  using hexish_seps [OF hexstr_spec(1)] by (auto simp: words_ok_def)


lemma stands_hex2: "stands (hex2 a @ hex2 b) (be_val [a, b])"
proof -
  have u: "unhex_digit (hex_upper n) = Some n" if "n < 16" for n
    using hex_digits_upper that by (simp add: hex_digits_def)
  have l: "ordb c div 16 < 16" for c using ordb_less [of c] by (simp add: less_mult_imp_div_less)
  have e: "16 * (ordb c div 16) + ordb c mod 16 = ordb c" for c by simp
  have v: "base_val 16 (hex2 a @ hex2 b) = Some (16 * (16 * ordb a + ordb b div 16) + ordb b mod 16)"
    by (simp add: hex2_def base_val_def u l e)
  have "16 * (16 * ordb a + ordb b div 16) + ordb b mod 16 = be_val [a, b]"
    using e [of b] by (simp add: be_val_def)
  then show ?thesis using v by (simp add: stands_def hexish_def hex2_def u l)
qed

lemma py_rindex_last: "c \<notin> set t \<Longrightarrow> py_rindex c (s @ c # t) = Inr (length s)"
proof -
  assume "c \<notin> set t"
  then have "takeWhile (\<lambda>x. x \<noteq> c) (rev t @ c # rev s) = rev t"
    by (subst takeWhile_append2) auto
  then show ?thesis by (simp add: py_rindex_def)
qed

lemma side_gap:
  "side gl @ [[]] @ side gr = gl @ [] # (if gl = [] then [] # side gr else side gr)"
  "side gl @ [[]] @ side gr = (if gr = [] then side gl @ [[]] else side gl) @ [] # gr"
  by (simp_all add: side_def)

lemma all2_Nil: "list_all2 P [] ys \<longleftrightarrow> ys = []"
  by (cases ys) simp_all

declare inet_pton6.simps [simp del]

text \<open>Two sides with zeros between them.\<close>

lemma inet_pton6_sides:
  assumes "list_all2 stands gl l" and "list_all2 stands gr r" and "length l + length r \<le> 8"
    and "\<forall>g \<in> set gl \<union> set gr. CHR '':'' \<notin> set g \<and> CHR ''.'' \<notin> set g" and "words_ok l" "words_ok r"
  shows "inet_pton6 (Suc n) (py_join '':'' gl @ ''::'' @ py_join '':'' gr)
    = Inr (concat (map be16 (l @ replicate (8 - length l - length r) 0 @ r)))"
proof -
  let ?G = "side gl @ [[]] @ side gr"
  have c: "\<forall>g \<in> set ?G. CHR '':'' \<notin> set g \<and> CHR ''.'' \<notin> set g" using assms(4) by (auto simp: side_def)
  let ?W = "l @ replicate (8 - length l - length r) 0 @ r"
  have "take (8 - length r) (map int l @ replicate (8 - length l) 0) @ map int r = map int ?W"
    using assms(3) by (simp add: diff_commute)
  then have "fill_front ?G ?G 0 (replicate 8 0) = Inr (map int ?W)"
    using fill_gap [OF side_gap(1) side_gap(2) assms(1,2)] assms(3) by simp
  moreover have "words_ok ?W" using assms(5,6) by (auto simp: words_ok_def)
  then have "groups_bytes (map int ?W) = Inr (concat (map be16 ?W))" by (rule groups_bytes_words)
  moreover have "?G \<noteq> []" by simp
  ultimately show ?thesis
    unfolding join_sides using inet_pton6_groups [OF _ c, of n] by (simp only: rbind_simps simp_thms)
qed

lemma inet_pton6_dotted:
  assumes "length b = 4"
  shows "inet_pton6 (Suc (Suc n)) (''::ffff:'' @ dotted b) = Inr (concat (map be16 [0, 0, 0, 0, 0, 65535]) @ b)"
proof -
  define t where "t = dotted b"
  have t: "CHR '':'' \<notin> set t" "py_in ''.'' t" "inet_aton t = Inr b"
    using dotted_chars [OF assms] inet_aton_dotted [OF assms] by (simp_all add: t_def)
  have dot: "py_in ''.'' (''::ffff:'' @ t)"
    using t(2) by (auto simp: py_in_def)
  have r: "py_rindex CHR '':'' (''::ffff:'' @ t) = Inr 6"
    using py_rindex_last [OF t(1), of "''::ffff''"] by simp
  define g1 where "g1 = hex2 (b ! 0) @ hex2 (b ! 1)"
  define g2 where "g2 = hex2 (b ! 2) @ hex2 (b ! 3)"
  define w1 where "w1 = be_val [b ! 0, b ! 1]"
  define w2 where "w2 = be_val [b ! 2, b ! 3]"
  have s: "stands g1 w1" "stands g2 w2" unfolding g1_def g2_def w1_def w2_def by (rule stands_hex2)+
  have sf: "stands ''ffff'' 65535" by (simp add: stands_def hexish_def base_val_def unhex_digit_def)
  have w: "w1 < 65536" "w2 < 65536" unfolding w1_def w2_def by (rule be_val_2; simp)+
  have clean: "CHR '':'' \<notin> set g \<and> CHR ''.'' \<notin> set g" if "stands g w" for g w
    using hexish_seps that by (simp add: stands_def)
  have "inet_pton6 (Suc n) (py_join '':'' [] @ ''::'' @ py_join '':'' [''ffff'', g1, g2])
      = Inr (concat (map be16 ([] @ replicate (8 - 0 - 3) 0 @ [65535, w1, w2])))"
    using inet_pton6_sides [of "[]" "[]" "[''ffff'', g1, g2]" "[65535, w1, w2]" n] s sf w clean [OF s(1)] clean [OF s(2)]
    by (simp add: words_ok_def)
  moreover have "replicate 5 (0::nat) = [0, 0, 0, 0, 0]" by (simp add: numeral_eq_Suc)
  moreover have "be16 w1 @ be16 w2 = b"
    using be16_be_val [of "[b ! 0, b ! 1]"] be16_be_val [of "[b ! 2, b ! 3]"] assms
    unfolding length_4 by (auto simp: w1_def w2_def)
  ultimately have "inet_pton6 (Suc n) (''::ffff:'' @ g1 @ '':'' @ g2) = Inr (concat (map be16 [0, 0, 0, 0, 0, 65535]) @ b)"
    by simp
  then show ?thesis
    unfolding t_def [symmetric] inet_pton6.simps(2) [of "Suc n"] if_P [OF dot] r rbind_simps
    using t(3) by (simp add: g1_def g2_def)
qed

text \<open>\<^verbatim>\<open>common.inet_pton\<close> reads every text of the C library.\<close>

lemma inet_pton_sock_ntop6:
  assumes ok: "words_ok ws" and len: "length ws = 8"
  shows "inet_pton AF_INET6 (sock_ntop6 ws) = Inr (concat (map be16 ws))"
proof -
  have depth: "stack_depth = Suc (Suc 998)" by (simp add: stack_depth_def)
  show ?thesis
    using len
  proof (cases rule: sock_ntop6_shape)
    case mapped
    have "length (drop 6 ws) = 2" using len by simp
    then obtain x y where xy: "drop 6 ws = [x, y]" by (cases "drop 6 ws"; cases "tl (drop 6 ws)") auto
    have b: "length (concat (map be16 (drop 6 ws))) = 4" by (simp add: xy)
    have "concat (map be16 ws) = concat (map be16 [0, 0, 0, 0, 0, 65535]) @ concat (map be16 (drop 6 ws))"
      using mapped(1) by (metis map_append concat_append)
    then show ?thesis using inet_pton6_dotted [OF b, of 998] mapped(2) by (simp add: inet_pton_def depth)
  next
    case full
    have g: "map (hexstr hex_digit) ws \<noteq> []" using len by auto
    show ?thesis
      using inet_pton6_groups [OF g hexstr_clean [OF hex_digits_lower ok], of "Suc 998"]
        fill_full [OF all2_stands_hex [OF hex_digits_lower ok] len] groups_bytes_words [OF ok]
      by (simp add: full hex_text_def inet_pton_def depth)
  next
    case (short l n r)
    have o: "words_ok l" "words_ok r" using ok short(1) by simp_all
    have n: "n = 8 - length l - length r" "length l + length r \<le> 8" using short(1,2) len by simp_all
    have "inet_pton6 (Suc (Suc 998)) (sock_ntop6 ws) = Inr (concat (map be16 (l @ replicate n 0 @ r)))"
      unfolding short(3) hex_text_def
      using inet_pton6_sides [OF all2_stands_hex [OF hex_digits_lower o(1)] all2_stands_hex [OF hex_digits_lower o(2)] n(2) _ o,
          of "Suc 998"] hexstr_clean [OF hex_digits_lower o(1)] hexstr_clean [OF hex_digits_lower o(2)] n(1)
      by (simp add: ball_Un)
    then show ?thesis unfolding short(1) [symmetric] by (simp add: inet_pton_def depth)
  qed
qed


text \<open>A text with a colon, or with a letter, is no address for \<^verbatim>\<open>inet_aton\<close>.\<close>

lemma digits_val_bad: "c \<in> set s \<Longrightarrow> (\<And>d. unhex_digit c = Some d \<Longrightarrow> base \<le> d) \<Longrightarrow> digits_val base a s = None"
  by (induction s arbitrary: a) (auto split: option.splits)

lemma base_val_bad: "c \<in> set s \<Longrightarrow> (\<And>d. unhex_digit c = Some d \<Longrightarrow> base \<le> d) \<Longrightarrow> base_val base s = None"
  using digits_val_bad by (auto simp: base_val_def)

lemma in_join: "c \<in> set (py_join sep gs) \<Longrightarrow> c \<notin> set sep \<Longrightarrow> \<exists>g \<in> set gs. c \<in> set g"
proof (induction gs)
  case (Cons g gs)
  then show ?case by (cases "gs = []") (auto simp: py_join_Cons)
qed simp

lemma in_split: "c \<in> set s \<Longrightarrow> c \<notin> set sep \<Longrightarrow> \<exists>g \<in> set (py_split sep s). c \<in> set g"
  using in_join [of c sep "py_split sep s"] by (simp add: py_join_split)

lemma all_some_None: "None \<in> set xs \<Longrightarrow> all_some xs = None"
  by (induction xs) (auto split: option.splits)

lemma inet_aton_bad:
  assumes "c \<in> set s" and "c \<noteq> CHR ''.''" and "\<forall>g. c \<in> set g \<longrightarrow> c_number g = None"
  shows "inet_aton s = Inl OSError"
proof -
  obtain g where g: "g \<in> set (py_split ''.'' s)" "c \<in> set g" using in_split [OF assms(1), of "''.''"] assms(2) by auto
  have "None \<in> set (map c_number (py_split ''.'' s))"
    using image_eqI [of None c_number g] g assms(3) by auto
  then show ?thesis by (simp add: inet_aton_def all_some_None)
qed

lemma inet_aton_colon: "CHR '':'' \<in> set s \<Longrightarrow> inet_aton s = Inl OSError"
proof (rule inet_aton_bad)
  have "base_val base t = None" if "CHR '':'' \<in> set t" for base t
    using base_val_bad [OF that] by (simp add: unhex_digit_def)
  moreover have "CHR '':'' \<in> set (drop 2 t)" if "CHR '':'' \<in> set t" "match_begin t ''0x'' \<or> match_begin t ''0X''" for t
    using that by (auto simp: match_begin_iff)
  ultimately show "\<forall>g. CHR '':'' \<in> set g \<longrightarrow> c_number g = None" by (simp add: c_number_def)
qed simp_all

lemma ntop6_colon: "words_ok ws \<Longrightarrow> length ws = 8 \<Longrightarrow> CHR '':'' \<in> set (sock_ntop6 ws)"
proof -
  assume "length ws = 8"
  then show ?thesis
  proof (cases rule: sock_ntop6_shape)
    case full
    obtain u v vs where "ws = u # v # vs" using \<open>length ws = 8\<close> by (cases ws; cases "tl ws") auto
    then have "CHR '':'' \<in> set (hex_text ws)" by (simp add: hex_text_def)
    then show ?thesis unfolding full .
  qed simp_all
qed

lemma pton_aton:
  assumes "length b = 4"
  shows "sock_pton AF_INET (dotted b) = Inr b" and "is_ip (dotted b) = Inr (Some AF_INET)"
  using sock_pton4_dotted [OF assms] inet_aton_dotted [OF assms] by (simp_all add: sock_pton_def is_ip_def inet_pton_def Let_def)

definition addr_bytes :: "family \<Rightarrow> nat" where
  "addr_bytes af = (case af of AF_INET \<Rightarrow> 4 | AF_INET6 \<Rightarrow> 16)"

text \<open>The text that the C library writes for an address, of either family, is read back to the
  address by the library and by \<^verbatim>\<open>common.inet_pton\<close>, mapped addresses and shortened zeros
  included, and \<^verbatim>\<open>is_ip\<close> finds its family.\<close>

theorem inet_text_roundtrip:
  assumes "length b = addr_bytes af"
  shows "\<exists>s. sock_ntop af b = Inr s \<and> sock_pton af s = Inr b \<and> inet_pton af s = Inr b \<and> is_ip s = Inr (Some af)"
proof (cases af)
  case AF_INET
  then have "length b = 4" using assms by (simp add: addr_bytes_def)
  then show ?thesis using AF_INET pton_aton inet_aton_dotted
    by (simp add: sock_ntop_def inet_pton_def)
next
  case AF_INET6
  then have b: "length b = 16" using assms by (simp add: addr_bytes_def)
  define ws where "ws = words_of b"
  have ws: "words_ok ws" "length ws = 8" "concat (map be16 ws) = b" using words_of_spec [of b] b by (simp_all add: ws_def)
  have "inet_pton AF_INET6 (sock_ntop6 ws) = Inr b" using inet_pton_sock_ntop6 [OF ws(1,2)] ws(3) by simp
  moreover have "sock_pton AF_INET6 (sock_ntop6 ws) = Inr b"
    using sock_pton6_ntop6 [OF ws(1,2)] ws(3) by (simp add: sock_pton_def)
  moreover have "inet_aton (sock_ntop6 ws) = Inl OSError" using ntop6_colon [OF ws(1,2)] by (rule inet_aton_colon)
  ultimately show ?thesis using AF_INET6 b
    by (simp add: sock_ntop_def ws_def [symmetric] is_ip_def Let_def addr_error_def) (simp add: inet_pton_def addr_error_def)
qed

theorem inet_text_roundtrip_witness:
  "\<exists>s. sock_ntop AF_INET6 (replicate 16 CHR ''a'') = Inr s \<and> sock_pton AF_INET6 s = Inr (replicate 16 CHR ''a'')
     \<and> inet_pton AF_INET6 s = Inr (replicate 16 CHR ''a'') \<and> is_ip s = Inr (Some AF_INET6)"
  by (rule inet_text_roundtrip) (simp add: addr_bytes_def)

subsection \<open>What is_ip takes for an address\<close>

lemma is_ip_v6: "inet_aton s = Inl OSError \<Longrightarrow> is_ip s =
    (case inet_pton6 stack_depth s of Inr _ \<Rightarrow> Inr (Some AF_INET6) | Inl e \<Rightarrow> if addr_error e then Inr None else Inl e)"
  by (simp add: is_ip_def inet_pton_def addr_error_def Let_def)

lemma hexish_base_val: "hexish s \<Longrightarrow> \<exists>w. base_val 16 s = Some w \<and> w < 16 ^ length s"
proof -
  have lt: "unhex_digit c = Some d \<Longrightarrow> d < 16" for c d by (auto simp: unhex_digit_def Let_def split: if_splits)
  have "\<forall>c \<in> set s. unhex_digit c \<noteq> None \<Longrightarrow> \<exists>w. digits_val 16 a s = Some w \<and> w < (a + 1) * 16 ^ length s" for a
  proof (induction s arbitrary: a)
    case (Cons c s)
    then obtain d where d: "unhex_digit c = Some d" by auto
    obtain w where "digits_val 16 (16 * a + d) s = Some w" "w < (16 * a + d + 1) * 16 ^ length s"
      using Cons by auto
    moreover have "(16 * a + d + 1) * 16 ^ length s \<le> 16 * (a + 1) * 16 ^ length s" using lt [OF d] by (intro mult_right_mono) auto
    ultimately have "digits_val 16 a (c # s) = Some w" "w < 16 * (a + 1) * 16 ^ length s"
      using d lt [OF d] by (simp, linarith)
    then show ?case by (auto simp: algebra_simps)
  qed simp
  from this [of 0] show "hexish s \<Longrightarrow> ?thesis" by (simp add: hexish_def base_val_def)
qed

lemma letter_no_number:
  assumes "unhex_digit c = Some d" and "10 \<le> d" and "c \<in> set s" and "hexish s"
  shows "inet_aton s = Inl OSError"
proof -
  have x: "\<not> match_begin s ''0x''" "\<not> match_begin s ''0X''"
    using hexish_chars(7,8) [OF assms(4)] by (fastforce simp: match_begin_iff)+
  have "base_val 8 s = None" "base_val 10 s = None" using base_val_bad [OF assms(3)] assms(1,2) by auto
  then have n: "c_number s = None" using x by (simp add: c_number_def)
  have "py_split ''.'' s = [s]" using hexish_seps [OF assms(4)] by (simp add: py_split_fresh)
  then show ?thesis using n by (simp add: inet_aton_def)
qed

text \<open>\<^verbatim>\<open>is_ip\<close> takes names for addresses and fails on others: a word of up to four
  hexadecimal digits with a letter, such as \<^verbatim>\<open>cafe\<close>, is an IPv6 address for it, and more than
  eight groups raise \<^verbatim>\<open>IndexError\<close>, which it does not catch.\<close>

theorem is_ip_misjudges:
  assumes "hexish s" and "length s \<le> 4" and "\<exists>c \<in> set s. \<not> is_digit c"
    and "list_all hexish gs" and "8 < length gs"
  shows "is_ip s = Inr (Some AF_INET6) \<and> is_ip (py_join '':'' gs) = Inl IndexError"
proof
  have depth: "stack_depth = Suc 999" by (simp add: stack_depth_def)
  obtain w where w: "base_val 16 s = Some w" "w < 16 ^ length s" using hexish_base_val [OF assms(1)] by blast
  have "(16::nat) ^ length s \<le> 16 ^ 4" using assms(2) by (intro power_increasing) auto
  then have w': "w < 65536" using w(2) by simp
  have "fill_front [s] ([s] @ []) 0 (replicate 8 0) = Inr ([int w] @ replicate 7 0)"
    using fill_front_groups [of "[s]" "[w]" 0 "replicate 8 0" "[s]" "[]"] w assms(1) by (simp add: stands_def)
  moreover have "list_all (\<lambda>n. 0 \<le> n \<and> n < 65536) (replicate 7 (0::int))" by (simp add: list_all_iff)
  ultimately have "inet_pton6 stack_depth s = Inr (concat (map (\<lambda>n. be16 (nat n)) (int w # replicate 7 0)))"
    using inet_pton6_groups [of "[s]" 999] hexish_seps [OF assms(1)] w' by (simp add: depth groups_bytes_def)
  moreover obtain c d where "c \<in> set s" "unhex_digit c = Some d" "10 \<le> d"
    using assms(1,3) by (auto simp: hexish_def is_digit_def unhex_digit_def Let_def split: if_splits)
  ultimately show "is_ip s = Inr (Some AF_INET6)"
    using letter_no_number [of c d s] assms(1) by (simp add: is_ip_v6)
next
  have depth: "stack_depth = Suc 999" by (simp add: stack_depth_def)
  define hs where "hs = take 8 gs"
  have "8 < length gs" by fact
  then obtain g rest where g: "gs = hs @ g # rest" "length hs = 8"
    using id_take_nth_drop [of 8 gs] by (auto simp: hs_def)
  have h: "hexish x" if "x \<in> set gs" for x using assms(4) that by (simp add: list_all_iff)
  define ws where "ws = map (\<lambda>x. the (base_val 16 x)) hs"
  have "list_all2 stands hs ws"
  proof -
    have "stands x (the (base_val 16 x))" if "x \<in> set hs" for x
    proof -
      have "hexish x" using h [of x] that g(1) by simp
      then show ?thesis using hexish_base_val [of x] by (auto simp: stands_def)
    qed
    then show ?thesis unfolding ws_def list_all2_map2 by (simp add: list_all2_same)
  qed
  moreover have "length ws = 8" using g(2) by (simp add: ws_def)
  ultimately have "fill_front gs (hs @ g # rest) 0 (replicate 8 0) = fill_front gs (g # rest) 8 (map int ws)"
    using fill_front_groups [of hs ws 0 "replicate 8 0" gs "g # rest"] by simp
  moreover obtain w where "py_int16 g = Inr w" "g \<noteq> []"
  proof -
    have "hexish g" using h [of g] g(1) by simp
    then show ?thesis using hexish_base_val [of g] py_int16_hexish [of g] hexish_not_Nil that by blast
  qed
  ultimately have "fill_front gs gs 0 (replicate 8 0) = Inl IndexError" using g(1) by simp
  moreover have "gs \<noteq> []" using \<open>8 < length gs\<close> by auto
  ultimately have "inet_pton6 stack_depth (py_join '':'' gs) = Inl IndexError"
    using inet_pton6_groups [of gs 999] h hexish_seps by (simp add: depth)
  moreover have "CHR '':'' \<in> set (py_join '':'' gs)"
    using \<open>8 < length gs\<close> by (cases gs; cases "tl gs") auto
  ultimately show "is_ip (py_join '':'' gs) = Inl IndexError"
    by (simp add: is_ip_v6 inet_aton_colon addr_error_def)
qed

theorem is_ip_misjudges_witness:
  "is_ip ''cafe'' = Inr (Some AF_INET6) \<and> is_ip (py_join '':'' (replicate 9 ''1'')) = Inl IndexError"
  by (rule is_ip_misjudges) (simp_all add: hexish_def unhex_digit_def is_digit_def list_all_iff)


subsection \<open>The text of common.inet_ntop\<close>

definition group_text :: "nat \<Rightarrow> bytes" where
  "group_text w = (if w = 0 then [] else hexstr hex_upper w)"

lemma hex_upper_zero: "n < 16 \<Longrightarrow> ordb (hex_upper n) = 48 \<longleftrightarrow> n = 0"
  by (auto simp: hex_upper_def)

lemma ntop_group: "dropWhile (\<lambda>c. ordb c = 48) (hex2 a @ hex2 b) = group_text (be_val [a, b])"
proof -
  define w where "w = be_val [a, b]"
  have w: "w = 256 * ordb a + ordb b" by (simp add: w_def be_val_def)
  have lt: "ordb a div 16 < 16" "ordb b div 16 < 16" using ordb_less [of a] ordb_less [of b] by (simp_all add: less_mult_imp_div_less)
  have d: "w div 256 = ordb a" "w mod 256 = ordb b" using ordb_less [of b] by (simp_all add: w)
  have "w div 4096 = ordb a div 16" using d(1) by (metis div_mult2_eq numeral_times_numeral num_double semiring_norm(13))
  moreover have "w div 256 mod 16 = ordb a mod 16" using d(1) by simp
  moreover have "w div 16 mod 16 = ordb b div 16"
  proof -
    have "w div 16 = 16 * ordb a + ordb b div 16" by (simp add: w)
    then show ?thesis using lt by simp
  qed
  moreover have "w mod 16 = ordb b mod 16" 
  proof -
    have "w = 16 * (16 * ordb a) + ordb b" by (simp add: w)
    then show ?thesis by (simp only: mod_mult_self4)
  qed
  ultimately have h: "hex2 a @ hex2 b = [hex_upper (w div 4096), hex_upper (w div 256 mod 16), hex_upper (w div 16 mod 16), hex_upper (w mod 16)]"
    by (simp add: hex2_def)
  have z: "ordb (hex_upper 0) = 48" by (simp add: hex_upper_def)
  have n: "ordb (hex_upper m) \<noteq> 48" if "0 < m" "m < 16" for m using hex_upper_zero [of m] that by simp
  have l16: "w div 4096 < 16" using lt \<open>w div 4096 = ordb a div 16\<close> by simp
  consider "w = 0" | "0 < w" "w < 16" | "16 \<le> w" "w < 256" | "256 \<le> w" "w < 4096" | "4096 \<le> w" by linarith
  then have "dropWhile (\<lambda>c. ordb c = 48) (hex2 a @ hex2 b) = group_text w"
  proof cases
    case 3
    then have "0 < w div 16" "w div 16 < 16" "w div 4096 = 0" "w div 256 = 0" by (simp_all add: div_greater_zero_iff)
    then show ?thesis unfolding h using n [of "w div 16"] z 3 by (simp add: group_text_def hexstr_def)
  next
    case 4
    then have "0 < w div 256" "w div 256 < 16" "w div 4096 = 0" by (simp_all add: div_greater_zero_iff)
    then show ?thesis unfolding h using n [of "w div 256"] z 4 by (simp add: group_text_def hexstr_def)
  next
    case 5
    then have "0 < w div 4096" by (simp add: div_greater_zero_iff)
    then show ?thesis unfolding h using n [of "w div 4096"] l16 5 by (simp add: group_text_def hexstr_def)
  next
    case 2
    then have "w div 4096 = 0" "w div 256 = 0" "w div 16 = 0" by simp_all
    then show ?thesis unfolding h using n [of w] z 2 by (simp add: group_text_def hexstr_def)
  next
    case 1
    then show ?thesis unfolding h using z by (simp add: group_text_def)
  qed
  then show ?thesis by (simp add: w_def)
qed


lemma ntop_groups_words: "ntop_groups b = map group_text (words_of b)"
  by (induction b rule: ntop_groups.induct) (simp_all add: ntop_group)

abbreviation filled :: "bytes \<Rightarrow> bool" where
  "filled g \<equiv> g \<noteq> []"

text \<open>What the substitution does to the groups: the empty ones behind the first inner empty one go.\<close>

definition drop_empty :: "bytes list \<Rightarrow> bytes list" where
  "drop_empty gs = (if list_all (\<lambda>g. g = []) gs then [[]] else dropWhile (\<lambda>g. g = []) gs)"

lemma char_of_nat_58: "chrb 58 = CHR '':''"
  by code_simp

lemma colons_of_join:
  "list_all (\<lambda>g. g = [] \<or> plain_group g) gs \<Longrightarrow> gs \<noteq> [] \<Longrightarrow>
   dropWhile (\<lambda>c. ordb c = 58) (py_join '':'' gs) = py_join '':'' (drop_empty gs)"
proof (induction gs)
  case (Cons g gs)
  show ?case
  proof (cases "g = []")
    case True
    then show ?thesis using Cons by (cases "gs = []") (simp_all add: py_join_Cons drop_empty_def)
  next
    case False
    then have "plain_group g" using Cons.prems by simp
    then obtain c t where "g = c # t" "c \<noteq> CHR '':''" by (cases g) (auto simp: plain_group_def)
    moreover from this have "ordb c \<noteq> 58" by (metis chrb_ordb char_of_nat_58)
    ultimately show ?thesis by (cases "gs = []") (simp_all add: py_join_Cons drop_empty_def)
  qed
qed simp

lemma find_after_head:
  assumes "list_all plain_group m" and "x = [] \<or> plain_group x"
  shows "py_find ''::'' (py_join '':'' (x # m) @ ''::'' @ t) = Some (length (py_join '':'' (x # m)))"
proof (cases "plain_group x")
  case True
  then show ?thesis using find_colons(1) [of "x # m"] assms(1) by simp
next
  case False
  then have x: "x = []" using assms(2) by simp
  show ?thesis
  proof (cases "m = []")
    case False
    have "hd (py_join '':'' m @ ''::'' @ t) \<noteq> CHR '':''" using join_first [OF assms(1) False] join_not_Nil [OF assms(1)] False by simp
    then show ?thesis
      using find_one_colon [of "py_join '':'' m @ ''::'' @ t"] find_colons(1) [OF assms(1), of t] False x by (simp add: py_join_Cons)
  qed (simp add: x)
qed

lemma collapse_join:
  assumes "list_all plain_group m" and "x = [] \<or> plain_group x" and "list_all (\<lambda>g. g = [] \<or> plain_group g) ts" and "ts \<noteq> []"
  shows "collapse_colons (py_join '':'' (x # m @ [] # ts)) = py_join '':'' (x # m @ [] # drop_empty ts)"
proof -
  have j: "py_join '':'' (x # m @ [] # us) = py_join '':'' (x # m) @ ''::'' @ py_join '':'' us" if "us \<noteq> []" for us
    using join_append [of "x # m" "[] # us" "'':''"] that by (simp add: py_join_Cons)
  have "drop_empty ts \<noteq> []" by (auto simp: drop_empty_def dropWhile_eq_Nil_conv list_all_iff)
  then show ?thesis
    unfolding j [OF assms(4)] collapse_colons_def find_after_head [OF assms(1,2)]
    using colons_of_join [OF assms(3,4)] j by simp
qed

lemma no_inner_colons:
  assumes "list_all plain_group m" and "x = [] \<or> plain_group x" and "y = [] \<or> plain_group y" and "m \<noteq> []"
  shows "py_find ''::'' (py_join '':'' (x # m @ [y])) = None"
proof -
  have my: "py_find ''::'' (py_join '':'' (m @ [y])) = None" "hd (py_join '':'' (m @ [y])) \<noteq> CHR '':''"
  proof -
    have e: "py_join '':'' (m @ [y]) = py_join '':'' m @ '':'' @ y" using join_append [of m "[y]"] assms(4) by simp
    show "py_find ''::'' (py_join '':'' (m @ [y])) = None"
    proof (cases "plain_group y")
      case True
      then show ?thesis using find_colons(2) [of "m @ [y]"] assms(1) by simp
    next
      case False
      then show ?thesis unfolding e using find_colons(3) [OF assms(1)] assms(3) by simp
    qed
    show "hd (py_join '':'' (m @ [y])) \<noteq> CHR '':''"
      using join_first [OF assms(1,4)] join_not_Nil [OF assms(1)] assms(4) by (simp add: e)
  qed
  have "py_join '':'' (x # m @ [y]) = x @ CHR '':'' # py_join '':'' (m @ [y])" by (simp add: py_join_Cons)
  moreover have "CHR '':'' \<notin> set x" using assms(2) by (auto simp: plain_group_def)
  ultimately show ?thesis
    using find_colons_skip [of x] find_one_colon [of "py_join '':'' (m @ [y])"] my by simp
qed

lemma takeWhile_tail': "takeWhile filled (gs @ [] # ts) = takeWhile filled gs"
  by (induction gs) auto

lemma drop_empty_tail:
  "takeWhile filled (rev (drop_empty T) @ [] # z) = takeWhile filled (rev T @ [] # z)"
proof (cases "list_all (\<lambda>g. g = []) T")
  case True
  have "takeWhile filled (rev T) = []" using True by (cases "rev T") (auto simp: list_all_iff)
  moreover have "drop_empty T = [[]]" using True by (simp only: drop_empty_def if_True)
  ultimately show ?thesis by (simp only: takeWhile_tail') simp
next
  case False
  let ?E = "takeWhile (\<lambda>g. g = []) T"
  have "takeWhile filled (rev (dropWhile (\<lambda>g. g = []) T)) = takeWhile filled (rev T)"
  proof (cases "?E = []")
    case True
    then show ?thesis using takeWhile_dropWhile_id [of "\<lambda>g. g = []" T] by simp
  next
    case False
    then have "hd (rev ?E) \<in> set ?E" using hd_in_set [of "rev ?E"] by (simp only: rev_is_Nil_conv set_rev simp_thms)
    then have "hd (rev ?E) = []" using set_takeWhileD by fast
    then obtain E where E: "rev ?E = [] # E"
      using False list.collapse [of "rev ?E"] by (metis rev_is_Nil_conv)
    have "rev T = rev (dropWhile (\<lambda>g. g = []) T) @ rev ?E"
      by (metis rev_append takeWhile_dropWhile_id)
    then show ?thesis by (simp only: E takeWhile_tail')
  qed
  then show ?thesis using False by (simp only: drop_empty_def takeWhile_tail' if_False)
qed

text \<open>Whatever goes, the groups before the first empty one and after the last stay.\<close>

lemma collapse_groups:
  assumes "list_all (\<lambda>g. g = [] \<or> plain_group g) G" and "3 \<le> length G" and "[] \<in> set G"
  obtains G' where "collapse_colons (py_join '':'' G) = py_join '':'' G'" "[] \<in> set G'" "set G' \<subseteq> set G"
    "takeWhile filled G' = takeWhile filled G" "takeWhile filled (rev G') = takeWhile filled (rev G)"
proof -
  obtain x m y where G: "G = x # m @ [y]" using assms(2) by (cases G; cases "tl G" rule: rev_cases) auto
  then have m: "m \<noteq> []" using assms(2) by auto
  show ?thesis
  proof (cases "[] \<in> set m")
    case False
    then have "list_all plain_group m" using assms(1) by (auto simp: G list_all_iff)
    then have "py_find ''::'' (py_join '':'' G) = None" using no_inner_colons [of m x y] assms(1) m by (simp add: G)
    then show ?thesis using that [of G] assms(3) by (simp add: collapse_colons_def)
  next
    case True
    then obtain m1 m2 where m12: "m = m1 @ [] # m2" "[] \<notin> set m1" by (meson split_list_first)
    let ?T = "m2 @ [y]"
    have e: "collapse_colons (py_join '':'' G) = py_join '':'' (x # m1 @ [] # drop_empty ?T)"
    proof -
      have all: "g = [] \<or> plain_group g" if "g \<in> set G" for g using assms(1) that by (simp add: list_all_iff)
      have "plain_group g" if "g \<in> set m1" for g
        using all [of g] that m12 by (metis G Un_iff list.set_intros(2) set_append)
      then have "list_all plain_group m1" "x = [] \<or> plain_group x" "list_all (\<lambda>g. g = [] \<or> plain_group g) ?T"
        using all by (simp_all add: list_all_iff G m12)
      then show ?thesis using collapse_join [of m1 x ?T] m12 G by simp
    qed
    have sub: "set (drop_empty ?T) \<subseteq> insert [] (set ?T)"
      by (auto simp: drop_empty_def dest: set_dropWhileD)
    show ?thesis
    proof (rule that [OF e])
      show "set (x # m1 @ [] # drop_empty ?T) \<subseteq> set G" using sub m12 by (auto simp: G)
      show "takeWhile filled (x # m1 @ [] # drop_empty ?T) = takeWhile filled G"
        using takeWhile_tail' [of "x # m1"] by (simp add: G m12)
      show "takeWhile filled (rev (x # m1 @ [] # drop_empty ?T)) = takeWhile filled (rev G)"
        using drop_empty_tail [of ?T "rev m1 @ [x]"] by (simp add: G m12)
    qed simp
  qed
qed


text \<open>What comes back: the words before the first zero and after the last one.\<close>

definition outer_words :: "nat list \<Rightarrow> nat list" where
  "outer_words ws =
     (if 0 \<notin> set ws then ws
      else
        (let l = takeWhile (\<lambda>w. w \<noteq> 0) ws; r = rev (takeWhile (\<lambda>w. w \<noteq> 0) (rev ws))
         in l @ replicate (8 - length l - length r) 0 @ r))"

text \<open>All the zeros are next to each other.\<close>

definition one_zero_run :: "nat list \<Rightarrow> bool" where
  "one_zero_run ws \<longleftrightarrow>
     (\<forall>k < length ws. \<forall>i < k. ws ! i = 0 \<and> ws ! k = 0 \<longrightarrow> (\<forall>j \<in> {i..k}. ws ! j = 0))"

lemma group_text_cases: "w < 65536 \<Longrightarrow> group_text w = [] \<and> w = 0 \<or> plain_group (group_text w) \<and> stands (group_text w) w \<and> w \<noteq> 0"
  using stands_hexstr [OF hex_digits_upper, of w] hexish_plain by (auto simp: group_text_def stands_def)

lemma group_text_filled: "w < 65536 \<Longrightarrow> filled (group_text w) \<longleftrightarrow> w \<noteq> 0"
  using group_text_cases [of w] by (auto simp: plain_group_def)

lemma group_text_clean: "w < 65536 \<Longrightarrow> CHR '':'' \<notin> set (group_text w) \<and> CHR ''.'' \<notin> set (group_text w)"
  using hexish_seps group_text_cases [of w] by (auto simp: stands_def)

lemma takeWhile_groups: "words_ok ws \<Longrightarrow> takeWhile filled (map group_text ws) = map group_text (takeWhile (\<lambda>w. w \<noteq> 0) ws)"
  using group_text_filled by (induction ws) (auto simp: words_ok_def)

lemma stands_groups: "words_ok ws \<Longrightarrow> 0 \<notin> set ws \<Longrightarrow> list_all2 stands (map group_text ws) ws"
proof -
  assume ok: "words_ok ws" and nz: "0 \<notin> set ws"
  have "stands (group_text w) w" if "w \<in> set ws" for w
    using group_text_cases [of w] ok nz that by (auto simp: words_ok_def)
  then show ?thesis unfolding list_all2_map1 by (simp add: list_all2_same)
qed

text \<open>The zeros of the list lie between its ends.\<close>

lemma zero_ends:
  assumes "0 \<in> set (ws :: nat list)"
  defines "l \<equiv> takeWhile (\<lambda>w. w \<noteq> 0) ws" and "r \<equiv> rev (takeWhile (\<lambda>w. w \<noteq> 0) (rev ws))"
  shows "\<exists>x. ws = l @ 0 # x" "\<exists>y. ws = y @ 0 # r" "length l + length r < length ws"
proof -
  have d: "\<exists>x. us = takeWhile (\<lambda>w. w \<noteq> 0) us @ 0 # x" if z: "0 \<in> set us" for us :: "nat list"
  proof -
    obtain p q where "us = p @ 0 # q" "0 \<notin> set p" using split_list_first [OF z] by blast
    moreover from this have "takeWhile (\<lambda>w. w \<noteq> 0) (p @ 0 # q) = p" by (subst takeWhile_append2) (auto intro: gr0I)
    ultimately show ?thesis by auto
  qed
  then show x: "\<exists>x. ws = l @ 0 # x" using assms(1) by (simp add: l_def)
  obtain z where "rev ws = takeWhile (\<lambda>w. w \<noteq> 0) (rev ws) @ 0 # z" using d [of "rev ws"] assms(1) by auto
  then have "rev (rev ws) = rev z @ 0 # r" unfolding r_def by (metis append_Cons append_assoc append_Nil rev.simps(2) rev_append)
  then have "ws = rev z @ 0 # r" by simp
  then show y: "\<exists>y. ws = y @ 0 # r" by blast
  obtain x y where xy: "ws = l @ 0 # x" "ws = y @ 0 # r" using x y by blast
  have "0 \<notin> set l" using set_takeWhileD [of 0 "\<lambda>w. w \<noteq> 0" ws] by (auto simp: l_def)
  then have "length l \<le> length y" using xy nth_append [of l "0 # x" "length y"] by (metis leI nth_append_length nth_mem)
  then show "length l + length r < length ws" using xy(2) by simp
qed

lemma filled_nth:
  assumes "length l + length r < n" and "j < n"
  shows "(l @ replicate (n - length l - length r) 0 @ r) ! j
    = (if j < length l then l ! j else if j < n - length r then 0 else r ! (j - (n - length r)))"
proof -
  have "j - length l < n - length l - length r \<longleftrightarrow> j < n - length r" if "\<not> j < length l" using that assms by linarith
  moreover have "j - length l - (n - length l - length r) = j - (n - length r)" if "\<not> j < n - length r"
    using that assms by linarith
  ultimately show ?thesis by (simp add: nth_append)
qed

lemma one_run_filled:
  assumes ws: "ws = l @ 0 # x" "ws = y @ 0 # r" and len: "length ws = 8" "length l + length r < 8"
    and run: "one_zero_run ws"
  shows "l @ replicate (8 - length l - length r) 0 @ r = ws"
proof (rule nth_equalityI)
  show "length (l @ replicate (8 - length l - length r) 0 @ r) = length ws" using len by simp
next
  fix j assume "j < length (l @ replicate (8 - length l - length r) 0 @ r)"
  then have j: "j < 8" using len by simp
  have "length (y @ 0 # r) = 8" using ws(2) len by (simp only:)
  then have ly: "length y = 7 - length r" by simp
  have ends: "ws ! length l = 0" "ws ! (7 - length r) = 0"
    by (subst ws(1), simp) (subst ws(2), simp add: ly [symmetric])
  have "ws ! j = 0" if "length l \<le> j" "j < 8 - length r"
  proof (cases "length l < 7 - length r")
    case True
    have "7 - length r < length ws" "j \<le> 7 - length r" using that len by linarith+
    then show ?thesis using run True ends that unfolding one_zero_run_def by (meson atLeastAtMost_iff)
  next
    case False
    then have "j = length l" using that by linarith
    then show ?thesis using ends by simp
  qed
  moreover have "ws ! j = l ! j" if "j < length l" using that by (subst ws(1)) (simp add: nth_append)
  moreover have "ws ! j = r ! (j - (8 - length r))" if "\<not> j < 8 - length r"
    using that ly len(2) by (subst ws(2)) (auto simp: nth_append nth_Cons')
  ultimately show "(l @ replicate (8 - length l - length r) 0 @ r) ! j = ws ! j"
    unfolding filled_nth [OF len(2) j] by simp
qed

lemma filled_one_run:
  assumes same: "ws = l @ replicate (8 - length l - length r) 0 @ r" and len: "length ws = 8" "length l + length r < 8"
    and nz: "0 \<notin> set l" "0 \<notin> set r"
  shows "one_zero_run ws"
proof -
  have nth: "ws ! j = 0 \<longleftrightarrow> length l \<le> j \<and> j < 8 - length r" if j: "j < 8" for j
  proof -
    have "l ! j \<noteq> 0" if "j < length l" using nz(1) nth_mem [OF that] by metis
    moreover have "r ! (j - (8 - length r)) \<noteq> 0" if "\<not> j < 8 - length r"
      using nz(2) nth_mem [of "j - (8 - length r)" r] that j by (metis len(2) less_diff_conv2 not_le_imp_less
        add.commute diff_diff_cancel diff_less_mono add_lessD1 less_imp_le)
    ultimately show ?thesis unfolding same filled_nth [OF len(2) j] by auto
  qed
  then show ?thesis unfolding one_zero_run_def len by (auto simp: le_less_trans)
qed

lemma outer_words_same:
  assumes "length ws = 8"
  shows "outer_words ws = ws \<longleftrightarrow> one_zero_run ws"
proof (cases "0 \<in> set ws")
  case True
  define l where "l = takeWhile (\<lambda>w. w \<noteq> 0) ws"
  define r where "r = rev (takeWhile (\<lambda>w. w \<noteq> 0) (rev ws))"
  have o: "outer_words ws = l @ replicate (8 - length l - length r) 0 @ r" using True by (simp add: outer_words_def l_def r_def Let_def)
  obtain x y where xy: "ws = l @ 0 # x" "ws = y @ 0 # r"
    using zero_ends(1,2) [OF True] unfolding l_def r_def by blast
  have len: "length l + length r < 8" using zero_ends(3) [OF True] assms unfolding l_def r_def by (simp only:)
  have nz: "0 \<notin> set l" "0 \<notin> set r" unfolding l_def r_def set_rev using set_takeWhileD by fast+
  show ?thesis
    unfolding o using one_run_filled [OF xy assms len] filled_one_run [OF _ assms len nz] by metis
next
  case False
  then have "ws ! i \<noteq> 0" if "i < length ws" for i using nth_mem [OF that] by metis
  then have "one_zero_run ws" unfolding one_zero_run_def by (metis less_imp_le)
  then show ?thesis using False by (simp add: outer_words_def)
qed


lemma plain_words_read:
  assumes ws: "words_ok ws" and n8: "length ws = 8" and zero: "0 \<notin> set ws"
  shows "inet_pton AF_INET6 (collapse_colons (py_join '':'' (map group_text ws))) = Inr (concat (map be16 (outer_words ws)))"
proof -
  define G where "G = map group_text ws"
  have depth: "stack_depth = Suc 999" by (simp add: stack_depth_def)
  have wb: "w < 65536" if "w \<in> set ws" for w using ws that by (simp add: words_ok_def)
  have clean: "\<forall>g \<in> set G. CHR '':'' \<notin> set g \<and> CHR ''.'' \<notin> set g"
    using group_text_clean wb by (auto simp: G_def)
  have "list_all plain_group G" using group_text_cases wb zero by (fastforce simp: G_def list_all_iff)
  then have c: "collapse_colons (py_join '':'' G) = py_join '':'' G"
    using find_colons(2) [of G] by (simp add: collapse_colons_def)
  have "G \<noteq> []" using n8 by (auto simp: G_def)
  moreover have "fill_front G G 0 (replicate 8 0) = Inr (map int ws)"
    using fill_full [OF stands_groups [OF ws zero] n8] by (simp add: G_def)
  ultimately show ?thesis unfolding G_def [symmetric]
    using inet_pton6_groups [of G 999] clean groups_bytes_words [OF ws] zero
    by (simp add: c inet_pton_def depth outer_words_def)
qed

lemma collapsed_words_read:
  assumes ws: "words_ok ws" and n8: "length ws = 8" and zero: "0 \<in> set ws"
  shows "inet_pton AF_INET6 (collapse_colons (py_join '':'' (map group_text ws))) = Inr (concat (map be16 (outer_words ws)))"
proof -
  define G where "G = map group_text ws"
  have depth: "stack_depth = Suc 999" by (simp add: stack_depth_def)
  have wb: "w < 65536" if "w \<in> set ws" for w using ws that by (simp add: words_ok_def)
  have clean: "\<forall>g \<in> set G. CHR '':'' \<notin> set g \<and> CHR ''.'' \<notin> set g"
    using group_text_clean wb by (auto simp: G_def)
  let ?l = "takeWhile (\<lambda>w. w \<noteq> 0) ws" and ?r = "rev (takeWhile (\<lambda>w. w \<noteq> 0) (rev ws))"
  have e: "[] \<in> set G" using zero by (auto simp: G_def group_text_def intro: rev_image_eqI)
  have "group_text w = [] \<or> plain_group (group_text w)" if "w \<in> set ws" for w
    using group_text_cases [of w] wb [OF that] by blast
  then have all: "list_all (\<lambda>g. g = [] \<or> plain_group g) G" by (simp add: G_def list_all_iff)
  have "3 \<le> length G" using n8 by (simp add: G_def)
  then obtain G' where G': "collapse_colons (py_join '':'' G) = py_join '':'' G'" "[] \<in> set G'" "set G' \<subseteq> set G"
    "takeWhile filled G' = takeWhile filled G" "takeWhile filled (rev G') = takeWhile filled (rev G)"
    using collapse_groups [OF all _ e] by blast
  have front: "takeWhile filled G = map group_text ?l" using takeWhile_groups [OF ws] by (simp add: G_def)
  have "words_ok (rev ws)" using ws by (simp add: words_ok_def)
  then have rear: "takeWhile filled (rev G) = map group_text (rev ?r)" using takeWhile_groups [of "rev ws"] by (simp add: G_def rev_map)
  have h: "hd (dropWhile filled us) = [] \<and> dropWhile filled us \<noteq> []" if "[] \<in> set us" for us
    using that hd_dropWhile [of filled us] by (auto simp: dropWhile_eq_Nil_conv)
  have f: "us = takeWhile filled us @ [] # tl (dropWhile filled us)" if "[] \<in> set us" for us
    using h [OF that] takeWhile_dropWhile_id [of filled us] by (metis list.collapse)
  have g1: "G' = map group_text ?l @ [] # tl (dropWhile filled G')" using f [OF G'(2)] G'(4) front by simp
  have revG': "rev G' = rev (map group_text ?r) @ [] # tl (dropWhile filled (rev G'))"
    using f [of "rev G'"] G'(2,5) rear by (simp only: rev_map set_rev)
  have g2: "G' = rev (tl (dropWhile filled (rev G'))) @ [] # map group_text ?r"
    by (subst rev_is_rev_conv [symmetric]) (simp only: rev_append rev.simps rev_rev_ident append_assoc append.simps revG' [symmetric])
  have nz: "0 \<notin> set ?l" "0 \<notin> set ?r" unfolding set_rev using set_takeWhileD by fast+
  have ok: "words_ok ?l" "words_ok ?r"
    using ws by (auto simp: words_ok_def dest!: set_takeWhileD)
  have lr: "length ?l + length ?r < 8" using zero_ends(3) [OF zero] n8 by simp
  let ?W = "?l @ replicate (8 - length ?l - length ?r) 0 @ ?r"
  have "take (8 - length ?r) (map int ?l @ replicate (8 - length ?l) 0) @ map int ?r = map int ?W"
    using lr by (simp add: diff_commute)
  then have "fill_front G' G' 0 (replicate 8 0) = Inr (map int ?W)"
    using fill_gap [OF g1 g2 stands_groups [OF ok(1) nz(1)] stands_groups [OF ok(2) nz(2)]] lr by simp
  moreover have "groups_bytes (map int ?W) = Inr (concat (map be16 ?W))"
    using ok by (intro groups_bytes_words) (auto simp: words_ok_def)
  moreover have "G' \<noteq> []" using G'(2) by auto
  moreover have "\<forall>g \<in> set G'. CHR '':'' \<notin> set g \<and> CHR ''.'' \<notin> set g" using clean G'(3) by blast
  moreover have "outer_words ws = ?W" using zero by (simp add: outer_words_def Let_def)
  ultimately have "inet_pton6 (Suc 999) (py_join '':'' G') = Inr (concat (map be16 (outer_words ws)))"
    by (subst inet_pton6_groups) (assumption | simp only: rbind_simps)+
  then show ?thesis unfolding G_def [symmetric] by (simp only: G'(1) inet_pton_def depth family.case)
qed

text \<open>What \<^verbatim>\<open>common.inet_ntop\<close> writes for an IPv6 address, \<^verbatim>\<open>common.inet_pton\<close> reads as
  the words before the first zero and after the last one with zeros between them, so the two are
  inverse exactly on the addresses whose zeros are next to each other: of an address with two runs
  of zeros the words between them are lost.\<close>

theorem inet_ntop_lossless:
  assumes "length b = 16"
  shows "\<exists>s. inet_ntop AF_INET6 b = Inr s
     \<and> inet_pton AF_INET6 s = Inr (concat (map be16 (outer_words (words_of b))))
     \<and> (inet_pton AF_INET6 s = Inr b \<longleftrightarrow> one_zero_run (words_of b))"
proof -
  define ws where "ws = words_of b"
  have ws: "words_ok ws" "length ws = 8" "concat (map be16 ws) = b" using words_of_spec [of b] assms by (simp_all add: ws_def)
  define G where "G = map group_text ws"
  have s: "inet_ntop AF_INET6 b = Inr (collapse_colons (py_join '':'' G))"
    by (simp add: inet_ntop_def ntop_groups_words G_def ws_def)
  have read: "inet_pton AF_INET6 (collapse_colons (py_join '':'' G)) = Inr (concat (map be16 (outer_words ws)))"
    unfolding G_def using plain_words_read [OF ws(1,2)] collapsed_words_read [OF ws(1,2)] by blast
  have "inet_pton AF_INET6 (collapse_colons (py_join '':'' G)) = Inr b \<longleftrightarrow> outer_words ws = ws"
  proof
    assume "inet_pton AF_INET6 (collapse_colons (py_join '':'' G)) = Inr b"
    then have eq: "concat (map be16 (outer_words ws)) = concat (map be16 ws)" using read ws(3) by simp
    have "set (outer_words ws) \<subseteq> insert 0 (set ws)" by (auto simp: outer_words_def Let_def dest: set_takeWhileD)
    then have "words_ok (outer_words ws)" using ws(1) by (auto simp: words_ok_def)
    then show "outer_words ws = ws" using eq words_of_be16 ws(1) by metis
  qed (use read ws(3) in simp)
  then show ?thesis using s read outer_words_same [OF ws(2)] by (simp add: ws_def)
qed

theorem inet_ntop_lossless_witness:
  "\<exists>s. inet_ntop AF_INET6 (concat (map be16 [1, 0, 2, 0, 0, 3, 4, 5])) = Inr s
     \<and> inet_pton AF_INET6 s = Inr (concat (map be16 [1, 0, 0, 0, 0, 3, 4, 5]))
     \<and> inet_pton AF_INET6 s \<noteq> Inr (concat (map be16 [1, 0, 2, 0, 0, 3, 4, 5]))"
proof -
  have w: "words_of (concat (map be16 [1, 0, 2, 0, 0, 3, 4, 5])) = [1, 0, 2, 0, 0, 3, 4, 5]"
    by (rule words_of_be16) (simp add: words_ok_def)
  have "length (concat (map be16 [1, 0, 2, 0, 0, 3, 4, 5])) = 16" by simp
  note r = inet_ntop_lossless [OF this, unfolded w]
  have o: "outer_words [1, 0, 2, 0, 0, 3, 4, 5] = [1, 0, 0, 0, 0, 3, 4, 5]"
    by (simp add: outer_words_def Let_def numeral_eq_Suc)
  have "\<not> one_zero_run [1, 0, 2, 0, 0, 3, 4, 5]"
    using outer_words_same [of "[1, 0, 2, 0, 0, 3, 4, 5]"] o by simp
  then show ?thesis using r unfolding o by blast
qed

subsection \<open>IPNetwork is a union of intervals\<close>

text \<open>The numbers of the addresses that a block of the notation stands for: those that agree with it
  above the last \<open>k\<close> bits. Without a prefix length, \<open>k\<close> is the number of its zero bits at the
  end.\<close>

definition zero_bits :: "nat \<Rightarrow> nat" where
  "zero_bits n = (if n = 0 then 0 else GREATEST k. 2 ^ k dvd n)"

definition block_bits :: "family \<Rightarrow> bytes \<Rightarrow> nat \<Rightarrow> nat" where
  "block_bits f b ip =
     (if length (py_split ''/'' b) = 1 then zero_bits ip else addr_length f - undec 0 (py_split ''/'' b ! 1))"

definition block_covers :: "bytes \<Rightarrow> family \<Rightarrow> nat \<Rightarrow> bool" where
  "block_covers b f x \<longleftrightarrow>
     (\<exists>ip. is_ip (py_split ''/'' b ! 0) = Inr (Some f) \<and> addr_value f (py_split ''/'' b ! 0) = Inr ip
       \<and> (let lo = ip - ip mod 2 ^ block_bits f b ip in lo \<le> x \<and> x < lo + 2 ^ block_bits f b ip))"

lemma strip_zeros_spec: "strip_zeros ip k = (drop_bit (zero_bits ip) ip, k + zero_bits ip)"
proof (induction ip k rule: strip_zeros.induct)
  case (1 ip k)
  have g: "zero_bits n = j" if "2 ^ j dvd n" "\<not> 2 ^ Suc j dvd n" "n \<noteq> 0" for n j
  proof -
    have "i \<le> j" if "2 ^ i dvd n" for i
      using that \<open>\<not> 2 ^ Suc j dvd n\<close> by (meson dvd_trans le_imp_power_dvd not_less_eq_eq)
    then have "(GREATEST k. 2 ^ k dvd n) = j" using \<open>2 ^ j dvd n\<close> by (intro Greatest_equality) auto
    then show ?thesis using \<open>n \<noteq> 0\<close> by (simp add: zero_bits_def)
  qed
  have ex: "\<exists>j. 2 ^ j dvd n \<and> \<not> 2 ^ Suc j dvd n" if "n \<noteq> 0" for n :: nat
  proof -
    have "\<exists>j. \<not> 2 ^ j dvd n" using that by (metis dvd_imp_le gr0I less_exp not_le)
    then obtain j where "\<not> 2 ^ j dvd n" "\<forall>i < j. 2 ^ i dvd n" using exists_least_iff [of "\<lambda>j. \<not> 2 ^ j dvd n"] by auto
    moreover from this have "0 < j" by (cases j) auto
    ultimately show ?thesis by (metis Suc_pred lessI)
  qed
  show ?case
  proof (cases "ip mod 2 = 0 \<and> ip \<noteq> 0")
    case True
    then obtain m where m: "ip = 2 * m" "m \<noteq> 0" by auto
    obtain j where j: "2 ^ j dvd m" "\<not> 2 ^ Suc j dvd m" using ex [OF m(2)] by auto
    have "zero_bits m = j" using g j m(2) by blast
    moreover have "zero_bits ip = Suc j" using g [of "Suc j" ip] j m by simp
    ultimately show ?thesis using 1 [OF True] True m by (simp add: strip_zeros.simps [of "2 * m" k] drop_bit_Suc)
  next
    case False
    then have "zero_bits ip = 0" using g [of 0 ip] by (cases "ip = 0") (auto simp: zero_bits_def dvd_eq_mod_eq_0)
    then show ?thesis using False by (subst strip_zeros.simps) auto
  qed
qed

lemma drop_bit_interval:
  "drop_bit k ip = drop_bit k (x::nat) \<longleftrightarrow> (let lo = ip - ip mod 2 ^ k in lo \<le> x \<and> x < lo + 2 ^ k)"
proof -
  let ?m = "(2::nat) ^ k"
  have lo: "ip - ip mod ?m = ip div ?m * ?m" by (simp add: minus_mod_eq_div_mult)
  have "ip div ?m = x div ?m \<longleftrightarrow> ip div ?m * ?m \<le> x \<and> x < ip div ?m * ?m + ?m"
  proof
    assume "ip div ?m = x div ?m"
    moreover have "x div ?m * ?m \<le> x" by simp
    moreover have "x mod ?m < ?m" by simp
    then have "x < x div ?m * ?m + ?m" using div_mult_mod_eq [of x ?m] by linarith
    ultimately show "ip div ?m * ?m \<le> x \<and> x < ip div ?m * ?m + ?m" by simp
  next
    assume "ip div ?m * ?m \<le> x \<and> x < ip div ?m * ?m + ?m"
    then show "ip div ?m = x div ?m" by (intro div_nat_eqI [symmetric]) (auto simp: mult.commute)
  qed
  then show ?thesis by (simp add: drop_bit_eq_div lo Let_def)
qed

text \<open>The entries of one family.\<close>

definition networks :: "family \<Rightarrow> ip_network \<Rightarrow> (nat \<times> nat) list" where
  "networks f net = (case f of AF_INET \<Rightarrow> network_list_v4 net | AF_INET6 \<Rightarrow> network_list_v6 net)"

definition hits :: "(nat \<times> nat) list \<Rightarrow> nat \<Rightarrow> bool" where
  "hits l x \<longleftrightarrow> list_ex (\<lambda>(n, ps). n = drop_bit ps x) l"

lemma add_network_hits:
  assumes "add_network b net = Inr net'"
  shows "hits (networks f net') x \<longleftrightarrow> hits (networks f net) x \<or> (b \<noteq> [] \<and> block_covers b f x)"
proof (cases "b = []")
  case True
  then show ?thesis using assms by (simp add: add_network_def)
next
  case False
  define block where "block = py_split ''/'' b"
  obtain g where g: "is_ip (block ! 0) = Inr (Some g)"
    using assms False by (auto simp: add_network_def Let_def block_def rbind_eq_Inr split: option.splits)
  obtain ip where ip: "addr_value g (block ! 0) = Inr ip"
    using assms False g by (auto simp: add_network_def Let_def block_def [symmetric] rbind_eq_Inr)
  let ?k = "block_bits g b ip"
  have k: "?k = (if length block = 1 then zero_bits ip else addr_length g - undec 0 (block ! 1))"
    by (simp add: block_bits_def block_def)
  have "net' = (case g of
         AF_INET \<Rightarrow> net\<lparr>network_list_v4 := network_list_v4 net @ [(drop_bit ?k ip, ?k)]\<rparr>
       | AF_INET6 \<Rightarrow> net\<lparr>network_list_v6 := network_list_v6 net @ [(drop_bit ?k ip, ?k)]\<rparr>)"
    using assms False g ip k
    by (cases g) (auto simp: add_network_def Let_def block_def [symmetric] rbind_eq_Inr strip_zeros_spec split: if_splits)
  then have "networks f net' = (if f = g then networks f net @ [(drop_bit ?k ip, ?k)] else networks f net)"
    by (cases f; cases g) (simp_all add: networks_def)
  moreover have "block_covers b f x \<longleftrightarrow> f = g \<and> drop_bit ?k ip = drop_bit ?k x"
    using g ip by (auto simp: block_covers_def block_def [symmetric] drop_bit_interval)
  ultimately show ?thesis using False by (auto simp: hits_def)
qed

lemma add_networks_hits:
  "add_networks bs net = Inr net' \<Longrightarrow>
   hits (networks f net') x \<longleftrightarrow> hits (networks f net) x \<or> (\<exists>b \<in> set bs. b \<noteq> [] \<and> block_covers b f x)"
proof (induction bs arbitrary: net)
  case (Cons b bs)
  then obtain n where "add_network b net = Inr n" "add_networks bs n = Inr net'" by (auto simp: rbind_eq_Inr)
  then show ?case using Cons.IH [of n] add_network_hits [of b net n f x] by auto
qed simp

text \<open>C37. A list of blocks that is accepted contains exactly the addresses of the blocks' intervals,
  of their own family; what is no address is in no network.\<close>

theorem ip_network_contains:
  assumes "ip_network_new s = Inr net" and "is_ip addr = Inr family"
  shows "in_network addr net =
    (case family of
       None \<Rightarrow> Inr False
     | Some f \<Rightarrow> rbind (addr_value f addr) (\<lambda>x. Inr (\<exists>b \<in> set (py_split '','' s). b \<noteq> [] \<and> block_covers b f x)))"
proof -
  have "hits (networks f net) x \<longleftrightarrow> (\<exists>b \<in> set (py_split '','' s). b \<noteq> [] \<and> block_covers b f x)" for f x
    using add_networks_hits [OF assms(1) [unfolded ip_network_new_def], of f x]
    by (cases f) (simp_all add: networks_def hits_def)
  then show ?thesis using assms(2)
    by (auto simp: in_network_def networks_def [symmetric] hits_def [symmetric] split: option.split)
qed

theorem ip_network_contains_witness:
  "\<exists>net. ip_network_new (dotted ''abcd'') = Inr net \<and>
     in_network (dotted ''abce'') net = rbind (addr_value AF_INET (dotted ''abce''))
       (\<lambda>x. Inr (\<exists>b \<in> set (py_split '','' (dotted ''abcd'')). b \<noteq> [] \<and> block_covers b AF_INET x))"
proof -
  have l: "length ''abcd'' = 4" "length ''abce'' = 4" by simp_all
  have seps: "CHR '','' \<notin> set (dotted ''abcd'')" "CHR ''/'' \<notin> set (dotted ''abcd'')"
    using dec_digits by (fastforce simp: dotted_def is_digit_def)+
  have "ip_network_new (dotted ''abcd'')
      = Inr \<lparr>network_list_v4 = [strip_zeros (be_val ''abcd'') 0], network_list_v6 = []\<rparr>"
    using pton_aton(2) [OF l(1)] inet_aton_dotted [OF l(1)] dotted_chars(3) [OF l(1)]
    by (simp add: ip_network_new_def add_network_def addr_value_def inet_pton_def py_split_fresh [OF seps(1)] py_split_fresh [OF seps(2)])
  then show ?thesis using ip_network_contains [OF _ pton_aton(2) [OF l(2)]] by auto
qed

end
