(* ===== verification/Headers.thy ===== *)
theory Headers
  imports Inet Checksums
begin

unbundle bit_operations_syntax

text \<open>
  The request headers of \<^verbatim>\<open>common.py\<close>: \<^verbatim>\<open>pack_addr\<close>, \<^verbatim>\<open>pre_parse_header\<close> and
  \<^verbatim>\<open>parse_header\<close>, with which both relays read where a request goes, and \<^verbatim>\<open>PortRange\<close>.
  \<^const>\<open>None\<close> is the \<^verbatim>\<open>None\<close> that the functions return for a header they refuse.
\<close>

subsection \<open>Addresses in headers\<close>

definition ADDRTYPE_IPV4 :: nat where "ADDRTYPE_IPV4 = 1"
definition ADDRTYPE_IPV6 :: nat where "ADDRTYPE_IPV6 = 4"
definition ADDRTYPE_HOST :: nat where "ADDRTYPE_HOST = 3"

definition pack_addr :: "bytes \<Rightarrow> bytes" where
  "pack_addr address =
     (case sock_pton AF_INET address of
        Inr r \<Rightarrow> chrb ADDRTYPE_IPV4 # r
      | Inl _ \<Rightarrow>
          (case sock_pton AF_INET6 address of
             Inr r \<Rightarrow> chrb ADDRTYPE_IPV6 # r
           | Inl _ \<Rightarrow>
               (let a = (if length address > 255 then take 255 address else address)
                in chrb ADDRTYPE_HOST # chrb (length a) # a)))"

text \<open>\<^verbatim>\<open>pre_parse_header\<close>: the bytes in front of the header are taken off.\<close>

definition pre_parse_header :: "bytes \<Rightarrow> bytes option res" where
  "pre_parse_header data =
     (if data = [] then Inr None
      else
        (let datatype = ordb (hd data); n = length data in
         if datatype = 0x80 then
           (if n \<le> 2 then Inr None
            else
              (let rand_data_size = ordb (data ! 1) in
               if rand_data_size + 2 \<ge> n then Inr None else Inr (Some (drop (rand_data_size + 2) data))))
         else if datatype = 0x81 then Inr (Some (drop 1 data))
         else if datatype = 0x82 then
           (if n \<le> 3 then Inr None
            else
              (let rand_data_size = be_val (py_sub data 1 3) in
               if rand_data_size + 3 \<ge> n then Inr None else Inr (Some (drop (rand_data_size + 3) data))))
         else if datatype = 0x88 \<or> 255 - datatype = 0x88 then
           (if n \<le> 7 + 7 then Inr None
            else
              (let data_size = be_val (py_sub data 1 3); d = take data_size data in
               if crc32 d \<noteq> 0xFFFFFFFF then Inr None
               else rbind (ord_at d 3) (\<lambda>pad.
                 Inr (Some (py_slice d (int (3 + pad)) (-4) @ (if data_size < n then drop data_size data else []))))))
         else Inr (Some data)))"

text \<open>What \<^verbatim>\<open>parse_header\<close> returns. \<open>connecttype\<close> is 1 for UDP over TCP.\<close>

record header =
  connecttype :: nat
  addrtype :: nat
  dest_addr :: bytes
  dest_port :: nat
  header_length :: nat

definition parse_header :: "bytes \<Rightarrow> header option res" where
  "parse_header data =
     rbind (ord_at data 0) (\<lambda>t.
       let conn = (if t AND 8 \<noteq> 0 then 1 else 0); kind = t AND 247; n = length data in
       if kind = ADDRTYPE_IPV4 then
         (if n \<ge> 7
          then rbind (inet_ntoa (py_sub data 1 5)) (\<lambda>a.
                 rbind (unpack_be16 (py_sub data 5 7)) (\<lambda>p.
                   Inr (Some \<lparr>connecttype = conn, addrtype = kind, dest_addr = a, dest_port = p, header_length = 7\<rparr>)))
          else Inr None)
       else if kind = ADDRTYPE_HOST then
         (if n > 2
          then (let addrlen = ordb (data ! 1) in
                if n \<ge> 4 + addrlen
                then rbind (unpack_be16 (py_sub data (2 + addrlen) (4 + addrlen))) (\<lambda>p.
                       Inr (Some \<lparr>connecttype = conn, addrtype = kind, dest_addr = py_sub data 2 (2 + addrlen),
                                   dest_port = p, header_length = 4 + addrlen\<rparr>))
                else Inr None)
          else Inr None)
       else if kind = ADDRTYPE_IPV6 then
         (if n \<ge> 19
          then rbind (sock_ntop AF_INET6 (py_sub data 1 17)) (\<lambda>a.
                 rbind (unpack_be16 (py_sub data 17 19)) (\<lambda>p.
                   Inr (Some \<lparr>connecttype = conn, addrtype = kind, dest_addr = a, dest_port = p, header_length = 19\<rparr>)))
          else Inr None)
       else Inr None)"

subsection \<open>PortRange\<close>

record port_range =
  range_str :: bytes
  ports :: "int list"

function add_ports :: "int \<Rightarrow> int \<Rightarrow> int list \<Rightarrow> int list" where
  "add_ports i last_port s = (if i \<le> last_port then add_ports (i + 1) last_port (List.insert i s) else s)"
  by pat_completeness auto
termination
  by (relation "measure (\<lambda>(i, last_port, s). nat (last_port + 1 - i))") auto

declare add_ports.simps [simp del]

text \<open>An exception of \<^verbatim>\<open>int\<close> is logged and the item left out.\<close>

definition add_port_item :: "bytes \<Rightarrow> int list \<Rightarrow> int list" where
  "add_port_item item s =
     (let int_range = py_split ''-'' item in
      if length int_range = 1 then
        (if item \<noteq> [] then (case py_int item of None \<Rightarrow> s | Some n \<Rightarrow> List.insert n s) else s)
      else if length int_range = 2 then
        (case (py_int (int_range ! 0), py_int (int_range ! 1)) of
           (Some a, Some b) \<Rightarrow> add_ports (if a < 0 then 0 else a) (if b > 65535 then 65535 else b) s
         | _ \<Rightarrow> s)
      else s)"

definition port_range_new :: "bytes \<Rightarrow> port_range" where
  "port_range_new s = \<lparr>range_str = s, ports = fold add_port_item (py_split '','' s) []\<rparr>"

definition in_port_range :: "int \<Rightarrow> port_range \<Rightarrow> bool" where
  "in_port_range val r \<longleftrightarrow> val \<in> set (ports r)"

definition port_range_eq :: "port_range \<Rightarrow> port_range \<Rightarrow> bool" where
  "port_range_eq r r' \<longleftrightarrow> range_str r = range_str r'"

subsection \<open>Ports\<close>

lemma set_add_ports: "set (add_ports i j s) = {i..j} \<union> set s"
proof (induction i j s rule: add_ports.induct)
  case (1 i j s)
  show ?case
  proof (cases "i \<le> j")
    case True
    then have "{i..j} = insert i {i + 1..j}" by auto
    then show ?thesis using 1 True by (simp add: add_ports.simps [of i])
  qed (simp add: add_ports.simps [of i])
qed

text \<open>The ports that an item of the text names.\<close>

definition item_ports :: "bytes \<Rightarrow> int set" where
  "item_ports item =
     (case py_split ''-'' item of
        [a] \<Rightarrow> (case py_int a of None \<Rightarrow> {} | Some n \<Rightarrow> {n})
      | [a, b] \<Rightarrow> (case (py_int a, py_int b) of (Some m, Some n) \<Rightarrow> {max 0 m..min 65535 n} | _ \<Rightarrow> {})
      | _ \<Rightarrow> {})"

lemma split_single: "py_split sep s = [a] \<Longrightarrow> a = s"
  using py_join_split [of sep s] by simp

lemma py_int_Nil: "py_int [] = None"
  by (simp add: py_int_def py_strip_def)

lemma set_add_port_item: "set (add_port_item item s) = item_ports item \<union> set s"
proof -
  consider a where "py_split ''-'' item = [a]" "a = item" | a b where "py_split ''-'' item = [a, b]"
    | a b c r where "py_split ''-'' item = a # b # c # r"
    using split_single by (metis list.exhaust py_split_not_Nil)
  then show ?thesis
  proof cases
    case 1
    then show ?thesis by (cases "item = []") (auto simp: add_port_item_def item_ports_def py_int_Nil split: option.split)
  next
    case 2
    then show ?thesis by (auto simp: add_port_item_def item_ports_def set_add_ports split: option.split)
  next
    case 3
    then show ?thesis by (simp add: add_port_item_def item_ports_def)
  qed
qed

text \<open>A port range holds exactly the ports that one of its items names, a number or an interval cut
  off at 0 and 65535; an item that is neither names none.\<close>

theorem port_range_exact: "in_port_range p (port_range_new s) \<longleftrightarrow> (\<exists>item \<in> set (py_split '','' s). p \<in> item_ports item)"
proof -
  have "set (fold add_port_item items acc) = (\<Union>item \<in> set items. item_ports item) \<union> set acc" for items acc
    by (induction items arbitrary: acc) (auto simp: set_add_port_item)
  then show ?thesis by (auto simp: in_port_range_def port_range_new_def)
qed

subsection \<open>Headers are read back\<close>

lemma no_literal_host:
  assumes "sock_pton AF_INET a = Inl e" "sock_pton AF_INET6 a = Inl e'" "length a \<le> 255"
  shows "pack_addr a = chrb 3 # chrb (length a) # a"
  using assms by (simp add: pack_addr_def ADDRTYPE_HOST_def)

lemma pack_addr_ip:
  "length b = 4 \<Longrightarrow> pack_addr (dotted b) = chrb 1 # b"
  "length b = 16 \<Longrightarrow> pack_addr (sock_ntop6 (words_of b)) = chrb 4 # b"
proof -
  show "length b = 4 \<Longrightarrow> pack_addr (dotted b) = chrb 1 # b"
    using pton_aton by (simp add: pack_addr_def ADDRTYPE_IPV4_def)
next
  assume b: "length b = 16"
  have w: "words_ok (words_of b)" "length (words_of b) = 8" "concat (map be16 (words_of b)) = b" using words_of_spec [of b] b by simp_all
  have "CHR '':'' \<in> set (sock_ntop6 (words_of b))" using ntop6_colon [OF w(1,2)] .
  moreover have "dec_octet g = None" if "CHR '':'' \<in> set g" for g
    using base_val_bad [OF that, of 10] by (simp add: dec_octet_def unhex_digit_def)
  ultimately have "None \<in> set (map dec_octet (py_split ''.'' (sock_ntop6 (words_of b))))"
    using in_split [of "CHR '':''" "sock_ntop6 (words_of b)" "''.''"] by (force simp: image_iff)
  then have "sock_pton AF_INET (sock_ntop6 (words_of b)) = Inl OSError"
    by (simp add: sock_pton_def sock_pton4_def all_some_None)
  then show "pack_addr (sock_ntop6 (words_of b)) = chrb 4 # b"
    using sock_pton6_ntop6 [OF w(1,2)] w(3) by (simp add: pack_addr_def sock_pton_def ADDRTYPE_IPV6_def)
qed


lemma take_Suc_sub: "0 < length s \<Longrightarrow> 1 \<le> n \<Longrightarrow> tl (take n s) = py_sub s 1 n"
  by (cases s; cases n) (simp_all add: py_sub_def)

lemma sub_split: "i \<le> j \<Longrightarrow> j \<le> k \<Longrightarrow> py_sub s i k = py_sub s i j @ py_sub s j k"
proof -
  assume "i \<le> j" "j \<le> k"
  then have "k - i = (j - i) + (k - j)" "j - i + i = j" by simp_all
  then show ?thesis by (simp only: py_sub_def take_add drop_drop)
qed

lemma parse_header_ipv4:
  assumes "length a = 4" and "p < 65536"
  shows "parse_header (chrb 1 # a @ be16 p @ rest)
    = Inr (Some \<lparr>connecttype = 0, addrtype = 1, dest_addr = dotted a, dest_port = p, header_length = 7\<rparr>)"
proof -
  have "py_sub (chrb 1 # a @ be16 p @ rest) 1 5 = a" using py_sub_exact [of "[chrb 1]" 1 a 5] assms(1) by simp
  moreover have "py_sub (chrb 1 # a @ be16 p @ rest) 5 7 = be16 p"
    using py_sub_exact [of "chrb 1 # a" 5 "be16 p" 7] assms(1) by simp
  moreover have "ord_at (chrb 1 # a @ be16 p @ rest) 0 = Inr 1" by (simp add: ord_at_def)
  ultimately show ?thesis using assms by (simp add: parse_header_def ADDRTYPE_IPV4_def inet_ntoa_def)
qed

text \<open>C38. The address and port that \<^verbatim>\<open>parse_header\<close> reads out of a header are packed to the same
  header again, without the flag of the connect type, unless a host name is the text of an
  address; the port has 16 bits, and the header lies within the data.\<close>

theorem parse_header_repack:
  assumes "parse_header data = Inr (Some h)"
    and "addrtype h = ADDRTYPE_HOST \<longrightarrow> (\<forall>af. \<exists>e. sock_pton af (dest_addr h) = Inl e)"
  shows "pack_addr (dest_addr h) @ be16 (dest_port h) = chrb (addrtype h) # tl (take (header_length h) data)
     \<and> dest_port h < 65536 \<and> header_length h \<le> length data"
proof -
  have data: "0 < length data" using assms(1) by (auto simp: parse_header_def ord_at_def split: if_splits)
  have port: "unpack_be16 (py_sub data i (i + 2)) = Inr (be_val (py_sub data i (i + 2)))"
    "be16 (be_val (py_sub data i (i + 2))) = py_sub data i (i + 2)" "be_val (py_sub data i (i + 2)) < 65536"
    if "i + 2 \<le> length data" for i
    using that be16_be_val [of "py_sub data i (i + 2)"] be_val_2 [of "py_sub data i (i + 2)"]
    by (simp_all add: unpack_be16_def length_py_sub)
  note p = assms(1) [unfolded parse_header_def ord_at_def Let_def]
  consider (v4) "addrtype h = 1" "7 \<le> length data" "dest_addr h = dotted (py_sub data 1 5)"
      "dest_port h = be_val (py_sub data 5 7)" "header_length h = 7"
    | (host) n where "addrtype h = 3" "n = ordb (data ! 1)" "4 + n \<le> length data" "dest_addr h = py_sub data 2 (2 + n)"
      "dest_port h = be_val (py_sub data (2 + n) (4 + n))" "header_length h = 4 + n"
    | (v6) "addrtype h = 4" "19 \<le> length data" "dest_addr h = sock_ntop6 (words_of (py_sub data 1 17))"
      "dest_port h = be_val (py_sub data 17 19)" "header_length h = 19"
    using p data
    by (auto simp: rbind_eq_Inr inet_ntoa_def sock_ntop_def unpack_be16_def length_py_sub
        ADDRTYPE_IPV4_def ADDRTYPE_HOST_def ADDRTYPE_IPV6_def split: if_splits)
  then show ?thesis
  proof cases
    case v4
    have "tl (take 7 data) = py_sub data 1 5 @ py_sub data 5 7"
      using take_Suc_sub [OF data, of 7] sub_split [of 1 5 7 data] by simp
    then show ?thesis using v4 pack_addr_ip(1) [of "py_sub data 1 5"] port [of 5] by (simp add: length_py_sub)
  next
    case (host n)
    have l: "length (py_sub data 2 (2 + n)) = n" using host(3) by (simp add: length_py_sub)
    have "n \<le> 255" using host(2) by simp
    moreover have "addrtype h = ADDRTYPE_HOST" using host(1) by (simp add: ADDRTYPE_HOST_def)
    then obtain e e' where "sock_pton AF_INET (dest_addr h) = Inl e" "sock_pton AF_INET6 (dest_addr h) = Inl e'"
      using assms(2) by blast
    ultimately have "pack_addr (dest_addr h) = chrb 3 # chrb n # py_sub data 2 (2 + n)"
      using no_literal_host [of "dest_addr h" e e'] host(4) l by simp
    moreover have "py_sub data 1 2 = [chrb n]" using host(2,3) by (simp add: py_sub_def take_Suc hd_drop_conv_nth)
    then have "tl (take (4 + n) data) = chrb n # py_sub data 2 (2 + n) @ py_sub data (2 + n) (4 + n)"
      using take_Suc_sub [OF data, of "4 + n"] sub_split [of 1 2 "4 + n" data] sub_split [of 2 "2 + n" "4 + n" data] by simp
    moreover have "2 + n + 2 = 4 + n" by simp
    note port [of "2 + n", unfolded this]
    ultimately show ?thesis using host(1,3-6) by simp
  next
    case v6
    have "tl (take 19 data) = py_sub data 1 17 @ py_sub data 17 19"
      using take_Suc_sub [OF data, of 19] sub_split [of 1 17 19 data] by simp
    then show ?thesis using v6 pack_addr_ip(2) [of "py_sub data 1 17"] port [of 17] by (simp add: length_py_sub)
  qed
qed

theorem parse_header_repack_witness:
  "pack_addr (dotted ''abcd'') @ be16 53 = chrb 1 # ''abcd'' @ be16 53"
proof -
  from parse_header_repack [OF parse_header_ipv4 [of "''abcd''" 53 "''x''"]] show ?thesis
    by (simp add: ADDRTYPE_HOST_def)
qed


subsection \<open>Padding in front of a header\<close>

text \<open>A register that is small after a bit of the message was not much larger before it, so that no
  message of fewer than four bytes has the residue.\<close>

lemma crc_bit_small: "unat (crc_bit c) < 2 ^ k \<Longrightarrow> k \<le> 31 \<Longrightarrow> unat c < 2 ^ Suc k"
proof -
  assume s: "unat (crc_bit c) < 2 ^ k" and k: "k \<le> 31"
  have d: "unat (drop_bit 1 c) = unat c div 2" for c :: "32 word"
    by (simp only: unsigned_drop_bit_eq) (simp add: drop_bit_eq_div take_bit_nat_eq_self unat_less_32)
  have "\<not> bit c 0"
  proof
    assume "bit c 0"
    then have "crc_bit c = drop_bit 1 c XOR 0xEDB88320" by (simp add: crc_bit_def)
    moreover have "\<not> bit (drop_bit 1 c) 31" by (auto simp: bit_drop_bit_eq dest: bit_imp_le_length)
    moreover have "bit (0xEDB88320 :: 32 word) 31" by simp
    ultimately have "bit (crc_bit c) 31" by (simp add: bit_xor_iff)
    then have "bit (unat (crc_bit c)) 31" by (simp add: bit_unsigned_iff)
    then have "2 ^ 31 \<le> unat (crc_bit c)" by (simp add: bit_iff_odd) (metis div_less even_zero not_le)
    moreover have "(2::nat) ^ k \<le> 2 ^ 31" using k by (intro power_increasing) auto
    ultimately show False using s by linarith
  qed
  then have "unat c div 2 < 2 ^ k" using s d [of c] by (simp add: crc_bit_def)
  then show ?thesis by simp
qed


lemma crc_byte_small: "unat (crc_byte c b) < 2 ^ (8 * k) \<Longrightarrow> k \<le> 3 \<Longrightarrow> unat c < 2 ^ (8 * Suc k)"
proof -
  assume s: "unat (crc_byte c b) < 2 ^ (8 * k)" and k: "k \<le> 3"
  have iter: "unat ((crc_bit ^^ n) d) < 2 ^ m \<Longrightarrow> m + n \<le> 32 \<Longrightarrow> unat d < 2 ^ (m + n)" for n m d
  proof (induction n arbitrary: m)
    case (Suc n)
    then have "unat ((crc_bit ^^ n) d) < 2 ^ Suc m" by (intro crc_bit_small) simp_all
    then show ?case using Suc.IH [of "Suc m"] Suc.prems(2) by simp
  qed simp
  let ?x = "of_nat (ordb b) :: 32 word"
  have x: "unat (c XOR ?x) < 2 ^ (8 * Suc k)"
    using iter [of 8 "c XOR ?x" "8 * k"] s k by (simp add: crc_byte_def add.commute)
  have "unat ?x = ordb b"
  proof -
    have "ordb b < 2 ^ LENGTH(32)" using ordb_less [of b] by (simp del: ordb_less)
    then show ?thesis by (simp only: unsigned_of_nat take_bit_nat_eq_self of_nat_id)
  qed
  then have y: "unat ?x < 2 ^ (8 * Suc k)" using less_le_trans [OF ordb_less [of b], of "2 ^ (8 * Suc k)"] power_increasing [of 8 "8 * Suc k" "2::nat"] by simp
  have "unat c = unat (c XOR ?x) XOR unat ?x" by (simp flip: unsigned_xor_eq add: xor.assoc)
  then show ?thesis using xor_nat_less [OF x y] by simp
qed

lemma crc32_short: "length d < 4 \<Longrightarrow> crc32 d \<noteq> 0xFFFFFFFF"
proof
  assume d: "length d < 4" and "crc32 d = 0xFFFFFFFF"
  then have z: "unat (crc_reg 0xFFFFFFFF d) = 0"
    using unat_less_32 [of "crc_reg 0xFFFFFFFF d"] by (simp add: crc32_def unat_not_32 del: unsigned_0 unat_eq_0)
  have "unat (crc_reg c e) < 2 ^ (8 * k) \<Longrightarrow> k + length e \<le> 4 \<Longrightarrow> unat c < 2 ^ (8 * (k + length e))" for c e k
  proof (induction e arbitrary: k rule: rev_induct)
    case (snoc b e)
    have "unat (crc_byte (crc_reg c e) b) < 2 ^ (8 * k)" using snoc.prems(1) by (simp add: crc_reg_def)
    then have "unat (crc_reg c e) < 2 ^ (8 * Suc k)" using snoc.prems(2) by (intro crc_byte_small) simp_all
    then show ?case using snoc.IH [of "Suc k"] snoc.prems(2) by simp
  qed (simp add: crc_reg_def)
  from this [of "0xFFFFFFFF" d 0] have "unat (0xFFFFFFFF :: 32 word) < 2 ^ (8 * length d)" using z d by simp
  moreover have "(2::nat) ^ (8 * length d) \<le> 2 ^ 24" using d by (intro power_increasing) auto
  ultimately show False by simp
qed

text \<open>The padded forms of a header: with a count of one byte or of two, and with a checksum, where the
  padding's length counts its own byte and the checksum closes the first packet.\<close>

fun padded :: "nat \<Rightarrow> bytes \<Rightarrow> bytes \<Rightarrow> bytes" where
  "padded t pad body =
     (if t = 0x80 then chrb t # chrb (length pad) # pad @ body
      else if t = 0x81 then chrb t # body
      else if t = 0x82 then chrb t # be16 (length pad) @ pad @ body
      else
        (let d = chrb t # be16 (8 + length pad + length body) @ chrb (1 + length pad) # pad @ body
         in d @ le32 (0xFFFFFFFF - crc32 d)))"

definition pad_limit :: "nat \<Rightarrow> nat" where
  "pad_limit t = (if t = 0x82 then 65535 else if t = 0x80 then 255 else 254)"

text \<open>\<^verbatim>\<open>pre_parse_header\<close> takes exactly the padding off, in all five padded forms, and keeps
  what follows the first packet; whatever the data, it never raises: the checksum's residue keeps
  its unchecked index inside the packet.\<close>

theorem pre_parse_header_padding:
  assumes "t \<in> {0x80, 0x81, 0x82, 0x88, 0x77}" and "length pad \<le> pad_limit t" and "7 \<le> length body" and "length body < 60000"
  shows "(\<forall>data. \<exists>r. pre_parse_header data = Inr r)
     \<and> pre_parse_header (padded t pad body @ (if t \<in> {0x88, 0x77} then rest else [])) = Inr (Some (body @ (if t \<in> {0x88, 0x77} then rest else [])))"
proof
  show "\<forall>data. \<exists>r. pre_parse_header data = Inr r"
  proof
    fix data
    have "\<exists>x. ord_at d 3 = Inr x" if "crc32 d = 0xFFFFFFFF" for d
      using crc32_short [of d] that by (cases "length d < 4") (auto simp: ord_at_def)
    then show "\<exists>r. pre_parse_header data = Inr r"
      by (auto simp: pre_parse_header_def Let_def rbind_def split: sum.split) (metis Inr_Inl_False)+
  qed
next
  consider "t = 0x80" | "t = 0x81" | "t = 0x82" | "t = 0x88 \<or> t = 0x77" using assms(1) by auto
  then show "pre_parse_header (padded t pad body @ (if t \<in> {0x88, 0x77} then rest else [])) = Inr (Some (body @ (if t \<in> {0x88, 0x77} then rest else [])))"
  proof cases
    case 1
    moreover have "body \<noteq> []" using assms(3) by auto
    ultimately show ?thesis using assms(2) by (simp add: pre_parse_header_def pad_limit_def Let_def)
  next
    case 2
    then show ?thesis using assms(3) by (simp add: pre_parse_header_def)
  next
    case 3
    have "py_sub (chrb 130 # be16 (length pad) @ pad @ body) 1 3 = be16 (length pad)"
      using py_sub_exact [of "[chrb 130]" 1 "be16 (length pad)" 3] by simp
    moreover have "drop (length pad + 3) (chrb 130 # be16 (length pad) @ pad @ body) = body" by (simp add: be16_def numeral_3_eq_3)
    moreover have "body \<noteq> []" using assms(3) by auto
    ultimately show ?thesis using 3 assms(2) by (simp add: pre_parse_header_def pad_limit_def Let_def)
  next
    case 4
    define n where "n = 8 + length pad + length body"
    define h where "h = chrb t # be16 n @ chrb (1 + length pad) # pad @ body"
    define d where "d = h @ le32 (0xFFFFFFFF - crc32 h)"
    have n: "n < 65536" "length d = n" using assms(2,4) 4 by (auto simp: n_def d_def h_def pad_limit_def)
    have p: "padded t pad body = d" using 4 by (auto simp: d_def h_def n_def Let_def)
    have f: "py_sub (d @ rest) 1 3 = be16 n" "d ! 3 = chrb (1 + length pad)" "hd d = chrb t" "d \<noteq> []"
      using py_sub_exact [of "[chrb t]" 1 "be16 n" 3] by (simp_all add: d_def h_def be16_def nth_append)
    have pad: "length pad \<le> 254" using assms(2) 4 by (auto simp: pad_limit_def)
    have pre: "length (chrb t # be16 n @ chrb (1 + length pad) # pad) = 4 + length pad" by simp
    have "py_slice d (int (3 + (1 + length pad))) (-4) = py_sub d (4 + length pad) (n - 4)"
      using n(2) by (simp add: py_slice_def clamp_index_def n_def nat_add_distrib)
    also have "\<dots> = body"
    proof -
      have "d = (chrb t # be16 n @ chrb (1 + length pad) # pad) @ body @ le32 (0xFFFFFFFF - crc32 h)" by (simp add: d_def h_def)
      then show ?thesis using py_sub_exact [OF pre, of body "n - 4"] by (simp add: n_def)
    qed
    finally have body: "py_slice d (int (3 + (1 + length pad))) (-4) = body" .
    have crc: "crc32 d = 0xFFFFFFFF" unfolding d_def by (rule crc32_residue)
    have o: "ord_at d 3 = Inr (1 + length pad)" using pad n(2) f(2) by (simp add: ord_at_def n_def)
    have t: "ordb (hd (d @ rest)) = t" using f(3,4) 4 by auto
    have "14 < length (d @ rest)" using n(2) assms(3) by (simp add: n_def)
    then have "pre_parse_header (d @ rest) = Inr (Some (body @ rest))"
      using 4 f(1,4) t n crc o body by (auto simp: pre_parse_header_def Let_def)
    then show ?thesis using 4 p by auto
  qed
qed

theorem pre_parse_header_padding_witness:
  "pre_parse_header (padded 0x80 ''ab'' ''1234567'') = Inr (Some ''1234567'')"
  using pre_parse_header_padding [of "0x80" "''ab''" "''1234567''" "[]"] by (simp add: pad_limit_def del: padded.simps)

end
