(* ===== verification/Dns_Message.thy ===== *)
theory Dns_Message
  imports Inet
begin

unbundle bit_operations_syntax

text \<open>
  The messages of \<^verbatim>\<open>asyncdns.py\<close>: building a request, reading names with compression pointers,
  records and responses. \<open>parse_name\<close> calls itself at every pointer; its first argument is the depth
  of the stack that is left, at whose end Python raises \<^const>\<open>RuntimeError\<close>.
\<close>

subsection \<open>Requests\<close>

definition QTYPE_A :: nat where "QTYPE_A = 1"
definition QTYPE_AAAA :: nat where "QTYPE_AAAA = 28"
definition QTYPE_CNAME :: nat where "QTYPE_CNAME = 5"
definition QTYPE_NS :: nat where "QTYPE_NS = 2"
definition QCLASS_IN :: nat where "QCLASS_IN = 1"

lemmas dns_constants = QTYPE_A_def QTYPE_AAAA_def QTYPE_CNAME_def QTYPE_NS_def QCLASS_IN_def

definition strip_dots :: "bytes \<Rightarrow> bytes" where
  "strip_dots s = rev (dropWhile (\<lambda>c. c = CHR ''.'') (rev (dropWhile (\<lambda>c. c = CHR ''.'') s)))"

fun build_labels :: "bytes list \<Rightarrow> bytes option" where
  "build_labels [] = Some [chrb 0]"
| "build_labels (label # labels) =
     (if length label > 63 then None
      else (case build_labels labels of None \<Rightarrow> None | Some r \<Rightarrow> Some (chrb (length label) # label @ r)))"

definition build_address :: "bytes \<Rightarrow> bytes option" where
  "build_address address = build_labels (py_split ''.'' (strip_dots address))"

text \<open>Adding \<^verbatim>\<open>None\<close> to a string is a \<^const>\<open>TypeError\<close>.\<close>

definition build_request :: "bytes \<Rightarrow> nat \<Rightarrow> tape \<Rightarrow> bytes res \<times> tape" where
  "build_request address qtype t =
     (let (request_id, t') = urandom 2 t;
          header = chrb 1 # chrb 0 # be16 1 @ be16 0 @ be16 0 @ be16 0
      in (case build_address address of
            None \<Rightarrow> Inl TypeError
          | Some addr \<Rightarrow> Inr (request_id @ header @ addr @ be16 qtype @ be16 QCLASS_IN), t'))"

subsection \<open>Names\<close>

text \<open>The loop of \<^verbatim>\<open>parse_name\<close>, from the position \<open>p\<close>: where the name ends, and its labels.\<close>

function name_loop :: "nat \<Rightarrow> bytes \<Rightarrow> nat \<Rightarrow> bytes list \<Rightarrow> (nat \<times> bytes list) res" where
  "name_loop depth data p labels =
     (if p \<ge> length data then Inl IndexError
      else
        (let l = ordb (data ! p) in
         if l = 0 then Inr (p + 1, labels)
         else if l AND 192 = 192 then
           (if length data < p + 2 then Inl StructError
            else case depth of
                   0 \<Rightarrow> Inl RuntimeError
                 | Suc d \<Rightarrow>
                     rbind (name_loop d data (be_val (py_sub data p (p + 2)) AND 0x3FFF) [])
                       (\<lambda>(_, ls). Inr (p + 2, labels @ [py_join ''.'' ls])))
         else name_loop depth data (p + 1 + l) (labels @ [py_sub data (p + 1) (p + 1 + l)])))"
  by pat_completeness auto
termination
  by (relation "measures [\<lambda>(depth, data, p, labels). depth, \<lambda>(depth, data, p, labels). length data - p]") auto

declare name_loop.simps [simp del]

definition parse_name :: "nat \<Rightarrow> bytes \<Rightarrow> nat \<Rightarrow> (nat \<times> bytes) res" where
  "parse_name depth data offset =
     rbind (name_loop depth data offset []) (\<lambda>(p, labels). Inr (p - offset, py_join ''.'' labels))"

subsection \<open>Records\<close>

definition parse_ip :: "nat \<Rightarrow> bytes \<Rightarrow> nat \<Rightarrow> nat \<Rightarrow> bytes res" where
  "parse_ip addrtype data len offset =
     (if addrtype = QTYPE_A then sock_ntop AF_INET (py_sub data offset (offset + len))
      else if addrtype = QTYPE_AAAA then sock_ntop AF_INET6 (py_sub data offset (offset + len))
      else if addrtype = QTYPE_CNAME \<or> addrtype = QTYPE_NS
        then rbind (parse_name stack_depth data offset) (\<lambda>(_, name). Inr name)
      else Inr (py_sub data offset (offset + len)))"

record dns_record =
  r_name :: bytes
  r_ip :: "bytes option"
  r_type :: nat
  r_class :: nat
  r_ttl :: "int option"

text \<open>The signed code \<^verbatim>\<open>'i'\<close>\<close>

definition signed32 :: "nat \<Rightarrow> int" where
  "signed32 n = (if n < 2147483648 then int n else int n - 4294967296)"

definition parse_record :: "bytes \<Rightarrow> nat \<Rightarrow> bool \<Rightarrow> (nat \<times> dns_record) res" where
  "parse_record data offset question =
     rbind (parse_name stack_depth data offset) (\<lambda>(nlen, name).
       if \<not> question then
         (let s = py_sub data (offset + nlen) (offset + nlen + 10) in
          if length s \<noteq> 10 then Inl StructError
          else
            (let record_type = be_val (take 2 s); record_class = be_val (py_sub s 2 4);
                 record_ttl = signed32 (be_val (py_sub s 4 8)); record_rdlength = be_val (py_sub s 8 10)
             in rbind (parse_ip record_type data record_rdlength (offset + nlen + 10)) (\<lambda>ip.
                  Inr (nlen + 10 + record_rdlength,
                       \<lparr>r_name = name, r_ip = Some ip, r_type = record_type, r_class = record_class,
                         r_ttl = Some record_ttl\<rparr>))))
       else
         (let s = py_sub data (offset + nlen) (offset + nlen + 4) in
          if length s \<noteq> 4 then Inl StructError
          else Inr (nlen + 4,
                    \<lparr>r_name = name, r_ip = None, r_type = be_val (take 2 s), r_class = be_val (py_sub s 2 4),
                      r_ttl = None\<rparr>)))"

fun parse_records :: "nat \<Rightarrow> bytes \<Rightarrow> nat \<Rightarrow> bool \<Rightarrow> (nat \<times> dns_record list) res" where
  "parse_records 0 data offset question = Inr (offset, [])"
| "parse_records (Suc n) data offset question =
     rbind (parse_record data offset question) (\<lambda>(l, r).
       rbind (parse_records n data (offset + l) question) (\<lambda>(offset', rs). Inr (offset', r # rs)))"

subsection \<open>Responses\<close>

record dns_header =
  res_id :: nat
  res_qr :: nat
  res_tc :: nat
  res_ra :: nat
  res_rcode :: nat
  res_qdcount :: nat
  res_ancount :: nat
  res_nscount :: nat
  res_arcount :: nat

definition parse_dns_header :: "bytes \<Rightarrow> dns_header option" where
  "parse_dns_header data =
     (if length data \<ge> 12
      then Some \<lparr>res_id = be_val (take 2 data), res_qr = ordb (data ! 2) AND 128, res_tc = ordb (data ! 2) AND 2,
             res_ra = ordb (data ! 3) AND 128, res_rcode = ordb (data ! 3) AND 15,
             res_qdcount = be_val (py_sub data 4 6), res_ancount = be_val (py_sub data 6 8),
             res_nscount = be_val (py_sub data 8 10), res_arcount = be_val (py_sub data 10 12)\<rparr>
      else None)"

record dns_response =
  hostname :: "bytes option"
  questions :: "(bytes option \<times> nat \<times> nat) list"
  answers :: "(bytes option \<times> nat \<times> nat) list"

text \<open>The body of the \<^verbatim>\<open>try\<close>; every exception in it is logged and gives \<^verbatim>\<open>None\<close>.\<close>

definition read_response :: "bytes \<Rightarrow> dns_header \<Rightarrow> dns_response res" where
  "read_response data h =
     rbind (parse_records (res_qdcount h) data 12 True) (\<lambda>(o1, qds).
     rbind (parse_records (res_ancount h) data o1 False) (\<lambda>(o2, ans).
     rbind (parse_records (res_nscount h) data o2 False) (\<lambda>(o3, _).
     rbind (parse_records (res_arcount h) data o3 False) (\<lambda>_.
       let entry = (\<lambda>r. (r_ip r, r_type r, r_class r))
       in Inr \<lparr>hostname = (case qds of [] \<Rightarrow> None | q # _ \<Rightarrow> Some (r_name q)),
                questions = map entry qds, answers = map entry ans\<rparr>))))"

definition parse_response :: "bytes \<Rightarrow> dns_response option" where
  "parse_response data =
     (case parse_dns_header data of
        None \<Rightarrow> None
      | Some h \<Rightarrow> (case read_response data h of Inl _ \<Rightarrow> None | Inr r \<Rightarrow> Some r))"

subsection \<open>Host names\<close>

definition hostname_char :: "char \<Rightarrow> bool" where
  "hostname_char c \<longleftrightarrow>
     (let n = ordb c in 65 \<le> n \<and> n \<le> 90 \<or> 97 \<le> n \<and> n \<le> 122 \<or> 48 \<le> n \<and> n \<le> 57 \<or> n = 95 \<or> n = 45)"

text \<open>The expression \<^verbatim>\<open>(?!-)[A-Z\d_-]{1,63}(?<!-)$\<close>, whose end also stands before a last line feed.\<close>

definition valid_label :: "bytes \<Rightarrow> bool" where
  "valid_label x \<longleftrightarrow>
     (let y = (if x \<noteq> [] \<and> ordb (last x) = 10 then butlast x else x)
      in y \<noteq> [] \<and> length y \<le> 63 \<and> list_all hostname_char y \<and> hd y \<noteq> CHR ''-'' \<and> last y \<noteq> CHR ''-'')"

definition is_valid_hostname :: "bytes \<Rightarrow> bool res" where
  "is_valid_hostname h =
     (if length h > 255 then Inr False
      else if h = [] then Inl IndexError
      else
        (let h' = (if last h = CHR ''.'' then butlast h else h)
         in Inr (list_all valid_label (py_split ''.'' h'))))"


subsection \<open>Names are read as they are built\<close>

definition good_labels :: "bytes list \<Rightarrow> bool" where
  "good_labels ls \<longleftrightarrow> list_all (\<lambda>l. l \<noteq> [] \<and> length l \<le> 63) ls"

lemma small_label_bits: "0 < (l::nat) \<Longrightarrow> l \<le> 63 \<Longrightarrow> l AND 192 \<noteq> 192"
proof -
  assume "l \<le> 63"
  then have "l AND 192 = take_bit 6 l AND 192" by (simp add: take_bit_nat_eq_self)
  also have "\<dots> = l AND (take_bit 6 192)" by (simp only: take_bit_eq_mask ac_simps)
  also have "take_bit 6 (192::nat) = 0" by (simp add: take_bit_eq_mod)
  finally show ?thesis by simp
qed

lemma build_labels_Some: "good_labels ls \<Longrightarrow> \<exists>a. build_labels ls = Some a \<and> a \<noteq> []"
  by (induction ls) (auto simp: good_labels_def)

lemma name_loop_labels:
  "good_labels ls \<Longrightarrow> build_labels ls = Some a \<Longrightarrow>
   name_loop depth (pre @ a @ post) (length pre) acc = Inr (length pre + length a, acc @ ls)"
proof (induction ls arbitrary: a pre acc)
  case Nil
  then show ?case by (subst name_loop.simps) auto
next
  case (Cons l ls)
  then have l: "l \<noteq> []" "length l \<le> 63" "good_labels ls" by (simp_all add: good_labels_def)
  obtain r where r: "build_labels ls = Some r" using build_labels_Some [OF l(3)] by blast
  have a: "a = chrb (length l) # l @ r" using Cons.prems(2) l(2) r by simp
  have "0 < length l" using l(1) by simp
  then have b: "length l AND 192 \<noteq> 192" using l(2) by (rule small_label_bits)
  have "py_sub (pre @ a @ post) (length pre + 1) (length pre + 1 + length l) = l"
    using py_sub_exact [of "pre @ [chrb (length l)]" "length pre + 1" l "length pre + 1 + length l" "r @ post"] by (simp add: a)
  moreover have "name_loop depth ((pre @ chrb (length l) # l) @ r @ post) (length (pre @ chrb (length l) # l)) (acc @ [l])
      = Inr (length (pre @ chrb (length l) # l) + length r, (acc @ [l]) @ ls)"
    by (rule Cons.IH [OF l(3) r])
  ultimately show ?case
    using l(1,2) b by (subst name_loop.simps) (simp add: a nth_append)
qed

lemma parse_name_built:
  "good_labels ls \<Longrightarrow> build_labels ls = Some a \<Longrightarrow>
   parse_name depth (pre @ a @ post) (length pre) = Inr (length a, py_join ''.'' ls)"
  using name_loop_labels [of ls a depth pre post "[]"] by (simp add: parse_name_def)

text \<open>A pointer to the twelfth byte, where the name of the question is.\<close>

lemma parse_name_pointer:
  assumes "name_loop d data 12 [] = Inr (e, ls)" and "py_sub data i (i + 2) = [chrb 192, chrb 12]" and "i + 2 \<le> length data"
  shows "parse_name (Suc d) data i = Inr (2, py_join ''.'' ls)"
proof -
  have "data ! i = chrb 192"
  proof -
    have "data ! i = hd (py_sub data i (i + 2))" using assms(3) by (simp add: py_sub_def hd_drop_conv_nth hd_take)
    then show ?thesis using assms(2) by simp
  qed
  moreover have "be_val [chrb 192, chrb 12] AND 0x3FFF = 12" by (simp add: be_val_def)
  ultimately show ?thesis
    using assms by (simp add: parse_name_def) (subst name_loop.simps, simp)
qed

subsection \<open>An answer is understood\<close>

text \<open>The answer of a name server: the question again, and address records whose names point at it.\<close>

record address_record =
  ar_family :: family
  ar_ttl :: nat
  ar_addr :: bytes

definition ar_qtype :: "address_record \<Rightarrow> nat" where
  "ar_qtype a = (case ar_family a of AF_INET \<Rightarrow> QTYPE_A | AF_INET6 \<Rightarrow> QTYPE_AAAA)"

definition ar_bytes :: "address_record \<Rightarrow> bytes" where
  "ar_bytes a = [chrb 192, chrb 12] @ be16 (ar_qtype a) @ be16 QCLASS_IN @ be32 (ar_ttl a) @ be16 (length (ar_addr a)) @ ar_addr a"

definition ar_ok :: "address_record \<Rightarrow> bool" where
  "ar_ok a \<longleftrightarrow> length (ar_addr a) = addr_bytes (ar_family a)"

definition ar_text :: "address_record \<Rightarrow> bytes" where
  "ar_text a = (case ar_family a of AF_INET \<Rightarrow> dotted (ar_addr a) | AF_INET6 \<Rightarrow> sock_ntop6 (words_of (ar_addr a)))"

definition dns_answer :: "bytes \<Rightarrow> bytes \<Rightarrow> address_record list \<Rightarrow> bytes" where
  "dns_answer flags request recs =
     take 2 request @ flags @ be16 1 @ be16 (length recs) @ be16 0 @ be16 0 @ drop 12 request @ concat (map ar_bytes recs)"

lemma ar_qtype_less: "ar_qtype a < 65536"
  by (simp add: ar_qtype_def dns_constants split: family.split)

lemma parse_ip_address:
  assumes "ar_ok a" and "py_sub data p (p + length (ar_addr a)) = ar_addr a"
  shows "parse_ip (ar_qtype a) data (length (ar_addr a)) p = Inr (ar_text a)"
  using assms by (cases "ar_family a")
    (simp_all add: parse_ip_def ar_qtype_def ar_ok_def addr_bytes_def ar_text_def sock_ntop_def dns_constants)

lemma parse_record_address:
  assumes ok: "ar_ok a" and name: "name_loop 999 data 12 [] = Inr (e, ls)" and data: "data = pre @ ar_bytes a @ post"
  shows "\<exists>r. parse_record data (length pre) False = Inr (length (ar_bytes a), r)
    \<and> (r_ip r, r_type r, r_class r) = (Some (ar_text a), ar_qtype a, QCLASS_IN)"
proof -
  define b where "b = be16 (ar_qtype a) @ be16 QCLASS_IN @ be32 (ar_ttl a) @ be16 (length (ar_addr a))"
  have d: "data = pre @ [chrb 192, chrb 12] @ b @ ar_addr a @ post" by (simp add: data ar_bytes_def b_def)
  have lb: "length b = 10" by (simp add: b_def)
  have len: "length (ar_addr a) < 65536" using ok by (simp add: ar_ok_def addr_bytes_def split: family.splits)
  have "py_sub data (length pre) (length pre + 2) = [chrb 192, chrb 12]"
    unfolding d using py_sub_exact [of pre "length pre" "[chrb 192, chrb 12]"] by simp
  moreover have "length pre + 2 \<le> length data" by (simp add: d)
  ultimately have n: "parse_name stack_depth data (length pre) = Inr (2, py_join ''.'' ls)"
    using parse_name_pointer [OF name] by (simp add: stack_depth_def)
  have s: "py_sub data (length pre + 2) (length pre + 2 + 10) = b"
    unfolding d using py_sub_exact [of "pre @ [chrb 192, chrb 12]" "length pre + 2" b] lb by simp
  have "take 2 b = be16 (ar_qtype a)" by (simp add: b_def)
  moreover have "py_sub b 2 4 = be16 QCLASS_IN" unfolding b_def by (rule py_sub_exact) simp_all
  moreover have "py_sub b 8 10 = be16 (length (ar_addr a))"
    using py_sub_exact_end [of "be16 (ar_qtype a) @ be16 QCLASS_IN @ be32 (ar_ttl a)" 8 "be16 (length (ar_addr a))" 10]
    by (simp add: b_def)
  moreover have "py_sub data (length pre + 12) (length pre + 12 + length (ar_addr a)) = ar_addr a"
    unfolding d using py_sub_exact [of "pre @ [chrb 192, chrb 12] @ b" "length pre + 12" "ar_addr a"] lb by simp
  then have "parse_ip (ar_qtype a) data (length (ar_addr a)) (length pre + 12) = Inr (ar_text a)"
    by (rule parse_ip_address [OF ok])
  moreover have "be_val (be16 (ar_qtype a)) = ar_qtype a" "be_val (be16 QCLASS_IN) = QCLASS_IN"
      "be_val (be16 (length (ar_addr a))) = length (ar_addr a)"
    using ar_qtype_less [of a] len by (simp_all add: QCLASS_IN_def)
  moreover have "length (ar_bytes a) = 2 + 10 + length (ar_addr a)" by (simp add: ar_bytes_def)
  moreover have "length pre + 2 + 10 = length pre + 12" by simp
  ultimately show ?thesis
    unfolding parse_record_def n rbind_simps prod.case Let_def s lb by (simp add: dns_constants add.commute)
qed

lemma parse_records_addresses:
  assumes "list_all ar_ok recs" and "name_loop 999 data 12 [] = Inr (e, ls)" and "data = pre @ concat (map ar_bytes recs) @ post"
  shows "\<exists>rs. parse_records (length recs) data (length pre) False = Inr (length pre + length (concat (map ar_bytes recs)), rs)
    \<and> map (\<lambda>r. (r_ip r, r_type r, r_class r)) rs = map (\<lambda>a. (Some (ar_text a), ar_qtype a, QCLASS_IN)) recs"
  using assms
proof (induction recs arbitrary: pre)
  case (Cons a recs)
  have ok: "ar_ok a" "list_all ar_ok recs" using Cons.prems(1) by simp_all
  have d: "data = pre @ ar_bytes a @ concat (map ar_bytes recs) @ post" using Cons.prems(3) by simp
  then have d2: "data = (pre @ ar_bytes a) @ concat (map ar_bytes recs) @ post" by simp
  obtain r where r: "parse_record data (length pre) False = Inr (length (ar_bytes a), r)"
    "(r_ip r, r_type r, r_class r) = (Some (ar_text a), ar_qtype a, QCLASS_IN)"
    using parse_record_address [OF ok(1) Cons.prems(2) d] by blast
  obtain rs where rs: "parse_records (length recs) data (length (pre @ ar_bytes a)) False
      = Inr (length (pre @ ar_bytes a) + length (concat (map ar_bytes recs)), rs)"
    "map (\<lambda>r. (r_ip r, r_type r, r_class r)) rs = map (\<lambda>a. (Some (ar_text a), ar_qtype a, QCLASS_IN)) recs"
    using Cons.IH [OF ok(2) Cons.prems(2) d2] by blast
  show ?case using r rs by (intro exI [of _ "r # rs"]) simp
qed simp

lemma answer_parsed:
  assumes "build_request h qtype t = (Inr request, t')" and "list_all (\<lambda>l. l \<noteq> []) (py_split ''.'' (strip_dots h))"
    and "qtype < 65536" and "length flags = 2" and "length recs < 65536" and "list_all ar_ok recs"
  shows "parse_response (dns_answer flags request recs) =
    Some \<lparr>hostname = Some (strip_dots h), questions = [(None, qtype, QCLASS_IN)],
           answers = map (\<lambda>a. (Some (ar_text a), ar_qtype a, QCLASS_IN)) recs\<rparr>"
proof -
  define ls where "ls = py_split ''.'' (strip_dots h)"
  obtain a where a: "build_labels ls = Some a"
    using assms(1) by (auto simp: build_request_def build_address_def ls_def Let_def urandom_def split: option.splits)
  define i where "i = fst (urandom 2 t)"
  have "build_address h = Some a" using a by (simp add: build_address_def ls_def)
  then have "request = i @ (chrb 1 # chrb 0 # be16 1 @ be16 0 @ be16 0 @ be16 0) @ a @ be16 qtype @ be16 QCLASS_IN"
    using assms(1) by (cases "urandom 2 t") (simp add: build_request_def i_def)
  then have req: "length i = 2" "build_labels ls = Some a"
      "request = i @ (chrb 1 # chrb 0 # be16 1 @ be16 0 @ be16 0 @ be16 0) @ a @ be16 qtype @ be16 QCLASS_IN"
    using a by (simp_all add: i_def)
  have "build_labels ls \<noteq> None \<Longrightarrow> list_all (\<lambda>l. length l \<le> 63) ls" for ls
    by (induction ls) (auto split: if_splits option.splits)
  then have good: "good_labels ls" using req(2) assms(2) by (auto simp: good_labels_def ls_def list_all_iff)
  define hd12 where "hd12 = i @ flags @ be16 1 @ be16 (length recs) @ be16 0 @ be16 0"
  define data where "data = dns_answer flags request recs"
  have d: "data = hd12 @ a @ (be16 qtype @ be16 QCLASS_IN) @ concat (map ar_bytes recs)"
    using req(1) by (simp add: data_def dns_answer_def req(3) hd12_def)
  have l12: "length hd12 = 12" using req(1) assms(4) by (simp add: hd12_def)
  have name: "name_loop depth data 12 [] = Inr (12 + length a, ls)" for depth
    using name_loop_labels [OF good req(2), of depth hd12 _ "[]"] l12 by (simp add: d)
  have q: "parse_record data 12 True = Inr (length a + 4,
      \<lparr>r_name = strip_dots h, r_ip = None, r_type = qtype, r_class = QCLASS_IN, r_ttl = None\<rparr>)"
  proof -
    have "parse_name stack_depth data 12 = Inr (length a, strip_dots h)"
      using name [of stack_depth] py_join_split [of "''.''" "strip_dots h"] by (simp add: parse_name_def ls_def)
    moreover have "py_sub data (12 + length a) (12 + length a + 4) = be16 qtype @ be16 QCLASS_IN"
      unfolding d using py_sub_exact [of "hd12 @ a" "12 + length a" "be16 qtype @ be16 QCLASS_IN"] l12 by simp
    moreover have "take 2 (be16 qtype @ be16 QCLASS_IN) = be16 qtype" "py_sub (be16 qtype @ be16 QCLASS_IN) 2 4 = be16 QCLASS_IN"
      by (simp_all add: py_sub_def)
    ultimately show ?thesis using assms(3) by (simp add: parse_record_def Let_def dns_constants)
  qed
  have dd: "data = (hd12 @ a @ be16 qtype @ be16 QCLASS_IN) @ concat (map ar_bytes recs) @ []" by (simp add: d)
  have lp: "length (hd12 @ a @ be16 qtype @ be16 QCLASS_IN) = 12 + (length a + 4)" using l12 by simp
  obtain rs where rs: "parse_records (length recs) data (12 + (length a + 4)) False
      = Inr (12 + (length a + 4) + length (concat (map ar_bytes recs)), rs)"
    "map (\<lambda>r. (r_ip r, r_type r, r_class r)) rs = map (\<lambda>a. (Some (ar_text a), ar_qtype a, QCLASS_IN)) recs"
    using parse_records_addresses [OF assms(6) name dd] lp by auto
  have qs: "parse_records 1 data 12 True = Inr (12 + (length a + 4),
      [\<lparr>r_name = strip_dots h, r_ip = None, r_type = qtype, r_class = QCLASS_IN, r_ttl = None\<rparr>])"
    using q by simp
  have c: "py_sub data 4 6 = be16 1" "py_sub data 6 8 = be16 (length recs)" "py_sub data 8 10 = be16 0" "py_sub data 10 12 = be16 0"
    unfolding d hd12_def
    using py_sub_exact [of "i @ flags" 4 "be16 1" 6] py_sub_exact [of "i @ flags @ be16 1" 6 "be16 (length recs)" 8]
      py_sub_exact [of "i @ flags @ be16 1 @ be16 (length recs)" 8 "be16 0" 10]
      py_sub_exact [of "i @ flags @ be16 1 @ be16 (length recs) @ be16 0" 10 "be16 0" 12] req(1) assms(4) by simp_all
  have "12 \<le> length data" using l12 by (simp add: d)
  then obtain hdr where hdr: "parse_dns_header data = Some hdr" "res_qdcount hdr = 1" "res_ancount hdr = length recs"
      "res_nscount hdr = 0" "res_arcount hdr = 0"
    using assms(5) by (simp add: parse_dns_header_def c)
  have "read_response data hdr = Inr \<lparr>hostname = Some (strip_dots h), questions = [(None, qtype, QCLASS_IN)],
      answers = map (\<lambda>a. (Some (ar_text a), ar_qtype a, QCLASS_IN)) recs\<rparr>"
    unfolding read_response_def hdr qs rbind_simps prod.case rs(1) Let_def using rs(2) by simp
  then show ?thesis by (simp add: parse_response_def hdr(1) data_def [symmetric])
qed

text \<open>C39. The request that is built for a name is answered and understood: from a server that repeats
  the question and gives any number of address records whose names are pointers, the response has
  the name without outer full stops and the texts of exactly these addresses, whatever the
  transaction number and the flags.\<close>

theorem dns_answer_understood:
  assumes "build_request h qtype t = (Inr request, t')" and "list_all (\<lambda>l. l \<noteq> []) (py_split ''.'' (strip_dots h))"
    and "qtype < 65536" and "length flags = 2" and "length recs < 65536" and "list_all ar_ok recs"
  shows "parse_response (dns_answer flags request recs) =
    Some \<lparr>hostname = Some (strip_dots h), questions = [(None, qtype, QCLASS_IN)],
           answers = map (\<lambda>a. (Some (ar_text a), ar_qtype a, QCLASS_IN)) recs\<rparr>"
  by (rule answer_parsed [OF assms])

definition sample_record :: address_record where
  "sample_record = \<lparr>ar_family = AF_INET, ar_ttl = 60, ar_addr = ''abcd''\<rparr>"

theorem dns_answer_understood_witness:
  "\<exists>request t'. build_request ''a.b'' QTYPE_A [] = (Inr request, t')
     \<and> parse_response (dns_answer [chrb 129, chrb 128] request [sample_record]) =
       Some \<lparr>hostname = Some ''a.b'', questions = [(None, QTYPE_A, QCLASS_IN)], answers = [(Some (dotted ''abcd''), QTYPE_A, QCLASS_IN)]\<rparr>"
proof -
  have s: "strip_dots ''a.b'' = ''a.b''" by (simp add: strip_dots_def)
  have l: "py_split ''.'' ''a.b'' = [''a'', ''b'']"
    using py_split_join [of "[''a'', ''b'']" "CHR ''.''" "[]"] by simp
  then obtain request t' where r: "build_request ''a.b'' QTYPE_A [] = (Inr request, t')"
    by (simp add: build_request_def build_address_def s urandom_def)
  have "ar_text sample_record = dotted ''abcd''" "ar_qtype sample_record = QTYPE_A" "ar_ok sample_record"
    by (simp_all add: sample_record_def ar_text_def ar_qtype_def ar_ok_def addr_bytes_def)
  then show ?thesis
    using r dns_answer_understood [OF r, of "[chrb 129, chrb 128]" "[sample_record]"] s l by (simp add: dns_constants)
qed

subsection \<open>Pointers that go round\<close>

text \<open>A pointer is followed from wherever it stands, so a message can make \<^verbatim>\<open>parse_name\<close> call
  itself without end. Every depth of the stack is then too small.\<close>

definition pointer_loop :: "bytes \<Rightarrow> nat \<Rightarrow> bool" where
  "pointer_loop data p \<longleftrightarrow>
     p + 2 \<le> length data \<and> 192 \<le> ordb (data ! p) \<and> be_val (py_sub data p (p + 2)) AND 0x3FFF = p"

lemma high_bits: "192 \<le> (l::nat) \<Longrightarrow> l < 256 \<Longrightarrow> l AND 192 = 192"
proof -
  assume l: "192 \<le> l" "l < 256"
  then have "l = push_bit 6 3 + (l - 192)" by (simp add: push_bit_eq_mult)
  have "drop_bit 6 l = 3" using l by (simp add: drop_bit_eq_div)
  then have "push_bit 6 (drop_bit 6 l) = 192" by (simp add: push_bit_eq_mult)
  moreover have "l AND 192 = push_bit 6 (drop_bit 6 l) AND 192"
  proof (rule bit_eqI)
    fix n
    show "bit (l AND 192) n = bit (push_bit 6 (drop_bit 6 l) AND 192) n"
    proof (cases "n < 6")
      case True
      have "192 = push_bit 6 (3::nat)" by (simp add: push_bit_eq_mult)
      then have "\<not> bit (192::nat) n" using True by (simp only: bit_push_bit_iff_nat) simp
      then show ?thesis by (simp add: bit_and_iff)
    next
      case False
      then show ?thesis by (simp add: bit_and_iff bit_push_bit_iff_nat bit_drop_bit_eq)
    qed
  qed
  ultimately show ?thesis by simp
qed

text \<open>A name that is a pointer to itself raises \<^verbatim>\<open>RuntimeError\<close> at any depth of the stack, and a
  response with such a question gives \<^verbatim>\<open>None\<close> instead of an exception, as every message
  does that is not one.\<close>

theorem pointer_loop_caught:
  assumes "pointer_loop data p"
  shows "parse_name depth data p = Inl RuntimeError \<and>
    (p = 12 \<and> be_val (py_sub data 4 6) > 0 \<longrightarrow> parse_response data = None)"
proof -
  have l: "ordb (data ! p) AND 192 = 192" "ordb (data ! p) \<noteq> 0" "p < length data"
    using assms high_bits by (auto simp: pointer_loop_def)
  have "name_loop depth data p ls = Inl RuntimeError" for depth ls
  proof (induction depth arbitrary: ls)
    case 0
    then show ?case using l assms by (subst name_loop.simps) (simp add: pointer_loop_def)
  next
    case (Suc d)
    then show ?case using l assms by (subst name_loop.simps) (simp add: pointer_loop_def)
  qed
  then have n: "parse_name depth data p = Inl RuntimeError" for depth by (simp add: parse_name_def)
  moreover have "parse_response data = None" if "p = 12" "be_val (py_sub data 4 6) > 0"
  proof -
    have "\<exists>h. parse_dns_header data = Some h \<and> res_qdcount h > 0"
      using assms that by (simp add: parse_dns_header_def pointer_loop_def)
    moreover have "parse_record data 12 True = Inl RuntimeError" using n that(1) by (simp add: parse_record_def)
    then have "parse_records (Suc k) data 12 True = Inl RuntimeError" for k by simp
    ultimately show ?thesis
      by (auto simp: parse_response_def read_response_def gr0_conv_Suc)
  qed
  ultimately show ?thesis by blast
qed

theorem pointer_loop_caught_witness:
  "parse_response (replicate 4 (chrb 0) @ [chrb 0, chrb 1] @ replicate 6 (chrb 0) @ [chrb 192, chrb 12]) = None"
proof -
  let ?d = "replicate 4 (chrb 0) @ [chrb 0, chrb 1] @ replicate 6 (chrb 0) @ [chrb 192, chrb 12]"
  have "py_sub ?d 12 14 = [chrb 192, chrb 12]" "py_sub ?d 4 6 = [chrb 0, chrb 1]" "?d ! 12 = chrb 192" "length ?d = 14"
    by (simp_all add: py_sub_def nth_append)
  then show ?thesis using pointer_loop_caught [of ?d 12 0] by (simp add: pointer_loop_def be_val_def)
qed

end
