(* ===== verification/Resolver.thy ===== *)
theory Resolver
  imports Dns_Message Lru_Cache
begin

text \<open>
  \<^verbatim>\<open>DNSResolver\<close> of \<^verbatim>\<open>asyncdns.py\<close> and \<^verbatim>\<open>UDPAsyncDNSHandler\<close> of \<^verbatim>\<open>common.py\<close>. An operation
  gives what it does to the world, a list of datagrams sent and callbacks called, in order, with its
  result and the new state. A callback is a value of the type \<open>'cb\<close>; what it does is not part of
  the resolver. While the callbacks of a name are called, a callback may call
  \<^verbatim>\<open>remove_callback\<close> for itself, which finds nothing to remove. \<^verbatim>\<open>sendto\<close> does not fail
  here. \<open>ipv6\<close> is the constant \<^verbatim>\<open>IPV6_CONNECTION_SUPPORT\<close>.
\<close>

subsection \<open>State\<close>

type_synonym endpoint = "bytes \<times> nat"

datatype 'cb dns_event =
    Send bytes endpoint
  | Call 'cb "(bytes \<times> bytes option) option" "exc option"

definition STATUS_IPV4 :: nat where "STATUS_IPV4 = 0"
definition STATUS_IPV6 :: nat where "STATUS_IPV6 = 1"

lemmas status_constants = STATUS_IPV4_def STATUS_IPV6_def

record 'cb dns_resolver =
  hosts :: "(bytes \<times> bytes) list"
  hostname_status :: "(bytes \<times> nat) list"
  hostname_to_cb :: "(bytes \<times> 'cb list) list"
  cb_to_hostname :: "('cb \<times> bytes) list"
  dns_cache :: "(bytes, bytes) lru"
  black_hostname_list :: "bytes list"
  dns_servers :: "(bytes \<times> int) list"

subsection \<open>The configuration files\<close>

text \<open>A file is the list of its lines, or \<^const>\<open>None\<close> where opening it raises \<^verbatim>\<open>IOError\<close>.
  \<^verbatim>\<open>line.split()\<close> takes the words of a line.\<close>

fun words_from :: "bytes \<Rightarrow> bytes \<Rightarrow> bytes list" where
  "words_from w [] = (if w = [] then [] else [w])"
| "words_from w (c # cs) =
     (if is_space c then (if w = [] then words_from [] cs else w # words_from [] cs) else words_from (w @ [c]) cs)"

definition py_words :: "bytes \<Rightarrow> bytes list" where
  "py_words s = words_from [] s"

fun parse_dns_conf :: "bytes list \<Rightarrow> (bytes \<times> int) list \<Rightarrow> (bytes \<times> int) list res" where
  "parse_dns_conf [] servers = Inr servers"
| "parse_dns_conf (line0 # lines) servers =
     (let line = py_strip line0 in
      if line = [] then parse_dns_conf lines servers
      else
        (let parts = py_split1 '' '' line in
         rbind (if length parts \<ge> 2 then (case py_int (parts ! 1) of None \<Rightarrow> Inl ValueError | Some n \<Rightarrow> Inr n) else Inr 53) (\<lambda>port.
         rbind (is_ip (parts ! 0)) (\<lambda>af.
           parse_dns_conf lines (if af = Some AF_INET then servers @ [(parts ! 0, port)] else servers)))))"

fun parse_resolv_conf :: "bytes list \<Rightarrow> (bytes \<times> int) list \<Rightarrow> (bytes \<times> int) list res" where
  "parse_resolv_conf [] servers = Inr servers"
| "parse_resolv_conf (line0 # lines) servers =
     (let line = py_strip line0; parts = py_words line in
      if match_begin line ''nameserver'' \<and> length parts \<ge> 2
      then rbind (is_ip (parts ! 1)) (\<lambda>af.
             parse_resolv_conf lines (if af = Some AF_INET then servers @ [(parts ! 1, 53)] else servers))
      else parse_resolv_conf lines servers)"

definition parse_resolv :: "bytes list option \<Rightarrow> bytes list option \<Rightarrow> (bytes \<times> int) list res" where
  "parse_resolv dns_conf resolv_conf =
     rbind (case dns_conf of None \<Rightarrow> Inr [] | Some lines \<Rightarrow> parse_dns_conf lines []) (\<lambda>s1.
     rbind (if s1 \<noteq> [] then Inr s1 else (case resolv_conf of None \<Rightarrow> Inr [] | Some lines \<Rightarrow> parse_resolv_conf lines [])) (\<lambda>s2.
       Inr (if s2 \<noteq> [] then s2 else [(''8.8.4.4'', 53), (''8.8.8.8'', 53)])))"

fun parse_hosts :: "bytes list \<Rightarrow> (bytes \<times> bytes) list \<Rightarrow> (bytes \<times> bytes) list res" where
  "parse_hosts [] h = Inr h"
| "parse_hosts (line0 # lines) h =
     (let line1 = py_strip line0;
          line = (case py_find ''#'' line1 of None \<Rightarrow> line1 | Some i \<Rightarrow> take i line1);
          parts = py_words line
      in if length parts \<ge> 2
         then rbind (is_ip (parts ! 0)) (\<lambda>af.
                parse_hosts lines (if af \<noteq> None then fold (\<lambda>name. AList.update name (parts ! 0)) (tl parts) h else h))
         else parse_hosts lines h)"

definition resolver_new :: "bytes list \<Rightarrow> bytes list option \<Rightarrow> bytes list option \<Rightarrow> bytes list option \<Rightarrow> 'cb dns_resolver res" where
  "resolver_new black dns_conf resolv_conf etc_hosts =
     rbind (parse_resolv dns_conf resolv_conf) (\<lambda>servers.
     rbind (case etc_hosts of None \<Rightarrow> Inr [(''localhost'', ''127.0.0.1'')] | Some lines \<Rightarrow> parse_hosts lines []) (\<lambda>h.
       Inr \<lparr>hosts = h, hostname_status = [], hostname_to_cb = [], cb_to_hostname = [], dns_cache = lru_new 300,
             black_hostname_list = black, dns_servers = servers\<rparr>))"

subsection \<open>Requests\<close>

definition send_req :: "bytes \<Rightarrow> nat \<Rightarrow> 'cb dns_resolver \<Rightarrow> tape \<Rightarrow> unit res \<times> 'cb dns_event list \<times> tape" where
  "send_req name qtype r t =
     (case build_request name qtype t of
        (Inl e, t') \<Rightarrow> (Inl e, [], t')
      | (Inr req, t') \<Rightarrow> (Inr (), map (\<lambda>(ip, port). Send req (ip, nat port)) (dns_servers r), t'))"

definition ends_with :: "bytes \<Rightarrow> bytes \<Rightarrow> bool" where
  "ends_with s suffix \<longleftrightarrow> length suffix \<le> length s \<and> drop (length s - length suffix) s = suffix"

text \<open>The cache is read once for the log and once for the answer.\<close>

definition read_cache :: "time \<Rightarrow> bytes \<Rightarrow> (bytes, bytes) lru \<Rightarrow> bytes res \<times> (bytes, bytes) lru" where
  "read_cache now name c =
     (case lru_getitem now name c of
        (Inl e, c') \<Rightarrow> (Inl e, c')
      | (Inr _, c') \<Rightarrow> lru_getitem now name c')"

definition resolve :: "bool \<Rightarrow> time \<Rightarrow> bytes \<Rightarrow> 'cb \<Rightarrow> 'cb dns_resolver \<Rightarrow> tape
    \<Rightarrow> unit res \<times> 'cb dns_event list \<times> 'cb dns_resolver \<times> tape" where
  "resolve ipv6 now name cb r t =
     (if name = [] then (Inr (), [Call cb None (Some (Exc ''empty hostname''))], r, t)
      else case is_ip name of
        Inl e \<Rightarrow> (Inl e, [], r, t)
      | Inr (Some _) \<Rightarrow> (Inr (), [Call cb (Some (name, Some name)) None], r, t)
      | Inr None \<Rightarrow>
          (case map_of (hosts r) name of
             Some ip \<Rightarrow> (Inr (), [Call cb (Some (name, Some ip)) None], r, t)
           | None \<Rightarrow>
               if lru_contains name (dns_cache r) then
                 (case read_cache now name (dns_cache r) of
                    (Inl e, c) \<Rightarrow> (Inl e, [], r\<lparr>dns_cache := c\<rparr>, t)
                  | (Inr ip, c) \<Rightarrow> (Inr (), [Call cb (Some (name, Some ip)) None], r\<lparr>dns_cache := c\<rparr>, t))
               else if list_ex (ends_with name) (black_hostname_list r) then
                 (Inr (), [Call cb None (Some (Exc ''hostname is block by the black hostname list''))], r, t)
               else case is_valid_hostname name of
                 Inl e \<Rightarrow> (Inl e, [], r, t)
               | Inr False \<Rightarrow> (Inr (), [Call cb None (Some (Exc ''invalid hostname''))], r, t)
               | Inr True \<Rightarrow>
                   (let qtype = (if ipv6 then QTYPE_AAAA else QTYPE_A);
                        status = (if ipv6 then STATUS_IPV6 else STATUS_IPV4)
                    in case map_of (hostname_to_cb r) name of
                         Some (c # cs) \<Rightarrow>
                           (case send_req name qtype r t of
                              (res, evs, t') \<Rightarrow>
                                (res, evs, r\<lparr>hostname_to_cb := AList.update name ((c # cs) @ [cb]) (hostname_to_cb r)\<rparr>, t'))
                       | _ \<Rightarrow>
                           (let r1 = r\<lparr>hostname_status := AList.update name status (hostname_status r)\<rparr>
                            in case send_req name qtype r t of
                                 (Inl e, evs, t') \<Rightarrow> (Inl e, evs, r1, t')
                               | (Inr _, evs, t') \<Rightarrow>
                                   (Inr (), evs, r1\<lparr>hostname_to_cb := AList.update name [cb] (hostname_to_cb r),
                                      cb_to_hostname := AList.update cb name (cb_to_hostname r)\<rparr>, t')))))"

subsection \<open>Responses\<close>

definition call_callback :: "bytes \<Rightarrow> bytes option \<Rightarrow> 'cb dns_resolver \<Rightarrow> 'cb dns_event list \<times> 'cb dns_resolver" where
  "call_callback name ip r =
     (let callbacks = (case map_of (hostname_to_cb r) name of None \<Rightarrow> [] | Some cbs \<Rightarrow> cbs);
          answer = (\<lambda>cb. if ip \<noteq> None \<and> ip \<noteq> Some [] then Call cb (Some (name, ip)) None
             else Call cb (Some (name, None)) (Some (Exc ''unable to parse hostname'')))
      in (map answer callbacks,
          r\<lparr>cb_to_hostname := filter (\<lambda>(cb, _). cb \<notin> set callbacks) (cb_to_hostname r),
             hostname_to_cb := AList.delete name (hostname_to_cb r),
             hostname_status := AList.delete name (hostname_status r)\<rparr>))"

definition first_address :: "(bytes option \<times> nat \<times> nat) list \<Rightarrow> bytes option" where
  "first_address as =
     (case find (\<lambda>(ip, qt, cl). (qt = QTYPE_A \<or> qt = QTYPE_AAAA) \<and> cl = QCLASS_IN) as of
        None \<Rightarrow> None | Some (ip, _, _) \<Rightarrow> ip)"

definition handle_data :: "bool \<Rightarrow> time \<Rightarrow> bytes \<Rightarrow> 'cb dns_resolver \<Rightarrow> tape
    \<Rightarrow> unit res \<times> 'cb dns_event list \<times> 'cb dns_resolver \<times> tape" where
  "handle_data ipv6 now data r t =
     (case parse_response data of
        Some response \<Rightarrow>
          (case hostname response of
             Some (c # cs) \<Rightarrow>
               (let name = c # cs;
                    ip = first_address (answers response);
                    no_ip = (ip = None \<or> ip = Some []);
                    status = map_of (hostname_status r) name;
                    first_status = (if ipv6 then STATUS_IPV6 else STATUS_IPV4);
                    last_status = (if ipv6 then STATUS_IPV4 else STATUS_IPV6);
                    last_qtype = (if ipv6 then QTYPE_A else QTYPE_AAAA)
                in if no_ip \<and> status = Some first_status then
                     (let r1 = r\<lparr>hostname_status := AList.update name last_status (hostname_status r)\<rparr>
                      in case send_req name last_qtype r1 t of (res, evs, t') \<Rightarrow> (res, evs, r1, t'))
                   else if \<not> no_ip then
                     (case call_callback name ip (r\<lparr>dns_cache := lru_setitem now name (the ip) (dns_cache r)\<rparr>) of
                        (evs, r') \<Rightarrow> (Inr (), evs, r', t))
                   else if status = Some last_status \<and> list_ex (\<lambda>(_, qt, _). qt = last_qtype) (questions response) then
                     (case call_callback name None r of (evs, r') \<Rightarrow> (Inr (), evs, r', t))
                   else (Inr (), [], r, t))
           | _ \<Rightarrow> (Inr (), [], r, t))
      | None \<Rightarrow> (Inr (), [], r, t))"

text \<open>\<^verbatim>\<open>handle_event\<close> for a datagram that has come in from an address.\<close>

definition handle_datagram :: "bool \<Rightarrow> time \<Rightarrow> bytes \<Rightarrow> bytes \<times> int \<Rightarrow> 'cb dns_resolver \<Rightarrow> tape
    \<Rightarrow> unit res \<times> 'cb dns_event list \<times> 'cb dns_resolver \<times> tape" where
  "handle_datagram ipv6 now data addr r t =
     (if addr \<notin> set (dns_servers r) then (Inr (), [], r, t) else handle_data ipv6 now data r t)"

definition dns_handle_periodic :: "time \<Rightarrow> 'cb dns_resolver \<Rightarrow> unit res \<times> 'cb dns_resolver" where
  "dns_handle_periodic now r =
     (case lru_sweep now SWEEP_MAX_ITEMS (dns_cache r) of
        (Inl e, c) \<Rightarrow> (Inl e, r\<lparr>dns_cache := c\<rparr>)
      | (Inr _, c) \<Rightarrow> (Inr (), r\<lparr>dns_cache := c\<rparr>))"

text \<open>The list of the name is changed in place; \<^verbatim>\<open>remove\<close> raises where the callback is not in it.\<close>

definition remove_callback :: "'cb \<Rightarrow> 'cb dns_resolver \<Rightarrow> unit res \<times> 'cb dns_resolver" where
  "remove_callback cb r =
     (case map_of (cb_to_hostname r) cb of
        Some (c # cs) \<Rightarrow>
          (let name = c # cs; r1 = r\<lparr>cb_to_hostname := AList.delete cb (cb_to_hostname r)\<rparr>
           in case map_of (hostname_to_cb r) name of
                Some (x # xs) \<Rightarrow>
                  (let arr = x # xs in
                   if cb \<notin> set arr then (Inl ValueError, r1)
                   else
                     (let arr' = remove1 cb arr in
                      if arr' = []
                      then (Inr (), r1\<lparr>hostname_to_cb := AList.delete name (hostname_to_cb r),
                                       hostname_status := AList.delete name (hostname_status r)\<rparr>)
                      else (Inr (), r1\<lparr>hostname_to_cb := AList.update name arr' (hostname_to_cb r)\<rparr>)))
              | _ \<Rightarrow> (Inr (), r1))
      | _ \<Rightarrow> (Inr (), r))"

subsection \<open>UDPAsyncDNSHandler\<close>

text \<open>The handler's callback has the form \<^verbatim>\<open>call_back(error, remote_addr, server_addr, params)\<close>;
  the cache of all handlers is only read. A request that goes to the resolver leaves the handler
  waiting.\<close>

datatype ('cb, 'p) udp_dns_action =
    CallBack 'cb bytes endpoint "bytes option" 'p
  | AskResolver bytes
  | Raise exc

record ('cb, 'p) udp_dns_handler =
  h_params :: 'p
  h_remote_addr :: "endpoint option"
  h_call_back :: "'cb option"

definition udp_dns_new :: "'p \<Rightarrow> ('cb, 'p) udp_dns_handler" where
  "udp_dns_new params = \<lparr>h_params = params, h_remote_addr = None, h_call_back = None\<rparr>"

definition udp_dns_resolve :: "time \<Rightarrow> endpoint \<Rightarrow> 'cb option \<Rightarrow> (endpoint, bytes) lru \<Rightarrow> ('cb, 'p) udp_dns_handler
    \<Rightarrow> ('cb, 'p) udp_dns_action list \<times> (endpoint, bytes) lru \<times> ('cb, 'p) udp_dns_handler" where
  "udp_dns_resolve now remote_addr cb cache h =
     (if lru_contains remote_addr cache
      then (case cb of
              None \<Rightarrow> ([], cache, h)
            | Some c \<Rightarrow>
                (case lru_getitem now remote_addr cache of
                   (Inl e, cache') \<Rightarrow> ([Raise e], cache', h)
                 | (Inr ip, cache') \<Rightarrow> ([CallBack c [] remote_addr (Some ip) (h_params h)], cache', h)))
      else ([AskResolver (fst remote_addr)], snd (lru_sweep now SWEEP_MAX_ITEMS cache),
            h\<lparr>h_call_back := cb, h_remote_addr := Some remote_addr\<rparr>))"

definition udp_dns_resolved :: "(bytes \<times> bytes option) option \<Rightarrow> bytes option \<Rightarrow> ('cb, 'p) udp_dns_handler
    \<Rightarrow> ('cb, 'p) udp_dns_action" where
  "udp_dns_resolved result error h =
     (case (h_call_back h, h_remote_addr h) of
        (Some c, Some addr) \<Rightarrow>
          (case error of
             Some e \<Rightarrow> CallBack c e addr None (h_params h)
           | None \<Rightarrow>
               (case result of
                  Some (_, Some (x # xs)) \<Rightarrow> CallBack c [] addr (Some (x # xs)) (h_params h)
                | _ \<Rightarrow> CallBack c ''fail to resolve'' addr None (h_params h)))
      | _ \<Rightarrow> Raise TypeError)"

end
