(* ===== verification/Resolver_Proofs.thy ===== *)
theory Resolver_Proofs
  imports Resolver
begin

text \<open>
  What the resolver of \<^verbatim>\<open>asyncdns.py\<close> keeps true of its three tables, and how a request, the answer
  of a name server and the waiting callbacks fit together.
\<close>

subsection \<open>Reachable states\<close>

text \<open>The operations that the event loop and the relays call, in any order, with any data.\<close>

inductive resolver_reach :: "'cb dns_resolver \<Rightarrow> bool" where
  new: "resolver_new black dns_conf resolv_conf etc_hosts = Inr r \<Longrightarrow> resolver_reach r"
| resolve: "resolver_reach r \<Longrightarrow> resolve ipv6 now name cb r t = (res, evs, r', t') \<Longrightarrow> resolver_reach r'"
| datagram: "resolver_reach r \<Longrightarrow> handle_datagram ipv6 now data addr r t = (res, evs, r', t') \<Longrightarrow> resolver_reach r'"
| remove: "resolver_reach r \<Longrightarrow> remove_callback cb r = (res', r') \<Longrightarrow> resolver_reach r'"
| periodic: "resolver_reach r \<Longrightarrow> dns_handle_periodic now r = (res', r') \<Longrightarrow> resolver_reach r'"

text \<open>A registered callback is in the list of its name, which is not empty; a name that callbacks
  wait for has a status.\<close>

definition tables_ok :: "('cb \<Rightarrow> bytes option) \<Rightarrow> (bytes \<Rightarrow> 'cb list option) \<Rightarrow> (bytes \<Rightarrow> nat option) \<Rightarrow> bool" where
  "tables_ok reg waits status \<longleftrightarrow>
     (\<forall>cb h. reg cb = Some h \<longrightarrow> h \<noteq> [] \<and> (\<exists>cbs. waits h = Some cbs \<and> cb \<in> set cbs)) \<and>
     (\<forall>h cbs. waits h = Some cbs \<longrightarrow> cbs \<noteq> [] \<and> status h \<noteq> None)"

definition resolver_ok :: "'cb dns_resolver \<Rightarrow> bool" where
  "resolver_ok r \<longleftrightarrow> tables_ok (map_of (cb_to_hostname r)) (map_of (hostname_to_cb r)) (map_of (hostname_status r))"

lemma tables_okI:
  assumes "\<And>cb h. reg cb = Some h \<Longrightarrow> h \<noteq> [] \<and> (\<exists>cbs. waits h = Some cbs \<and> cb \<in> set cbs)"
    and "\<And>h cbs. waits h = Some cbs \<Longrightarrow> cbs \<noteq> [] \<and> status h \<noteq> None"
  shows "tables_ok reg waits status"
  using assms unfolding tables_ok_def by blast

lemma tables_reg: "tables_ok reg waits status \<Longrightarrow> reg cb = Some h \<Longrightarrow> h \<noteq> [] \<and> (\<exists>cbs. waits h = Some cbs \<and> cb \<in> set cbs)"
  unfolding tables_ok_def by blast

lemma tables_waits: "tables_ok reg waits status \<Longrightarrow> waits h = Some cbs \<Longrightarrow> cbs \<noteq> [] \<and> status h \<noteq> None"
  unfolding tables_ok_def by blast

lemma tables_empty: "tables_ok Map.empty Map.empty Map.empty"
  by (simp add: tables_ok_def)

lemma tables_status: "tables_ok reg waits status \<Longrightarrow> tables_ok reg waits (status(h \<mapsto> s))"
  by (auto simp: tables_ok_def)

lemma tables_register:
  assumes ok: "tables_ok reg waits status" and new: "waits h = None \<or> waits h = Some []" and "h \<noteq> []"
  shows "tables_ok (reg(cb \<mapsto> h)) (waits(h \<mapsto> [cb])) (status(h \<mapsto> s))"
proof (rule tables_okI)
  fix cb' h' assume r: "(reg(cb \<mapsto> h)) cb' = Some h'"
  show "h' \<noteq> [] \<and> (\<exists>cbs. (waits(h \<mapsto> [cb])) h' = Some cbs \<and> cb' \<in> set cbs)"
  proof (cases "cb' = cb")
    case False
    then have "reg cb' = Some h'" using r by simp
    from tables_reg [OF ok this] show ?thesis using new by (cases "h' = h") auto
  qed (use r \<open>h \<noteq> []\<close> in auto)
qed (use tables_waits [OF ok] in \<open>auto split: if_splits\<close>)

lemma tables_join:
  assumes ok: "tables_ok reg waits status" and "waits h = Some cbs"
  shows "tables_ok reg (waits(h \<mapsto> cbs @ [cb])) status"
proof (rule tables_okI)
  fix cb' h' assume "reg cb' = Some h'"
  from tables_reg [OF ok this] show "h' \<noteq> [] \<and> (\<exists>cbs'. (waits(h \<mapsto> cbs @ [cb])) h' = Some cbs' \<and> cb' \<in> set cbs')"
    using assms(2) by (cases "h' = h") auto
qed (use assms(2) tables_waits [OF ok] in \<open>auto split: if_splits\<close>)

lemmas tables_join_Cons = tables_join [where cbs = "c # cs" for c cs, simplified]

lemma tables_answered:
  assumes ok: "tables_ok reg waits status" and cbs: "cbs = (case waits h of None \<Rightarrow> [] | Some cbs \<Rightarrow> cbs)"
  shows "tables_ok (\<lambda>cb. if cb \<in> set cbs then None else reg cb) (waits(h := None)) (status(h := None))"
proof (rule tables_okI)
  fix cb' h' assume r: "(if cb' \<in> set cbs then None else reg cb') = Some h'"
  then have r': "reg cb' = Some h'" and new: "cb' \<notin> set cbs" by (simp_all split: if_splits)
  from tables_reg [OF ok r'] show "h' \<noteq> [] \<and> (\<exists>cbs. (waits(h := None)) h' = Some cbs \<and> cb' \<in> set cbs)"
    using new cbs by (cases "h' = h") auto
qed (use tables_waits [OF ok] in \<open>auto split: if_splits\<close>)

lemma tables_leave:
  assumes ok: "tables_ok reg waits status" and cb: "waits h = Some cbs" and rest: "remove1 cb cbs \<noteq> []"
  shows "tables_ok (reg(cb := None)) (waits(h \<mapsto> remove1 cb cbs)) status"
proof (rule tables_okI)
  fix cb' h' assume r: "(reg(cb := None)) cb' = Some h'"
  then have r': "reg cb' = Some h'" "cb' \<noteq> cb" by (simp_all split: if_splits)
  from tables_reg [OF ok r'(1)] show "h' \<noteq> [] \<and> (\<exists>cbs'. (waits(h \<mapsto> remove1 cb cbs)) h' = Some cbs' \<and> cb' \<in> set cbs')"
    using r'(2) cb by (cases "h' = h") (auto simp: in_set_remove1)
qed (use rest cb tables_waits [OF ok] in \<open>auto split: if_splits\<close>)

lemma tables_last_leaves:
  assumes ok: "tables_ok reg waits status" and cbs: "waits h = Some cbs" and last: "remove1 cb cbs = []"
  shows "tables_ok (reg(cb := None)) (waits(h := None)) (status(h := None))"
proof (rule tables_okI)
  fix cb' h' assume r: "(reg(cb := None)) cb' = Some h'"
  then have r': "reg cb' = Some h'" "cb' \<noteq> cb" by (simp_all split: if_splits)
  have "set cbs \<subseteq> {cb}" using last by (cases cbs) (auto split: if_splits)
  with tables_reg [OF ok r'(1)] show "h' \<noteq> [] \<and> (\<exists>cbs'. (waits(h := None)) h' = Some cbs' \<and> cb' \<in> set cbs')"
    using r'(2) cbs by (cases "h' = h") auto
qed (use tables_waits [OF ok] in \<open>auto split: if_splits\<close>)

lemma map_of_filter_keys: "map_of (filter (\<lambda>(k, _). k \<notin> S) xs) k = (if k \<in> S then None else map_of xs k)"
  by (induction xs) auto

lemma resolver_ok_new: "resolver_new black dns_conf resolv_conf etc_hosts = Inr r \<Longrightarrow> resolver_ok r"
  by (auto simp: resolver_new_def resolver_ok_def tables_empty rbind_eq_Inr)

lemma resolver_ok_call_callback:
  assumes "resolver_ok r"
  shows "resolver_ok (snd (call_callback h ip r))"
proof -
  obtain cbs where cbs: "cbs = (case map_of (hostname_to_cb r) h of None \<Rightarrow> [] | Some cbs \<Rightarrow> cbs)" by blast
  have "tables_ok (\<lambda>cb. if cb \<in> set cbs then None else map_of (cb_to_hostname r) cb)
      ((map_of (hostname_to_cb r))(h := None)) ((map_of (hostname_status r))(h := None))"
    using assms cbs unfolding resolver_ok_def by (rule tables_answered)
  then show ?thesis
    unfolding resolver_ok_def call_callback_def cbs [symmetric]
    by (simp add: Let_def map_of_filter_keys [abs_def] delete_conv')
qed

lemma resolver_ok_remove:
  assumes "resolver_ok r" and "remove_callback cb r = (res, r')"
  shows "resolver_ok r' \<and> res = Inr ()"
proof (cases "map_of (cb_to_hostname r) cb")
  case None
  then show ?thesis using assms by (simp add: remove_callback_def)
next
  case (Some h)
  have ok: "tables_ok (map_of (cb_to_hostname r)) (map_of (hostname_to_cb r)) (map_of (hostname_status r))"
    using assms(1) by (simp add: resolver_ok_def)
  obtain cbs where h: "h \<noteq> []" and cbs: "map_of (hostname_to_cb r) h = Some cbs" "cb \<in> set cbs"
    using tables_reg [OF ok Some] by blast
  obtain n ns x xs where "h = n # ns" "cbs = x # xs" using h cbs(2) by (cases h; cases cbs) auto
  then show ?thesis
    using assms(2) Some cbs tables_leave [OF ok cbs(1), of cb] tables_last_leaves [OF ok cbs(1), of cb]
    by (auto simp: remove_callback_def Let_def resolver_ok_def delete_conv' update_conv' simp del: remove1.simps split: if_splits)
qed

corollary remove_callback_returns:
  assumes "resolver_ok r"
  shows "fst (remove_callback cb r) = Inr ()"
proof (cases "remove_callback cb r")
  case (Pair res r')
  then show ?thesis using resolver_ok_remove [OF assms Pair] by simp
qed

lemma resolver_ok_resolve:
  assumes "resolver_ok r" and "resolve ipv6 now name cb r t = (res, evs, r', t')"
  shows "resolver_ok r'"
  using assms
  by (auto simp: resolve_def resolver_ok_def Let_def update_conv' tables_status
      intro!: tables_register tables_join_Cons split: if_splits sum.splits option.splits bool.splits prod.splits list.splits)

lemma resolver_ok_handle_data:
  assumes "resolver_ok r" and "handle_data ipv6 now data r t = (res, evs, r', t')"
  shows "resolver_ok r'"
proof -
  have c: "resolver_ok (r\<lparr>dns_cache := c\<rparr>)" for c using assms(1) by (simp add: resolver_ok_def)
  have s: "resolver_ok (r\<lparr>hostname_status := AList.update h s (hostname_status r)\<rparr>)" for h s
    using assms(1) by (simp add: resolver_ok_def update_conv' tables_status)
  have k: "call_callback h ip r0 = (evs, r1) \<Longrightarrow> resolver_ok r0 \<Longrightarrow> resolver_ok r1" for h ip r0 evs r1
    using resolver_ok_call_callback [of r0 h ip] by simp
  show ?thesis
    using assms c s by (auto simp: handle_data_def Let_def dest: k split: option.splits list.splits if_splits prod.splits)
qed

lemma resolver_reach_ok: "resolver_reach r \<Longrightarrow> resolver_ok r"
proof (induction rule: resolver_reach.induct)
  case (new black dns_conf resolv_conf etc_hosts r)
  then show ?case by (rule resolver_ok_new)
next
  case (resolve r ipv6 now name cb t res evs r' t')
  then show ?case by (blast intro: resolver_ok_resolve)
next
  case (datagram r ipv6 now data addr t res evs r' t')
  then show ?case by (auto simp: handle_datagram_def split: if_splits intro: resolver_ok_handle_data)
next
  case (remove r cb res' r')
  then show ?case by (blast dest: resolver_ok_remove)
next
  case (periodic r now res' r')
  then show ?case by (auto simp: dns_handle_periodic_def resolver_ok_def split: sum.splits prod.splits)
qed

text \<open>C12. On every state that the resolver can reach, through any requests, datagrams, removals and
  sweeps, each registered callback is in the waiting list of the name it is registered for, no
  waiting list is empty, and a name that callbacks wait for has a status, so that an answer without
  an address always has a next step.\<close>

theorem resolver_tables_consistent:
  "resolver_reach r \<Longrightarrow> tables_ok (map_of (cb_to_hostname r)) (map_of (hostname_to_cb r)) (map_of (hostname_status r))"
  by (simp only: resolver_reach_ok resolver_ok_def [symmetric])

theorem resolver_tables_consistent_witness:
  "\<exists>r. resolver_reach r \<and> map_of (cb_to_hostname r) (7::nat) = Some ''a.b''
     \<and> tables_ok (map_of (cb_to_hostname r)) (map_of (hostname_to_cb r)) (map_of (hostname_status r))"
proof -
  define r0 :: "nat dns_resolver" where "r0 = \<lparr>hosts = [(''localhost'', ''127.0.0.1'')], hostname_status = [], hostname_to_cb = [],
    cb_to_hostname = [], dns_cache = lru_new 300, black_hostname_list = [], dns_servers = [(''8.8.4.4'', 53), (''8.8.8.8'', 53)]\<rparr>"
  have "resolver_new [] None None None = Inr r0" by (simp add: resolver_new_def parse_resolv_def r0_def)
  then have n: "resolver_reach r0" by (rule resolver_reach.new)
  have "is_ip ''a.b'' = Inr None" and "is_valid_hostname ''a.b'' = Inr True"
    and b: "build_address ''a.b'' \<noteq> None" by code_simp+
  then have "\<exists>res evs r1 t'. resolve False 0 ''a.b'' 7 r0 [] = (res, evs, r1, t') \<and> map_of (cb_to_hostname r1) 7 = Some ''a.b''"
    by (auto simp: resolve_def r0_def lru_contains_def lru_new_def send_req_def build_request_def Let_def split: prod.splits)
  then obtain res evs r1 t' where r: "resolve False 0 ''a.b'' 7 r0 [] = (res, evs, r1, t')" "map_of (cb_to_hostname r1) 7 = Some ''a.b''"
    by blast
  have "resolver_reach r1" using n r(1) by (rule resolver_reach.resolve)
  then show ?thesis using resolver_tables_consistent [of r1] r(2) by blast
qed

subsection \<open>From a request to its callbacks\<close>

definition waiting :: "bytes \<Rightarrow> 'cb dns_resolver \<Rightarrow> 'cb list" where
  "waiting h r = (case map_of (hostname_to_cb r) h of None \<Rightarrow> [] | Some cbs \<Rightarrow> cbs)"

lemma ar_text_not_Nil: "ar_ok a \<Longrightarrow> ar_text a \<noteq> []"
proof (cases "ar_family a")
  case AF_INET
  moreover assume "ar_ok a"
  ultimately show ?thesis by (simp add: ar_ok_def addr_bytes_def ar_text_def dotted_chars)
next
  case AF_INET6
  moreover assume "ar_ok a"
  ultimately have "CHR '':'' \<in> set (ar_text a)"
    using ntop6_colon [of "words_of (ar_addr a)"] words_of_spec [of "ar_addr a"] by (simp add: ar_ok_def addr_bytes_def ar_text_def)
  then show ?thesis by auto
qed

lemma strip_dots_none:
  assumes "h \<noteq> []" and "hd h \<noteq> CHR ''.''" and "last h \<noteq> CHR ''.''"
  shows "strip_dots h = h"
proof -
  have "dropWhile (\<lambda>c. c = CHR ''.'') h = h" using assms(1,2) by (cases h) simp_all
  moreover have "dropWhile (\<lambda>c. c = CHR ''.'') (rev h) = rev h" using assms(1,3) by (cases h rule: rev_cases) simp_all
  ultimately show ?thesis by (simp add: strip_dots_def)
qed

text \<open>A valid name without a full stop at its end is sent, and comes back, as it is.\<close>

lemma valid_name:
  assumes "is_valid_hostname h = Inr True" and "last h \<noteq> CHR ''.''"
  shows "h \<noteq> []" and "strip_dots h = h" and "list_all (\<lambda>l. l \<noteq> []) (py_split ''.'' h)"
proof -
  show h: "h \<noteq> []" and ls: "list_all (\<lambda>l. l \<noteq> []) (py_split ''.'' h)"
    using assms by (auto simp: is_valid_hostname_def valid_label_def Let_def list_all_iff split: if_splits)
  have "hd h \<noteq> CHR ''.''"
  proof
    assume "hd h = CHR ''.''"
    then obtain x where "h = ''.'' @ x" using h by (cases h) simp_all
    then have "py_split ''.'' h = [] # py_split ''.'' x" using py_split_Cons [of "CHR ''.''" "[]" "[]" x] by simp
    then show False using ls by simp
  qed
  then show "strip_dots h = h" using h assms(2) by (rule_tac strip_dots_none)
qed

lemma resolve_sent:
  assumes "resolve ipv6 now h cb r t = (Inr (), evs, r1, t1)" and "Send request srv \<in> set evs"
  shows "is_ip h = Inr None" and "map_of (hosts r) h = None" and "is_valid_hostname h = Inr True"
    and "build_request h (if ipv6 then QTYPE_AAAA else QTYPE_A) t = (Inr request, t1)"
    and "waiting h r1 = waiting h r @ [cb]" and "hosts r1 = hosts r" and "dns_servers r1 = dns_servers r"
    and "dns_cache r1 = dns_cache r"
  using assms
  by (auto simp: resolve_def send_req_def Let_def waiting_def update_conv' split: if_splits sum.splits option.splits bool.splits list.splits prod.splits)

lemma read_cache_set: "fst (read_cache now k (lru_setitem now' k v c)) = Inr v"
  by (simp add: read_cache_def lru_getitem_def lru_setitem_def touch_def update_conv' delete_conv' Let_def map_add_def)

lemma lru_contains_set: "lru_contains k (lru_setitem now k v c)"
  by (simp add: lru_contains_def lru_setitem_def update_conv')

text \<open>The answer of a name server reaches the callbacks of the name in the response, which is the name
  that was sent without its outer full stops.\<close>

lemma answer_handled:
  assumes "build_request h qtype t = (Inr request, t')" and "list_all (\<lambda>l. l \<noteq> []) (py_split ''.'' (strip_dots h))"
    and "strip_dots h \<noteq> []" and "qtype < 65536" and "length flags = 2" and "length recs < 65535" and "list_all ar_ok (rec # recs)"
    and "addr \<in> set (dns_servers r)"
  shows "handle_datagram ipv6 now (dns_answer flags request (rec # recs)) addr r u =
    (Inr (), map (\<lambda>c. Call c (Some (strip_dots h, Some (ar_text rec))) None) (waiting (strip_dots h) r),
     snd (call_callback (strip_dots h) (Some (ar_text rec))
       (r\<lparr>dns_cache := lru_setitem now (strip_dots h) (ar_text rec) (dns_cache r)\<rparr>)), u)"
proof -
  obtain n ns where h: "strip_dots h = n # ns" using assms(3) by (cases "strip_dots h") auto
  have "length (rec # recs) < 65536" using assms(6) by simp
  then have p: "parse_response (dns_answer flags request (rec # recs)) =
    Some \<lparr>hostname = Some (n # ns), questions = [(None, qtype, QCLASS_IN)],
           answers = map (\<lambda>a. (Some (ar_text a), ar_qtype a, QCLASS_IN)) (rec # recs)\<rparr>"
    using answer_parsed [OF assms(1,2,4,5) _ assms(7)] h by simp
  have a: "first_address (map (\<lambda>a. (Some (ar_text a), ar_qtype a, QCLASS_IN)) (rec # recs)) = Some (ar_text rec)"
    by (simp add: first_address_def ar_qtype_def split: family.split)
  have "ar_text rec \<noteq> []" using assms(7) by (simp add: ar_text_not_Nil)
  then show ?thesis using assms(8)
    unfolding handle_datagram_def handle_data_def p option.case dns_response.simps list.case a Let_def h
    by (simp add: call_callback_def waiting_def Let_def)
qed



subsection \<open>Where an answer goes astray\<close>

text \<open>A callback that joins a request under way is not registered, so removing it does nothing, and
  the answer calls it although its owner may be gone.\<close>

theorem joined_callback_stays:
  assumes "resolve ipv6 now h cb r t = (Inr (), evs, r1, t1)" and "Send request srv \<in> set evs"
    and "waiting h r \<noteq> []" and "map_of (cb_to_hostname r) cb = None"
  shows "remove_callback cb r1 = (Inr (), r1) \<and> cb \<in> set (waiting h r1)"
proof -
  have "cb_to_hostname r1 = cb_to_hostname r"
    using assms(1-3) by (auto simp: resolve_def send_req_def Let_def waiting_def split: if_splits sum.splits option.splits bool.splits list.splits prod.splits)
  then show ?thesis using assms(4) resolve_sent(5) [OF assms(1,2)] by (simp add: remove_callback_def)
qed

text \<open>A name with a full stop at its end is asked for without it, so the answer finds no callbacks:
  those of the name wait on, and nothing but the cache changes.\<close>

theorem final_stop_unanswered:
  assumes "build_request h qtype t = (Inr request, t')" and "list_all (\<lambda>l. l \<noteq> []) (py_split ''.'' (strip_dots h))"
    and "strip_dots h \<noteq> []" and "qtype < 65536" and "length flags = 2" and "length recs < 65535" and "list_all ar_ok (rec # recs)"
    and "addr \<in> set (dns_servers r)" and "last h = CHR ''.''" and "waiting (strip_dots h) r = []"
  shows "\<exists>r'. handle_datagram ipv6 now (dns_answer flags request (rec # recs)) addr r u = (Inr (), [], r', u) \<and> waiting h r' = waiting h r"
proof -
  have "h \<noteq> []" using assms(3) by (auto simp: strip_dots_def)
  have "last (strip_dots h) \<noteq> CHR ''.''"
    using assms(3) hd_dropWhile [of "\<lambda>c. c = CHR ''.''" "rev (dropWhile (\<lambda>c. c = CHR ''.'') h)"]
    by (simp add: strip_dots_def last_rev)
  then have "strip_dots h \<noteq> h" using assms(9) by auto
  then have "waiting h (snd (call_callback (strip_dots h) (Some (ar_text rec))
       (r\<lparr>dns_cache := lru_setitem now (strip_dots h) (ar_text rec) (dns_cache r)\<rparr>))) = waiting h r"
    by (simp add: waiting_def call_callback_def Let_def delete_conv')
  then show ?thesis using answer_handled [OF assms(1-8)] assms(10) by simp
qed

end
