(* ===== verification/Event_Loop.thy ===== *)
theory Event_Loop
  imports Prelude "HOL-Library.AList"
begin

text \<open>
  \<^verbatim>\<open>eventloop.py\<close>: the two pollers that the module implements itself, \<^verbatim>\<open>SelectLoop\<close> and
  \<^verbatim>\<open>KqueueLoop\<close>, and \<^verbatim>\<open>EventLoop\<close> above them. The locale \<open>poller\<close> states what the loop
  needs of a poller, \<^verbatim>\<open>select.epoll\<close> included, and is interpreted on the two. What the operating
  system answers is an argument; a file is a number, its \<^verbatim>\<open>fileno()\<close> is given beside it.
  Handlers and callbacks are functions on the loop and on a world of their own. Log lines and
  \<^verbatim>\<open>time.sleep\<close> are left out.
\<close>

type_synonym fd = nat
type_synonym mode = nat

definition POLL_NULL :: mode where "POLL_NULL = 0"
definition POLL_IN :: mode where "POLL_IN = 1"
definition POLL_OUT :: mode where "POLL_OUT = 4"
definition POLL_ERR :: mode where "POLL_ERR = 8"
definition POLL_HUP :: mode where "POLL_HUP = 16"
definition POLL_NVAL :: mode where "POLL_NVAL = 32"

definition TIMEOUT_PRECISION :: time where "TIMEOUT_PRECISION = 2"

definition has_flag :: "mode \<Rightarrow> mode \<Rightarrow> bool" where
  "has_flag m flag \<longleftrightarrow> m AND flag \<noteq> 0"

text \<open>\<^verbatim>\<open>results[fd] |= flag\<close> on a dictionary with the default \<open>POLL_NULL\<close>\<close>

definition or_into :: "fd \<Rightarrow> mode \<Rightarrow> (fd \<times> mode) list \<Rightarrow> (fd \<times> mode) list" where
  "or_into fd flag rs = AList.update fd ((case map_of rs fd of None \<Rightarrow> POLL_NULL | Some m \<Rightarrow> m) OR flag) rs"

subsection \<open>SelectLoop\<close>

record select_loop =
  r_list :: "fd set"
  w_list :: "fd set"
  x_list :: "fd set"

definition select_new :: select_loop where
  "select_new = \<lparr>r_list = {}, w_list = {}, x_list = {}\<rparr>"

definition select_poll :: "fd list \<times> fd list \<times> fd list \<Rightarrow> (fd \<times> mode) list" where
  "select_poll ready =
     (case ready of (r, w, x) \<Rightarrow>
        fold (\<lambda>(fds, flag) rs. fold (\<lambda>fd. or_into fd flag) fds rs) [(r, POLL_IN), (w, POLL_OUT), (x, POLL_ERR)] [])"

definition select_register :: "fd \<Rightarrow> mode \<Rightarrow> select_loop \<Rightarrow> unit res \<times> select_loop" where
  "select_register fd m s =
     (let s1 = (if has_flag m POLL_IN then s\<lparr>r_list := insert fd (r_list s)\<rparr> else s);
          s2 = (if has_flag m POLL_OUT then s1\<lparr>w_list := insert fd (w_list s1)\<rparr> else s1)
      in (Inr (), if has_flag m POLL_ERR then s2\<lparr>x_list := insert fd (x_list s2)\<rparr> else s2))"

definition select_unregister :: "fd \<Rightarrow> select_loop \<Rightarrow> unit res \<times> select_loop" where
  "select_unregister fd s = (Inr (), \<lparr>r_list = r_list s - {fd}, w_list = w_list s - {fd}, x_list = x_list s - {fd}\<rparr>)"

definition select_modify :: "fd \<Rightarrow> mode \<Rightarrow> select_loop \<Rightarrow> unit res \<times> select_loop" where
  "select_modify fd m s =
     (case select_unregister fd s of (Inl e, s1) \<Rightarrow> (Inl e, s1) | (Inr _, s1) \<Rightarrow> select_register fd m s1)"

subsection \<open>KqueueLoop\<close>

text \<open>The kernel's queue is a set of filters: adding one that is there is allowed, deleting one that is
  not raises.\<close>

datatype kfilter = KQ_FILTER_READ | KQ_FILTER_WRITE
datatype kflag = KQ_EV_ADD | KQ_EV_DELETE

record kqueue_loop =
  kqueue :: "(fd \<times> kfilter) set"
  kfds :: "(fd \<times> mode) list"

definition kqueue_new :: kqueue_loop where
  "kqueue_new = \<lparr>kqueue = {}, kfds = []\<rparr>"

fun kqueue_control :: "(fd \<times> kfilter) list \<Rightarrow> kflag \<Rightarrow> kqueue_loop \<Rightarrow> unit res \<times> kqueue_loop" where
  "kqueue_control [] flag s = (Inr (), s)"
| "kqueue_control (e # es) flag s =
     (case flag of
        KQ_EV_ADD \<Rightarrow> kqueue_control es flag (s\<lparr>kqueue := insert e (kqueue s)\<rparr>)
      | KQ_EV_DELETE \<Rightarrow> if e \<in> kqueue s then kqueue_control es flag (s\<lparr>kqueue := kqueue s - {e}\<rparr>) else (Inl OSError, s))"

definition kq_control :: "fd \<Rightarrow> mode \<Rightarrow> kflag \<Rightarrow> kqueue_loop \<Rightarrow> unit res \<times> kqueue_loop" where
  "kq_control fd m flag s =
     kqueue_control ((if has_flag m POLL_IN then [(fd, KQ_FILTER_READ)] else [])
       @ (if has_flag m POLL_OUT then [(fd, KQ_FILTER_WRITE)] else [])) flag s"

definition kqueue_poll :: "(fd \<times> kfilter) list \<Rightarrow> (fd \<times> mode) list" where
  "kqueue_poll events =
     fold (\<lambda>(fd, f). or_into fd (case f of KQ_FILTER_READ \<Rightarrow> POLL_IN | KQ_FILTER_WRITE \<Rightarrow> POLL_OUT)) events []"

definition kqueue_register :: "fd \<Rightarrow> mode \<Rightarrow> kqueue_loop \<Rightarrow> unit res \<times> kqueue_loop" where
  "kqueue_register fd m s = kq_control fd m KQ_EV_ADD (s\<lparr>kfds := AList.update fd m (kfds s)\<rparr>)"

definition kqueue_unregister :: "fd \<Rightarrow> kqueue_loop \<Rightarrow> unit res \<times> kqueue_loop" where
  "kqueue_unregister fd s =
     (case map_of (kfds s) fd of
        None \<Rightarrow> (Inl KeyError, s)
      | Some m \<Rightarrow>
          (case kq_control fd m KQ_EV_DELETE s of
             (Inl e, s1) \<Rightarrow> (Inl e, s1)
           | (Inr _, s1) \<Rightarrow> (Inr (), s1\<lparr>kfds := AList.delete fd (kfds s1)\<rparr>)))"

definition kqueue_modify :: "fd \<Rightarrow> mode \<Rightarrow> kqueue_loop \<Rightarrow> unit res \<times> kqueue_loop" where
  "kqueue_modify fd m s =
     (case kqueue_unregister fd s of (Inl e, s1) \<Rightarrow> (Inl e, s1) | (Inr _, s1) \<Rightarrow> kqueue_register fd m s1)"

subsection \<open>EventLoop\<close>

record 's poll_ops =
  op_register :: "fd \<Rightarrow> mode \<Rightarrow> 's \<Rightarrow> unit res \<times> 's"
  op_unregister :: "fd \<Rightarrow> 's \<Rightarrow> unit res \<times> 's"
  op_modify :: "fd \<Rightarrow> mode \<Rightarrow> 's \<Rightarrow> unit res \<times> 's"

definition select_ops :: "select_loop poll_ops" where
  "select_ops = \<lparr>op_register = select_register, op_unregister = select_unregister, op_modify = select_modify\<rparr>"

definition kqueue_ops :: "kqueue_loop poll_ops" where
  "kqueue_ops = \<lparr>op_register = kqueue_register, op_unregister = kqueue_unregister, op_modify = kqueue_modify\<rparr>"

record ('s, 'h, 'k) event_loop =
  impl :: 's
  fdmap :: "(fd \<times> nat \<times> 'h) list"
  last_time :: time
  periodic_callbacks :: "'k list"
  stopping :: bool

definition loop_new :: "'s \<Rightarrow> time \<Rightarrow> ('s, 'h, 'k) event_loop" where
  "loop_new s now = \<lparr>impl = s, fdmap = [], last_time = now, periodic_callbacks = [], stopping = False\<rparr>"

definition loop_poll :: "(fd \<times> mode) list \<Rightarrow> ('s, 'h, 'k) event_loop \<Rightarrow> (nat \<times> fd \<times> mode) list res" where
  "loop_poll events l =
     fold (\<lambda>(fd, event) r. rbind r (\<lambda>es.
         case map_of (fdmap l) fd of None \<Rightarrow> Inl KeyError | Some (f, _) \<Rightarrow> Inr (es @ [(f, fd, event)]))) events (Inr [])"

definition lift_impl :: "unit res \<times> 's \<Rightarrow> ('s, 'h, 'k) event_loop \<Rightarrow> unit res \<times> ('s, 'h, 'k) event_loop" where
  "lift_impl rs l = (case rs of (r, s) \<Rightarrow> (r, l\<lparr>impl := s\<rparr>))"

definition loop_add :: "'s poll_ops \<Rightarrow> nat \<Rightarrow> fd \<Rightarrow> mode \<Rightarrow> 'h \<Rightarrow> ('s, 'h, 'k) event_loop \<Rightarrow> unit res \<times> ('s, 'h, 'k) event_loop" where
  "loop_add P f fd m h l = lift_impl (op_register P fd m (impl l)) (l\<lparr>fdmap := AList.update fd (f, h) (fdmap l)\<rparr>)"

text \<open>\<^verbatim>\<open>remove\<close> and \<^verbatim>\<open>removefd\<close>\<close>

definition loop_remove :: "'s poll_ops \<Rightarrow> fd \<Rightarrow> ('s, 'h, 'k) event_loop \<Rightarrow> unit res \<times> ('s, 'h, 'k) event_loop" where
  "loop_remove P fd l =
     (if map_of (fdmap l) fd = None then (Inl KeyError, l)
      else lift_impl (op_unregister P fd (impl l)) (l\<lparr>fdmap := AList.delete fd (fdmap l)\<rparr>))"

definition loop_modify :: "'s poll_ops \<Rightarrow> fd \<Rightarrow> mode \<Rightarrow> ('s, 'h, 'k) event_loop \<Rightarrow> unit res \<times> ('s, 'h, 'k) event_loop" where
  "loop_modify P fd m l = lift_impl (op_modify P fd m (impl l)) l"

definition add_periodic :: "'k \<Rightarrow> ('s, 'h, 'k) event_loop \<Rightarrow> ('s, 'h, 'k) event_loop" where
  "add_periodic c l = l\<lparr>periodic_callbacks := periodic_callbacks l @ [c]\<rparr>"

definition remove_periodic :: "'k \<Rightarrow> ('s, 'h, 'k) event_loop \<Rightarrow> unit res \<times> ('s, 'h, 'k) event_loop" where
  "remove_periodic c l =
     (if c \<in> set (periodic_callbacks l) then (Inr (), l\<lparr>periodic_callbacks := remove1 c (periodic_callbacks l)\<rparr>)
      else (Inl ValueError, l))"

definition loop_stop :: "('s, 'h, 'k) event_loop \<Rightarrow> ('s, 'h, 'k) event_loop" where
  "loop_stop l = l\<lparr>stopping := True\<rparr>"

subsection \<open>One turn of run\<close>

type_synonym ('s, 'h, 'k, 'w) loop_world = "('s, 'h, 'k) event_loop \<times> 'w"

type_synonym ('s, 'h, 'k, 'w) handle_fun =
  "'h \<Rightarrow> nat \<Rightarrow> fd \<Rightarrow> mode \<Rightarrow> ('s, 'h, 'k, 'w) loop_world \<Rightarrow> bool res \<times> ('s, 'h, 'k, 'w) loop_world"

type_synonym ('s, 'h, 'k, 'w) callback_fun =
  "'k \<Rightarrow> ('s, 'h, 'k, 'w) loop_world \<Rightarrow> unit res \<times> ('s, 'h, 'k, 'w) loop_world"

text \<open>The handler of a descriptor is looked up when its turn comes. Errors of the operating system
  are printed; any other exception leaves \<^verbatim>\<open>run\<close>.\<close>

fun dispatch :: "('s, 'h, 'k, 'w) handle_fun \<Rightarrow> (nat \<times> fd \<times> mode) list \<Rightarrow> ('s, 'h, 'k, 'w) loop_world
    \<Rightarrow> unit res \<times> ('s, 'h, 'k, 'w) loop_world" where
  "dispatch handle [] lw = (Inr (), lw)"
| "dispatch handle ((f, fd, event) # es) lw =
     (case map_of (fdmap (fst lw)) fd of
        None \<Rightarrow> dispatch handle es lw
      | Some (_, h) \<Rightarrow>
          (case handle h f fd event lw of
             (Inr _, lw1) \<Rightarrow> dispatch handle es lw1
           | (Inl e, lw1) \<Rightarrow> if e = OSError then dispatch handle es lw1 else (Inl e, lw1)))"

text \<open>Python's \<^verbatim>\<open>for\<close> over the list of callbacks keeps an index, and the callbacks may change the
  list. Callbacks that always add another would keep it running.\<close>

partial_function (option) run_callbacks :: "('s, 'h, 'k, 'w) callback_fun \<Rightarrow> nat \<Rightarrow> ('s, 'h, 'k, 'w) loop_world
    \<Rightarrow> (unit res \<times> ('s, 'h, 'k, 'w) loop_world) option" where
  [code]: "run_callbacks call i lw =
     (if i < length (periodic_callbacks (fst lw))
      then (case call (periodic_callbacks (fst lw) ! i) lw of
              (Inl e, lw1) \<Rightarrow> Some (Inl e, lw1)
            | (Inr _, lw1) \<Rightarrow> run_callbacks call (Suc i) lw1)
      else Some (Inr (), lw))"

datatype errno = EPIPE | EINTR | OtherErrno int

datatype polled = Ready "(fd \<times> mode) list" | PollFails errno

text \<open>The rest of a turn once the events are there.\<close>

definition turn_rest :: "('s, 'h, 'k, 'w) handle_fun \<Rightarrow> ('s, 'h, 'k, 'w) callback_fun \<Rightarrow> bool \<Rightarrow> time
    \<Rightarrow> (nat \<times> fd \<times> mode) list \<Rightarrow> ('s, 'h, 'k, 'w) loop_world
    \<Rightarrow> (unit res \<times> (nat \<times> fd \<times> mode) list \<times> ('s, 'h, 'k, 'w) loop_world) option" where
  "turn_rest handle call asap now es lw =
     (case dispatch handle es lw of
        (Inl e, lw1) \<Rightarrow> Some (Inl e, es, lw1)
      | (Inr _, lw1) \<Rightarrow>
          (if asap \<or> now - last_time (fst lw1) \<ge> TIMEOUT_PRECISION
           then (case run_callbacks call 0 lw1 of
                   None \<Rightarrow> None
                 | Some (Inl e, lw2) \<Rightarrow> Some (Inl e, es, lw2)
                 | Some (Inr _, (l, w)) \<Rightarrow> Some (Inr (), es, (l\<lparr>last_time := now\<rparr>, w)))
           else Some (Inr (), es, lw1)))"

text \<open>The variable \<^verbatim>\<open>events\<close> lives outside the loop.\<close>

definition loop_turn :: "('s, 'h, 'k, 'w) handle_fun \<Rightarrow> ('s, 'h, 'k, 'w) callback_fun \<Rightarrow> polled \<Rightarrow> time
    \<Rightarrow> (nat \<times> fd \<times> mode) list \<times> ('s, 'h, 'k, 'w) loop_world
    \<Rightarrow> (unit res \<times> (nat \<times> fd \<times> mode) list \<times> ('s, 'h, 'k, 'w) loop_world) option" where
  "loop_turn handle call p now st =
     (case st of (events, lw) \<Rightarrow>
        (case p of
           Ready evs \<Rightarrow>
             (case loop_poll evs (fst lw) of
                Inl e \<Rightarrow> Some (Inl e, events, lw)
              | Inr es \<Rightarrow> turn_rest handle call False now es lw)
         | PollFails n \<Rightarrow>
             (if n = EPIPE \<or> n = EINTR then turn_rest handle call True now events lw
              else Some (Inr (), events, lw))))"

text \<open>\<^verbatim>\<open>run\<close> on the answers of the poller and the times of the turns.\<close>

fun loop_run :: "('s, 'h, 'k, 'w) handle_fun \<Rightarrow> ('s, 'h, 'k, 'w) callback_fun \<Rightarrow> (polled \<times> time) list
    \<Rightarrow> (nat \<times> fd \<times> mode) list \<times> ('s, 'h, 'k, 'w) loop_world
    \<Rightarrow> (unit res \<times> (nat \<times> fd \<times> mode) list \<times> ('s, 'h, 'k, 'w) loop_world) option" where
  "loop_run handle call [] st = Some (Inr (), st)"
| "loop_run handle call ((p, now) # ps) st =
     (if stopping (fst (snd st)) then Some (Inr (), st)
      else
        (case loop_turn handle call p now st of
           None \<Rightarrow> None
         | Some (Inl e, st1) \<Rightarrow> Some (Inl e, st1)
         | Some (Inr _, st1) \<Rightarrow> loop_run handle call ps st1))"

subsection \<open>What the loop needs of a poller\<close>

definition asked :: "mode \<Rightarrow> mode \<Rightarrow> bool" where
  "asked ev m \<longleftrightarrow> ev OR m = m"

text \<open>\<open>rep s K\<close>: the poller watches the descriptors of \<open>K\<close> for the modes it gives them. \<open>reports s\<close>
  are the answers that a call of \<^verbatim>\<open>poll\<close> may give.\<close>

locale poller =
  fixes P :: "'s poll_ops"
    and rep :: "'s \<Rightarrow> (fd \<Rightarrow> mode option) \<Rightarrow> bool"
    and reports :: "'s \<Rightarrow> (fd \<times> mode) list \<Rightarrow> bool"
  assumes register: "rep s K \<Longrightarrow> K fd = None \<Longrightarrow> \<exists>s'. op_register P fd m s = (Inr (), s') \<and> rep s' (K(fd \<mapsto> m))"
    and unregister: "rep s K \<Longrightarrow> K fd \<noteq> None \<Longrightarrow> \<exists>s'. op_unregister P fd s = (Inr (), s') \<and> rep s' (K(fd := None))"
    and modify: "rep s K \<Longrightarrow> K fd \<noteq> None \<Longrightarrow> \<exists>s'. op_modify P fd m s = (Inr (), s') \<and> rep s' (K(fd \<mapsto> m))"
    and reports_known: "rep s K \<Longrightarrow> reports s evs \<Longrightarrow>
      distinct (map fst evs) \<and> (\<forall>(fd, ev) \<in> set evs. \<exists>m. K fd = Some m \<and> asked ev m)"

text \<open>What the modules do with a loop: a descriptor is added when it is not there, its mode is changed
  when it is.\<close>

inductive loop_reach :: "'s poll_ops \<Rightarrow> ('s, 'h, 'k) event_loop \<Rightarrow> ('s, 'h, 'k) event_loop \<Rightarrow> bool" for P l0 where
  start: "loop_reach P l0 l0"
| add: "loop_reach P l0 l \<Longrightarrow> map_of (fdmap l) fd = None \<Longrightarrow> loop_reach P l0 (snd (loop_add P f fd m h l))"
| remove: "loop_reach P l0 l \<Longrightarrow> loop_reach P l0 (snd (loop_remove P fd l))"
| modify: "loop_reach P l0 l \<Longrightarrow> map_of (fdmap l) fd \<noteq> None \<Longrightarrow> loop_reach P l0 (snd (loop_modify P fd m l))"
| periodic: "loop_reach P l0 l \<Longrightarrow> loop_reach P l0 (add_periodic c l)"
| unperiodic: "loop_reach P l0 l \<Longrightarrow> loop_reach P l0 (snd (remove_periodic c l))"
| stop: "loop_reach P l0 l \<Longrightarrow> loop_reach P l0 (loop_stop l)"

lemma loop_poll_known:
  assumes "\<forall>(fd, ev) \<in> set evs. map_of (fdmap l) fd \<noteq> None"
  shows "loop_poll evs l = Inr (map (\<lambda>(fd, ev). (fst (the (map_of (fdmap l) fd)), fd, ev)) evs)"
proof -
  have "fold (\<lambda>(fd, event) r. rbind r (\<lambda>es. case map_of (fdmap l) fd of
            None \<Rightarrow> Inl KeyError | Some (f, _) \<Rightarrow> Inr (es @ [(f, fd, event)]))) evs (Inr es)
      = Inr (es @ map (\<lambda>(fd, ev). (fst (the (map_of (fdmap l) fd)), fd, ev)) evs)" for es
    using assms by (induction evs arbitrary: es) auto
  then show ?thesis by (simp add: loop_poll_def)
qed

context poller
begin

definition loop_rep :: "('s, 'h, 'k) event_loop \<Rightarrow> (fd \<Rightarrow> mode option) \<Rightarrow> bool" where
  "loop_rep l K \<longleftrightarrow> rep (impl l) K \<and> dom (map_of (fdmap l)) = dom K"

lemma rep_dom: "loop_rep l K \<Longrightarrow> map_of (fdmap l) fd = None \<longleftrightarrow> K fd = None"
  unfolding loop_rep_def by (metis domIff)

lemma rep_impl: "loop_rep l K \<Longrightarrow> rep (impl l) K"
  by (simp add: loop_rep_def)

lemma add_rep:
  assumes "loop_rep l K" and "map_of (fdmap l) fd = None"
  shows "\<exists>l'. loop_add P f fd m h l = (Inr (), l') \<and> loop_rep l' (K(fd \<mapsto> m)) \<and> fdmap l' = AList.update fd (f, h) (fdmap l)"
proof -
  have "K fd = None" using rep_dom [OF assms(1), of fd] assms(2) by simp
  then obtain s' where "op_register P fd m (impl l) = (Inr (), s')" "rep s' (K(fd \<mapsto> m))"
    using register [OF rep_impl [OF assms(1)]] by blast
  then show ?thesis using assms(1) by (simp add: loop_add_def lift_impl_def loop_rep_def update_conv')
qed

lemma remove_rep:
  assumes "loop_rep l K" and "map_of (fdmap l) fd \<noteq> None"
  shows "\<exists>l'. loop_remove P fd l = (Inr (), l') \<and> loop_rep l' (K(fd := None)) \<and> fdmap l' = AList.delete fd (fdmap l)"
proof -
  have "K fd \<noteq> None" using rep_dom [OF assms(1), of fd] assms(2) by simp
  then obtain s' where "op_unregister P fd (impl l) = (Inr (), s')" "rep s' (K(fd := None))"
    using unregister [OF rep_impl [OF assms(1)]] by blast
  then show ?thesis using assms by (simp add: loop_remove_def lift_impl_def loop_rep_def delete_conv')
qed

lemma modify_rep:
  assumes "loop_rep l K" and "map_of (fdmap l) fd \<noteq> None"
  shows "\<exists>l'. loop_modify P fd m l = (Inr (), l') \<and> loop_rep l' (K(fd \<mapsto> m)) \<and> fdmap l' = fdmap l"
proof -
  have "K fd \<noteq> None" using rep_dom [OF assms(1), of fd] assms(2) by simp
  then obtain s' where s: "op_modify P fd m (impl l) = (Inr (), s')" "rep s' (K(fd \<mapsto> m))"
    using modify [OF rep_impl [OF assms(1)]] by blast
  have "dom (K(fd \<mapsto> m)) = dom K" using \<open>K fd \<noteq> None\<close> by auto
  then show ?thesis using s assms(1) by (simp add: loop_modify_def lift_impl_def loop_rep_def)
qed

lemma reach_rep:
  assumes "loop_reach P l0 l" and "loop_rep l0 K0"
  shows "\<exists>K. loop_rep l K"
  using assms
proof (induction rule: loop_reach.induct)
  case (add l fd f m h)
  then obtain K where "loop_rep l K" by blast
  from add_rep [OF this add.hyps(2)] show ?case by (metis snd_conv)
next
  case (remove l fd)
  then obtain K where K: "loop_rep l K" by blast
  show ?case
  proof (cases "map_of (fdmap l) fd = None")
    case True
    then show ?thesis using K by (auto simp: loop_remove_def)
  next
    case False
    from remove_rep [OF K this] show ?thesis by (metis snd_conv)
  qed
next
  case (modify l fd m)
  then obtain K where "loop_rep l K" by blast
  from modify_rep [OF this modify.hyps(2)] show ?case by (metis snd_conv)
qed (auto simp: loop_rep_def add_periodic_def remove_periodic_def loop_stop_def)

lemma polls_known:
  assumes "loop_reach P l0 l" and "loop_rep l0 K0" and "reports (impl l) evs"
  shows "\<exists>es. loop_poll evs l = Inr es \<and> distinct (map (\<lambda>(_, fd, _). fd) es)
    \<and> (\<forall>(f, fd, ev) \<in> set es. \<exists>h. map_of (fdmap l) fd = Some (f, h))"
proof -
  obtain K where K: "loop_rep l K" using reach_rep [OF assms(1,2)] by blast
  then have r: "distinct (map fst evs)" "\<forall>(fd, ev) \<in> set evs. \<exists>m. K fd = Some m \<and> asked ev m"
    using reports_known [of "impl l" K evs] assms(3) by (auto simp: loop_rep_def)
  have known: "map_of (fdmap l) fd \<noteq> None" if "(fd, ev) \<in> set evs" for fd ev
  proof -
    have "fd \<in> dom K" using r(2) that by auto
    then have "fd \<in> dom (map_of (fdmap l))" using K by (simp add: loop_rep_def)
    then show ?thesis by auto
  qed
  let ?es = "map (\<lambda>(fd, ev). (fst (the (map_of (fdmap l) fd)), fd, ev)) evs"
  have p: "loop_poll evs l = Inr ?es" by (rule loop_poll_known) (use known in auto)
  have "map (\<lambda>(_, fd, _). fd) ?es = map fst evs" by (simp add: case_prod_beta' comp_def)
  then have d: "distinct (map (\<lambda>(_, fd, _). fd) ?es)" using r(1) by (simp only:)
  have "\<forall>(f, fd, ev) \<in> set ?es. \<exists>h. map_of (fdmap l) fd = Some (f, h)"
    using known by force
  with p d show ?thesis by blast
qed

end

subsection \<open>The two pollers keep the contract\<close>

lemma asked_or: "asked a m \<Longrightarrow> asked b m \<Longrightarrow> asked (a OR b) m"
  by (simp add: asked_def or.assoc)

lemma has_flag_asked: "has_flag m (2 ^ k) \<Longrightarrow> asked (2 ^ k) m"
  unfolding has_flag_def asked_def and_exp_eq_0_iff_not_bit
  by (rule bit_eqI) (auto simp: bit_simps)

lemma flags_asked:
  "has_flag m POLL_IN \<Longrightarrow> asked POLL_IN m" "has_flag m POLL_OUT \<Longrightarrow> asked POLL_OUT m" "has_flag m POLL_ERR \<Longrightarrow> asked POLL_ERR m"
  using has_flag_asked [of m 0] has_flag_asked [of m 2] has_flag_asked [of m 3]
  by (simp_all add: POLL_IN_def POLL_OUT_def POLL_ERR_def)

definition answers_asked :: "(fd \<Rightarrow> mode option) \<Rightarrow> (fd \<times> mode) list \<Rightarrow> bool" where
  "answers_asked K rs \<longleftrightarrow> distinct (map fst rs) \<and> (\<forall>fd ev. map_of rs fd = Some ev \<longrightarrow> (\<exists>m. K fd = Some m \<and> asked ev m))"

lemma or_into_asked:
  assumes "answers_asked K rs" and "K fd = Some m" and "asked flag m"
  shows "answers_asked K (or_into fd flag rs)"
proof -
  let ?old = "case map_of rs fd of None \<Rightarrow> POLL_NULL | Some m \<Rightarrow> m"
  have "asked ?old m"
    using assms(1,2) unfolding answers_asked_def
    by (cases "map_of rs fd") (simp add: POLL_NULL_def asked_def, fastforce)
  then have "asked (?old OR flag) m" using assms(3) by (rule asked_or)
  then show ?thesis
    using assms(1,2) by (simp add: answers_asked_def or_into_def update_conv' distinct_update)
qed

lemma answers_askedD:
  "answers_asked K rs \<Longrightarrow> distinct (map fst rs) \<and> (\<forall>(fd, ev) \<in> set rs. \<exists>m. K fd = Some m \<and> asked ev m)"
  unfolding answers_asked_def by (auto dest: map_of_is_SomeI)

lemma fold_or_into_asked:
  "answers_asked K rs \<Longrightarrow> \<forall>fd \<in> set fds. \<exists>m. K fd = Some m \<and> asked flag m \<Longrightarrow> answers_asked K (fold (\<lambda>fd. or_into fd flag) fds rs)"
proof (induction fds arbitrary: rs)
  case (Cons fd fds)
  then obtain m where "K fd = Some m" "asked flag m" by auto
  from or_into_asked [OF Cons.prems(1) this] Cons show ?case by simp
qed simp

definition select_rep :: "select_loop \<Rightarrow> (fd \<Rightarrow> mode option) \<Rightarrow> bool" where
  "select_rep s K \<longleftrightarrow> r_list s = {fd. \<exists>m. K fd = Some m \<and> has_flag m POLL_IN}
     \<and> w_list s = {fd. \<exists>m. K fd = Some m \<and> has_flag m POLL_OUT} \<and> x_list s = {fd. \<exists>m. K fd = Some m \<and> has_flag m POLL_ERR}"

definition select_reports :: "select_loop \<Rightarrow> (fd \<times> mode) list \<Rightarrow> bool" where
  "select_reports s evs \<longleftrightarrow> (\<exists>r w x. set r \<subseteq> r_list s \<and> set w \<subseteq> w_list s \<and> set x \<subseteq> x_list s \<and> evs = select_poll (r, w, x))"

lemma select_register_rep:
  "select_rep s K \<Longrightarrow> K fd = None \<Longrightarrow> \<exists>s'. select_register fd m s = (Inr (), s') \<and> select_rep s' (K(fd \<mapsto> m))"
  by (auto simp: select_register_def select_rep_def Let_def)

lemma select_unregister_rep: "select_rep s K \<Longrightarrow> \<exists>s'. select_unregister fd s = (Inr (), s') \<and> select_rep s' (K(fd := None))"
  by (auto simp: select_unregister_def select_rep_def)

interpretation sel: poller select_ops select_rep select_reports
proof unfold_locales
  fix s K fd m
  assume r: "select_rep s K"
  show "K fd = None \<Longrightarrow> \<exists>s'. op_register select_ops fd m s = (Inr (), s') \<and> select_rep s' (K(fd \<mapsto> m))"
    using select_register_rep [OF r] by (simp add: select_ops_def)
  show "\<exists>s'. op_unregister select_ops fd s = (Inr (), s') \<and> select_rep s' (K(fd := None))"
    using select_unregister_rep [OF r] by (simp add: select_ops_def)
  obtain s1 where s1: "select_unregister fd s = (Inr (), s1)" "select_rep s1 (K(fd := None))"
    using select_unregister_rep [OF r] by blast
  show "\<exists>s'. op_modify select_ops fd m s = (Inr (), s') \<and> select_rep s' (K(fd \<mapsto> m))"
    using select_register_rep [OF s1(2), of fd m] s1(1) by (simp add: select_ops_def select_modify_def)
next
  fix s K evs
  assume rep: "select_rep s K" and "select_reports s evs"
  then obtain r w x where a: "set r \<subseteq> r_list s" "set w \<subseteq> w_list s" "set x \<subseteq> x_list s" "evs = select_poll (r, w, x)"
    by (auto simp: select_reports_def)
  have "\<forall>fd \<in> set r. \<exists>m. K fd = Some m \<and> asked POLL_IN m" using rep a(1) flags_asked(1) by (auto simp: select_rep_def)
  moreover have "\<forall>fd \<in> set w. \<exists>m. K fd = Some m \<and> asked POLL_OUT m" using rep a(2) flags_asked(2) by (auto simp: select_rep_def)
  moreover have "\<forall>fd \<in> set x. \<exists>m. K fd = Some m \<and> asked POLL_ERR m" using rep a(3) flags_asked(3) by (auto simp: select_rep_def)
  moreover have "answers_asked K []" by (simp add: answers_asked_def)
  ultimately show "distinct (map fst evs) \<and> (\<forall>(fd, ev) \<in> set evs. \<exists>m. K fd = Some m \<and> asked ev m)"
    unfolding a(4) by (intro answers_askedD) (simp add: select_poll_def fold_or_into_asked)
qed

definition filter_flag :: "kfilter \<Rightarrow> mode" where
  "filter_flag f = (case f of KQ_FILTER_READ \<Rightarrow> POLL_IN | KQ_FILTER_WRITE \<Rightarrow> POLL_OUT)"

definition filters_of :: "fd \<Rightarrow> mode \<Rightarrow> (fd \<times> kfilter) set" where
  "filters_of fd m = {(fd, f) | f. has_flag m (filter_flag f)}"

definition kqueue_rep :: "kqueue_loop \<Rightarrow> (fd \<Rightarrow> mode option) \<Rightarrow> bool" where
  "kqueue_rep s K \<longleftrightarrow> map_of (kfds s) = K \<and> kqueue s = {(fd, f). \<exists>m. K fd = Some m \<and> has_flag m (filter_flag f)}"

definition kqueue_reports :: "kqueue_loop \<Rightarrow> (fd \<times> mode) list \<Rightarrow> bool" where
  "kqueue_reports s evs \<longleftrightarrow> (\<exists>events. set events \<subseteq> kqueue s \<and> evs = kqueue_poll events)"

lemma filters_of_list:
  "set ((if has_flag m POLL_IN then [(fd, KQ_FILTER_READ)] else []) @ (if has_flag m POLL_OUT then [(fd, KQ_FILTER_WRITE)] else []))
     = filters_of fd m"
proof -
  have "(fd', f) \<in> filters_of fd m \<longleftrightarrow> fd' = fd \<and> has_flag m (filter_flag f)" for fd' f by (auto simp: filters_of_def)
  then show ?thesis by (auto simp: filter_flag_def split: kfilter.splits if_splits)
qed

lemma kqueue_control_add: "kqueue_control es KQ_EV_ADD s = (Inr (), s\<lparr>kqueue := kqueue s \<union> set es\<rparr>)"
  by (induction es arbitrary: s) (simp_all add: insert_commute)

lemma kqueue_control_delete:
  "distinct es \<Longrightarrow> set es \<subseteq> kqueue s \<Longrightarrow> kqueue_control es KQ_EV_DELETE s = (Inr (), s\<lparr>kqueue := kqueue s - set es\<rparr>)"
proof (induction es arbitrary: s)
  case (Cons e es)
  then have "distinct es" "set es \<subseteq> kqueue (s\<lparr>kqueue := kqueue s - {e}\<rparr>)" by auto
  from Cons.IH [OF this] Cons.prems show ?case by (simp add: Diff_insert2 [symmetric])
qed simp

lemma kq_control_add: "kq_control fd m KQ_EV_ADD s = (Inr (), s\<lparr>kqueue := kqueue s \<union> filters_of fd m\<rparr>)"
  unfolding kq_control_def kqueue_control_add filters_of_list ..

lemma kq_control_delete:
  assumes "filters_of fd m \<subseteq> kqueue s"
  shows "kq_control fd m KQ_EV_DELETE s = (Inr (), s\<lparr>kqueue := kqueue s - filters_of fd m\<rparr>)"
  unfolding kq_control_def using assms by (subst kqueue_control_delete) (simp_all only: filters_of_list, simp)

lemma kqueue_register_rep:
  assumes "kqueue_rep s K" and "K fd = None"
  shows "\<exists>s'. kqueue_register fd m s = (Inr (), s') \<and> kqueue_rep s' (K(fd \<mapsto> m))"
  using assms by (auto simp: kqueue_register_def kq_control_add kqueue_rep_def update_conv' filters_of_def split: if_splits)

lemma kqueue_unregister_rep:
  assumes "kqueue_rep s K" and "K fd \<noteq> None"
  shows "\<exists>s'. kqueue_unregister fd s = (Inr (), s') \<and> kqueue_rep s' (K(fd := None))"
proof -
  obtain m where m: "map_of (kfds s) fd = Some m" "K fd = Some m" using assms by (auto simp: kqueue_rep_def)
  then have "filters_of fd m \<subseteq> kqueue s" using assms(1) by (auto simp: kqueue_rep_def filters_of_def)
  from kq_control_delete [OF this] show ?thesis
    using m assms(1) by (auto simp: kqueue_unregister_def kqueue_rep_def delete_conv' filters_of_def split: if_splits)
qed

interpretation kq: poller kqueue_ops kqueue_rep kqueue_reports
proof unfold_locales
  fix s K fd m
  assume r: "kqueue_rep s K"
  show "K fd = None \<Longrightarrow> \<exists>s'. op_register kqueue_ops fd m s = (Inr (), s') \<and> kqueue_rep s' (K(fd \<mapsto> m))"
    using kqueue_register_rep [OF r] by (simp add: kqueue_ops_def)
  assume k: "K fd \<noteq> None"
  show "\<exists>s'. op_unregister kqueue_ops fd s = (Inr (), s') \<and> kqueue_rep s' (K(fd := None))"
    using kqueue_unregister_rep [OF r k] by (simp add: kqueue_ops_def)
  obtain s1 where s1: "kqueue_unregister fd s = (Inr (), s1)" "kqueue_rep s1 (K(fd := None))"
    using kqueue_unregister_rep [OF r k] by blast
  show "\<exists>s'. op_modify kqueue_ops fd m s = (Inr (), s') \<and> kqueue_rep s' (K(fd \<mapsto> m))"
    using kqueue_register_rep [OF s1(2), of fd m] s1(1) by (simp add: kqueue_ops_def kqueue_modify_def)
next
  fix s K evs
  assume rep: "kqueue_rep s K" and "kqueue_reports s evs"
  then obtain events where a: "set events \<subseteq> kqueue s" "evs = kqueue_poll events" by (auto simp: kqueue_reports_def)
  have kept: "answers_asked K (fold (\<lambda>(fd, f). or_into fd (case f of KQ_FILTER_READ \<Rightarrow> POLL_IN | KQ_FILTER_WRITE \<Rightarrow> POLL_OUT)) events rs)"
    if "answers_asked K rs" for rs
    using that a(1)
  proof (induction events arbitrary: rs)
    case (Cons e events)
    obtain fd f where e: "e = (fd, f)" using prod.exhaust by blast
    then obtain m where m: "K fd = Some m" "has_flag m (filter_flag f)" using rep Cons.prems(2) by (auto simp: kqueue_rep_def)
    then have "asked (filter_flag f) m" using flags_asked by (cases f) (simp_all add: filter_flag_def)
    from or_into_asked [OF Cons.prems(1) m(1) this] Cons show ?case by (simp add: e filter_flag_def)
  qed simp
  have "answers_asked K []" by (simp add: answers_asked_def)
  from answers_askedD [OF kept [OF this]]
  show "distinct (map fst evs) \<and> (\<forall>(fd, ev) \<in> set evs. \<exists>m. K fd = Some m \<and> asked ev m)"
    unfolding a(2) kqueue_poll_def .
qed

end
