(* ===== verification/Tcp_Server.thy ===== *)
theory Tcp_Server
  imports Lru_Cache Py_Strings
begin

text \<open>
  The part of \<^verbatim>\<open>tcprelay.py\<close> that a listening port keeps: \<^verbatim>\<open>SpeedTester\<close>, and of
  \<^verbatim>\<open>TCPRelay\<close> the table of users, the counters of traffic, the speed testers per user, the
  statistics of connections and the table of idle connections. Dictionaries are association lists. A
  speed tester works on Python's floats; here its sums are rational numbers.
\<close>

subsection \<open>SpeedTester\<close>

record speed_tester =
  max_speed :: int
  last_check :: time
  sum_len :: rat

definition speed_new :: "time \<Rightarrow> int \<Rightarrow> speed_tester" where
  "speed_new now speed = \<lparr>max_speed = speed * 1024, last_check = now, sum_len = 0\<rparr>"

definition speed_update_limit :: "int \<Rightarrow> speed_tester \<Rightarrow> speed_tester" where
  "speed_update_limit speed s = s\<lparr>max_speed := speed * 1024\<rparr>"

definition speed_drain :: "time \<Rightarrow> speed_tester \<Rightarrow> speed_tester" where
  "speed_drain now s =
     (let rest = sum_len s - (now - last_check s) * of_int (max_speed s)
      in s\<lparr>sum_len := (if rest < 0 then 0 else rest), last_check := now\<rparr>)"

definition speed_add :: "time \<Rightarrow> nat \<Rightarrow> speed_tester \<Rightarrow> speed_tester" where
  "speed_add now data_len s =
     (if max_speed s > 0
      then (let s' = speed_drain now s in s'\<lparr>sum_len := sum_len s' + of_nat data_len\<rparr>)
      else s)"

definition speed_exceeded :: "time \<Rightarrow> speed_tester \<Rightarrow> bool \<times> speed_tester" where
  "speed_exceeded now s =
     (if max_speed s > 0
      then (let s' = speed_drain now s in (sum_len s' \<ge> of_int (max_speed s'), s'))
      else (False, s))"

subsection \<open>The state of a port\<close>

record user_cfg =
  password :: bytes
  speed_limit_per_con :: "int option"
  speed_limit_per_user :: "int option"

text \<open>\<^verbatim>\<open>add_user\<close> enters speed testers under the four bytes of the user id, a connection asks for
  its tester with a number: they are keys of the same dictionary.\<close>

datatype tester_key =
    Uid bytes
  | Num int

datatype stat_key =
    Count
  | Level
  | Addr bytes

record stat_counter =
  stat_ports :: "(int \<times> (stat_key \<times> int) list) list"
  stat_total :: "int option"
  stat_level :: "int option"

record tcp_server =
  listen_port :: int
  server_transfer_ul :: int
  server_transfer_dl :: int
  server_users :: "(bytes \<times> bytes) list"
  server_users_cfg :: "(bytes \<times> user_cfg) list"
  server_user_transfer_ul :: "(bytes \<times> int) list"
  server_user_transfer_dl :: "(bytes \<times> int) list"
  mu :: bool
  speed_testers_u :: "(tester_key \<times> speed_tester) list"
  speed_testers_d :: "(tester_key \<times> speed_tester) list"
  server_connections :: int
  default_limit :: "int option"
  timeout_cache :: "(nat, nat) lru"

definition limit_or_0 :: "int option \<Rightarrow> int" where
  "limit_or_0 l = (case l of None \<Rightarrow> 0 | Some n \<Rightarrow> n)"

subsection \<open>Users\<close>

definition set_limit :: "time \<Rightarrow> tester_key \<Rightarrow> int \<Rightarrow> (tester_key \<times> speed_tester) list \<Rightarrow> (tester_key \<times> speed_tester) list" where
  "set_limit now uid speed ts =
     (case map_of ts uid of
        Some s \<Rightarrow> AList.update uid (speed_update_limit speed s) ts
      | None \<Rightarrow> AList.update uid (speed_new now speed) ts)"

definition add_user :: "time \<Rightarrow> bytes \<Rightarrow> user_cfg \<Rightarrow> tcp_server \<Rightarrow> tcp_server" where
  "add_user now uid cfg s =
     (let speed = limit_or_0 (speed_limit_per_user cfg)
      in s\<lparr>server_users := AList.update uid (password cfg) (server_users s),
           server_users_cfg := AList.update uid cfg (server_users_cfg s),
           speed_testers_u := set_limit now (Uid uid) speed (speed_testers_u s),
           speed_testers_d := set_limit now (Uid uid) speed (speed_testers_d s)\<rparr>)"

definition del_user :: "bytes \<Rightarrow> tcp_server \<Rightarrow> tcp_server" where
  "del_user uid s = s\<lparr>server_users := AList.delete uid (server_users s), server_users_cfg := AList.delete uid (server_users_cfg s)\<rparr>"

definition pack_id :: "int \<Rightarrow> bytes res" where
  "pack_id n = (if 0 \<le> n \<and> n < 4294967296 then Inr (le32 (nat n)) else Inl StructError)"

text \<open>\<^verbatim>\<open>update_users\<close> takes a dictionary from ids to settings. An id that does not fit four bytes
  raises with the users before it added.\<close>

fun add_users :: "time \<Rightarrow> (int \<times> user_cfg) list \<Rightarrow> tcp_server \<Rightarrow> unit res \<times> tcp_server" where
  "add_users now [] s = (Inr (), s)"
| "add_users now ((n, cfg) # users) s =
     (case pack_id n of
        Inl e \<Rightarrow> (Inl e, s)
      | Inr uid \<Rightarrow> add_users now users (add_user now uid cfg s))"

definition update_users :: "time \<Rightarrow> (int \<times> user_cfg) list \<Rightarrow> tcp_server \<Rightarrow> unit res \<times> tcp_server" where
  "update_users now users s =
     (let gone = filter (\<lambda>uid. int (le_val uid) \<notin> fst ` set users) (map fst (server_users s))
      in add_users now users (fold del_user gone s))"

definition update_user :: "time \<Rightarrow> int \<Rightarrow> user_cfg \<Rightarrow> tcp_server \<Rightarrow> unit res \<times> tcp_server" where
  "update_user now n cfg s = (case pack_id n of Inl e \<Rightarrow> (Inl e, s) | Inr uid \<Rightarrow> (Inr (), add_user now uid cfg s))"

text \<open>The users of a protocol parameter \<^verbatim>\<open>max#id:password,id:password\<close>; an access list keeps
  only its own ids.\<close>

fun param_users :: "time \<Rightarrow> int list option \<Rightarrow> bytes list \<Rightarrow> tcp_server \<Rightarrow> unit res \<times> tcp_server" where
  "param_users now acl [] s = (Inr (), s)"
| "param_users now acl (user # users) s =
     (let items = py_split '':'' user in
      if length items = 2 then
        (case py_int (items ! 0) of
           None \<Rightarrow> (Inl ValueError, s)
         | Some n \<Rightarrow>
             (case pack_id n of
                Inl e \<Rightarrow> (Inl e, s)
              | Inr uid \<Rightarrow>
                  if acl \<noteq> None \<and> n \<notin> set (the acl) then param_users now acl users (del_user uid s)
                  else param_users now acl users
                    (add_user now uid \<lparr>password = items ! 1, speed_limit_per_con = None, speed_limit_per_user = None\<rparr> s)))
      else param_users now acl users s)"

definition update_users_param :: "time \<Rightarrow> bytes \<Rightarrow> int list option \<Rightarrow> tcp_server \<Rightarrow> unit res \<times> tcp_server" where
  "update_users_param now protocol_param acl s =
     (let param = py_split ''#'' protocol_param in
      if length param = 2 then param_users now acl (py_split '','' (param ! 1)) (s\<lparr>mu := True\<rparr>) else (Inr (), s))"

subsection \<open>Traffic\<close>

definition get_or_0 :: "'k \<Rightarrow> ('k \<times> int) list \<Rightarrow> int" where
  "get_or_0 k xs = (case map_of xs k of None \<Rightarrow> 0 | Some n \<Rightarrow> n)"

definition add_transfer_u :: "bytes option \<Rightarrow> int \<Rightarrow> tcp_server \<Rightarrow> tcp_server" where
  "add_transfer_u user transfer s =
     (case user of
        None \<Rightarrow> s\<lparr>server_transfer_ul := server_transfer_ul s + transfer\<rparr>
      | Some u \<Rightarrow>
          s\<lparr>server_user_transfer_ul := AList.update u
               (get_or_0 u (server_user_transfer_ul s) + (transfer + server_transfer_ul s)) (server_user_transfer_ul s),
            server_transfer_ul := 0\<rparr>)"

definition add_transfer_d :: "bytes option \<Rightarrow> int \<Rightarrow> tcp_server \<Rightarrow> tcp_server" where
  "add_transfer_d user transfer s =
     (case user of
        None \<Rightarrow> s\<lparr>server_transfer_dl := server_transfer_dl s + transfer\<rparr>
      | Some u \<Rightarrow>
          s\<lparr>server_user_transfer_dl := AList.update u
               (get_or_0 u (server_user_transfer_dl s) + (transfer + server_transfer_dl s)) (server_user_transfer_dl s),
            server_transfer_dl := 0\<rparr>)"

definition get_ud :: "tcp_server \<Rightarrow> int \<times> int" where
  "get_ud s = (server_transfer_ul s, server_transfer_dl s)"

definition get_users_ud :: "tcp_server \<Rightarrow> (bytes \<times> int) list \<times> (bytes \<times> int) list" where
  "get_users_ud s = (server_user_transfer_ul s, server_user_transfer_dl s)"

definition add_connection :: "int \<Rightarrow> tcp_server \<Rightarrow> tcp_server" where
  "add_connection val s = s\<lparr>server_connections := server_connections s + val\<rparr>"

subsection \<open>Speed testers of the users\<close>

definition find_tester :: "time \<Rightarrow> tester_key \<Rightarrow> int option \<Rightarrow> (tester_key \<times> speed_tester) list
    \<Rightarrow> speed_tester \<times> (tester_key \<times> speed_tester) list" where
  "find_tester now uid dflt ts =
     (case map_of ts uid of
        Some s \<Rightarrow> (s, ts)
      | None \<Rightarrow> (let s = speed_new now (limit_or_0 dflt) in (s, AList.update uid s ts)))"

definition speed_tester_u :: "time \<Rightarrow> tester_key \<Rightarrow> tcp_server \<Rightarrow> speed_tester \<times> tcp_server" where
  "speed_tester_u now uid s =
     (case find_tester now uid (default_limit s) (speed_testers_u s) of (st, ts) \<Rightarrow> (st, s\<lparr>speed_testers_u := ts\<rparr>))"

definition speed_tester_d :: "time \<Rightarrow> tester_key \<Rightarrow> tcp_server \<Rightarrow> speed_tester \<times> tcp_server" where
  "speed_tester_d now uid s =
     (case find_tester now uid (default_limit s) (speed_testers_d s) of (st, ts) \<Rightarrow> (st, s\<lparr>speed_testers_d := ts\<rparr>))"

definition update_limit :: "tester_key \<Rightarrow> int \<Rightarrow> tcp_server \<Rightarrow> tcp_server" where
  "update_limit uid speed s =
     s\<lparr>speed_testers_u := AList.map_entry uid (speed_update_limit speed) (speed_testers_u s),
       speed_testers_d := AList.map_entry uid (speed_update_limit speed) (speed_testers_d s)\<rparr>"

subsection \<open>Statistics\<close>

definition update_stat :: "int \<Rightarrow> (stat_key \<times> int) list \<Rightarrow> (stat_key \<times> int) list" where
  "update_stat val d =
     (let newval = get_or_0 Count d + val; d' = AList.update Count newval d; level = get_or_0 Level d' in
      if newval \<ge> level + 25 then AList.update Level (level + 25) d'
      else if newval \<le> level - 25 then AList.update Level (level - 25) d'
      else d')"

definition stat_add :: "int \<Rightarrow> bytes \<Rightarrow> int \<Rightarrow> stat_counter \<Rightarrow> stat_counter" where
  "stat_add port local_addr val c =
     (let d = (case map_of (stat_ports c) port of None \<Rightarrow> [] | Some d \<Rightarrow> d);
          newval = get_or_0 (Addr local_addr) d + val;
          d1 = update_stat val (AList.update (Addr local_addr) newval d);
          d2 = (if newval \<le> 0 then AList.delete (Addr local_addr) d1 else d1);
          total = (case stat_total c of None \<Rightarrow> 0 | Some n \<Rightarrow> n) + val;
          level = (case stat_level c of None \<Rightarrow> 0 | Some n \<Rightarrow> n)
      in c\<lparr>stat_ports := AList.update port d2 (stat_ports c), stat_total := Some total,
           stat_level := (if total \<ge> level + 50 then Some (level + 50)
                          else if total \<le> level - 50 then Some (level - 50)
                          else stat_level c)\<rparr>)"

subsection \<open>Idle connections\<close>

text \<open>A handler is known by its number, which \<^verbatim>\<open>__hash__\<close> gives. \<^verbatim>\<open>update_activity\<close> gives the
  calls of \<^verbatim>\<open>stat_callback\<close>; a sweep gives the handlers whose \<^verbatim>\<open>destroy\<close> it calls.\<close>

definition remove_handler :: "nat \<Rightarrow> tcp_server \<Rightarrow> tcp_server" where
  "remove_handler client s =
     (if lru_contains client (timeout_cache s) then s\<lparr>timeout_cache := snd (lru_delitem client (timeout_cache s))\<rparr> else s)"

definition update_activity :: "time \<Rightarrow> nat \<Rightarrow> nat \<Rightarrow> tcp_server \<Rightarrow> (int \<times> nat) list \<times> tcp_server" where
  "update_activity now client data_len s =
     (if data_len \<noteq> 0 then [(listen_port s, data_len)] else [],
      s\<lparr>timeout_cache := lru_setitem now client client (timeout_cache s)\<rparr>)"

definition sweep_timeout :: "time \<Rightarrow> tcp_server \<Rightarrow> (bool \<times> nat list) res \<times> tcp_server" where
  "sweep_timeout now s =
     (case lru_sweep now SWEEP_MAX_ITEMS (timeout_cache s) of (res, c) \<Rightarrow> (res, s\<lparr>timeout_cache := c\<rparr>))"

subsection \<open>A limit is kept\<close>

text \<open>The bytes that pass a tester when, as in \<^verbatim>\<open>handle_event\<close>, data is read only while the limit
  is not exceeded: what is read at each of the times.\<close>

fun passed :: "speed_tester \<Rightarrow> (time \<times> nat) list \<Rightarrow> nat" where
  "passed s [] = 0"
| "passed s ((now, len) # evs) =
     (case speed_exceeded now s of
        (True, s') \<Rightarrow> passed s' evs
      | (False, s') \<Rightarrow> len + passed (speed_add now len s') evs)"

lemma speed_drain_simps [simp]:
  "max_speed (speed_drain now s) = max_speed s" "last_check (speed_drain now s) = now"
  "0 \<le> sum_len (speed_drain now s)"
  "sum_len s - (now - last_check s) * of_int (max_speed s) \<le> sum_len (speed_drain now s)"
  by (simp_all add: speed_drain_def Let_def)

lemma speed_drain_same [simp]: "last_check s = now \<Longrightarrow> 0 \<le> sum_len s \<Longrightarrow> speed_drain now s = s"
  by (simp add: speed_drain_def Let_def)

lemma passed_bound:
  assumes "0 < max_speed s" and "sum_len s \<le> of_int (max_speed s) + of_nat B"
    and "sorted (last_check s # map fst evs @ [T])" and "list_all (\<lambda>(_, len). len \<le> B) evs"
  shows "of_nat (passed s evs) + sum_len s \<le> of_int (max_speed s) * (T - last_check s) + of_int (max_speed s) + of_nat B"
  using assms
proof (induction evs arbitrary: s)
  case Nil
  then have "0 \<le> of_int (max_speed s) * (T - last_check s)" by simp
  then show ?case using Nil.prems(2) by simp
next
  case (Cons ev evs)
  obtain now len where ev: "ev = (now, len)" by (cases ev)
  define s1 where "s1 = speed_drain now s"
  define s2 where "s2 = s1\<lparr>sum_len := sum_len s1 + of_nat len\<rparr>"
  have m: "max_speed s1 = max_speed s" "max_speed s2 = max_speed s" "last_check s1 = now" "last_check s2 = now"
    by (simp_all add: s1_def s2_def)
  have d: "sum_len s \<le> sum_len s1 + of_int (max_speed s) * (now - last_check s)"
    using speed_drain_simps(4) [of s now] by (simp add: s1_def mult.commute)
  have t: "of_int (max_speed s) * (T - last_check s) =
      of_int (max_speed s) * (T - now) + of_int (max_speed s) * (now - last_check s)" for T :: rat
    by (simp add: algebra_simps)
  have tl: "sorted (now # map fst evs @ [T])" "list_all (\<lambda>(_, len). len \<le> B) evs" "len \<le> B" "last_check s \<le> now"
    using Cons.prems(3,4) by (simp_all add: ev)
  show ?case
  proof (cases "of_int (max_speed s) \<le> sum_len s1")
    case True
    have "0 \<le> of_int (max_speed s) * (now - last_check s)" using Cons.prems(1) tl(4) by simp
    then have "sum_len s1 \<le> max 0 (sum_len s)"
      using Cons.prems(1) by (simp add: s1_def speed_drain_def Let_def mult.commute)
    then have "sum_len s1 \<le> of_int (max_speed s) + of_nat B" using Cons.prems(1,2) by (auto simp: max_def split: if_splits)
    then have "of_nat (passed s1 evs) + sum_len s1 \<le> of_int (max_speed s) * (T - now) + of_int (max_speed s) + of_nat B"
      using Cons.IH [of s1] Cons.prems(1) tl m by simp
    then show ?thesis using True d t [of T] Cons.prems(1) by (simp add: ev speed_exceeded_def Let_def s1_def [symmetric] m)
  next
    case False
    have "sum_len s2 \<le> of_int (max_speed s) + of_nat B" using False tl(3) by (simp add: s2_def)
    then have "of_nat (passed s2 evs) + sum_len s2 \<le> of_int (max_speed s) * (T - now) + of_int (max_speed s) + of_nat B"
      using Cons.IH [of s2] Cons.prems(1) tl m by simp
    moreover have "0 \<le> sum_len s1" by (simp add: s1_def)
    moreover have "speed_add now len s1 = s2"
      using Cons.prems(1) m \<open>0 \<le> sum_len s1\<close> by (simp add: speed_add_def Let_def s2_def)
    ultimately show ?thesis using False d t [of T] Cons.prems(1)
      by (simp add: ev speed_exceeded_def Let_def s1_def [symmetric] m) (simp add: s2_def)
  qed
qed

text \<open>C17. A speed limit is kept. Of any sequence of reads at increasing times, of which each has at
  most \<open>B\<close> bytes, a tester for \<open>speed\<close> kilobytes a second lets pass no more than the limit times the
  time since it was made, plus the limit for one second and one read.\<close>

theorem speed_limit_kept:
  assumes "0 < speed" and "sorted (t0 # map fst evs @ [T])" and "list_all (\<lambda>(_, len). len \<le> B) evs"
  shows "of_nat (passed (speed_new t0 speed) evs) \<le> of_int (1024 * speed) * (T - t0 + 1) + of_nat B"
  using passed_bound [of "speed_new t0 speed" B evs T] assms by (simp add: speed_new_def algebra_simps)

theorem speed_limit_kept_witness:
  "passed (speed_new 0 1) [(0, 1000), (0, 1000), (0, 1000), (1, 1000)] = 3000
     \<and> of_nat (passed (speed_new 0 1) [(0, 1000), (0, 1000), (0, 1000), (1, 1000)]) \<le> (of_int (1024 * 1) * (1 - 0 + 1) + of_nat 1000 :: rat)"
  using speed_limit_kept [of 1 0 "[(0, 1000), (0, 1000), (0, 1000), (1, 1000)]" 1 1000]
  by (simp add: speed_new_def speed_exceeded_def speed_drain_def speed_add_def Let_def)


subsection \<open>Traffic is conserved\<close>

definition total_of :: "('k \<times> int) list \<Rightarrow> int" where
  "total_of xs = sum_list (map snd xs)"

lemma distinct_update: "distinct (map fst xs) \<Longrightarrow> distinct (map fst (AList.update k v xs))"
  by (rule distinct_update)

lemma total_update: "distinct (map fst xs) \<Longrightarrow> total_of (AList.update k v xs) = total_of xs - get_or_0 k xs + v"
proof (induction xs)
  case (Cons x xs)
  obtain k' v' where x: "x = (k', v')" by (cases x)
  have "k \<notin> set (map fst xs) \<Longrightarrow> get_or_0 k xs = 0"
    using map_of_eq_None_iff [of xs k] by (simp add: get_or_0_def)
  then show ?case using Cons x by (auto simp: total_of_def get_or_0_def)
qed (simp add: total_of_def get_or_0_def)

text \<open>A transfer: whether it is upward, whose it is when that is known, and how many bytes.\<close>

type_synonym transfer = "bool \<times> bytes option \<times> int"

definition transfer1 :: "transfer \<Rightarrow> tcp_server \<Rightarrow> tcp_server" where
  "transfer1 = (\<lambda>(up, user, n). if up then add_transfer_u user n else add_transfer_d user n)"

definition counted :: "tcp_server \<Rightarrow> int \<times> int" where
  "counted s = (server_transfer_ul s + total_of (server_user_transfer_ul s), server_transfer_dl s + total_of (server_user_transfer_dl s))"

lemma transfer1_counted:
  assumes "distinct (map fst (server_user_transfer_ul s))" and "distinct (map fst (server_user_transfer_dl s))"
  shows "counted (transfer1 (up, user, n) s) = (fst (counted s) + (if up then n else 0), snd (counted s) + (if up then 0 else n))
    \<and> distinct (map fst (server_user_transfer_ul (transfer1 (up, user, n) s)))
    \<and> distinct (map fst (server_user_transfer_dl (transfer1 (up, user, n) s)))"
  using assms
  by (cases user) (simp_all add: transfer1_def add_transfer_u_def add_transfer_d_def counted_def total_update distinct_update)

lemma transfers_counted:
  assumes "distinct (map fst (server_user_transfer_ul s))" and "distinct (map fst (server_user_transfer_dl s))"
  shows "counted (fold transfer1 ts s) =
    (fst (counted s) + sum_list (map (\<lambda>(up, _, n). if up then n else 0) ts),
     snd (counted s) + sum_list (map (\<lambda>(up, _, n). if up then 0 else n) ts))"
  using assms
proof (induction ts arbitrary: s)
  case (Cons t ts)
  obtain up user n where t: "t = (up, user, n)" by (cases t)
  note c = transfer1_counted [OF Cons.prems, of up user n]
  have "counted (fold transfer1 ts (transfer1 t s)) =
    (fst (counted (transfer1 t s)) + sum_list (map (\<lambda>(up, _, n). if up then n else 0) ts),
     snd (counted (transfer1 t s)) + sum_list (map (\<lambda>(up, _, n). if up then 0 else n) ts))"
    using c unfolding t by (intro Cons.IH) blast+
  then show ?case using c by (simp add: t)
qed simp

text \<open>C18. No traffic is lost or counted twice. From a server that has counted nothing, through any
  transfers up and down, of known users and of connections whose user is not known yet, what is
  attributed to the users and what waits for one are together all that was transferred, in each
  direction on its own.\<close>

theorem transfers_conserved:
  assumes "counted s = (0, 0)" and "distinct (map fst (server_user_transfer_ul s))" and "distinct (map fst (server_user_transfer_dl s))"
  shows "counted (fold transfer1 ts s) =
    (sum_list (map (\<lambda>(up, _, n). if up then n else 0) ts), sum_list (map (\<lambda>(up, _, n). if up then 0 else n) ts))"
  using transfers_counted [OF assms(2,3), of ts] assms(1) by simp

subsection \<open>The table of users\<close>

lemma le32_unpack: "0 \<le> n \<Longrightarrow> n < 4294967296 \<Longrightarrow> int (le_val (le32 (nat n))) = n"
  by (simp add: le_val_le32)

lemma add_users_tables:
  assumes "add_users now users s = (Inr (), s')"
  shows "map_of (server_users s') = map_of (server_users s) ++ map_of (rev (map (\<lambda>(n, cfg). (le32 (nat n), password cfg)) users))
    \<and> map_of (server_users_cfg s') = map_of (server_users_cfg s) ++ map_of (rev (map (\<lambda>(n, cfg). (le32 (nat n), cfg)) users))"
  using assms
proof (induction now users s rule: add_users.induct)
  case (2 now n cfg users s)
  then have p: "pack_id n = Inr (le32 (nat n))" and r: "add_users now users (add_user now (le32 (nat n)) cfg s) = (Inr (), s')"
    by (auto simp: pack_id_def split: if_splits)
  from "2.IH" [OF p r] show ?case by (auto simp: add_user_def Let_def update_conv' map_add_def fun_eq_iff split: option.split)
qed simp

lemma del_users_tables:
  "map_of (server_users (fold del_user gone s)) = map_of (server_users s) |` (- set gone)
    \<and> map_of (server_users_cfg (fold del_user gone s)) = map_of (server_users_cfg s) |` (- set gone)"
proof (induction gone arbitrary: s)
  case (Cons uid gone)
  then show ?case by (auto simp: del_user_def delete_conv' restrict_map_def fun_eq_iff)
qed (simp add: restrict_map_def fun_eq_iff)


lemma add_users_range: "add_users now users s = (Inr (), s') \<Longrightarrow> list_all (\<lambda>(n, _). 0 \<le> n \<and> n < 4294967296) users"
  by (induction now users s rule: add_users.induct) (auto simp: pack_id_def split: if_splits)

lemma map_of_rev_distinct: "distinct (map fst xs) \<Longrightarrow> map_of (rev xs) = map_of xs"
proof (induction xs)
  case (Cons x xs)
  then have "map_of xs (fst x) = None" using map_of_eq_None_iff [of xs "fst x"] by simp
  then show ?case using Cons by (auto simp: map_add_def fun_eq_iff split: option.split)
qed simp

lemma le32_keys_distinct:
  assumes "distinct (map fst users)" and "list_all (\<lambda>(n, _). 0 \<le> n \<and> n < 4294967296) users"
  shows "distinct (map fst (map (\<lambda>(n, cfg). (le32 (nat n), f cfg)) users))"
  using assms
proof (induction users)
  case (Cons u users)
  obtain n cfg where u: "u = (n, cfg)" by (cases u)
  have "le32 (nat m) \<noteq> le32 (nat n)" if "(m, c) \<in> set users" for m c
  proof -
    have "m \<noteq> n" using that Cons.prems(1) u by force
    moreover have "0 \<le> m \<and> m < 4294967296" "0 \<le> n \<and> n < 4294967296"
      using that Cons.prems(2) u by (auto simp: list_all_iff)
    ultimately show ?thesis using le32_unpack [of m] le32_unpack [of n] by metis
  qed
  then have "le32 (nat n) \<notin> set (map fst (map (\<lambda>(n, cfg). (le32 (nat n), f cfg)) users))" by fastforce
  then show ?case using Cons by (simp add: u)
qed simp

text \<open>C19. After \<^verbatim>\<open>update_users\<close> has returned, the port knows exactly the users it was given, each
  under the four bytes of its id and with its new password: who is not named any more is gone.\<close>

theorem update_users_exact:
  assumes "update_users now users s = (Inr (), s')" and "distinct (map fst users)"
    and "list_all (\<lambda>uid. length uid = 4) (map fst (server_users s))"
  shows "map_of (server_users s') = map_of (map (\<lambda>(n, cfg). (le32 (nat n), password cfg)) users)"
proof -
  define gone where "gone = filter (\<lambda>uid. int (le_val uid) \<notin> fst ` set users) (map fst (server_users s))"
  define new where "new = map (\<lambda>(n, cfg). (le32 (nat n), password cfg)) users"
  have a: "add_users now users (fold del_user gone s) = (Inr (), s')"
    using assms(1) by (simp add: update_users_def gone_def Let_def)
  note r = add_users_range [OF a]
  have "distinct (map fst new)" unfolding new_def using assms(2) r by (rule le32_keys_distinct)
  then have s': "map_of (server_users s') = (map_of (server_users s) |` (- set gone)) ++ map_of new"
    using add_users_tables [OF a] del_users_tables [of gone s] map_of_rev_distinct [of new] by (simp add: new_def)
  have "uid \<in> dom (map_of new)" if k: "(map_of (server_users s) |` (- set gone)) uid = Some pw" for uid pw
  proof -
    have "map_of (server_users s) uid = Some pw" and "uid \<notin> set gone"
      using k by (auto simp: restrict_map_def split: if_splits)
    then have u: "uid \<in> set (map fst (server_users s))" by (force dest: map_of_SomeD)
    with \<open>uid \<notin> set gone\<close> obtain cfg where c: "(int (le_val uid), cfg) \<in> set users" by (auto simp: gone_def)
    have "length uid = 4" using assms(3) u by (auto simp: list_all_iff)
    then have "(uid, password cfg) \<in> set new"
      using c le_val_4_bytes [of uid] by (force simp: new_def)
    then have "uid \<in> fst ` set new" by force
    then show ?thesis by (simp add: dom_map_of_conv_image_fst)
  qed
  then have "map_of (server_users s) |` (- set gone) ++ map_of new = map_of new"
    by (intro ext) (fastforce simp: map_add_def split: option.split)
  then show ?thesis using s' by (simp add: new_def)
qed

theorem update_users_exact_witness:
  "\<exists>s s'. map fst (server_users s) = [le32 5, le32 7] \<and> update_users 0 [(7, \<lparr>password = ''p'', speed_limit_per_con = None, speed_limit_per_user = None\<rparr>)] s = (Inr (), s')
     \<and> map_of (server_users s') = [le32 7 \<mapsto> ''p'']"
proof -
  define s where "s = \<lparr>listen_port = 80, server_transfer_ul = 0, server_transfer_dl = 0, server_users = [(le32 5, ''a''), (le32 7, ''b'')],
    server_users_cfg = [], server_user_transfer_ul = [], server_user_transfer_dl = [], mu = True, speed_testers_u = [],
    speed_testers_d = [], server_connections = 0, default_limit = None, timeout_cache = lru_new 60\<rparr>"
  define us where "us = [(7::int, \<lparr>password = ''p'', speed_limit_per_con = None, speed_limit_per_user = None\<rparr>)]"
  have "fst (update_users 0 us s) = Inr ()" by (simp add: update_users_def us_def pack_id_def Let_def)
  then obtain s' where u: "update_users 0 us s = (Inr (), s')" by (cases "update_users 0 us s") auto
  have k: "map fst (server_users s) = [le32 5, le32 7]" by (simp add: s_def)
  have "map_of (server_users s') = map_of (map (\<lambda>(n, cfg). (le32 (nat n), password cfg)) us)"
    using update_users_exact [OF u] k by (simp add: us_def)
  then have m: "map_of (server_users s') = [le32 7 \<mapsto> ''p'']" by (simp add: us_def)
  show ?thesis by (intro exI conjI) (rule k, rule u [unfolded us_def], rule m)
qed

theorem transfers_conserved_witness:
  "\<exists>s. counted (fold transfer1 [(True, None, 100), (True, Some ''user'', 20), (False, None, 7)] s) = (120, 7)"
proof -
  define s where "s = \<lparr>listen_port = 80, server_transfer_ul = 0, server_transfer_dl = 0, server_users = [],
    server_users_cfg = [], server_user_transfer_ul = [], server_user_transfer_dl = [], mu = True, speed_testers_u = [],
    speed_testers_d = [], server_connections = 0, default_limit = None, timeout_cache = lru_new 60\<rparr>"
  have "counted s = (0, 0)" by (simp add: s_def counted_def total_of_def)
  then show ?thesis
    using transfers_conserved [of s "[(True, None, 100), (True, Some ''user'', 20), (False, None, 7)]"]
    by (intro exI [of _ s]) (simp add: s_def)
qed

subsection \<open>A user's own limit\<close>

text \<open>The tester that a connection of user \<open>n\<close> asks for is not the one that \<^verbatim>\<open>add_user\<close> sets, so
  the limit of the user is not used.\<close>

theorem user_limit_ignored:
  "fst (speed_tester_u now (Num n) (add_user now' uid cfg s)) = fst (speed_tester_u now (Num n) s)"
  by (simp add: speed_tester_u_def find_tester_def add_user_def set_limit_def Let_def update_conv' split: option.split prod.split)

end
