(* ===== verification/Tcp_Handler.thy ===== *)
theory Tcp_Handler
  imports Event_Loop Tcp_Server Resolver Headers Checksums
begin

text \<open>
  \<^verbatim>\<open>TCPRelayHandler\<close> of \<^verbatim>\<open>tcprelay.py\<close>: one connection, from the client's first bytes to the end
  of both streams. The state holds, beside the handler's attributes, what its methods change in the
  port (\<open>server\<close>), the statistics and the resolver. What the operating system answers to
  the calls on sockets is a list that each call takes the next answer from; what the handler does to
  the world is appended to \<open>trace\<close>. A socket stands for its descriptor. The obfuscation, the
  protocol and the cipher of a connection, objects that are chosen by configuration, are the
  operations of a record on a state of their own.
\<close>

subsection \<open>Constants\<close>

datatype stage =
    STAGE_INIT
  | STAGE_ADDR
  | STAGE_UDP_ASSOC
  | STAGE_DNS
  | STAGE_CONNECTING
  | STAGE_STREAM
  | STAGE_DESTROYED

definition WAIT_STATUS_INIT :: nat where "WAIT_STATUS_INIT = 0"
definition WAIT_STATUS_READING :: nat where "WAIT_STATUS_READING = 1"
definition WAIT_STATUS_WRITING :: nat where "WAIT_STATUS_WRITING = 2"
definition WAIT_STATUS_READWRITING :: nat where "WAIT_STATUS_READWRITING = WAIT_STATUS_READING OR WAIT_STATUS_WRITING"
definition BUF_SIZE :: int where "BUF_SIZE = 32 * 1024"

lemmas wait_constants = WAIT_STATUS_INIT_def WAIT_STATUS_READING_def WAIT_STATUS_WRITING_def WAIT_STATUS_READWRITING_def

subsection \<open>The world\<close>

datatype sock = Local | Remote | RemoteV6

datatype os_result =
    Sent nat
  | Received bytes
  | ReceivedFrom bytes bytes nat
  | Connected
  | Again
  | NotConnected
  | SockError

datatype effect =
    SendOn sock bytes
  | SendTo sock bytes endpoint
  | Modify sock nat
  | AddFd sock nat
  | RemoveFd sock
  | Close sock
  | Bind sock bytes
  | ConnectTo bytes nat
  | Stat int nat
  | DnsEvent "nat dns_event"
  | AskUdp endpoint bytes

subsection \<open>Plugins and configuration\<close>

record 'c codec =
  obfs_server_decode :: "bytes \<Rightarrow> 'c \<Rightarrow> (bytes \<times> bool \<times> bool) res \<times> 'c"
  obfs_server_encode :: "bytes \<Rightarrow> 'c \<Rightarrow> bytes res \<times> 'c"
  obfs_client_decode :: "bytes \<Rightarrow> 'c \<Rightarrow> (bytes \<times> bool) res \<times> 'c"
  obfs_client_encode :: "bytes \<Rightarrow> 'c \<Rightarrow> bytes res \<times> 'c"
  server_post_decrypt :: "bytes \<Rightarrow> 'c \<Rightarrow> (bytes \<times> bool) res \<times> 'c"
  announced_user :: "'c \<Rightarrow> bytes option \<times> 'c"
  server_pre_encrypt :: "bytes \<Rightarrow> 'c \<Rightarrow> bytes res \<times> 'c"
  client_post_decrypt :: "bytes \<Rightarrow> 'c \<Rightarrow> bytes res \<times> 'c"
  client_pre_encrypt :: "bytes \<Rightarrow> 'c \<Rightarrow> bytes res \<times> 'c"
  encryptor_encrypt :: "bytes \<Rightarrow> 'c \<Rightarrow> bytes res \<times> 'c"
  encryptor_decrypt :: "bytes \<Rightarrow> 'c \<Rightarrow> bytes res \<times> 'c"
  note_recv_iv :: "bytes \<Rightarrow> 'c \<Rightarrow> 'c"
  set_overhead :: "int \<Rightarrow> 'c \<Rightarrow> 'c"
  set_buffer_size :: "int \<Rightarrow> 'c \<Rightarrow> 'c"
  set_head_len :: "nat \<Rightarrow> 'c \<Rightarrow> 'c"
  overheads :: "'c \<Rightarrow> int"
  codec_tcp_mss :: "'c \<Rightarrow> int"

text \<open>\<open>announced_user\<close> is the user id, four bytes, that the protocol has handed to
  \<^verbatim>\<open>update_user_func\<close> since it was last asked, if it has. \<open>getaddrinfo\<close> gives the first address for a name
  and a port, \<^const>\<open>None\<close> where the list is empty.\<close>

record 'c relay_env =
  ops :: "'c codec"
  is_local :: bool
  fast_open :: bool
  env_ipv6 :: bool
  redir_list :: "bytes list"
  forbidden_ips :: "bytes list"
  forbidden_ports :: "int \<Rightarrow> bool"
  out_bind :: bytes
  out_bindv6 :: bytes
  ignore_bind :: "bytes list"
  chosen_server :: endpoint
  con_limit :: "int option"
  getaddrinfo :: "bytes \<Rightarrow> nat \<Rightarrow> (family \<times> bytes \<times> nat) option res"
  match_regex :: "bytes \<Rightarrow> bytes \<Rightarrow> bool res"

record 'c conn =
  codec :: "'c option"
  me :: nat
  client_address :: endpoint
  accept_address :: endpoint
  accept_family :: family
  stage :: stage
  local_sock :: bool
  remote_sock :: bool
  remote_sock_v6 :: bool
  fds :: "sock list"
  add_ref :: nat
  user :: "bytes option"
  user_id :: int
  encrypt_correct :: bool
  is_redirect :: bool
  remote_udp :: bool
  fastopen_connected :: bool
  data_to_write_to_local :: "bytes list"
  data_to_write_to_remote :: "bytes list"
  udp_data_send_buffer :: bytes
  upstream_status :: nat
  downstream_status :: nat
  remote_address :: "endpoint option"
  conn_tester_u :: speed_tester
  conn_tester_d :: speed_tester
  tcp_mss :: int
  overhead :: int
  recv_buffer_size :: int
  recv_u_max_size :: int
  recv_d_max_size :: int
  recv_pack_id :: nat
  server :: tcp_server
  stats :: "stat_counter option"
  dns :: "nat dns_resolver"
  rnd :: tape
  os :: "os_result list"
  trace :: "effect list"

type_synonym ('c, 'a) act = "'c conn \<Rightarrow> 'a res \<times> 'c conn"

definition abind :: "('c, 'a) act \<Rightarrow> ('a \<Rightarrow> ('c, 'b) act) \<Rightarrow> ('c, 'b) act" where
  "abind m f = (\<lambda>s. case m s of (Inl e, s') \<Rightarrow> (Inl e, s') | (Inr v, s') \<Rightarrow> f v s')"

definition acatch :: "('c, 'a) act \<Rightarrow> (exc \<Rightarrow> ('c, 'a) act) \<Rightarrow> ('c, 'a) act" where
  "acatch m h = (\<lambda>s. case m s of (Inl e, s') \<Rightarrow> h e s' | (Inr v, s') \<Rightarrow> (Inr v, s'))"

definition next_os :: "'c conn \<Rightarrow> os_result \<times> 'c conn" where
  "next_os s = (case os s of [] \<Rightarrow> (SockError, s) | x # xs \<Rightarrow> (x, s\<lparr>os := xs\<rparr>))"

definition emit :: "effect \<Rightarrow> 'c conn \<Rightarrow> 'c conn" where
  "emit e s = s\<lparr>trace := trace s @ [e]\<rparr>"

definition is_open :: "sock \<Rightarrow> 'c conn \<Rightarrow> bool" where
  "is_open sk s = (case sk of Local \<Rightarrow> local_sock s | Remote \<Rightarrow> remote_sock s | RemoteV6 \<Rightarrow> remote_sock_v6 s)"

text \<open>A call of a plugin. After \<^verbatim>\<open>destroy\<close> the attributes are \<^verbatim>\<open>None\<close> and a call on them raises.\<close>

definition with_codec :: "('c \<Rightarrow> 'a res \<times> 'c) \<Rightarrow> ('c, 'a) act" where
  "with_codec f s =
     (case codec s of
        None \<Rightarrow> (Inl AttributeError, s)
      | Some c \<Rightarrow> (case f c of (r, c') \<Rightarrow> (r, s\<lparr>codec := Some c'\<rparr>)))"

subsection \<open>A new connection\<close>

text \<open>\<^verbatim>\<open>__init__\<close>; where the encryptor cannot be made, the handler is destroyed from the start and
  has no part in the port. \<open>max_seg\<close> is what the socket says of its segment size.\<close>

definition conn_new :: "'c relay_env \<Rightarrow> time \<Rightarrow> 'c res \<Rightarrow> nat \<Rightarrow> endpoint \<Rightarrow> endpoint \<Rightarrow> family \<Rightarrow> int option \<Rightarrow> tcp_server
    \<Rightarrow> stat_counter option \<Rightarrow> nat dns_resolver \<Rightarrow> tape \<Rightarrow> os_result list \<Rightarrow> 'c conn" where
  "conn_new E now new_codec n client accepted af max_seg sv st d t results =
     (let over = (case new_codec of Inl _ \<Rightarrow> 0 | Inr c \<Rightarrow> overheads (ops E) c);
          ok = (case new_codec of Inl _ \<Rightarrow> False | Inr _ \<Rightarrow> True);
          limit = limit_or_0 (con_limit E);
          (calls, sv1) = update_activity now n 0 sv
      in \<lparr>codec = (case new_codec of Inl _ \<Rightarrow> None | Inr c \<Rightarrow> Some c), me = n, client_address = client,
          accept_address = accepted, accept_family = af, stage = (if ok then STAGE_INIT else STAGE_DESTROYED),
          local_sock = ok, remote_sock = False, remote_sock_v6 = False, fds = (if ok then [Local] else []),
          add_ref = (if ok then 1 else 0), user = None, user_id = listen_port sv, encrypt_correct = True, is_redirect = False,
          remote_udp = False, fastopen_connected = False, data_to_write_to_local = [], data_to_write_to_remote = [],
          udp_data_send_buffer = [], upstream_status = WAIT_STATUS_READING, downstream_status = WAIT_STATUS_INIT,
          remote_address = None, conn_tester_u = speed_new now limit, conn_tester_d = speed_new now limit,
          tcp_mss = (case max_seg of Some m \<Rightarrow> if m > 500 \<and> m \<le> 1500 then m else 1460 | None \<Rightarrow> 1460),
          overhead = over, recv_buffer_size = BUF_SIZE - over, recv_u_max_size = BUF_SIZE, recv_d_max_size = BUF_SIZE,
          recv_pack_id = 0,
          server = (if ok then add_connection 1 sv1 else sv),
          stats = (if ok then map_option (stat_add (listen_port sv) (fst client) 1) st else st),
          dns = d, rnd = t, os = results,
          trace = (if ok then [AddFd Local (POLL_IN OR POLL_ERR)] else [])\<rparr>)"

subsection \<open>destroy\<close>

definition release :: "sock \<Rightarrow> 'c conn \<Rightarrow> 'c conn" where
  "release sk s =
     (if is_open sk s
      then (let s1 = emit (Close sk) (emit (RemoveFd sk) s) in
            let s2 = s1\<lparr>fds := removeAll sk (fds s1)\<rparr> in
            (case sk of Local \<Rightarrow> s2\<lparr>local_sock := False\<rparr> | Remote \<Rightarrow> s2\<lparr>remote_sock := False\<rparr>
             | RemoteV6 \<Rightarrow> s2\<lparr>remote_sock_v6 := False\<rparr>))
      else s)"

definition leave_server :: "'c conn \<Rightarrow> 'c conn" where
  "leave_server s =
     (let s1 = s\<lparr>server := remove_handler (me s) (server s)\<rparr>
      in if add_ref s1 > 0
         then s1\<lparr>server := add_connection (- 1) (server s1),
                 stats := map_option (stat_add (listen_port (server s1)) (fst (client_address s1)) (- 1)) (stats s1)\<rparr>
         else s1)"

definition destroy :: "('c, unit) act" where
  "destroy s =
     (if stage s = STAGE_DESTROYED then (Inr (), s)
      else
        (let s1 = release Local (release RemoteV6 (release Remote (s\<lparr>stage := STAGE_DESTROYED\<rparr>))) in
         let s2 = s1\<lparr>codec := None\<rparr> in
         (case remove_callback (me s2) (dns s2) of
            (Inl e, d) \<Rightarrow> (Inl e, s2\<lparr>dns := d\<rparr>)
          | (Inr _, d) \<Rightarrow> (Inr (), leave_server (s2\<lparr>dns := d\<rparr>)))))"

subsection \<open>Streams\<close>

definition local_events :: "'c conn \<Rightarrow> nat" where
  "local_events s = POLL_ERR OR (if downstream_status s AND WAIT_STATUS_WRITING \<noteq> 0 then POLL_OUT else 0)
     OR (if upstream_status s AND WAIT_STATUS_READING \<noteq> 0 then POLL_IN else 0)"

definition remote_events :: "'c conn \<Rightarrow> nat" where
  "remote_events s = POLL_ERR OR (if downstream_status s AND WAIT_STATUS_READING \<noteq> 0 then POLL_IN else 0)
     OR (if upstream_status s AND WAIT_STATUS_WRITING \<noteq> 0 then POLL_OUT else 0)"

datatype stream = STREAM_UP | STREAM_DOWN

definition update_stream :: "stream \<Rightarrow> nat \<Rightarrow> 'c conn \<Rightarrow> 'c conn" where
  "update_stream stream status s =
     (let dirty = (case stream of STREAM_DOWN \<Rightarrow> downstream_status s \<noteq> status | STREAM_UP \<Rightarrow> upstream_status s \<noteq> status);
          s1 = (case stream of STREAM_DOWN \<Rightarrow> s\<lparr>downstream_status := status\<rparr> | STREAM_UP \<Rightarrow> s\<lparr>upstream_status := status\<rparr>)
      in if dirty then
           (let s2 = (if local_sock s1 then emit (Modify Local (local_events s1)) s1 else s1);
                s3 = (if remote_sock s2 then emit (Modify Remote (remote_events s2)) s2 else s2)
            in if remote_sock s2 \<and> remote_sock_v6 s2 then emit (Modify RemoteV6 (remote_events s2)) s3 else s3)
         else s)"

text \<open>\<^verbatim>\<open>_handle_server_dns_resolved\<close> without an error; what it raises it catches.\<close>

definition udp_dns_resolved :: "'c relay_env \<Rightarrow> nat \<Rightarrow> bytes \<Rightarrow> bytes \<Rightarrow> 'c conn \<Rightarrow> 'c conn" where
  "udp_dns_resolved E port server_addr data s =
     (case getaddrinfo E server_addr port of
        Inr (Some (AF_INET6, _)) \<Rightarrow> if remote_sock_v6 s then emit (SendTo RemoteV6 data (server_addr, port)) s else s
      | Inr (Some (AF_INET, _)) \<Rightarrow> if remote_sock s then emit (SendTo Remote data (server_addr, port)) s else s
      | _ \<Rightarrow> s)"

text \<open>UDP over TCP: the datagrams in what has come in. The method returns at the first one whose
  address is no name; what follows it stays in the buffer.\<close>

function udp_datagrams :: "'c relay_env \<Rightarrow> bytes \<Rightarrow> ('c, unit) act" where
  "udp_datagrams E buf s =
     (let len = be_val (take 2 buf); data = take len buf; rest = drop len buf in
      if length buf \<le> 6 \<or> len > length buf then (Inr (), s\<lparr>udp_data_send_buffer := buf\<rparr>)
      else if len < 3 then (Inl IndexError, s\<lparr>udp_data_send_buffer := rest\<rparr>)
      else if ordb (data ! 2) \<noteq> 0 then udp_datagrams E rest s
      else
        (case parse_header (drop 3 data) of
           Inl e \<Rightarrow> (Inl e, s\<lparr>udp_data_send_buffer := rest\<rparr>)
         | Inr None \<Rightarrow> udp_datagrams E rest s
         | Inr (Some h) \<Rightarrow>
             (let payload = drop (header_length h) (drop 3 data) in
              if addrtype h AND 7 = 3 then
                (case is_ip (dest_addr h) of
                   Inl e \<Rightarrow> (Inl e, s\<lparr>udp_data_send_buffer := rest\<rparr>)
                 | Inr None \<Rightarrow> udp_datagrams E rest (emit (AskUdp (dest_addr h, dest_port h) payload) s)
                 | Inr (Some _) \<Rightarrow>
                     (Inr (), udp_dns_resolved E (dest_port h) (dest_addr h) payload (s\<lparr>udp_data_send_buffer := rest\<rparr>)))
              else (Inr (), udp_dns_resolved E (dest_port h) (dest_addr h) payload (s\<lparr>udp_data_send_buffer := rest\<rparr>)))))"
  by pat_completeness auto
termination
  by (relation "measure (\<lambda>(E, buf, s). length buf)") auto

declare udp_datagrams.simps [simp del]

definition activity :: "time \<Rightarrow> nat \<Rightarrow> 'c conn \<Rightarrow> 'c conn" where
  "activity now data_len s =
     (case update_activity now (me s) data_len (server s) of
        (calls, sv) \<Rightarrow> s\<lparr>server := sv, trace := trace s @ map (\<lambda>(port, n). Stat port n) calls\<rparr>)"

definition data_left :: "sock \<Rightarrow> bytes \<Rightarrow> 'c conn \<Rightarrow> 'c conn" where
  "data_left sk data s =
     (case sk of
        Local \<Rightarrow> update_stream STREAM_DOWN WAIT_STATUS_WRITING (s\<lparr>data_to_write_to_local := data_to_write_to_local s @ [data]\<rparr>)
      | _ \<Rightarrow> update_stream STREAM_UP WAIT_STATUS_WRITING (s\<lparr>data_to_write_to_remote := data_to_write_to_remote s @ [data]\<rparr>))"

definition data_done :: "sock \<Rightarrow> 'c conn \<Rightarrow> 'c conn" where
  "data_done sk s =
     (case sk of Local \<Rightarrow> update_stream STREAM_DOWN WAIT_STATUS_READING s | _ \<Rightarrow> update_stream STREAM_UP WAIT_STATUS_READING s)"

text \<open>The socket is \<^const>\<open>Local\<close> or \<^const>\<open>Remote\<close>. \<^verbatim>\<open>send\<close> takes the first bytes of the data.\<close>

definition write_to_sock :: "'c relay_env \<Rightarrow> time \<Rightarrow> bytes \<Rightarrow> sock \<Rightarrow> ('c, unit) act" where
  "write_to_sock E now data sk s =
     (if \<not> is_open sk s then (Inr (), s)
      else if remote_udp s \<and> sk = Remote then
        acatch (udp_datagrams E (udp_data_send_buffer s @ data)) (\<lambda>_. destroy) s
      else
        (let s1 = (if encrypt_correct s \<and> sk = Remote
                   then s\<lparr>server := add_transfer_u (user s) (int (length data)) (server s)\<rparr> else s);
             s2 = activity now (length data) s1
         in if data = [] then (Inr (), s2)
            else
              (case next_os s2 of
                 (Sent n, s3) \<Rightarrow>
                   (let s4 = emit (SendOn sk (take n data)) s3
                    in (Inr (), if n < length data then data_left sk (drop n data) s4 else data_done sk s4))
               | (Again, s3) \<Rightarrow> (Inr (), data_left sk data s3)
               | (_, s3) \<Rightarrow> destroy s3)))"

definition on_local_write :: "'c relay_env \<Rightarrow> time \<Rightarrow> ('c, unit) act" where
  "on_local_write E now s =
     (if data_to_write_to_local s \<noteq> []
      then write_to_sock E now (concat (data_to_write_to_local s)) Local (s\<lparr>data_to_write_to_local := []\<rparr>)
      else (Inr (), update_stream STREAM_DOWN WAIT_STATUS_READING s))"

definition on_remote_write :: "'c relay_env \<Rightarrow> time \<Rightarrow> ('c, unit) act" where
  "on_remote_write E now s0 =
     (let s = s0\<lparr>stage := STAGE_STREAM\<rparr> in
      if data_to_write_to_remote s \<noteq> []
      then write_to_sock E now (concat (data_to_write_to_remote s)) Remote (s\<lparr>data_to_write_to_remote := []\<rparr>)
      else (Inr (), update_stream STREAM_UP WAIT_STATUS_READING s))"


subsection \<open>Redirection\<close>

text \<open>\<^verbatim>\<open>s.rsplit(c, 1)\<close>\<close>

definition rsplit1 :: "char \<Rightarrow> bytes \<Rightarrow> bytes list" where
  "rsplit1 c s =
     (if c \<in> set s
      then (let tail = takeWhile (\<lambda>x. x \<noteq> c) (rev s) in [take (length s - length tail - 1) s, rev tail])
      else [s])"

definition address_number :: "family \<Rightarrow> bytes \<Rightarrow> nat res" where
  "address_number af text =
     rbind (inet_pton af text) (\<lambda>b. Inr (case af of AF_INET6 \<Rightarrow> be_val (drop 8 b) | AF_INET \<Rightarrow> be_val b))"

fun host_ports :: "bytes list \<Rightarrow> (bytes \<times> int) list" where
  "host_ports [] = []"
| "host_ports (host # hs) =
     (let items = rsplit1 (CHR '':'') host in
      if length items > 1
      then (case py_int (items ! 1) of None \<Rightarrow> host_ports hs | Some port \<Rightarrow> (items ! 0, port) # host_ports hs)
      else (host, 80) # host_ports hs)"

definition named_port :: "int \<Rightarrow> bytes \<Rightarrow> bool" where
  "named_port port host = (let items = rsplit1 (CHR '':'') host in length items > 1 \<and> py_int (items ! 1) = Some port)"

text \<open>The first form: one of the hosts, by a checksum of the data and the client's address; if hosts
  name the port that listens, one of these.\<close>

definition redirect_by_hash :: "'c relay_env \<Rightarrow> int \<Rightarrow> endpoint \<Rightarrow> bytes \<Rightarrow> bytes list \<Rightarrow> (bytes \<times> int) res" where
  "redirect_by_hash E port client ogn_data host_list =
     rbind (getaddrinfo E (fst client) (snd client)) (\<lambda>r.
       case r of
         None \<Rightarrow> Inl IndexError
       | Some (af, text, _) \<Rightarrow>
           rbind (address_number af text) (\<lambda>addr.
             let all = host_ports host_list;
                 host_port = (if list_ex (named_port port) host_list then filter (\<lambda>(_, p). p = port) all else all)
             in if host_port = [] then Inl ZeroDivisionError
                else Inr (host_port ! ((crc32 ogn_data + addr) mod length host_port))))"

text \<open>The second form: the first entry \<^verbatim>\<open>pattern:port#host:port\<close> that matches.\<close>

fun redirect_by_match :: "'c relay_env \<Rightarrow> int \<Rightarrow> bytes \<Rightarrow> bytes list \<Rightarrow> (bytes \<times> int) res" where
  "redirect_by_match E port ogn_data [] = Inr (''0.0.0.0'', 0)"
| "redirect_by_match E port ogn_data (host # hs) =
     (let items_sum = rsplit1 (CHR ''#'') host; items_match = rsplit1 (CHR '':'') (items_sum ! 0) in
      if length items_sum < 2 then Inl IndexError
      else
        (let items = rsplit1 (CHR '':'') (items_sum ! 1);
             other_port = (length items_match > 1 \<and> items_match ! 1 \<noteq> ''*''
               \<and> (case py_int (items_match ! 1) of None \<Rightarrow> False | Some p \<Rightarrow> port \<noteq> p \<and> p \<noteq> 0))
         in if other_port then redirect_by_match E port ogn_data hs
            else
              rbind (if items_match ! 0 \<noteq> ''*'' then match_regex E (items_match ! 0) ogn_data else Inr True) (\<lambda>hit.
                if \<not> hit then redirect_by_match E port ogn_data hs
                else if length items > 1
                then (case py_int (items ! 1) of None \<Rightarrow> redirect_by_match E port ogn_data hs | Some p \<Rightarrow> Inr (items ! 0, p))
                else Inr (items ! 0, 80))))"

definition get_redirect_host :: "'c relay_env \<Rightarrow> int \<Rightarrow> endpoint \<Rightarrow> bytes \<Rightarrow> (bytes \<times> int) res" where
  "get_redirect_host E port client ogn_data =
     (let host_list = (if redir_list E = [] then [''*#0.0.0.0:0''] else redir_list E) in
      if length (rsplit1 (CHR ''#'') (hd host_list)) < 2 then redirect_by_hash E port client ogn_data host_list
      else redirect_by_match E port ogn_data host_list)"

definition pack_port :: "int \<Rightarrow> bytes res" where
  "pack_port n = (if n < 0 then Inl StructError else pack_be16 (nat n))"

definition handel_protocol_error :: "'c relay_env \<Rightarrow> bytes \<Rightarrow> ('c, bytes) act" where
  "handel_protocol_error E ogn_data s =
     (let s1 = s\<lparr>encrypt_correct := False\<rparr> in
      case get_redirect_host E (listen_port (server s1)) (client_address s1) ogn_data of
        Inl e \<Rightarrow> (Inl e, s1)
      | Inr (host, port) \<Rightarrow>
          if port = 0 then (Inl (Exc ''can not parse header''), s1)
          else if length host > 255 then (Inl ValueError, s1)
          else (case pack_port port of
                  Inl e \<Rightarrow> (Inl e, s1)
                | Inr p \<Rightarrow> (Inr ((chrb 3 # chrb (length host) # host @ p) @ ogn_data), s1\<lparr>is_redirect := True\<rparr>)))"

subsection \<open>Connecting to the target\<close>

definition socket_bind_addr :: "'c relay_env \<Rightarrow> sock \<Rightarrow> family \<Rightarrow> ('c, unit) act" where
  "socket_bind_addr E sk af s =
     (let bind_addr = py_replace ''::ffff:'' []
            (if out_bind E \<noteq> [] \<and> af = AF_INET then out_bind E
             else if out_bindv6 E \<noteq> [] \<and> af = AF_INET6 then out_bindv6 E
             else fst (accept_address s))
      in if bind_addr \<in> set (ignore_bind E) \<or> bind_addr = [] then (Inr (), s)
         else
           (case getaddrinfo E bind_addr 0 of
              Inl e \<Rightarrow> (Inl e, s)
            | Inr None \<Rightarrow> (Inl IndexError, s)
            | Inr (Some (af', _)) \<Rightarrow> (Inr (), if af' = af then emit (Bind sk bind_addr) s else s)))"

definition open_sock :: "sock \<Rightarrow> 'c conn \<Rightarrow> 'c conn" where
  "open_sock sk s =
     (let s1 = s\<lparr>fds := sk # removeAll sk (fds s)\<rparr> in
      case sk of Local \<Rightarrow> s1\<lparr>local_sock := True\<rparr> | Remote \<Rightarrow> s1\<lparr>remote_sock := True\<rparr> | RemoteV6 \<Rightarrow> s1\<lparr>remote_sock_v6 := True\<rparr>)"

definition remote_allowed :: "'c relay_env \<Rightarrow> bytes \<Rightarrow> nat \<Rightarrow> 'c conn \<Rightarrow> bool" where
  "remote_allowed E ip port s \<longleftrightarrow>
     remote_udp s \<or> is_redirect s \<or> ip \<notin> set (forbidden_ips E) \<and> \<not> forbidden_ports E (int port)"

definition create_remote_socket :: "'c relay_env \<Rightarrow> bytes \<Rightarrow> nat \<Rightarrow> ('c, unit) act" where
  "create_remote_socket E ip port s =
     (if remote_udp s then
        (case (getaddrinfo E ''::'' 0, getaddrinfo E ''0.0.0.0'' 0) of
           (Inr a6, Inr (Some (af, _))) \<Rightarrow>
             (let s1 = open_sock Remote s in
              case a6 of
                None \<Rightarrow> (Inl IndexError, s1)
              | Some (af6, _) \<Rightarrow>
                  (let s2 = open_sock RemoteV6 s1 in
                   if is_local E then (Inr (), s2)
                   else abind (socket_bind_addr E Remote af6) (\<lambda>_. socket_bind_addr E RemoteV6 af6) s2))
         | (Inl e, _) \<Rightarrow> (Inl e, s)
         | (_, Inl e) \<Rightarrow> (Inl e, s)
         | (_, Inr None) \<Rightarrow> (Inl (Exc ''getaddrinfo failed''), s))
      else
        (case getaddrinfo E ip port of
           Inl e \<Rightarrow> (Inl e, s)
         | Inr None \<Rightarrow> (Inl (Exc ''getaddrinfo failed''), s)
         | Inr (Some (af, text, p)) \<Rightarrow>
             if \<not> remote_allowed E text p s then (Inl (Exc ''in forbidden list''), s)
             else if is_local E then (Inr (), open_sock Remote s)
             else socket_bind_addr E Remote af (open_sock Remote s)))"

text \<open>What waits for the target of UDP over TCP is written piece by piece.\<close>

fun write_pieces :: "'c relay_env \<Rightarrow> time \<Rightarrow> bytes list \<Rightarrow> ('c, unit) act" where
  "write_pieces E now [] s = (Inr (), s)"
| "write_pieces E now (data # rest) s =
     abind (write_to_sock E now data Remote) (\<lambda>_. write_pieces E now rest) (s\<lparr>data_to_write_to_remote := rest\<rparr>)"

definition connect_remote :: "'c relay_env \<Rightarrow> bytes \<Rightarrow> nat \<Rightarrow> ('c, unit) act" where
  "connect_remote E ip port s =
     (if remote_udp s then
        (let s1 = emit (AddFd Remote POLL_IN) s in
         (Inr (), if remote_sock_v6 s1 then emit (AddFd RemoteV6 POLL_IN) s1 else s1))
      else
        (case next_os (emit (ConnectTo ip port) s) of
           (Connected, s1) \<Rightarrow> (Inr (), emit (AddFd Remote (POLL_ERR OR POLL_OUT)) s1)
         | (Again, s1) \<Rightarrow> (Inr (), emit (AddFd Remote (POLL_ERR OR POLL_OUT)) s1)
         | (_, s1) \<Rightarrow> (Inl OSError, s1)))"

definition open_remote :: "'c relay_env \<Rightarrow> time \<Rightarrow> bytes \<Rightarrow> ('c, unit) act" where
  "open_remote E now ip s0 =
     (let s = s0\<lparr>stage := STAGE_CONNECTING\<rparr> in
      case (if is_local E then Some (chosen_server E) else remote_address s) of
        None \<Rightarrow> (Inl TypeError, s)
      | Some (_, port) \<Rightarrow>
          if is_local E \<and> fast_open E then (Inr (), update_stream STREAM_UP WAIT_STATUS_READING s)
          else
            abind (create_remote_socket E ip port) (\<lambda>_.
            abind (connect_remote E ip port) (\<lambda>_ s1.
              let s2 = update_stream STREAM_DOWN WAIT_STATUS_READING
                (update_stream STREAM_UP WAIT_STATUS_READWRITING (s1\<lparr>stage := STAGE_CONNECTING\<rparr>))
              in if remote_udp s2 then write_pieces E now (data_to_write_to_remote s2) s2 else (Inr (), s2))) s)"

definition handle_dns_resolved :: "'c relay_env \<Rightarrow> time \<Rightarrow> (bytes \<times> bytes option) option \<Rightarrow> exc option \<Rightarrow> ('c, unit) act" where
  "handle_dns_resolved E now result error s =
     (case (error, result) of
        (None, Some (_, Some (x # xs))) \<Rightarrow> acatch (open_remote E now (x # xs)) (\<lambda>_. destroy) s
      | _ \<Rightarrow> destroy s)"

text \<open>The request to the resolver, which may call the handler at once. \<^verbatim>\<open>resolve\<close> calls no other
  callback than the one it is given.\<close>

fun dns_events :: "'c relay_env \<Rightarrow> time \<Rightarrow> nat dns_event list \<Rightarrow> ('c, unit) act" where
  "dns_events E now [] s = (Inr (), s)"
| "dns_events E now (Send req srv # evs) s = dns_events E now evs (emit (DnsEvent (Send req srv)) s)"
| "dns_events E now (Call cb result error # evs) s =
     abind (handle_dns_resolved E now result error) (\<lambda>_. dns_events E now evs) s"

definition ask_resolver :: "'c relay_env \<Rightarrow> time \<Rightarrow> bytes \<Rightarrow> ('c, unit) act" where
  "ask_resolver E now name s =
     (case resolve (env_ipv6 E) now name (me s) (dns s) (rnd s) of
        (res, evs, d, t) \<Rightarrow>
          abind (dns_events E now evs) (\<lambda>_ s'. (res, s')) (s\<lparr>dns := d, rnd := t\<rparr>))"


subsection \<open>The header\<close>

definition get_head_size :: "bytes \<Rightarrow> nat \<Rightarrow> nat" where
  "get_head_size buf def_value =
     (if length buf < 2 then def_value
      else (let head_type = ordb (hd buf) AND 15 in
            if head_type = 1 then 7 else if head_type = 4 then 19
            else if head_type = 3 then 4 + ordb (buf ! 1) else def_value))"

definition update_overhead :: "'c relay_env \<Rightarrow> ('c, unit) act" where
  "update_overhead E s =
     (case codec s of
        None \<Rightarrow> (Inl AttributeError, s)
      | Some c \<Rightarrow>
          (let o' = overheads (ops E) c; size = BUF_SIZE - o'
           in (Inr (), s\<lparr>overhead := o', recv_buffer_size := size, codec := Some (set_buffer_size (ops E) size c)\<rparr>)))"

text \<open>The header of the request; what is no request goes to the redirection, whose header takes the
  place of the client's.\<close>

definition read_request :: "'c relay_env \<Rightarrow> bytes \<Rightarrow> bytes \<Rightarrow> ('c, bytes \<times> header) act" where
  "read_request E ogn_data data =
     abind (\<lambda>s. case pre_parse_header data of
              Inl e \<Rightarrow> (Inl e, s)
            | Inr None \<Rightarrow> handel_protocol_error E ogn_data s
            | Inr (Some d) \<Rightarrow> (Inr d, s)) (\<lambda>data1 s.
       case parse_header data1 of
         Inl e \<Rightarrow> (Inl e, s)
       | Inr (Some h) \<Rightarrow> (Inr (data1, h), s)
       | Inr None \<Rightarrow>
           abind (handel_protocol_error E ogn_data) (\<lambda>data2 s'.
             case parse_header data2 of
               Inl e \<Rightarrow> (Inl e, s')
             | Inr None \<Rightarrow> (Inl TypeError, s')
             | Inr (Some h) \<Rightarrow> (Inr (data2, h), s')) s)"

definition take_request :: "header \<Rightarrow> 'c conn \<Rightarrow> 'c conn" where
  "take_request h s =
     (let s1 = s\<lparr>remote_address := Some (dest_addr h, dest_port h), remote_udp := connecttype h \<noteq> 0\<rparr>
      in (update_stream STREAM_UP WAIT_STATUS_WRITING s1)\<lparr>stage := STAGE_DNS\<rparr>)"

definition server_stage_addr :: "'c relay_env \<Rightarrow> time \<Rightarrow> bytes \<Rightarrow> bytes \<Rightarrow> ('c, unit) act" where
  "server_stage_addr E now ogn_data data =
     abind (read_request E ogn_data data) (\<lambda>(data1, h).
     abind (update_overhead E) (\<lambda>_ s.
       let s1 = take_request h s;
           s2 = (if length data1 > header_length h
                 then s1\<lparr>data_to_write_to_remote := data_to_write_to_remote s1 @ [drop (header_length h) data1]\<rparr> else s1)
       in ask_resolver E now (dest_addr h) s2))"

text \<open>What a client sends: through the protocol, the cipher and the obfuscation.\<close>

definition client_encode :: "'c relay_env \<Rightarrow> bytes \<Rightarrow> ('c, bytes) act" where
  "client_encode E data s =
     (if codec s = None then (Inr data, s)
      else
        abind (with_codec (client_pre_encrypt (ops E) data)) (\<lambda>d1.
        abind (with_codec (encryptor_encrypt (ops E) d1)) (\<lambda>d2.
        with_codec (obfs_client_encode (ops E) d2))) s)"

definition local_stage_addr :: "'c relay_env \<Rightarrow> time \<Rightarrow> bytes \<Rightarrow> ('c, unit) act" where
  "local_stage_addr E now data s =
     (if length data < 2 then (Inl IndexError, s)
      else
        (let cmd = ordb (data ! 1) in
         if cmd = 3 then
           (case (sock_pton (accept_family s) (fst (accept_address s)), pack_be16 (snd (accept_address s))) of
              (Inr addr, Inr port) \<Rightarrow>
                abind (write_to_sock E now
                    ((chrb 5 # chrb 0 # chrb 0 # chrb (if accept_family s = AF_INET6 then 4 else 1) # addr) @ port) Local)
                  (\<lambda>_ s'. (Inr (), s'\<lparr>stage := STAGE_UDP_ASSOC\<rparr>)) s
            | (Inl e, _) \<Rightarrow> (Inl e, s)
            | (_, Inl e) \<Rightarrow> (Inl e, s))
         else if cmd \<noteq> 1 then destroy s
         else
           (case parse_header (drop 3 data) of
              Inl e \<Rightarrow> (Inl e, s)
            | Inr None \<Rightarrow> (Inl TypeError, s)
            | Inr (Some h) \<Rightarrow>
                abind (write_to_sock E now [chrb 5, chrb 0, chrb 0, chrb 1, chrb 0, chrb 0, chrb 0, chrb 0, chrb 16, chrb 16] Local) (\<lambda>_.
                abind (with_codec (\<lambda>c. (Inr (), set_head_len (ops E) (get_head_size (drop 3 data) 30) c))) (\<lambda>_.
                abind (client_encode E (drop 3 data)) (\<lambda>d s'.
                  ask_resolver E now (fst (chosen_server E))
                    (if d \<noteq> [] then s'\<lparr>data_to_write_to_remote := data_to_write_to_remote s' @ [d]\<rparr> else s'))))
                (take_request h s))))"

definition handle_stage_addr :: "'c relay_env \<Rightarrow> time \<Rightarrow> bytes \<Rightarrow> bytes \<Rightarrow> ('c, unit) act" where
  "handle_stage_addr E now ogn_data data =
     acatch (if is_local E then local_stage_addr E now data else server_stage_addr E now ogn_data data) (\<lambda>_. destroy)"

text \<open>Connecting with the first data; that the configuration gives fast open up where the system does
  not know it is not modelled.\<close>

definition fast_connect :: "'c relay_env \<Rightarrow> ('c, unit) act" where
  "fast_connect E s0 =
     acatch (abind (create_remote_socket E (fst (chosen_server E)) (snd (chosen_server E))) (\<lambda>_ s.
         let s1 = emit (AddFd Remote POLL_ERR) s; data = concat (data_to_write_to_remote s1) in
         case next_os s1 of
           (Sent n, s2) \<Rightarrow>
             (Inr (), update_stream STREAM_UP WAIT_STATUS_READWRITING
                ((emit (SendTo Remote (take n data) (chosen_server E)) s2)
                   \<lparr>data_to_write_to_remote := (if n < length data then [drop n data] else [])\<rparr>))
         | (Again, s2) \<Rightarrow> (Inr (), update_stream STREAM_UP WAIT_STATUS_READWRITING s2)
         | (_, s2) \<Rightarrow> (Inl OSError, s2)))
       (\<lambda>e. if e = OSError then destroy else (\<lambda>s. (Inl e, s))) (s0\<lparr>fastopen_connected := True\<rparr>)"

definition handle_stage_connecting :: "'c relay_env \<Rightarrow> bytes \<Rightarrow> ('c, unit) act" where
  "handle_stage_connecting E data =
     abind (if is_local E then client_encode E data else (\<lambda>s. (Inr data, s))) (\<lambda>d s.
       let s1 = (if d \<noteq> [] then s\<lparr>data_to_write_to_remote := data_to_write_to_remote s @ [d]\<rparr> else s)
       in if is_local E \<and> \<not> fastopen_connected s1 \<and> fast_open E
          then fast_connect E s1 else (Inr (), s1))"

subsection \<open>Reading\<close>

definition get_read_size :: "sock \<Rightarrow> int \<Rightarrow> bool \<Rightarrow> ('c, int) act" where
  "get_read_size sk recv_size up s =
     (if overhead s = 0 then (Inr recv_size, s)
      else
        (case next_os s of
           (Received peeked, s1) \<Rightarrow>
             (let frame_size = tcp_mss s1 - overhead s1;
                  buffer_size = min (int (length peeked)) (if up then recv_u_max_size s1 else recv_d_max_size s1);
                  s2 = (if up then s1\<lparr>recv_u_max_size := min (recv_u_max_size s1 + frame_size) BUF_SIZE\<rparr>
                        else s1\<lparr>recv_d_max_size := min (recv_d_max_size s1 + frame_size) BUF_SIZE\<rparr>)
              in if buffer_size = recv_size then (Inr buffer_size, s2)
                 else if buffer_size > frame_size then
                   (if frame_size = 0 then (Inl ZeroDivisionError, s2)
                    else (Inr (buffer_size div \<bar>frame_size\<bar> * \<bar>frame_size\<bar>), s2))
                 else (Inr buffer_size, s2))
         | (Again, s1) \<Rightarrow> (Inl (Exc ''EAGAIN''), s1)
         | (_, s1) \<Rightarrow> (Inl OSError, s1)))"

definition count_up :: "time \<Rightarrow> nat \<Rightarrow> 'c conn \<Rightarrow> 'c conn" where
  "count_up now n s =
     (case speed_tester_u now (Num (user_id s)) (server s) of
        (st, sv) \<Rightarrow>
          s\<lparr>conn_tester_u := speed_add now n (conn_tester_u s),
            server := sv\<lparr>speed_testers_u := AList.update (Num (user_id s)) (speed_add now n st) (speed_testers_u sv)\<rparr>\<rparr>)"

definition count_down :: "time \<Rightarrow> nat \<Rightarrow> 'c conn \<Rightarrow> 'c conn" where
  "count_down now n s =
     (case speed_tester_d now (Num (user_id s)) (server s) of
        (st, sv) \<Rightarrow>
          s\<lparr>conn_tester_d := speed_add now n (conn_tester_d s),
            server := sv\<lparr>speed_testers_d := AList.update (Num (user_id s)) (speed_add now n st) (speed_testers_d sv)\<rparr>\<rparr>)"

text \<open>\<^verbatim>\<open>_update_user\<close>, which the protocol calls when it knows whose the connection is.\<close>

definition conn_update_user :: "bytes \<Rightarrow> 'c conn \<Rightarrow> 'c conn" where
  "conn_update_user uid s0 =
     (let s = s0\<lparr>user := Some uid, user_id := int (le_val uid)\<rparr> in
      case map_of (server_users_cfg (server s)) uid of
        None \<Rightarrow> s
      | Some cfg \<Rightarrow>
          (let speed = limit_or_0 (speed_limit_per_con cfg)
           in s\<lparr>conn_tester_u := speed_update_limit speed (conn_tester_u s),
                conn_tester_d := speed_update_limit speed (conn_tester_d s)\<rparr>))"

definition server_encode :: "'c relay_env \<Rightarrow> bytes \<Rightarrow> ('c, bytes) act" where
  "server_encode E data =
     abind (with_codec (server_pre_encrypt (ops E) data)) (\<lambda>d1.
     abind (with_codec (encryptor_encrypt (ops E) d1)) (\<lambda>d2.
     with_codec (obfs_server_encode (ops E) d2)))"

text \<open>A step of \<^verbatim>\<open>_on_local_read\<close> that may end it gives \<^const>\<open>None\<close>.\<close>

definition fatal :: "('c, 'a) act \<Rightarrow> ('c, 'a option) act" where
  "fatal m = acatch (abind m (\<lambda>v s. (Inr (Some v), s))) (\<lambda>_. abind destroy (\<lambda>_ s. (Inr None, s)))"

definition obfs_decode :: "'c relay_env \<Rightarrow> bytes \<Rightarrow> ('c, (bytes \<times> bool \<times> bool) option) act" where
  "obfs_decode E data =
     fatal (abind (with_codec (obfs_server_decode (ops E) data)) (\<lambda>d s.
       if stage s = STAGE_INIT then
         (case codec s of
            None \<Rightarrow> (Inl AttributeError, s)
          | Some c \<Rightarrow> (Inr d, s\<lparr>overhead := overheads (ops E) c, codec := Some (set_overhead (ops E) (overheads (ops E) c) c)\<rparr>))
       else (Inr d, s)))"

definition post_decrypt :: "'c relay_env \<Rightarrow> bytes \<Rightarrow> ('c, bytes \<times> bool) act" where
  "post_decrypt E data s =
     (case with_codec (server_post_decrypt (ops E) data) s of
        (r, s1) \<Rightarrow>
          (case codec s1 of
             None \<Rightarrow> (r, s1)
           | Some c \<Rightarrow>
               (case announced_user (ops E) c of
                  (None, c') \<Rightarrow> (r, s1\<lparr>codec := Some c'\<rparr>)
                | (Some uid, c') \<Rightarrow> (r, conn_update_user uid (s1\<lparr>codec := Some c'\<rparr>)))))"

definition protocol_decode :: "'c relay_env \<Rightarrow> time \<Rightarrow> bytes \<Rightarrow> ('c, bytes option) act" where
  "protocol_decode E now data =
     fatal (abind (post_decrypt E data) (\<lambda>(d, sendback).
       if sendback
       then abind (server_encode E []) (\<lambda>back. abind (write_to_sock E now back Local) (\<lambda>_ s'. (Inr d, s')))
       else (\<lambda>s. (Inr d, s))))"

definition server_decode :: "'c relay_env \<Rightarrow> time \<Rightarrow> bytes \<Rightarrow> ('c, bytes option) act" where
  "server_decode E now data =
     abind (obfs_decode E data) (\<lambda>r.
       case r of
         None \<Rightarrow> (\<lambda>s. (Inr None, s))
       | Some (plain, to_decrypt, needs_sendback) \<Rightarrow>
           abind (if needs_sendback
                  then abind (with_codec (obfs_server_encode (ops E) [])) (\<lambda>back. fatal (write_to_sock E now back Local))
                  else (\<lambda>s. (Inr (Some ()), s))) (\<lambda>w.
             case w of
               None \<Rightarrow> (\<lambda>s. (Inr None, s))
             | Some _ \<Rightarrow>
                 abind (if to_decrypt
                        then abind (with_codec (\<lambda>c. (Inr (), note_recv_iv (ops E) plain c))) (\<lambda>_. with_codec (encryptor_decrypt (ops E) plain))
                        else (\<lambda>s. (Inr plain, s))) (\<lambda>d.
                 protocol_decode E now d)))"

text \<open>What has been read goes where the stage of the connection says.\<close>

definition dispatch :: "'c relay_env \<Rightarrow> time \<Rightarrow> bytes \<Rightarrow> bytes \<Rightarrow> ('c, unit) act" where
  "dispatch E now ogn_data data s =
     (if stage s = STAGE_STREAM then
        abind (if is_local E then client_encode E data else (\<lambda>s. (Inr data, s))) (\<lambda>d. write_to_sock E now d Remote) s
      else if is_local E \<and> stage s = STAGE_INIT then
        abind (write_to_sock E now [chrb 5, chrb 0] Local) (\<lambda>_ s'. (Inr (), s'\<lparr>stage := STAGE_ADDR\<rparr>)) s
      else if stage s = STAGE_CONNECTING then handle_stage_connecting E data s
      else if (is_local E \<and> stage s = STAGE_ADDR) \<or> (\<not> is_local E \<and> stage s = STAGE_INIT)
      then handle_stage_addr E now ogn_data data s
      else (Inr (), s))"

definition on_local_read :: "'c relay_env \<Rightarrow> time \<Rightarrow> ('c, unit) act" where
  "on_local_read E now s =
     (if \<not> local_sock s then (Inr (), s)
      else
        abind (if is_local E then get_read_size Local (recv_buffer_size s) True else (\<lambda>s. (Inr BUF_SIZE, s))) (\<lambda>_ s0.
          case next_os s0 of
            (Again, s1) \<Rightarrow> (Inr (), s1)
          | (Received (x # xs), s1) \<Rightarrow>
              (let data = x # xs; s2 = count_up now (length data) s1 in
               if is_local E then dispatch E now data data s2
               else if codec s2 = None then (Inr (), s2)
               else if \<not> encrypt_correct s2 then dispatch E now data data s2
               else
                 abind (server_decode E now data) (\<lambda>r.
                   case r of
                     None \<Rightarrow> (\<lambda>s. (Inr (), s))
                   | Some d \<Rightarrow> if d = [] then (\<lambda>s. (Inr (), s)) else dispatch E now data d) s2)
          | (_, s1) \<Rightarrow> destroy s1) s)"

text \<open>A datagram of the target, as UDP over TCP carries it; the addresses are IPv4 or IPv6 texts.\<close>

definition udp_wrap :: "bytes \<Rightarrow> bytes \<Rightarrow> nat \<Rightarrow> bytes res" where
  "udp_wrap data ip port =
     rbind (pack_be16 port) (\<lambda>p.
     rbind (case inet_aton ip of
              Inr a \<Rightarrow> Inr (chrb 0 # chrb 1 # a @ p @ data)
            | Inl _ \<Rightarrow> rbind (sock_pton AF_INET6 ip) (\<lambda>a. Inr (chrb 0 # chrb 4 # a @ p @ data))) (\<lambda>d.
     rbind (pack_be16 (length d + 2)) (\<lambda>n. Inr (n @ d))))"

definition receive_remote :: "'c relay_env \<Rightarrow> ('c, bytes option) act" where
  "receive_remote E s =
     (if remote_udp s then
        (case next_os s of
           (ReceivedFrom data ip port, s1) \<Rightarrow> (map_sum id Some (udp_wrap data ip port), s1)
         | (Again, s1) \<Rightarrow> (Inr None, s1)
         | (_, s1) \<Rightarrow> (Inr (Some []), s1))
      else
        acatch (abind (if is_local E then (\<lambda>s. (Inr BUF_SIZE, s)) else get_read_size Remote (recv_buffer_size s) False) (\<lambda>_ s0.
            case next_os s0 of
              (Received data, s1) \<Rightarrow> (Inr (Some data), s1\<lparr>recv_pack_id := recv_pack_id s1 + 1\<rparr>)
            | (Again, s1) \<Rightarrow> (Inr None, s1)
            | (_, s1) \<Rightarrow> (Inr (Some []), s1)))
          (\<lambda>e s1. if e = Exc ''EAGAIN'' then (Inr None, s1) else if e = OSError then (Inr (Some []), s1) else (Inl e, s1)) s)"

definition client_decode :: "'c relay_env \<Rightarrow> time \<Rightarrow> bytes \<Rightarrow> ('c, bytes option) act" where
  "client_decode E now data =
     abind (fatal (with_codec (obfs_client_decode (ops E) data))) (\<lambda>r.
       case r of
         None \<Rightarrow> (\<lambda>s. (Inr None, s))
       | Some (plain, needs_sendback) \<Rightarrow>
           abind (if needs_sendback
                  then abind (with_codec (obfs_client_encode (ops E) [])) (\<lambda>back. write_to_sock E now back Remote)
                  else (\<lambda>s. (Inr (), s))) (\<lambda>_.
           abind (with_codec (\<lambda>c. (Inr (), note_recv_iv (ops E) plain c))) (\<lambda>_.
           abind (with_codec (encryptor_decrypt (ops E) plain)) (\<lambda>d.
           fatal (abind (with_codec (client_post_decrypt (ops E) d)) (\<lambda>d' s.
             case codec s of
               None \<Rightarrow> (Inl AttributeError, s)
             | Some c \<Rightarrow> (Inr d', if recv_pack_id s = 1 then s\<lparr>tcp_mss := codec_tcp_mss (ops E) c\<rparr> else s)))))))"

definition on_remote_read :: "'c relay_env \<Rightarrow> time \<Rightarrow> ('c, unit) act" where
  "on_remote_read E now =
     abind (receive_remote E) (\<lambda>r.
       case r of
         None \<Rightarrow> (\<lambda>s. (Inr (), s))
       | Some data \<Rightarrow>
           if data = [] then destroy
           else
             (\<lambda>s0. let s = count_down now (length data) s0 in
               if codec s = None then (Inr (), s)
               else if is_local E then
                 abind (client_decode E now data) (\<lambda>r.
                   case r of None \<Rightarrow> (\<lambda>s. (Inr (), s)) | Some d \<Rightarrow> acatch (write_to_sock E now d Local) (\<lambda>_. destroy)) s
               else
                 abind (if encrypt_correct s
                        then abind (server_encode E data) (\<lambda>d s'. (Inr d, s'\<lparr>server := add_transfer_d (user s') (int (length d)) (server s')\<rparr>))
                        else (\<lambda>s. (Inr data, s))) (\<lambda>d s'.
                   acatch (write_to_sock E now d Local) (\<lambda>_. destroy) (activity now (length d) s')) s))"

subsection \<open>Events\<close>

definition peek_limit_u :: "time \<Rightarrow> 'c conn \<Rightarrow> bool \<times> 'c conn" where
  "peek_limit_u now s =
     (case speed_exceeded now (conn_tester_u s) of
        (True, t) \<Rightarrow> (True, s\<lparr>conn_tester_u := t\<rparr>)
      | (False, t) \<Rightarrow>
          (case speed_tester_u now (Num (user_id s)) (server s) of
             (st, sv) \<Rightarrow>
               (case speed_exceeded now st of
                  (b, st') \<Rightarrow>
                    (b, s\<lparr>conn_tester_u := t,
                          server := sv\<lparr>speed_testers_u := AList.update (Num (user_id s)) st' (speed_testers_u sv)\<rparr>\<rparr>))))"

definition peek_limit_d :: "time \<Rightarrow> 'c conn \<Rightarrow> bool \<times> 'c conn" where
  "peek_limit_d now s =
     (case speed_exceeded now (conn_tester_d s) of
        (True, t) \<Rightarrow> (True, s\<lparr>conn_tester_d := t\<rparr>)
      | (False, t) \<Rightarrow>
          (case speed_tester_d now (Num (user_id s)) (server s) of
             (st, sv) \<Rightarrow>
               (case speed_exceeded now st of
                  (b, st') \<Rightarrow>
                    (b, s\<lparr>conn_tester_d := t,
                          server := sv\<lparr>speed_testers_d := AList.update (Num (user_id s)) st' (speed_testers_d sv)\<rparr>\<rparr>))))"

text \<open>\<^verbatim>\<open>handle_event\<close> for a socket of the handler. The result is whether the event was handled; an
  exception that escapes goes to the event loop.\<close>

definition handle_event :: "'c relay_env \<Rightarrow> time \<Rightarrow> sock \<Rightarrow> nat \<Rightarrow> ('c, bool) act" where
  "handle_event E now sk event s =
     (let did = (\<lambda>m. abind m (\<lambda>_ s'. (Inr True, s'))) in
      if stage s = STAGE_DESTROYED then (Inr True, s)
      else if user s \<noteq> None \<and> map_of (server_users (server s)) (the (user s)) = None then did destroy s
      else if sk \<noteq> Local then
        (if event AND POLL_ERR \<noteq> 0 then did destroy s
         else if event AND (POLL_IN OR POLL_HUP) \<noteq> 0 then
           (case peek_limit_d now s of
              (False, s1) \<Rightarrow> did (on_remote_read E now) s1
            | (True, s1) \<Rightarrow> (Inr False, s1\<lparr>recv_d_max_size := tcp_mss s1 - overhead s1\<rparr>))
         else if event AND POLL_OUT \<noteq> 0 then did (on_remote_write E now) s
         else (Inr False, s))
      else
        (if event AND POLL_ERR \<noteq> 0 then did destroy s
         else if event AND (POLL_IN OR POLL_HUP) \<noteq> 0 then
           (case peek_limit_u now s of
              (False, s1) \<Rightarrow> did (on_local_read E now) s1
            | (True, s1) \<Rightarrow> (Inr False, s1\<lparr>recv_u_max_size := tcp_mss s1 - overhead s1\<rparr>))
         else if event AND POLL_OUT \<noteq> 0 then did (on_local_write E now) s
         else (Inr False, s)))"

end
