(* ===== verification/Tcp_Proofs.thy ===== *)
theory Tcp_Proofs
  imports Tcp_Handler Resolver_Proofs
begin

text \<open>
  What holds of a connection of \<^verbatim>\<open>tcprelay.py\<close>: its streams keep their order, it is given back
  once, and where the code goes wrong.
\<close>

subsection \<open>Order of a stream\<close>

definition sent :: "sock \<Rightarrow> effect list \<Rightarrow> bytes" where
  "sent sk tr = concat (map (\<lambda>e. case e of SendOn k d \<Rightarrow> if k = sk then d else [] | _ \<Rightarrow> []) tr)"

lemma sent_append [simp]: "sent sk (xs @ ys) = sent sk xs @ sent sk ys"
  by (simp add: sent_def)

lemma sent_Nil [simp]: "sent sk [] = []"
  by (simp add: sent_def)

lemma sent_Cons [simp]:
  "sent sk (e # es) = (case e of SendOn k d \<Rightarrow> if k = sk then d else [] | _ \<Rightarrow> []) @ sent sk es"
  by (simp add: sent_def)

definition kept :: "sock \<Rightarrow> 'c conn \<Rightarrow> bytes list" where
  "kept sk s = (case sk of Local \<Rightarrow> data_to_write_to_local s | _ \<Rightarrow> data_to_write_to_remote s)"

definition flow_status :: "sock \<Rightarrow> 'c conn \<Rightarrow> nat" where
  "flow_status sk s = (case sk of Local \<Rightarrow> downstream_status s | _ \<Rightarrow> upstream_status s)"

lemma update_stream_simps [simp]:
  "kept sk (update_stream st w s) = kept sk s" "is_open sk (update_stream st w s) = is_open sk s"
  "sent sk (trace (update_stream st w s)) = sent sk (trace s)" "stage (update_stream st w s) = stage s"
  "server (update_stream st w s) = server s" "os (update_stream st w s) = os s" "user (update_stream st w s) = user s"
  "remote_udp (update_stream st w s) = remote_udp s" "encrypt_correct (update_stream st w s) = encrypt_correct s"
  "remote_sock (update_stream st w s) = remote_sock s" "local_sock (update_stream st w s) = local_sock s"
  "codec (update_stream st w s) = codec s" "dns (update_stream st w s) = dns s"
  by (auto simp: update_stream_def kept_def is_open_def emit_def Let_def split: stream.split sock.split)

lemma flow_status_update [simp]:
  "flow_status Local (update_stream STREAM_DOWN w s) = w" "flow_status Remote (update_stream STREAM_UP w s) = w"
  by (auto simp: flow_status_def update_stream_def emit_def Let_def)

lemma activity_simps [simp]:
  "kept sk (activity now n s) = kept sk s" "is_open sk (activity now n s) = is_open sk s"
  "sent sk (trace (activity now n s)) = sent sk (trace s)" "stage (activity now n s) = stage s"
  "os (activity now n s) = os s" "flow_status sk (activity now n s) = flow_status sk s" "user (activity now n s) = user s"
  "remote_udp (activity now n s) = remote_udp s" "encrypt_correct (activity now n s) = encrypt_correct s"
  "server_transfer_ul (server (activity now n s)) = server_transfer_ul (server s)"
  "server_user_transfer_ul (server (activity now n s)) = server_user_transfer_ul (server s)"
  "remote_sock (activity now n s) = remote_sock s" "local_sock (activity now n s) = local_sock s"
  "data_to_write_to_remote (activity now n s) = data_to_write_to_remote s" "data_to_write_to_local (activity now n s) = data_to_write_to_local s"
  by (auto simp: activity_def update_activity_def kept_def is_open_def flow_status_def sent_def split: sock.split)

lemma kept_simps [simp]:
  "kept sk (s\<lparr>trace := t\<rparr>) = kept sk s" "kept sk (s\<lparr>os := r\<rparr>) = kept sk s" "kept sk (s\<lparr>server := v\<rparr>) = kept sk s"
  "flow_status sk (s\<lparr>trace := t\<rparr>) = flow_status sk s" "flow_status sk (s\<lparr>os := r\<rparr>) = flow_status sk s"
  "flow_status sk (s\<lparr>server := v\<rparr>) = flow_status sk s"
  "is_open sk (s\<lparr>trace := t\<rparr>) = is_open sk s" "is_open sk (s\<lparr>os := r\<rparr>) = is_open sk s" "is_open sk (s\<lparr>server := v\<rparr>) = is_open sk s"
  by (simp_all add: kept_def flow_status_def is_open_def split: sock.split)

lemma next_os_simps:
  assumes "next_os s = (r, s')"
  shows "kept sk s' = kept sk s" "flow_status sk s' = flow_status sk s" "trace s' = trace s" "is_open sk s' = is_open sk s"
    "server s' = server s" "user s' = user s" "stage s' = stage s" "remote_udp s' = remote_udp s"
    "encrypt_correct s' = encrypt_correct s"
  using assms by (auto simp: next_os_def split: list.splits)

lemma data_left_simps [simp]:
  assumes "sk \<noteq> RemoteV6"
  shows "kept sk (data_left sk d s) = kept sk s @ [d]" "flow_status sk (data_left sk d s) = WAIT_STATUS_WRITING"
    "sent sk' (trace (data_left sk d s)) = sent sk' (trace s)" "is_open sk' (data_left sk d s) = is_open sk' s"
    "server (data_left sk d s) = server s" "user (data_left sk d s) = user s" "stage (data_left sk d s) = stage s"
    "remote_udp (data_left sk d s) = remote_udp s"
  using assms by (cases sk; simp add: data_left_def; simp add: kept_def is_open_def split: sock.split)+

lemma data_done_simps [simp]:
  assumes "sk \<noteq> RemoteV6"
  shows "kept sk (data_done sk s) = kept sk s" "flow_status sk (data_done sk s) = WAIT_STATUS_READING"
    "sent sk' (trace (data_done sk s)) = sent sk' (trace s)" "is_open sk' (data_done sk s) = is_open sk' s"
    "server (data_done sk s) = server s" "user (data_done sk s) = user s" "stage (data_done sk s) = stage s"
    "remote_udp (data_done sk s) = remote_udp s"
  using assms by (cases sk; simp add: data_done_def)+

lemma release_simps [simp]:
  "local_sock (release sk s) = (local_sock s \<and> sk \<noteq> Local)" "remote_sock (release sk s) = (remote_sock s \<and> sk \<noteq> Remote)"
  "remote_sock_v6 (release sk s) = (remote_sock_v6 s \<and> sk \<noteq> RemoteV6)"
  "stage (release sk s) = stage s" "server (release sk s) = server s" "dns (release sk s) = dns s" "me (release sk s) = me s"
  "remote_udp (release sk s) = remote_udp s" "add_ref (release sk s) = add_ref s" "stats (release sk s) = stats s" "client_address (release sk s) = client_address s"
  by (cases sk; simp add: release_def is_open_def emit_def Let_def)+

lemma leave_server_simps [simp]:
  "local_sock (leave_server s) = local_sock s" "remote_sock (leave_server s) = remote_sock s"
  "remote_sock_v6 (leave_server s) = remote_sock_v6 s" "stage (leave_server s) = stage s" "codec (leave_server s) = codec s"
  "remote_udp (leave_server s) = remote_udp s" "add_ref (leave_server s) = add_ref s" "fds (leave_server s) = fds s" "dns (leave_server s) = dns s" "me (leave_server s) = me s"
  by (simp_all add: leave_server_def Let_def)

lemma destroy_closes:
  assumes "destroy s = (r, s')" and "stage s \<noteq> STAGE_DESTROYED"
  shows "\<not> is_open sk s'"
  using assms by (auto simp: destroy_def is_open_def Let_def split: sum.splits prod.splits sock.splits)

text \<open>A write to an open socket with nothing kept for it, which leaves it open.\<close>

lemma write_in_order:
  assumes "sk \<noteq> RemoteV6" and "\<not> (remote_udp s \<and> sk = Remote)" and "is_open sk s" and "kept sk s = []" and "stage s \<noteq> STAGE_DESTROYED"
    and w: "write_to_sock E now data sk s = (r, s')" and "is_open sk s'"
  shows "sent sk (trace s') @ concat (kept sk s') = sent sk (trace s) @ data
    \<and> (kept sk s' \<noteq> [] \<longrightarrow> flow_status sk s' = WAIT_STATUS_WRITING) \<and> stage s' = stage s \<and> remote_udp s' = remote_udp s"
proof -
  define s1 where "s1 = activity now (length data) (if encrypt_correct s \<and> sk = Remote
    then s\<lparr>server := add_transfer_u (user s) (int (length data)) (server s)\<rparr> else s)"
  have s1: "kept sk s1 = []" "trace s1 = trace s @ [] \<or> sent sk (trace s1) = sent sk (trace s)" "stage s1 = stage s"
      "remote_udp s1 = remote_udp s"
    using assms(4) by (auto simp: s1_def)
  have tr: "sent sk (trace s1) = sent sk (trace s)" by (simp add: s1_def)
  obtain a s2 where n: "next_os s1 = (a, s2)" by (cases "next_os s1")
  note n' = next_os_simps [OF n]
  have d: "\<not> is_open sk s'" if "destroy s2 = (r, s')"
    using destroy_closes [OF that] n' s1(3) assms(5) by simp
  have w': "(if data = [] then (Inr (), s1)
      else (case next_os s1 of
              (Sent k, s3) \<Rightarrow> (let s4 = emit (SendOn sk (take k data)) s3
                 in (Inr (), if k < length data then data_left sk (drop k data) s4 else data_done sk s4))
            | (Again, s3) \<Rightarrow> (Inr (), data_left sk data s3)
            | (_, s3) \<Rightarrow> destroy s3)) = (r, s')"
    using w assms(2,3) unfolding write_to_sock_def s1_def Let_def by (simp split del: if_split cong: if_cong)
  show ?thesis
  proof (cases "data = []")
    case True
    then show ?thesis using w' s1 tr by auto
  next
    case False
    then show ?thesis
      using w' s1 tr n' d assms(1,7)
      by (auto simp: n emit_def Let_def split: os_result.splits if_splits)
  qed
qed

text \<open>What a socket goes through: data comes for it from the other side, which is read only while the
  stream waits for reading, or it becomes writable. The run gives the data that was read; it stops
  when the socket is closed.\<close>

datatype stream_step = Comes bytes | Writable

definition stream_step :: "'c relay_env \<Rightarrow> time \<Rightarrow> sock \<Rightarrow> stream_step \<Rightarrow> 'c conn \<Rightarrow> bytes \<times> 'c conn" where
  "stream_step E now sk x s =
     (case x of
        Comes d \<Rightarrow> if flow_status sk s AND WAIT_STATUS_READING \<noteq> 0 then (d, snd (write_to_sock E now d sk s)) else ([], s)
      | Writable \<Rightarrow> ([], snd (if sk = Local then on_local_write E now s else on_remote_write E now s)))"

fun stream_run :: "'c relay_env \<Rightarrow> time \<Rightarrow> sock \<Rightarrow> stream_step list \<Rightarrow> 'c conn \<Rightarrow> bytes \<times> 'c conn" where
  "stream_run E now sk [] s = ([], s)"
| "stream_run E now sk (x # xs) s =
     (if \<not> is_open sk s then ([], s)
      else (case stream_step E now sk x s of
              (d, s') \<Rightarrow> (case stream_run E now sk xs s' of (ds, s'') \<Rightarrow> (d @ ds, s''))))"

definition stream_ok :: "sock \<Rightarrow> 'c conn \<Rightarrow> bool" where
  "stream_ok sk s \<longleftrightarrow> (kept sk s \<noteq> [] \<longrightarrow> flow_status sk s = WAIT_STATUS_WRITING) \<and> stage s \<noteq> STAGE_DESTROYED
     \<and> \<not> (remote_udp s \<and> sk = Remote)"

lemma stream_step_in_order:
  assumes "sk \<noteq> RemoteV6" and "is_open sk s" and ok: "stream_ok sk s" and x: "stream_step E now sk x s = (d, s')" and "is_open sk s'"
  shows "sent sk (trace s') @ concat (kept sk s') = (sent sk (trace s) @ concat (kept sk s)) @ d \<and> stream_ok sk s'"
proof (cases x)
  case (Comes data)
  show ?thesis
  proof (cases "flow_status sk s AND WAIT_STATUS_READING \<noteq> 0")
    case True
    then have k: "kept sk s = []" using ok by (auto simp: stream_ok_def wait_constants)
    obtain r where "write_to_sock E now data sk s = (r, s')" and "d = data"
      using x True Comes by (cases "write_to_sock E now data sk s") (auto simp: stream_step_def)
    with write_in_order [OF assms(1) _ assms(2) k _ this(1) assms(5)] ok k show ?thesis by (auto simp: stream_ok_def)
  qed (use x ok Comes in \<open>simp add: stream_step_def\<close>)
next
  case Writable
  define s0 where "s0 = (if sk = Local then s\<lparr>data_to_write_to_local := []\<rparr> else s\<lparr>stage := STAGE_STREAM, data_to_write_to_remote := []\<rparr>)"
  have s0: "is_open sk s0" "kept sk s0 = []" "stage s0 \<noteq> STAGE_DESTROYED" "\<not> (remote_udp s0 \<and> sk = Remote)" "trace s0 = trace s"
    using assms(1,2) ok by (cases sk; simp add: s0_def is_open_def kept_def stream_ok_def)+
  show ?thesis
  proof (cases "kept sk s = []")
    case False
    obtain r where "write_to_sock E now (concat (kept sk s)) sk s0 = (r, s')" and "d = []"
      using x Writable False assms(1)
      by (cases "write_to_sock E now (concat (kept sk s)) sk s0"; cases sk)
        (simp_all add: stream_step_def on_local_write_def on_remote_write_def kept_def s0_def Let_def)
    with write_in_order [OF assms(1) s0(4,1,2,3) this(1) assms(5)] s0 show ?thesis by (auto simp: stream_ok_def)
  next
    case True
    define s1 where "s1 = (if sk = Local then s else s\<lparr>stage := STAGE_STREAM\<rparr>)"
    define st where "st = (if sk = Local then STREAM_DOWN else STREAM_UP)"
    have d: "d = []" and s': "s' = update_stream st WAIT_STATUS_READING s1"
      using x Writable assms(1) True
      by (cases sk; simp add: stream_step_def on_local_write_def on_remote_write_def kept_def s1_def st_def Let_def)+
    have "kept sk s1 = []" "trace s1 = trace s" "stage s1 \<noteq> STAGE_DESTROYED" "remote_udp s1 = remote_udp s"
      using True ok by (cases sk; simp add: s1_def kept_def stream_ok_def)+
    then show ?thesis using True ok d unfolding s' by (simp add: stream_ok_def)
  qed
qed

lemma stream_run_in_order:
  assumes "sk \<noteq> RemoteV6" and "stream_ok sk s" and "stream_run E now sk xs s = (ds, s')" and "is_open sk s" and "is_open sk s'"
  shows "sent sk (trace s') @ concat (kept sk s') = (sent sk (trace s) @ concat (kept sk s)) @ ds"
  using assms(2-5)
proof (induction xs arbitrary: s ds)
  case (Cons x xs)
  obtain d s1 where x: "stream_step E now sk x s = (d, s1)" by (cases "stream_step E now sk x s")
  obtain ds1 s2 where r: "stream_run E now sk xs s1 = (ds1, s2)" by (cases "stream_run E now sk xs s1")
  have e: "ds = d @ ds1" "s' = s2" using Cons.prems(2,3) x r by simp_all
  have o1: "is_open sk s1"
    using r Cons.prems(4) e(2) by (cases xs) (auto split: if_splits)
  from stream_step_in_order [OF assms(1) Cons.prems(3,1) x this] Cons.IH [of s1 ds1] r e o1 Cons.prems(4)
  show ?case by simp
qed simp


text \<open>C9. A stream keeps its order and loses nothing. From an open TCP socket with nothing waiting for it,
  through any sequence of data that is read for it while the stream waits for reading and of moments
  when it becomes writable, whatever part of each write the system takes, what the system has taken
  followed by what is kept is exactly the data that was read, as long as the socket is open.\<close>

theorem stream_in_order:
  assumes "sk \<noteq> RemoteV6" and "\<not> (remote_udp s \<and> sk = Remote)" and "stage s \<noteq> STAGE_DESTROYED" and "kept sk s = []"
    and "is_open sk s" and "stream_run E now sk xs s = (ds, s')" and "is_open sk s'"
  shows "sent sk (trace s') @ concat (kept sk s') = sent sk (trace s) @ ds"
  using stream_run_in_order [OF assms(1) _ assms(6,5,7)] assms(2-4) by (simp add: stream_ok_def)

definition id_codec :: "unit codec" where
  "id_codec = \<lparr>obfs_server_decode = (\<lambda>d c. (Inr (d, True, False), c)), obfs_server_encode = (\<lambda>d c. (Inr d, c)),
     obfs_client_decode = (\<lambda>d c. (Inr (d, False), c)), obfs_client_encode = (\<lambda>d c. (Inr d, c)),
     server_post_decrypt = (\<lambda>d c. (Inr (d, False), c)), announced_user = (\<lambda>c. (None, c)), server_pre_encrypt = (\<lambda>d c. (Inr d, c)),
     client_post_decrypt = (\<lambda>d c. (Inr d, c)), client_pre_encrypt = (\<lambda>d c. (Inr d, c)),
     encryptor_encrypt = (\<lambda>d c. (Inr d, c)), encryptor_decrypt = (\<lambda>d c. (Inr d, c)), note_recv_iv = (\<lambda>d c. c),
     set_overhead = (\<lambda>n c. c), set_buffer_size = (\<lambda>n c. c), set_head_len = (\<lambda>n c. c), overheads = (\<lambda>c. 0), codec_tcp_mss = (\<lambda>c. 1460)\<rparr>"

definition id_env :: "unit relay_env" where
  "id_env = \<lparr>ops = id_codec, is_local = False, fast_open = False, env_ipv6 = False, redir_list = [], forbidden_ips = [],
     forbidden_ports = (\<lambda>_. False), out_bind = [], out_bindv6 = [], ignore_bind = [''0.0.0.0''], chosen_server = (''0.0.0.0'', 0),
     con_limit = None, getaddrinfo = (\<lambda>a p. Inr (Some (AF_INET, a, p))), match_regex = (\<lambda>_ _. Inr False)\<rparr>"

definition empty_server :: tcp_server where
  "empty_server = \<lparr>listen_port = 8388, server_transfer_ul = 0, server_transfer_dl = 0, server_users = [],
    server_users_cfg = [], server_user_transfer_ul = [], server_user_transfer_dl = [], mu = False, speed_testers_u = [],
    speed_testers_d = [], server_connections = 0, default_limit = None, timeout_cache = lru_new 60\<rparr>"

definition empty_resolver :: "nat dns_resolver" where
  "empty_resolver = \<lparr>hosts = [], hostname_status = [], hostname_to_cb = [], cb_to_hostname = [], dns_cache = lru_new 300,
     black_hostname_list = [], dns_servers = []\<rparr>"

text \<open>A plain connection, to which the system gives the answers of the list.\<close>

definition id_conn :: "os_result list \<Rightarrow> unit conn" where
  "id_conn results = conn_new id_env 0 (Inr ()) 1 (''10.0.0.1'', 4000) (''0.0.0.0'', 8388) AF_INET None empty_server None empty_resolver [] results"

lemmas id_conn_simps = id_conn_def conn_new_def id_env_def id_codec_def empty_server_def update_activity_def add_connection_def Let_def

theorem stream_in_order_witness:
  "\<exists>s'. stream_run id_env 0 Local [Comes ''hello'', Writable, Writable] ((id_conn [Sent 2, Again, Sent 3])\<lparr>downstream_status := 1\<rparr>) = (''hello'', s')
     \<and> sent Local (trace s') @ concat (kept Local s') = ''hello''"
proof -
  define s where "s = (id_conn [Sent 2, Again, Sent 3])\<lparr>downstream_status := 1\<rparr>"
  have s: "\<not> (remote_udp s \<and> Local = Remote)" "stage s \<noteq> STAGE_DESTROYED" "kept Local s = []" "is_open Local s" "sent Local (trace s) = []"
    by (simp_all add: s_def id_conn_simps kept_def is_open_def)
  obtain ds s' where r: "stream_run id_env 0 Local [Comes ''hello'', Writable, Writable] s = (ds, s')"
    by (cases "stream_run id_env 0 Local [Comes ''hello'', Writable, Writable] s")
  have "ds = ''hello''" and "is_open Local s'"
    using r by (auto simp: s_def id_conn_simps stream_step_def flow_status_def write_to_sock_def on_local_write_def next_os_def
        activity_def data_left_def data_done_def update_stream_def emit_def is_open_def wait_constants)
  then show ?thesis using stream_in_order [OF _ s(1-4) r] r s(5) unfolding s_def by auto
qed

subsection \<open>The end of a connection\<close>

lemma release_fds: "set (fds (release sk s)) = set (fds s) - (if is_open sk s then {sk} else {})"
  by (cases sk; auto simp: release_def is_open_def emit_def Let_def)

lemma destroy_resolver: "resolver_ok (dns s) \<Longrightarrow> destroy s = (r, s') \<Longrightarrow> resolver_ok (dns s') \<and> r = Inr ()"
  using resolver_ok_remove [of "dns s" "me s"]
  by (auto simp: destroy_def Let_def split: if_splits sum.splits prod.splits)

lemma leave_server_count:
  "server_connections (server (leave_server s)) = server_connections (server s) - (if add_ref s > 0 then 1 else 0)"
  by (simp add: leave_server_def remove_handler_def add_connection_def Let_def)

lemma destroy_spec:
  assumes "resolver_ok (dns s)" and "stage s \<noteq> STAGE_DESTROYED" and d: "destroy s = (r, s')"
  shows "r = Inr () \<and> stage s' = STAGE_DESTROYED \<and> codec s' = None \<and> (\<forall>sk. \<not> is_open sk s') \<and> add_ref s' = add_ref s
    \<and> set (fds s') = {sk \<in> set (fds s). \<not> is_open sk s}
    \<and> server_connections (server s') = server_connections (server s) - (if add_ref s > 0 then 1 else 0)"
proof -
  define x where "x = release Local (release RemoteV6 (release Remote (s\<lparr>stage := STAGE_DESTROYED\<rparr>)))"
  have x: "stage x = STAGE_DESTROYED" "add_ref x = add_ref s" "server x = server s" "dns x = dns s" "me x = me s"
    "\<not> local_sock x" "\<not> remote_sock x" "\<not> remote_sock_v6 x" "set (fds x) = {sk \<in> set (fds s). \<not> is_open sk s}"
  proof -
    show "set (fds x) = {sk \<in> set (fds s). \<not> is_open sk s}"
    proof (rule set_eqI)
      show "sk \<in> set (fds x) \<longleftrightarrow> sk \<in> {sk \<in> set (fds s). \<not> is_open sk s}" for sk
        unfolding x_def release_fds by (cases sk) (simp_all add: is_open_def)
    qed
  qed (simp_all add: x_def)
  obtain res dn where rm: "remove_callback (me s) (dns s) = (res, dn)" by (cases "remove_callback (me s) (dns s)")
  then have "res = Inr ()" using resolver_ok_remove [OF assms(1)] by blast
  then have "r = Inr ()" and s': "s' = leave_server (x\<lparr>codec := None, dns := dn\<rparr>)"
    using d assms(2) rm by (simp_all add: destroy_def x_def [symmetric] x Let_def)
  then show ?thesis using x by (simp add: leave_server_count is_open_def split: sock.split)
qed



lemma resolver_reach_empty: "resolver_reach (empty_resolver\<lparr>dns_servers := [(''8.8.4.4'', 53), (''8.8.8.8'', 53)]\<rparr>)"
  by (rule resolver_reach.new [of "[]" None None "Some []"]) (simp add: resolver_new_def parse_resolv_def empty_resolver_def)


subsection \<open>What goes wrong\<close>

text \<open>C40. A connection can be given back twice. A callback of the resolver that comes after
  \<^verbatim>\<open>destroy\<close> (which a callback that joined a request cannot be kept from, theorem
  \<open>joined_callback_stays\<close>) is not refused: it opens a socket for a handler that has no cipher
  any more and brings the handler back to life, and its second end takes the connection off the
  count of the port again.\<close>

theorem late_answer_revives:
  assumes "resolver_reach (dns s)" and "stage s \<noteq> STAGE_DESTROYED" and "add_ref s > 0" and "destroy s = (r1, s1)"
    and "\<not> is_local E" and "remote_address s = Some (name, port)" and "\<not> remote_udp s"
    and "getaddrinfo E ip port = Inr (Some (af, text, p))" and "remote_allowed E text p s"
    and "out_bind E = []" and "out_bindv6 E = []" and "py_replace ''::ffff:'' [] (fst (accept_address s)) \<in> set (ignore_bind E)"
    and "os s = Connected # rest" and "ip \<noteq> []"
    and "handle_dns_resolved E now (Some (name, Some ip)) None s1 = (r2, s2)" and "destroy s2 = (r3, s3)"
  shows "stage s2 = STAGE_CONNECTING \<and> is_open Remote s2 \<and> codec s2 = None
    \<and> server_connections (server s3) = server_connections (server s) - 2"
proof -
  have ok: "resolver_ok (dns s)" using assms(1) by (rule resolver_reach_ok)
  have keep: "remote_address (release sk x) = remote_address x" "is_redirect (release sk x) = is_redirect x"
    "accept_address (release sk x) = accept_address x" "os (release sk x) = os x" for sk and x :: "'a conn"
    by (cases sk; simp add: release_def emit_def Let_def)+
  have keep': "remote_address (leave_server x) = remote_address x" "is_redirect (leave_server x) = is_redirect x"
    "accept_address (leave_server x) = accept_address x" "os (leave_server x) = os x" for x :: "'a conn"
    by (simp_all add: leave_server_def Let_def)
  note d = destroy_spec [OF ok assms(2,4)] and dr = destroy_resolver [OF ok assms(4)]
  have s1: "remote_address s1 = Some (name, port)" "\<not> remote_udp s1" "is_redirect s1 = is_redirect s"
    "accept_address s1 = accept_address s" "os s1 = Connected # rest"
    using assms(2,4,6,7,13) by (auto simp: destroy_def Let_def keep keep' split: sum.splits prod.splits)
  have em: "os (emit e x) = os x" "remote_udp (emit e x) = remote_udp x" "os (open_sock sk x) = os x" "remote_udp (open_sock sk x) = remote_udp x"
    for e sk and x :: "'a conn" by (cases sk; simp add: emit_def open_sock_def)+
  obtain x xs where ip: "ip = x # xs" using assms(14) by (cases ip) auto
  have "create_remote_socket E ip port (s1\<lparr>stage := STAGE_CONNECTING\<rparr>) = (Inr (), open_sock Remote (s1\<lparr>stage := STAGE_CONNECTING\<rparr>))"
    using assms(5,7-12) s1 by (simp add: create_remote_socket_def remote_allowed_def socket_bind_addr_def open_sock_def Let_def)
  then have hd: "handle_dns_resolved E now (Some (name, Some ip)) None s1 =
      (Inr (), update_stream STREAM_DOWN WAIT_STATUS_READING (update_stream STREAM_UP WAIT_STATUS_READWRITING
        ((emit (AddFd Remote (POLL_ERR OR POLL_OUT)) ((emit (ConnectTo ip port) (open_sock Remote (s1\<lparr>stage := STAGE_CONNECTING\<rparr>)))\<lparr>os := rest\<rparr>))
          \<lparr>stage := STAGE_CONNECTING\<rparr>)))"
    using assms(5) s1 em by (simp add: ip handle_dns_resolved_def acatch_def abind_def open_remote_def connect_remote_def next_os_def Let_def)
  have s2: "stage s2 = STAGE_CONNECTING" "is_open Remote s2" "codec s2 = None" "server s2 = server s1" "dns s2 = dns s1" "add_ref s2 = add_ref s1"
  proof -
    have u: "stage (update_stream a b x) = stage x" "is_open Remote (update_stream a b x) = is_open Remote x"
      "codec (update_stream a b x) = codec x" "server (update_stream a b x) = server x" "dns (update_stream a b x) = dns x"
      "add_ref (update_stream a b x) = add_ref x" for a b and x :: "'a conn"
      by (cases a; simp add: update_stream_def is_open_def emit_def Let_def)+
    show "stage s2 = STAGE_CONNECTING" "is_open Remote s2" "codec s2 = None" "server s2 = server s1" "dns s2 = dns s1" "add_ref s2 = add_ref s1"
      using assms(15) d hd
      by (auto simp: u) (simp_all add: open_sock_def is_open_def emit_def)
  qed
  have "server_connections (server s3) = server_connections (server s2) - (if add_ref s2 > 0 then 1 else 0)"
    using destroy_spec [OF _ _ assms(16)] s2 dr by simp
  then show ?thesis using s2 d assms(3) by simp
qed

theorem late_answer_revives_witness:
  "\<exists>s s2 :: unit conn. stage s = STAGE_INIT \<and> server_connections (server s) = 1
     \<and> handle_dns_resolved id_env 0 (Some (''a.b'', Some ''1.2.3.4'')) None (snd (destroy s)) = (Inr (), s2)
     \<and> stage s2 = STAGE_CONNECTING \<and> server_connections (server (snd (destroy s2))) = - 1"
proof -
  define s where "s = (id_conn [Connected])\<lparr>dns := empty_resolver\<lparr>dns_servers := [(''8.8.4.4'', 53), (''8.8.8.8'', 53)]\<rparr>,
    remote_address := Some (''a.b'', 80)\<rparr>"
  obtain r1 s1 where d1: "destroy s = (r1, s1)" by (cases "destroy s")
  obtain r2 s2 where h: "handle_dns_resolved id_env 0 (Some (''a.b'', Some ''1.2.3.4'')) None s1 = (r2, s2)"
    by (cases "handle_dns_resolved id_env 0 (Some (''a.b'', Some ''1.2.3.4'')) None s1")
  obtain r3 s3 where d3: "destroy s2 = (r3, s3)" by (cases "destroy s2")
  have s: "stage s = STAGE_INIT" "server_connections (server s) = 1" "add_ref s = 1" "resolver_reach (dns s)"
    "remote_address s = Some (''a.b'', 80)" "\<not> remote_udp s" "os s = Connected # []" "accept_address s = (''0.0.0.0'', 8388)"
    using resolver_reach_empty by (simp_all add: s_def id_conn_simps)
  have "py_replace ''::ffff:'' [] ''0.0.0.0'' = ''0.0.0.0''" by code_simp
  then have e: "\<not> is_local id_env" "getaddrinfo id_env ''1.2.3.4'' 80 = Inr (Some (AF_INET, ''1.2.3.4'', 80))"
    "remote_allowed id_env ''1.2.3.4'' 80 s" "out_bind id_env = []" "out_bindv6 id_env = []"
    "py_replace ''::ffff:'' [] (fst (accept_address s)) \<in> set (ignore_bind id_env)"
    using s(8) by (simp_all add: id_env_def remote_allowed_def)
  have p: "add_ref s > 0" "stage s \<noteq> STAGE_DESTROYED" "''1.2.3.4'' \<noteq> []" using s(1,3) by simp_all
  from late_answer_revives [OF s(4) p(2,1) d1 e(1) s(5,6) e(2-6) s(7) p(3) h d3]
  have r: "stage s2 = STAGE_CONNECTING" "server_connections (server s3) = - 1" using s(2) by simp_all
  have "r2 = Inr ()"
  proof (cases r2)
    case (Inl x)
    then show ?thesis using h r(1) s(1,4) d1
      by (auto simp: handle_dns_resolved_def acatch_def destroy_def Let_def split: sum.splits prod.splits if_splits)
  qed simp
  then show ?thesis using s(1,2) d1 h d3 r by (intro exI [of _ s] exI [of _ s2]) simp
qed

text \<open>What is sent in two parts is counted twice: the remainder of a write to the target is given to
  \<^verbatim>\<open>add_transfer_u\<close> again when the socket takes it, so the user pays for more than was sent.\<close>

theorem resend_counted_twice:
  assumes "is_open Remote s" and "\<not> remote_udp s" and "encrypt_correct s" and "user s = Some u" and "data_to_write_to_remote s = []"
    and "n < length data" and "os s = Sent n # Sent (length data - n) # rest"
    and "write_to_sock E now data Remote s = (r1, s1)" and "on_remote_write E now s1 = (r2, s2)"
  shows "sent Remote (trace s2) = sent Remote (trace s) @ data
    \<and> get_or_0 u (server_user_transfer_ul (server s2)) =
        get_or_0 u (server_user_transfer_ul (server s)) + server_transfer_ul (server s) + int (length data) + int (length data - n)"
proof -
  define a where "a = activity now (length data) (s\<lparr>server := add_transfer_u (Some u) (int (length data)) (server s)\<rparr>)"
  have "data \<noteq> []" using assms(6) by auto
  have o': "os a = Sent n # Sent (length data - n) # rest" using assms(7) by (simp add: a_def)
  have ue: "user a = Some u" "encrypt_correct a" "\<not> remote_udp a" "remote_sock a" "data_to_write_to_remote a = []"
    using assms(1-5) by (simp_all add: a_def is_open_def kept_def)
  have s1: "s1 = data_left Remote (drop n data) (a\<lparr>os := Sent (length data - n) # rest, trace := trace a @ [SendOn Remote (take n data)]\<rparr>)"
    using assms(1-8) \<open>data \<noteq> []\<close> by (auto simp: write_to_sock_def a_def next_os_def emit_def Let_def)
  define b where "b = s1\<lparr>stage := STAGE_STREAM, data_to_write_to_remote := []\<rparr>"
  have k1: "kept Remote s1 = [drop n data]" using ue by (simp add: s1) (simp add: kept_def)
  have b: "is_open Remote b" "user b = Some u" "encrypt_correct b" "\<not> remote_udp b" "os b = Sent (length data - n) # rest" "server b = server a"
    "sent Remote (trace b) = sent Remote (trace a) @ take n data"
    using ue by (simp_all add: b_def s1 is_open_def data_left_def)
  have w: "on_remote_write E now s1 = write_to_sock E now (drop n data) Remote b"
    using k1 by (simp add: on_remote_write_def b_def kept_def Let_def)
  have "s2 = data_done Remote (emit (SendOn Remote (drop n data))
      ((activity now (length data - n) (b\<lparr>server := add_transfer_u (Some u) (int (length data - n)) (server b)\<rparr>))\<lparr>os := rest\<rparr>))"
    using assms(6,9) b unfolding w by (auto simp: write_to_sock_def next_os_def emit_def Let_def)
  then show ?thesis using b assms(4)
    by (simp add: emit_def) (simp add: a_def add_transfer_u_def get_or_0_def update_conv')
qed

theorem resend_counted_twice_witness:
  "\<exists>s s1 s2 r1 r2. write_to_sock id_env 0 ''hello'' Remote s = (r1, s1) \<and> on_remote_write id_env 0 s1 = (r2, s2)
     \<and> sent Remote (trace s2) = ''hello'' \<and> get_or_0 ''user'' (server_user_transfer_ul (server s2)) = 8"
proof -
  define s where "s = (id_conn [Sent 2, Sent 3])\<lparr>user := Some ''user'', remote_sock := True\<rparr>"
  have s: "is_open Remote s" "\<not> remote_udp s" "encrypt_correct s" "user s = Some ''user''" "data_to_write_to_remote s = []"
    "os s = Sent 2 # Sent (length ''hello'' - 2) # []" "sent Remote (trace s) = []"
    "server_user_transfer_ul (server s) = []" "server_transfer_ul (server s) = 0"
    by (simp_all add: s_def id_conn_simps is_open_def)
  obtain r1 s1 where w: "write_to_sock id_env 0 ''hello'' Remote s = (r1, s1)" by (cases "write_to_sock id_env 0 ''hello'' Remote s")
  obtain r2 s2 where v: "on_remote_write id_env 0 s1 = (r2, s2)" by (cases "on_remote_write id_env 0 s1")
  have "2 < length ''hello''" by simp
  from resend_counted_twice [OF s(1-5) this s(6) w v] s(7-9) have "sent Remote (trace s2) = ''hello''"
    "get_or_0 ''user'' (server_user_transfer_ul (server s2)) = 8" by (simp_all add: get_or_0_def)
  then show ?thesis using w v by blast
qed

text \<open>\<^verbatim>\<open>handle_event\<close> takes a hang-up for data, whatever the stream waits for. What is read then
  overtakes what is kept, which is left without an event to send it on.\<close>

theorem hang_up_overtakes:
  assumes "is_open Local s" and "kept Local s = [old]" and "data \<noteq> []" and "os s = Sent (length data) # rest"
    and "write_to_sock E now data Local s = (r, s')"
  shows "sent Local (trace s') = sent Local (trace s) @ data \<and> kept Local s' = [old] \<and> flow_status Local s' = WAIT_STATUS_READING"
proof -
  have "s' = data_done Local (emit (SendOn Local data) ((activity now (length data) s)\<lparr>os := rest\<rparr>))"
    using assms(1,3-5) by (auto simp: write_to_sock_def next_os_def emit_def Let_def)
  then show ?thesis using assms(2) by (simp add: emit_def)
qed

end
