(* ===== verification/Udp_Relay.thy ===== *)
theory Udp_Relay
  imports Lru_Cache Headers
begin

text \<open>
  \<^verbatim>\<open>UDPRelay\<close> of \<^verbatim>\<open>udprelay.py\<close>: the datagrams of a port. A client address has one socket to the
  outside per address family, kept in one of two caches, for DNS questions and for the rest; what
  comes back on it goes to the client. A socket is known by a number, a new one gets the next. The
  protocol and the cipher are the operations of a record on a state of their own; whether a
  \<^verbatim>\<open>sendto\<close> succeeds is taken from a list. \<open>trace\<close> is what the relay does to the world.
  The list \<^verbatim>\<open>_data_to_write_to_server_socket\<close> is never filled and left out.
\<close>

subsection \<open>State\<close>

type_synonym endpoint = "bytes \<times> nat"

type_synonym udp_params = "bytes \<times> endpoint \<times> bytes option \<times> nat"

datatype udp_effect =
    StatCall nat
  | NewClient nat family
  | BindClient nat bytes
  | CloseClient nat
  | SendOut nat bytes endpoint
  | SendBack bytes endpoint
  | AskName endpoint udp_params
  | CloseServer

record 'c udp_codec =
  encrypt_new_iv :: "'c \<Rightarrow> 'c"
  encrypt_all_iv :: "bytes \<Rightarrow> 'c \<Rightarrow> bytes res \<times> 'c"
  decrypt_all_iv :: "bytes \<Rightarrow> 'c \<Rightarrow> (bytes \<times> bytes) res \<times> 'c"
  set_recv_iv :: "bytes \<Rightarrow> 'c \<Rightarrow> 'c"
  server_udp_post_decrypt :: "bytes \<Rightarrow> 'c \<Rightarrow> (bytes \<times> bytes option) res \<times> 'c"
  server_udp_pre_encrypt :: "bytes \<Rightarrow> bytes option \<Rightarrow> 'c \<Rightarrow> bytes res \<times> 'c"
  client_udp_pre_encrypt :: "bytes \<Rightarrow> 'c \<Rightarrow> bytes res \<times> 'c"
  client_udp_post_decrypt :: "bytes \<Rightarrow> 'c \<Rightarrow> bytes res \<times> 'c"

record 'c udp_env =
  udp_ops :: "'c udp_codec"
  udp_is_local :: bool
  udp_cache_size :: nat
  udp_chosen_server :: endpoint
  udp_forbidden_ips :: "bytes list"
  udp_forbidden_ports :: "nat \<Rightarrow> bool"
  udp_bind :: bytes
  udp_bindv6 :: bytes
  udp_ignore_bind :: "bytes list"
  udp_getaddrinfo :: "bytes \<Rightarrow> nat \<Rightarrow> (family \<times> bytes \<times> nat) option res"

record 'c udp_relay =
  udp_codec_state :: 'c
  udp_cache :: "(bytes, nat \<times> bytes option) lru"
  udp_cache_dns :: "(bytes, nat \<times> bytes option) lru"
  udp_sockets :: "nat list"
  udp_client_addr :: "(nat \<times> endpoint \<times> family) list"
  udp_next :: nat
  udp_users :: "(bytes \<times> bytes) list"
  udp_transfer_ul :: int
  udp_transfer_dl :: int
  udp_user_ul :: "(bytes \<times> int) list"
  udp_user_dl :: "(bytes \<times> int) list"
  udp_closed :: bool
  udp_server_open :: bool
  udp_sends :: "bool list"
  udp_trace :: "udp_effect list"

definition udp_emit :: "udp_effect \<Rightarrow> 'c udp_relay \<Rightarrow> 'c udp_relay" where
  "udp_emit e s = s\<lparr>udp_trace := udp_trace s @ [e]\<rparr>"

definition client_key :: "endpoint \<Rightarrow> family \<Rightarrow> bytes" where
  "client_key addr af =
     fst addr @ '':'' @ dec (snd addr) @ '':'' @ dec (case af of AF_INET \<Rightarrow> 2 | AF_INET6 \<Rightarrow> 10)"

subsection \<open>Users and traffic\<close>

definition udp_add_user :: "bytes \<Rightarrow> bytes \<Rightarrow> 'c udp_relay \<Rightarrow> 'c udp_relay" where
  "udp_add_user uid passwd s = s\<lparr>udp_users := AList.update uid passwd (udp_users s)\<rparr>"

definition udp_del_user :: "bytes \<Rightarrow> 'c udp_relay \<Rightarrow> 'c udp_relay" where
  "udp_del_user uid s = s\<lparr>udp_users := AList.delete uid (udp_users s)\<rparr>"

definition udp_add_transfer_u :: "bytes option \<Rightarrow> int \<Rightarrow> 'c udp_relay \<Rightarrow> 'c udp_relay" where
  "udp_add_transfer_u user transfer s =
     (case user of
        None \<Rightarrow> s\<lparr>udp_transfer_ul := udp_transfer_ul s + transfer\<rparr>
      | Some u \<Rightarrow>
          s\<lparr>udp_user_ul := AList.update u
               ((case map_of (udp_user_ul s) u of None \<Rightarrow> 0 | Some n \<Rightarrow> n) + (transfer + udp_transfer_ul s)) (udp_user_ul s),
            udp_transfer_ul := 0\<rparr>)"

definition udp_add_transfer_d :: "bytes option \<Rightarrow> int \<Rightarrow> 'c udp_relay \<Rightarrow> 'c udp_relay" where
  "udp_add_transfer_d user transfer s =
     (case user of
        None \<Rightarrow> s\<lparr>udp_transfer_dl := udp_transfer_dl s + transfer\<rparr>
      | Some u \<Rightarrow>
          s\<lparr>udp_user_dl := AList.update u
               ((case map_of (udp_user_dl s) u of None \<Rightarrow> 0 | Some n \<Rightarrow> n) + (transfer + udp_transfer_dl s)) (udp_user_dl s),
            udp_transfer_dl := 0\<rparr>)"

definition udp_get_ud :: "'c udp_relay \<Rightarrow> int \<times> int" where
  "udp_get_ud s = (udp_transfer_ul s, udp_transfer_dl s)"

definition udp_get_users_ud :: "'c udp_relay \<Rightarrow> (bytes \<times> int) list \<times> (bytes \<times> int) list" where
  "udp_get_users_ud s = (udp_user_ul s, udp_user_dl s)"

subsection \<open>Sockets of clients\<close>

text \<open>\<^verbatim>\<open>_close_client\<close>. The log line of the server calls \<^verbatim>\<open>info\<close> on a socket that has no client,
  which raises; the set raises where the socket is not in it.\<close>

definition close_client :: "nat \<Rightarrow> 'c udp_relay \<Rightarrow> unit res \<times> 'c udp_relay" where
  "close_client fd s =
     (if map_of (udp_client_addr s) fd = None then (Inl AttributeError, s)
      else if fd \<notin> set (udp_sockets s) then (Inl KeyError, s)
      else
        (Inr (), udp_emit (CloseClient fd)
           (s\<lparr>udp_sockets := removeAll fd (udp_sockets s), udp_client_addr := AList.delete fd (udp_client_addr s)\<rparr>)))"

fun close_clients :: "(nat \<times> bytes option) list \<Rightarrow> 'c udp_relay \<Rightarrow> unit res \<times> 'c udp_relay" where
  "close_clients [] s = (Inr (), s)"
| "close_clients ((fd, _) # ps) s =
     (case close_client fd s of (Inl e, s') \<Rightarrow> (Inl e, s') | (Inr _, s') \<Rightarrow> close_clients ps s')"

text \<open>A cache is swept or cleared, and the sockets that fall out are closed. That closing one raises,
  which would leave the cache in the middle, does not happen (\<open>udp_ok\<close> in the theory of the proofs).\<close>

definition close_gone :: "(bool \<times> (nat \<times> bytes option) list) res \<Rightarrow> 'c udp_relay \<Rightarrow> unit res \<times> 'c udp_relay" where
  "close_gone r s = (case r of Inl e \<Rightarrow> (Inl e, s) | Inr (_, gone) \<Rightarrow> close_clients gone s)"

definition clear_cache :: "nat \<Rightarrow> 'c udp_relay \<Rightarrow> unit res \<times> 'c udp_relay" where
  "clear_cache n s = (case lru_clear n (udp_cache s) of (r, c) \<Rightarrow> close_gone r (s\<lparr>udp_cache := c\<rparr>))"

definition clear_cache_dns :: "nat \<Rightarrow> 'c udp_relay \<Rightarrow> unit res \<times> 'c udp_relay" where
  "clear_cache_dns n s = (case lru_clear n (udp_cache_dns s) of (r, c) \<Rightarrow> close_gone r (s\<lparr>udp_cache_dns := c\<rparr>))"

definition sweep_cache :: "time \<Rightarrow> 'c udp_relay \<Rightarrow> unit res \<times> 'c udp_relay" where
  "sweep_cache now s = (case lru_sweep now SWEEP_MAX_ITEMS (udp_cache s) of (r, c) \<Rightarrow> close_gone r (s\<lparr>udp_cache := c\<rparr>))"

definition sweep_cache_dns :: "time \<Rightarrow> 'c udp_relay \<Rightarrow> unit res \<times> 'c udp_relay" where
  "sweep_cache_dns now s =
     (case lru_sweep now SWEEP_MAX_ITEMS (udp_cache_dns s) of (r, c) \<Rightarrow> close_gone r (s\<lparr>udp_cache_dns := c\<rparr>))"

definition then_udp :: "('c udp_relay \<Rightarrow> unit res \<times> 'c udp_relay) \<Rightarrow> ('c udp_relay \<Rightarrow> unit res \<times> 'c udp_relay)
    \<Rightarrow> 'c udp_relay \<Rightarrow> unit res \<times> 'c udp_relay" where
  "then_udp f g s = (case f s of (Inl e, s') \<Rightarrow> (Inl e, s') | (Inr _, s') \<Rightarrow> g s')"

definition udp_bind_addr :: "'c udp_env \<Rightarrow> nat \<Rightarrow> family \<Rightarrow> 'c udp_relay \<Rightarrow> unit res \<times> 'c udp_relay" where
  "udp_bind_addr E fd af s =
     (let bind_addr = py_replace ''::ffff:'' []
            (if udp_bind E \<noteq> [] \<and> af = AF_INET then udp_bind E
             else if udp_bindv6 E \<noteq> [] \<and> af = AF_INET6 then udp_bindv6 E else [])
      in if bind_addr \<in> set (udp_ignore_bind E) \<or> bind_addr = [] then (Inr (), s)
         else
           (case udp_getaddrinfo E bind_addr 0 of
              Inl e \<Rightarrow> (Inl e, s)
            | Inr None \<Rightarrow> (Inl IndexError, s)
            | Inr (Some (af', _)) \<Rightarrow> (Inr (), if af' = af then udp_emit (BindClient fd bind_addr) s else s)))"

definition is_dns_question :: "bytes \<Rightarrow> nat \<Rightarrow> bool" where
  "is_dns_question data n \<longleftrightarrow>
     length data > n + 13 \<and> py_sub data (n + 4) (n + 12) = [chrb 0, chrb 1, chrb 0, chrb 0, chrb 0, chrb 0, chrb 0, chrb 0]"

text \<open>The socket of a client: the one that a cache has, or a new one, which goes into a cache.\<close>

definition find_client :: "time \<Rightarrow> bytes \<Rightarrow> 'c udp_relay \<Rightarrow> (nat \<times> bytes option) option \<times> 'c udp_relay" where
  "find_client now key s =
     (case lru_get now key (udp_cache s) of
        (Some p, c) \<Rightarrow> (Some p, s\<lparr>udp_cache := c\<rparr>)
      | (None, c) \<Rightarrow>
          (case lru_get now key (udp_cache_dns s) of
             (p, c') \<Rightarrow> (p, s\<lparr>udp_cache := c, udp_cache_dns := c'\<rparr>)))"

definition keep_client :: "time \<Rightarrow> bytes \<Rightarrow> nat \<Rightarrow> bytes option \<Rightarrow> endpoint \<Rightarrow> family \<Rightarrow> bool \<Rightarrow> 'c udp_relay \<Rightarrow> 'c udp_relay" where
  "keep_client now key fd uid r_addr af for_dns s =
     (let s1 = (if for_dns then s\<lparr>udp_cache_dns := lru_setitem now key (fd, uid) (udp_cache_dns s)\<rparr>
                else s\<lparr>udp_cache := lru_setitem now key (fd, uid) (udp_cache s)\<rparr>)
      in s1\<lparr>udp_client_addr := AList.update fd (r_addr, af) (udp_client_addr s1), udp_sockets := fd # removeAll fd (udp_sockets s1)\<rparr>)"

text \<open>What the first \<^verbatim>\<open>try\<close> of \<^verbatim>\<open>_handle_server_dns_resolved\<close> leaves: an end, a socket with
  its user, the data and whether the body was completed, or names that are not bound. Where it raises
  after the socket is known, the data is what it was.\<close>

datatype prepared =
    Done
  | Go nat "bytes option" bytes bytes
  | Unbound

definition udp_payload :: "'c udp_env \<Rightarrow> bytes \<Rightarrow> nat \<Rightarrow> 'c udp_relay \<Rightarrow> bytes res \<times> 'c udp_relay" where
  "udp_payload E data hlen s =
     (if udp_is_local E then
        (case client_udp_pre_encrypt (udp_ops E) data (encrypt_new_iv (udp_ops E) (udp_codec_state s)) of
           (Inl e, c) \<Rightarrow> (Inl e, s\<lparr>udp_codec_state := c\<rparr>)
         | (Inr d, c) \<Rightarrow> (case encrypt_all_iv (udp_ops E) d c of (r, c') \<Rightarrow> (r, s\<lparr>udp_codec_state := c'\<rparr>)))
      else (Inr (drop hlen data), s))"

definition trim_caches :: "'c udp_env \<Rightarrow> 'c udp_relay \<Rightarrow> unit res \<times> 'c udp_relay" where
  "trim_caches E = then_udp (clear_cache (udp_cache_size E)) (clear_cache_dns 16)"

definition send_prepared :: "'c udp_env \<Rightarrow> bytes \<Rightarrow> nat \<Rightarrow> nat \<Rightarrow> bytes option \<Rightarrow> bytes \<Rightarrow> 'c udp_relay \<Rightarrow> prepared \<times> 'c udp_relay" where
  "send_prepared E data hlen fd uid sa s =
     (case trim_caches E s of
        (Inl _, s1) \<Rightarrow> (Go fd uid data sa, s1)
      | (Inr _, s1) \<Rightarrow>
          (case udp_payload E data hlen s1 of
             (Inl _, s2) \<Rightarrow> (Go fd uid data sa, s2)
           | (Inr d, s2) \<Rightarrow> (if d = [] then Done else Go fd uid d sa, s2)))"

definition udp_prepare :: "'c udp_env \<Rightarrow> time \<Rightarrow> nat \<Rightarrow> bytes \<Rightarrow> udp_params \<Rightarrow> 'c udp_relay \<Rightarrow> prepared \<times> 'c udp_relay" where
  "udp_prepare E now server_port server_addr params s =
     (case params of (data, r_addr, uid, hlen) \<Rightarrow>
        (case udp_getaddrinfo E server_addr server_port of
           Inl e \<Rightarrow> (Unbound, s)
         | Inr None \<Rightarrow> (Done, s)
         | Inr (Some (af, sa, sport)) \<Rightarrow>
             (let key = client_key r_addr af in
              case find_client now key s of
                (Some (fd, client_uid), s1) \<Rightarrow> send_prepared E data hlen fd client_uid sa s1
              | (None, s1) \<Rightarrow>
                  if sa \<in> set (udp_forbidden_ips E) \<or> udp_forbidden_ports E sport then (Done, s1)
                  else
                    (let fd = udp_next s1; s2 = udp_emit (NewClient fd af) (s1\<lparr>udp_next := fd + 1\<rparr>) in
                     case udp_bind_addr E fd af s2 of
                       (Inl _, s3) \<Rightarrow> (Go fd uid data sa, s3)
                     | (Inr _, s3) \<Rightarrow>
                         send_prepared E data hlen fd uid sa
                           (keep_client now key fd uid r_addr af (sport = 53 \<and> is_dns_question data hlen) s3)))))"

definition udp_server_resolved :: "'c udp_env \<Rightarrow> time \<Rightarrow> bytes \<Rightarrow> endpoint \<Rightarrow> bytes option \<Rightarrow> udp_params
    \<Rightarrow> 'c udp_relay \<Rightarrow> unit res \<times> 'c udp_relay" where
  "udp_server_resolved E now error remote_addr server_addr params s =
     (if error \<noteq> [] then (Inr (), s)
      else case server_addr of
        None \<Rightarrow> (Inl TypeError, s)
      | Some addr \<Rightarrow>
          (case udp_prepare E now (snd remote_addr) addr params s of
             (Done, s1) \<Rightarrow> (Inr (), s1)
           | (Unbound, s1) \<Rightarrow> (Inl (Exc ''UnboundLocalError''), s1)
           | (Go fd uid data sa, s1) \<Rightarrow>
               (let s2 = udp_emit (SendOut fd data (sa, snd remote_addr)) (s1\<lparr>udp_sends := tl (udp_sends s1)\<rparr>) in
                if udp_sends s1 \<noteq> [] \<and> \<not> hd (udp_sends s1) then (Inr (), s2)
                else (Inr (), udp_add_transfer_u uid (int (length data)) s2))))"

subsection \<open>Datagrams of clients\<close>

definition udp_open :: "'c udp_env \<Rightarrow> bytes \<Rightarrow> 'c udp_relay \<Rightarrow> (bytes \<times> bytes option) option res \<times> 'c udp_relay" where
  "udp_open E data s =
     (if udp_is_local E then
        (if length data < 3 then (Inl IndexError, s)
         else if ordb (data ! 2) \<noteq> 0 then (Inr None, s)
         else (Inr (Some (drop 3 data, None)), s))
      else
        (case decrypt_all_iv (udp_ops E) data (udp_codec_state s) of
           (Inl e, c) \<Rightarrow> (Inl e, s\<lparr>udp_codec_state := c\<rparr>)
         | (Inr (d, iv), c) \<Rightarrow>
             if d = [] then (Inr None, s\<lparr>udp_codec_state := c\<rparr>)
             else
               (case server_udp_post_decrypt (udp_ops E) d (set_recv_iv (udp_ops E) iv c) of
                  (Inl e, c') \<Rightarrow> (Inl e, s\<lparr>udp_codec_state := c'\<rparr>)
                | (Inr (d', uid), c') \<Rightarrow>
                    (map_sum id (map_option (\<lambda>x. (x, uid))) (pre_parse_header d'), s\<lparr>udp_codec_state := c'\<rparr>))))"

definition udp_handle_server :: "'c udp_env \<Rightarrow> time \<Rightarrow> bytes \<Rightarrow> endpoint \<Rightarrow> 'c udp_relay \<Rightarrow> unit res \<times> 'c udp_relay" where
  "udp_handle_server E now data0 r_addr s =
     (case udp_open E data0 (udp_emit (StatCall (length data0)) s) of
        (Inl e, s1) \<Rightarrow> (Inl e, s1)
      | (Inr None, s1) \<Rightarrow> (Inr (), s1)
      | (Inr (Some (data, uid)), s1) \<Rightarrow>
          (case parse_header data of
             Inr (Some h) \<Rightarrow>
               (let (addr, port) = (if udp_is_local E then udp_chosen_server E else (dest_addr h, dest_port h));
                    kind = (if udp_is_local E then 3 else addrtype h);
                    params = (data, r_addr, uid, header_length h)
                in if kind AND 7 = 3 then
                     (case is_ip addr of
                        Inl e \<Rightarrow> (Inl e, s1)
                      | Inr None \<Rightarrow> (Inr (), udp_emit (AskName (addr, port) params) s1)
                      | Inr (Some _) \<Rightarrow> udp_server_resolved E now [] (addr, port) (Some addr) params s1)
                   else udp_server_resolved E now [] (addr, port) (Some addr) params s1)
           | _ \<Rightarrow> (Inr (), s1)))"

subsection \<open>Datagrams for clients\<close>

definition udp_seal :: "'c udp_env \<Rightarrow> bytes \<Rightarrow> endpoint \<Rightarrow> bytes option \<Rightarrow> 'c udp_relay \<Rightarrow> bytes res \<times> 'c udp_relay" where
  "udp_seal E data r_addr client_uid s =
     (if length (fst r_addr) > 255 then (Inr [], s)
      else
        (case rbind (pack_be16 (snd r_addr)) (\<lambda>p. Inr (pack_addr (fst r_addr) @ p @ data)) of
           Inl e \<Rightarrow> (Inl e, s)
         | Inr d \<Rightarrow>
             (case server_udp_pre_encrypt (udp_ops E) d client_uid (encrypt_new_iv (udp_ops E) (udp_codec_state s)) of
                (Inl e, c) \<Rightarrow> (Inl e, s\<lparr>udp_codec_state := c\<rparr>)
              | (Inr d', c) \<Rightarrow> (case encrypt_all_iv (udp_ops E) d' c of (r, c') \<Rightarrow> (r, s\<lparr>udp_codec_state := c'\<rparr>)))))"

definition udp_unseal :: "'c udp_env \<Rightarrow> bytes \<Rightarrow> 'c udp_relay \<Rightarrow> bytes res \<times> 'c udp_relay" where
  "udp_unseal E data s =
     (case decrypt_all_iv (udp_ops E) data (udp_codec_state s) of
        (Inl e, c) \<Rightarrow> (Inl e, s\<lparr>udp_codec_state := c\<rparr>)
      | (Inr (d, iv), c) \<Rightarrow>
          if d = [] then (Inr [], s\<lparr>udp_codec_state := c\<rparr>)
          else
            (case client_udp_post_decrypt (udp_ops E) d (set_recv_iv (udp_ops E) iv c) of
               (Inl e, c') \<Rightarrow> (Inl e, s\<lparr>udp_codec_state := c'\<rparr>)
             | (Inr d', c') \<Rightarrow>
                 (rbind (parse_header d') (\<lambda>h. Inr (if h = None then [] else [chrb 0, chrb 0, chrb 0] @ d')), s\<lparr>udp_codec_state := c'\<rparr>)))"

definition write_to_server_socket :: "bytes \<Rightarrow> endpoint \<Rightarrow> 'c udp_relay \<Rightarrow> 'c udp_relay" where
  "write_to_server_socket data addr s = udp_emit (SendBack data addr) (s\<lparr>udp_sends := tl (udp_sends s)\<rparr>)"

text \<open>The pairs that the two caches have for the client of a socket.\<close>

definition client_pairs :: "time \<Rightarrow> nat \<Rightarrow> 'c udp_relay
    \<Rightarrow> ((nat \<times> bytes option) option \<times> (nat \<times> bytes option) option) \<times> 'c udp_relay" where
  "client_pairs now fd s =
     (case map_of (udp_client_addr s) fd of
        None \<Rightarrow> ((None, None), s)
      | Some (addr, af) \<Rightarrow>
          (case (lru_get now (client_key addr af) (udp_cache s), lru_get now (client_key addr af) (udp_cache_dns s)) of
             ((p, c), (d, c')) \<Rightarrow> ((p, d), s\<lparr>udp_cache := c, udp_cache_dns := c'\<rparr>)))"

definition udp_handle_client :: "'c udp_env \<Rightarrow> time \<Rightarrow> nat \<Rightarrow> bytes \<Rightarrow> endpoint \<Rightarrow> 'c udp_relay \<Rightarrow> unit res \<times> 'c udp_relay" where
  "udp_handle_client E now fd data r_addr s0 =
     (if data = [] then (Inr (), s0)
      else
        (case client_pairs now fd (udp_emit (StatCall (length data)) s0) of
           ((pair, dns_pair), s) \<Rightarrow>
             (let client_uid = (case (pair, dns_pair) of (Some (_, u), _) \<Rightarrow> u | (None, Some (_, u)) \<Rightarrow> u | _ \<Rightarrow> None) in
              case (if udp_is_local E then udp_unseal E data s else udp_seal E data r_addr client_uid s) of
                (Inl e, s1) \<Rightarrow> (Inl e, s1)
              | (Inr response, s1) \<Rightarrow>
                  if response = [] then (Inr (), s1)
                  else
                    (case map_of (udp_client_addr s1) fd of
                       None \<Rightarrow> (Inr (), s1)
                     | Some (addr, af) \<Rightarrow>
                         (let s2 = write_to_server_socket response addr
                            (if client_uid \<noteq> None \<and> client_uid \<noteq> Some [] then udp_add_transfer_d client_uid (int (length response)) s1
                             else s1\<lparr>udp_transfer_dl := udp_transfer_dl s1 + int (length response)\<rparr>)
                          in case dns_pair of
                               None \<Rightarrow> (Inr (), s2)
                             | Some (cfd, _) \<Rightarrow>
                                 (case lru_delitem (client_key addr af) (udp_cache_dns s2) of
                                    (Inl e, c) \<Rightarrow> (Inl e, s2\<lparr>udp_cache_dns := c\<rparr>)
                                  | (Inr _, c) \<Rightarrow> close_client cfd (s2\<lparr>udp_cache_dns := c\<rparr>)))))))"

subsection \<open>Time and the end\<close>

definition udp_close_server :: "'c udp_relay \<Rightarrow> unit res \<times> 'c udp_relay" where
  "udp_close_server s =
     (Inr (), if udp_server_open s then udp_emit CloseServer (s\<lparr>udp_server_open := False\<rparr>) else s)"

definition udp_handle_periodic :: "time \<Rightarrow> 'c udp_relay \<Rightarrow> unit res \<times> 'c udp_relay" where
  "udp_handle_periodic now s =
     (if udp_closed s then then_udp (clear_cache 0) (then_udp (clear_cache_dns 0) udp_close_server) s
      else then_udp (sweep_cache now) (sweep_cache_dns now) s)"

definition udp_close :: "bool \<Rightarrow> 'c udp_relay \<Rightarrow> unit res \<times> 'c udp_relay" where
  "udp_close next_tick s =
     (let s1 = s\<lparr>udp_closed := True\<rparr> in
      if next_tick then (Inr (), s1)
      else then_udp (\<lambda>s. (Inr (), udp_emit CloseServer s)) (then_udp (clear_cache 0) (clear_cache_dns 0)) s1)"

end
