(* ===== verification/Udp_Proofs.thy ===== *)
theory Udp_Proofs
  imports Udp_Relay
begin

text \<open>
  The sockets of \<^verbatim>\<open>udprelay.py\<close>: every open one is in exactly one place of one of the two caches,
  and no operation closes one that is not open.
\<close>

subsection \<open>What a cache loses\<close>

lemma map_of_keys: "map_of (map (\<lambda>(k, _). (k, f k)) ts) k = (if k \<in> fst ` set ts then Some (f k) else None)"
  by (induction ts) auto

lemma lookup_abs:
  assumes "lru_ok c"
  shows "lookup c k = map_of (map (\<lambda>(k, v, _). (k, v)) (lru_abs c)) k"
proof -
  have e: "map (\<lambda>(k, v, _). (k, v)) (lru_abs c) = map (\<lambda>(k, _). (k, the (map_of (lru_store c) k))) (last_time c)"
    by (simp add: lru_abs_def split_beta)
  have "k \<in> fst ` set (last_time c) \<longleftrightarrow> map_of (lru_store c) k \<noteq> None"
    using assms map_of_eq_None_iff [of "lru_store c" k] by (simp add: lru_ok_def)
  then show ?thesis unfolding e map_of_keys by (auto simp: lookup_def)
qed

text \<open>What falls out of a cache is what the cache had for some of its keys, once each.\<close>

definition lost :: "('k, 'v) lru \<Rightarrow> ('k, 'v) lru \<Rightarrow> 'v list \<Rightarrow> bool" where
  "lost c c' gone \<longleftrightarrow> (\<exists>ks. distinct ks \<and> map Some gone = map (lookup c) ks
     \<and> lookup c' = (\<lambda>k. if k \<in> set ks then None else lookup c k))"

lemma lost_drop:
  assumes "lru_ok c" and "lru_ok c'" and "lru_abs c' = drop n (lru_abs c)"
  shows "lost c c' (map (fst \<circ> snd) (take n (lru_abs c)))"
proof -
  define ps where "ps = map (\<lambda>(k, v, _). (k, v)) (lru_abs c)"
  have l: "lookup c = map_of ps" "lookup c' = map_of (drop n ps)"
    using lookup_abs [OF assms(1)] lookup_abs [OF assms(2)] by (auto simp: ps_def assms(3) drop_map)
  have "map fst ps = map fst (last_time c)" by (simp add: ps_def lru_abs_def split_beta comp_def)
  then have d: "distinct (map fst ps)" using assms(1) by (simp add: lru_ok_def)
  then have d': "distinct (map fst (take n ps @ drop n ps))" by simp
  define ks where "ks = map fst (take n ps)"
  have "lookup c k = Some v" if "(k, v) \<in> set (take n ps)" for k v
    using that d set_take_subset [of n ps] by (auto simp: l)
  then have g: "map Some (map snd (take n ps)) = map (lookup c) ks" by (auto simp: ks_def split_beta)
  have "map_of (drop n ps) k = (if k \<in> set ks then None else map_of ps k)" for k
  proof (cases "k \<in> set ks")
    case True
    then have "k \<notin> set (map fst (drop n ps))" using d' by (auto simp: ks_def simp del: append_take_drop_id)
    then show ?thesis using True map_of_eq_None_iff [of "drop n ps" k] by simp
  next
    case False
    then have "map_of (take n ps) k = None" using map_of_eq_None_iff [of "take n ps" k] by (simp add: ks_def)
    then have "map_of (take n ps @ drop n ps) k = map_of (drop n ps) k" by (simp only: map_of_append) (simp add: map_add_def)
    then show ?thesis using False by simp
  qed
  moreover have "distinct ks" using d by (simp add: ks_def take_map [symmetric])
  moreover have "map (fst \<circ> snd) (take n (lru_abs c)) = map snd (take n ps)"
    by (simp add: ps_def take_map split_beta comp_def)
  ultimately show ?thesis using g unfolding lost_def l(2) by (intro exI [of _ ks]) (simp add: l(1) fun_eq_iff)
qed

lemma clear_lost:
  assumes "lru_ok c"
  shows "\<exists>b gone c'. lru_clear n c = (Inr (b, gone), c') \<and> lru_ok c' \<and> lost c c' gone \<and> length (lru_abs c') \<le> n"
proof -
  obtain c' where c: "clear_loop n [] c = (Inr (map (fst \<circ> snd) (take (length (lru_abs c) - n) (lru_abs c))), c')"
    and a: "lru_abs c' = drop (length (lru_abs c) - n) (lru_abs c)" and o': "lru_ok c'"
    using clear_loop_spec [OF assms, of n "[]"] by auto
  show ?thesis using lost_drop [OF assms o' a] c o' a by (simp add: lru_clear_def)
qed

lemma sweep_lost:
  assumes "lru_ok c"
  shows "\<exists>b gone c'. lru_sweep now n c = (Inr (b, gone), c') \<and> lru_ok c' \<and> lost c c' gone"
proof -
  define xs where "xs = take n (takeWhile (expired c now) (lru_abs c))"
  obtain c' where c: "sweep_loop now n [] c = (Inr (map (fst \<circ> snd) xs), c')"
    and a: "lru_abs c' = drop (length xs) (lru_abs c)" and o': "lru_ok c'"
    using sweep_loop_spec [OF assms, of now n "[]"] by (auto simp: xs_def)
  have "take (length xs) (lru_abs c) = xs"
    by (metis append_eq_conv_conj append_take_drop_id takeWhile_dropWhile_id xs_def append.assoc)
  with lost_drop [OF assms o' a] c o' show ?thesis by (simp add: lru_sweep_def)
qed


subsection \<open>The invariant\<close>

text \<open>\<open>A\<close> and \<open>D\<close> are what the caches hold; each socket has one place in them.\<close>

definition one_place :: "('k \<Rightarrow> (nat \<times> 'u) option) \<Rightarrow> ('k \<Rightarrow> (nat \<times> 'u) option) \<Rightarrow> bool" where
  "one_place A D \<longleftrightarrow>
     (\<forall>k k' fd u u'. A k = Some (fd, u) \<longrightarrow> A k' = Some (fd, u') \<longrightarrow> k = k') \<and>
     (\<forall>k k' fd u u'. D k = Some (fd, u) \<longrightarrow> D k' = Some (fd, u') \<longrightarrow> k = k') \<and>
     (\<forall>k k' fd u u'. A k = Some (fd, u) \<longrightarrow> D k' \<noteq> Some (fd, u'))"

definition held :: "('k \<Rightarrow> (nat \<times> 'u) option) \<Rightarrow> nat set" where
  "held A = {fd. \<exists>k u. A k = Some (fd, u)}"

definition udp_tracked :: "nat set \<Rightarrow> 'c udp_relay \<Rightarrow> bool" where
  "udp_tracked S s \<longleftrightarrow> set (udp_sockets s) = S \<and> dom (map_of (udp_client_addr s)) = S \<and> (\<forall>fd \<in> S. fd < udp_next s)"

definition udp_ok :: "'c udp_relay \<Rightarrow> bool" where
  "udp_ok s \<longleftrightarrow> lru_ok (udp_cache s) \<and> lru_ok (udp_cache_dns s)
     \<and> one_place (lookup (udp_cache s)) (lookup (udp_cache_dns s))
     \<and> udp_tracked (held (lookup (udp_cache s)) \<union> held (lookup (udp_cache_dns s))) s"

lemma one_place_sym: "one_place A D \<Longrightarrow> one_place D A"
  unfolding one_place_def by blast

lemma one_place_less:
  assumes "one_place A D" and "\<And>k x. A' k = Some x \<Longrightarrow> A k = Some x"
  shows "one_place A' D"
  using assms(1) unfolding one_place_def by (blast dest: assms(2))

lemma one_place_new:
  assumes "one_place A D" and "A k = None" and "fd \<notin> held A \<union> held D"
  shows "one_place (A(k \<mapsto> (fd, u))) D"
  using assms unfolding one_place_def held_def by (auto split: if_splits)

lemma held_new:
  assumes "A k = None"
  shows "held (A(k \<mapsto> (fd, u))) = insert fd (held A)"
proof (rule set_eqI)
  fix x
  have "\<exists>k' u'. (A(k \<mapsto> (fd, u))) k' = Some (x, u')" if "A k' = Some (x, u')" for k' u'
    using that assms by (intro exI [of _ k'] exI [of _ u']) auto
  moreover have "\<exists>k' u'. (A(k \<mapsto> (fd, u))) k' = Some (fd, u')" by (intro exI [of _ k] exI [of _ u]) simp
  moreover have "x = fd \<or> (\<exists>k' u'. A k' = Some (x, u'))" if "(A(k \<mapsto> (fd, u))) k' = Some (x, u')" for k' u'
    using that by (auto split: if_splits)
  ultimately show "x \<in> held (A(k \<mapsto> (fd, u))) \<longleftrightarrow> x \<in> insert fd (held A)" unfolding held_def by blast
qed

lemma gone_from:
  assumes "map Some gone = map A ks"
  shows "fd \<in> fst ` set gone \<longleftrightarrow> (\<exists>k \<in> set ks. \<exists>u. A k = Some (fd, u))"
proof -
  have e: "Some ` set gone = A ` set ks" using arg_cong [OF assms, of set] by simp
  have "p \<in> set gone \<longleftrightarrow> (\<exists>k \<in> set ks. A k = Some p)" for p
  proof -
    have "p \<in> set gone \<longleftrightarrow> Some p \<in> A ` set ks" unfolding e [symmetric] by auto
    then show ?thesis by (simp add: image_iff) metis
  qed
  then have "(\<exists>u. (fd, u) \<in> set gone) \<longleftrightarrow> (\<exists>k \<in> set ks. \<exists>u. A k = Some (fd, u))" by blast
  then show ?thesis by force
qed

lemma held_lost:
  assumes "one_place A D" and g: "map Some gone = map A ks"
  shows "held (\<lambda>k. if k \<in> set ks then None else A k) = held A - fst ` set gone"
    and "fst ` set gone \<subseteq> held A" and "fst ` set gone \<inter> held D = {}"
proof -
  show "held (\<lambda>k. if k \<in> set ks then None else A k) = held A - fst ` set gone"
  proof (rule set_eqI)
    fix fd
    have "k \<in> set ks" if "A k = Some (fd, u)" "A k' = Some (fd, u')" "k' \<in> set ks" for k k' u u'
      using that assms(1) unfolding one_place_def by blast
    moreover have "(\<exists>u. (if k \<in> set ks then None else A k) = Some (fd, u)) \<longleftrightarrow> k \<notin> set ks \<and> (\<exists>u. A k = Some (fd, u))" for k
      by simp
    ultimately show "fd \<in> held (\<lambda>k. if k \<in> set ks then None else A k) \<longleftrightarrow> fd \<in> held A - fst ` set gone"
      unfolding held_def mem_Collect_eq Diff_iff gone_from [OF g] by blast
  qed
  show "fst ` set gone \<subseteq> held A"
  proof
    fix fd assume "fd \<in> fst ` set gone"
    then show "fd \<in> held A" unfolding gone_from [OF g] held_def by blast
  qed
  have "fd \<notin> held D" if "fd \<in> fst ` set gone" for fd
    using that assms(1) unfolding gone_from [OF g] held_def one_place_def by blast
  then show "fst ` set gone \<inter> held D = {}" by blast
qed

lemma gone_distinct:
  assumes "one_place A D" and "distinct ks" and "map Some gone = map A ks"
  shows "distinct (map fst gone)"
  using assms(2,3)
proof (induction ks arbitrary: gone)
  case (Cons k ks)
  obtain p gone' where g: "gone = p # gone'" "A k = Some p" "map Some gone' = map A ks"
    using Cons.prems(2) by (cases gone) auto
  have "fst p \<notin> fst ` set gone'"
  proof
    assume "fst p \<in> fst ` set gone'"
    then obtain k' u where k': "k' \<in> set ks" "A k' = Some (fst p, u)" unfolding gone_from [OF g(3)] by blast
    moreover have "A k = Some (fst p, snd p)" using g(2) by simp
    ultimately have "k = k'" using assms(1) unfolding one_place_def by blast
    then show False using k'(1) Cons.prems(1) by simp
  qed
  then show ?case using Cons.IH [of gone'] Cons.prems(1) g by simp
qed simp

lemma close_client_tracked:
  assumes "udp_tracked S s" and "fd \<in> S"
  shows "\<exists>s'. close_client fd s = (Inr (), s') \<and> udp_tracked (S - {fd}) s' \<and> udp_cache s' = udp_cache s \<and> udp_cache_dns s' = udp_cache_dns s"
proof -
  have t: "fd \<in> set (udp_sockets s)" "fd \<in> dom (map_of (udp_client_addr s))" using assms by (simp_all add: udp_tracked_def)
  then have "map_of (udp_client_addr s) fd \<noteq> None" by blast
  then have "close_client fd s = (Inr (), udp_emit (CloseClient fd)
      (s\<lparr>udp_sockets := removeAll fd (udp_sockets s), udp_client_addr := AList.delete fd (udp_client_addr s)\<rparr>))"
    using t(1) by (simp add: close_client_def)
  then show ?thesis using assms by (simp add: udp_tracked_def udp_emit_def delete_conv')
qed

lemma close_clients_tracked:
  assumes "udp_tracked S s" and "distinct (map fst ps)" and "fst ` set ps \<subseteq> S"
  shows "\<exists>s'. close_clients ps s = (Inr (), s') \<and> udp_tracked (S - fst ` set ps) s' \<and> udp_cache s' = udp_cache s \<and> udp_cache_dns s' = udp_cache_dns s"
  using assms
proof (induction ps arbitrary: s S)
  case (Cons p ps)
  obtain fd u where p: "p = (fd, u)" by (cases p)
  obtain s1 where s1: "close_client fd s = (Inr (), s1)" "udp_tracked (S - {fd}) s1" "udp_cache s1 = udp_cache s" "udp_cache_dns s1 = udp_cache_dns s"
    using close_client_tracked [OF Cons.prems(1), of fd] Cons.prems(3) p by auto
  have "fst ` set ps \<subseteq> S - {fd}" using Cons.prems(2,3) p by auto
  moreover have "S - {fd} - fst ` set ps = S - fst ` set (p # ps)" using p by auto
  ultimately show ?case using Cons.IH [OF s1(2)] Cons.prems(2) s1 p by simp
qed simp

text \<open>A cache that has lost entries, whose sockets are then closed.\<close>

lemma close_gone_ok:
  assumes ok: "udp_ok s" and "lru_ok c" and l: "lost (udp_cache s) c gone"
  shows "\<exists>s'. close_gone (Inr (b, gone)) (s\<lparr>udp_cache := c\<rparr>) = (Inr (), s') \<and> udp_ok s' \<and> udp_cache s' = c \<and> udp_cache_dns s' = udp_cache_dns s"
proof -
  let ?A = "lookup (udp_cache s)" and ?D = "lookup (udp_cache_dns s)"
  obtain ks where ks: "distinct ks" "map Some gone = map ?A ks" "lookup c = (\<lambda>k. if k \<in> set ks then None else ?A k)"
    using l unfolding lost_def by blast
  have one: "one_place ?A ?D" and t: "udp_tracked (held ?A \<union> held ?D) s" and d: "lru_ok (udp_cache_dns s)"
    using ok by (simp_all add: udp_ok_def)
  note h = held_lost [OF one ks(2)]
  have "udp_tracked (held ?A \<union> held ?D) (s\<lparr>udp_cache := c\<rparr>)" using t by (simp add: udp_tracked_def)
  from close_clients_tracked [OF this gone_distinct [OF one ks(1,2)]] h(2)
  obtain s' where s': "close_clients gone (s\<lparr>udp_cache := c\<rparr>) = (Inr (), s')" "udp_tracked (held ?A \<union> held ?D - fst ` set gone) s'"
    "udp_cache s' = c" "udp_cache_dns s' = udp_cache_dns s" by auto
  have "held ?A \<union> held ?D - fst ` set gone = held (lookup c) \<union> held ?D" using h unfolding ks(3) by blast
  moreover have "one_place (lookup c) ?D" using one by (rule one_place_less) (simp add: ks(3) split: if_splits)
  ultimately show ?thesis using s' assms(2) d by (simp add: close_gone_def udp_ok_def)
qed

lemma close_gone_dns_ok:
  assumes ok: "udp_ok s" and "lru_ok c" and l: "lost (udp_cache_dns s) c gone"
  shows "\<exists>s'. close_gone (Inr (b, gone)) (s\<lparr>udp_cache_dns := c\<rparr>) = (Inr (), s') \<and> udp_ok s' \<and> udp_cache_dns s' = c \<and> udp_cache s' = udp_cache s"
proof -
  let ?A = "lookup (udp_cache s)" and ?D = "lookup (udp_cache_dns s)"
  obtain ks where ks: "distinct ks" "map Some gone = map ?D ks" "lookup c = (\<lambda>k. if k \<in> set ks then None else ?D k)"
    using l unfolding lost_def by blast
  have one: "one_place ?D ?A" and t: "udp_tracked (held ?A \<union> held ?D) s" and d: "lru_ok (udp_cache s)"
    using ok one_place_sym by (auto simp: udp_ok_def)
  note h = held_lost [OF one ks(2)]
  have "udp_tracked (held ?A \<union> held ?D) (s\<lparr>udp_cache_dns := c\<rparr>)" using t by (simp add: udp_tracked_def)
  from close_clients_tracked [OF this gone_distinct [OF one ks(1,2)]] h(2)
  obtain s' where s': "close_clients gone (s\<lparr>udp_cache_dns := c\<rparr>) = (Inr (), s')" "udp_tracked (held ?A \<union> held ?D - fst ` set gone) s'"
    "udp_cache_dns s' = c" "udp_cache s' = udp_cache s" by auto
  have "held ?A \<union> held ?D - fst ` set gone = held ?A \<union> held (lookup c)" using h unfolding ks(3) by blast
  moreover have "one_place (lookup c) ?A" using one by (rule one_place_less) (simp add: ks(3) split: if_splits)
  then have "one_place ?A (lookup c)" by (rule one_place_sym)
  ultimately show ?thesis using s' assms(2) d by (simp add: close_gone_def udp_ok_def)
qed

text \<open>The four operations on the caches.\<close>

lemma clear_cache_ok:
  assumes "udp_ok s"
  shows "\<exists>s'. clear_cache n s = (Inr (), s') \<and> udp_ok s' \<and> length (lru_abs (udp_cache s')) \<le> n \<and> udp_cache_dns s' = udp_cache_dns s"
proof -
  have "lru_ok (udp_cache s)" using assms by (simp add: udp_ok_def)
  then obtain b gone c where c: "lru_clear n (udp_cache s) = (Inr (b, gone), c)" "lru_ok c" "lost (udp_cache s) c gone" "length (lru_abs c) \<le> n"
    using clear_lost by blast
  show ?thesis using close_gone_ok [OF assms c(2,3), of b] c(1,4) by (auto simp: clear_cache_def)
qed

lemma clear_cache_dns_ok:
  assumes "udp_ok s"
  shows "\<exists>s'. clear_cache_dns n s = (Inr (), s') \<and> udp_ok s' \<and> length (lru_abs (udp_cache_dns s')) \<le> n \<and> udp_cache s' = udp_cache s"
proof -
  have "lru_ok (udp_cache_dns s)" using assms by (simp add: udp_ok_def)
  then obtain b gone c where c: "lru_clear n (udp_cache_dns s) = (Inr (b, gone), c)" "lru_ok c" "lost (udp_cache_dns s) c gone" "length (lru_abs c) \<le> n"
    using clear_lost by blast
  show ?thesis using close_gone_dns_ok [OF assms c(2,3), of b] c(1,4) by (auto simp: clear_cache_dns_def)
qed

lemma sweep_cache_ok: "udp_ok s \<Longrightarrow> \<exists>s'. sweep_cache now s = (Inr (), s') \<and> udp_ok s'"
proof -
  assume ok: "udp_ok s"
  then have "lru_ok (udp_cache s)" by (simp add: udp_ok_def)
  then obtain b gone c where c: "lru_sweep now SWEEP_MAX_ITEMS (udp_cache s) = (Inr (b, gone), c)" "lru_ok c" "lost (udp_cache s) c gone"
    using sweep_lost by blast
  show ?thesis using close_gone_ok [OF ok c(2,3), of b] c(1) by (auto simp: sweep_cache_def)
qed

lemma sweep_cache_dns_ok: "udp_ok s \<Longrightarrow> \<exists>s'. sweep_cache_dns now s = (Inr (), s') \<and> udp_ok s'"
proof -
  assume ok: "udp_ok s"
  then have "lru_ok (udp_cache_dns s)" by (simp add: udp_ok_def)
  then obtain b gone c where c: "lru_sweep now SWEEP_MAX_ITEMS (udp_cache_dns s) = (Inr (b, gone), c)" "lru_ok c" "lost (udp_cache_dns s) c gone"
    using sweep_lost by blast
  show ?thesis using close_gone_dns_ok [OF ok c(2,3), of b] c(1) by (auto simp: sweep_cache_dns_def)
qed

subsection \<open>Every operation keeps it\<close>

lemma udp_ok_frame [simp]:
  "udp_ok (s\<lparr>udp_codec_state := c\<rparr>) = udp_ok s" "udp_ok (s\<lparr>udp_sends := b\<rparr>) = udp_ok s" "udp_ok (s\<lparr>udp_trace := t\<rparr>) = udp_ok s"
  "udp_ok (s\<lparr>udp_transfer_ul := n\<rparr>) = udp_ok s" "udp_ok (s\<lparr>udp_transfer_dl := n\<rparr>) = udp_ok s" "udp_ok (s\<lparr>udp_user_ul := m\<rparr>) = udp_ok s"
  "udp_ok (s\<lparr>udp_user_dl := m\<rparr>) = udp_ok s" "udp_ok (s\<lparr>udp_closed := x\<rparr>) = udp_ok s" "udp_ok (s\<lparr>udp_server_open := x\<rparr>) = udp_ok s"
  "udp_ok (udp_emit e s) = udp_ok s" "udp_ok (udp_add_transfer_u u n s) = udp_ok s" "udp_ok (udp_add_transfer_d u n s) = udp_ok s"
  "udp_ok (write_to_server_socket d a s) = udp_ok s"
  by (simp_all add: udp_ok_def udp_tracked_def udp_emit_def udp_add_transfer_u_def udp_add_transfer_d_def write_to_server_socket_def split: option.split)

lemma lru_get_ok:
  assumes "lru_ok c" and "lru_get now k c = (r, c')"
  shows "lru_ok c' \<and> lookup c' = lookup c \<and> r = lookup c k"
proof (cases "lookup c k")
  case None
  then have "lru_getitem now k c = (Inl KeyError, c)" using assms(1) by (rule_tac lru_getitem_missing)
  then show ?thesis using assms None by (simp add: lru_get_def)
next
  case (Some v)
  then show ?thesis using lru_abs_getitem [OF assms(1) Some, of now] assms(2) by (auto simp: lru_get_def)
qed

lemma udp_ok_same:
  assumes "udp_ok s" and "lru_ok c" and "lru_ok d" and "lookup c = lookup (udp_cache s)" and "lookup d = lookup (udp_cache_dns s)"
  shows "udp_ok (s\<lparr>udp_cache := c, udp_cache_dns := d\<rparr>)"
  using assms by (simp add: udp_ok_def udp_tracked_def)

lemma find_client_ok:
  assumes "udp_ok s" and "find_client now k s = (r, s')"
  shows "udp_ok s' \<and> (r = None \<longrightarrow> lookup (udp_cache s') k = None \<and> lookup (udp_cache_dns s') k = None)"
proof -
  obtain p c where c: "lru_get now k (udp_cache s) = (p, c)" by (cases "lru_get now k (udp_cache s)")
  obtain q d where d: "lru_get now k (udp_cache_dns s) = (q, d)" by (cases "lru_get now k (udp_cache_dns s)")
  have ok: "lru_ok (udp_cache s)" "lru_ok (udp_cache_dns s)" using assms(1) by (simp_all add: udp_ok_def)
  note c' = lru_get_ok [OF ok(1) c] and d' = lru_get_ok [OF ok(2) d]
  show ?thesis
  proof (cases p)
    case None
    then have s': "s' = s\<lparr>udp_cache := c, udp_cache_dns := d\<rparr>" "r = q" using assms(2) c d by (simp_all add: find_client_def)
    have "udp_ok s'" unfolding s' using assms(1) c' d' by (intro udp_ok_same) simp_all
    then show ?thesis using c' d' None s' by simp
  next
    case (Some x)
    then have s': "s' = s\<lparr>udp_cache := c\<rparr>" "r = Some x" using assms(2) c by (simp_all add: find_client_def)
    have "udp_ok (s\<lparr>udp_cache := c, udp_cache_dns := udp_cache_dns s\<rparr>)" using assms(1) c' ok by (intro udp_ok_same) simp_all
    then show ?thesis using s' by simp
  qed
qed

lemma keep_client_ok:
  assumes ok: "udp_ok s" and fresh: "\<forall>fd' \<in> set (udp_sockets s). fd' < fd" and "fd < udp_next s"
    and none: "lookup (udp_cache s) k = None" "lookup (udp_cache_dns s) k = None"
  shows "udp_ok (keep_client now k fd uid r_addr af for_dns s)"
proof -
  let ?A = "lookup (udp_cache s)" and ?D = "lookup (udp_cache_dns s)"
  have u: "lru_ok (udp_cache s)" "lru_ok (udp_cache_dns s)" "one_place ?A ?D" "one_place ?D ?A" "udp_tracked (held ?A \<union> held ?D) s"
    using ok one_place_sym by (auto simp: udp_ok_def)
  have f: "fd \<notin> held ?A \<union> held ?D" using u(5) fresh unfolding udp_tracked_def by blast
  then have f': "fd \<notin> held ?D \<union> held ?A" by blast
  have "one_place (?A(k \<mapsto> (fd, uid))) ?D" "one_place (?D(k \<mapsto> (fd, uid))) ?A"
    using one_place_new [OF u(3) none(1) f] one_place_new [OF u(4) none(2) f'] by simp_all
  moreover from this(2) have "one_place ?A (?D(k \<mapsto> (fd, uid)))" by (rule one_place_sym)
  moreover have "held (?A(k \<mapsto> (fd, uid))) = insert fd (held ?A)" "held (?D(k \<mapsto> (fd, uid))) = insert fd (held ?D)"
    using held_new [of ?A k fd uid] held_new [of ?D k fd uid] none by simp_all
  ultimately show ?thesis using u(1,2,5) assms(3)
    by (cases for_dns) (auto simp: keep_client_def udp_ok_def lookup_setitem lru_ok_setitem udp_tracked_def update_conv' Let_def)
qed

lemma send_prepared_ok: "udp_ok s \<Longrightarrow> send_prepared E data n fd uid sa s = (r, s') \<Longrightarrow> udp_ok s'"
proof -
  assume ok: "udp_ok s" and sp: "send_prepared E data n fd uid sa s = (r, s')"
  obtain s1 where s1: "clear_cache (udp_cache_size E) s = (Inr (), s1)" "udp_ok s1" using clear_cache_ok [OF ok] by blast
  obtain s2 where s2: "clear_cache_dns 16 s1 = (Inr (), s2)" "udp_ok s2" using clear_cache_dns_ok [OF s1(2)] by blast
  have p: "udp_ok s3" if "udp_payload E data n s2 = (x, s3)" for x s3
    using that s2(2) by (auto simp: udp_payload_def split: if_splits sum.splits prod.splits)
  have "trim_caches E s = (Inr (), s2)" using s1(1) s2(1) by (simp add: trim_caches_def then_udp_def)
  then show ?thesis using sp by (auto simp: send_prepared_def split: sum.splits prod.splits if_splits dest: p)
qed


lemma udp_bind_addr_ok: "udp_ok s \<Longrightarrow> udp_bind_addr E fd af s = (r, s') \<Longrightarrow>
    udp_ok s' \<and> udp_cache s' = udp_cache s \<and> udp_cache_dns s' = udp_cache_dns s \<and> udp_sockets s' = udp_sockets s \<and> udp_next s' = udp_next s"
  by (auto simp: udp_bind_addr_def udp_emit_def Let_def split: if_splits sum.splits option.splits)

lemma udp_prepare_ok:
  assumes ok: "udp_ok s" and p: "udp_prepare E now port addr params s = (r, s')"
  shows "udp_ok s'"
proof -
  obtain data r_addr uid n where ps: "params = (data, r_addr, uid, n)" by (cases params) auto
  show ?thesis
  proof (cases "udp_getaddrinfo E addr port")
    case (Inr a)
    show ?thesis
    proof (cases a)
      case (Some t)
      obtain af sa sport where t: "t = (af, sa, sport)" by (cases t) auto
      obtain x s1 where f: "find_client now (client_key r_addr af) s = (x, s1)" by (cases "find_client now (client_key r_addr af) s")
      note f' = find_client_ok [OF ok f]
      show ?thesis
      proof (cases x)
        case (Some q)
        then show ?thesis using p ps Inr \<open>a = Some t\<close> t f f' send_prepared_ok by (cases q) (auto simp: udp_prepare_def)
      next
        case None
        define s2 where "s2 = udp_emit (NewClient (udp_next s1) af) (s1\<lparr>udp_next := Suc (udp_next s1)\<rparr>)"
        have "udp_ok (s1\<lparr>udp_next := Suc (udp_next s1)\<rparr>)" using f' by (simp add: udp_ok_def udp_tracked_def less_Suc_eq)
        then have s2: "udp_ok s2" unfolding s2_def udp_ok_frame .
        obtain y s3 where b: "udp_bind_addr E (udp_next s1) af s2 = (y, s3)" by (cases "udp_bind_addr E (udp_next s1) af s2")
        have b': "udp_ok s3" "udp_cache s3 = udp_cache s1" "udp_cache_dns s3 = udp_cache_dns s1" "udp_sockets s3 = udp_sockets s1"
          "udp_next s3 = udp_next s1 + 1" using udp_bind_addr_ok [OF s2 b] by (simp_all add: s2_def udp_emit_def)
        have fr: "\<forall>fd' \<in> set (udp_sockets s3). fd' < udp_next s1" using f' b' by (auto simp: udp_ok_def udp_tracked_def)
        have k: "udp_ok (keep_client now (client_key r_addr af) (udp_next s1) uid r_addr af d s3)" for d
          using f' None b' fr by (intro keep_client_ok) simp_all
        show ?thesis
          using p ps Inr \<open>a = Some t\<close> t f None f' b b'(1) send_prepared_ok [OF k]
          by (auto simp: udp_prepare_def Let_def s2_def [symmetric] split: if_splits sum.splits)
      qed
    qed (use p ps Inr ok in \<open>simp add: udp_prepare_def\<close>)
  qed (use p ps ok in \<open>simp add: udp_prepare_def\<close>)
qed

lemma udp_server_resolved_ok: "udp_ok s \<Longrightarrow> udp_server_resolved E now error ra sa params s = (r, s') \<Longrightarrow> udp_ok s'"
  by (auto simp: udp_server_resolved_def Let_def split: if_splits option.splits prod.splits prepared.splits dest: udp_prepare_ok)

lemma udp_open_ok: "udp_ok s \<Longrightarrow> udp_open E data s = (r, s') \<Longrightarrow> udp_ok s'"
  by (auto simp: udp_open_def split: if_splits sum.splits prod.splits)

lemma udp_handle_server_ok:
  assumes "udp_ok s" and "udp_handle_server E now data ra s = (r, s')"
  shows "udp_ok s'"
proof -
  obtain x s1 where o': "udp_open E data (udp_emit (StatCall (length data)) s) = (x, s1)"
    by (cases "udp_open E data (udp_emit (StatCall (length data)) s)")
  have "udp_ok s1" using udp_open_ok [OF _ o'] assms(1) by simp
  then show ?thesis using assms(2) o'
    by (auto simp: udp_handle_server_def Let_def split: sum.splits option.splits prod.splits if_splits dest: udp_server_resolved_ok)
qed

lemma delete_dns_ok:
  assumes ok: "udp_ok s" and "lookup (udp_cache_dns s) k = Some (fd, u)" and d: "lru_delitem k (udp_cache_dns s) = (Inr y, c)"
  shows "\<exists>s'. close_client fd (s\<lparr>udp_cache_dns := c\<rparr>) = (Inr (), s') \<and> udp_ok s'"
proof -
  have o': "lru_ok (udp_cache_dns s)" using ok by (simp add: udp_ok_def)
  have c: "lru_ok c" "lookup c = (lookup (udp_cache_dns s))(k := None)"
    using lru_ok_delitem [OF o', of k] lookup_delitem [OF o', of k] d by simp_all
  have "lost (udp_cache_dns s) c [(fd, u)]" unfolding lost_def
    by (intro exI [of _ "[k]"]) (auto simp: c(2) assms(2))
  from close_gone_dns_ok [OF ok c(1) this, of True] show ?thesis
    by (auto simp: close_gone_def split: sum.splits prod.splits)
qed

lemma client_pairs_ok:
  assumes o0: "udp_ok s0" and cp: "client_pairs now fd s0 = ((pair, dns_pair), s1)"
  shows "udp_ok s1 \<and> udp_client_addr s1 = udp_client_addr s0
    \<and> (\<forall>addr af. map_of (udp_client_addr s0) fd = Some (addr, af) \<longrightarrow> dns_pair = lookup (udp_cache_dns s1) (client_key addr af))"
proof (cases "map_of (udp_client_addr s0) fd")
  case (Some a)
  obtain addr af where a: "a = (addr, af)" by (cases a)
  obtain p c where c: "lru_get now (client_key addr af) (udp_cache s0) = (p, c)" by (cases "lru_get now (client_key addr af) (udp_cache s0)")
  obtain q d where d: "lru_get now (client_key addr af) (udp_cache_dns s0) = (q, d)" by (cases "lru_get now (client_key addr af) (udp_cache_dns s0)")
  have "lru_ok (udp_cache s0)" "lru_ok (udp_cache_dns s0)" using o0 by (simp_all add: udp_ok_def)
  note c' = lru_get_ok [OF this(1) c] and d' = lru_get_ok [OF this(2) d]
  have s: "s1 = s0\<lparr>udp_cache := c, udp_cache_dns := d\<rparr>" "dns_pair = q" using cp Some a c d by (simp_all add: client_pairs_def)
  have "udp_ok s1" unfolding s using o0 c' d' by (intro udp_ok_same) simp_all
  then show ?thesis using s d' Some a by simp
qed (use cp o0 in \<open>auto simp: client_pairs_def\<close>)

lemma drop_dns_client_ok:
  assumes known: "lookup (udp_cache_dns s3) (client_key addr af) = Some (cfd, u)" and ok: "udp_ok s3"
    and drop: "(case lru_delitem (client_key addr af) (udp_cache_dns s3) of
          (Inl e, c) \<Rightarrow> (Inl e, s3\<lparr>udp_cache_dns := c\<rparr>) | (Inr _, c) \<Rightarrow> close_client cfd (s3\<lparr>udp_cache_dns := c\<rparr>)) = (y, s4)"
  shows "udp_ok s4"
proof (cases "lru_delitem (client_key addr af) (udp_cache_dns s3)")
  case (Pair z c)
  show ?thesis
  proof (cases z)
    case (Inl e)
    have "lru_ok (udp_cache_dns s3)" using ok by (simp add: udp_ok_def)
    then show ?thesis using lru_delitem_eq [of "udp_cache_dns s3" "client_key addr af"] known Pair Inl by (simp add: lookup_def)
  next
    case (Inr w)
    then show ?thesis using delete_dns_ok [OF ok known, of w c] Pair drop by auto
  qed
qed

lemma udp_handle_client_ok:
  assumes ok: "udp_ok s" and h: "udp_handle_client E now fd data ra s = (r, s')"
  shows "udp_ok s'"
proof (cases "data = []")
  case False
  define s0 where "s0 = udp_emit (StatCall (length data)) s"
  have o0: "udp_ok s0" using ok by (simp add: s0_def)
  obtain pair dns_pair s1 where cp: "client_pairs now fd s0 = ((pair, dns_pair), s1)" by (cases "client_pairs now fd s0") auto
  note s1 = client_pairs_ok [OF o0 cp]
  define uid where "uid = (case pair of None \<Rightarrow> (case dns_pair of None \<Rightarrow> None | Some (_, u) \<Rightarrow> u) | Some (_, u) \<Rightarrow> u)"
  obtain x s2 where sl: "(if udp_is_local E then udp_unseal E data s1 else udp_seal E data ra uid s1) = (x, s2)"
    by (cases "if udp_is_local E then udp_unseal E data s1 else udp_seal E data ra uid s1")
  have s2: "udp_ok s2 \<and> udp_client_addr s2 = udp_client_addr s1 \<and> udp_cache_dns s2 = udp_cache_dns s1"
    using sl s1 by (auto simp: udp_unseal_def udp_seal_def split: if_splits sum.splits prod.splits)
  note d = drop_dns_client_ok
  define s3 where "s3 resp addr = write_to_server_socket resp addr
    (if uid \<noteq> None \<and> uid \<noteq> Some [] then udp_add_transfer_d uid (int (length resp)) s2
     else s2\<lparr>udp_transfer_dl := udp_transfer_dl s2 + int (length resp)\<rparr>)" for resp addr
  have s3: "udp_ok (s3 resp addr)" "udp_cache_dns (s3 resp addr) = udp_cache_dns s2" for resp addr
    using s2 by (auto simp: s3_def write_to_server_socket_def udp_emit_def udp_add_transfer_d_def split: option.split)
  have h': "(case x of Inl e \<Rightarrow> (Inl e, s2)
      | Inr response \<Rightarrow>
          if response = [] then (Inr (), s2)
          else (case map_of (udp_client_addr s2) fd of
                  None \<Rightarrow> (Inr (), s2)
                | Some (addr, af) \<Rightarrow>
                    (case dns_pair of
                       None \<Rightarrow> (Inr (), s3 response addr)
                     | Some (cfd, _) \<Rightarrow>
                         (case lru_delitem (client_key addr af) (udp_cache_dns (s3 response addr)) of
                            (Inl e, c) \<Rightarrow> (Inl e, (s3 response addr)\<lparr>udp_cache_dns := c\<rparr>)
                          | (Inr _, c) \<Rightarrow> close_client cfd ((s3 response addr)\<lparr>udp_cache_dns := c\<rparr>))))) = (r, s')"
    using h False unfolding udp_handle_client_def s0_def [symmetric] cp s3_def Let_def
    by (simp only: if_False prod.case uid_def [symmetric] sl)
  show ?thesis
  proof (cases x)
    case (Inr resp)
    show ?thesis
    proof (cases "resp = [] \<or> map_of (udp_client_addr s2) fd = None")
      case True
      then show ?thesis using h' Inr s2 by (auto split: if_splits)
    next
      case False
      then obtain addr af where a: "map_of (udp_client_addr s2) fd = Some (addr, af)" by auto
      show ?thesis
      proof (cases dns_pair)
        case None
        then show ?thesis using h' Inr False a s3(1) [of resp addr] by auto
      next
        case (Some q)
        obtain cfd u where q: "q = (cfd, u)" by (cases q)
        have "lookup (udp_cache_dns (s3 resp addr)) (client_key addr af) = Some (cfd, u)"
          using s1 s2 a Some q by (cases addr) (simp add: s3(2))
        from d [OF this s3(1)] show ?thesis using h' Inr False a Some q by simp
      qed
    qed
  qed (use h' s2 in simp)
qed (use ok h in \<open>simp add: udp_handle_client_def\<close>)

text \<open>The states of a relay, through any datagrams from any addresses, answers of the resolver at any
  time, and sweeps.\<close>

inductive udp_reach :: "'c udp_relay \<Rightarrow> bool" where
  start: "udp_cache s = lru_new t \<Longrightarrow> udp_cache_dns s = lru_new 10 \<Longrightarrow> udp_sockets s = [] \<Longrightarrow> udp_client_addr s = [] \<Longrightarrow> udp_reach s"
| from_client: "udp_reach s \<Longrightarrow> udp_handle_server E now data addr s = (r, s') \<Longrightarrow> udp_reach s'"
| resolved: "udp_reach s \<Longrightarrow> udp_server_resolved E now error remote_addr server_addr params s = (r, s') \<Longrightarrow> udp_reach s'"
| from_target: "udp_reach s \<Longrightarrow> udp_handle_client E now fd data addr s = (r, s') \<Longrightarrow> udp_reach s'"
| periodic: "udp_reach s \<Longrightarrow> udp_handle_periodic now s = (r, s') \<Longrightarrow> udp_reach s'"
| closing: "udp_reach s \<Longrightarrow> udp_close next_tick s = (r, s') \<Longrightarrow> udp_reach s'"

lemma udp_periodic_ok: "udp_ok s \<Longrightarrow> \<exists>s'. udp_handle_periodic now s = (Inr (), s') \<and> udp_ok s'"
proof (cases "udp_closed s")
  case True
  assume ok: "udp_ok s"
  obtain s1 where s1: "clear_cache 0 s = (Inr (), s1)" "udp_ok s1" using clear_cache_ok [OF ok] by blast
  obtain s2 where s2: "clear_cache_dns 0 s1 = (Inr (), s2)" "udp_ok s2" using clear_cache_dns_ok [OF s1(2)] by blast
  then show ?thesis using s1 True by (simp add: udp_handle_periodic_def then_udp_def udp_close_server_def)
next
  case False
  assume ok: "udp_ok s"
  obtain s1 where s1: "sweep_cache now s = (Inr (), s1)" "udp_ok s1" using sweep_cache_ok [OF ok] by blast
  obtain s2 where s2: "sweep_cache_dns now s1 = (Inr (), s2)" "udp_ok s2" using sweep_cache_dns_ok [OF s1(2)] by blast
  then show ?thesis using s1 False by (simp add: udp_handle_periodic_def then_udp_def)
qed

lemma held_empty: "lru_ok c \<Longrightarrow> length (lru_abs c) \<le> 0 \<Longrightarrow> held (lookup c) = {}"
  using lookup_abs [of c] by (simp add: held_def)

lemma udp_close_ok:
  assumes ok: "udp_ok s"
  shows "\<exists>s'. udp_close next_tick s = (Inr (), s') \<and> udp_ok s' \<and> (\<not> next_tick \<longrightarrow> udp_sockets s' = [])"
proof (cases next_tick)
  case False
  define s0 where "s0 = udp_emit CloseServer (s\<lparr>udp_closed := True\<rparr>)"
  have "udp_ok s0" using ok by (simp add: s0_def)
  then obtain s1 where s1: "clear_cache 0 s0 = (Inr (), s1)" "udp_ok s1" "length (lru_abs (udp_cache s1)) \<le> 0"
    using clear_cache_ok by blast
  obtain s2 where s2: "clear_cache_dns 0 s1 = (Inr (), s2)" "udp_ok s2" "length (lru_abs (udp_cache_dns s2)) \<le> 0" "udp_cache s2 = udp_cache s1"
    using clear_cache_dns_ok [OF s1(2)] by blast
  have "set (udp_sockets s2) = {}"
    using s1(3) s2 held_empty [of "udp_cache s2"] held_empty [of "udp_cache_dns s2"] by (simp add: udp_ok_def udp_tracked_def)
  then show ?thesis using s1 s2 False by (simp add: udp_close_def then_udp_def s0_def [symmetric] Let_def)
qed (use ok in \<open>simp add: udp_close_def Let_def\<close>)

lemma udp_reach_ok: "udp_reach s \<Longrightarrow> udp_ok s"
proof (induction rule: udp_reach.induct)
  case (start s t)
  then show ?case by (simp add: udp_ok_def udp_tracked_def one_place_def held_def lookup_def lru_new_def lru_ok_def)
next
  case (from_client s E now data addr r s')
  then show ?case by (blast intro: udp_handle_server_ok)
next
  case (resolved s E now error remote_addr server_addr params r s')
  then show ?case by (blast intro: udp_server_resolved_ok)
next
  case (from_target s E now fd data addr r s')
  then show ?case by (blast intro: udp_handle_client_ok)
next
  case (periodic s now r s')
  then show ?case using udp_periodic_ok [of s now] by auto
next
  case (closing s next_tick r s')
  then show ?case using udp_close_ok [of s next_tick] by auto
qed

text \<open>C13. No socket of the UDP relay leaks and none is closed twice. In every state that the relay can
  reach, the open sockets are exactly those that the two caches hold, each has one place in one of
  them, and each has the address of the client that it belongs to.\<close>

theorem udp_sockets_tracked:
  assumes "udp_reach s"
  shows "set (udp_sockets s) = held (lookup (udp_cache s)) \<union> held (lookup (udp_cache_dns s))
    \<and> one_place (lookup (udp_cache s)) (lookup (udp_cache_dns s)) \<and> dom (map_of (udp_client_addr s)) = set (udp_sockets s)"
  using udp_reach_ok [OF assms] by (simp add: udp_ok_def udp_tracked_def)

definition udp_id_env :: "unit udp_env" where
  "udp_id_env = \<lparr>udp_ops = \<lparr>encrypt_new_iv = (\<lambda>c. c), encrypt_all_iv = (\<lambda>d c. (Inr d, c)), decrypt_all_iv = (\<lambda>d c. (Inr (d, []), c)),
       set_recv_iv = (\<lambda>iv c. c), server_udp_post_decrypt = (\<lambda>d c. (Inr (d, None), c)), server_udp_pre_encrypt = (\<lambda>d u c. (Inr d, c)),
       client_udp_pre_encrypt = (\<lambda>d c. (Inr d, c)), client_udp_post_decrypt = (\<lambda>d c. (Inr d, c))\<rparr>,
     udp_is_local = False, udp_cache_size = 64, udp_chosen_server = ([], 0), udp_forbidden_ips = [], udp_forbidden_ports = (\<lambda>_. False),
     udp_bind = [], udp_bindv6 = [], udp_ignore_bind = [], udp_getaddrinfo = (\<lambda>a p. Inr (Some (AF_INET, a, p)))\<rparr>"

definition udp_start :: "unit udp_relay" where
  "udp_start = \<lparr>udp_codec_state = (), udp_cache = lru_new 60, udp_cache_dns = lru_new 10, udp_sockets = [], udp_client_addr = [],
     udp_next = 0, udp_users = [], udp_transfer_ul = 0, udp_transfer_dl = 0, udp_user_ul = [], udp_user_dl = [], udp_closed = False,
     udp_server_open = True, udp_sends = [], udp_trace = []\<rparr>"

lemma udp_example:
  "\<exists>r s'. udp_server_resolved udp_id_env 0 [] (''1.2.3.4'', 80) (Some ''1.2.3.4'') (''header-data'', (''10.0.0.1'', 999), None, 7) udp_start = (r, s')
     \<and> udp_reach s' \<and> udp_sockets s' = [0]"
proof -
  obtain r s' where r: "udp_server_resolved udp_id_env 0 [] (''1.2.3.4'', 80) (Some ''1.2.3.4'') (''header-data'', (''10.0.0.1'', 999), None, 7) udp_start = (r, s')"
    by (cases "udp_server_resolved udp_id_env 0 [] (''1.2.3.4'', 80) (Some ''1.2.3.4'') (''header-data'', (''10.0.0.1'', 999), None, 7) udp_start")
  have "udp_reach udp_start" by (rule udp_reach.start [of _ 60]) (simp_all add: udp_start_def)
  then have "udp_reach s'" using r by (rule udp_reach.resolved)
  moreover have b: "py_replace ''::ffff:'' [] [] = []" by code_simp
  have "udp_sockets s' = [0]"
    using r by (auto simp: udp_start_def udp_id_env_def udp_server_resolved_def udp_prepare_def find_client_def lru_get_def lru_getitem_def
        lru_new_def udp_bind_addr_def b keep_client_def lru_setitem_def touch_def send_prepared_def trim_caches_def then_udp_def
        clear_cache_def clear_cache_dns_def lru_clear_def clear_loop.simps close_gone_def udp_payload_def udp_emit_def
        udp_add_transfer_u_def is_dns_question_def Let_def)
  ultimately show ?thesis using r by blast
qed

theorem udp_sockets_tracked_witness:
  "\<exists>s :: unit udp_relay. udp_reach s \<and> udp_sockets s = [0] \<and> held (lookup (udp_cache s)) \<union> held (lookup (udp_cache_dns s)) = {0}"
proof -
  obtain s :: "unit udp_relay" where s: "udp_reach s" "udp_sockets s = [0]" using udp_example by blast
  then show ?thesis using udp_sockets_tracked [OF s(1)] by auto
qed

text \<open>Closing the relay raises nothing and leaves no socket of a client open.\<close>

theorem udp_close_closes_all:
  assumes "udp_reach s" and "udp_close False s = (r, s')"
  shows "r = Inr () \<and> udp_sockets s' = []"
  using udp_close_ok [OF udp_reach_ok [OF assms(1)], of False] assms(2) by auto

theorem udp_close_closes_all_witness:
  "\<exists>s s' :: unit udp_relay. udp_sockets s = [0] \<and> udp_close False s = (Inr (), s') \<and> udp_sockets s' = []"
proof -
  obtain s :: "unit udp_relay" where s: "udp_reach s" "udp_sockets s = [0]" using udp_example by blast
  obtain r s' where c: "udp_close False s = (r, s')" by (cases "udp_close False s")
  show ?thesis using udp_close_closes_all [OF s(1) c] s c by auto
qed

end
