(* ===== verification/Server_Pool.thy ===== *)
theory Server_Pool
  imports Tcp_Server Udp_Relay
begin

text \<open>
  \<^verbatim>\<open>server_pool.py\<close>: the relays of the ports that the process serves. A port has a TCP relay and a
  UDP relay for each family; their states are those of \<^verbatim>\<open>Tcp_Server\<close> and \<^verbatim>\<open>Udp_Relay\<close>, a TCP
  relay keeps its configuration beside. Dictionaries are association lists. Whether a socket can be
  opened is the result of the two functions of \<open>relay_maker\<close>, which stand for the constructors and
  \<^verbatim>\<open>add_to_loop\<close>. The event loop, its thread and log lines are left out.
\<close>

subsection \<open>Configurations\<close>

text \<open>The values of a configuration: texts, numbers, and the objects \<^verbatim>\<open>IPNetwork\<close> and
  \<^verbatim>\<open>PortRange\<close>, which compare by the text they were made of.\<close>

datatype setting =
    Text bytes
  | Number int
  | Ranges bytes

type_synonym config = "(bytes \<times> setting) list"

datatype relay_family = V4 | V6

record 'c relay_maker =
  make_tcp :: "relay_family \<Rightarrow> config \<Rightarrow> tcp_server res"
  make_udp :: "relay_family \<Rightarrow> config \<Rightarrow> 'c udp_relay res"

record 'c server_pool =
  pool_config :: config
  tcp_servers_pool :: "(int \<times> config \<times> tcp_server) list"
  tcp_ipv6_servers_pool :: "(int \<times> config \<times> tcp_server) list"
  udp_servers_pool :: "(int \<times> 'c udp_relay) list"
  udp_ipv6_servers_pool :: "(int \<times> 'c udp_relay) list"

definition in_pool :: "int \<Rightarrow> (int \<times> 'v) list \<Rightarrow> bool" where
  "in_pool port p \<longleftrightarrow> map_of p port \<noteq> None"

definition server_is_run :: "int \<Rightarrow> 'c server_pool \<Rightarrow> nat" where
  "server_is_run port s =
     (if in_pool port (tcp_servers_pool s) then 1 else 0) OR (if in_pool port (tcp_ipv6_servers_pool s) then 2 else 0)"

definition server_run_status :: "int \<Rightarrow> 'c server_pool \<Rightarrow> bool" where
  "server_run_status port s \<longleftrightarrow>
     (map_of (pool_config s) ''server'' \<noteq> None \<longrightarrow> in_pool port (tcp_servers_pool s))
     \<and> (map_of (pool_config s) ''server_ipv6'' \<noteq> None \<longrightarrow> in_pool port (tcp_ipv6_servers_pool s))"

subsection \<open>Starting and stopping\<close>

definition unbracket :: "bytes \<Rightarrow> bytes" where
  "unbracket v = (if length v > 2 \<and> hd v = CHR ''['' \<and> last v = CHR '']'' then butlast (tl v) else v)"

text \<open>The configuration of a new relay. Without a method, or with an IPv6 address that is no text, the
  exception leaves \<^verbatim>\<open>new_server\<close>.\<close>

definition relay_config :: "relay_family \<Rightarrow> int \<Rightarrow> config \<Rightarrow> config \<Rightarrow> config res" where
  "relay_config fam port user_config config =
     (let a = AList.merge config user_config;
          finish = (\<lambda>c. if map_of c ''method'' = None then Inl KeyError
                        else Inr (AList.update ''max_connect'' (Number 128) (AList.update ''server_port'' (Number port) c)))
      in case fam of
           V4 \<Rightarrow> finish a
         | V6 \<Rightarrow>
             (case map_of a ''server_ipv6'' of
                Some (Text v) \<Rightarrow>
                  finish (AList.update ''server'' (Text (unbracket v)) (AList.update ''server_ipv6'' (Text (unbracket v)) a))
              | _ \<Rightarrow> Inl TypeError))"

text \<open>The two relays of a family. An exception is logged; the TCP relay stays when the UDP relay fails.\<close>

definition start_relays :: "'c relay_maker \<Rightarrow> relay_family \<Rightarrow> int \<Rightarrow> config \<Rightarrow> 'c server_pool \<Rightarrow> 'c server_pool" where
  "start_relays M fam port cfg s =
     (case make_tcp M fam cfg of
        Inl _ \<Rightarrow> s
      | Inr t \<Rightarrow>
          (let s1 = (case fam of V4 \<Rightarrow> s\<lparr>tcp_servers_pool := AList.update port (cfg, t) (tcp_servers_pool s)\<rparr>
                     | V6 \<Rightarrow> s\<lparr>tcp_ipv6_servers_pool := AList.update port (cfg, t) (tcp_ipv6_servers_pool s)\<rparr>)
           in case make_udp M fam cfg of
                Inl _ \<Rightarrow> s1
              | Inr u \<Rightarrow>
                  (case fam of V4 \<Rightarrow> s1\<lparr>udp_servers_pool := AList.update port u (udp_servers_pool s1)\<rparr>
                   | V6 \<Rightarrow> s1\<lparr>udp_ipv6_servers_pool := AList.update port u (udp_ipv6_servers_pool s1)\<rparr>)))"

text \<open>The result tells whether the server was started; it is the text that the port is already
  running otherwise.\<close>

definition new_server_v4 :: "'c relay_maker \<Rightarrow> int \<Rightarrow> config \<Rightarrow> 'c server_pool \<Rightarrow> bool res \<times> 'c server_pool" where
  "new_server_v4 M port user_config s =
     (if map_of (pool_config s) ''server'' = None then (Inr True, s)
      else if in_pool port (tcp_servers_pool s) then (Inr False, s)
      else
        (case relay_config V4 port user_config (pool_config s) of
           Inl e \<Rightarrow> (Inl e, s)
         | Inr cfg \<Rightarrow> (Inr True, start_relays M V4 port cfg s)))"

definition new_server :: "'c relay_maker \<Rightarrow> int \<Rightarrow> config \<Rightarrow> 'c server_pool \<Rightarrow> bool res \<times> 'c server_pool" where
  "new_server M port user_config s =
     (if map_of (pool_config s) ''server_ipv6'' = None then new_server_v4 M port user_config s
      else if in_pool port (tcp_ipv6_servers_pool s) then (Inr False, s)
      else
        (case relay_config V6 port user_config (pool_config s) of
           Inl e \<Rightarrow> (Inl e, s)
         | Inr cfg \<Rightarrow> new_server_v4 M port user_config (start_relays M V6 port cfg s)))"

text \<open>Closing a relay with \<^verbatim>\<open>next_tick\<close> only sets a flag of the relay, which leaves the pool. The log
  lines read \<^verbatim>\<open>config['server']\<close>.\<close>

definition cb_del_server :: "int \<Rightarrow> 'c server_pool \<Rightarrow> unit res \<times> 'c server_pool" where
  "cb_del_server port s =
     (if map_of (pool_config s) ''server'' = None then (Inl KeyError, s)
      else
        (let s1 = (if in_pool port (tcp_servers_pool s)
                   then s\<lparr>tcp_servers_pool := AList.delete port (tcp_servers_pool s),
                          udp_servers_pool := AList.delete port (udp_servers_pool s)\<rparr>
                   else s)
         in (Inr (),
             if map_of (pool_config s) ''server_ipv6'' \<noteq> None \<and> in_pool port (tcp_ipv6_servers_pool s1)
             then s1\<lparr>tcp_ipv6_servers_pool := AList.delete port (tcp_ipv6_servers_pool s1),
                     udp_ipv6_servers_pool := AList.delete port (udp_ipv6_servers_pool s1)\<rparr>
             else s1)))"

subsection \<open>Users of a shared port\<close>

text \<open>\<^verbatim>\<open>update_users\<close> of the UDP relay\<close>

fun udp_add_users :: "(int \<times> user_cfg) list \<Rightarrow> 'c udp_relay \<Rightarrow> unit res \<times> 'c udp_relay" where
  "udp_add_users [] s = (Inr (), s)"
| "udp_add_users ((n, cfg) # users) s =
     (case pack_id n of Inl e \<Rightarrow> (Inl e, s) | Inr uid \<Rightarrow> udp_add_users users (udp_add_user uid (password cfg) s))"

definition udp_update_users :: "(int \<times> user_cfg) list \<Rightarrow> 'c udp_relay \<Rightarrow> unit res \<times> 'c udp_relay" where
  "udp_update_users users s =
     (let gone = filter (\<lambda>uid. int (le_val uid) \<notin> fst ` set users) (map fst (udp_users s))
      in udp_add_users users (fold udp_del_user gone s))"

text \<open>An exception is logged, and what was changed before it stays.\<close>

definition update_mu_users :: "time \<Rightarrow> int \<Rightarrow> (int \<times> user_cfg) list \<Rightarrow> 'c server_pool \<Rightarrow> 'c server_pool" where
  "update_mu_users now port users s =
     (let tcp = AList.map_entry port (\<lambda>(c, t). (c, snd (update_users now users t)));
          udp = AList.map_entry port (\<lambda>u. snd (udp_update_users users u));
          s1 = (if in_pool port (tcp_servers_pool s)
                then s\<lparr>tcp_servers_pool := tcp (tcp_servers_pool s), udp_servers_pool := udp (udp_servers_pool s)\<rparr> else s)
      in if in_pool port (tcp_ipv6_servers_pool s1)
         then s1\<lparr>tcp_ipv6_servers_pool := tcp (tcp_ipv6_servers_pool s1), udp_ipv6_servers_pool := udp (udp_ipv6_servers_pool s1)\<rparr>
         else s1)"

subsection \<open>Traffic\<close>

type_synonym transfers = "(int \<times> int \<times> int) list"

definition ud_of :: "('v \<Rightarrow> int \<times> int) \<Rightarrow> int \<Rightarrow> (int \<times> 'v) list \<Rightarrow> int \<times> int" where
  "ud_of f port p = (case map_of p port of None \<Rightarrow> (0, 0) | Some r \<Rightarrow> f r)"

definition get_server_transfer :: "int \<Rightarrow> 'c server_pool \<Rightarrow> int \<times> int" where
  "get_server_transfer port s =
     (let a = ud_of (get_ud \<circ> snd) port (tcp_servers_pool s);
          b = ud_of udp_get_ud port (udp_servers_pool s);
          c = ud_of (get_ud \<circ> snd) port (tcp_ipv6_servers_pool s);
          d = ud_of udp_get_ud port (udp_ipv6_servers_pool s)
      in (fst a + fst b + fst c + fst d, snd a + snd b + snd c + snd d))"

text \<open>The user ids of a relay are ports.\<close>

definition add_ud :: "int \<Rightarrow> int \<times> int \<Rightarrow> transfers \<Rightarrow> transfers" where
  "add_ud port ud t =
     (case map_of t port of
        None \<Rightarrow> AList.update port ud t
      | Some (u, d) \<Rightarrow> AList.update port (u + fst ud, d + snd ud) t)"

fun add_mu :: "(int \<Rightarrow> int \<times> int) \<Rightarrow> (bytes \<times> int) list \<Rightarrow> transfers \<Rightarrow> transfers res" where
  "add_mu f [] t = Inr t"
| "add_mu f ((uid, n) # us) t =
     (case unpack_le32 uid of Inl e \<Rightarrow> Inl e | Inr port \<Rightarrow> add_mu f us (add_ud (int port) (f n) t))"

definition update_mu_transfer :: "(bytes \<times> int) list \<times> (bytes \<times> int) list \<Rightarrow> transfers \<Rightarrow> transfers res" where
  "update_mu_transfer ud t = rbind (add_mu (\<lambda>n. (n, 0)) (fst ud) t) (add_mu (\<lambda>n. (0, n)) (snd ud))"

fun update_all_mu :: "((bytes \<times> int) list \<times> (bytes \<times> int) list) list \<Rightarrow> transfers \<Rightarrow> transfers res" where
  "update_all_mu [] t = Inr t"
| "update_all_mu (ud # uds) t = rbind (update_mu_transfer ud t) (update_all_mu uds)"

definition pool_ports :: "'c server_pool \<Rightarrow> int list" where
  "pool_ports s = remdups (map fst (tcp_servers_pool s) @ map fst (tcp_ipv6_servers_pool s)
     @ map fst (udp_servers_pool s) @ map fst (udp_ipv6_servers_pool s))"

definition mu_transfers :: "'c server_pool \<Rightarrow> ((bytes \<times> int) list \<times> (bytes \<times> int) list) list" where
  "mu_transfers s =
     map (get_users_ud \<circ> snd \<circ> snd) (tcp_servers_pool s) @ map (get_users_ud \<circ> snd \<circ> snd) (tcp_ipv6_servers_pool s)
     @ map (udp_get_users_ud \<circ> snd) (udp_servers_pool s) @ map (udp_get_users_ud \<circ> snd) (udp_ipv6_servers_pool s)"

definition get_servers_transfer :: "'c server_pool \<Rightarrow> transfers res" where
  "get_servers_transfer s =
     update_all_mu (mu_transfers s) (map (\<lambda>port. (port, get_server_transfer port s)) (pool_ports s))"

end
