(* ===== verification/Server_Pool_Proofs.thy ===== *)
theory Server_Pool_Proofs
  imports Server_Pool
begin

text \<open>
  The traffic that the pool reports is all that its relays have counted.
\<close>

subsection \<open>Sums of pairs\<close>

text \<open>A component of the pairs of traffic.\<close>

definition part :: "(int \<times> int \<Rightarrow> int) \<Rightarrow> bool" where
  "part h \<longleftrightarrow> h (0, 0) = 0 \<and> (\<forall>a b c d. h (a + c, b + d) = h (a, b) + h (c, d))"

lemma part_fst: "part fst" and part_snd: "part snd"
  by (simp_all add: part_def)

lemma part_0: "part h \<Longrightarrow> h (0, 0) = 0"
  and part_add: "part h \<Longrightarrow> h (a + c, b + d) = h (a, b) + h (c, d)"
  by (simp_all add: part_def)

definition total :: "(int \<times> int \<Rightarrow> int) \<Rightarrow> transfers \<Rightarrow> int" where
  "total h t = (\<Sum>p \<leftarrow> t. h (snd p))"

lemma total_ud_update:
  assumes "distinct (map fst t)" and "part h"
  shows "total h (AList.update k v t) = total h t - h (case map_of t k of None \<Rightarrow> (0, 0) | Some w \<Rightarrow> w) + h v"
  using assms(1)
proof (induction t)
  case (Cons p t)
  then show ?case by (cases p) (auto simp: total_def split: option.split dest: map_of_SomeD)
qed (simp add: total_def part_0 [OF assms(2)])

lemma distinct_add_ud: "distinct (map fst t) \<Longrightarrow> distinct (map fst (add_ud port ud t))"
  by (auto simp: add_ud_def distinct_update split: option.split)

lemma total_add_ud:
  assumes "distinct (map fst t)" and "part h"
  shows "total h (add_ud port ud t) = total h t + h ud"
proof (cases "map_of t port")
  case None
  then show ?thesis using total_ud_update [OF assms] part_0 [OF assms(2)] by (simp add: add_ud_def)
next
  case (Some w)
  then show ?thesis
    using total_ud_update [OF assms] part_add [OF assms(2), of "fst w" "fst ud" "snd w" "snd ud"]
    by (cases w) (simp add: add_ud_def)
qed

lemma add_mu_total:
  assumes "add_mu f us t = Inr t'" and "distinct (map fst t)" and "part h"
  shows "distinct (map fst t') \<and> total h t' = total h t + (\<Sum>p \<leftarrow> us. h (f (snd p)))"
  using assms(1,2)
proof (induction us arbitrary: t)
  case (Cons p us)
  obtain uid n where p: "p = (uid, n)" using prod.exhaust by blast
  then obtain port where port: "add_mu f us (add_ud (int port) (f n) t) = Inr t'"
    using Cons.prems(1) by (auto split: sum.splits)
  show ?case
    using Cons.IH [OF port distinct_add_ud [OF Cons.prems(2)]] total_add_ud [OF Cons.prems(2) assms(3)] p by simp
qed simp

lemma update_all_mu_total:
  assumes "update_all_mu uds t = Inr t'" and "distinct (map fst t)" and "part h"
  shows "distinct (map fst t') \<and> total h t' = total h t + (\<Sum>ud \<leftarrow> uds. (\<Sum>p \<leftarrow> fst ud. h (snd p, 0)) + (\<Sum>p \<leftarrow> snd ud. h (0, snd p)))"
  using assms(1,2)
proof (induction uds arbitrary: t)
  case (Cons ud uds)
  obtain t1 t2 where t: "add_mu (\<lambda>n. (n, 0)) (fst ud) t = Inr t1" "add_mu (\<lambda>n. (0, n)) (snd ud) t1 = Inr t2"
      "update_all_mu uds t2 = Inr t'"
    using Cons.prems(1) by (auto simp: update_mu_transfer_def rbind_eq_Inr)
  note a = add_mu_total [OF t(1) Cons.prems(2) assms(3)]
  note b = add_mu_total [OF t(2) conjunct1 [OF a] assms(3)]
  show ?case using a b Cons.IH [OF t(3) conjunct1 [OF b]] by simp
qed simp

text \<open>The sum over all ports of what a pool counts for a port.\<close>

lemma sum_ud_of:
  assumes "distinct (map fst p)" and "distinct ks" and "fst ` set p \<subseteq> set ks" and "part h"
  shows "(\<Sum>port \<leftarrow> ks. h (ud_of f port p)) = (\<Sum>e \<leftarrow> p. h (f (snd e)))"
  using assms(1,3)
proof (induction p)
  case Nil
  have "(\<Sum>port \<leftarrow> ks. h (0, 0)) = 0" using part_0 [OF assms(4)] by simp
  then show ?case by (simp add: ud_of_def)
next
  case (Cons e p)
  obtain k r where e: "e = (k, r)" using prod.exhaust by blast
  have k: "map_of p k = None" "k \<in> set ks" using Cons.prems e by (auto simp: map_of_eq_None_iff)
  have "h (ud_of f port (e # p)) = h (ud_of f port p) + (if port = k then h (f r) else 0)" for port
    using k(1) part_0 [OF assms(4)] by (simp add: e ud_of_def)
  then have "(\<Sum>port \<leftarrow> ks. h (ud_of f port (e # p))) = (\<Sum>port \<leftarrow> ks. h (ud_of f port p)) + (\<Sum>port \<leftarrow> ks. if port = k then h (f r) else 0)"
    by (simp add: sum_list_addf)
  moreover have "(\<Sum>port \<leftarrow> ks. if port = k then h (f r) else 0) = h (f r)"
    using assms(2) k(2) by (simp add: sum_list_distinct_conv_sum_set)
  ultimately show ?case using Cons.IH Cons.prems e by simp
qed

subsection \<open>The report is complete\<close>

definition udp_counted :: "'c udp_relay \<Rightarrow> int \<times> int" where
  "udp_counted s = (udp_transfer_ul s + total_of (udp_user_ul s), udp_transfer_dl s + total_of (udp_user_dl s))"

definition pool_ok :: "'c server_pool \<Rightarrow> bool" where
  "pool_ok s \<longleftrightarrow> distinct (map fst (tcp_servers_pool s)) \<and> distinct (map fst (tcp_ipv6_servers_pool s))
     \<and> distinct (map fst (udp_servers_pool s)) \<and> distinct (map fst (udp_ipv6_servers_pool s))"

definition pool_counted :: "'c server_pool \<Rightarrow> (int \<times> int) list" where
  "pool_counted s =
     map (counted \<circ> snd \<circ> snd) (tcp_servers_pool s) @ map (counted \<circ> snd \<circ> snd) (tcp_ipv6_servers_pool s)
     @ map (udp_counted \<circ> snd) (udp_servers_pool s) @ map (udp_counted \<circ> snd) (udp_ipv6_servers_pool s)"

lemma users_part:
  assumes "part h"
  shows "h (get_ud t) + ((\<Sum>p \<leftarrow> fst (get_users_ud t). h (snd p, 0)) + (\<Sum>p \<leftarrow> snd (get_users_ud t). h (0, snd p))) = h (counted t)"
    and "h (udp_get_ud u) + ((\<Sum>p \<leftarrow> fst (udp_get_users_ud u). h (snd p, 0)) + (\<Sum>p \<leftarrow> snd (udp_get_users_ud u). h (0, snd p)))
      = h (udp_counted u)"
proof -
  have l: "(\<Sum>p \<leftarrow> xs. h (snd p, 0)) = h (total_of xs, 0)" for xs :: "(bytes \<times> int) list"
    using part_add [OF assms, of _ _ 0 0] part_0 [OF assms] by (induction xs) (simp_all add: total_of_def)
  have r: "(\<Sum>p \<leftarrow> xs. h (0, snd p)) = h (0, total_of xs)" for xs :: "(bytes \<times> int) list"
    using part_add [OF assms, of 0 0] part_0 [OF assms] by (induction xs) (simp_all add: total_of_def)
  have c: "h (a, b) + (h (x, 0) + h (0, y)) = h (a + x, b + y)" for a b x y
    using part_add [OF assms, of a x b 0] part_add [OF assms, of "a + x" 0 b y] by simp
  show "h (get_ud t) + ((\<Sum>p \<leftarrow> fst (get_users_ud t). h (snd p, 0)) + (\<Sum>p \<leftarrow> snd (get_users_ud t). h (0, snd p))) = h (counted t)"
    by (simp add: get_ud_def get_users_ud_def counted_def l r c)
  show "h (udp_get_ud u) + ((\<Sum>p \<leftarrow> fst (udp_get_users_ud u). h (snd p, 0)) + (\<Sum>p \<leftarrow> snd (udp_get_users_ud u). h (0, snd p)))
      = h (udp_counted u)"
    by (simp add: udp_get_ud_def udp_get_users_ud_def udp_counted_def l r c)
qed

lemma own_transfers:
  assumes "pool_ok s" and "part h"
  shows "(\<Sum>port \<leftarrow> pool_ports s. h (get_server_transfer port s)) =
     (\<Sum>e \<leftarrow> tcp_servers_pool s. h (get_ud (snd (snd e)))) + (\<Sum>e \<leftarrow> tcp_ipv6_servers_pool s. h (get_ud (snd (snd e))))
     + ((\<Sum>e \<leftarrow> udp_servers_pool s. h (udp_get_ud (snd e))) + (\<Sum>e \<leftarrow> udp_ipv6_servers_pool s. h (udp_get_ud (snd e))))"
proof -
  let ?a = "\<lambda>port. ud_of (get_ud \<circ> snd) port (tcp_servers_pool s)" and ?b = "\<lambda>port. ud_of udp_get_ud port (udp_servers_pool s)"
    and ?c = "\<lambda>port. ud_of (get_ud \<circ> snd) port (tcp_ipv6_servers_pool s)" and ?d = "\<lambda>port. ud_of udp_get_ud port (udp_ipv6_servers_pool s)"
  have add: "h (fst a + fst b, snd a + snd b) = h a + h b" for a b
    using part_add [OF assms(2), of "fst a" "fst b" "snd a" "snd b"] by simp
  have "h (get_server_transfer port s) = h (?a port) + h (?c port) + (h (?b port) + h (?d port))" for port
    using add [of "?a port" "?b port"] add [of "(fst (?a port) + fst (?b port), snd (?a port) + snd (?b port))" "?c port"]
      add [of "(fst (?a port) + fst (?b port) + fst (?c port), snd (?a port) + snd (?b port) + snd (?c port))" "?d port"]
    by (simp add: get_server_transfer_def Let_def)
  then have "(\<Sum>port \<leftarrow> pool_ports s. h (get_server_transfer port s)) =
      (\<Sum>port \<leftarrow> pool_ports s. h (?a port)) + (\<Sum>port \<leftarrow> pool_ports s. h (?c port))
      + ((\<Sum>port \<leftarrow> pool_ports s. h (?b port)) + (\<Sum>port \<leftarrow> pool_ports s. h (?d port)))"
    by (simp add: sum_list_addf)
  moreover have d: "distinct (pool_ports s)" by (simp add: pool_ports_def)
  have "(\<Sum>port \<leftarrow> pool_ports s. h (?a port)) = (\<Sum>e \<leftarrow> tcp_servers_pool s. h ((get_ud \<circ> snd) (snd e)))"
    by (rule sum_ud_of [OF _ d _ assms(2)]) (use assms(1) in \<open>auto simp: pool_ok_def pool_ports_def\<close>)
  moreover have "(\<Sum>port \<leftarrow> pool_ports s. h (?c port)) = (\<Sum>e \<leftarrow> tcp_ipv6_servers_pool s. h ((get_ud \<circ> snd) (snd e)))"
    by (rule sum_ud_of [OF _ d _ assms(2)]) (use assms(1) in \<open>auto simp: pool_ok_def pool_ports_def\<close>)
  moreover have "(\<Sum>port \<leftarrow> pool_ports s. h (?b port)) = (\<Sum>e \<leftarrow> udp_servers_pool s. h (udp_get_ud (snd e)))"
    by (rule sum_ud_of [OF _ d _ assms(2)]) (use assms(1) in \<open>auto simp: pool_ok_def pool_ports_def\<close>)
  moreover have "(\<Sum>port \<leftarrow> pool_ports s. h (?d port)) = (\<Sum>e \<leftarrow> udp_ipv6_servers_pool s. h (udp_get_ud (snd e)))"
    by (rule sum_ud_of [OF _ d _ assms(2)]) (use assms(1) in \<open>auto simp: pool_ok_def pool_ports_def\<close>)
  ultimately show ?thesis by simp
qed

lemma sum_parts:
  fixes f :: "'a \<Rightarrow> int"
  assumes "\<And>e. f e + g (k e) = h (c e)"
  shows "(\<Sum>e \<leftarrow> xs. f e) + (\<Sum>u \<leftarrow> map k xs. g u) = (\<Sum>c \<leftarrow> map c xs. h c)"
  using sum_list_addf [of f "\<lambda>e. g (k e)" xs] by (simp add: comp_def assms)

lemma servers_transfer_part:
  assumes "pool_ok s" and "get_servers_transfer s = Inr t" and "part h"
  shows "distinct (map fst t) \<and> total h t = (\<Sum>c \<leftarrow> pool_counted s. h c)"
proof -
  let ?own = "map (\<lambda>port. (port, get_server_transfer port s)) (pool_ports s)"
  let ?mu = "\<lambda>ud. (\<Sum>p \<leftarrow> fst ud. h (snd p, 0)) + (\<Sum>p \<leftarrow> snd ud. h (0, snd p))"
  have "distinct (map fst ?own)" by (simp add: pool_ports_def comp_def)
  from update_all_mu_total [OF assms(2) [unfolded get_servers_transfer_def] this assms(3)]
  have 1: "distinct (map fst t)" "total h t = total h ?own + (\<Sum>ud \<leftarrow> mu_transfers s. ?mu ud)" by simp_all
  have own: "total h ?own = (\<Sum>port \<leftarrow> pool_ports s. h (get_server_transfer port s))" by (simp add: total_def comp_def)
  have T: "(\<Sum>e \<leftarrow> xs. h (get_ud (snd (snd e)))) + (\<Sum>ud \<leftarrow> map (get_users_ud \<circ> snd \<circ> snd) xs. ?mu ud)
      = (\<Sum>c \<leftarrow> map (counted \<circ> snd \<circ> snd) xs. h c)" for xs :: "(int \<times> config \<times> tcp_server) list"
    by (rule sum_parts) (simp add: users_part(1) [OF assms(3)])
  have U: "(\<Sum>e \<leftarrow> xs. h (udp_get_ud (snd e))) + (\<Sum>ud \<leftarrow> map (udp_get_users_ud \<circ> snd) xs. ?mu ud)
      = (\<Sum>c \<leftarrow> map (udp_counted \<circ> snd) xs. h c)" for xs :: "(int \<times> 'a udp_relay) list"
    by (rule sum_parts) (simp add: users_part(2) [OF assms(3)])
  show ?thesis
    using 1 own own_transfers [OF assms(1,3)] T [of "tcp_servers_pool s"] T [of "tcp_ipv6_servers_pool s"]
      U [of "udp_servers_pool s"] U [of "udp_ipv6_servers_pool s"]
    by (simp add: mu_transfers_def pool_counted_def del: map_map)
qed

text \<open>C25. What the pool reports as the traffic of its ports is complete: the upward and the downward
  sums over all ports are the sums of what all relays of the pool have counted, those of both families
  and both protocols, for the port itself and for the users of shared ports, each byte once.\<close>

theorem servers_transfer_complete:
  assumes "pool_ok s" and "get_servers_transfer s = Inr t"
  shows "distinct (map fst t) \<and> (\<Sum>p \<leftarrow> t. fst (snd p)) = (\<Sum>c \<leftarrow> pool_counted s. fst c)
    \<and> (\<Sum>p \<leftarrow> t. snd (snd p)) = (\<Sum>c \<leftarrow> pool_counted s. snd c)"
  using servers_transfer_part [OF assms part_fst] servers_transfer_part [OF assms part_snd]
  unfolding total_def by (intro conjI) blast+

text \<open>A pool of one shared port whose user 7 has traffic of 5 and 6 and whose own counters are 1 and 2.\<close>

definition example_tcp :: tcp_server where
  "example_tcp = \<lparr>listen_port = 80, server_transfer_ul = 1, server_transfer_dl = 2, server_users = [],
    server_users_cfg = [], server_user_transfer_ul = [(le32 7, 5)], server_user_transfer_dl = [(le32 7, 6)], mu = True,
    speed_testers_u = [], speed_testers_d = [], server_connections = 0, default_limit = None, timeout_cache = lru_new 60\<rparr>"

definition example_pool :: "unit server_pool" where
  "example_pool = \<lparr>pool_config = [(''server'', Text ''0.0.0.0''), (''method'', Text ''none'')],
    tcp_servers_pool = [(80, [], example_tcp)], tcp_ipv6_servers_pool = [], udp_servers_pool = [], udp_ipv6_servers_pool = []\<rparr>"

theorem servers_transfer_complete_witness:
  "\<exists>t. get_servers_transfer example_pool = Inr t \<and> map_of t 7 = Some (5, 6) \<and> (\<Sum>p \<leftarrow> t. fst (snd p)) = 6 \<and> (\<Sum>p \<leftarrow> t. snd (snd p)) = 8"
proof -
  have u: "unpack_le32 (le32 7) = Inr 7" by (rule unpack_codes(4)) simp
  obtain t where t: "get_servers_transfer example_pool = Inr t" "map_of t 7 = Some (5, 6)"
    by (simp add: get_servers_transfer_def example_pool_def mu_transfers_def pool_ports_def get_server_transfer_def ud_of_def
        get_ud_def get_users_ud_def example_tcp_def update_mu_transfer_def u add_ud_def)
  have "pool_ok example_pool" by (simp add: pool_ok_def example_pool_def)
  from servers_transfer_complete [OF this t(1)] show ?thesis
    using t by (intro exI [of _ t]) (simp add: pool_counted_def example_pool_def counted_def example_tcp_def total_of_def)
qed

end
