(* ===== verification/Transfer_Db.thy ===== *)
theory Transfer_Db
  imports Lru_Cache
begin

text \<open>
  The accounts of \<^verbatim>\<open>db_transfer.py\<close>: \<^verbatim>\<open>TransferBase.push_db_all_user\<close>, which finds out what
  each port has transferred since it was booked last, and \<^verbatim>\<open>update_all_user\<close> of the two kinds of
  databases, which books it: \<^verbatim>\<open>MuJsonTransfer\<close>, a file of rows, and \<^verbatim>\<open>DbTransfer\<close>, which
  books small amounts later. A pair holds what went up and what went down. Dictionaries are association
  lists, the set \<^verbatim>\<open>force_update_transfer\<close> a list.
\<close>

subsection \<open>State\<close>

type_synonym ud = "int \<times> int"

type_synonym accounts = "(int \<times> ud) list"

record transfer_base =
  last_get_transfer :: accounts
  last_update_transfer :: accounts
  force_update_transfer :: "int list"
  port_uid_table :: "(int \<times> int) list"
  onlineuser_cache :: "(int, int) lru"
  pull_ok :: bool
  mu_ports :: "(int \<times> bytes) list"

definition transfer_new :: transfer_base where
  "transfer_new = \<lparr>last_get_transfer = [], last_update_transfer = [], force_update_transfer = [], port_uid_table = [],
     onlineuser_cache = lru_new (60 * 30), pull_ok = False, mu_ports = []\<rparr>"

definition ud_sum :: "ud \<Rightarrow> int" where
  "ud_sum p = fst p + snd p"

definition ud_minus :: "ud \<Rightarrow> ud \<Rightarrow> ud" where
  "ud_minus p q = (fst p - fst q, snd p - snd q)"

definition ud_plus :: "ud \<Rightarrow> ud \<Rightarrow> ud" where
  "ud_plus p q = (fst p + fst q, snd p + snd q)"

subsection \<open>What is to be booked\<close>

text \<open>What a port that is to be forced has not been booked for.\<close>

definition forced_dt :: "transfer_base \<Rightarrow> accounts" where
  "forced_dt s =
     fold (\<lambda>port dt. case (map_of (last_get_transfer s) port, map_of (last_update_transfer s) port) of
         (Some g, Some l) \<Rightarrow> AList.update port (ud_minus g l) dt
       | _ \<Rightarrow> dt) (force_update_transfer s) []"

text \<open>The change of one port, if there is one: nothing when the two sums together have not grown.\<close>

definition new_dt :: "transfer_base \<Rightarrow> int \<times> ud \<Rightarrow> ud option" where
  "new_dt s e =
     (case e of (port, c) \<Rightarrow>
        if port \<in> set (force_update_transfer s) \<or> map_of (mu_ports s) port \<noteq> None then None
        else
          (case map_of (last_update_transfer s) port of
             Some l \<Rightarrow> if ud_sum c - ud_sum l \<le> 0 then None else Some (ud_minus c l)
           | None \<Rightarrow> if ud_sum c \<le> 0 then None else Some c))"

definition seen_online :: "transfer_base \<Rightarrow> int \<times> ud \<Rightarrow> bool" where
  "seen_online s e =
     (case e of (port, c) \<Rightarrow>
        (case map_of (last_get_transfer s) port of Some g \<Rightarrow> ud_sum c > ud_sum g | None \<Rightarrow> True))"

text \<open>The loop over the ports: the changes, and the cache of the users that are online.\<close>

fun push_scan :: "time \<Rightarrow> transfer_base \<Rightarrow> accounts \<Rightarrow> accounts \<Rightarrow> (int, int) lru \<Rightarrow> accounts \<times> (int, int) lru" where
  "push_scan now s [] dt c = (dt, c)"
| "push_scan now s (e # es) dt c =
     (case new_dt s e of
        None \<Rightarrow> push_scan now s es dt c
      | Some d \<Rightarrow>
          push_scan now s es (AList.update (fst e) d dt)
            (if seen_online s e then lru_setitem now (fst e) (ud_sum (snd e)) c else c))"

text \<open>What was booked is added to the books, but not for a forced port.\<close>

definition book :: "transfer_base \<Rightarrow> accounts \<Rightarrow> accounts \<Rightarrow> accounts" where
  "book s upd acc =
     fold (\<lambda>(port, d) l. if port \<in> set (force_update_transfer s) then l
        else AList.update port (ud_plus (case map_of l port of Some p \<Rightarrow> p | None \<Rightarrow> (0, 0)) d) l) upd acc"

text \<open>\<^verbatim>\<open>curr_transfer\<close> is what \<^verbatim>\<open>get_servers_transfer\<close> gives; \<open>upd\<close> is \<^verbatim>\<open>update_all_user\<close>
  on the database.\<close>

definition push_db_all_user :: "(transfer_base \<Rightarrow> accounts \<Rightarrow> 'd \<Rightarrow> accounts res \<times> 'd) \<Rightarrow> time \<Rightarrow> accounts
    \<Rightarrow> transfer_base \<times> 'd \<Rightarrow> unit res \<times> transfer_base \<times> 'd" where
  "push_db_all_user upd now curr_transfer sd =
     (case sd of (s, db) \<Rightarrow>
        if \<not> pull_ok s then (Inr (), s, db)
        else
          (case push_scan now s curr_transfer (forced_dt s) (onlineuser_cache s) of
             (dt, online) \<Rightarrow>
               (case lru_sweep now SWEEP_MAX_ITEMS online of
                  (Inl e, online') \<Rightarrow> (Inl e, s\<lparr>onlineuser_cache := online'\<rparr>, db)
                | (Inr _, online') \<Rightarrow>
                    (case upd (s\<lparr>onlineuser_cache := online'\<rparr>) dt db of
                       (Inl e, db') \<Rightarrow> (Inl e, s\<lparr>onlineuser_cache := online'\<rparr>, db')
                     | (Inr booked, db') \<Rightarrow>
                         (Inr (),
                          s\<lparr>onlineuser_cache := online',
                            last_update_transfer := fold AList.delete (force_update_transfer s) (book s booked (last_update_transfer s)),
                            last_get_transfer := fold AList.delete (force_update_transfer s) curr_transfer,
                            force_update_transfer := []\<rparr>, db')))))"

text \<open>A set has no \<^verbatim>\<open>del\<close>, so the method raises for a port that is in it.\<close>

definition clear_cache :: "int \<Rightarrow> transfer_base \<Rightarrow> unit res \<times> transfer_base" where
  "clear_cache port s =
     (if port \<in> set (force_update_transfer s) then (Inl TypeError, s)
      else (Inr (), s\<lparr>last_get_transfer := AList.delete port (last_get_transfer s),
                      last_update_transfer := AList.delete port (last_update_transfer s)\<rparr>))"

subsection \<open>The file of rows\<close>

text \<open>A row of the file \<^verbatim>\<open>mudb.json\<close> as far as accounts go; a key may be missing.\<close>

record mu_row =
  mr_port :: "int option"
  mr_u :: "int option"
  mr_d :: "int option"

fun mu_add :: "accounts \<Rightarrow> mu_row list \<Rightarrow> mu_row list res" where
  "mu_add dt [] = Inr []"
| "mu_add dt (r # rs) =
     (case (case mr_port r of None \<Rightarrow> None | Some p \<Rightarrow> map_of dt p) of
        None \<Rightarrow> rbind (mu_add dt rs) (\<lambda>rs'. Inr (r # rs'))
      | Some d \<Rightarrow>
          (case (mr_u r, mr_d r) of
             (Some u, Some v) \<Rightarrow> rbind (mu_add dt rs) (\<lambda>rs'. Inr (r\<lparr>mr_u := Some (u + fst d), mr_d := Some (v + snd d)\<rparr> # rs'))
           | _ \<Rightarrow> Inl KeyError))"

text \<open>\<^verbatim>\<open>MuJsonTransfer.update_all_user\<close>: the file is written after all rows have been read.\<close>

definition mujson_update :: "transfer_base \<Rightarrow> accounts \<Rightarrow> mu_row list \<Rightarrow> accounts res \<times> mu_row list" where
  "mujson_update s dt rows = (case mu_add dt rows of Inl e \<Rightarrow> (Inl e, rows) | Inr rows' \<Rightarrow> (Inr dt, rows'))"

subsection \<open>The SQL database\<close>

text \<open>\<^verbatim>\<open>DbTransfer\<close>: \<^verbatim>\<open>user_pass\<close> counts how often a port was passed over because its amount
  was small, and \<^verbatim>\<open>transfer_mul\<close> is the factor of the node, a float there and a rational number
  here. Whether the connection can be made, which \<^verbatim>\<open>Dbv3Transfer\<close> does first, and whether the
  statement and the commit succeed is given.\<close>

record sql_db =
  user_pass :: "(int \<times> int) list"
  transfer_mul :: rat
  sql_books :: "int \<Rightarrow> ud"

definition pass_of :: "int \<Rightarrow> (int \<times> int) list \<Rightarrow> int" where
  "pass_of port p = (case map_of p port of None \<Rightarrow> 0 | Some n \<Rightarrow> n)"

definition update_trs :: "int \<Rightarrow> (int \<times> int) list \<Rightarrow> int" where
  "update_trs port p = 1024 * (2048 - pass_of port p * 64)"

fun sql_select :: "int list \<Rightarrow> accounts \<Rightarrow> (int \<times> int) list \<Rightarrow> accounts \<times> (int \<times> int) list" where
  "sql_select forced [] p = ([], p)"
| "sql_select forced ((port, t) # dt) p =
     (if ud_sum t < update_trs port p \<and> port \<notin> set forced
      then sql_select forced dt (AList.update port (pass_of port p + 1) p)
      else (case sql_select forced dt (AList.delete port p) of (ts, p') \<Rightarrow> ((port, t) # ts, p')))"

text \<open>\<^verbatim>\<open>int()\<close> cuts towards zero.\<close>

definition py_trunc :: "rat \<Rightarrow> int" where
  "py_trunc x = (if x < 0 then - floor (- x) else floor x)"

definition sql_book :: "rat \<Rightarrow> accounts \<Rightarrow> (int \<Rightarrow> ud) \<Rightarrow> int \<Rightarrow> ud" where
  "sql_book m ts b = (\<lambda>port. case map_of ts port of None \<Rightarrow> b port
     | Some t \<Rightarrow> ud_plus (b port) (py_trunc (of_int (fst t) * m), py_trunc (of_int (snd t) * m)))"

datatype sql_outcome =
    Works
  | StatementFails
  | ConnectFails

definition sql_update :: "sql_outcome \<Rightarrow> transfer_base \<Rightarrow> accounts \<Rightarrow> sql_db \<Rightarrow> accounts res \<times> sql_db" where
  "sql_update sql s dt db =
     (case sql_select (force_update_transfer s) dt (user_pass db) of
        (ts, p) \<Rightarrow>
          (if ts = [] then (Inr ts, db\<lparr>user_pass := p\<rparr>)
           else
             (case sql of
                Works \<Rightarrow> (Inr ts, db\<lparr>user_pass := p, sql_books := sql_book (transfer_mul db) ts (sql_books db)\<rparr>)
              | StatementFails \<Rightarrow> (Inr [], db\<lparr>user_pass := p\<rparr>)
              | ConnectFails \<Rightarrow> (Inl OSError, db\<lparr>user_pass := p\<rparr>))))"

text \<open>\<^verbatim>\<open>Dbv3Transfer\<close> passes over small amounts of forced ports as well, and reports what it chose
  whether the statement succeeds or not. Its log of the node is left out.\<close>

definition sqlv3_update :: "sql_outcome \<Rightarrow> transfer_base \<Rightarrow> accounts \<Rightarrow> sql_db \<Rightarrow> accounts res \<times> sql_db" where
  "sqlv3_update sql s dt db =
     (if sql = ConnectFails then (Inl OSError, db)
      else
        (case sql_select [] dt (user_pass db) of
           (ts, p) \<Rightarrow>
             (Inr ts, db\<lparr>user_pass := p,
                sql_books := (if ts \<noteq> [] \<and> sql = Works then sql_book (transfer_mul db) ts (sql_books db) else sql_books db)\<rparr>)))"

end
