(* ===== verification/Transfer_Proofs.thy ===== *)
theory Transfer_Proofs
  imports Transfer_Db
begin

text \<open>
  What is booked is what was transferred: with the file of rows every growth of a port's counters is
  added to its row exactly once.
\<close>

subsection \<open>The tables after a call\<close>

lemma push_scan_dt:
  assumes "distinct (map fst es)"
  shows "map_of (fst (push_scan now s es dt c)) p =
    (case map_of es p of
       None \<Rightarrow> map_of dt p
     | Some x \<Rightarrow> (case new_dt s (p, x) of None \<Rightarrow> map_of dt p | Some d \<Rightarrow> Some d))"
  using assms
proof (induction es arbitrary: dt c)
  case (Cons e es)
  obtain q x where e: "e = (q, x)" using prod.exhaust by blast
  have q: "map_of es q = None" using Cons.prems e by (simp add: map_of_eq_None_iff)
  show ?case
  proof (cases "new_dt s e")
    case None
    then show ?thesis using Cons q e by (cases "p = q") simp_all
  next
    case (Some d)
    then show ?thesis using Cons q e by (cases "p = q") (simp_all add: update_conv' split: option.split)
  qed
qed simp

lemma push_scan_distinct: "distinct (map fst dt) \<Longrightarrow> distinct (map fst (fst (push_scan now s es dt c)))"
proof (induction es arbitrary: dt c)
  case (Cons e es)
  then show ?case by (cases "new_dt s e") (simp_all add: distinct_update)
qed simp

lemma push_scan_lru: "lru_ok c \<Longrightarrow> lru_ok (snd (push_scan now s es dt c))"
proof (induction es arbitrary: dt c)
  case (Cons e es)
  then show ?case by (cases "new_dt s e") (simp_all add: lru_ok_setitem)
qed simp

definition owed :: "transfer_base \<Rightarrow> int \<Rightarrow> ud option" where
  "owed s p = (case (map_of (last_get_transfer s) p, map_of (last_update_transfer s) p) of
       (Some g, Some l) \<Rightarrow> Some (ud_minus g l) | _ \<Rightarrow> None)"

lemma forced_fold:
  "map_of (fold (\<lambda>port dt. case (map_of (last_get_transfer s) port, map_of (last_update_transfer s) port) of
         (Some g, Some l) \<Rightarrow> AList.update port (ud_minus g l) dt | _ \<Rightarrow> dt) fs dt) p
     = (if p \<in> set fs \<and> owed s p \<noteq> None then owed s p else map_of dt p)
   \<and> (distinct (map fst dt) \<longrightarrow> distinct (map fst (fold (\<lambda>port dt. case (map_of (last_get_transfer s) port, map_of (last_update_transfer s) port) of
         (Some g, Some l) \<Rightarrow> AList.update port (ud_minus g l) dt | _ \<Rightarrow> dt) fs dt)))"
  by (induction fs arbitrary: dt) (auto simp: owed_def update_conv' distinct_update simp del: split_paired_All split_paired_Ex split: option.splits)

lemma forced_dt_of:
  "map_of (forced_dt s) p = (if p \<in> set (force_update_transfer s) then owed s p else None)"
  "distinct (map fst (forced_dt s))"
  using forced_fold [of s "force_update_transfer s" "[]" p] by (cases "owed s p", simp_all add: forced_dt_def)

lemma book_of:
  assumes "distinct (map fst upd)"
  shows "map_of (book s upd l) p =
    (case map_of upd p of
       None \<Rightarrow> map_of l p
     | Some d \<Rightarrow> if p \<in> set (force_update_transfer s) then map_of l p
                 else Some (ud_plus (case map_of l p of Some x \<Rightarrow> x | None \<Rightarrow> (0, 0)) d))"
  using assms
proof (induction upd arbitrary: l)
  case (Cons e upd)
  obtain q d where e: "e = (q, d)" using prod.exhaust by blast
  have q: "map_of upd q = None" using Cons.prems e by (simp add: map_of_eq_None_iff)
  show ?case using Cons q e by (cases "p = q") (auto simp: book_def update_conv' split: option.split)
qed (simp add: book_def)

lemma fold_delete_of: "map_of (fold AList.delete fs l) p = (if p \<in> set fs then None else map_of l p)"
  by (induction fs arbitrary: l) (auto simp: delete_conv')

subsection \<open>The rows\<close>

definition rows_ok :: "mu_row list \<Rightarrow> bool" where
  "rows_ok rows \<longleftrightarrow> (\<forall>r \<in> set rows. mr_u r \<noteq> None \<and> mr_d r \<noteq> None)"

definition row_ud :: "mu_row list \<Rightarrow> int \<Rightarrow> ud option" where
  "row_ud rows p =
     (case find (\<lambda>r. mr_port r = Some p) rows of
        None \<Rightarrow> None
      | Some r \<Rightarrow> (case (mr_u r, mr_d r) of (Some u, Some d) \<Rightarrow> Some (u, d) | _ \<Rightarrow> None))"

lemma mu_add_rows:
  assumes "rows_ok rows"
  shows "\<exists>rows'. mu_add dt rows = Inr rows' \<and> rows_ok rows' \<and> length rows' = length rows
    \<and> (\<forall>p. row_ud rows' p = map_option (\<lambda>b. ud_plus b (case map_of dt p of None \<Rightarrow> (0, 0) | Some d \<Rightarrow> d)) (row_ud rows p))"
  using assms
proof (induction rows)
  case (Cons r rs)
  obtain u v where uv: "mr_u r = Some u" "mr_d r = Some v" using Cons.prems by (auto simp: rows_ok_def)
  have "rows_ok rs" using Cons.prems by (simp add: rows_ok_def)
  then obtain rs' where rs': "mu_add dt rs = Inr rs'" "rows_ok rs'" "length rs' = length rs"
      "\<And>p. row_ud rs' p = map_option (\<lambda>b. ud_plus b (case map_of dt p of None \<Rightarrow> (0, 0) | Some d \<Rightarrow> d)) (row_ud rs p)"
    using Cons.IH by blast
  define d where "d = (case mr_port r of None \<Rightarrow> None | Some p \<Rightarrow> map_of dt p)"
  define r' where "r' = (case d of None \<Rightarrow> r | Some d \<Rightarrow> r\<lparr>mr_u := Some (u + fst d), mr_d := Some (v + snd d)\<rparr>)"
  have "mu_add dt (r # rs) = Inr (r' # rs')"
    using rs'(1) uv by (cases d) (simp_all add: d_def [symmetric] r'_def)
  moreover have "rows_ok (r' # rs')" using rs'(2) uv by (cases d) (simp_all add: rows_ok_def r'_def)
  moreover have "row_ud (r' # rs') p = map_option (\<lambda>b. ud_plus b (case map_of dt p of None \<Rightarrow> (0, 0) | Some d \<Rightarrow> d)) (row_ud (r # rs) p)" for p
  proof (cases "mr_port r = Some p")
    case True
    then have "d = map_of dt p" by (simp add: d_def)
    then show ?thesis using True uv by (cases "map_of dt p") (simp_all add: row_ud_def r'_def ud_plus_def)
  next
    case False
    moreover have "mr_port r' = mr_port r" by (cases d) (simp_all add: r'_def)
    ultimately show ?thesis using rs'(4) [of p] by (simp add: row_ud_def)
  qed
  ultimately show ?case using rs'(3) by auto
qed (simp add: rows_ok_def row_ud_def)

subsection \<open>One call\<close>

text \<open>What a call books for a port.\<close>

definition booked :: "transfer_base \<Rightarrow> accounts \<Rightarrow> int \<Rightarrow> ud option" where
  "booked s cur p =
     (if p \<in> set (force_update_transfer s) then owed s p
      else case map_of cur p of None \<Rightarrow> None | Some c \<Rightarrow> new_dt s (p, c))"

definition base_of :: "transfer_base \<Rightarrow> int \<Rightarrow> ud" where
  "base_of s p = (case map_of (last_update_transfer s) p of Some x \<Rightarrow> x | None \<Rightarrow> (0, 0))"

text \<open>What every kind of database is asked to book, and what becomes of its answer.\<close>

lemma push_with:
  assumes "pull_ok s" and "lru_ok (onlineuser_cache s)" and "distinct (map fst cur)"
  shows "\<exists>dt online'. distinct (map fst dt) \<and> (\<forall>p. map_of dt p = booked s cur p) \<and> lru_ok online'
    \<and> (\<forall>bk db'. upd (s\<lparr>onlineuser_cache := online'\<rparr>) dt db = (Inr bk, db') \<longrightarrow>
         push_db_all_user upd now cur (s, db) = (Inr (), s\<lparr>onlineuser_cache := online',
           last_update_transfer := fold AList.delete (force_update_transfer s) (book s bk (last_update_transfer s)),
           last_get_transfer := fold AList.delete (force_update_transfer s) cur, force_update_transfer := []\<rparr>, db'))"
proof -
  obtain dt online where sc: "push_scan now s cur (forced_dt s) (onlineuser_cache s) = (dt, online)" using prod.exhaust by blast
  have dt: "map_of dt p = booked s cur p" for p
    using push_scan_dt [OF assms(3), of now s "forced_dt s" "onlineuser_cache s" p] sc forced_dt_of(1) [of s p]
    by (auto simp: booked_def new_dt_def split: option.splits)
  have dd: "distinct (map fst dt)"
    using push_scan_distinct [OF forced_dt_of(2), of now s cur s "onlineuser_cache s"] sc by simp
  have "lru_ok online" using push_scan_lru [OF assms(2), of now s cur "forced_dt s"] sc by simp
  from sweep_loop_spec [OF this, of now SWEEP_MAX_ITEMS "[]"]
  obtain b online' where sw: "lru_sweep now SWEEP_MAX_ITEMS online = (Inr b, online')" "lru_ok online'"
    by (auto simp: lru_sweep_def)
  show ?thesis
    by (rule exI [of _ dt], rule exI [of _ online']) (use assms(1) sc sw dt dd in \<open>simp add: push_db_all_user_def\<close>)
qed

lemma push_mujson:
  assumes "pull_ok s" and "lru_ok (onlineuser_cache s)" and "rows_ok rows" and "distinct (map fst cur)"
  shows "\<exists>s' rows'. push_db_all_user mujson_update now cur (s, rows) = (Inr (), s', rows')
    \<and> pull_ok s' \<and> lru_ok (onlineuser_cache s') \<and> rows_ok rows' \<and> force_update_transfer s' = [] \<and> mu_ports s' = mu_ports s
    \<and> (\<forall>p. row_ud rows' p = map_option (\<lambda>b. ud_plus b (case booked s cur p of None \<Rightarrow> (0, 0) | Some d \<Rightarrow> d)) (row_ud rows p))
    \<and> (\<forall>p. map_of (last_update_transfer s') p =
         (if p \<in> set (force_update_transfer s) then None
          else case booked s cur p of
                 None \<Rightarrow> map_of (last_update_transfer s) p
               | Some d \<Rightarrow> Some (ud_plus (base_of s p) d)))
    \<and> (\<forall>p. map_of (last_get_transfer s') p = (if p \<in> set (force_update_transfer s) then None else map_of cur p))"
proof -
  obtain dt online' where dd: "distinct (map fst dt)" and dt: "\<forall>p. map_of dt p = booked s cur p" and on: "lru_ok online'"
    and push: "\<forall>bk db'. mujson_update (s\<lparr>onlineuser_cache := online'\<rparr>) dt rows = (Inr bk, db') \<longrightarrow>
         push_db_all_user mujson_update now cur (s, rows) = (Inr (), s\<lparr>onlineuser_cache := online',
           last_update_transfer := fold AList.delete (force_update_transfer s) (book s bk (last_update_transfer s)),
           last_get_transfer := fold AList.delete (force_update_transfer s) cur, force_update_transfer := []\<rparr>, db')"
    using push_with [OF assms(1,2,4), of mujson_update rows now] by (elim exE conjE) (rule that)
  obtain rows' where r: "mu_add dt rows = Inr rows'" "rows_ok rows'"
      "\<And>p. row_ud rows' p = map_option (\<lambda>b. ud_plus b (case map_of dt p of None \<Rightarrow> (0, 0) | Some d \<Rightarrow> d)) (row_ud rows p)"
    using mu_add_rows [OF assms(3), of dt] by blast
  have "mujson_update (s\<lparr>onlineuser_cache := online'\<rparr>) dt rows = (Inr dt, rows')" using r(1) by (simp add: mujson_update_def)
  note step = push [rule_format, OF this]
  show ?thesis
    by (rule exI, rule exI, rule conjI [OF step])
       (use assms(1) on r(2,3) dt in \<open>simp add: fold_delete_of book_of [OF dd] base_of_def split: option.split\<close>)
qed

subsection \<open>Runs\<close>

fun push_all :: "(transfer_base \<Rightarrow> accounts \<Rightarrow> 'd \<Rightarrow> accounts res \<times> 'd) \<Rightarrow> (time \<times> accounts) list
    \<Rightarrow> transfer_base \<times> 'd \<Rightarrow> unit res \<times> transfer_base \<times> 'd" where
  "push_all upd [] sd = (Inr (), sd)"
| "push_all upd ((now, cur) # es) sd =
     (case push_db_all_user upd now cur sd of
        (Inl e, sd') \<Rightarrow> (Inl e, sd')
      | (Inr _, sd') \<Rightarrow> push_all upd es sd')"

text \<open>The counters of a port over a run, where they are reported.\<close>

definition counters :: "int \<Rightarrow> (time \<times> accounts) list \<Rightarrow> ud list" where
  "counters p es = List.map_filter (\<lambda>(now, cur). map_of cur p) es"

definition ud_le :: "ud \<Rightarrow> ud \<Rightarrow> bool" where
  "ud_le a b \<longleftrightarrow> fst a \<le> fst b \<and> snd a \<le> snd b"

fun growing :: "ud list \<Rightarrow> bool" where
  "growing [] = True"
| "growing [a] = True"
| "growing (a # b # l) \<longleftrightarrow> ud_le a b \<and> growing (b # l)"

lemma booked_growth:
  assumes "p \<notin> set (force_update_transfer s)" and "map_of (mu_ports s) p = None"
    and "map_of cur p = Some c" and "ud_le (base_of s p) c"
  shows "ud_plus b (case booked s cur p of None \<Rightarrow> (0, 0) | Some d \<Rightarrow> d) = ud_plus b (ud_minus c (base_of s p))"
    and "(case booked s cur p of None \<Rightarrow> map_of (last_update_transfer s) p
          | Some d \<Rightarrow> Some (ud_plus (base_of s p) d)) = (if map_of (last_update_transfer s) p = None \<and> c = (0, 0) then None else Some c)"
proof -
  obtain u d where c: "c = (u, d)" using prod.exhaust by blast
  show "ud_plus b (case booked s cur p of None \<Rightarrow> (0, 0) | Some d \<Rightarrow> d) = ud_plus b (ud_minus c (base_of s p))"
    using assms unfolding c by (auto simp: booked_def new_dt_def base_of_def ud_le_def ud_sum_def ud_minus_def ud_plus_def split: option.splits)
  show "(case booked s cur p of None \<Rightarrow> map_of (last_update_transfer s) p
          | Some d \<Rightarrow> Some (ud_plus (base_of s p) d)) = (if map_of (last_update_transfer s) p = None \<and> c = (0, 0) then None else Some c)"
    using assms unfolding c by (auto simp: booked_def new_dt_def base_of_def ud_le_def ud_sum_def ud_minus_def ud_plus_def split: option.splits)
qed

lemma push_all_billed:
  assumes "pull_ok s" and "lru_ok (onlineuser_cache s)" and "rows_ok rows" and "\<forall>e \<in> set es. distinct (map fst (snd e))"
    and "p \<notin> set (force_update_transfer s)" and "map_of (mu_ports s) p = None"
    and "growing (base_of s p # counters p es)" and "row_ud rows p = Some b"
  shows "\<exists>s' rows'. push_all mujson_update es (s, rows) = (Inr (), s', rows')
    \<and> row_ud rows' p = Some (ud_plus b (ud_minus (last (base_of s p # counters p es)) (base_of s p)))"
  using assms
proof (induction es arbitrary: s rows b)
  case Nil
  then show ?case by (cases b) (simp add: counters_def ud_plus_def ud_minus_def List.map_filter_simps)
next
  case (Cons e es)
  obtain now cur where e: "e = (now, cur)" using prod.exhaust by blast
  have d: "distinct (map fst cur)" using Cons.prems(4) e by simp
  obtain s' rows' where step: "push_db_all_user mujson_update now cur (s, rows) = (Inr (), s', rows')"
      "pull_ok s'" "lru_ok (onlineuser_cache s')" "rows_ok rows'" "force_update_transfer s' = []" "mu_ports s' = mu_ports s"
    and rows: "\<forall>p. row_ud rows' p = map_option (\<lambda>b. ud_plus b (case booked s cur p of None \<Rightarrow> (0, 0) | Some d \<Rightarrow> d)) (row_ud rows p)"
    and upds: "\<forall>p. map_of (last_update_transfer s') p =
         (if p \<in> set (force_update_transfer s) then None
          else case booked s cur p of
                 None \<Rightarrow> map_of (last_update_transfer s) p
               | Some d \<Rightarrow> Some (ud_plus (base_of s p) d))"
    using push_mujson [OF Cons.prems(1-3) d, of now] by (elim exE conjE) (rule that)
  note row = rows [rule_format, of p]
  have upd: "map_of (last_update_transfer s') p =
      (case booked s cur p of None \<Rightarrow> map_of (last_update_transfer s) p | Some d \<Rightarrow> Some (ud_plus (base_of s p) d))"
    using upds [rule_format, of p] Cons.prems(5) by simp
  have rest: "\<forall>e \<in> set es. distinct (map fst (snd e))" "p \<notin> set (force_update_transfer s')" "map_of (mu_ports s') p = None"
    using Cons.prems(4,6) step(5,6) by simp_all
  show ?case
  proof (cases "map_of cur p")
    case None
    then have n: "booked s cur p = None" using Cons.prems(5) by (simp add: booked_def)
    have c: "counters p (e # es) = counters p es" using None e by (simp add: counters_def List.map_filter_simps)
    have b': "base_of s' p = base_of s p" using upd n by (simp add: base_of_def)
    have "row_ud rows' p = Some b" using row n Cons.prems(8) by (cases b) (simp add: ud_plus_def)
    from Cons.IH [OF step(2-4) rest _ this] show ?thesis using Cons.prems(7) step(1) e unfolding c b' by simp
  next
    case (Some c)
    have cs: "counters p (e # es) = c # counters p es" using Some e by (simp add: counters_def List.map_filter_simps)
    have g: "ud_le (base_of s p) c" "growing (c # counters p es)" using Cons.prems(7) unfolding cs by simp_all
    note bg = booked_growth [OF Cons.prems(5,6) Some g(1)]
    have b': "base_of s' p = c" using upd unfolding bg(2) by (auto simp: base_of_def)
    have "row_ud rows' p = Some (ud_plus b (ud_minus c (base_of s p)))" using row Cons.prems(8) bg(1) by simp
    from Cons.IH [OF step(2-4) rest _ this] obtain s2 rows2 where
        2: "push_all mujson_update es (s', rows') = (Inr (), s2, rows2)"
        "row_ud rows2 p = Some (ud_plus (ud_plus b (ud_minus c (base_of s p))) (ud_minus (last (c # counters p es)) c))"
      using g(2) unfolding b' by blast
    have "ud_plus (ud_plus b (ud_minus c x)) (ud_minus y c) = ud_plus b (ud_minus y x)" for x y
      by (simp add: ud_plus_def ud_minus_def)
    then show ?thesis using 2 step(1) e unfolding cs by simp
  qed
qed

text \<open>C24. Every byte is booked exactly once. With a file whose rows have their amounts, for a port that has a
  row, is not shared and was not stopped since the last call, every run of calls returns, and the row
  grows by just as much as the port's counters have grown from what had been booked to the last report,
  whatever the other ports do, if a port's counters only grow. From a fresh start that is the last report.\<close>

theorem billing_exact:
  assumes "pull_ok s" and "lru_ok (onlineuser_cache s)" and "rows_ok rows" and "\<forall>e \<in> set es. distinct (map fst (snd e))"
    and "p \<notin> set (force_update_transfer s)" and "map_of (mu_ports s) p = None"
    and "growing (base_of s p # counters p es)" and "row_ud rows p = Some b"
  shows "\<exists>s' rows'. push_all mujson_update es (s, rows) = (Inr (), s', rows')
    \<and> row_ud rows' p = Some (ud_plus b (ud_minus (last (base_of s p # counters p es)) (base_of s p)))"
  by (rule push_all_billed [OF assms])

text \<open>Three calls: port 7 reports (5, 1), nothing, and (9, 4); its row has (100, 200) before.\<close>

theorem billing_exact_witness:
  "\<exists>s' rows'. push_all mujson_update [(1, [(7, 5, 1), (8, 3, 3)]), (2, [(8, 4, 4)]), (3, [(7, 9, 4)])]
       (transfer_new\<lparr>pull_ok := True\<rparr>, [\<lparr>mr_port = Some 7, mr_u = Some 100, mr_d = Some 200\<rparr>]) = (Inr (), s', rows')
     \<and> row_ud rows' 7 = Some (109, 204)"
proof -
  let ?s = "transfer_new\<lparr>pull_ok := True\<rparr>" and ?rows = "[\<lparr>mr_port = Some 7, mr_u = Some 100, mr_d = Some 200\<rparr>]"
  let ?es = "[(1, [(7, 5, 1), (8, 3, 3)]), (2, [(8, 4, 4)]), (3, [(7, 9, 4)])] :: (time \<times> accounts) list"
  have c: "counters 7 ?es = [(5, 1), (9, 4)]" by (simp add: counters_def List.map_filter_simps)
  have b: "base_of ?s 7 = (0, 0)" by (simp add: base_of_def transfer_new_def)
  have "\<exists>s' rows'. push_all mujson_update ?es (?s, ?rows) = (Inr (), s', rows')
    \<and> row_ud rows' 7 = Some (ud_plus (100, 200) (ud_minus (last (base_of ?s 7 # counters 7 ?es)) (base_of ?s 7)))"
    by (rule billing_exact) (use b c in \<open>simp_all add: ud_le_def\<close>, simp_all add: transfer_new_def rows_ok_def row_ud_def)
  then show ?thesis unfolding b c by (simp add: ud_plus_def ud_minus_def)
qed

text \<open>A port that was stopped starts its books anew: what it was owed is booked in the next call, and its
  counters then count from zero.\<close>

theorem restart_books_anew:
  assumes "pull_ok s" and "lru_ok (onlineuser_cache s)" and "rows_ok rows" and "distinct (map fst cur)"
    and "p \<in> set (force_update_transfer s)" and "row_ud rows p = Some b"
  shows "\<exists>s' rows'. push_db_all_user mujson_update now cur (s, rows) = (Inr (), s', rows')
    \<and> row_ud rows' p = Some (ud_plus b (case owed s p of None \<Rightarrow> (0, 0) | Some d \<Rightarrow> d)) \<and> base_of s' p = (0, 0)"
  using push_mujson [OF assms(1-4), of now] assms(5,6)
  by (elim exE conjE) (intro exI conjI, assumption, simp_all add: booked_def base_of_def)

text \<open>The method that forgets a port's books raises for a port that is to be forced.\<close>

theorem clear_cache_forced:
  "fst (clear_cache p s) = (if p \<in> set (force_update_transfer s) then Inl TypeError else Inr ())"
  by (simp add: clear_cache_def)

subsection \<open>The SQL databases\<close>

lemma sql_select_of:
  assumes "distinct (map fst dt)"
  shows "map_of (fst (sql_select forced dt up)) p =
    (case map_of dt p of None \<Rightarrow> None
     | Some t \<Rightarrow> if ud_sum t < update_trs p up \<and> p \<notin> set forced then None else Some t)"
  using assms
proof (induction dt arbitrary: up)
  case (Cons e dt)
  obtain q t where e: "e = (q, t)" using prod.exhaust by blast
  have q: "map_of dt q = None" using Cons.prems e by (simp add: map_of_eq_None_iff)
  have same: "p \<noteq> q \<Longrightarrow> update_trs p (AList.update q n up) = update_trs p up"
    "p \<noteq> q \<Longrightarrow> update_trs p (AList.delete q up) = update_trs p up" for n
    by (simp_all add: update_trs_def pass_of_def update_conv' delete_conv')
  show ?case using Cons q e same by (cases "p = q") (auto simp: case_prod_beta split: option.split)
qed simp

text \<open>Small amounts wait, but not for ever: what was passed over 32 times is booked by the next call,
  however small it is.\<close>

theorem passed_over_at_most_32:
  assumes "distinct (map fst dt)" and "map_of dt p = Some t" and "0 \<le> ud_sum t" and "32 \<le> pass_of p up"
  shows "map_of (fst (sql_select forced dt up)) p = Some t"
  using assms(2-4) by (simp add: sql_select_of [OF assms(1)] update_trs_def)

text \<open>A statement that fails: \<^verbatim>\<open>DbTransfer\<close> reports nothing as booked, so the amounts stay open;
  \<^verbatim>\<open>Dbv3Transfer\<close> reports all it chose, so they are lost. Neither changes the database.\<close>

theorem failed_statement:
  "sql_books (snd (sql_update StatementFails s dt db)) = sql_books db \<and> fst (sql_update StatementFails s dt db) = Inr []"
  "sql_books (snd (sqlv3_update StatementFails s dt db)) = sql_books db
   \<and> fst (sqlv3_update StatementFails s dt db) = Inr (fst (sql_select [] dt (user_pass db)))"
  by (auto simp: sql_update_def sqlv3_update_def split: prod.split)

lemma stopped_port:
  assumes "pull_ok s" and "lru_ok (onlineuser_cache s)" and "distinct (map fst cur)"
    and "p \<in> set (force_update_transfer s)" and "owed s p = Some d"
  shows "\<exists>s' db'. push_db_all_user (sql_update Works) now cur (s, db) = (Inr (), s', db')
      \<and> sql_books db' p = ud_plus (sql_books db p) (py_trunc (of_int (fst d) * transfer_mul db), py_trunc (of_int (snd d) * transfer_mul db))
      \<and> base_of s' p = (0, 0)"
    and "ud_sum d < update_trs p (user_pass db) \<longrightarrow>
      (\<exists>s' db'. push_db_all_user (sqlv3_update Works) now cur (s, db) = (Inr (), s', db')
        \<and> sql_books db' p = sql_books db p \<and> base_of s' p = (0, 0))"
proof -
  have bk: "booked s cur p = Some d" using assms(4,5) by (simp add: booked_def)
  have base: "base_of (s\<lparr>onlineuser_cache := c, last_update_transfer := fold AList.delete (force_update_transfer s) x,
      last_get_transfer := y, force_update_transfer := []\<rparr>) p = (0, 0)" for c x y
    using assms(4) by (simp add: base_of_def fold_delete_of)
  obtain dt c where dt: "distinct (map fst dt)" "\<forall>p. map_of dt p = booked s cur p"
    and push: "\<forall>bk db'. sql_update Works (s\<lparr>onlineuser_cache := c\<rparr>) dt db = (Inr bk, db') \<longrightarrow>
         push_db_all_user (sql_update Works) now cur (s, db) = (Inr (), s\<lparr>onlineuser_cache := c,
           last_update_transfer := fold AList.delete (force_update_transfer s) (book s bk (last_update_transfer s)),
           last_get_transfer := fold AList.delete (force_update_transfer s) cur, force_update_transfer := []\<rparr>, db')"
    using push_with [OF assms(1-3), of "sql_update Works" db now] by (elim exE conjE) (rule that)
  obtain ts up where ts: "sql_select (force_update_transfer s) dt (user_pass db) = (ts, up)" using prod.exhaust by blast
  have tp: "map_of ts p = Some d"
    using sql_select_of [OF dt(1), of "force_update_transfer s" "user_pass db" p] ts dt(2) bk assms(4) by simp
  then have "ts \<noteq> []" by auto
  then have u: "sql_update Works (s\<lparr>onlineuser_cache := c\<rparr>) dt db
      = (Inr ts, db\<lparr>user_pass := up, sql_books := sql_book (transfer_mul db) ts (sql_books db)\<rparr>)"
    using ts by (simp add: sql_update_def)
  show "\<exists>s' db'. push_db_all_user (sql_update Works) now cur (s, db) = (Inr (), s', db')
      \<and> sql_books db' p = ud_plus (sql_books db p) (py_trunc (of_int (fst d) * transfer_mul db), py_trunc (of_int (snd d) * transfer_mul db))
      \<and> base_of s' p = (0, 0)"
    by (rule exI, rule exI, rule conjI [OF push [rule_format, OF u]]) (simp add: base sql_book_def tp)
  show "ud_sum d < update_trs p (user_pass db) \<longrightarrow>
      (\<exists>s' db'. push_db_all_user (sqlv3_update Works) now cur (s, db) = (Inr (), s', db')
        \<and> sql_books db' p = sql_books db p \<and> base_of s' p = (0, 0))"
  proof
    assume small: "ud_sum d < update_trs p (user_pass db)"
    obtain dt c where dt: "distinct (map fst dt)" "\<forall>p. map_of dt p = booked s cur p"
      and push: "\<forall>bk db'. sqlv3_update Works (s\<lparr>onlineuser_cache := c\<rparr>) dt db = (Inr bk, db') \<longrightarrow>
         push_db_all_user (sqlv3_update Works) now cur (s, db) = (Inr (), s\<lparr>onlineuser_cache := c,
           last_update_transfer := fold AList.delete (force_update_transfer s) (book s bk (last_update_transfer s)),
           last_get_transfer := fold AList.delete (force_update_transfer s) cur, force_update_transfer := []\<rparr>, db')"
      using push_with [OF assms(1-3), of "sqlv3_update Works" db now] by (elim exE conjE) (rule that)
    obtain ts up where ts: "sql_select [] dt (user_pass db) = (ts, up)" using prod.exhaust by blast
    have tp: "map_of ts p = None"
      using sql_select_of [OF dt(1), of "[]" "user_pass db" p] ts dt(2) bk small by simp
    have u: "sqlv3_update Works (s\<lparr>onlineuser_cache := c\<rparr>) dt db = (Inr ts, db\<lparr>user_pass := up,
        sql_books := (if ts \<noteq> [] then sql_book (transfer_mul db) ts (sql_books db) else sql_books db)\<rparr>)"
      using ts by (simp add: sqlv3_update_def)
    show "\<exists>s' db'. push_db_all_user (sqlv3_update Works) now cur (s, db) = (Inr (), s', db')
        \<and> sql_books db' p = sql_books db p \<and> base_of s' p = (0, 0)"
      by (rule exI, rule exI, rule conjI [OF push [rule_format, OF u]]) (simp add: base sql_book_def tp)
  qed
qed



end
