(* ===== verification/Server_Control.thy ===== *)
theory Server_Control
  imports Server_Pool Transfer_Db
begin

text \<open>
  \<^verbatim>\<open>TransferBase.del_server_out_of_bound_safe\<close>: how the rows of the database decide which ports are
  served. A row that is allowed has its server started, or started again when its settings have changed,
  one that is not has it stopped; a port that is in the last rows and not in these is stopped as well.
  A row with several users, by its protocol parameter, is served in any case, with the users of all
  allowed rows. Waiting for the event loop between stopping and starting is left out.
\<close>

subsection \<open>Rows\<close>

text \<open>A row of the database. The columns that decide about permission may be missing; other columns are
  settings.\<close>

record user_row =
  row_port :: int
  row_passwd :: bytes
  row_enable :: "int option"
  row_u :: "int option"
  row_d :: "int option"
  row_transfer_enable :: "int option"
  row_id :: "int option"
  row_settings :: config

text \<open>\<^verbatim>\<open>switchrule.isTurnOn\<close> of the repository, and the permission. An exception means no.\<close>

definition is_turn_on :: "user_row \<Rightarrow> bool" where
  "is_turn_on r = True"

definition row_allowed :: "user_row \<Rightarrow> bool" where
  "row_allowed r \<longleftrightarrow> is_turn_on r \<and>
     (case (row_enable r, row_u r, row_d r, row_transfer_enable r) of
        (Some e, Some u, Some d, Some t) \<Rightarrow> e = 1 \<and> u + d < t
      | _ \<Rightarrow> False)"

definition read_config_keys :: "bytes list" where
  "read_config_keys = [''method'', ''obfs'', ''obfs_param'', ''protocol'', ''protocol_param'', ''forbidden_ip'',
     ''forbidden_port'', ''speed_limit_per_con'', ''speed_limit_per_user'']"

definition merge_config_keys :: "bytes list" where
  "merge_config_keys = ''password'' # read_config_keys"

text \<open>Whether a setting counts as true.\<close>

definition truthy :: "setting \<Rightarrow> bool" where
  "truthy v = (case v of Text s \<Rightarrow> s \<noteq> [] | Number n \<Rightarrow> n \<noteq> 0 | Ranges _ \<Rightarrow> True)"

definition row_cfg :: "user_row \<Rightarrow> config" where
  "row_cfg r = (''password'', Text (row_passwd r)) #
     List.map_filter (\<lambda>name. case map_of (row_settings r) name of
         None \<Rightarrow> None | Some v \<Rightarrow> if truthy v then Some (name, v) else None) read_config_keys"

text \<open>\<^verbatim>\<open>cmp\<close>. An object of ranges reads an attribute that only another such object has.\<close>

definition cmp_setting :: "setting \<Rightarrow> setting \<Rightarrow> bool res" where
  "cmp_setting a b =
     (case (a, b) of
        (Ranges x, Ranges y) \<Rightarrow> Inr (x = y)
      | (Ranges _, _) \<Rightarrow> Inl AttributeError
      | (_, Ranges _) \<Rightarrow> Inl AttributeError
      | _ \<Rightarrow> Inr (a = b))"

text \<open>Whether one of the named settings differs from those of a relay: the loop over an IPv4 relay reads
  a key that may be missing, the loop over an IPv6 relay looks first.\<close>

fun cfg_changed :: "relay_family \<Rightarrow> config \<Rightarrow> config \<Rightarrow> bytes list \<Rightarrow> bool res" where
  "cfg_changed fam cfg relay [] = Inr False"
| "cfg_changed fam cfg relay (name # names) =
     (case map_of cfg name of
        None \<Rightarrow> cfg_changed fam cfg relay names
      | Some v \<Rightarrow>
          (case map_of relay name of
             None \<Rightarrow> (case fam of V4 \<Rightarrow> Inl KeyError | V6 \<Rightarrow> Inr True)
           | Some w \<Rightarrow> rbind (cmp_setting v w) (\<lambda>same. if same then cfg_changed fam cfg relay names else Inr True)))"

definition port_changed :: "config \<Rightarrow> int \<Rightarrow> 'c server_pool \<Rightarrow> bool res" where
  "port_changed cfg port s =
     rbind (case map_of (tcp_servers_pool s) port of
              None \<Rightarrow> Inr False
            | Some (relay, _) \<Rightarrow> cfg_changed V4 cfg relay merge_config_keys)
       (\<lambda>changed. if changed then Inr True
          else (case map_of (tcp_ipv6_servers_pool s) port of
                  None \<Rightarrow> Inr False
                | Some (relay, _) \<Rightarrow> cfg_changed V6 cfg relay merge_config_keys))"

definition mu_protocol :: "bytes list" where
  "mu_protocol = [''auth_aes128_md5'', ''auth_aes128_sha1'', ''auth_chain_a'']"

text \<open>Whether the port is shared. A parameter that is no text has no \<^verbatim>\<open>'#'\<close> to look for.\<close>

definition is_shared :: "config \<Rightarrow> bool res" where
  "is_shared cfg =
     (case (map_of cfg ''protocol'', map_of cfg ''protocol_param'') of
        (Some (Text p), Some v) \<Rightarrow>
          (if p \<in> set mu_protocol
           then (case v of Text q \<Rightarrow> Inr (py_in ''#'' q) | _ \<Rightarrow> Inl TypeError)
           else Inr False)
      | _ \<Rightarrow> Inr False)"

subsection \<open>The state of a pass\<close>

record 'c control =
  ctl_pool :: "'c server_pool"
  ctl_base :: transfer_base
  cur_servers :: "(int \<times> bytes) list"
  new_servers :: "(int \<times> config) list"
  allow_users :: "(int \<times> config) list"
  mu_servers :: "(int \<times> bytes) list"

definition ctl_new :: "'c relay_maker \<Rightarrow> int \<Rightarrow> config \<Rightarrow> 'c control \<Rightarrow> unit res \<times> 'c control" where
  "ctl_new M port cfg s =
     (case new_server M port cfg (ctl_pool s) of
        (Inl e, p) \<Rightarrow> (Inl e, s\<lparr>ctl_pool := p\<rparr>)
      | (Inr _, p) \<Rightarrow> (Inr (), s\<lparr>ctl_pool := p\<rparr>))"

text \<open>A server is stopped, its books are to be closed.\<close>

definition ctl_stop :: "int \<Rightarrow> 'c control \<Rightarrow> unit res \<times> 'c control" where
  "ctl_stop port s =
     (case cb_del_server port (ctl_pool s) of
        (Inl e, p) \<Rightarrow> (Inl e, s\<lparr>ctl_pool := p\<rparr>)
      | (Inr _, p) \<Rightarrow>
          (Inr (), s\<lparr>ctl_pool := p,
             ctl_base := (ctl_base s)\<lparr>force_update_transfer := List.insert port (force_update_transfer (ctl_base s))\<rparr>\<rparr>))"

definition ctl_restart :: "int \<Rightarrow> config \<Rightarrow> 'c control \<Rightarrow> unit res \<times> 'c control" where
  "ctl_restart port cfg s =
     (case ctl_stop port s of
        (Inl e, s1) \<Rightarrow> (Inl e, s1)
      | (Inr _, s1) \<Rightarrow> (Inr (), s1\<lparr>new_servers := AList.update port cfg (new_servers s1)\<rparr>))"

text \<open>What is done with the server of a row's port.\<close>

definition apply_row :: "'c relay_maker \<Rightarrow> bool \<Rightarrow> int \<Rightarrow> config \<Rightarrow> bool \<Rightarrow> bool \<Rightarrow> bool \<Rightarrow> 'c control \<Rightarrow> unit res \<times> 'c control" where
  "apply_row M additional_ports_only port cfg shared allow changed s =
     (let running = server_is_run port (ctl_pool s) > 0
      in if shared then
           (if running then (if changed then ctl_restart port cfg s else (Inr (), s)) else ctl_new M port cfg s)
         else if running then
           (if additional_ports_only \<or> \<not> allow then ctl_stop port s
            else if changed then ctl_restart port cfg s else (Inr (), s))
         else if \<not> additional_ports_only \<and> allow \<and> 0 < port \<and> port < 65536 \<and> \<not> server_run_status port (ctl_pool s)
         then ctl_new M port cfg s
         else (Inr (), s))"

definition process_row :: "'c relay_maker \<Rightarrow> bool \<Rightarrow> user_row \<Rightarrow> 'c control \<Rightarrow> unit res \<times> 'c control" where
  "process_row M additional_ports_only r s =
     (let port = row_port r; cfg = row_cfg r;
          s1 = (case row_id r of None \<Rightarrow> s
                | Some i \<Rightarrow> s\<lparr>ctl_base := (ctl_base s)\<lparr>port_uid_table := AList.update port i (port_uid_table (ctl_base s))\<rparr>\<rparr>)
      in if in_pool port (cur_servers s1) then (Inr (), s1)
         else
           (let s2 = s1\<lparr>cur_servers := AList.update port (row_passwd r) (cur_servers s1)\<rparr>
            in case is_shared cfg of
                 Inl e \<Rightarrow> (Inl e, s2)
               | Inr shared \<Rightarrow>
                   (let allow = (shared \<or> row_allowed r);
                        s3 = (if shared then s2\<lparr>mu_servers := AList.update port (row_passwd r) (mu_servers s2)\<rparr>
                              else if allow then s2\<lparr>allow_users := AList.update port cfg (allow_users s2)\<rparr>
                              else s2)
                    in case (if allow then port_changed cfg port (ctl_pool s3) else Inr False) of
                         Inl e \<Rightarrow> (Inl e, s3)
                       | Inr changed \<Rightarrow> apply_row M additional_ports_only port cfg shared allow changed s3)))"

fun process_rows :: "'c relay_maker \<Rightarrow> bool \<Rightarrow> user_row list \<Rightarrow> 'c control \<Rightarrow> unit res \<times> 'c control" where
  "process_rows M additional_ports_only [] s = (Inr (), s)"
| "process_rows M additional_ports_only (r # rs) s =
     (case process_row M additional_ports_only r s of
        (Inl e, s') \<Rightarrow> (Inl e, s')
      | (Inr _, s') \<Rightarrow> process_rows M additional_ports_only rs s')"

text \<open>The ports that are gone from the database.\<close>

definition drop_row :: "int \<Rightarrow> 'c control \<Rightarrow> unit res \<times> 'c control" where
  "drop_row port s =
     (if in_pool port (cur_servers s) then (Inr (), s)
      else
        (case cb_del_server port (ctl_pool s) of
           (Inl e, p) \<Rightarrow> (Inl e, s\<lparr>ctl_pool := p\<rparr>)
         | (Inr _, p) \<Rightarrow>
             (case clear_cache port (ctl_base s) of
                (Inl e, b) \<Rightarrow> (Inl e, s\<lparr>ctl_pool := p, ctl_base := b\<rparr>)
              | (Inr _, b) \<Rightarrow>
                  (Inr (), s\<lparr>ctl_pool := p, ctl_base := b\<lparr>port_uid_table := AList.delete port (port_uid_table b)\<rparr>\<rparr>))))"

fun drop_rows :: "user_row list \<Rightarrow> 'c control \<Rightarrow> unit res \<times> 'c control" where
  "drop_rows [] s = (Inr (), s)"
| "drop_rows (r # rs) s =
     (case drop_row (row_port r) s of (Inl e, s') \<Rightarrow> (Inl e, s') | (Inr _, s') \<Rightarrow> drop_rows rs s')"

fun start_new :: "'c relay_maker \<Rightarrow> (int \<times> config) list \<Rightarrow> 'c control \<Rightarrow> unit res \<times> 'c control" where
  "start_new M [] s = (Inr (), s)"
| "start_new M ((port, cfg) # ps) s =
     (case ctl_new M port cfg s of (Inl e, s') \<Rightarrow> (Inl e, s') | (Inr _, s') \<Rightarrow> start_new M ps s')"

text \<open>What \<^verbatim>\<open>add_user\<close> of the relays reads of a user's settings.\<close>

definition number_of :: "config \<Rightarrow> bytes \<Rightarrow> int option" where
  "number_of cfg name = (case map_of cfg name of Some (Number n) \<Rightarrow> Some n | _ \<Rightarrow> None)"

definition user_cfg_of :: "config \<Rightarrow> user_cfg" where
  "user_cfg_of cfg =
     \<lparr>password = (case map_of cfg ''password'' of Some (Text p) \<Rightarrow> p | _ \<Rightarrow> []),
      speed_limit_per_con = number_of cfg ''speed_limit_per_con'', speed_limit_per_user = number_of cfg ''speed_limit_per_user''\<rparr>"

definition share_users :: "time \<Rightarrow> 'c control \<Rightarrow> 'c control" where
  "share_users now s =
     s\<lparr>ctl_pool := fold (\<lambda>(port, _). update_mu_users now port (map (\<lambda>(n, c). (n, user_cfg_of c)) (allow_users s)))
          (mu_servers s) (ctl_pool s),
       ctl_base := (ctl_base s)\<lparr>mu_ports := mu_servers s\<rparr>\<rparr>"

definition del_server_out_of_bound_safe :: "'c relay_maker \<Rightarrow> bool \<Rightarrow> time \<Rightarrow> user_row list \<Rightarrow> user_row list
    \<Rightarrow> 'c server_pool \<times> transfer_base \<Rightarrow> unit res \<times> 'c server_pool \<times> transfer_base" where
  "del_server_out_of_bound_safe M additional_ports_only now last_rows rows pb =
     (case pb of (pool, base) \<Rightarrow>
        (let s0 = \<lparr>ctl_pool = pool, ctl_base = base, cur_servers = [], new_servers = [], allow_users = [], mu_servers = []\<rparr>;
             done = (\<lambda>(r, s). (r, ctl_pool s, ctl_base s))
         in case process_rows M additional_ports_only rows s0 of
              (Inl e, s1) \<Rightarrow> done (Inl e, s1)
            | (Inr _, s1) \<Rightarrow>
                (case drop_rows last_rows s1 of
                   (Inl e, s2) \<Rightarrow> done (Inl e, s2)
                 | (Inr _, s2) \<Rightarrow>
                     (case start_new M (new_servers s2) s2 of
                        (Inl e, s3) \<Rightarrow> done (Inl e, s3)
                      | (Inr _, s3) \<Rightarrow> done (Inr (), share_users now s3)))))"

end
