(* ===== verification/Control_Proofs.thy ===== *)
theory Control_Proofs
  imports Server_Control Server_Pool_Proofs
begin

text \<open>
  A pass of \<^verbatim>\<open>del_server_out_of_bound_safe\<close> leaves exactly the permitted ports running, with the
  settings of their rows. The pool is seen through \<open>running\<close>, the configuration of the relay of each
  port; the pass is shown for a server with IPv4 sockets, the default of \<^verbatim>\<open>shell.get_config\<close>.
\<close>

subsection \<open>The pool as a map from ports to configurations\<close>

definition running :: "'c server_pool \<Rightarrow> int \<Rightarrow> config option" where
  "running s p = map_option fst (map_of (tcp_servers_pool s) p)"

definition v4_only :: "'c server_pool \<Rightarrow> bool" where
  "v4_only s \<longleftrightarrow> map_of (pool_config s) ''server'' \<noteq> None \<and> map_of (pool_config s) ''server_ipv6'' = None
     \<and> map_of (pool_config s) ''method'' \<noteq> None \<and> tcp_ipv6_servers_pool s = []"

definition makes_relays :: "'c relay_maker \<Rightarrow> bool" where
  "makes_relays M \<longleftrightarrow> (\<forall>cfg. \<exists>t. make_tcp M V4 cfg = Inr t)"

definition started :: "config \<Rightarrow> int \<Rightarrow> config \<Rightarrow> config" where
  "started config port cfg =
     AList.update ''max_connect'' (Number 128) (AList.update ''server_port'' (Number port) (AList.merge config cfg))"

lemma in_pool_running: "in_pool p (tcp_servers_pool s) \<longleftrightarrow> running s p \<noteq> None"
  by (simp add: in_pool_def running_def)

lemma relay_config_v4:
  "map_of config ''method'' \<noteq> None \<Longrightarrow> relay_config V4 port cfg config = Inr (started config port cfg)"
  by (auto simp: relay_config_def started_def merge_conv' map_add_def Let_def split: option.split)

lemma start_relays_running:
  assumes "makes_relays M" and "v4_only s"
  shows "running (start_relays M V4 port cfg s) = (running s)(port \<mapsto> cfg) \<and> v4_only (start_relays M V4 port cfg s)
    \<and> pool_config (start_relays M V4 port cfg s) = pool_config s"
proof -
  obtain t where "make_tcp M V4 cfg = Inr t" using assms(1) by (auto simp: makes_relays_def)
  then show ?thesis
    using assms(2) by (auto simp: start_relays_def running_def v4_only_def update_conv' fun_eq_iff Let_def split: sum.split)
qed

lemma new_server_running:
  assumes "makes_relays M" and "v4_only s"
  shows "\<exists>b s'. new_server M port cfg s = (Inr b, s') \<and> v4_only s' \<and> pool_config s' = pool_config s
    \<and> running s' = (if running s port = None then (running s)(port \<mapsto> started (pool_config s) port cfg) else running s)"
proof -
  have c: "map_of (pool_config s) ''server_ipv6'' = None" "map_of (pool_config s) ''server'' \<noteq> None"
    "map_of (pool_config s) ''method'' \<noteq> None" using assms(2) by (simp_all add: v4_only_def)
  show ?thesis
  proof (cases "running s port = None")
    case True
    then have "new_server M port cfg s = (Inr True, start_relays M V4 port (started (pool_config s) port cfg) s)"
      using c by (auto simp: new_server_def new_server_v4_def in_pool_running relay_config_v4)
    then show ?thesis using True start_relays_running [OF assms, of port "started (pool_config s) port cfg"] by auto
  next
    case False
    then have "new_server M port cfg s = (Inr False, s)"
      using c by (auto simp: new_server_def new_server_v4_def in_pool_running)
    then show ?thesis using False assms(2) by auto
  qed
qed

lemma cb_del_server_running:
  assumes "v4_only s"
  shows "\<exists>s'. cb_del_server port s = (Inr (), s') \<and> v4_only s' \<and> pool_config s' = pool_config s \<and> running s' = (running s)(port := None)"
proof (cases "in_pool port (tcp_servers_pool s)")
  case True
  then show ?thesis
    using assms by (auto simp: cb_del_server_def v4_only_def running_def delete_conv' fun_eq_iff Let_def)
next
  case False
  then have "running s port = None" by (simp add: in_pool_running)
  then have "(running s)(port := None) = running s" by (auto simp: fun_eq_iff)
  moreover have "cb_del_server port s = (Inr (), s)"
    using False assms by (auto simp: cb_del_server_def v4_only_def Let_def)
  ultimately show ?thesis using assms by simp
qed

lemma update_mu_users_running:
  assumes "v4_only s"
  shows "running (update_mu_users now port users s) = running s \<and> v4_only (update_mu_users now port users s)"
proof -
  have "map_option fst (map_of (AList.map_entry port (\<lambda>(c, t). (c, f t)) xs) p) = map_option fst (map_of xs p)" for f p
      and xs :: "(int \<times> config \<times> tcp_server) list"
    by (induction xs) auto
  then show ?thesis
    using assms by (auto simp: update_mu_users_def v4_only_def running_def fun_eq_iff in_pool_def Let_def)
qed

lemma share_users_running:
  fixes s :: "'c control"
  assumes "v4_only (ctl_pool s)"
  shows "running (ctl_pool (share_users now s)) = running (ctl_pool s) \<and> v4_only (ctl_pool (share_users now s))"
proof -
  have "running (fold (\<lambda>(port, _). update_mu_users now port us) ms p) = running p
      \<and> v4_only (fold (\<lambda>(port, _). update_mu_users now port us) ms p)" if "v4_only p" for us and p :: "'c server_pool" and ms :: "(int \<times> bytes) list"
    using that
  proof (induction ms arbitrary: p)
    case (Cons m ms)
    obtain port x where m: "m = (port, x)" using prod.exhaust by blast
    note u = update_mu_users_running [OF Cons.prems, of now port us]
    then show ?case using Cons.IH [OF conjunct2 [OF u]] m by simp
  qed simp
  from this [OF assms] show ?thesis by (simp add: share_users_def)
qed

subsection \<open>Settings\<close>

definition changed :: "config \<Rightarrow> config option \<Rightarrow> bool res" where
  "changed cfg c = (case c of None \<Rightarrow> Inr False | Some relay \<Rightarrow> cfg_changed V4 cfg relay merge_config_keys)"

lemma port_changed_v4: "v4_only s \<Longrightarrow> port_changed cfg p s = changed cfg (running s p)"
  by (auto simp: port_changed_def changed_def running_def v4_only_def rbind_def split: option.split sum.split if_splits)

lemma map_filter_keys:
  assumes "map_of (List.map_filter f ks) name = Some v" and "\<And>k w. f k = Some w \<Longrightarrow> fst w = k"
  shows "name \<in> set ks"
  using assms(1)
proof (induction ks)
  case (Cons k ks)
  then show ?case using assms(2) [of k] by (cases "f k") (auto simp: List.map_filter_simps split: if_splits)
qed (simp add: List.map_filter_simps)

lemma row_cfg_keys: "map_of (row_cfg r) name = Some v \<Longrightarrow> name \<in> set merge_config_keys"
  unfolding row_cfg_def merge_config_keys_def map_of.simps fun_upd_apply
  by (auto split: if_splits elim!: map_filter_keys split: option.splits)

lemma cmp_setting_same: "cmp_setting a b = Inr True \<Longrightarrow> a = b"
  by (cases a; cases b) (simp_all add: cmp_setting_def)

lemma cfg_changed_False:
  assumes "cfg_changed V4 cfg relay names = Inr False" and "name \<in> set names" and "map_of cfg name = Some v"
  shows "map_of relay name = Some v"
  using assms
proof (induction names)
  case (Cons n ns)
  show ?case
  proof (cases "n = name")
    case True
    then show ?thesis
      using Cons.prems cmp_setting_same by (auto simp: rbind_def split: option.splits sum.splits if_splits)
  next
    case False
    then show ?thesis
      using Cons by (auto simp: rbind_def split: option.splits sum.splits if_splits)
  qed
qed simp

definition has_settings :: "config \<Rightarrow> config \<Rightarrow> bool" where
  "has_settings cfg relay \<longleftrightarrow> (\<forall>name v. map_of cfg name = Some v \<longrightarrow> map_of relay name = Some v)"

lemma unchanged_settings: "changed (row_cfg r) (Some relay) = Inr False \<Longrightarrow> has_settings (row_cfg r) relay"
  unfolding has_settings_def changed_def option.case using cfg_changed_False row_cfg_keys by blast

lemma started_settings: "has_settings (row_cfg r) (started config port (row_cfg r))"
proof -
  have "name \<noteq> ''max_connect'' \<and> name \<noteq> ''server_port''" if "name \<in> set merge_config_keys" for name
    using that by (auto simp: merge_config_keys_def read_config_keys_def)
  then show ?thesis
    using row_cfg_keys [of r] by (auto simp: has_settings_def started_def update_conv' merge_conv' map_add_def)
qed

subsection \<open>One row\<close>

text \<open>A control state seen as what runs and what is to be started.\<close>

abbreviation runs :: "'c control \<Rightarrow> int \<Rightarrow> config option" where
  "runs s \<equiv> running (ctl_pool s)"

abbreviation waits :: "'c control \<Rightarrow> int \<Rightarrow> config option" where
  "waits s \<equiv> map_of (new_servers s)"

lemma ctl_new_runs:
  assumes "makes_relays M" and "v4_only (ctl_pool s)"
  shows "\<exists>s'. ctl_new M port cfg s = (Inr (), s') \<and> v4_only (ctl_pool s') \<and> pool_config (ctl_pool s') = pool_config (ctl_pool s)
    \<and> runs s' = (if runs s port = None then (runs s)(port \<mapsto> started (pool_config (ctl_pool s)) port cfg) else runs s)
    \<and> s' = s\<lparr>ctl_pool := ctl_pool s'\<rparr>"
  using new_server_running [OF assms, of port cfg] by (auto simp: ctl_new_def)

lemma ctl_stop_runs:
  assumes "v4_only (ctl_pool s)"
  shows "\<exists>s'. ctl_stop port s = (Inr (), s') \<and> v4_only (ctl_pool s') \<and> pool_config (ctl_pool s') = pool_config (ctl_pool s)
    \<and> runs s' = (runs s)(port := None) \<and> new_servers s' = new_servers s \<and> cur_servers s' = cur_servers s
    \<and> set (force_update_transfer (ctl_base s')) = insert port (set (force_update_transfer (ctl_base s)))"
  using cb_del_server_running [OF assms, of port] by (auto simp: ctl_stop_def)

lemma ctl_restart_runs:
  assumes "v4_only (ctl_pool s)"
  shows "\<exists>s'. ctl_restart port cfg s = (Inr (), s') \<and> v4_only (ctl_pool s') \<and> pool_config (ctl_pool s') = pool_config (ctl_pool s)
    \<and> runs s' = (runs s)(port := None) \<and> waits s' = (waits s)(port \<mapsto> cfg) \<and> cur_servers s' = cur_servers s
    \<and> set (force_update_transfer (ctl_base s')) = insert port (set (force_update_transfer (ctl_base s)))
    \<and> (distinct (map fst (new_servers s)) \<longrightarrow> distinct (map fst (new_servers s')))"
  using ctl_stop_runs [OF assms, of port]
  by (auto simp: ctl_restart_def update_conv' distinct_update)

text \<open>What the pass is to leave at a row's port, given what runs there.\<close>

definition wanted :: "config \<Rightarrow> bool \<Rightarrow> user_row \<Rightarrow> config option \<Rightarrow> config option" where
  "wanted config only r c =
     (let new = started config (row_port r) (row_cfg r);
          kept = (case c of None \<Rightarrow> Some new | Some relay \<Rightarrow> if changed (row_cfg r) c = Inr True then Some new else Some relay)
      in if is_shared (row_cfg r) = Inr True then kept
         else if only \<or> \<not> row_allowed r then None
         else if c = None \<and> \<not> (0 < row_port r \<and> row_port r < 65536) then None
         else kept)"

text \<open>What will run at a port when the waiting servers have been started.\<close>

definition effect :: "'c control \<Rightarrow> int \<Rightarrow> config option" where
  "effect s p = (case waits s p of Some cfg \<Rightarrow> Some (started (pool_config (ctl_pool s)) p cfg) | None \<Rightarrow> runs s p)"

definition ctl_ok :: "'c control \<Rightarrow> bool" where
  "ctl_ok s \<longleftrightarrow> v4_only (ctl_pool s) \<and> (\<forall>p. waits s p \<noteq> None \<longrightarrow> runs s p = None) \<and> distinct (map fst (new_servers s))"

lemma server_is_run_v4: "v4_only s \<Longrightarrow> server_is_run p s > 0 \<longleftrightarrow> running s p \<noteq> None"
  by (auto simp: server_is_run_def in_pool_def running_def v4_only_def)

lemma server_run_status_v4: "v4_only s \<Longrightarrow> server_run_status p s \<longleftrightarrow> running s p \<noteq> None"
  by (auto simp: server_run_status_def in_pool_running v4_only_def)

lemma apply_row_effect:
  assumes M: "makes_relays M" and ok: "ctl_ok s" and w: "waits s (row_port r) = None"
    and sh: "is_shared (row_cfg r) = Inr shared" and al: "allow = (shared \<or> row_allowed r)"
    and ch: "(if allow then changed (row_cfg r) (runs s (row_port r)) else Inr False) = Inr chg"
  shows "\<exists>s'. apply_row M only (row_port r) (row_cfg r) shared allow chg s = (Inr (), s') \<and> ctl_ok s'
    \<and> pool_config (ctl_pool s') = pool_config (ctl_pool s) \<and> cur_servers s' = cur_servers s
    \<and> effect s' (row_port r) = wanted (pool_config (ctl_pool s)) only r (runs s (row_port r))
    \<and> (\<forall>p. p \<noteq> row_port r \<longrightarrow> runs s' p = runs s p \<and> waits s' p = waits s p)
    \<and> set (force_update_transfer (ctl_base s')) \<subseteq> insert (row_port r) (set (force_update_transfer (ctl_base s)))"
proof -
  let ?p = "row_port r"
  have v4: "v4_only (ctl_pool s)" using ok by (simp add: ctl_ok_def)
  note run = server_is_run_v4 [OF v4, of ?p] server_run_status_v4 [OF v4, of ?p]
  obtain s1 where new: "ctl_new M ?p (row_cfg r) s = (Inr (), s1)" "v4_only (ctl_pool s1)" "pool_config (ctl_pool s1) = pool_config (ctl_pool s)"
      "runs s1 = (if runs s ?p = None then (runs s)(?p \<mapsto> started (pool_config (ctl_pool s)) ?p (row_cfg r)) else runs s)"
      "s1 = s\<lparr>ctl_pool := ctl_pool s1\<rparr>" using ctl_new_runs [OF M v4] by blast
  have f1: "new_servers s1 = new_servers s" "cur_servers s1 = cur_servers s" "ctl_base s1 = ctl_base s"
    by (subst new(5), simp)+
  obtain s2 where stop: "ctl_stop ?p s = (Inr (), s2)" "v4_only (ctl_pool s2)" "pool_config (ctl_pool s2) = pool_config (ctl_pool s)"
      "runs s2 = (runs s)(?p := None)" "new_servers s2 = new_servers s" "cur_servers s2 = cur_servers s"
      "set (force_update_transfer (ctl_base s2)) = insert ?p (set (force_update_transfer (ctl_base s)))"
    using ctl_stop_runs [OF v4] by blast
  obtain s3 where re: "ctl_restart ?p (row_cfg r) s = (Inr (), s3)" "v4_only (ctl_pool s3)" "pool_config (ctl_pool s3) = pool_config (ctl_pool s)"
      "runs s3 = (runs s)(?p := None)" "waits s3 = (waits s)(?p \<mapsto> row_cfg r)" "cur_servers s3 = cur_servers s"
      "set (force_update_transfer (ctl_base s3)) = insert ?p (set (force_update_transfer (ctl_base s)))"
      "distinct (map fst (new_servers s)) \<longrightarrow> distinct (map fst (new_servers s3))"
    using ctl_restart_runs [OF v4] by blast
  have okd: "distinct (map fst (new_servers s))" "\<forall>p. waits s p \<noteq> None \<longrightarrow> runs s p = None" using ok by (simp_all add: ctl_ok_def)
  show ?thesis
  proof (cases "runs s ?p")
    case None
    then have c: "chg = False" using ch by (simp add: changed_def split: if_splits)
    have "ctl_ok s1" using new(2,4) f1 okd w None by (auto simp: ctl_ok_def)
    then show ?thesis
      using None run new(1,3,4) f1 w ok sh al c
      by (auto simp: apply_row_def wanted_def effect_def Let_def)
  next
    case (Some relay)
    have "ctl_ok s2" using stop okd by (auto simp: ctl_ok_def)
    moreover have "ctl_ok s3" using re okd by (auto simp: ctl_ok_def)
    ultimately show ?thesis
      using Some run stop(1,3-7) re(1,3-7) w ok sh al ch
      by (auto simp: apply_row_def wanted_def effect_def Let_def split: if_splits)
  qed
qed

lemma in_pool_update [simp]: "in_pool q (AList.update p v xs) \<longleftrightarrow> q = p \<or> in_pool q xs"
  by (simp add: in_pool_def update_conv')

lemma process_row_effect:
  assumes M: "makes_relays M" and ok: "ctl_ok s"
    and fresh: "\<not> in_pool (row_port r) (cur_servers s) \<longrightarrow> waits s (row_port r) = None
      \<and> (\<exists>b. is_shared (row_cfg r) = Inr b) \<and> (\<exists>b. changed (row_cfg r) (runs s (row_port r)) = Inr b)"
  shows "\<exists>s'. process_row M only r s = (Inr (), s') \<and> ctl_ok s' \<and> pool_config (ctl_pool s') = pool_config (ctl_pool s)
    \<and> (\<forall>q. in_pool q (cur_servers s') \<longleftrightarrow> q = row_port r \<or> in_pool q (cur_servers s))
    \<and> (\<not> in_pool (row_port r) (cur_servers s) \<longrightarrow>
         effect s' (row_port r) = wanted (pool_config (ctl_pool s)) only r (runs s (row_port r)))
    \<and> (\<forall>q. in_pool (row_port r) (cur_servers s) \<or> q \<noteq> row_port r \<longrightarrow> runs s' q = runs s q \<and> waits s' q = waits s q)
    \<and> set (force_update_transfer (ctl_base s')) \<subseteq> insert (row_port r) (set (force_update_transfer (ctl_base s)))"
proof -
  let ?p = "row_port r" and ?cfg = "row_cfg r"
  define s1 where "s1 = (case row_id r of None \<Rightarrow> s
      | Some i \<Rightarrow> s\<lparr>ctl_base := (ctl_base s)\<lparr>port_uid_table := AList.update ?p i (port_uid_table (ctl_base s))\<rparr>\<rparr>)"
  have f: "ctl_pool s1 = ctl_pool s" "cur_servers s1 = cur_servers s" "new_servers s1 = new_servers s"
    "force_update_transfer (ctl_base s1) = force_update_transfer (ctl_base s)"
    by (auto simp: s1_def split: option.split)
  show ?thesis
  proof (cases "in_pool ?p (cur_servers s)")
    case True
    then have "process_row M only r s = (Inr (), s1)" by (simp add: process_row_def s1_def [symmetric] f Let_def)
    moreover have "ctl_ok s1" using ok by (simp add: ctl_ok_def f)
    ultimately show ?thesis using True f by auto
  next
    case False
    then obtain shared b where sh: "is_shared ?cfg = Inr shared" and ch: "changed ?cfg (runs s ?p) = Inr b" and w: "waits s ?p = None"
      using fresh by blast
    define allow where "allow = (shared \<or> row_allowed r)"
    define s2 where "s2 = s1\<lparr>cur_servers := AList.update ?p (row_passwd r) (cur_servers s1)\<rparr>"
    define s3 where "s3 = (if shared then s2\<lparr>mu_servers := AList.update ?p (row_passwd r) (mu_servers s2)\<rparr>
                        else if allow then s2\<lparr>allow_users := AList.update ?p ?cfg (allow_users s2)\<rparr> else s2)"
    have g: "ctl_pool s3 = ctl_pool s" "new_servers s3 = new_servers s" "cur_servers s3 = AList.update ?p (row_passwd r) (cur_servers s)"
      "force_update_transfer (ctl_base s3) = force_update_transfer (ctl_base s)"
      using f by (auto simp: s3_def s2_def)
    have ok3: "ctl_ok s3" using ok by (simp add: ctl_ok_def g)
    define chg where "chg = (if allow then b else False)"
    have "port_changed ?cfg ?p (ctl_pool s3) = Inr b"
      using ch ok by (simp add: g port_changed_v4 ctl_ok_def)
    then have pc: "(if allow then port_changed ?cfg ?p (ctl_pool s3) else Inr False) = Inr chg" by (simp add: chg_def)
    have "\<not> in_pool ?p (cur_servers s1)" using False f by simp
    then have pr: "process_row M only r s = apply_row M only ?p ?cfg shared allow chg s3"
      unfolding process_row_def Let_def s1_def [symmetric] s2_def [symmetric] sh sum.case
        allow_def [symmetric] s3_def [symmetric] pc by simp
    have c3: "(if allow then changed ?cfg (runs s3 ?p) else Inr False) = Inr chg" using ch by (simp add: g chg_def)
    have w3: "waits s3 ?p = None" using w by (simp add: g)
    from apply_row_effect [OF M ok3 w3 sh allow_def c3, of only] False show ?thesis
      unfolding pr g by auto
  qed
qed

lemma process_rows_effect:
  assumes "makes_relays M" and "ctl_ok s" and "\<forall>q. \<not> in_pool q (cur_servers s) \<longrightarrow> waits s q = None"
    and "\<forall>r \<in> set rows. (\<exists>b. is_shared (row_cfg r) = Inr b)
       \<and> (\<not> in_pool (row_port r) (cur_servers s) \<longrightarrow> (\<exists>b. changed (row_cfg r) (runs s (row_port r)) = Inr b))"
  shows "\<exists>s'. process_rows M only rows s = (Inr (), s') \<and> ctl_ok s' \<and> pool_config (ctl_pool s') = pool_config (ctl_pool s)
    \<and> (\<forall>q. in_pool q (cur_servers s') \<longleftrightarrow> in_pool q (cur_servers s) \<or> q \<in> row_port ` set rows)
    \<and> (\<forall>q. \<not> in_pool q (cur_servers s') \<longrightarrow> waits s' q = None)
    \<and> (\<forall>q. effect s' q = (if in_pool q (cur_servers s) then effect s q
          else (case find (\<lambda>r. row_port r = q) rows of
                  Some r \<Rightarrow> wanted (pool_config (ctl_pool s)) only r (runs s q) | None \<Rightarrow> runs s q)))
    \<and> set (force_update_transfer (ctl_base s')) \<subseteq> set (force_update_transfer (ctl_base s)) \<union> row_port ` set rows"
  using assms(2-4)
proof (induction rows arbitrary: s)
  case Nil
  then show ?case by (auto simp: effect_def)
next
  case (Cons r rows)
  let ?p = "row_port r"
  have "\<not> in_pool ?p (cur_servers s) \<longrightarrow> waits s ?p = None \<and> (\<exists>b. is_shared (row_cfg r) = Inr b)
      \<and> (\<exists>b. changed (row_cfg r) (runs s ?p) = Inr b)" using Cons.prems(2,3) by auto
  from process_row_effect [OF assms(1) Cons.prems(1) this, of only] obtain s1 where
      1: "process_row M only r s = (Inr (), s1)" "ctl_ok s1" "pool_config (ctl_pool s1) = pool_config (ctl_pool s)"
      and cur: "\<forall>q. in_pool q (cur_servers s1) \<longleftrightarrow> q = ?p \<or> in_pool q (cur_servers s)"
      and own: "\<not> in_pool ?p (cur_servers s) \<longrightarrow> effect s1 ?p = wanted (pool_config (ctl_pool s)) only r (runs s ?p)"
      and other: "\<forall>q. in_pool ?p (cur_servers s) \<or> q \<noteq> ?p \<longrightarrow> runs s1 q = runs s q \<and> waits s1 q = waits s q"
      and force: "set (force_update_transfer (ctl_base s1)) \<subseteq> insert ?p (set (force_update_transfer (ctl_base s)))"
    by (elim exE conjE) (rule that)
  have w1: "\<forall>q. \<not> in_pool q (cur_servers s1) \<longrightarrow> waits s1 q = None" using Cons.prems(2) cur other by auto
  have c1: "\<forall>r \<in> set rows. (\<exists>b. is_shared (row_cfg r) = Inr b)
       \<and> (\<not> in_pool (row_port r) (cur_servers s1) \<longrightarrow> (\<exists>b. changed (row_cfg r) (runs s1 (row_port r)) = Inr b))"
    using Cons.prems(3) cur other by auto
  obtain s2 where 2: "process_rows M only rows s1 = (Inr (), s2)" "ctl_ok s2" "pool_config (ctl_pool s2) = pool_config (ctl_pool s1)"
      "\<forall>q. in_pool q (cur_servers s2) \<longleftrightarrow> in_pool q (cur_servers s1) \<or> q \<in> row_port ` set rows"
      "\<forall>q. \<not> in_pool q (cur_servers s2) \<longrightarrow> waits s2 q = None"
      and eff: "\<forall>q. effect s2 q = (if in_pool q (cur_servers s1) then effect s1 q
          else (case find (\<lambda>r. row_port r = q) rows of
                  Some r \<Rightarrow> wanted (pool_config (ctl_pool s1)) only r (runs s1 q) | None \<Rightarrow> runs s1 q))"
      and f2: "set (force_update_transfer (ctl_base s2)) \<subseteq> set (force_update_transfer (ctl_base s1)) \<union> row_port ` set rows"
    using Cons.IH [OF 1(2) w1 c1] by (elim exE conjE) (rule that)
  have same: "effect s1 q = effect s q" if "in_pool ?p (cur_servers s) \<or> q \<noteq> ?p" for q
    using other [rule_format, OF that] 1(3) by (simp add: effect_def split: option.split)
  have "effect s2 q = (if in_pool q (cur_servers s) then effect s q
          else (case find (\<lambda>r. row_port r = q) (r # rows) of
                  Some r \<Rightarrow> wanted (pool_config (ctl_pool s)) only r (runs s q) | None \<Rightarrow> runs s q))" for q
  proof (cases "q = ?p")
    case True
    then show ?thesis using eff [rule_format, of ?p] cur own same [of ?p] by auto
  next
    case False
    then show ?thesis using eff [rule_format, of q] cur other same [of q] 1(3) by (auto split: option.split)
  qed
  moreover have "process_rows M only (r # rows) s = (Inr (), s2)" using 1(1) 2(1) by simp
  moreover have "set (force_update_transfer (ctl_base s2)) \<subseteq> set (force_update_transfer (ctl_base s)) \<union> row_port ` set (r # rows)"
    using force f2 by auto
  moreover have "in_pool q (cur_servers s2) \<longleftrightarrow> in_pool q (cur_servers s) \<or> q \<in> row_port ` set (r # rows)" for q
    using 2(4) cur by auto
  ultimately show ?case using 1(3) 2(2,3,5) by (intro exI [of _ s2] conjI allI) simp_all
qed

subsection \<open>The rest of the pass\<close>

lemma drop_rows_effect:
  assumes "ctl_ok s" and "\<forall>q. \<not> in_pool q (cur_servers s) \<longrightarrow> waits s q = None"
    and "\<forall>q \<in> set (force_update_transfer (ctl_base s)). in_pool q (cur_servers s)"
  shows "\<exists>s'. drop_rows rows s = (Inr (), s') \<and> ctl_ok s' \<and> pool_config (ctl_pool s') = pool_config (ctl_pool s)
    \<and> new_servers s' = new_servers s
    \<and> (\<forall>q. effect s' q = (if \<not> in_pool q (cur_servers s) \<and> q \<in> row_port ` set rows then None else effect s q))"
  using assms
proof (induction rows arbitrary: s)
  case (Cons r rows)
  let ?p = "row_port r"
  show ?case
  proof (cases "in_pool ?p (cur_servers s)")
    case True
    then have "drop_row ?p s = (Inr (), s)" by (simp add: drop_row_def)
    then show ?thesis using Cons.IH [OF Cons.prems] True by auto
  next
    case False
    obtain pl where pl: "cb_del_server ?p (ctl_pool s) = (Inr (), pl)" "v4_only pl" "pool_config pl = pool_config (ctl_pool s)"
        "running pl = (runs s)(?p := None)" using cb_del_server_running [of "ctl_pool s" ?p] Cons.prems(1) by (auto simp: ctl_ok_def)
    obtain b where b: "clear_cache ?p (ctl_base s) = (Inr (), b)" "force_update_transfer b = force_update_transfer (ctl_base s)"
      using False Cons.prems(3) by (auto simp: clear_cache_def)
    let ?s = "s\<lparr>ctl_pool := pl, ctl_base := b\<lparr>port_uid_table := AList.delete ?p (port_uid_table b)\<rparr>\<rparr>"
    have d: "drop_row ?p s = (Inr (), ?s)" using False pl(1) b(1) by (simp add: drop_row_def)
    have ok: "ctl_ok ?s" using Cons.prems(1) pl(2,4) by (simp add: ctl_ok_def)
    have w: "\<forall>q. \<not> in_pool q (cur_servers ?s) \<longrightarrow> waits ?s q = None" using Cons.prems(2) by simp
    have f: "\<forall>q \<in> set (force_update_transfer (ctl_base ?s)). in_pool q (cur_servers ?s)" using Cons.prems(3) b(2) by simp
    obtain s' where s': "drop_rows rows ?s = (Inr (), s')" "ctl_ok s'" "pool_config (ctl_pool s') = pool_config (ctl_pool ?s)"
        "new_servers s' = new_servers ?s"
        "\<forall>q. effect s' q = (if \<not> in_pool q (cur_servers ?s) \<and> q \<in> row_port ` set rows then None else effect ?s q)"
      using Cons.IH [OF ok w f] by (elim exE conjE) (rule that)
    have e: "effect ?s q = (if q = ?p then None else effect s q)" for q
      using Cons.prems(2) False pl(3,4) by (auto simp: effect_def split: option.split)
    show ?thesis
      by (rule exI [of _ s']) (use s' d pl(3) e False in auto)
  qed
qed simp

lemma start_new_runs:
  assumes "makes_relays M" and "v4_only (ctl_pool s)" and "distinct (map fst ps)" and "\<forall>p \<in> fst ` set ps. runs s p = None"
  shows "\<exists>s'. start_new M ps s = (Inr (), s') \<and> v4_only (ctl_pool s')
    \<and> (\<forall>q. runs s' q = (case map_of ps q of Some cfg \<Rightarrow> Some (started (pool_config (ctl_pool s)) q cfg) | None \<Rightarrow> runs s q))"
  using assms(2-4)
proof (induction ps arbitrary: s)
  case (Cons e ps)
  obtain p cfg where e: "e = (p, cfg)" using prod.exhaust by blast
  obtain s1 where 1: "ctl_new M p cfg s = (Inr (), s1)" "v4_only (ctl_pool s1)" "pool_config (ctl_pool s1) = pool_config (ctl_pool s)"
      "runs s1 = (runs s)(p \<mapsto> started (pool_config (ctl_pool s)) p cfg)"
    using ctl_new_runs [OF assms(1) Cons.prems(1), of p cfg] Cons.prems(3) e by auto
  have "distinct (map fst ps)" "\<forall>q \<in> fst ` set ps. runs s1 q = None" using Cons.prems(2,3) e 1(4) by auto
  from Cons.IH [OF 1(2) this] obtain s2 where 2: "start_new M ps s1 = (Inr (), s2)" "v4_only (ctl_pool s2)"
      "\<forall>q. runs s2 q = (case map_of ps q of Some cfg \<Rightarrow> Some (started (pool_config (ctl_pool s1)) q cfg) | None \<Rightarrow> runs s1 q)" by blast
  have "map_of ps p = None" using Cons.prems(2) e by (simp add: map_of_eq_None_iff)
  then show ?case using 1 2 e by (intro exI [of _ s2]) (auto split: option.split)
qed simp

subsection \<open>The whole pass\<close>

lemma wanted_None:
  "wanted config only r c \<noteq> None \<longleftrightarrow> is_shared (row_cfg r) = Inr True \<or>
     \<not> only \<and> row_allowed r \<and> (c \<noteq> None \<or> 0 < row_port r \<and> row_port r < 65536)"
  by (auto simp: wanted_def Let_def split: option.splits if_splits)

lemma wanted_settings:
  assumes "wanted config only r c = Some relay" and "changed (row_cfg r) c = Inr b"
  shows "has_settings (row_cfg r) relay"
  using assms unchanged_settings [of r] started_settings [of r]
  by (cases b) (auto simp: wanted_def Let_def split: option.splits if_splits)

lemma find_port_None: "find (\<lambda>r. row_port r = p) rows = None \<longleftrightarrow> p \<notin> row_port ` set rows"
  by (auto simp: find_None_iff)

text \<open>What the pass does to every port.\<close>

lemma pass_effect:
  assumes M: "makes_relays M" and v4: "v4_only pool" and f: "force_update_transfer base = []"
    and rows: "\<forall>r \<in> set rows. (\<exists>b. is_shared (row_cfg r) = Inr b) \<and> (\<exists>b. changed (row_cfg r) (running pool (row_port r)) = Inr b)"
  shows "\<exists>pool' base'. del_server_out_of_bound_safe M only now last_rows rows (pool, base) = (Inr (), pool', base')
    \<and> v4_only pool'
    \<and> (\<forall>p. running pool' p = (case find (\<lambda>r. row_port r = p) rows of
           Some r \<Rightarrow> wanted (pool_config pool) only r (running pool p)
         | None \<Rightarrow> if p \<in> row_port ` set last_rows then None else running pool p))"
proof -
  let ?s = "\<lparr>ctl_pool = pool, ctl_base = base, cur_servers = [], new_servers = [], allow_users = [], mu_servers = []\<rparr>"
  have s0: "ctl_ok ?s" "\<forall>q. \<not> in_pool q (cur_servers ?s) \<longrightarrow> waits ?s q = None" using v4 by (simp_all add: ctl_ok_def)
  have r0: "\<forall>r \<in> set rows. (\<exists>b. is_shared (row_cfg r) = Inr b)
       \<and> (\<not> in_pool (row_port r) (cur_servers ?s) \<longrightarrow> (\<exists>b. changed (row_cfg r) (runs ?s (row_port r)) = Inr b))"
    using rows by simp
  obtain s1 where 1: "process_rows M only rows ?s = (Inr (), s1)" "ctl_ok s1"
      and 0: "pool_config (ctl_pool s1) = pool_config (ctl_pool ?s)"
      "\<forall>q. in_pool q (cur_servers s1) \<longleftrightarrow> in_pool q (cur_servers ?s) \<or> q \<in> row_port ` set rows"
      and w: "\<forall>q. \<not> in_pool q (cur_servers s1) \<longrightarrow> waits s1 q = None"
      and e: "\<forall>q. effect s1 q = (if in_pool q (cur_servers ?s) then effect ?s q
          else (case find (\<lambda>r. row_port r = q) rows of
                  Some r \<Rightarrow> wanted (pool_config (ctl_pool ?s)) only r (runs ?s q) | None \<Rightarrow> runs ?s q))"
      and g: "set (force_update_transfer (ctl_base s1)) \<subseteq> set (force_update_transfer (ctl_base ?s)) \<union> row_port ` set rows"
    using process_rows_effect [OF M s0 r0, of only] by (elim exE conjE) (rule that)
  have nc: "in_pool q (cur_servers ?s) = False" for q by (simp add: in_pool_def)
  note e = e [unfolded nc, simplified] and nc = 0 [unfolded nc, simplified]
  have "\<forall>q \<in> set (force_update_transfer (ctl_base s1)). in_pool q (cur_servers s1)" using nc(2) g f by auto
  from drop_rows_effect [OF 1(2) w this, of last_rows] obtain s2 where
      2: "drop_rows last_rows s1 = (Inr (), s2)" "ctl_ok s2" "pool_config (ctl_pool s2) = pool_config (ctl_pool s1)"
      "\<forall>q. effect s2 q = (if \<not> in_pool q (cur_servers s1) \<and> q \<in> row_port ` set last_rows then None else effect s1 q)"
    by (elim exE conjE) (rule that)
  have "v4_only (ctl_pool s2)" "distinct (map fst (new_servers s2))" "\<forall>p \<in> fst ` set (new_servers s2). runs s2 p = None"
    using 2(2) by (auto simp: ctl_ok_def) (metis map_of_eq_None_iff image_eqI fst_conv option.distinct(1))
  from start_new_runs [OF M this] obtain s3 where 3: "start_new M (new_servers s2) s2 = (Inr (), s3)" "v4_only (ctl_pool s3)"
      "\<forall>q. runs s3 q = effect s2 q" by (auto simp: effect_def)
  have "del_server_out_of_bound_safe M only now last_rows rows (pool, base)
      = (Inr (), ctl_pool (share_users now s3), ctl_base (share_users now s3))"
    using 1(1) 2(1) 3(1) by (simp add: del_server_out_of_bound_safe_def Let_def)
  moreover have "running (ctl_pool (share_users now s3)) p = (case find (\<lambda>r. row_port r = p) rows of
           Some r \<Rightarrow> wanted (pool_config pool) only r (running pool p)
         | None \<Rightarrow> if p \<in> row_port ` set last_rows then None else running pool p)" for p
    using share_users_running [OF 3(2), of now] 3(3) 2(4) nc e find_port_None [of p rows]
    by (auto split: option.split)
  ultimately show ?thesis using share_users_running [OF 3(2), of now] by blast
qed

lemma cfg_changed_same: "has_settings cfg relay \<Longrightarrow> cfg_changed V4 cfg relay names = Inr False"
proof (induction names)
  case (Cons n ns)
  have "cmp_setting v v = Inr True" for v by (cases v) (simp_all add: cmp_setting_def)
  then show ?case using Cons by (auto simp: has_settings_def rbind_def split: option.split)
qed simp

text \<open>A row whose server is as wanted changes nothing.\<close>

lemma idle_row:
  fixes s :: "'c control"
  assumes v4: "v4_only (ctl_pool s)" and c: "changed (row_cfg r) (runs s (row_port r)) = Inr False"
    and sh: "is_shared (row_cfg r) = Inr shared"
    and w: "runs s (row_port r) \<noteq> None \<longleftrightarrow> is_shared (row_cfg r) = Inr True \<or>
      \<not> only \<and> row_allowed r \<and> (runs s (row_port r) \<noteq> None \<or> 0 < row_port r \<and> row_port r < 65536)"
  shows "\<exists>s'. process_row M only r s = (Inr (), s') \<and> ctl_pool s' = ctl_pool s \<and> new_servers s' = new_servers s
    \<and> force_update_transfer (ctl_base s') = force_update_transfer (ctl_base s)
    \<and> (\<forall>q. in_pool q (cur_servers s') \<longleftrightarrow> q = row_port r \<or> in_pool q (cur_servers s))"
proof -
  note run = server_is_run_v4 [OF v4, of "row_port r"] server_run_status_v4 [OF v4, of "row_port r"] port_changed_v4 [OF v4]
  have idle: "apply_row M only (row_port r) (row_cfg r) shared (shared \<or> row_allowed r) False s' = (Inr (), s')"
    if "ctl_pool s' = ctl_pool s" for s' :: "'c control"
    using run w that sh by (auto simp: apply_row_def Let_def)
  show ?thesis
    using run c sh idle by (auto simp: process_row_def Let_def split: option.split)
qed

lemma idle_rows:
  assumes "v4_only (ctl_pool s)"
    and "\<forall>r \<in> set rows. changed (row_cfg r) (runs s (row_port r)) = Inr False \<and> (\<exists>b. is_shared (row_cfg r) = Inr b)
      \<and> (runs s (row_port r) \<noteq> None \<longleftrightarrow> is_shared (row_cfg r) = Inr True \<or>
      \<not> only \<and> row_allowed r \<and> (runs s (row_port r) \<noteq> None \<or> 0 < row_port r \<and> row_port r < 65536))"
  shows "\<exists>s'. process_rows M only rows s = (Inr (), s') \<and> ctl_pool s' = ctl_pool s \<and> new_servers s' = new_servers s
    \<and> force_update_transfer (ctl_base s') = force_update_transfer (ctl_base s)
    \<and> (\<forall>q. in_pool q (cur_servers s') \<longleftrightarrow> q \<in> row_port ` set rows \<or> in_pool q (cur_servers s))"
  using assms
proof (induction rows arbitrary: s)
  case (Cons r rows)
  obtain shared where sh: "is_shared (row_cfg r) = Inr shared" using Cons.prems(2) by auto
  have pr: "changed (row_cfg r) (runs s (row_port r)) = Inr False"
    "runs s (row_port r) \<noteq> None \<longleftrightarrow> is_shared (row_cfg r) = Inr True \<or>
      \<not> only \<and> row_allowed r \<and> (runs s (row_port r) \<noteq> None \<or> 0 < row_port r \<and> row_port r < 65536)"
    using Cons.prems(2) by simp_all
  obtain s1 where 1: "process_row M only r s = (Inr (), s1)" "ctl_pool s1 = ctl_pool s" "new_servers s1 = new_servers s"
      "force_update_transfer (ctl_base s1) = force_update_transfer (ctl_base s)"
      "\<forall>q. in_pool q (cur_servers s1) \<longleftrightarrow> q = row_port r \<or> in_pool q (cur_servers s)"
    using idle_row [OF Cons.prems(1) pr(1) sh pr(2), of M] by (elim exE conjE) (rule that)
  have v: "v4_only (ctl_pool s1)" using Cons.prems(1) 1(2) by simp
  have rs: "\<forall>r \<in> set rows. changed (row_cfg r) (runs s1 (row_port r)) = Inr False \<and> (\<exists>b. is_shared (row_cfg r) = Inr b)
      \<and> (runs s1 (row_port r) \<noteq> None \<longleftrightarrow> is_shared (row_cfg r) = Inr True \<or>
      \<not> only \<and> row_allowed r \<and> (runs s1 (row_port r) \<noteq> None \<or> 0 < row_port r \<and> row_port r < 65536))"
    using Cons.prems(2) unfolding 1(2) by simp
  obtain s2 where "process_rows M only rows s1 = (Inr (), s2)" "ctl_pool s2 = ctl_pool s1" "new_servers s2 = new_servers s1"
      "force_update_transfer (ctl_base s2) = force_update_transfer (ctl_base s1)"
      "\<forall>q. in_pool q (cur_servers s2) \<longleftrightarrow> q \<in> row_port ` set rows \<or> in_pool q (cur_servers s1)"
    using Cons.IH [OF v rs] by (elim exE conjE) (rule that)
  then show ?case using 1 by (intro exI [of _ s2]) auto
qed simp

lemma drop_rows_idle: "\<forall>r \<in> set rows. in_pool (row_port r) (cur_servers s) \<Longrightarrow> drop_rows rows s = (Inr (), s)"
  by (induction rows) (auto simp: drop_row_def)

lemma find_row: "distinct (map row_port rows) \<Longrightarrow> r \<in> set rows \<Longrightarrow> find (\<lambda>r'. row_port r' = row_port r) rows = Some r"
  by (induction rows) force+

text \<open>The ports that run, when the pass has done what it is to do at each.\<close>

lemma served_ports:
  assumes "\<forall>p. running pool' p = (case find (\<lambda>r. row_port r = p) rows of
           Some r \<Rightarrow> wanted config only r (running pool p)
         | None \<Rightarrow> if p \<in> row_port ` set last_rows then None else running pool p)"
  shows "in_pool p (tcp_servers_pool pool') \<longleftrightarrow>
         (case find (\<lambda>r. row_port r = p) rows of
            Some r \<Rightarrow> is_shared (row_cfg r) = Inr True
              \<or> \<not> only \<and> row_allowed r \<and> (in_pool p (tcp_servers_pool pool) \<or> 0 < p \<and> p < 65536)
          | None \<Rightarrow> in_pool p (tcp_servers_pool pool) \<and> p \<notin> row_port ` set last_rows)"
proof (cases "find (\<lambda>r. row_port r = p) rows")
  case None
  then show ?thesis using assms [rule_format, of p] by (simp add: in_pool_running split: if_splits)
next
  case (Some r)
  then have "running pool' p = wanted config only r (running pool p)" using assms [rule_format, of p] by simp
  moreover have "row_port r = p" using Some by (auto simp: find_Some_iff)
  ultimately show ?thesis
    using wanted_None [of config only r "running pool p"] Some by (simp only: option.case in_pool_running)
qed


text \<open>C21. A second pass with the same rows changes nothing: the same relays run with the same
  configurations, and no port is stopped and started again.\<close>

theorem control_settled:
  fixes pool :: "'c server_pool"
  assumes "makes_relays M" and "v4_only pool" and "force_update_transfer base = []" and dist: "distinct (map row_port rows)"
    and rows: "\<forall>r \<in> set rows. (\<exists>b. is_shared (row_cfg r) = Inr b) \<and> (\<exists>b. changed (row_cfg r) (running pool (row_port r)) = Inr b)"
    and first: "del_server_out_of_bound_safe M only now last_rows rows (pool, base) = (Inr (), pool', base')"
    and billed: "force_update_transfer base2 = []"
  shows "\<exists>pool2 base3. del_server_out_of_bound_safe M only now2 rows rows (pool', base2) = (Inr (), pool2, base3)
    \<and> running pool2 = running pool' \<and> force_update_transfer base3 = []"
proof -
  have v4: "v4_only pool'" and run: "\<forall>p. running pool' p = (case find (\<lambda>r. row_port r = p) rows of
           Some r \<Rightarrow> wanted (pool_config pool) only r (running pool p)
         | None \<Rightarrow> if p \<in> row_port ` set last_rows then None else running pool p)"
    using pass_effect [OF assms(1-3) rows, of only now last_rows] first by auto
  let ?s = "\<lparr>ctl_pool = pool', ctl_base = base2, cur_servers = [], new_servers = [], allow_users = [], mu_servers = []\<rparr>"
  have "changed (row_cfg r) (running pool' (row_port r)) = Inr False \<and> (\<exists>b. is_shared (row_cfg r) = Inr b)
      \<and> (running pool' (row_port r) \<noteq> None \<longleftrightarrow> is_shared (row_cfg r) = Inr True \<or>
      \<not> only \<and> row_allowed r \<and> (running pool' (row_port r) \<noteq> None \<or> 0 < row_port r \<and> row_port r < 65536))" if "r \<in> set rows" for r
  proof -
    let ?c = "running pool (row_port r)"
    have w: "running pool' (row_port r) = wanted (pool_config pool) only r ?c" using run find_row [OF dist that] by simp
    have "changed (row_cfg r) (wanted (pool_config pool) only r ?c) = Inr False"
    proof (cases "wanted (pool_config pool) only r ?c")
      case (Some relay)
      with rows that wanted_settings show ?thesis by (metis changed_def cfg_changed_same option.simps(5))
    qed (simp add: changed_def)
    then show ?thesis using rows that wanted_None [of "pool_config pool" only r ?c] unfolding w by auto
  qed
  then have rs: "\<forall>r \<in> set rows. changed (row_cfg r) (runs ?s (row_port r)) = Inr False \<and> (\<exists>b. is_shared (row_cfg r) = Inr b)
      \<and> (runs ?s (row_port r) \<noteq> None \<longleftrightarrow> is_shared (row_cfg r) = Inr True \<or>
      \<not> only \<and> row_allowed r \<and> (runs ?s (row_port r) \<noteq> None \<or> 0 < row_port r \<and> row_port r < 65536))" by simp
  have v: "v4_only (ctl_pool ?s)" using v4 by simp
  obtain s1 where 1: "process_rows M only rows ?s = (Inr (), s1)" "ctl_pool s1 = ctl_pool ?s" "new_servers s1 = new_servers ?s"
      "force_update_transfer (ctl_base s1) = force_update_transfer (ctl_base ?s)"
      "\<forall>q. in_pool q (cur_servers s1) \<longleftrightarrow> q \<in> row_port ` set rows \<or> in_pool q (cur_servers ?s)"
    using idle_rows [OF v rs, of M] by (elim exE conjE) (rule that)
  have "drop_rows rows s1 = (Inr (), s1)" by (rule drop_rows_idle) (simp add: 1(5))
  then have "del_server_out_of_bound_safe M only now2 rows rows (pool', base2)
      = (Inr (), ctl_pool (share_users now2 s1), ctl_base (share_users now2 s1))"
    using 1(1,3) by (simp add: del_server_out_of_bound_safe_def Let_def)
  moreover have "running (ctl_pool (share_users now2 s1)) = running pool'" using share_users_running [of s1 now2] v 1(2) by simp
  moreover have "force_update_transfer (ctl_base (share_users now2 s1)) = []" using 1(4) billed by (simp add: share_users_def)
  ultimately show ?thesis by blast
qed

text \<open>A setting that only the row has, such as a speed limit, makes the comparison with an IPv4 relay
  raise, where the one with an IPv6 relay sees a change.\<close>

theorem new_setting_raises:
  "cfg_changed V4 [(''speed_limit_per_user'', Number 10)] [] merge_config_keys = Inl KeyError
   \<and> cfg_changed V6 [(''speed_limit_per_user'', Number 10)] [] merge_config_keys = Inr True"
  by (simp add: merge_config_keys_def read_config_keys_def)

subsection \<open>A pool and two rows\<close>

definition example_row :: "int \<Rightarrow> int \<Rightarrow> user_row" where
  "example_row port traffic = \<lparr>row_port = port, row_passwd = ''x'', row_enable = Some 1, row_u = Some traffic, row_d = Some 0,
     row_transfer_enable = Some 100, row_id = None, row_settings = [(''method'', Text ''rc4'')]\<rparr>"

definition example_relays :: "unit relay_maker" where
  "example_relays = \<lparr>make_tcp = (\<lambda>_ _. Inr example_tcp), make_udp = (\<lambda>_ _. Inl OSError)\<rparr>"

lemmas example_settings = example_row_def row_cfg_def read_config_keys_def List.map_filter_simps truthy_def

lemma example_premises:
  "makes_relays example_relays" "v4_only example_pool" "force_update_transfer transfer_new = []"
  "\<forall>r \<in> set [example_row 81 5, example_row 82 100].
     (\<exists>b. is_shared (row_cfg r) = Inr b) \<and> (\<exists>b. changed (row_cfg r) (running example_pool (row_port r)) = Inr b)"
  by (auto simp: makes_relays_def example_relays_def v4_only_def example_pool_def transfer_new_def is_shared_def
      example_settings changed_def running_def)


theorem control_settled_witness:
  "\<exists>pool' base' pool2 base3. del_server_out_of_bound_safe example_relays False 0 [example_row 80 5]
      [example_row 81 5, example_row 82 100] (example_pool, transfer_new) = (Inr (), pool', base')
    \<and> del_server_out_of_bound_safe example_relays False 9 [example_row 81 5, example_row 82 100]
      [example_row 81 5, example_row 82 100] (pool', transfer_new) = (Inr (), pool2, base3)
    \<and> running pool2 = running pool' \<and> force_update_transfer base3 = []"
proof -
  from pass_effect [OF example_premises, of False 0 "[example_row 80 5]"] obtain pool' base' where
      d: "del_server_out_of_bound_safe example_relays False 0 [example_row 80 5]
        [example_row 81 5, example_row 82 100] (example_pool, transfer_new) = (Inr (), pool', base')"
    by (elim exE conjE) (rule that)
  have "distinct (map row_port [example_row 81 5, example_row 82 100])" by (simp add: example_row_def)
  from control_settled [OF example_premises(1-3) this example_premises(4) d example_premises(3), of 9] d show ?thesis by blast
qed

end
