(* ===== verification/Db_Rounds.thy ===== *)
theory Db_Rounds
  imports Control_Proofs Transfer_Db Inet
begin

text \<open>
  \<^verbatim>\<open>thread_db\<close> of \<^verbatim>\<open>db_transfer.py\<close>: the rounds in which the traffic is booked, the rows are
  read and the servers are started and stopped, and how the kinds of databases read their rows. What
  the SQL library and the file give is an argument, an exception of theirs included. Waiting for the
  next round and reloading the configuration are left out.
\<close>

subsection \<open>Reading rows\<close>

text \<open>\<^verbatim>\<open>Dbv3Transfer.pull_db_users\<close>: the answers of the two SELECT statements; the factor for the
  traffic is read along.\<close>

definition pull_v3_users :: "bool \<Rightarrow> rat option res \<Rightarrow> user_row list res \<Rightarrow> sql_db \<Rightarrow> user_row list res \<times> sql_db" where
  "pull_v3_users update_node_state nodeinfo selected db =
     (let rows = (case selected of Inl _ \<Rightarrow> Inr [] | Inr rs \<Rightarrow> Inr rs)
      in if update_node_state
         then (case nodeinfo of
                 Inr (Some rate) \<Rightarrow> (rows, db\<lparr>transfer_mul := rate\<rparr>)
               | _ \<Rightarrow> (Inr [], db))
         else (rows, db))"

text \<open>\<^verbatim>\<open>DbTransfer.pull_db_users\<close> has no handler.\<close>

definition pull_db_users :: "user_row list res \<Rightarrow> sql_db \<Rightarrow> user_row list res \<times> sql_db" where
  "pull_db_users selected db = (selected, db)"

text \<open>\<^verbatim>\<open>MuJsonTransfer.pull_db_all_user\<close>: the two columns that become objects. A text that is no list
  of networks stays a text; a number is not a text that could be split.\<close>

definition convert_column :: "bytes \<Rightarrow> (bytes \<Rightarrow> bool) \<Rightarrow> user_row \<Rightarrow> user_row" where
  "convert_column name ok r =
     (case map_of (row_settings r) name of
        Some (Text t) \<Rightarrow> if ok t then r\<lparr>row_settings := AList.update name (Ranges t) (row_settings r)\<rparr> else r
      | _ \<Rightarrow> r)"

definition mujson_pull :: "user_row list res \<Rightarrow> user_row list res" where
  "mujson_pull file =
     (case file of
        Inl e \<Rightarrow> Inl e
      | Inr rows \<Rightarrow>
          Inr (map (\<lambda>r. convert_column ''forbidden_port'' (\<lambda>_. True)
                     (convert_column ''forbidden_ip'' (\<lambda>t. case ip_network_new t of Inl _ \<Rightarrow> False | Inr _ \<Rightarrow> True) r)) rows))"

text \<open>A row for an additional port of the configuration\<close>

definition additional_row :: "int \<Rightarrow> bytes \<Rightarrow> config \<Rightarrow> user_row" where
  "additional_row port pw val =
     \<lparr>row_port = port, row_passwd = pw, row_enable = Some 1, row_u = Some 0, row_d = Some 0,
      row_transfer_enable = Some (1024 ^ 7), row_id = None, row_settings = val\<rparr>"

subsection \<open>A round\<close>

record ('c, 'd) db_thread =
  th_pool :: "'c server_pool"
  th_base :: transfer_base
  th_db :: 'd
  th_last_rows :: "user_row list"

definition push_traffic :: "(transfer_base \<Rightarrow> accounts \<Rightarrow> 'd \<Rightarrow> accounts res \<times> 'd) \<Rightarrow> time \<Rightarrow> ('c, 'd) db_thread
    \<Rightarrow> unit res \<times> ('c, 'd) db_thread" where
  "push_traffic upd now th =
     (if \<not> pull_ok (th_base th) then (Inr (), th)
      else
        (case get_servers_transfer (th_pool th) of
           Inl e \<Rightarrow> (Inl e, th)
         | Inr cu \<Rightarrow>
             (case push_db_all_user upd now cu (th_base th, th_db th) of
                (r, b, d) \<Rightarrow> (r, th\<lparr>th_base := b, th_db := d\<rparr>))))"

text \<open>The result tells whether an exception was logged.\<close>

definition thread_round :: "'c relay_maker \<Rightarrow> bool \<Rightarrow> (transfer_base \<Rightarrow> accounts \<Rightarrow> 'd \<Rightarrow> accounts res \<times> 'd)
    \<Rightarrow> ('d \<Rightarrow> user_row list res \<times> 'd) \<Rightarrow> user_row list \<Rightarrow> time \<Rightarrow> ('c, 'd) db_thread \<Rightarrow> unit res \<times> ('c, 'd) db_thread" where
  "thread_round M additional_ports_only upd pull additional now th =
     (case push_traffic upd now th of
        (Inl e, th1) \<Rightarrow> (Inl e, th1)
      | (Inr _, th1) \<Rightarrow>
          (case pull (th_db th1) of
             (Inl e, d) \<Rightarrow> (Inl e, th1\<lparr>th_db := d\<rparr>)
           | (Inr pulled, d) \<Rightarrow>
               (let rows = (if pulled \<noteq> [] then pulled @ additional else []);
                    base = (if pulled \<noteq> [] then (th_base th1)\<lparr>pull_ok := True\<rparr> else th_base th1)
                in case del_server_out_of_bound_safe M additional_ports_only now (th_last_rows th1) rows (th_pool th1, base) of
                     (Inl e, p, b) \<Rightarrow> (Inl e, th1\<lparr>th_db := d, th_pool := p, th_base := b\<rparr>)
                   | (Inr _, p, b) \<Rightarrow> (Inr (), th1\<lparr>th_db := d, th_pool := p, th_base := b, th_last_rows := rows\<rparr>))))"

text \<open>\<^verbatim>\<open>del_servers\<close>, when the thread ends\<close>

fun stop_ports :: "int list \<Rightarrow> 'c server_pool \<Rightarrow> unit res \<times> 'c server_pool" where
  "stop_ports [] s = (Inr (), s)"
| "stop_ports (p # ps) s =
     (if server_is_run p s > 0
      then (case cb_del_server p s of (Inl e, s1) \<Rightarrow> (Inl e, s1) | (Inr _, s1) \<Rightarrow> stop_ports ps s1)
      else stop_ports ps s)"

definition del_servers :: "'c server_pool \<Rightarrow> unit res \<times> 'c server_pool" where
  "del_servers s =
     (case stop_ports (map fst (tcp_servers_pool s)) s of
        (Inl e, s1) \<Rightarrow> (Inl e, s1)
      | (Inr _, s1) \<Rightarrow> stop_ports (map fst (tcp_ipv6_servers_pool s1)) s1)"

subsection \<open>Rounds of a server with IPv4 sockets\<close>

text \<open>Either rows have been read once, so that booking runs and empties the set of forced ports, or
  nothing was stopped yet.\<close>

definition thread_ok :: "('c, 'd) db_thread \<Rightarrow> bool" where
  "thread_ok th \<longleftrightarrow> v4_only (th_pool th) \<and> (pull_ok (th_base th) \<or> force_update_transfer (th_base th) = [])"

definition rows_clear :: "'c server_pool \<Rightarrow> user_row list \<Rightarrow> bool" where
  "rows_clear pool rows \<longleftrightarrow>
     (\<forall>r \<in> set rows. (\<exists>b. is_shared (row_cfg r) = Inr b) \<and> (\<exists>b. changed (row_cfg r) (running pool (row_port r)) = Inr b))"

lemma push_keeps:
  assumes "push_traffic upd now th = (Inr (), th1)" and "thread_ok th"
  shows "th_pool th1 = th_pool th \<and> th_last_rows th1 = th_last_rows th \<and> force_update_transfer (th_base th1) = []"
proof (cases "pull_ok (th_base th)")
  case True
  then obtain cu b d where "push_db_all_user upd now cu (th_base th, th_db th) = (Inr (), b, d)"
      "th1 = th\<lparr>th_base := b, th_db := d\<rparr>"
    using assms(1) by (auto simp: push_traffic_def split: sum.splits prod.splits)
  then show ?thesis
    using True by (auto simp: push_db_all_user_def split: sum.splits prod.splits)
next
  case False
  then show ?thesis using assms by (auto simp: push_traffic_def thread_ok_def)
qed

lemma push_pool: "push_traffic upd now th = (r, th1) \<Longrightarrow> th_pool th1 = th_pool th \<and> th_last_rows th1 = th_last_rows th"
  by (auto simp: push_traffic_def split: sum.splits prod.splits if_splits)

lemma round_effect:
  assumes M: "makes_relays M" and ok: "thread_ok th" and push: "push_traffic upd now th = (Inr (), th1)"
    and pull: "pull (th_db th1) = (Inr pulled, d)" and rows: "rows = (if pulled \<noteq> [] then pulled @ additional else [])"
    and clear: "rows_clear (th_pool th) rows"
  shows "\<exists>th'. thread_round M only upd pull additional now th = (Inr (), th') \<and> th_last_rows th' = rows
    \<and> v4_only (th_pool th') \<and> (\<forall>p. running (th_pool th') p = (case find (\<lambda>r. row_port r = p) rows of
           Some r \<Rightarrow> wanted (pool_config (th_pool th)) only r (running (th_pool th) p)
         | None \<Rightarrow> if p \<in> row_port ` set (th_last_rows th) then None else running (th_pool th) p))"
proof -
  note k = push_keeps [OF push ok]
  let ?base = "if pulled \<noteq> [] then (th_base th1)\<lparr>pull_ok := True\<rparr> else th_base th1"
  have v4: "v4_only (th_pool th)" and f: "force_update_transfer ?base = []" using ok k by (simp_all add: thread_ok_def)
  from pass_effect [OF M v4 f clear [unfolded rows_clear_def], of only now "th_last_rows th"] obtain p b where
      del: "del_server_out_of_bound_safe M only now (th_last_rows th) rows (th_pool th, ?base) = (Inr (), p, b)" "v4_only p"
        "\<forall>q. running p q = (case find (\<lambda>r. row_port r = q) rows of
           Some r \<Rightarrow> wanted (pool_config (th_pool th)) only r (running (th_pool th) q)
         | None \<Rightarrow> if q \<in> row_port ` set (th_last_rows th) then None else running (th_pool th) q)"
    by (elim exE conjE) (rule that)
  have "thread_round M only upd pull additional now th = (Inr (), th1\<lparr>th_db := d, th_pool := p, th_base := b, th_last_rows := rows\<rparr>)"
    using push pull del(1) k unfolding thread_round_def rows [symmetric] by (simp add: rows [symmetric] Let_def)
  then show ?thesis using del(2,3) by auto
qed

subsection \<open>What a pass leaves of the books\<close>

lemma ctl_new_base: "ctl_base (snd (ctl_new M port cfg s)) = ctl_base s"
  by (auto simp: ctl_new_def split: prod.split sum.split)

lemma ctl_stop_pull_ok: "pull_ok (ctl_base (snd (ctl_stop port s))) = pull_ok (ctl_base s)"
  by (auto simp: ctl_stop_def split: prod.split sum.split)

lemma ctl_restart_pull_ok: "pull_ok (ctl_base (snd (ctl_restart port cfg s))) = pull_ok (ctl_base s)"
  using ctl_stop_pull_ok [of port s] by (auto simp: ctl_restart_def split: prod.split sum.split)

lemma apply_row_pull_ok: "pull_ok (ctl_base (snd (apply_row M only port cfg shared allow chg s))) = pull_ok (ctl_base s)"
  by (simp add: apply_row_def Let_def ctl_new_base ctl_stop_pull_ok ctl_restart_pull_ok)

lemma process_row_pull_ok: "pull_ok (ctl_base (snd (process_row M only r s))) = pull_ok (ctl_base s)"
  by (auto simp: process_row_def Let_def apply_row_pull_ok split: option.split sum.split)

lemma process_rows_pull_ok: "pull_ok (ctl_base (snd (process_rows M only rows s))) = pull_ok (ctl_base s)"
proof (induction rows arbitrary: s)
  case (Cons r rows)
  obtain x s1 where p: "process_row M only r s = (x, s1)" using prod.exhaust by blast
  then have "pull_ok (ctl_base s1) = pull_ok (ctl_base s)" using process_row_pull_ok [of M only r s] by simp
  then show ?case using Cons.IH [of s1] p by (cases x) simp_all
qed simp

lemma drop_row_base:
  "pull_ok (ctl_base (snd (drop_row p s))) = pull_ok (ctl_base s)
   \<and> force_update_transfer (ctl_base (snd (drop_row p s))) = force_update_transfer (ctl_base s)"
  by (auto simp: drop_row_def clear_cache_def split: prod.split sum.split)

lemma drop_rows_base:
  "pull_ok (ctl_base (snd (drop_rows rows s))) = pull_ok (ctl_base s)
   \<and> force_update_transfer (ctl_base (snd (drop_rows rows s))) = force_update_transfer (ctl_base s)"
proof (induction rows arbitrary: s)
  case (Cons r rows)
  obtain x s1 where p: "drop_row (row_port r) s = (x, s1)" using prod.exhaust by blast
  then show ?case using drop_row_base [of "row_port r" s] Cons.IH [of s1] by (cases x) simp_all
qed simp

lemma start_new_base: "ctl_base (snd (start_new M ps s)) = ctl_base s"
proof (induction ps arbitrary: s)
  case (Cons e ps)
  obtain p cfg where e: "e = (p, cfg)" using prod.exhaust by blast
  obtain x s1 where n: "ctl_new M p cfg s = (x, s1)" using prod.exhaust by blast
  then show ?case using e ctl_new_base [of M p cfg s] Cons.IH [of s1] by (cases x) simp_all
qed simp

lemma pass_base:
  assumes "del_server_out_of_bound_safe M only now last_rows rows (pool, base) = (Inr (), pool', base')"
  shows "pull_ok base' = pull_ok base" and "rows = [] \<Longrightarrow> force_update_transfer base' = force_update_transfer base"
proof -
  let ?s = "\<lparr>ctl_pool = pool, ctl_base = base, cur_servers = [], new_servers = [], allow_users = [], mu_servers = []\<rparr>"
  obtain s1 s2 s3 where s: "process_rows M only rows ?s = (Inr (), s1)" "drop_rows last_rows s1 = (Inr (), s2)"
      "start_new M (new_servers s2) s2 = (Inr (), s3)" "base' = ctl_base (share_users now s3)"
    using assms by (auto simp: del_server_out_of_bound_safe_def Let_def split: sum.splits prod.splits)
  note f = drop_rows_base [of last_rows s1] start_new_base [of M "new_servers s2" s2]
  show "pull_ok base' = pull_ok base"
    using process_rows_pull_ok [of M only rows ?s] f s by (simp add: share_users_def)
  show "rows = [] \<Longrightarrow> force_update_transfer base' = force_update_transfer base"
    using f s by (auto simp: share_users_def)
qed


text \<open>C23. When the statement that reads the rows fails, the first kind of database leaves all servers
  alone; the second takes it for an empty answer and stops every port of the round before.\<close>

theorem failed_select:
  fixes th :: "('c, sql_db) db_thread"
  assumes "makes_relays M" and "thread_ok th" and "push_traffic upd now th = (Inr (), th1)"
  shows "(\<exists>th'. thread_round M only upd (pull_db_users (Inl e)) additional now th = (Inl e, th') \<and> th_pool th' = th_pool th)
    \<and> (\<exists>th'. thread_round M only upd (pull_v3_users state nodeinfo (Inl e)) additional now th = (Inr (), th')
        \<and> (\<forall>p. in_pool p (tcp_servers_pool (th_pool th'))
             \<longleftrightarrow> in_pool p (tcp_servers_pool (th_pool th)) \<and> p \<notin> row_port ` set (th_last_rows th)))"
proof
  show "\<exists>th'. thread_round M only upd (pull_db_users (Inl e)) additional now th = (Inl e, th') \<and> th_pool th' = th_pool th"
    using push_pool [OF assms(3)] assms(3) by (simp add: thread_round_def pull_db_users_def)
  have d: "pull_v3_users state nodeinfo (Inl e) (th_db th1) = (Inr [], snd (pull_v3_users state nodeinfo (Inl e) (th_db th1)))"
    by (auto simp: pull_v3_users_def Let_def split: sum.split option.split)
  have "rows_clear (th_pool th) []" by (simp add: rows_clear_def)
  from round_effect [where pull = "pull_v3_users state nodeinfo (Inl e)" and additional = additional and only = only,
      OF assms(1-3) d _ this] obtain th' where
      t: "thread_round M only upd (pull_v3_users state nodeinfo (Inl e)) additional now th = (Inr (), th')"
      "\<forall>p. running (th_pool th') p = (if p \<in> row_port ` set (th_last_rows th) then None else running (th_pool th) p)"
    by auto
  then show "\<exists>th'. thread_round M only upd (pull_v3_users state nodeinfo (Inl e)) additional now th = (Inr (), th')
        \<and> (\<forall>p. in_pool p (tcp_servers_pool (th_pool th'))
             \<longleftrightarrow> in_pool p (tcp_servers_pool (th_pool th)) \<and> p \<notin> row_port ` set (th_last_rows th))"
    unfolding in_pool_running by (intro exI [of _ th']) simp
qed

subsection \<open>A round\<close>

definition example_thread :: "'d \<Rightarrow> (unit, 'd) db_thread" where
  "example_thread d = \<lparr>th_pool = example_pool, th_base = transfer_new, th_db = d, th_last_rows = [example_row 80 5]\<rparr>"

lemma example_thread_ok:
  "thread_ok (example_thread d)" "push_traffic upd now (example_thread d) = (Inr (), example_thread d)"
  using example_premises(2) by (simp_all add: thread_ok_def example_thread_def push_traffic_def transfer_new_def)


lemma failed_select_witness:
  "\<exists>th'. thread_round example_relays False (\<lambda>_ dt d. (Inr dt, d)) (pull_v3_users False (Inr None) (Inl OSError)) [] 0
      (example_thread \<lparr>user_pass = [], transfer_mul = 1, sql_books = (\<lambda>_. (0, 0))\<rparr>) = (Inr (), th')
    \<and> \<not> in_pool 80 (tcp_servers_pool (th_pool th'))"
  using conjunct2 [OF failed_select [where upd = "\<lambda>_ dt d. (Inr dt, d)" and now = 0 and only = False and additional = "[]"
        and state = False and nodeinfo = "Inr None" and e = OSError,
      OF example_premises(1) example_thread_ok(1) example_thread_ok(2) [of _ _ "\<lparr>user_pass = [], transfer_mul = 1, sql_books = (\<lambda>_. (0, 0))\<rparr>"]]]
  by (fastforce simp: example_thread_def example_row_def)

subsection \<open>The end of the thread, and passes that are cut off\<close>

lemma stop_ports_running:
  assumes "v4_only s"
  shows "\<exists>s'. stop_ports ps s = (Inr (), s') \<and> v4_only s' \<and> (\<forall>q. running s' q = (if q \<in> set ps then None else running s q))"
  using assms
proof (induction ps arbitrary: s)
  case (Cons p ps)
  show ?case
  proof (cases "server_is_run p s > 0")
    case True
    obtain s1 where s1: "cb_del_server p s = (Inr (), s1)" "v4_only s1" "running s1 = (running s)(p := None)"
      using cb_del_server_running [OF Cons.prems, of p] by blast
    then show ?thesis using Cons.IH [OF s1(2)] True by fastforce
  next
    case False
    then have "running s p = None" using server_is_run_v4 [OF Cons.prems, of p] by simp
    then show ?thesis using Cons.IH [OF Cons.prems] False by fastforce
  qed
qed simp

text \<open>\<^verbatim>\<open>del_servers\<close> leaves no server running.\<close>

theorem del_servers_all:
  assumes "v4_only s"
  shows "\<exists>s'. del_servers s = (Inr (), s') \<and> (\<forall>p. \<not> in_pool p (tcp_servers_pool s') \<and> \<not> in_pool p (tcp_ipv6_servers_pool s'))"
proof -
  obtain s1 where s1: "stop_ports (map fst (tcp_servers_pool s)) s = (Inr (), s1)" "v4_only s1"
      "\<forall>q. running s1 q = (if q \<in> set (map fst (tcp_servers_pool s)) then None else running s q)"
    using stop_ports_running [OF assms] by blast
  have "running s q = None" if "q \<notin> set (map fst (tcp_servers_pool s))" for q
    using that by (simp add: running_def map_of_eq_None_iff)
  then have "running s1 q = None" for q using s1(3) by simp
  moreover have "tcp_ipv6_servers_pool s1 = []" using s1(2) by (simp add: v4_only_def)
  ultimately show ?thesis using s1(1) by (simp add: del_servers_def in_pool_running) (simp add: in_pool_def)
qed

text \<open>A pass that raises leaves the servers it has started, but the rows of the round before stay as
  they were. When the row is gone in the next round, its port is in neither list and keeps running.\<close>

theorem cut_off_pass:
  "\<exists>pool base. del_server_out_of_bound_safe example_relays False 0 [] [example_row 81 5, example_row 80 5] (example_pool, transfer_new)
      = (Inl KeyError, pool, base) \<and> running pool 81 \<noteq> None"
proof -
  let ?s = "\<lparr>ctl_pool = example_pool, ctl_base = transfer_new, cur_servers = [], new_servers = [], allow_users = [], mu_servers = []\<rparr>"
  let ?r = "example_row 81 5" and ?q = "example_row 80 5"
  have r: "row_allowed (example_row n 5)" "is_shared (row_cfg (example_row n 5)) = Inr False" "row_port (example_row n t) = n"
    "row_id (example_row n t) = None" for n t
    by (simp_all add: row_allowed_def is_turn_on_def is_shared_def example_settings)
  have v4: "v4_only example_pool" by (rule example_premises(2))
  let ?s3 = "?s\<lparr>cur_servers := [(81, ''x'')], allow_users := [(81, row_cfg ?r)]\<rparr>"
  have c: "port_changed (row_cfg ?r) 81 example_pool = Inr False" "\<not> server_is_run 81 example_pool > 0" "\<not> server_run_status 81 example_pool"
    using port_changed_v4 [OF v4] server_is_run_v4 [OF v4] server_run_status_v4 [OF v4]
    by (simp_all add: changed_def running_def example_pool_def)
  have 1: "process_row example_relays False ?r ?s = ctl_new example_relays 81 (row_cfg ?r) ?s3"
    using c r by (simp add: process_row_def apply_row_def in_pool_def Let_def) (simp add: example_row_def)
  have v3: "v4_only (ctl_pool ?s3)" using v4 by simp
  obtain s1 where s1: "ctl_new example_relays 81 (row_cfg ?r) ?s3 = (Inr (), s1)" "v4_only (ctl_pool s1)"
      "runs s1 = (if runs ?s3 81 = None then (runs ?s3)(81 \<mapsto> started (pool_config (ctl_pool ?s3)) 81 (row_cfg ?r)) else runs ?s3)"
      "s1 = ?s3\<lparr>ctl_pool := ctl_pool s1\<rparr>"
    using ctl_new_runs [OF example_premises(1) v3, of 81 "row_cfg ?r"] by (elim exE conjE) (rule that)
  have cur: "cur_servers s1 = [(81, ''x'')]" by (subst s1(4)) simp
  have run: "runs s1 81 \<noteq> None" "runs s1 80 = Some []"
    using s1(3) by (simp_all add: running_def example_pool_def)
  have "port_changed (row_cfg ?q) 80 (ctl_pool s1) = Inl KeyError"
    using port_changed_v4 [OF s1(2)] run(2) by (simp add: changed_def merge_config_keys_def example_row_def row_cfg_def)
  then have 2: "\<exists>s2. process_row example_relays False ?q s1 = (Inl KeyError, s2) \<and> ctl_pool s2 = ctl_pool s1"
    using r cur by (simp add: process_row_def in_pool_def Let_def)
  then show ?thesis
    using 1 s1(1) run(1) by (auto simp: del_server_out_of_bound_safe_def Let_def)
qed

end
