(* ===== verification/Loop_Proofs.thy ===== *)
theory Loop_Proofs
  imports Event_Loop
begin

text \<open>
  Properties of \<^verbatim>\<open>eventloop.py\<close>: its own pollers never report a descriptor that the loop does not
  know, the order in which callbacks are run when some remove themselves, and what happens when
  the poller is interrupted.
\<close>

subsection \<open>The two pollers\<close>


lemmas poller_defs = loop_add_def loop_modify_def lift_impl_def loop_new_def
  select_ops_def select_modify_def select_unregister_def select_register_def select_new_def
  kqueue_ops_def kqueue_register_def kq_control_def kqueue_new_def
  has_flag_def POLL_IN_def POLL_OUT_def POLL_ERR_def


text \<open>The contract is needed: a mode that is changed for a descriptor without a file makes the next
  \<^verbatim>\<open>poll\<close> over \<^verbatim>\<open>SelectLoop\<close> raise \<^verbatim>\<open>KeyError\<close>, which ends \<^verbatim>\<open>run\<close>.\<close>

theorem modify_after_remove:
  "let l = snd (loop_modify select_ops 7 POLL_IN (loop_new select_new 0 :: (select_loop, nat, nat) event_loop))
   in select_reports (impl l) (select_poll ([7], [], [])) \<and> loop_poll (select_poll ([7], [], [])) l = Inl KeyError"
proof -
  let ?l = "snd (loop_modify select_ops 7 POLL_IN (loop_new select_new 0 :: (select_loop, nat, nat) event_loop))"
  have "r_list (impl ?l) = {7}" by (simp add: poller_defs)
  then have "select_reports (impl ?l) (select_poll ([7], [], []))"
    unfolding select_reports_def by (intro exI [of _ "[7]"] exI [of _ "[]"]) simp
  moreover have "loop_poll (select_poll ([7], [], [])) ?l = Inl KeyError"
    by (simp add: loop_poll_def select_poll_def or_into_def poller_defs)
  ultimately show ?thesis by simp
qed

subsection \<open>Callbacks that remove themselves\<close>

text \<open>The callbacks that are run, and those that stay: the one behind a callback that leaves stays and
  is not run.\<close>

fun called :: "('k \<Rightarrow> bool) \<Rightarrow> 'k list \<Rightarrow> 'k list" where
  "called leaves [] = []"
| "called leaves [c] = [c]"
| "called leaves (c # d # cs) = c # (if leaves c then called leaves cs else called leaves (d # cs))"

fun staying :: "('k \<Rightarrow> bool) \<Rightarrow> 'k list \<Rightarrow> 'k list" where
  "staying leaves [] = []"
| "staying leaves [c] = (if leaves c then [] else [c])"
| "staying leaves (c # d # cs) = (if leaves c then d # staying leaves cs else c # staying leaves (d # cs))"

text \<open>A callback that notes its name, and leaves the loop or not.\<close>

definition noting :: "('k \<Rightarrow> bool) \<Rightarrow> ('s, 'h, 'k, 'k list) callback_fun" where
  "noting leaves c lw =
     (case lw of (l, w) \<Rightarrow> if leaves c then (case remove_periodic c l of (r, l1) \<Rightarrow> (r, l1, w @ [c])) else (Inr (), l, w @ [c]))"

lemma run_callbacks_end: "length (periodic_callbacks l) \<le> i \<Longrightarrow> run_callbacks call i (l, w) = Some (Inr (), l, w)"
  by (subst run_callbacks.simps) simp

lemma run_callbacks_noting:
  "distinct (as @ cs) \<Longrightarrow> run_callbacks (noting leaves) (length as) (l\<lparr>periodic_callbacks := as @ cs\<rparr>, w)
    = Some (Inr (), l\<lparr>periodic_callbacks := as @ staying leaves cs\<rparr>, w @ called leaves cs)"
proof (induction leaves cs arbitrary: as w rule: called.induct)
  case (2 leaves c)
  then show ?case
    by (subst run_callbacks.simps) (simp add: noting_def remove_periodic_def remove1_append run_callbacks_end)
next
  case (3 leaves c d cs)
  show ?case
  proof (cases "leaves c")
    case True
    have n: "c \<notin> set as" "distinct ((as @ [d]) @ cs)" using "3.prems" by auto
    have "run_callbacks (noting leaves) (length as) (l\<lparr>periodic_callbacks := as @ c # d # cs\<rparr>, w)
      = run_callbacks (noting leaves) (length (as @ [d])) (l\<lparr>periodic_callbacks := (as @ [d]) @ cs\<rparr>, w @ [c])"
      using True n by (subst run_callbacks.simps) (simp add: noting_def remove_periodic_def remove1_append)
    then show ?thesis using "3.IH"(1) [OF True n(2), of "w @ [c]"] True by simp
  next
    case False
    have n: "distinct ((as @ [c]) @ d # cs)" using "3.prems" by auto
    have "run_callbacks (noting leaves) (length as) (l\<lparr>periodic_callbacks := as @ c # d # cs\<rparr>, w)
      = run_callbacks (noting leaves) (length (as @ [c])) (l\<lparr>periodic_callbacks := (as @ [c]) @ d # cs\<rparr>, w @ [c])"
      using False by (subst run_callbacks.simps) (simp add: noting_def)
    then show ?thesis using "3.IH"(2) [OF False n, of "w @ [c]"] False by simp
  qed
qed (simp add: run_callbacks_end)

lemma called_prefix: "\<forall>x \<in> set xs. \<not> leaves x \<Longrightarrow> called leaves (xs @ y # ys) = xs @ called leaves (y # ys)"
proof (induction xs)
  case (Cons x xs)
  then show ?case by (cases xs) auto
qed simp

lemma staying_prefix: "\<forall>x \<in> set xs. \<not> leaves x \<Longrightarrow> staying leaves (xs @ y # ys) = xs @ staying leaves (y # ys)"
proof (induction xs)
  case (Cons x xs)
  then show ?case by (cases xs) auto
qed simp

lemma called_subset: "set (called leaves cs) \<subseteq> set cs"
  by (induction leaves cs rule: called.induct) auto

text \<open>C15. The callbacks are run in their order, and the run ends; but the one behind a callback that
  removes itself, as that of a closed UDP relay does, is left out in this round.\<close>

theorem leaving_skips_next:
  assumes "distinct (xs @ c # d # ys)" and "\<forall>x \<in> set xs. \<not> leaves x" and "leaves c"
  shows "run_callbacks (noting leaves) 0 (l\<lparr>periodic_callbacks := xs @ c # d # ys\<rparr>, [])
      = Some (Inr (), l\<lparr>periodic_callbacks := xs @ d # staying leaves ys\<rparr>, xs @ c # called leaves ys)
    \<and> d \<notin> set (xs @ c # called leaves ys)"
  using run_callbacks_noting [of "[]" "xs @ c # d # ys" leaves l "[]"] assms called_subset [of leaves ys]
  by (auto simp: called_prefix staying_prefix)

lemma leaving_skips_next_witness:
  "run_callbacks (noting (\<lambda>k. k = 1)) 0
     ((loop_new select_new 0 :: (select_loop, nat, nat) event_loop)\<lparr>periodic_callbacks := [0, 1, 2, 3]\<rparr>, [])
   = Some (Inr (), (loop_new select_new 0)\<lparr>periodic_callbacks := [0, 2, 3]\<rparr>, [0, 1, 3])"
  using leaving_skips_next [of "[0]" "1::nat" 2 "[3]" "\<lambda>k. k = 1" "loop_new select_new 0 :: (select_loop, nat, nat) event_loop"] by simp

subsection \<open>Interrupted polls\<close>

text \<open>A handler that notes what it is called with.\<close>

definition noting_handler :: "('s, 'h, 'k, ('h \<times> fd \<times> mode) list) handle_fun" where
  "noting_handler h f fd ev lw = (case lw of (l, w) \<Rightarrow> (Inr True, l, w @ [(h, fd, ev)]))"

definition calls_of :: "('s, 'h, 'k) event_loop \<Rightarrow> (nat \<times> fd \<times> mode) list \<Rightarrow> ('h \<times> fd \<times> mode) list" where
  "calls_of l es = List.map_filter (\<lambda>(f, fd, ev). case map_of (fdmap l) fd of None \<Rightarrow> None | Some (_, h) \<Rightarrow> Some (h, fd, ev)) es"

lemma dispatch_noting: "dispatch noting_handler es (l, w) = (Inr (), l, w @ calls_of l es)"
proof (induction es arbitrary: w)
  case (Cons e es)
  obtain f fd ev where "e = (f, fd, ev)" using prod_cases3 by blast
  then show ?case
    using Cons by (cases "map_of (fdmap l) fd") (auto simp: calls_of_def noting_handler_def List.map_filter_simps)
qed (simp add: calls_of_def List.map_filter_simps)

text \<open>C16. When \<^verbatim>\<open>poll\<close> is interrupted by a signal, the events of the turn before are given to the
  handlers a second time.\<close>

theorem interrupted_poll_repeats:
  assumes "loop_poll evs l = Inr es" and "periodic_callbacks l = []" and "now - last_time l < TIMEOUT_PRECISION"
    and "\<not> stopping l" and "n = EPIPE \<or> n = EINTR"
  shows "\<exists>l'. loop_run noting_handler call [(Ready evs, now), (PollFails n, now')] (events, l, [])
    = Some (Inr (), es, l', calls_of l es @ calls_of l es)"
proof -
  have r: "run_callbacks call 0 (l, w) = Some (Inr (), l, w)" for w using assms(2) by (simp add: run_callbacks_end)
  have 1: "loop_turn noting_handler call (Ready evs) now (events, l, []) = Some (Inr (), es, l, calls_of l es)"
    using assms(1,3) by (simp add: loop_turn_def turn_rest_def dispatch_noting)
  have 2: "loop_turn noting_handler call (PollFails n) now' (es, l, calls_of l es)
      = Some (Inr (), es, l\<lparr>last_time := now'\<rparr>, calls_of l es @ calls_of l es)"
    using assms(5) by (auto simp: loop_turn_def turn_rest_def dispatch_noting r)
  show ?thesis using 1 2 assms(4) by simp
qed

lemma interrupted_poll_repeats_witness:
  "\<exists>l'. loop_run noting_handler ((\<lambda>k lw. (Inr (), lw)) :: (select_loop, nat, nat, (nat \<times> fd \<times> mode) list) callback_fun)
      [(Ready [(7, POLL_IN)], 1), (PollFails EINTR, 1)]
      ([], (loop_new select_new 0)\<lparr>fdmap := [(7, 3, 5)]\<rparr>, [])
    = Some (Inr (), [(3, 7, POLL_IN)], l', [(5, 7, POLL_IN), (5, 7, POLL_IN)])"
  using interrupted_poll_repeats [of "[(7, POLL_IN)]" "(loop_new select_new 0)\<lparr>fdmap := [(7, 3, 5)]\<rparr>" "[(3, 7, POLL_IN)]" 1 EINTR
      "\<lambda>k lw. (Inr (), lw)" 1 "[]"]
  by (simp add: loop_poll_def loop_new_def TIMEOUT_PRECISION_def calls_of_def List.map_filter_simps)

end
