(* ===== verification/Relay_Life.thy ===== *)
theory Relay_Life
  imports Event_Loop
begin

text \<open>
  The life of the two relays of a port on the event loop: \<^verbatim>\<open>add_to_loop\<close>, \<^verbatim>\<open>close\<close> and
  \<^verbatim>\<open>handle_periodic\<close> of \<^verbatim>\<open>TCPRelay\<close> and of \<^verbatim>\<open>UDPRelay\<close>, as far as the loop and the listening
  socket are concerned; their connections and caches are in \<open>Tcp_Handler\<close>, \<open>Udp_Relay\<close> and
  \<open>Tcp_Server\<close>. A relay is a number; its callback and its handler name it.
\<close>

datatype relay_ref = TcpRelay nat | UdpRelay nat

record listener =
  lis_closed :: bool
  lis_socket :: "(nat \<times> fd) option"
  lis_fd :: fd
  lis_in_loop :: bool

type_synonym listeners = "relay_ref \<Rightarrow> listener"

type_synonym 's relay_world = "('s, relay_ref, relay_ref, listeners) loop_world"

text \<open>The constructor leaves a relay with its socket open.\<close>

definition relay_open :: "relay_ref \<Rightarrow> nat \<Rightarrow> fd \<Rightarrow> 's relay_world \<Rightarrow> 's relay_world" where
  "relay_open r f fd lw = (case lw of (l, w) \<Rightarrow> (l, w(r := \<lparr>lis_closed = False, lis_socket = Some (f, fd), lis_fd = fd, lis_in_loop = False\<rparr>)))"

definition relay_add_to_loop :: "'s poll_ops \<Rightarrow> relay_ref \<Rightarrow> 's relay_world \<Rightarrow> unit res \<times> 's relay_world" where
  "relay_add_to_loop P r lw =
     (case lw of (l, w) \<Rightarrow>
        if lis_in_loop (w r) then (Inl (Exc ''already add to loop''), lw)
        else if lis_closed (w r) then (Inl (Exc ''already closed''), lw)
        else
          (case lis_socket (w r) of
             None \<Rightarrow> (Inl AttributeError, l, w(r := (w r)\<lparr>lis_in_loop := True\<rparr>))
           | Some (f, fd) \<Rightarrow>
               (case loop_add P f fd (POLL_IN OR POLL_ERR) r l of
                  (Inl e, l1) \<Rightarrow> (Inl e, l1, w(r := (w r)\<lparr>lis_in_loop := True\<rparr>))
                | (Inr _, l1) \<Rightarrow> (Inr (), add_periodic r l1, w(r := (w r)\<lparr>lis_in_loop := True\<rparr>)))))"

text \<open>A relay takes itself out of the loop: \<^verbatim>\<open>remove_periodic\<close>, then \<^verbatim>\<open>removefd\<close> with the number
  that was kept, or \<^verbatim>\<open>remove\<close> with the socket.\<close>

definition relay_leave :: "'s poll_ops \<Rightarrow> relay_ref \<Rightarrow> 's relay_world \<Rightarrow> unit res \<times> 's relay_world" where
  "relay_leave P r lw =
     (case lw of (l, w) \<Rightarrow>
        (case remove_periodic r l of
           (Inl e, l1) \<Rightarrow> (Inl e, l1, w)
         | (Inr _, l1) \<Rightarrow>
             (case r of
                TcpRelay _ \<Rightarrow> (case loop_remove P (lis_fd (w r)) l1 of (rs, l2) \<Rightarrow> (rs, l2, w))
              | UdpRelay _ \<Rightarrow>
                  (case lis_socket (w r) of
                     None \<Rightarrow> (Inl AttributeError, l1, w)
                   | Some (_, fd) \<Rightarrow> (case loop_remove P fd l1 of (rs, l2) \<Rightarrow> (rs, l2, w))))))"

definition relay_close :: "'s poll_ops \<Rightarrow> bool \<Rightarrow> relay_ref \<Rightarrow> 's relay_world \<Rightarrow> unit res \<times> 's relay_world" where
  "relay_close P next_tick r lw =
     (case lw of (l, w) \<Rightarrow>
        let w1 = w(r := (w r)\<lparr>lis_closed := True\<rparr>)
        in if next_tick then (Inr (), l, w1)
           else
             (case (if lis_in_loop (w r) then relay_leave P r (l, w1) else (Inr (), l, w1)) of
                (Inl e, lw2) \<Rightarrow> (Inl e, lw2)
              | (Inr _, lw2) \<Rightarrow> (if lis_socket (w r) = None then Inl AttributeError else Inr (), lw2)))"

text \<open>\<^verbatim>\<open>TCPRelay.handle_periodic\<close> takes the socket out of the loop, but not the callback;
  \<^verbatim>\<open>UDPRelay.handle_periodic\<close> takes out both.\<close>

definition tcp_handle_periodic :: "'s poll_ops \<Rightarrow> relay_ref \<Rightarrow> 's relay_world \<Rightarrow> unit res \<times> 's relay_world" where
  "tcp_handle_periodic P r lw =
     (case lw of (l, w) \<Rightarrow>
        if lis_closed (w r) then
          (case lis_socket (w r) of
             None \<Rightarrow> (Inr (), l, w)
           | Some (_, fd) \<Rightarrow>
               (case loop_remove P fd l of
                  (Inl e, l1) \<Rightarrow> (Inl e, l1, w)
                | (Inr _, l1) \<Rightarrow> (Inr (), l1, w(r := (w r)\<lparr>lis_socket := None\<rparr>))))
        else (Inr (), l, w))"

definition udp_handle_periodic :: "'s poll_ops \<Rightarrow> relay_ref \<Rightarrow> 's relay_world \<Rightarrow> unit res \<times> 's relay_world" where
  "udp_handle_periodic P r lw =
     (case lw of (l, w) \<Rightarrow>
        if lis_closed (w r) then
          (if lis_in_loop (w r)
           then (case relay_leave P r (l, w) of
                   (Inl e, lw1) \<Rightarrow> (Inl e, lw1)
                 | (Inr _, l1, w1) \<Rightarrow> (Inr (), l1, w1(r := (w1 r)\<lparr>lis_socket := None\<rparr>)))
           else (Inr (), l, w(r := (w r)\<lparr>lis_socket := None\<rparr>)))
        else (Inr (), l, w))"

definition relay_periodic :: "'s poll_ops \<Rightarrow> ('s, relay_ref, relay_ref, listeners) callback_fun" where
  "relay_periodic P r = (case r of TcpRelay _ \<Rightarrow> tcp_handle_periodic P r | UdpRelay _ \<Rightarrow> udp_handle_periodic P r)"

subsection \<open>A port that is started and stopped\<close>

text \<open>What \<^verbatim>\<open>ServerPool.new_server\<close> and \<^verbatim>\<open>cb_del_server\<close> do with the two relays, and the round of
  callbacks after it. The sockets get the descriptors \<open>fd\<close> and \<open>fd + 1\<close>.\<close>

definition rthen :: "(unit res \<times> 'a) \<Rightarrow> ('a \<Rightarrow> unit res \<times> 'a) \<Rightarrow> unit res \<times> 'a" where
  "rthen x f = (case x of (Inl e, s) \<Rightarrow> (Inl e, s) | (Inr _, s) \<Rightarrow> f s)"

definition start_and_stop :: "'s poll_ops \<Rightarrow> nat \<Rightarrow> fd \<Rightarrow> 's relay_world \<Rightarrow> (unit res \<times> 's relay_world) option" where
  "start_and_stop P n fd lw =
     (let r = rthen (rthen (rthen (relay_add_to_loop P (TcpRelay n) (relay_open (TcpRelay n) 0 fd lw))
                (\<lambda>lw. relay_add_to_loop P (UdpRelay n) (relay_open (UdpRelay n) 1 (fd + 1) lw)))
                (relay_close P True (TcpRelay n)))
                (relay_close P True (UdpRelay n))
      in case r of (Inl e, lw1) \<Rightarrow> Some (Inl e, lw1) | (Inr _, lw1) \<Rightarrow> run_callbacks (relay_periodic P) 0 lw1)"

fun many_times :: "'s poll_ops \<Rightarrow> fd \<Rightarrow> nat \<Rightarrow> 's relay_world \<Rightarrow> (unit res \<times> 's relay_world) option" where
  "many_times P fd 0 lw = Some (Inr (), lw)"
| "many_times P fd (Suc n) lw =
     (case many_times P fd n lw of
        None \<Rightarrow> None
      | Some (Inl e, lw1) \<Rightarrow> Some (Inl e, lw1)
      | Some (Inr _, lw1) \<Rightarrow> start_and_stop P n fd lw1)"

text \<open>Relays that are closed and have lost their socket do nothing.\<close>

definition stale :: "listeners \<Rightarrow> nat \<Rightarrow> bool" where
  "stale w n \<longleftrightarrow> lis_closed (w (TcpRelay n)) \<and> lis_socket (w (TcpRelay n)) = None"

lemma run_stale:
  assumes "\<forall>k < i + m. stale w k" and "i + m \<le> length (periodic_callbacks l)"
    and "\<forall>k < i + m. periodic_callbacks l ! k = TcpRelay k"
  shows "run_callbacks (relay_periodic P) i (l, w) = run_callbacks (relay_periodic P) (i + m) (l, w)"
  using assms
proof (induction m arbitrary: i)
  case (Suc m)
  have s: "stale w i" "periodic_callbacks l ! i = TcpRelay i" "i < length (periodic_callbacks l)" using Suc.prems by simp_all
  have "run_callbacks (relay_periodic P) i (l, w) = run_callbacks (relay_periodic P) (Suc i) (l, w)"
    by (subst run_callbacks.simps) (use s in \<open>simp add: relay_periodic_def tcp_handle_periodic_def stale_def\<close>)
  then show ?case using Suc.IH [of "Suc i"] Suc.prems by simp
qed simp

context poller
begin

lemma start_and_stop_leaves:
  fixes l :: "('s, relay_ref, relay_ref) event_loop"
  assumes rep: "loop_rep l K" and free: "map_of (fdmap l) fd = None" "map_of (fdmap l) (fd + 1) = None"
    and cs: "periodic_callbacks l = map TcpRelay [0..<n]" and st: "\<forall>k < n. stale w k"
  shows "\<exists>l' w' K'. start_and_stop P n fd (l, w) = Some (Inr (), l', w') \<and> loop_rep l' K'
    \<and> map_of (fdmap l') = map_of (fdmap l) \<and> periodic_callbacks l' = map TcpRelay [0..<Suc n] \<and> (\<forall>k < Suc n. stale w' k)"
proof -
  have keep: "periodic_callbacks (snd (loop_add P f d m h x)) = periodic_callbacks x"
    "periodic_callbacks (snd (loop_remove P d x)) = periodic_callbacks x" for f d m h and x :: "('s, relay_ref, relay_ref) event_loop"
    by (simp_all add: loop_add_def loop_remove_def lift_impl_def split: prod.split)
  have rep_cb: "loop_rep (x\<lparr>periodic_callbacks := c\<rparr>) k = loop_rep x k" for x :: "('s, relay_ref, relay_ref) event_loop" and c k
    by (simp add: loop_rep_def)
  let ?m = "POLL_IN OR POLL_ERR" and ?t = "TcpRelay n" and ?u = "UdpRelay n"
  obtain l1 where 1: "loop_add P 0 fd ?m ?t l = (Inr (), l1)" "loop_rep l1 (K(fd \<mapsto> ?m))" "fdmap l1 = AList.update fd (0, ?t) (fdmap l)"
    using add_rep [OF rep free(1)] by blast
  let ?l1 = "add_periodic ?t l1"
  have r1: "loop_rep ?l1 (K(fd \<mapsto> ?m))" using 1(2) by (simp add: add_periodic_def rep_cb)
  have f1: "map_of (fdmap ?l1) (fd + 1) = None" using free(2) 1(3) by (simp add: add_periodic_def update_conv')
  obtain l2 where 2: "loop_add P 1 (fd + 1) ?m ?u ?l1 = (Inr (), l2)" "loop_rep l2 (K(fd \<mapsto> ?m, fd + 1 \<mapsto> ?m))"
      "fdmap l2 = AList.update (fd + 1) (1, ?u) (fdmap ?l1)"
    using add_rep [OF r1 f1] by blast
  let ?l2 = "add_periodic ?u l2"
  have c2: "periodic_callbacks ?l2 = map TcpRelay [0..<n] @ [?t, ?u]"
    using keep(1) [of 0 fd ?m ?t l] keep(1) [of 1 "fd + 1" ?m ?u ?l1] 1(1) 2(1) cs by (simp add: add_periodic_def)
  have r2: "loop_rep ?l2 (K(fd \<mapsto> ?m, fd + 1 \<mapsto> ?m))" using 2(2) by (simp add: add_periodic_def rep_cb)
  have m2: "map_of (fdmap ?l2) fd \<noteq> None" using 1(3) 2(3) by (simp add: add_periodic_def update_conv')
  obtain l3 where 3: "loop_remove P fd ?l2 = (Inr (), l3)" "loop_rep l3 ((K(fd \<mapsto> ?m, fd + 1 \<mapsto> ?m))(fd := None))"
      "fdmap l3 = AList.delete fd (fdmap ?l2)"
    using remove_rep [OF r2 m2] by blast
  have c3: "periodic_callbacks l3 = map TcpRelay [0..<n] @ [?t, ?u]" using keep(2) [of fd ?l2] 3(1) c2 by simp
  let ?l3 = "l3\<lparr>periodic_callbacks := map TcpRelay [0..<n] @ [?t]\<rparr>"
  have m3: "map_of (fdmap ?l3) (fd + 1) \<noteq> None" using 3(3) 2(3) by (simp add: add_periodic_def update_conv' delete_conv')
  have r3: "loop_rep ?l3 ((K(fd \<mapsto> ?m, fd + 1 \<mapsto> ?m))(fd := None))" using 3(2) by (simp add: rep_cb)
  obtain l4 where 4: "loop_remove P (fd + 1) ?l3 = (Inr (), l4)" "loop_rep l4 ((K(fd \<mapsto> ?m, fd + 1 \<mapsto> ?m))(fd := None, fd + 1 := None))"
      "fdmap l4 = AList.delete (fd + 1) (fdmap ?l3)"
    using remove_rep [OF r3 m3] by blast
  have c4: "periodic_callbacks l4 = map TcpRelay [0..<n] @ [?t]" using keep(2) [of "fd + 1" ?l3] 4(1) by simp
  let ?open = "\<lambda>f d. \<lparr>lis_closed = True, lis_socket = Some (f, d), lis_fd = d, lis_in_loop = True\<rparr>"
  let ?w = "w(?t := ?open 0 fd, ?u := ?open 1 (fd + 1))"
  let ?w' = "w(?t := (?open 0 fd)\<lparr>lis_socket := None\<rparr>, ?u := (?open 1 (fd + 1))\<lparr>lis_socket := None\<rparr>)"
  have w_eq: "(w(?t := a, ?u := b))(?t := c) = w(?t := c, ?u := b)" for a b c by (auto simp: fun_eq_iff)
  have start: "start_and_stop P n fd (l, w) = run_callbacks (relay_periodic P) 0 (?l2, ?w)"
    using 1(1) 2(1)
    by (simp add: start_and_stop_def rthen_def relay_add_to_loop_def relay_open_def relay_close_def Let_def w_eq)
  have "run_callbacks (relay_periodic P) 0 (?l2, ?w) = run_callbacks (relay_periodic P) n (?l2, ?w)"
    using run_stale [of 0 n ?w ?l2 P] st c2 by (simp add: stale_def nth_append)
  also have "\<dots> = run_callbacks (relay_periodic P) (Suc n) (l3, w(?t := (?open 0 fd)\<lparr>lis_socket := None\<rparr>, ?u := ?open 1 (fd + 1)))"
    by (subst run_callbacks.simps) (use c2 3(1) in \<open>simp add: nth_append relay_periodic_def tcp_handle_periodic_def w_eq\<close>)
  also have "\<dots> = run_callbacks (relay_periodic P) (Suc (Suc n)) (l4, ?w')"
    by (subst run_callbacks.simps)
      (use c3 4(1) in \<open>auto simp: nth_append relay_periodic_def udp_handle_periodic_def relay_leave_def remove_periodic_def remove1_append\<close>)
  also have "\<dots> = Some (Inr (), l4, ?w')" using c4 by (subst run_callbacks.simps) simp
  finally have run: "start_and_stop P n fd (l, w) = Some (Inr (), l4, ?w')" using start by simp
  have "map_of (fdmap l4) = map_of (fdmap l)"
    using 1(3) 2(3) 3(3) 4(3) free by (auto simp: add_periodic_def update_conv' delete_conv' fun_eq_iff)
  moreover have "\<forall>k < Suc n. stale ?w' k" using st by (auto simp: stale_def less_Suc_eq)
  ultimately show ?thesis using run 4(2) c4 by auto
qed

lemma callbacks_pile_up:
  fixes l :: "('s, relay_ref, relay_ref) event_loop"
  assumes "loop_rep l K" and "map_of (fdmap l) fd = None" and "map_of (fdmap l) (fd + 1) = None" and "periodic_callbacks l = []"
  shows "\<exists>l' w' K'. many_times P fd n (l, w) = Some (Inr (), l', w') \<and> loop_rep l' K'
    \<and> map_of (fdmap l') = map_of (fdmap l) \<and> periodic_callbacks l' = map TcpRelay [0..<n] \<and> (\<forall>k < n. stale w' k)"
proof (induction n)
  case 0
  then show ?case using assms by auto
next
  case (Suc n)
  then obtain l1 w1 K1 where 1: "many_times P fd n (l, w) = Some (Inr (), l1, w1)" "loop_rep l1 K1"
      "map_of (fdmap l1) = map_of (fdmap l)" "periodic_callbacks l1 = map TcpRelay [0..<n]" "\<forall>k < n. stale w1 k" by blast
  have "map_of (fdmap l1) fd = None" "map_of (fdmap l1) (fd + 1) = None" using 1(3) assms(2,3) by simp_all
  from start_and_stop_leaves [OF 1(2) this 1(4,5)] show ?case using 1(1,3) by simp
qed

end

text \<open>C32. A port that is started and stopped gives back its descriptors each time, but the callback of
  its TCP relay stays in the loop: after \<open>n\<close> times there are \<open>n\<close> of them.\<close>

theorem stopped_relays_stay:
  "\<exists>l' w'. many_times select_ops fd n (loop_new select_new now, w) = Some (Inr (), l', w') \<and> map_of (fdmap l') = Map.empty
    \<and> periodic_callbacks l' = map TcpRelay [0..<n]"
proof -
  have "sel.loop_rep (loop_new select_new now :: (select_loop, relay_ref, relay_ref) event_loop) Map.empty"
    by (simp add: sel.loop_rep_def select_rep_def loop_new_def select_new_def)
  from sel.callbacks_pile_up [OF this, of fd n w] show ?thesis
    by (auto simp: loop_new_def stale_def)
qed

end
