(* ===== verification/Mu_Manager.thy ===== *)
theory Mu_Manager
  imports Py_Strings "HOL-Library.AList"
begin

text \<open>
  \<^verbatim>\<open>mujson_mgr.py\<close>: the tool that keeps the file of users. The file is the list of rows that
  \<^verbatim>\<open>json\<close> reads and writes; a row is an association list of texts and numbers. The options are
  those that \<^verbatim>\<open>getopt\<close> gives, \<open>quota\<close> stands for the floating-point value of \<^verbatim>\<open>-t\<close> and the random
  password is an argument. Of what is printed, only the links and what can raise are kept.
\<close>

datatype jval = JText bytes | JNum int

type_synonym jrow = "(bytes \<times> jval) list"

definition item :: "jrow \<Rightarrow> bytes \<Rightarrow> jval res" where
  "item row k = (case map_of row k of None \<Rightarrow> Inl KeyError | Some v \<Rightarrow> Inr v)"

definition py_str :: "jval \<Rightarrow> bytes" where
  "py_str v = (case v of JText t \<Rightarrow> t | JNum n \<Rightarrow> if n < 0 then CHR ''-'' # dec (nat (- n)) else dec (nat n))"

subsection \<open>What is printed of a user\<close>

text \<open>\<^verbatim>\<open>base64.urlsafe_b64encode\<close> without the padding, which is replaced by nothing\<close>

definition b64_digit :: "nat \<Rightarrow> char" where
  "b64_digit n = (''ABCDEFGHIJKLMNOPQRSTUVWXYZabcdefghijklmnopqrstuvwxyz0123456789-_'' :: bytes) ! n"

fun b64 :: "bytes \<Rightarrow> bytes" where
  "b64 [] = []"
| "b64 [a] = [b64_digit (ordb a div 4), b64_digit (ordb a mod 4 * 16)]"
| "b64 [a, b] = [b64_digit (ordb a div 4), b64_digit (ordb a mod 4 * 16 + ordb b div 16), b64_digit (ordb b mod 16 * 4)]"
| "b64 (a # b # c # s) = b64_digit (ordb a div 4) # b64_digit (ordb a mod 4 * 16 + ordb b div 16)
     # b64_digit (ordb b mod 16 * 4 + ordb c div 64) # b64_digit (ordb c mod 64) # b64 s"

text \<open>A text method or \<^verbatim>\<open>common.to_bytes\<close> with \<^verbatim>\<open>b64encode\<close> on a number raises.\<close>

definition text_of :: "exc \<Rightarrow> jval \<Rightarrow> bytes res" where
  "text_of e v = (case v of JText t \<Rightarrow> Inr t | JNum _ \<Rightarrow> Inl e)"

definition get_or :: "jrow \<Rightarrow> bytes \<Rightarrow> bytes \<Rightarrow> jval" where
  "get_or row k d = (case map_of row k of None \<Rightarrow> JText d | Some v \<Rightarrow> v)"

definition int_of :: "jval \<Rightarrow> int res" where
  "int_of v = (case v of JNum n \<Rightarrow> Inr n | JText t \<Rightarrow> (case py_int t of None \<Rightarrow> Inl ValueError | Some n \<Rightarrow> Inr n))"

text \<open>The first row with the port \<open>muid\<close>\<close>

fun find_muid :: "int \<Rightarrow> jrow list \<Rightarrow> jrow option res" where
  "find_muid muid [] = Inr None"
| "find_muid muid (row # rows) =
     rbind (rbind (item row ''port'') int_of) (\<lambda>p. if p = muid then Inr (Some row) else find_muid muid rows)"

definition protocol_param_of :: "jrow list \<Rightarrow> jrow \<Rightarrow> int option \<Rightarrow> bytes res" where
  "protocol_param_of rows user muid =
     (case muid of
        None \<Rightarrow> Inr []
      | Some i \<Rightarrow>
          rbind (text_of AttributeError (get_or user ''protocol_param'' [])) (\<lambda>q.
            if length (py_split ''#'' q) = 2
            then rbind (find_muid i rows) (\<lambda>r.
                   case r of
                     None \<Rightarrow> Inr []
                   | Some row \<Rightarrow> rbind (rbind (item row ''passwd'') (text_of TypeError)) (\<lambda>pw.
                       Inr (''/?protoparam='' @ b64 (py_str (JNum i) @ '':'' @ pw))))
            else Inr []))"

definition ssrlink :: "bytes \<Rightarrow> jrow list \<Rightarrow> jrow \<Rightarrow> bool \<Rightarrow> int option \<Rightarrow> bytes res" where
  "ssrlink server_addr rows user encode muid =
     rbind (text_of AttributeError (get_or user ''protocol'' [])) (\<lambda>protocol.
     rbind (text_of AttributeError (get_or user ''obfs'' [])) (\<lambda>obfs.
     rbind (protocol_param_of rows user muid) (\<lambda>protocol_param.
     rbind (item user ''port'') (\<lambda>port. rbind (item user ''method'') (\<lambda>method.
     rbind (rbind (item user ''passwd'') (text_of TypeError)) (\<lambda>passwd.
       let link = py_join '':'' [server_addr, py_str port, py_replace ''_compatible'' [] protocol, py_str method,
             py_replace ''_compatible'' [] obfs, b64 passwd] @ protocol_param
       in Inr (''ssr://'' @ (if encode \<and> b64 link \<noteq> [] then b64 link else link))))))))"

text \<open>The lines of \<^verbatim>\<open>userinfo\<close> that can raise: the amounts, which are divided, and the parameter
  of the sub-user. \<^verbatim>\<open>val\<close> is unbound when no row has the port.\<close>

definition amount_line :: "jrow list \<Rightarrow> jrow \<Rightarrow> int option \<Rightarrow> bytes \<Rightarrow> unit res" where
  "amount_line rows user muid key =
     (if map_of user key = None then Inr ()
      else
        rbind (case muid of
                 None \<Rightarrow> item user key
               | Some i \<Rightarrow> rbind (find_muid i rows) (\<lambda>r. case r of None \<Rightarrow> Inl (Exc ''UnboundLocalError'') | Some row \<Rightarrow> item row key))
          (\<lambda>v. case v of JNum _ \<Rightarrow> Inr () | JText _ \<Rightarrow> Inl TypeError))"

definition param_line :: "jrow list \<Rightarrow> jrow \<Rightarrow> int option \<Rightarrow> unit res" where
  "param_line rows user muid =
     (case muid of
        None \<Rightarrow> Inr ()
      | Some i \<Rightarrow>
          if map_of user ''protocol_param'' = None then Inr ()
          else rbind (find_muid i rows) (\<lambda>r.
                 case r of None \<Rightarrow> Inr () | Some row \<Rightarrow> rbind (rbind (item row ''passwd'') (text_of TypeError)) (\<lambda>_. Inr ())))"

definition userinfo :: "bytes \<Rightarrow> jrow list \<Rightarrow> jrow \<Rightarrow> int option \<Rightarrow> (bytes \<times> bytes) res" where
  "userinfo server_addr rows user muid =
     rbind (param_line rows user muid) (\<lambda>_. rbind (amount_line rows user muid ''transfer_enable'') (\<lambda>_.
     rbind (amount_line rows user muid ''u'') (\<lambda>_. rbind (amount_line rows user muid ''d'') (\<lambda>_.
     rbind (ssrlink server_addr rows user False muid) (\<lambda>link.
     rbind (ssrlink server_addr rows user True muid) (\<lambda>coded. Inr (link, coded)))))))"

subsection \<open>The operations on the file\<close>

text \<open>A check \<^verbatim>\<open>key in user and row[key] == user[key]\<close>, with the value of a missing key given\<close>

definition same_item :: "bytes \<Rightarrow> bool \<Rightarrow> jrow \<Rightarrow> jrow \<Rightarrow> bool res" where
  "same_item key absent user row =
     (case map_of user key of None \<Rightarrow> Inr absent | Some v \<Rightarrow> rbind (item row key) (\<lambda>w. Inr (w = v)))"

definition taken :: "jrow \<Rightarrow> jrow \<Rightarrow> bool res" where
  "taken user row = rbind (same_item ''user'' False user row) (\<lambda>a. rbind (same_item ''port'' False user row) (\<lambda>b. Inr (a \<or> b)))"

definition matches :: "jrow \<Rightarrow> jrow \<Rightarrow> bool res" where
  "matches user row = rbind (same_item ''user'' True user row) (\<lambda>a. rbind (same_item ''port'' True user row) (\<lambda>b. Inr (a \<and> b)))"

fun find_taken :: "jrow \<Rightarrow> jrow list \<Rightarrow> jrow option res" where
  "find_taken user [] = Inr None"
| "find_taken user (row # rows) = rbind (taken user row) (\<lambda>t. if t then Inr (Some row) else find_taken user rows)"

definition user_defaults :: "bytes \<Rightarrow> jrow" where
  "user_defaults pw = [(''enable'', JNum 1), (''u'', JNum 0), (''d'', JNum 0), (''method'', JText ''aes-128-ctr''),
     (''protocol'', JText ''auth_aes128_md5''), (''obfs'', JText ''tls1.2_ticket_auth_compatible''),
     (''transfer_enable'', JNum 9007199254740992), (''passwd'', JText pw)]"

text \<open>The result and the rows of the file afterwards; a file is written only at the end.\<close>

definition mgr_add :: "bytes \<Rightarrow> bytes \<Rightarrow> jrow \<Rightarrow> jrow list \<Rightarrow> unit res \<times> jrow list" where
  "mgr_add server_addr pw user rows =
     (let up = AList.merge (user_defaults pw) user
      in case find_taken user rows of
           Inl e \<Rightarrow> (Inl e, rows)
         | Inr (Some row) \<Rightarrow> (rbind (item row ''user'') (\<lambda>_. rbind (item row ''port'') (\<lambda>_. Inr ())), rows)
         | Inr None \<Rightarrow>
             (case userinfo server_addr (rows @ [up]) up None of
                Inl e \<Rightarrow> (Inl e, rows)
              | Inr _ \<Rightarrow> (Inr (), rows @ [up])))"

fun edit_rows :: "bytes \<Rightarrow> jrow \<Rightarrow> jrow list \<Rightarrow> jrow list \<Rightarrow> jrow list res" where
  "edit_rows server_addr user before [] = Inr before"
| "edit_rows server_addr user before (row # rows) =
     rbind (matches user row) (\<lambda>m.
       if m then
         rbind (item row ''user'') (\<lambda>_.
           let row' = AList.merge row user; rows' = before @ row' # rows
           in rbind (userinfo server_addr rows' row' None) (\<lambda>_. Inr rows'))
       else edit_rows server_addr user (before @ [row]) rows)"

definition saved :: "jrow list res \<Rightarrow> jrow list \<Rightarrow> unit res \<times> jrow list" where
  "saved r rows = (case r of Inl e \<Rightarrow> (Inl e, rows) | Inr rows' \<Rightarrow> (Inr (), rows'))"

definition mgr_edit :: "bytes \<Rightarrow> jrow \<Rightarrow> jrow list \<Rightarrow> unit res \<times> jrow list" where
  "mgr_edit server_addr user rows = saved (edit_rows server_addr user [] rows) rows"

fun delete_rows :: "jrow \<Rightarrow> jrow list \<Rightarrow> jrow list res" where
  "delete_rows user [] = Inr []"
| "delete_rows user (row # rows) =
     rbind (matches user row) (\<lambda>m.
       if m then rbind (item row ''user'') (\<lambda>_. Inr rows)
       else rbind (delete_rows user rows) (\<lambda>rows'. Inr (row # rows')))"

definition mgr_delete :: "jrow \<Rightarrow> jrow list \<Rightarrow> unit res \<times> jrow list" where
  "mgr_delete user rows = saved (delete_rows user rows) rows"

fun clear_rows :: "jrow \<Rightarrow> jrow list \<Rightarrow> jrow list res" where
  "clear_rows user [] = Inr []"
| "clear_rows user (row # rows) =
     rbind (matches user row) (\<lambda>m.
       rbind (if m then (let row' = AList.merge row [(''u'', JNum 0), (''d'', JNum 0)]
                         in rbind (item row' ''user'') (\<lambda>_. Inr row')) else Inr row)
         (\<lambda>row'. rbind (clear_rows user rows) (\<lambda>rows'. Inr (row' # rows'))))"

definition mgr_clear_ud :: "jrow \<Rightarrow> jrow list \<Rightarrow> unit res \<times> jrow list" where
  "mgr_clear_ud user rows = saved (clear_rows user rows) rows"

text \<open>\<^verbatim>\<open>list_user\<close>; the number is that of the option \<^verbatim>\<open>-i\<close>.\<close>

definition muid_of :: "jrow \<Rightarrow> int option" where
  "muid_of user = (case map_of user ''muid'' of Some (JNum i) \<Rightarrow> Some i | _ \<Rightarrow> None)"

fun list_rows :: "bytes \<Rightarrow> jrow \<Rightarrow> jrow list \<Rightarrow> jrow list \<Rightarrow> unit res" where
  "list_rows server_addr user all [] = Inr ()"
| "list_rows server_addr user all (row # rows) =
     rbind (matches user row) (\<lambda>m.
       rbind (if m then rbind (item row ''user'') (\<lambda>_. rbind (userinfo server_addr all row (muid_of user)) (\<lambda>_. Inr ())) else Inr ())
         (\<lambda>_. list_rows server_addr user all rows))"

fun name_rows :: "jrow list \<Rightarrow> unit res" where
  "name_rows [] = Inr ()"
| "name_rows (row # rows) = rbind (item row ''user'') (\<lambda>_. rbind (item row ''port'') (\<lambda>_. name_rows rows))"

definition mgr_list_user :: "bytes \<Rightarrow> jrow \<Rightarrow> jrow list \<Rightarrow> unit res \<times> jrow list" where
  "mgr_list_user server_addr user rows = (if user = [] then name_rows rows else list_rows server_addr user rows rows, rows)"

subsection \<open>The command line\<close>

definition fast_set_obfs :: "(bytes \<times> bytes) list" where
  "fast_set_obfs = [(''0'', ''plain''), (''+1'', ''http_simple_compatible''), (''1'', ''http_simple''),
     (''+2'', ''tls1.2_ticket_auth_compatible''), (''2'', ''tls1.2_ticket_auth'')]"

definition fast_set_protocol :: "(bytes \<times> bytes) list" where
  "fast_set_protocol = [(''0'', ''origin''), (''s4'', ''auth_sha1_v4''), (''+s4'', ''auth_sha1_v4_compatible''),
     (''am'', ''auth_aes128_md5''), (''as'', ''auth_aes128_sha1''), (''ca'', ''auth_chain_a'')]"

definition fast_set_method :: "(bytes \<times> bytes) list" where
  "fast_set_method = [(''0'', ''none''), (''a1c'', ''aes-128-cfb''), (''a2c'', ''aes-192-cfb''), (''a3c'', ''aes-256-cfb''),
     (''r'', ''rc4-md5''), (''r6'', ''rc4-md5-6''), (''c'', ''chacha20''), (''ci'', ''chacha20-ietf''), (''s'', ''salsa20''),
     (''a1'', ''aes-128-ctr''), (''a2'', ''aes-192-ctr''), (''a3'', ''aes-256-ctr'')]"

definition fast :: "(bytes \<times> bytes) list \<Rightarrow> bytes \<Rightarrow> jval" where
  "fast table v = JText (case map_of table v of None \<Rightarrow> v | Some t \<Rightarrow> t)"

datatype mgr_action = ClearAction | AddAction | DeleteAction | EditAction | ListAction

definition set_int :: "bytes \<Rightarrow> bytes \<Rightarrow> mgr_action option \<times> jrow \<Rightarrow> (mgr_action option \<times> jrow) res" where
  "set_int name v au =
     (case au of (a, u) \<Rightarrow> (case py_int v of None \<Rightarrow> Inl ValueError | Some n \<Rightarrow> Inr (a, AList.update name (JNum n) u)))"

definition parse_opt :: "(bytes \<Rightarrow> int res) \<Rightarrow> bytes \<times> bytes \<Rightarrow> mgr_action option \<times> jrow \<Rightarrow> (mgr_action option \<times> jrow) res" where
  "parse_opt quota kv au =
     (case kv of (key, v) \<Rightarrow> case au of (a, u) \<Rightarrow>
        let put = (\<lambda>name x. Inr (a, AList.update name x u))
        in if key = ''-a'' then Inr (Some AddAction, u)
        else if key = ''-d'' then Inr (Some DeleteAction, u)
        else if key = ''-e'' then Inr (Some EditAction, u)
        else if key = ''-l'' then Inr (Some ListAction, u)
        else if key = ''-c'' then Inr (Some ClearAction, u)
        else if key = ''-u'' then put ''user'' (JText v)
        else if key = ''-i'' then set_int ''muid'' v au
        else if key = ''-p'' then set_int ''port'' v au
        else if key = ''-k'' then put ''passwd'' (JText v)
        else if key = ''-o'' then put ''obfs'' (fast fast_set_obfs v)
        else if key = ''-O'' then put ''protocol'' (fast fast_set_protocol v)
        else if key = ''-g'' then put ''obfs_param'' (JText v)
        else if key = ''-G'' then put ''protocol_param'' (JText v)
        else if key = ''-s'' then set_int ''speed_limit_per_con'' v au
        else if key = ''-S'' then set_int ''speed_limit_per_user'' v au
        else if key = ''-m'' then put ''method'' (fast fast_set_method v)
        else if key = ''-f'' then put ''forbidden_port'' (JText v)
        else if key = ''-t'' then rbind (quota v) (\<lambda>n. put ''transfer_enable'' (JNum n))
        else if key = ''-h'' \<or> key = ''--help'' then Inl SystemExit
        else Inr (a, u))"

definition parse_opts :: "(bytes \<Rightarrow> int res) \<Rightarrow> (bytes \<times> bytes) list \<Rightarrow> (mgr_action option \<times> jrow) res" where
  "parse_opts quota optlist = fold (\<lambda>kv r. rbind r (parse_opt quota kv)) optlist (Inr (None, []))"

definition run_action :: "bytes \<Rightarrow> bytes \<Rightarrow> mgr_action \<Rightarrow> jrow \<Rightarrow> jrow list \<Rightarrow> unit res \<times> jrow list" where
  "run_action server_addr pw a user rows =
     (let has = (\<lambda>k. map_of user k \<noteq> None)
      in case a of
           ClearAction \<Rightarrow> mgr_clear_ud user rows
         | AddAction \<Rightarrow>
             (let user' = (case (map_of user ''user'', map_of user ''port'') of
                             (None, Some p) \<Rightarrow> AList.update ''user'' (JText (py_str p)) user
                           | _ \<Rightarrow> user)
              in if map_of user' ''user'' \<noteq> None \<and> map_of user' ''port'' \<noteq> None then mgr_add server_addr pw user' rows
                 else (Inr (), rows))
         | DeleteAction \<Rightarrow> (if has ''user'' \<or> has ''port'' then mgr_delete user rows else (Inr (), rows))
         | EditAction \<Rightarrow> (if has ''user'' \<or> has ''port'' then mgr_edit server_addr user rows else (Inr (), rows))
         | ListAction \<Rightarrow> mgr_list_user server_addr user rows)"

definition mgr_main :: "(bytes \<Rightarrow> int res) \<Rightarrow> bytes \<Rightarrow> bytes \<Rightarrow> (bytes \<times> bytes) list \<Rightarrow> jrow list \<Rightarrow> unit res \<times> jrow list" where
  "mgr_main quota server_addr pw optlist rows =
     (case parse_opts quota optlist of
        Inl e \<Rightarrow> (Inl e, rows)
      | Inr (None, _) \<Rightarrow> (Inr (), rows)
      | Inr (Some a, user) \<Rightarrow> run_action server_addr pw a user rows)"

end
