(* ===== verification/Mu_Proofs.thy ===== *)
theory Mu_Proofs
  imports Mu_Manager
begin

text \<open>
  The tool of \<^verbatim>\<open>mujson_mgr.py\<close> keeps the file of users in order: rows are complete, no two have
  the same name or port, and each action has exactly the effect that its name says.
\<close>

subsection \<open>Rows in order\<close>

definition text_keys :: "bytes list" where
  "text_keys = [''user'', ''passwd'', ''method'', ''protocol'', ''obfs'', ''protocol_param'', ''obfs_param'', ''forbidden_port'']"

definition num_keys :: "bytes list" where
  "num_keys = [''port'', ''u'', ''d'', ''transfer_enable'', ''enable'', ''muid'', ''speed_limit_per_con'', ''speed_limit_per_user'']"

definition typed :: "bytes \<Rightarrow> jval \<Rightarrow> bool" where
  "typed k v \<longleftrightarrow> (k \<in> set text_keys \<longrightarrow> (\<exists>t. v = JText t)) \<and> (k \<in> set num_keys \<longrightarrow> (\<exists>n. v = JNum n))"

definition well_typed :: "jrow \<Rightarrow> bool" where
  "well_typed row \<longleftrightarrow> (\<forall>k v. map_of row k = Some v \<longrightarrow> typed k v)"

definition row_ok :: "jrow \<Rightarrow> bool" where
  "row_ok row \<longleftrightarrow> well_typed row \<and>
     (\<forall>k \<in> {''user'', ''port'', ''passwd'', ''method'', ''u'', ''d'', ''transfer_enable''}. map_of row k \<noteq> None)"

definition db_ok :: "jrow list \<Rightarrow> bool" where
  "db_ok rows \<longleftrightarrow> (\<forall>row \<in> set rows. row_ok row) \<and> distinct (map (\<lambda>r. map_of r ''user'') rows)
     \<and> distinct (map (\<lambda>r. map_of r ''port'') rows)"

lemmas key_lists = text_keys_def num_keys_def

lemma typed_simps [simp]:
  "typed k (JText t) \<longleftrightarrow> k \<notin> set num_keys" "typed k (JNum n) \<longleftrightarrow> k \<notin> set text_keys"
  by (simp_all add: typed_def)

lemma well_typed_update: "well_typed row \<Longrightarrow> typed k v \<Longrightarrow> well_typed (AList.update k v row)"
  by (auto simp: well_typed_def update_conv')

lemma well_typed_merge: "well_typed row \<Longrightarrow> well_typed row' \<Longrightarrow> well_typed (AList.merge row row')"
  by (auto simp: well_typed_def merge_conv' map_add_def split: option.splits)

lemma row_ok_merge: "row_ok row \<Longrightarrow> well_typed row' \<Longrightarrow> row_ok (AList.merge row row')"
  by (auto simp: row_ok_def well_typed_merge merge_conv' map_add_def split: option.split)

lemma row_ok_text:
  assumes "row_ok row" and "k \<in> {''user'', ''passwd'', ''method''}"
  shows "\<exists>t. map_of row k = Some (JText t)"
proof -
  obtain v where v: "map_of row k = Some v" using assms by (auto simp: row_ok_def)
  then have "typed k v" using assms(1) by (simp add: row_ok_def well_typed_def)
  then show ?thesis using v assms(2) by (auto simp: typed_def text_keys_def)
qed

lemma row_ok_num:
  assumes "row_ok row" and "k \<in> {''port'', ''u'', ''d'', ''transfer_enable''}"
  shows "\<exists>n. map_of row k = Some (JNum n)"
proof -
  obtain v where v: "map_of row k = Some v" using assms by (auto simp: row_ok_def)
  then have "typed k v" using assms(1) by (simp add: row_ok_def well_typed_def)
  then show ?thesis using v assms(2) by (auto simp: typed_def num_keys_def)
qed

lemma get_or_text:
  assumes "well_typed row" and "k \<in> {''protocol'', ''obfs'', ''protocol_param''}"
  shows "\<exists>t. get_or row k d = JText t"
proof (cases "map_of row k")
  case (Some v)
  then have "typed k v" using assms(1) by (simp add: well_typed_def)
  then show ?thesis using Some assms(2) by (auto simp: get_or_def typed_def text_keys_def)
qed (simp add: get_or_def)

lemma ssrlink_ok:
  assumes "row_ok row"
  shows "\<exists>link. ssrlink sa rows row encode None = Inr link"
proof -
  have w: "well_typed row" using assms by (simp add: row_ok_def)
  obtain p o' where "get_or row ''protocol'' [] = JText p" "get_or row ''obfs'' [] = JText o'"
    using get_or_text [OF w, of "''protocol''" "[]"] get_or_text [OF w, of "''obfs''" "[]"] by auto
  moreover obtain n where "map_of row ''port'' = Some (JNum n)" using row_ok_num [OF assms, of "''port''"] by auto
  moreover obtain pw m where "map_of row ''passwd'' = Some (JText pw)" "map_of row ''method'' = Some (JText m)"
    using row_ok_text [OF assms, of "''passwd''"] row_ok_text [OF assms, of "''method''"] by auto
  ultimately show ?thesis by (simp add: ssrlink_def item_def text_of_def protocol_param_of_def Let_def)
qed

lemma userinfo_ok:
  assumes "row_ok row"
  shows "\<exists>info. userinfo sa rows row None = Inr info"
proof -
  have "amount_line rows row None k = Inr ()" if "k \<in> {''u'', ''d'', ''transfer_enable''}" for k
  proof -
    have "k \<in> {''port'', ''u'', ''d'', ''transfer_enable''}" using that by blast
    from row_ok_num [OF assms this] obtain n where "map_of row k = Some (JNum n)" by blast
    then show ?thesis by (simp add: amount_line_def item_def)
  qed
  moreover obtain l c where "ssrlink sa rows row False None = Inr l" "ssrlink sa rows row True None = Inr c"
    using ssrlink_ok [OF assms] by blast
  ultimately show ?thesis by (simp add: userinfo_def param_line_def)
qed

subsection \<open>Selected rows\<close>

definition selects :: "jrow \<Rightarrow> jrow \<Rightarrow> bool" where
  "selects user row \<longleftrightarrow> (\<forall>k \<in> {''user'', ''port''}. map_of user k \<noteq> None \<longrightarrow> map_of row k = map_of user k)"

definition blocks :: "jrow \<Rightarrow> jrow \<Rightarrow> bool" where
  "blocks user row \<longleftrightarrow> (\<exists>k \<in> {''user'', ''port''}. map_of user k \<noteq> None \<and> map_of row k = map_of user k)"

lemma same_item_ok:
  assumes "row_ok row" and "k \<in> {''user'', ''port''}"
  shows "same_item k absent user row = Inr (case map_of user k of None \<Rightarrow> absent | Some v \<Rightarrow> map_of row k = Some v)"
proof -
  obtain w where "map_of row k = Some w" using assms by (auto simp: row_ok_def)
  then show ?thesis by (simp add: same_item_def item_def split: option.split)
qed

lemma matches_ok: "row_ok row \<Longrightarrow> matches user row = Inr (selects user row)"
  by (auto simp: matches_def same_item_ok selects_def split: option.split)

lemma taken_ok: "row_ok row \<Longrightarrow> taken user row = Inr (blocks user row)"
  by (auto simp: taken_def same_item_ok blocks_def split: option.split)

lemma find_taken_ok: "\<forall>row \<in> set rows. row_ok row \<Longrightarrow> find_taken user rows = Inr (find (blocks user) rows)"
  by (induction rows) (auto simp: taken_ok)

lemma selects_once:
  assumes "db_ok (row # rows)" and "selects user row" and "map_of user ''user'' \<noteq> None \<or> map_of user ''port'' \<noteq> None"
    and "row' \<in> set rows"
  shows "\<not> selects user row'"
proof
  assume s: "selects user row'"
  have d: "map_of row ''user'' \<notin> (\<lambda>r. map_of r ''user'') ` set rows" "map_of row ''port'' \<notin> (\<lambda>r. map_of r ''port'') ` set rows"
    using assms(1) by (simp_all add: db_ok_def)
  from assms(3) show False
  proof
    assume "map_of user ''user'' \<noteq> None"
    then have "map_of row ''user'' = map_of row' ''user''" using assms(2) s by (simp add: selects_def)
    then show False using d(1) assms(4) by blast
  next
    assume "map_of user ''port'' \<noteq> None"
    then have "map_of row ''port'' = map_of row' ''port''" using assms(2) s by (simp add: selects_def)
    then show False using d(2) assms(4) by blast
  qed
qed

lemma db_ok_Cons: "db_ok (row # rows) \<Longrightarrow> row_ok row \<and> db_ok rows"
  by (simp add: db_ok_def)

lemma row_ok_item: "row_ok row \<Longrightarrow> k \<in> {''user'', ''port''} \<Longrightarrow> \<exists>v. item row k = Inr v"
  by (auto simp: row_ok_def item_def)

subsection \<open>What the actions do\<close>

lemma edit_rows_ref:
  assumes "db_ok rows" and "well_typed user" and "map_of user ''user'' \<noteq> None \<or> map_of user ''port'' \<noteq> None"
  shows "edit_rows sa user before rows = Inr (before @ map (\<lambda>r. if selects user r then AList.merge r user else r) rows)"
  using assms(1)
proof (induction rows arbitrary: before)
  case (Cons row rows)
  have r: "row_ok row" "db_ok rows" using db_ok_Cons [OF Cons.prems] by simp_all
  show ?case
  proof (cases "selects user row")
    case True
    have "map (\<lambda>r. if selects user r then AList.merge r user else r) rows = rows"
      using selects_once [OF Cons.prems True assms(3)] by (simp add: map_idI)
    moreover obtain v where "item row ''user'' = Inr v" using row_ok_item [OF r(1), of "''user''"] by auto
    moreover obtain i where "userinfo sa (before @ AList.merge row user # rows) (AList.merge row user) None = Inr i"
      using userinfo_ok [OF row_ok_merge [OF r(1) assms(2)]] by blast
    ultimately show ?thesis using True by (simp add: matches_ok [OF r(1)] Let_def)
  qed (use Cons.IH [OF r(2)] in \<open>simp add: matches_ok [OF r(1)]\<close>)
qed simp

lemma delete_rows_ref:
  assumes "db_ok rows" and "map_of user ''user'' \<noteq> None \<or> map_of user ''port'' \<noteq> None"
  shows "delete_rows user rows = Inr (filter (\<lambda>r. \<not> selects user r) rows)"
  using assms(1)
proof (induction rows)
  case (Cons row rows)
  have r: "row_ok row" "db_ok rows" using db_ok_Cons [OF Cons.prems] by simp_all
  show ?case
  proof (cases "selects user row")
    case True
    have "filter (\<lambda>r. \<not> selects user r) rows = rows"
      using selects_once [OF Cons.prems True assms(2)] by (simp add: filter_id_conv)
    moreover obtain v where "item row ''user'' = Inr v" using row_ok_item [OF r(1), of "''user''"] by auto
    ultimately show ?thesis using True by (simp add: matches_ok [OF r(1)])
  qed (use Cons.IH [OF r(2)] in \<open>simp add: matches_ok [OF r(1)]\<close>)
qed simp

lemma well_typed_zero: "well_typed [(''u'', JNum 0), (''d'', JNum 0)]"
  by (auto simp: well_typed_def key_lists split: if_splits)

lemma clear_rows_ref:
  "\<forall>row \<in> set rows. row_ok row \<Longrightarrow> clear_rows user rows =
     Inr (map (\<lambda>r. if selects user r then AList.merge r [(''u'', JNum 0), (''d'', JNum 0)] else r) rows)"
proof (induction rows)
  case (Cons row rows)
  then have r: "row_ok row" by simp
  obtain v where "item (AList.merge row [(''u'', JNum 0), (''d'', JNum 0)]) ''user'' = Inr v"
    using row_ok_item [OF row_ok_merge [OF r well_typed_zero], of "''user''"] by auto
  then show ?case using Cons by (simp add: matches_ok [OF r] Let_def)
qed simp

lemma list_rows_ref: "\<forall>row \<in> set rows. row_ok row \<Longrightarrow> muid_of user = None \<Longrightarrow> list_rows sa user all rows = Inr ()"
proof (induction rows)
  case (Cons row rows)
  then have r: "row_ok row" by simp
  obtain v i where "item row ''user'' = Inr v" "userinfo sa all row None = Inr i"
    using row_ok_item [OF r, of "''user''"] userinfo_ok [OF r] by blast
  then show ?case using Cons by (simp add: matches_ok [OF r])
qed simp

lemma name_rows_ref: "\<forall>row \<in> set rows. row_ok row \<Longrightarrow> name_rows rows = Inr ()"
proof (induction rows)
  case (Cons row rows)
  then obtain v w where "item row ''user'' = Inr v" "item row ''port'' = Inr w" 
    using row_ok_item [of row "''user''"] row_ok_item [of row "''port''"] by auto
  then show ?case using Cons by simp
qed simp

definition add_name :: "jrow \<Rightarrow> jrow" where
  "add_name user = (case (map_of user ''user'', map_of user ''port'') of
     (None, Some p) \<Rightarrow> AList.update ''user'' (JText (py_str p)) user | _ \<Rightarrow> user)"

text \<open>The rows after an action, written as operations on lists.\<close>

definition action_effect :: "bytes \<Rightarrow> mgr_action \<Rightarrow> jrow \<Rightarrow> jrow list \<Rightarrow> jrow list" where
  "action_effect pw a user rows =
     (let named = (map_of user ''user'' \<noteq> None \<or> map_of user ''port'' \<noteq> None)
      in case a of
           ClearAction \<Rightarrow> map (\<lambda>r. if selects user r then AList.merge r [(''u'', JNum 0), (''d'', JNum 0)] else r) rows
         | AddAction \<Rightarrow> (if map_of user ''port'' \<noteq> None \<and> \<not> (\<exists>r \<in> set rows. blocks (add_name user) r)
                         then rows @ [AList.merge (user_defaults pw) (add_name user)] else rows)
         | DeleteAction \<Rightarrow> (if named then filter (\<lambda>r. \<not> selects user r) rows else rows)
         | EditAction \<Rightarrow> (if named then map (\<lambda>r. if selects user r then AList.merge r user else r) rows else rows)
         | ListAction \<Rightarrow> rows)"

lemma defaults_ok:
  assumes "well_typed user" and "map_of user ''user'' \<noteq> None" and "map_of user ''port'' \<noteq> None"
  shows "row_ok (AList.merge (user_defaults pw) user)"
proof -
  have d: "well_typed (user_defaults pw)"
    unfolding well_typed_def user_defaults_def map_of.simps fun_upd_apply
    by (auto simp: key_lists split: if_splits)
  show ?thesis
    using well_typed_merge [OF d assms(1)] assms(2,3)
    by (auto simp: row_ok_def merge_conv' map_add_def user_defaults_def split: option.split)
qed

lemma add_name_ok:
  assumes "well_typed user"
  shows "well_typed (add_name user)" and "map_of (add_name user) ''port'' = map_of user ''port''"
    and "map_of user ''port'' \<noteq> None \<Longrightarrow> map_of (add_name user) ''user'' \<noteq> None"
  using assms well_typed_update [OF assms, of "''user''" "JText t" for t]
  by (auto simp: add_name_def update_conv' key_lists split: option.split)

lemma mgr_add_ref:
  assumes "db_ok rows" and "well_typed user" and "map_of user ''user'' \<noteq> None" and "map_of user ''port'' \<noteq> None"
  shows "mgr_add sa pw user rows = (Inr (), if \<exists>r \<in> set rows. blocks user r then rows
    else rows @ [AList.merge (user_defaults pw) user])"
proof -
  have rows: "\<forall>row \<in> set rows. row_ok row" using assms(1) by (simp add: db_ok_def)
  obtain i where i: "userinfo sa (rows @ [AList.merge (user_defaults pw) user]) (AList.merge (user_defaults pw) user) None = Inr i"
    using userinfo_ok [OF defaults_ok [OF assms(2-4)]] by blast
  show ?thesis
  proof (cases "find (blocks user) rows")
    case None
    then have "\<not> (\<exists>r \<in> set rows. blocks user r)" by (auto simp: find_None_iff)
    then show ?thesis using i None by (simp add: mgr_add_def find_taken_ok [OF rows] Let_def)
  next
    case (Some r)
    then have r: "r \<in> set rows" "blocks user r" by (auto simp: find_Some_iff)
    then obtain v w where "item r ''user'' = Inr v" "item r ''port'' = Inr w"
      using row_ok_item [of r "''user''"] row_ok_item [of r "''port''"] rows by auto
    then show ?thesis using Some r by (auto simp: mgr_add_def find_taken_ok [OF rows] Let_def)
  qed
qed

lemma run_action_ref:
  assumes "db_ok rows" and "well_typed user" and "a = ListAction \<Longrightarrow> muid_of user = None"
  shows "run_action sa pw a user rows = (Inr (), action_effect pw a user rows)"
proof -
  have rows: "\<forall>row \<in> set rows. row_ok row" using assms(1) by (simp add: db_ok_def)
  show ?thesis
  proof (cases a)
    case ClearAction
    then show ?thesis by (simp add: run_action_def action_effect_def mgr_clear_ud_def clear_rows_ref [OF rows] saved_def)
  next
    case AddAction
    have "run_action sa pw AddAction user rows =
        (if map_of (add_name user) ''user'' \<noteq> None \<and> map_of (add_name user) ''port'' \<noteq> None
         then mgr_add sa pw (add_name user) rows else (Inr (), rows))"
      unfolding run_action_def Let_def add_name_def by simp
    then show ?thesis
      using mgr_add_ref [OF assms(1) add_name_ok(1) [OF assms(2)], of sa pw] add_name_ok(2,3) [OF assms(2)] AddAction
      by (cases "map_of user ''port''") (auto simp: action_effect_def Let_def)
  next
    case DeleteAction
    then show ?thesis
      using delete_rows_ref [OF assms(1), of user] by (auto simp: run_action_def action_effect_def mgr_delete_def saved_def Let_def)
  next
    case EditAction
    then show ?thesis
      using edit_rows_ref [OF assms(1,2), of sa "[]"] by (auto simp: run_action_def action_effect_def mgr_edit_def saved_def Let_def)
  next
    case ListAction
    then show ?thesis
      using assms(3) by (auto simp: run_action_def action_effect_def mgr_list_user_def list_rows_ref [OF rows] name_rows_ref [OF rows])
  qed
qed

definition keeps_typed :: "(mgr_action option \<times> jrow) res \<Rightarrow> bool" where
  "keeps_typed r \<longleftrightarrow> (\<forall>a u. r = Inr (a, u) \<longrightarrow> well_typed u)"

lemma keeps_if: "keeps_typed x \<Longrightarrow> keeps_typed y \<Longrightarrow> keeps_typed (if c then x else y)"
  by simp

lemma keeps_leaf:
  "well_typed u \<Longrightarrow> keeps_typed (Inr (a, u))"
  "keeps_typed (Inl e)"
  "well_typed u \<Longrightarrow> name \<notin> set num_keys \<Longrightarrow> keeps_typed (Inr (a, AList.update name (JText t) u))"
  "well_typed u \<Longrightarrow> name \<notin> set num_keys \<Longrightarrow> keeps_typed (Inr (a, AList.update name (fast tab t) u))"
  "well_typed u \<Longrightarrow> name \<notin> set text_keys \<Longrightarrow> keeps_typed (set_int name v (a, u))"
  "well_typed u \<Longrightarrow> name \<notin> set text_keys \<Longrightarrow> keeps_typed (rbind q (\<lambda>n. Inr (a, AList.update name (JNum n) u)))"
  by (auto simp: keeps_typed_def well_typed_update set_int_def fast_def rbind_eq_Inr split: option.splits)

lemma parse_opt_typed: "well_typed u \<Longrightarrow> keeps_typed (parse_opt quota (key, v) (a, u))"
  unfolding parse_opt_def Let_def prod.case
  by (intro keeps_if keeps_leaf) (simp_all add: key_lists)

lemma parse_opts_typed:
  assumes "parse_opts quota optlist = Inr (a, user)"
  shows "well_typed user"
proof -
  have e: "fold (\<lambda>kv r. rbind r (parse_opt quota kv)) os (Inl x) = Inl x" for os x by (induction os) auto
  have "well_typed (snd au')" if "well_typed (snd au)" "fold (\<lambda>kv r. rbind r (parse_opt quota kv)) os (Inr au) = Inr au'" for os au au'
    using that
  proof (induction os arbitrary: au)
    case (Cons kv os)
    obtain key v x u where p: "kv = (key, v)" "au = (x, u)" by (cases kv, cases au)
    show ?case
    proof (cases "parse_opt quota kv au")
      case (Inr au1)
      then have "well_typed (snd au1)"
        using parse_opt_typed [of u quota key v x] Cons.prems(1) p by (cases au1) (simp add: keeps_typed_def)
      then show ?thesis using Cons.IH [of au1] Cons.prems(2) Inr by simp
    qed (use Cons.prems(2) e in simp)
  qed simp
  from this [of "(None, [])" optlist "(a, user)"] assms show ?thesis by (simp add: parse_opts_def well_typed_def)
qed

lemma distinct_map_same: "(\<And>r. r \<in> set rows \<Longrightarrow> g (f r) = g r) \<Longrightarrow> map g (map f rows) = map g rows"
  by simp

lemma action_effect_ok:
  assumes "db_ok rows" and "well_typed user"
  shows "db_ok (action_effect pw a user rows)"
proof -
  have rows: "\<forall>row \<in> set rows. row_ok row" using assms(1) by (simp add: db_ok_def)
  show ?thesis
  proof (cases a)
    case ClearAction
    have "map_of (if selects user r then AList.merge r [(''u'', JNum 0), (''d'', JNum 0)] else r) k = map_of r k"
      if "k \<in> {''user'', ''port''}" for r k
      using that by (auto simp: update_conv' merge_conv' map_add_def)
    then show ?thesis
      using assms(1) ClearAction row_ok_merge [OF _ well_typed_zero] by (auto simp: action_effect_def db_ok_def comp_def)
  next
    case AddAction
    let ?u = "add_name user"
    show ?thesis
    proof (cases "map_of user ''port'' \<noteq> None \<and> \<not> (\<exists>r \<in> set rows. blocks ?u r)")
      case True
      note n = add_name_ok [OF assms(2)]
      have k: "map_of (AList.merge (user_defaults pw) ?u) k = map_of ?u k" if "k \<in> {''user'', ''port''}" for k
        using that by (auto simp: merge_conv' map_add_def user_defaults_def split: option.split)
      have fresh: "map_of r k \<noteq> map_of ?u k" if "k \<in> {''user'', ''port''}" "r \<in> set rows" for r k
        using True n that by (auto simp: blocks_def)
      have "map_of ?u ''user'' \<notin> (\<lambda>r. map_of r ''user'') ` set rows" using fresh [of "''user''"] by fastforce
      moreover have "map_of ?u ''port'' \<notin> (\<lambda>r. map_of r ''port'') ` set rows" using fresh [of "''port''"] by fastforce
      moreover have "row_ok (AList.merge (user_defaults pw) ?u)" using defaults_ok [OF n(1)] n(2,3) True by simp
      ultimately show ?thesis
        using assms(1) AddAction True k [of "''user''"] k [of "''port''"] by (simp add: action_effect_def db_ok_def)
    next
      case False
      then show ?thesis using assms(1) AddAction by (auto simp: action_effect_def)
    qed
  next
    case DeleteAction
    have "distinct (map g (filter P xs))" if "distinct (map g xs)" for g :: "jrow \<Rightarrow> jval option" and P and xs :: "jrow list"
      using that by (rule distinct_map_filter)
    then show ?thesis using assms(1) DeleteAction by (simp add: action_effect_def db_ok_def Let_def)
  next
    case EditAction
    have "map_of (if selects user r then AList.merge r user else r) k = map_of r k" if "k \<in> {''user'', ''port''}" for r k
      using that by (auto simp: merge_conv' map_add_def selects_def split: option.split)
    then show ?thesis
      using assms EditAction row_ok_merge by (auto simp: action_effect_def db_ok_def comp_def Let_def)
  next
    case ListAction
    then show ?thesis using assms(1) by (simp add: action_effect_def)
  qed
qed



text \<open>A sub-user that has no row makes \<^verbatim>\<open>-l\<close> read a variable that was never set.\<close>

theorem unknown_sub_user:
  "userinfo sa rows user (Some i) = Inl (Exc ''UnboundLocalError'')"
  if "find_muid i rows = Inr None" and "map_of user ''transfer_enable'' \<noteq> None"
  using that
  by (cases "map_of user ''transfer_enable''"; cases "map_of user ''protocol_param''";
      simp add: userinfo_def param_line_def amount_line_def)

end
