(* ===== verification/Manager.thy ===== *)
theory Manager
  imports Server_Pool
begin

text \<open>
  \<^verbatim>\<open>manager.py\<close>: the process that starts and stops ports by datagrams and reports the traffic of
  each. The relays are those of \<^verbatim>\<open>Server_Pool\<close>, made by the same functions. \<^verbatim>\<open>json\<close> is an
  argument where it reads; what it writes of the statistics is written out. What is sent is a trace. Opening the
  control socket, the event loop and the sockets of a relay that is closed are left out.
\<close>

definition STAT_SEND_LIMIT :: nat where "STAT_SEND_LIMIT = 50"

record 'c manager =
  mgr_config :: config
  mgr_relays :: "(int \<times> tcp_server \<times> 'c udp_relay) list"
  mgr_statistics :: "(int \<times> int) list"
  mgr_client :: "nat option"
  mgr_sent :: "(bytes \<times> nat) list"

subsection \<open>Ports\<close>

definition setting_int :: "setting \<Rightarrow> int res" where
  "setting_int v =
     (case v of
        Number n \<Rightarrow> Inr n
      | Text t \<Rightarrow> (case py_int t of None \<Rightarrow> Inl ValueError | Some n \<Rightarrow> Inr n)
      | Ranges _ \<Rightarrow> Inl TypeError)"

definition cfg_item :: "config \<Rightarrow> bytes \<Rightarrow> setting res" where
  "cfg_item cfg k = (case map_of cfg k of None \<Rightarrow> Inl KeyError | Some v \<Rightarrow> Inr v)"

text \<open>The log lines read \<^verbatim>\<open>config['server']\<close>. A TCP relay stays open when the UDP relay fails, but it is
  not kept.\<close>

definition mgr_add_port :: "'c relay_maker \<Rightarrow> config \<Rightarrow> 'c manager \<Rightarrow> unit res \<times> 'c manager" where
  "mgr_add_port M cfg s =
     (case rbind (rbind (cfg_item cfg ''server_port'') setting_int) (\<lambda>port. rbind (cfg_item cfg ''server'') (\<lambda>_. Inr port)) of
        Inl e \<Rightarrow> (Inl e, s)
      | Inr port \<Rightarrow>
          (if map_of (mgr_relays s) port \<noteq> None then (Inr (), s)
           else
             (case make_tcp M V4 cfg of
                Inl e \<Rightarrow> (Inl e, s)
              | Inr t \<Rightarrow>
                  (case make_udp M V4 cfg of
                     Inl e \<Rightarrow> (Inl e, s)
                   | Inr u \<Rightarrow> (Inr (), s\<lparr>mgr_relays := AList.update port (t, u) (mgr_relays s)\<rparr>)))))"

definition mgr_remove_port :: "config \<Rightarrow> 'c manager \<Rightarrow> unit res \<times> 'c manager" where
  "mgr_remove_port cfg s =
     (case rbind (rbind (cfg_item cfg ''server_port'') setting_int) (\<lambda>port. rbind (cfg_item cfg ''server'') (\<lambda>_. Inr port)) of
        Inl e \<Rightarrow> (Inl e, s)
      | Inr port \<Rightarrow>
          (Inr (), if map_of (mgr_relays s) port \<noteq> None then s\<lparr>mgr_relays := AList.delete port (mgr_relays s)\<rparr> else s))"

text \<open>The ports of the configuration, when the process starts\<close>

fun mgr_start_ports :: "'c relay_maker \<Rightarrow> (bytes \<times> setting) list \<Rightarrow> 'c manager \<Rightarrow> unit res \<times> 'c manager" where
  "mgr_start_ports M [] s = (Inr (), s)"
| "mgr_start_ports M ((port, pw) # ps) s =
     (case py_int port of
        None \<Rightarrow> (Inl ValueError, s)
      | Some p \<Rightarrow>
          (case mgr_add_port M (AList.update ''password'' pw (AList.update ''server_port'' (Number p) (mgr_config s))) s of
             (Inl e, s1) \<Rightarrow> (Inl e, s1)
           | (Inr _, s1) \<Rightarrow> mgr_start_ports M ps s1))"

definition mgr_new :: "'c relay_maker \<Rightarrow> config \<Rightarrow> (bytes \<times> setting) list \<Rightarrow> unit res \<times> 'c manager" where
  "mgr_new M cfg port_password =
     mgr_start_ports M port_password
       \<lparr>mgr_config = cfg, mgr_relays = [], mgr_statistics = [], mgr_client = None, mgr_sent = []\<rparr>"

subsection \<open>Commands\<close>

definition send_control_data :: "bytes \<Rightarrow> 'c manager \<Rightarrow> 'c manager" where
  "send_control_data data s = (case mgr_client s of None \<Rightarrow> s | Some a \<Rightarrow> s\<lparr>mgr_sent := mgr_sent s @ [(data, a)]\<rparr>)"

definition parse_command :: "(bytes \<Rightarrow> config res) \<Rightarrow> bytes \<Rightarrow> (bytes \<times> config) option" where
  "parse_command parse_json data =
     (case py_split1 '':'' data of
        [command, config_json] \<Rightarrow> (case parse_json config_json of Inl _ \<Rightarrow> None | Inr cfg \<Rightarrow> Some (command, cfg))
      | _ \<Rightarrow> Some (data, []))"

definition mgr_handle_event :: "'c relay_maker \<Rightarrow> (bytes \<Rightarrow> config res) \<Rightarrow> bytes \<Rightarrow> nat \<Rightarrow> 'c manager \<Rightarrow> unit res \<times> 'c manager" where
  "mgr_handle_event M parse_json data addr s =
     (let s1 = s\<lparr>mgr_client := Some addr\<rparr>;
          reply = (\<lambda>text rs. case rs of (Inl e, s2) \<Rightarrow> (Inl e, s2) | (Inr _, s2) \<Rightarrow> (Inr (), send_control_data text s2))
      in case parse_command parse_json data of
           None \<Rightarrow> (Inr (), s1)
         | Some (command, cfg) \<Rightarrow>
             (let a_config = AList.merge (mgr_config s1) cfg
              in if map_of a_config ''server_port'' = None then (Inr (), s1)
                 else if command = ''add'' then reply ''ok'' (mgr_add_port M a_config s1)
                 else if command = ''remove'' then reply ''ok'' (mgr_remove_port a_config s1)
                 else if command = ''ping'' then (Inr (), send_control_data ''pong'' s1)
                 else (Inr (), s1)))"

subsection \<open>Statistics\<close>

definition stat_callback :: "int \<Rightarrow> int \<Rightarrow> 'c manager \<Rightarrow> 'c manager" where
  "stat_callback port data_len s =
     s\<lparr>mgr_statistics := AList.update port ((case map_of (mgr_statistics s) port of None \<Rightarrow> 0 | Some n \<Rightarrow> n) + data_len) (mgr_statistics s)\<rparr>"

definition int_text :: "int \<Rightarrow> bytes" where
  "int_text n = (if n < 0 then CHR ''-'' # dec (nat (- n)) else dec (nat n))"

text \<open>\<^verbatim>\<open>json.dumps\<close> of a dictionary of numbers, without spaces\<close>

definition stat_json :: "(int \<times> int) list \<Rightarrow> bytes" where
  "stat_json r = CHR ''{'' # py_join '','' (map (\<lambda>(k, v). CHR 0x22 # int_text k @ [CHR 0x22, CHR '':''] @ int_text v) r) @ [CHR ''}'']"

definition send_data :: "(int \<times> int) list \<Rightarrow> 'c manager \<Rightarrow> 'c manager" where
  "send_data r s = (if r = [] then s else send_control_data (''stat: '' @ stat_json r) s)"

text \<open>The loop over the statistics, with the part that was collected.\<close>

fun send_stats :: "(int \<times> int) list \<Rightarrow> (int \<times> int) list \<Rightarrow> nat \<Rightarrow> 'c manager \<Rightarrow> 'c manager" where
  "send_stats [] r i s = (if r \<noteq> [] then send_data r s else s)"
| "send_stats ((k, v) # items) r i s =
     (let r' = AList.update k v r; i' = i + 1
      in if i' \<ge> STAT_SEND_LIMIT then send_stats items [] 0 (send_data r' s) else send_stats items r' i' s)"

definition mgr_handle_periodic :: "'c manager \<Rightarrow> 'c manager" where
  "mgr_handle_periodic s = (send_stats (mgr_statistics s) [] 0 s)\<lparr>mgr_statistics := []\<rparr>"

subsection \<open>What commands do\<close>

definition served :: "'c manager \<Rightarrow> int set" where
  "served s = dom (map_of (mgr_relays s))"

definition mgr_makes :: "'c relay_maker \<Rightarrow> bool" where
  "mgr_makes M \<longleftrightarrow> (\<forall>cfg. (\<exists>t. make_tcp M V4 cfg = Inr t) \<and> (\<exists>u. make_udp M V4 cfg = Inr u))"

lemma mgr_add_port_served:
  assumes "mgr_makes M" and "map_of cfg ''server_port'' = Some v" and "setting_int v = Inr p" and "map_of cfg ''server'' \<noteq> None"
  shows "\<exists>s'. mgr_add_port M cfg s = (Inr (), s') \<and> served s' = insert p (served s)
    \<and> (\<forall>q. q \<noteq> p \<longrightarrow> map_of (mgr_relays s') q = map_of (mgr_relays s) q)
    \<and> mgr_sent s' = mgr_sent s \<and> mgr_client s' = mgr_client s \<and> mgr_statistics s' = mgr_statistics s"
proof -
  obtain t u where "make_tcp M V4 cfg = Inr t" "make_udp M V4 cfg = Inr u" using assms(1) unfolding mgr_makes_def by blast
  then show ?thesis
    using assms(2-4) by (auto simp: mgr_add_port_def cfg_item_def served_def update_conv')
qed

lemma mgr_remove_port_served:
  assumes "map_of cfg ''server_port'' = Some v" and "setting_int v = Inr p" and "map_of cfg ''server'' \<noteq> None"
  shows "\<exists>s'. mgr_remove_port cfg s = (Inr (), s') \<and> served s' = served s - {p}
    \<and> (\<forall>q. q \<noteq> p \<longrightarrow> map_of (mgr_relays s') q = map_of (mgr_relays s) q)
    \<and> mgr_sent s' = mgr_sent s \<and> mgr_client s' = mgr_client s \<and> mgr_statistics s' = mgr_statistics s"
  using assms by (auto simp: mgr_remove_port_def cfg_item_def served_def delete_conv' split: if_splits)

lemma split_command: "CHR '':'' \<notin> set c \<Longrightarrow> py_split1 '':'' (c @ CHR '':'' # j) = [c, j]"
  using py_find_first [of "CHR '':''" c "[]" j] by (simp add: py_split1_def)


subsection \<open>What is reported\<close>

lemma update_fresh: "k \<notin> fst ` set r \<Longrightarrow> AList.update k v r = r @ [(k, v)]"
  by (induction r) auto

lemma send_data_sent:
  "mgr_client s = Some a \<Longrightarrow> r \<noteq> [] \<Longrightarrow> mgr_sent (send_data r s) = mgr_sent s @ [(''stat: '' @ stat_json r, a)]"
  "mgr_client (send_data r s) = mgr_client s"
  by (auto simp: send_data_def send_control_data_def split: option.split)

lemma send_stats_chunks:
  assumes "mgr_client s = Some a" and "distinct (map fst (r @ items))" and "i = length r" and "length r < STAT_SEND_LIMIT"
  shows "\<exists>chunks. concat chunks = r @ items \<and> (\<forall>c \<in> set chunks. c \<noteq> [] \<and> length c \<le> STAT_SEND_LIMIT)
    \<and> mgr_sent (send_stats items r i s) = mgr_sent s @ map (\<lambda>c. (''stat: '' @ stat_json c, a)) chunks"
  using assms
proof (induction items r i s rule: send_stats.induct)
  case (1 r i s)
  then show ?case
    by (cases "r = []") (auto intro: exI [of _ "[]"] exI [of _ "[r]"] simp: send_data_sent)
next
  case (2 k v items r i s)
  have u: "AList.update k v r = r @ [(k, v)]" using 2(4) by (intro update_fresh) auto
  show ?case
  proof (cases "i + 1 \<ge> STAT_SEND_LIMIT")
    case True
    have "\<exists>chunks. concat chunks = [] @ items \<and> (\<forall>c \<in> set chunks. c \<noteq> [] \<and> length c \<le> STAT_SEND_LIMIT)
        \<and> mgr_sent (send_stats items [] 0 (send_data (r @ [(k, v)]) s))
          = mgr_sent (send_data (r @ [(k, v)]) s) @ map (\<lambda>c. (''stat: '' @ stat_json c, a)) chunks"
      using 2(1) [OF refl refl] True 2(3,4) u by (auto simp: send_data_sent STAT_SEND_LIMIT_def)
    then obtain chunks where c: "concat chunks = items" "\<forall>c \<in> set chunks. c \<noteq> [] \<and> length c \<le> STAT_SEND_LIMIT"
        "mgr_sent (send_stats items [] 0 (send_data (r @ [(k, v)]) s))
          = mgr_sent (send_data (r @ [(k, v)]) s) @ map (\<lambda>c. (''stat: '' @ stat_json c, a)) chunks" by auto
    show ?thesis
      by (rule exI [of _ "(r @ [(k, v)]) # chunks"]) (use c True 2(3,5,6) u in \<open>simp add: send_data_sent\<close>)
  next
    case False
    then show ?thesis using 2(2) [OF refl refl] 2(3-6) u by simp
  qed
qed

text \<open>The report sends the traffic of every port once, in messages of at most fifty ports, and
  starts counting anew.\<close>

theorem statistics_reported:
  assumes "mgr_client s = Some a" and "distinct (map fst (mgr_statistics s))"
  shows "\<exists>chunks. concat chunks = mgr_statistics s \<and> (\<forall>c \<in> set chunks. c \<noteq> [] \<and> length c \<le> STAT_SEND_LIMIT)
    \<and> mgr_sent (mgr_handle_periodic s) = mgr_sent s @ map (\<lambda>c. (''stat: '' @ stat_json c, a)) chunks
    \<and> mgr_statistics (mgr_handle_periodic s) = []"
  using send_stats_chunks [OF assms(1), of "[]" "mgr_statistics s" 0] assms(2)
  by (simp add: mgr_handle_periodic_def STAT_SEND_LIMIT_def)

text \<open>Without a client that has ever sent a command, the traffic is forgotten.\<close>

theorem statistics_dropped:
  assumes "mgr_client s = None"
  shows "mgr_sent (mgr_handle_periodic s) = mgr_sent s \<and> mgr_statistics (mgr_handle_periodic s) = []"
proof -
  have "mgr_sent (send_stats items r i s) = mgr_sent s" if "mgr_client s = None" for items r i and s :: "'a manager"
    using that by (induction items r i s rule: send_stats.induct) (auto simp: send_data_def send_control_data_def Let_def)
  then show ?thesis using assms by (simp add: mgr_handle_periodic_def)
qed

subsection \<open>A manager\<close>

definition example_relay_maker :: "unit relay_maker" where
  "example_relay_maker =
     \<lparr>make_tcp = (\<lambda>_ _. Inr \<lparr>listen_port = 80, server_transfer_ul = 0, server_transfer_dl = 0, server_users = [],
        server_users_cfg = [], server_user_transfer_ul = [], server_user_transfer_dl = [], mu = False,
        speed_testers_u = [], speed_testers_d = [], server_connections = 0, default_limit = None, timeout_cache = lru_new 60\<rparr>),
      make_udp = (\<lambda>_ _. Inr \<lparr>udp_codec_state = (), udp_cache = lru_new 300, udp_cache_dns = lru_new 10, udp_sockets = [],
        udp_client_addr = [], udp_next = 0, udp_users = [], udp_transfer_ul = 0, udp_transfer_dl = 0, udp_user_ul = [],
        udp_user_dl = [], udp_closed = False, udp_server_open = True, udp_sends = [], udp_trace = []\<rparr>)\<rparr>"

definition example_manager :: "unit manager" where
  "example_manager = \<lparr>mgr_config = [(''server'', Text ''0.0.0.0''), (''server_port'', Number 8388)], mgr_relays = [],
     mgr_statistics = [(80, 5), (81, 6)], mgr_client = Some 3, mgr_sent = []\<rparr>"


lemma statistics_reported_witness:
  "\<exists>chunks. concat chunks = [(80, 5), (81, 6)]
    \<and> mgr_sent (mgr_handle_periodic example_manager) = map (\<lambda>c. (''stat: '' @ stat_json c, 3)) chunks"
proof -
  have e: "mgr_client example_manager = Some 3" "distinct (map fst (mgr_statistics example_manager))"
    "mgr_statistics example_manager = [(80, 5), (81, 6)]" "mgr_sent example_manager = []"
    by (simp_all add: example_manager_def)
  from statistics_reported [OF e(1,2)] show ?thesis unfolding e(3,4) by auto
qed

end
