(* ===== verification/Config_Text.thy ===== *)
theory Config_Text
  imports Prelude
begin

text \<open>
  \<^verbatim>\<open>JSFormat\<close> and \<^verbatim>\<open>remove_comment\<close> of \<^verbatim>\<open>shell.py\<close>: the automaton that takes the comments
  out of the configuration before \<^verbatim>\<open>json\<close> reads it. Its theorem gives the exact output for every
  text of characters, string literals and comments.
\<close>

subsection \<open>The automaton\<close>

abbreviation dquote :: char where "dquote \<equiv> CHR 0x22"
abbreviation backslash :: char where "backslash \<equiv> CHR 0x5C"
abbreviation solidus :: char where "solidus \<equiv> CHR ''/''"
abbreviation newline :: char where "newline \<equiv> CHR 0x0A"

text \<open>What \<^verbatim>\<open>push\<close> returns, and the state after it\<close>

definition js_push :: "nat \<Rightarrow> char \<Rightarrow> bytes \<times> nat" where
  "js_push state ch =
     (if state = 0 then
        (if ch = dquote then ([ch], 1) else if ch = solidus then ([], 3) else ([ch], 0))
      else if state = 1 then
        (if ch = dquote then ([ch], 0) else if ch = backslash then ([ch], 2) else ([ch], 1))
      else if state = 2 then
        (if ch = dquote then ([ch], 1) else ([backslash, ch], 1))
      else if state = 3 then
        (if ch = solidus then ([], 4) else ([solidus, ch], 3))
      else if state = 4 then
        (if ch = newline then ([newline], 0) else ([], 4))
      else ([], state))"

fun js_filter :: "nat \<Rightarrow> bytes \<Rightarrow> bytes" where
  "js_filter state [] = []"
| "js_filter state (ch # json) = (case js_push state ch of (out, state') \<Rightarrow> out @ js_filter state' json)"

definition remove_comment :: "bytes \<Rightarrow> bytes" where
  "remove_comment json = js_filter 0 json"

subsection \<open>Texts by their parts\<close>

datatype jchar = Ordinary char | EscQuote | Esc char

datatype jpart = Outside char | Literal "jchar list" | Comment bytes

fun show_char :: "jchar \<Rightarrow> bytes" where
  "show_char (Ordinary c) = [c]"
| "show_char EscQuote = [backslash, dquote]"
| "show_char (Esc c) = [backslash, c]"

fun show_part :: "jpart \<Rightarrow> bytes" where
  "show_part (Outside c) = [c]"
| "show_part (Literal cs) = dquote # concat (map show_char cs) @ [dquote]"
| "show_part (Comment t) = solidus # solidus # t @ [newline]"

definition show_text :: "jpart list \<Rightarrow> bytes" where
  "show_text ps = concat (map show_part ps)"

fun char_ok :: "jchar \<Rightarrow> bool" where
  "char_ok (Ordinary c) \<longleftrightarrow> c \<noteq> dquote \<and> c \<noteq> backslash"
| "char_ok EscQuote \<longleftrightarrow> True"
| "char_ok (Esc c) \<longleftrightarrow> c \<noteq> dquote"

fun part_ok :: "jpart \<Rightarrow> bool" where
  "part_ok (Outside c) \<longleftrightarrow> c \<noteq> dquote \<and> c \<noteq> solidus"
| "part_ok (Literal cs) \<longleftrightarrow> (\<forall>c \<in> set cs. char_ok c)"
| "part_ok (Comment t) \<longleftrightarrow> newline \<notin> set t"

text \<open>What the automaton makes of them: an escape other than \<^verbatim>\<open>\"\<close> has its backslash doubled.\<close>

fun out_char :: "jchar \<Rightarrow> bytes" where
  "out_char (Ordinary c) = [c]"
| "out_char EscQuote = [backslash, dquote]"
| "out_char (Esc c) = [backslash, backslash, c]"

fun out_part :: "jpart \<Rightarrow> bytes" where
  "out_part (Outside c) = [c]"
| "out_part (Literal cs) = dquote # concat (map out_char cs) @ [dquote]"
| "out_part (Comment t) = [newline]"

lemmas push_simps = js_push_def

lemma filter_literal:
  "\<forall>c \<in> set cs. char_ok c \<Longrightarrow> js_filter 1 (concat (map show_char cs) @ s) = concat (map out_char cs) @ js_filter 1 s"
proof (induction cs)
  case (Cons c cs)
  then show ?case by (cases c) (auto simp: push_simps)
qed simp

lemma filter_comment: "newline \<notin> set t \<Longrightarrow> js_filter 4 (t @ s) = js_filter 4 s"
  by (induction t) (auto simp: push_simps)

lemma filter_part:
  assumes "part_ok p"
  shows "js_filter 0 (show_part p @ s) = out_part p @ js_filter 0 s"
proof (cases p)
  case (Literal cs)
  then show ?thesis using assms filter_literal [of cs "dquote # s"] by (simp add: push_simps)
next
  case (Comment t)
  then show ?thesis using assms filter_comment [of t "newline # s"] by (simp add: push_simps)
qed (use assms in \<open>simp add: push_simps\<close>)

lemma filter_text: "\<forall>p \<in> set ps. part_ok p \<Longrightarrow> js_filter 0 (show_text ps @ s) = concat (map out_part ps) @ js_filter 0 s"
  by (induction ps) (simp_all add: show_text_def filter_part)



text \<open>Without such escapes the text is the same up to its comments.\<close>

corollary remove_comment_plain:
  assumes "\<forall>p \<in> set ps. part_ok p" and "\<forall>cs c. Literal cs \<in> set ps \<longrightarrow> Esc c \<notin> set cs"
  shows "remove_comment (show_text ps) = show_text (map (\<lambda>p. case p of Comment _ \<Rightarrow> Outside newline | _ \<Rightarrow> p) ps)"
proof -
  have "out_part p = show_part (case p of Comment _ \<Rightarrow> Outside newline | _ \<Rightarrow> p)" if "p \<in> set ps" for p
  proof (cases p)
    case (Literal cs)
    have "out_char c = show_char c" if "c \<in> set cs" for c
      using assms(2) Literal \<open>p \<in> set ps\<close> that by (cases c) auto
    then show ?thesis using Literal by (simp cong: map_cong)
  qed simp_all
  then show ?thesis
    using filter_text [OF assms(1), of "[]"] by (simp add: remove_comment_def show_text_def comp_def cong: map_cong)
qed

text \<open>A single slash outside a string leaves the automaton waiting for a second one, and every
  character behind it gets a slash.\<close>

theorem single_slash_sticks:
  "solidus \<notin> set s \<Longrightarrow> remove_comment (solidus # s) = concat (map (\<lambda>c. [solidus, c]) s)"
proof -
  have "js_filter 3 s = concat (map (\<lambda>c. [solidus, c]) s)" if "solidus \<notin> set s"
    using that by (induction s) (auto simp: push_simps)
  then show "solidus \<notin> set s \<Longrightarrow> remove_comment (solidus # s) = concat (map (\<lambda>c. [solidus, c]) s)"
    by (simp add: remove_comment_def push_simps)
qed

end
