(* ===== verification/Start_Config.thy ===== *)
theory Start_Config
  imports Config_Text Encryptor Headers
begin

text \<open>
  The start of \<^verbatim>\<open>shell.py\<close>: \<^verbatim>\<open>find_config\<close>, \<^verbatim>\<open>parse_json_in_str\<close> with its hooks, \<^verbatim>\<open>get_config\<close>
  and \<^verbatim>\<open>check_config\<close>, from the options and the file to the configuration that the servers
  are made of. \<^verbatim>\<open>getopt\<close> gives the options or its error, \<^verbatim>\<open>json.loads\<close> and \<^verbatim>\<open>decode('utf8')\<close>
  are parts of the environment; a text is a byte string, that of a \<^verbatim>\<open>unicode\<close> object its
  UTF-8. The program ends with an exit code, with an exception, or goes on.
\<close>

subsection \<open>Values\<close>

datatype cval =
    CNone | CBool bool | CInt int | CReal rat | CStr bytes | CUni bytes
  | CList "cval list" | CDict "(bytes \<times> cval) list" | CNets ip_network | CPorts port_range

datatype stop = Exit int | Raised exc

type_synonym 'a run = "stop + 'a"

definition sbind :: "'a run \<Rightarrow> ('a \<Rightarrow> 'b run) \<Rightarrow> 'b run" where
  "sbind x f = (case x of Inl e \<Rightarrow> Inl e | Inr v \<Rightarrow> f v)"

lemma sbind_simps [simp]: "sbind (Inl e) f = Inl e" "sbind (Inr v) f = f v"
  by (simp_all add: sbind_def)

lemma sbind_eq_Inr: "sbind x f = Inr y \<longleftrightarrow> (\<exists>v. x = Inr v \<and> f v = Inr y)"
  by (cases x) simp_all

definition raising :: "'a res \<Rightarrow> 'a run" where
  "raising x = (case x of Inl SystemExit \<Rightarrow> Inl (Exit 1) | Inl e \<Rightarrow> Inl (Raised e) | Inr v \<Rightarrow> Inr v)"

lemma raising_eq_Inr [simp]: "raising x = Inr v \<longleftrightarrow> x = Inr v"
  by (auto simp: raising_def split: sum.splits exc.splits)

text \<open>Reading and writing an item of the configuration, which need not be a dictionary\<close>

definition store :: "bytes \<Rightarrow> cval \<Rightarrow> cval \<Rightarrow> cval res" where
  "store k v c = (case c of CDict kvs \<Rightarrow> Inr (CDict (AList.update k v kvs)) | _ \<Rightarrow> Inl TypeError)"

definition get :: "bytes \<Rightarrow> cval \<Rightarrow> cval \<Rightarrow> cval res" where
  "get k d c =
     (case c of CDict kvs \<Rightarrow> Inr (case map_of kvs k of None \<Rightarrow> d | Some v \<Rightarrow> v) | _ \<Rightarrow> Inl AttributeError)"

definition truth :: "cval \<Rightarrow> bool" where
  "truth v =
     (case v of CNone \<Rightarrow> False | CBool b \<Rightarrow> b | CInt i \<Rightarrow> i \<noteq> 0 | CReal r \<Rightarrow> r \<noteq> 0 | CStr s \<Rightarrow> s \<noteq> []
      | CUni s \<Rightarrow> s \<noteq> [] | CList l \<Rightarrow> l \<noteq> [] | CDict d \<Rightarrow> d \<noteq> [] | _ \<Rightarrow> True)"

text \<open>\<^verbatim>\<open>int(v)\<close>\<close>

definition to_int :: "cval \<Rightarrow> int res" where
  "to_int v =
     (case v of
        CInt i \<Rightarrow> Inr i
      | CBool b \<Rightarrow> Inr (if b then 1 else 0)
      | CReal r \<Rightarrow> Inr (if r < 0 then - floor (- r) else floor r)
      | CStr s \<Rightarrow> (case py_int s of None \<Rightarrow> Inl ValueError | Some i \<Rightarrow> Inr i)
      | CUni s \<Rightarrow> (case py_int s of None \<Rightarrow> Inl ValueError | Some i \<Rightarrow> Inr i)
      | _ \<Rightarrow> Inl TypeError)"

text \<open>Comparisons with a number: \<^verbatim>\<open>None\<close> is less than every number, what is no number is greater.\<close>

definition less_int :: "cval \<Rightarrow> int \<Rightarrow> bool" where
  "less_int v n =
     (case v of CNone \<Rightarrow> True | CBool b \<Rightarrow> (if b then 1 else 0) < n | CInt i \<Rightarrow> i < n | CReal r \<Rightarrow> r < of_int n | _ \<Rightarrow> False)"

definition equals_int :: "cval \<Rightarrow> int \<Rightarrow> bool" where
  "equals_int v n =
     (case v of CBool b \<Rightarrow> (if b then 1 else 0) = n | CInt i \<Rightarrow> i = n | CReal r \<Rightarrow> r = of_int n | _ \<Rightarrow> False)"

subsection \<open>The file\<close>

text \<open>\<^verbatim>\<open>_decode_dict\<close> and \<^verbatim>\<open>_decode_list\<close>. A byte string has \<^verbatim>\<open>encode\<close> as well: it is decoded as
  ASCII first.\<close>

fun decode_val :: "cval \<Rightarrow> cval res" and decode_list :: "cval list \<Rightarrow> cval list res"
  and decode_dict :: "(bytes \<times> cval) list \<Rightarrow> (bytes \<times> cval) list res" where
  "decode_val (CUni s) = Inr (CStr s)"
| "decode_val (CStr s) = (if is_ascii s then Inr (CStr s) else Inl UnicodeDecodeError)"
| "decode_val (CList l) = rbind (decode_list l) (\<lambda>l. Inr (CList l))"
| "decode_val (CDict d) = rbind (decode_dict d) (\<lambda>d. Inr (CDict d))"
| "decode_val v = Inr v"
| "decode_list [] = Inr []"
| "decode_list (v # vs) = rbind (decode_val v) (\<lambda>v. rbind (decode_list vs) (\<lambda>vs. Inr (v # vs)))"
| "decode_dict [] = Inr []"
| "decode_dict ((k, v) # kvs) = rbind (decode_val v) (\<lambda>v. rbind (decode_dict kvs) (\<lambda>kvs. Inr ((k, v) # kvs)))"

text \<open>\<^verbatim>\<open>json.loads\<close> calls the hook for every object, the inner ones first.\<close>

fun hooked :: "cval \<Rightarrow> cval res" and hooked_list :: "cval list \<Rightarrow> cval list res"
  and hooked_dict :: "(bytes \<times> cval) list \<Rightarrow> (bytes \<times> cval) list res" where
  "hooked (CList l) = rbind (hooked_list l) (\<lambda>l. Inr (CList l))"
| "hooked (CDict d) = rbind (hooked_dict d) (\<lambda>d. rbind (decode_dict d) (\<lambda>d. Inr (CDict d)))"
| "hooked v = Inr v"
| "hooked_list [] = Inr []"
| "hooked_list (v # vs) = rbind (hooked v) (\<lambda>v. rbind (hooked_list vs) (\<lambda>vs. Inr (v # vs)))"
| "hooked_dict [] = Inr []"
| "hooked_dict ((k, v) # kvs) = rbind (hooked v) (\<lambda>v. rbind (hooked_dict kvs) (\<lambda>kvs. Inr ((k, v) # kvs)))"

text \<open>The automaton reads the characters of the decoded text. What it writes it makes with the
  built-in \<^verbatim>\<open>chr\<close>, which takes codes below 256; in a comment it writes nothing.\<close>

definition push_code :: "nat \<Rightarrow> nat \<Rightarrow> (bytes \<times> nat) res" where
  "push_code state ch =
     (if ch < 256 then Inr (js_push state (chrb ch))
      else if state < 4 then Inl ValueError
      else Inr ([], state))"

fun filter_codes :: "nat \<Rightarrow> nat list \<Rightarrow> bytes res" where
  "filter_codes state [] = Inr []"
| "filter_codes state (ch # json) =
     rbind (push_code state ch) (\<lambda>(out, state'). rbind (filter_codes state' json) (\<lambda>r. Inr (out @ r)))"

record start_env =
  file_named :: "bytes \<Rightarrow> bytes option"
  in_parent :: "bytes \<Rightarrow> bytes"
  is_posix :: bool
  decode_utf8 :: "bytes \<Rightarrow> nat list res"
  json_loads :: "bytes \<Rightarrow> cval res"

definition sub_find :: "start_env \<Rightarrow> bytes \<Rightarrow> bytes option" where
  "sub_find env file_name =
     (if file_named env file_name \<noteq> None then Some file_name
      else let file_name' = in_parent env file_name
           in if file_named env file_name' \<noteq> None then Some file_name' else None)"

definition find_config :: "start_env \<Rightarrow> bytes option" where
  "find_config env =
     (case sub_find env ''user-config.json'' of Some p \<Rightarrow> Some p | None \<Rightarrow> sub_find env ''config.json'')"

definition parse_json_in_str :: "start_env \<Rightarrow> bytes \<Rightarrow> cval res" where
  "parse_json_in_str env data = rbind (json_loads env data) hooked"

definition value_error :: "exc \<Rightarrow> bool" where
  "value_error e \<longleftrightarrow> e = ValueError \<or> e = UnicodeDecodeError"

definition read_config :: "start_env \<Rightarrow> bytes \<Rightarrow> cval run" where
  "read_config env path =
     (case file_named env path of
        None \<Rightarrow> Inl (Raised OSError)
      | Some raw \<Rightarrow>
          (case rbind (decode_utf8 env raw) (\<lambda>cs. rbind (filter_codes 0 cs) (parse_json_in_str env)) of
             Inl e \<Rightarrow> Inl (if value_error e then Exit 1 else Raised e)
           | Inr c \<Rightarrow> Inr c))"

subsection \<open>The options\<close>

type_synonym opts = "(bytes \<times> bytes) list"

fun scan_opts :: "opts \<Rightarrow> bytes option \<Rightarrow> bytes option run" where
  "scan_opts [] config_path = Inr config_path"
| "scan_opts ((key, val) # optlist) config_path =
     (if key = ''-c'' then scan_opts optlist (Some val)
      else if key = ''-h'' \<or> key = ''--help'' \<or> key = ''--version'' then Inl (Exit 0)
      else scan_opts optlist config_path)"

datatype opt_kind = Number | Text | Flag

definition opt_table :: "(bytes \<times> bytes \<times> opt_kind) list" where
  "opt_table =
     [(''-p'', ''server_port'', Number), (''-k'', ''password'', Text), (''-l'', ''local_port'', Number),
      (''-s'', ''server'', Text), (''-m'', ''method'', Text), (''-O'', ''protocol'', Text), (''-o'', ''obfs'', Text),
      (''-G'', ''protocol_param'', Text), (''-g'', ''obfs_param'', Text), (''-b'', ''local_address'', Text),
      (''-t'', ''timeout'', Number), (''--fast-open'', ''fast_open'', Flag), (''--workers'', ''workers'', Number),
      (''--manager-address'', ''manager_address'', Text), (''--user'', ''user'', Text),
      (''--forbidden-ip'', ''forbidden_ip'', Text), (''-d'', ''daemon'', Text), (''--pid-file'', ''pid-file'', Text),
      (''--log-file'', ''log-file'', Text)]"

definition opt_value :: "opt_kind \<Rightarrow> bytes \<Rightarrow> cval res" where
  "opt_value kind val =
     (case kind of
        Number \<Rightarrow> (case py_int val of None \<Rightarrow> Inl ValueError | Some i \<Rightarrow> Inr (CInt i))
      | Text \<Rightarrow> Inr (CStr val)
      | Flag \<Rightarrow> Inr (CBool True))"

fun apply_opts :: "opts \<Rightarrow> int \<Rightarrow> cval \<Rightarrow> cval res" where
  "apply_opts [] v_count c = Inr c"
| "apply_opts ((key, val) # optlist) v_count c =
     (if key = ''-v'' then rbind (store ''verbose'' (CInt (v_count + 1)) c) (apply_opts optlist (v_count + 1))
      else if key = ''-q'' then rbind (store ''verbose'' (CInt (v_count - 1)) c) (apply_opts optlist (v_count - 1))
      else case map_of opt_table key of
             None \<Rightarrow> apply_opts optlist v_count c
           | Some (name, kind) \<Rightarrow>
               rbind (opt_value kind val) (\<lambda>v. rbind (store name v c) (apply_opts optlist v_count)))"

text \<open>The \<^verbatim>\<open>try\<close> of \<^verbatim>\<open>get_config\<close>: what the file and the options give\<close>

definition file_config :: "start_env \<Rightarrow> opts \<Rightarrow> cval run" where
  "file_config env optlist =
     sbind (scan_opts optlist None) (\<lambda>config_path.
       case (case config_path of None \<Rightarrow> find_config env | p \<Rightarrow> p) of
         None \<Rightarrow> Inr (CDict [])
       | Some p \<Rightarrow> if p = [] then Inr (CDict []) else read_config env p)"

definition given_config :: "start_env \<Rightarrow> opts \<Rightarrow> cval run" where
  "given_config env optlist = sbind (file_config env optlist) (\<lambda>c. raising (apply_opts optlist 0 c))"

subsection \<open>Defaults\<close>

datatype conversion = AsItIs | AsInt

definition convert :: "conversion \<Rightarrow> cval \<Rightarrow> cval res" where
  "convert cv v = (case cv of AsItIs \<Rightarrow> Inr v | AsInt \<Rightarrow> rbind (to_int v) (\<lambda>i. Inr (CInt i)))"

definition default_table :: "(bytes \<times> conversion \<times> cval) list" where
  "default_table =
     [(''password'', AsItIs, CStr []), (''method'', AsItIs, CStr ''aes-256-cfb''), (''protocol'', AsItIs, CStr ''origin''),
      (''protocol_param'', AsItIs, CStr []), (''obfs'', AsItIs, CStr ''plain''), (''obfs_param'', AsItIs, CStr []),
      (''port_password'', AsItIs, CNone), (''additional_ports'', AsItIs, CDict []),
      (''additional_ports_only'', AsItIs, CBool False), (''timeout'', AsInt, CInt 300), (''udp_timeout'', AsInt, CInt 120),
      (''udp_cache'', AsInt, CInt 64), (''fast_open'', AsItIs, CBool False), (''workers'', AsItIs, CInt 1),
      (''pid-file'', AsItIs, CStr ''/var/run/shadowsocksr.pid''), (''log-file'', AsItIs, CStr ''/var/log/shadowsocksr.log''),
      (''verbose'', AsItIs, CBool False), (''connect_verbose_info'', AsItIs, CInt 0),
      (''local_address'', AsItIs, CStr ''127.0.0.1''), (''local_port'', AsItIs, CInt 1080)]"

fun fill :: "(bytes \<times> conversion \<times> cval) list \<Rightarrow> cval \<Rightarrow> cval res" where
  "fill [] c = Inr c"
| "fill ((k, cv, d) # ts) c =
     rbind (get k d c) (\<lambda>v. rbind (convert cv v) (\<lambda>v. rbind (store k v c) (fill ts)))"

text \<open>\<^verbatim>\<open>IPNetwork(v)\<close>: a text is split at its commas, of anything else the elements are taken, and
  only the empty byte string is left out. \<^verbatim>\<open>PortRange(v)\<close> needs a text.\<close>

definition net_text :: "cval \<Rightarrow> bytes res" where
  "net_text v =
     (case v of CStr s \<Rightarrow> Inr s | CUni s \<Rightarrow> (if s = [] then Inl not_cidr else Inr s) | _ \<Rightarrow> Inl AttributeError)"

fun net_texts :: "cval list \<Rightarrow> bytes list res" where
  "net_texts [] = Inr []"
| "net_texts (v # vs) = rbind (net_text v) (\<lambda>s. rbind (net_texts vs) (\<lambda>ss. Inr (s # ss)))"

definition nets_of :: "cval \<Rightarrow> ip_network res" where
  "nets_of v =
     (let add = (\<lambda>vs. rbind (net_texts vs) (\<lambda>ss. add_networks ss \<lparr>network_list_v4 = [], network_list_v6 = []\<rparr>))
      in case v of
           CStr s \<Rightarrow> ip_network_new s
         | CUni s \<Rightarrow> add (map (\<lambda>c. CUni [c]) s)
         | CList vs \<Rightarrow> add vs
         | CDict d \<Rightarrow> add (map (CUni \<circ> fst) d)
         | _ \<Rightarrow> Inl TypeError)"

definition ports_of :: "cval \<Rightarrow> port_range res" where
  "ports_of v =
     (case v of CStr s \<Rightarrow> Inr (port_range_new s) | CUni s \<Rightarrow> Inr (port_range_new s) | _ \<Rightarrow> Inl AttributeError)"

definition split_names :: "cval \<Rightarrow> cval res" where
  "split_names v =
     (let names = (\<lambda>f s. let l = py_split '','' s in CList (if l = [[]] then [] else map f l))
      in case v of CStr s \<Rightarrow> Inr (names CStr s) | CUni s \<Rightarrow> Inr (names CUni s) | _ \<Rightarrow> Inl AttributeError)"

definition or_exit2 :: "'a res \<Rightarrow> 'a run" where
  "or_exit2 x = (case x of Inl e \<Rightarrow> Inl (Exit 2) | Inr v \<Rightarrow> Inr v)"

definition server_part :: "cval \<Rightarrow> cval run" where
  "server_part c =
     sbind (raising (rbind (get ''server'' (CStr ''0.0.0.0'') c) (\<lambda>v. store ''server'' v c))) (\<lambda>c.
     sbind (raising (rbind (get ''black_hostname_list'' (CStr []) c) (\<lambda>v.
       rbind (split_names v) (\<lambda>l. store ''black_hostname_list'' l c)))) (\<lambda>c.
     sbind (or_exit2 (rbind (get ''forbidden_ip'' (CStr ''127.0.0.0/8,::1/128'') c) (\<lambda>v.
       rbind (nets_of v) (\<lambda>n. store ''forbidden_ip'' (CNets n) c)))) (\<lambda>c.
     sbind (or_exit2 (rbind (get ''forbidden_port'' (CStr []) c) (\<lambda>v.
       rbind (ports_of v) (\<lambda>r. store ''forbidden_port'' (CPorts r) c)))) (\<lambda>c.
     or_exit2 (rbind (get ''ignore_bind'' (CStr ''127.0.0.0/8,::1/128,10.0.0.0/8,192.168.0.0/16'') c) (\<lambda>v.
       rbind (nets_of v) (\<lambda>n. store ''ignore_bind'' (CNets n) c)))))))"

definition local_part :: "cval \<Rightarrow> cval run" where
  "local_part c =
     sbind (raising (get ''server'' CNone c)) (\<lambda>v. if v = CNone then Inl (Exit 2) else raising (store ''server'' v c))"

datatype level = Verbose | Debug | Info | Warn | Error

definition log_level :: "cval \<Rightarrow> level" where
  "log_level v =
     (if \<not> less_int v 2 then Verbose
      else if equals_int v 1 then Debug
      else if equals_int v (-1) then Warn
      else if less_int v (-2) \<or> equals_int v (-2) then Error
      else Info)"

subsection \<open>The check\<close>

datatype warning = UnsafeLocal | LoopbackServer | ShortTimeout | LongTimeout

definition text_is :: "bytes \<Rightarrow> cval \<Rightarrow> bool" where
  "text_is s v \<longleftrightarrow> v = CStr s \<or> v = CUni s"

definition item_of :: "bytes \<Rightarrow> cval \<Rightarrow> cval res" where
  "item_of k c =
     (case c of CDict kvs \<Rightarrow> (case map_of kvs k of None \<Rightarrow> Inl KeyError | Some v \<Rightarrow> Inr v) | _ \<Rightarrow> Inl TypeError)"

definition int_item :: "bytes \<Rightarrow> (cval \<Rightarrow> bool) \<Rightarrow> cval \<Rightarrow> cval res" where
  "int_item k cond c =
     (case item_of k c of
        Inl KeyError \<Rightarrow> Inr c
      | Inl e \<Rightarrow> Inl e
      | Inr v \<Rightarrow> if cond v then rbind (to_int v) (\<lambda>i. store k (CInt i) c) else Inr c)"

definition is_list :: "cval \<Rightarrow> bool" where
  "is_list v = (case v of CList _ \<Rightarrow> True | _ \<Rightarrow> False)"

text \<open>The warnings that are logged, each with the values that its message needs\<close>

definition warnings_of :: "cval \<Rightarrow> warning list res" where
  "warnings_of c =
     rbind (get ''local_address'' (CStr []) c) (\<lambda>la.
     rbind (get ''server'' (CStr []) c) (\<lambda>sv.
     rbind (get ''timeout'' (CInt 300) c) (\<lambda>tm.
       let loopback = text_is ''127.0.0.1'' sv \<or> text_is ''localhost'' sv;
           short = less_int tm 100;
           long = \<not> less_int tm 600 \<and> \<not> equals_int tm 600
       in rbind (if loopback then item_of ''server_port'' c else Inr CNone) (\<lambda>_.
          rbind (if short \<or> long then to_int tm else Inr 0) (\<lambda>_.
            Inr ((if text_is ''0.0.0.0'' la then [UnsafeLocal] else []) @ (if loopback then [LoopbackServer] else [])
                 @ (if short then [ShortTimeout] else []) @ (if long then [LongTimeout] else [])))))))"

text \<open>\<^verbatim>\<open>encrypt.try_cipher\<close>: every cipher derives its key from the password, and the hash takes
  texts only.\<close>

definition try_cipher :: "'o crypto_lib \<Rightarrow> tape \<Rightarrow> cval \<Rightarrow> cval \<Rightarrow> unit res" where
  "try_cipher L t key meth =
     (case meth of
        CStr m \<Rightarrow>
          (case key of
             CStr k \<Rightarrow> rbind (fst (encryptor_new L k m None t)) (\<lambda>_. Inr ())
           | _ \<Rightarrow> Inl (if get_method_info (lower m) = None then SystemExit else TypeError))
      | _ \<Rightarrow> Inl AttributeError)"

definition check_config :: "'o crypto_lib \<Rightarrow> tape \<Rightarrow> bool \<Rightarrow> bool \<Rightarrow> cval \<Rightarrow> (cval \<times> warning list) run" where
  "check_config L t posix is_local c =
     sbind (raising (get ''daemon'' CNone c)) (\<lambda>daemon.
     if text_is ''stop'' daemon then Inr (c, [])
     else
       sbind (raising (get ''password'' CNone c)) (\<lambda>pw.
       sbind (raising (get ''port_password'' CNone c)) (\<lambda>pp.
       if \<not> truth pw \<and> (is_local \<or> \<not> truth pp) then Inl (Exit 2)
       else
         sbind (raising (int_item ''local_port'' (\<lambda>_. True) c)) (\<lambda>c.
         sbind (raising (int_item ''server_port'' (\<lambda>v. \<not> is_list v) c)) (\<lambda>c.
         sbind (raising (warnings_of c)) (\<lambda>ws.
         if text_is ''mypassword'' pw then Inl (Exit 1)
         else
           sbind (raising (get ''user'' CNone c)) (\<lambda>user.
           if user \<noteq> CNone \<and> \<not> posix then Inl (Exit 1)
           else
             sbind (raising (rbind (item_of ''password'' c) (\<lambda>key. rbind (item_of ''method'' c) (try_cipher L t key)))) (\<lambda>_.
               Inr (c, ws)))))))))"

definition get_config :: "'o crypto_lib \<Rightarrow> tape \<Rightarrow> start_env \<Rightarrow> bool \<Rightarrow> opts option \<Rightarrow> (cval \<times> level \<times> warning list) run" where
  "get_config L t env is_local optlist =
     sbind (case optlist of None \<Rightarrow> Inl (Exit 2) | Some os \<Rightarrow> given_config env os) (\<lambda>c.
     if \<not> truth c then Inl (Exit 2)
     else
       sbind (raising (fill default_table c)) (\<lambda>c.
       sbind (if is_local then local_part c else server_part c) (\<lambda>c.
       sbind (raising (rbind (get ''server_port'' (CInt 8388) c) (\<lambda>v. store ''server_port'' v c))) (\<lambda>c.
       sbind (raising (item_of ''verbose'' c)) (\<lambda>v.
       sbind (check_config L t (is_posix env) is_local c) (\<lambda>(c, ws).
         Inr (c, log_level v, ws)))))))"

subsection \<open>What the steps keep\<close>

lemma store_dict [simp]: "store k v (CDict kvs) = Inr (CDict (AList.update k v kvs))"
  by (simp add: store_def)

lemma get_dict [simp]: "get k d (CDict kvs) = Inr (case map_of kvs k of None \<Rightarrow> d | Some v \<Rightarrow> v)"
  by (simp add: get_def)

lemma item_of_dict: "item_of k (CDict kvs) = Inr v \<longleftrightarrow> map_of kvs k = Some v"
  by (auto simp: item_of_def split: option.splits)

definition item :: "bytes \<Rightarrow> cval \<Rightarrow> cval option" where
  "item k c = (case c of CDict kvs \<Rightarrow> map_of kvs k | _ \<Rightarrow> None)"

definition a_dict :: "cval \<Rightarrow> bool" where
  "a_dict c = (case c of CDict _ \<Rightarrow> True | _ \<Rightarrow> False)"

lemma a_dict [simp]: "a_dict (CDict kvs)" by (simp add: a_dict_def)

lemma item_dict [simp]: "item k (CDict kvs) = map_of kvs k" by (simp add: item_def)

lemma store_item:
  "store k v c = Inr c' \<Longrightarrow> a_dict c' \<and> (\<forall>j. item j c' = (if j = k then Some v else item j c))"
  by (cases c) (auto simp: store_def update_conv')

lemma get_item: "get k d c = Inr v \<Longrightarrow> a_dict c \<and> v = (case item k c of None \<Rightarrow> d | Some v \<Rightarrow> v)"
  by (cases c) (auto simp: get_def)

lemma item_of_item: "item_of k c = Inr v \<Longrightarrow> a_dict c \<and> item k c = Some v"
  by (cases c) (auto simp: item_of_def split: option.splits)

subsection \<open>Options against the file\<close>

text \<open>The settings that options name: the last one counts.\<close>

definition option_item :: "bytes \<times> bytes \<Rightarrow> (bytes \<times> cval) option" where
  "option_item o1 =
     (case map_of opt_table (fst o1) of
        None \<Rightarrow> None
      | Some (name, kind) \<Rightarrow> (case opt_value kind (snd o1) of Inl _ \<Rightarrow> None | Inr v \<Rightarrow> Some (name, v)))"

definition last_option :: "bytes \<Rightarrow> opts \<Rightarrow> cval option" where
  "last_option name optlist = map_of (rev (List.map_filter option_item optlist)) name"

definition verbosity :: "opts \<Rightarrow> int" where
  "verbosity optlist = (\<Sum>(key, val) \<leftarrow> optlist. if key = ''-v'' then 1 else if key = ''-q'' then -1 else 0)"

lemma last_option_Cons:
  "last_option name (x # xs) = (case last_option name xs of Some v \<Rightarrow> Some v
     | None \<Rightarrow> (case option_item x of Some (n, v) \<Rightarrow> if n = name then Some v else None | None \<Rightarrow> None))"
  by (auto simp: last_option_def List.map_filter_def map_add_def split: option.splits)

lemma opt_names: "map_of opt_table key = Some (name, kind) \<Longrightarrow> name \<noteq> ''verbose'' \<and> key \<noteq> ''-v'' \<and> key \<noteq> ''-q''"
  by (auto simp: opt_table_def split: if_splits)

lemma count_step:
  assumes "apply_opts ((key, val) # os) n c = Inr c'" and "key = ''-v'' \<or> key = ''-q''"
    and d: "d = (if key = ''-v'' then 1 else -1)"
  obtains c1 where "store ''verbose'' (CInt (n + d)) c = Inr c1" "apply_opts os (n + d) c1 = Inr c'"
    "option_item (key, val) = None"
proof -
  have "apply_opts ((key, val) # os) n c = rbind (store ''verbose'' (CInt (n + d)) c) (apply_opts os (n + d))"
  proof (cases "key = ''-v''")
    case True
    then show ?thesis by (simp add: d)
  next
    case False
    then show ?thesis using assms(2) by (simp add: d)
  qed
  then have "rbind (store ''verbose'' (CInt (n + d)) c) (apply_opts os (n + d)) = Inr c'" using assms(1) by (simp only:)
  moreover have "map_of opt_table key = None" using assms(2) by (elim disjE) (simp_all add: opt_table_def)
  moreover from this have "option_item (key, val) = None" by (simp add: option_item_def)
  ultimately show thesis using that unfolding rbind_eq_Inr by blast
qed

lemma apply_opts_items:
  assumes "apply_opts os n c = Inr c'" and "a_dict c"
  shows "a_dict c' \<and> item ''verbose'' c' = (if \<exists>val. (''-v'', val) \<in> set os \<or> (''-q'', val) \<in> set os
      then Some (CInt (n + verbosity os)) else item ''verbose'' c)
    \<and> (k \<noteq> ''verbose'' \<longrightarrow> item k c' = (case last_option k os of Some v \<Rightarrow> Some v | None \<Rightarrow> item k c))"
  using assms
proof (induction os n c rule: apply_opts.induct)
  case (1 n c)
  then show ?case by (simp add: last_option_def verbosity_def List.map_filter_def)
next
  case (2 key val os n c)
  show ?case
  proof (cases "key = ''-v'' \<or> key = ''-q''")
    case True
    define d :: int where "d = (if key = ''-v'' then 1 else -1)"
    obtain c1 where c1: "store ''verbose'' (CInt (n + d)) c = Inr c1" and r: "apply_opts os (n + d) c1 = Inr c'"
        and no: "option_item (key, val) = None"
      by (rule count_step [OF 2(5) True d_def])
    have i: "a_dict c1" "\<And>j. item j c1 = (if j = ''verbose'' then Some (CInt (n + d)) else item j c)"
      using store_item [OF c1] by auto
    have v: "verbosity ((key, val) # os) = d + verbosity os" using True by (auto simp: verbosity_def d_def)
    have z: "verbosity os = 0" if "\<nexists>val. (''-v'', val) \<in> set os \<or> (''-q'', val) \<in> set os"
      using that unfolding verbosity_def by (induction os) auto
    have "?thesis" if "a_dict c' \<and> item ''verbose'' c' = (if \<exists>val. (''-v'', val) \<in> set os \<or> (''-q'', val) \<in> set os
        then Some (CInt (n + d + verbosity os)) else item ''verbose'' c1)
      \<and> (k \<noteq> ''verbose'' \<longrightarrow> item k c' = (case last_option k os of Some v \<Rightarrow> Some v | None \<Rightarrow> item k c1))"
      using that True z by (auto simp: i v no last_option_Cons split: option.splits)
    moreover have "a_dict c' \<and> item ''verbose'' c' = (if \<exists>val. (''-v'', val) \<in> set os \<or> (''-q'', val) \<in> set os
        then Some (CInt (n + d + verbosity os)) else item ''verbose'' c1)
      \<and> (k \<noteq> ''verbose'' \<longrightarrow> item k c' = (case last_option k os of Some v \<Rightarrow> Some v | None \<Rightarrow> item k c1))"
      using 2(1,2) [of c1] True r i(1) by (cases "key = ''-v''") (simp_all add: d_def)
    ultimately show ?thesis by blast
  next
    case False
    then have v: "verbosity ((key, val) # os) = verbosity os"
        "(\<exists>w. (''-v'', w) \<in> set ((key, val) # os) \<or> (''-q'', w) \<in> set ((key, val) # os))
          = (\<exists>w. (''-v'', w) \<in> set os \<or> (''-q'', w) \<in> set os)" by (auto simp: verbosity_def)
    show ?thesis
    proof (cases "map_of opt_table key")
      case None
      then have "apply_opts os n c = Inr c'" "option_item (key, val) = None" using False 2(5) by (simp_all add: option_item_def)
      then show ?thesis using 2(3) [OF _ _ None] False 2(6) unfolding v by (simp add: last_option_Cons split: option.splits)
    next
      case (Some nk)
      obtain name kind where nk: "nk = (name, kind)" by fastforce
      from Some False 2(5) obtain x c1 where x: "opt_value kind val = Inr x" and c1: "store name x c = Inr c1"
          and r: "apply_opts os n c1 = Inr c'"
        by (auto simp: nk rbind_eq_Inr)
      have o: "option_item (key, val) = Some (name, x)" using Some x by (simp add: option_item_def nk)
      have nv: "name \<noteq> ''verbose''" using opt_names Some nk by blast
      note i = store_item [OF c1]
      have "a_dict c' \<and> item ''verbose'' c' = (if \<exists>val. (''-v'', val) \<in> set os \<or> (''-q'', val) \<in> set os
          then Some (CInt (n + verbosity os)) else item ''verbose'' c1)
        \<and> (k \<noteq> ''verbose'' \<longrightarrow> item k c' = (case last_option k os of Some v \<Rightarrow> Some v | None \<Rightarrow> item k c1))"
        by (rule 2(4) [OF _ _ Some nk [symmetric] r conjunct1 [OF i]]) (use False in blast)+
      then show ?thesis unfolding v using i nv by (auto simp: last_option_Cons o split: option.splits)
    qed
  qed
qed

lemma fill_items:
  assumes "fill ts c = Inr c'" and "a_dict c" and "distinct (map fst ts)"
  shows "a_dict c' \<and> (\<forall>(k, cv, d) \<in> set ts. \<exists>v. item k c' = Some v
      \<and> convert cv (case item k c of None \<Rightarrow> d | Some v \<Rightarrow> v) = Inr v)
    \<and> (\<forall>k. k \<notin> fst ` set ts \<longrightarrow> item k c' = item k c)"
  using assms
proof (induction ts arbitrary: c)
  case (Cons t ts)
  obtain k cv d where t: "t = (k, cv, d)" using prod_cases3 by blast
  from Cons(2) t obtain v c1 where v: "convert cv (case item k c of None \<Rightarrow> d | Some v \<Rightarrow> v) = Inr v"
      and c1: "store k v c = Inr c1" and r: "fill ts c1 = Inr c'"
    by (auto simp: rbind_eq_Inr dest!: get_item)
  note i = store_item [OF c1]
  have k: "k \<notin> fst ` set ts" and d: "distinct (map fst ts)" using Cons(4) t by auto
  have IH: "a_dict c'" "\<forall>(k, cv, d) \<in> set ts. \<exists>v. item k c' = Some v
      \<and> convert cv (case item k c1 of None \<Rightarrow> d | Some v \<Rightarrow> v) = Inr v"
    "\<forall>k. k \<notin> fst ` set ts \<longrightarrow> item k c' = item k c1"
    using Cons(1) [OF r _ d] i by auto
  have "item k c' = Some v" using IH(3) k i by simp
  moreover have "item j c1 = item j c" if "(j, x) \<in> set ts" for j x
    using i that k by (metis fst_conv image_eqI)
  ultimately show ?case using IH v i t k by (fastforce split: prod.splits)
qed simp

lemma default_names: "distinct (map fst default_table)"
  by (simp add: default_table_def)

subsection \<open>A configuration that is accepted\<close>

lemma or_exit2_eq_Inr [simp]: "or_exit2 x = Inr v \<longleftrightarrow> x = Inr v"
  by (cases x) (simp_all add: or_exit2_def)

lemma set_item:
  assumes "rbind (get k d c) (\<lambda>v. rbind (f v) (\<lambda>x. store k (g x) c)) = Inr c'"
  shows "a_dict c' \<and> (\<exists>x. f (case item k c of None \<Rightarrow> d | Some v \<Rightarrow> v) = Inr x \<and> item k c' = Some (g x))
    \<and> (\<forall>j. j \<noteq> k \<longrightarrow> item j c' = item j c)"
  using assms by (auto simp: rbind_eq_Inr dest!: get_item store_item)

lemma keep_item:
  assumes "rbind (get k d c) (\<lambda>v. store k v c) = Inr c'"
  shows "a_dict c' \<and> item k c' = Some (case item k c of None \<Rightarrow> d | Some v \<Rightarrow> v) \<and> (\<forall>j. j \<noteq> k \<longrightarrow> item j c' = item j c)"
  using assms by (auto simp: rbind_eq_Inr dest!: get_item store_item)

definition server_names :: "bytes list" where
  "server_names = [''server'', ''black_hostname_list'', ''forbidden_ip'', ''forbidden_port'', ''ignore_bind'']"

lemma server_part_items:
  assumes "server_part c = Inr c'"
  shows "a_dict c' \<and> (\<exists>n r b. item ''forbidden_ip'' c' = Some (CNets n) \<and> item ''forbidden_port'' c' = Some (CPorts r)
      \<and> item ''ignore_bind'' c' = Some (CNets b)) \<and> (\<forall>k. k \<notin> set server_names \<longrightarrow> item k c' = item k c)"
proof -
  obtain c1 c2 c3 c4 where s: "rbind (get ''server'' (CStr ''0.0.0.0'') c) (\<lambda>v. store ''server'' v c) = Inr c1"
      "rbind (get ''black_hostname_list'' (CStr []) c1) (\<lambda>v. rbind (split_names v) (\<lambda>l. store ''black_hostname_list'' l c1)) = Inr c2"
      "rbind (get ''forbidden_ip'' (CStr ''127.0.0.0/8,::1/128'') c2) (\<lambda>v. rbind (nets_of v) (\<lambda>n. store ''forbidden_ip'' (CNets n) c2)) = Inr c3"
      "rbind (get ''forbidden_port'' (CStr []) c3) (\<lambda>v. rbind (ports_of v) (\<lambda>r. store ''forbidden_port'' (CPorts r) c3)) = Inr c4"
      "rbind (get ''ignore_bind'' (CStr ''127.0.0.0/8,::1/128,10.0.0.0/8,192.168.0.0/16'') c4) (\<lambda>v.
         rbind (nets_of v) (\<lambda>n. store ''ignore_bind'' (CNets n) c4)) = Inr c'"
    using assms unfolding server_part_def sbind_eq_Inr raising_eq_Inr or_exit2_eq_Inr by blast
  have "item k c' = item k c" if "k \<notin> set server_names" for k
    using that set_item [OF s(5)] set_item [OF s(4)] set_item [OF s(3)] set_item [OF s(2)] keep_item [OF s(1)]
    by (simp add: server_names_def)
  moreover have "\<exists>n. item ''forbidden_ip'' c' = Some (CNets n)"
    using set_item [OF s(5)] set_item [OF s(4)] set_item [OF s(3)] by auto
  moreover have "\<exists>r. item ''forbidden_port'' c' = Some (CPorts r)" using set_item [OF s(5)] set_item [OF s(4)] by auto
  ultimately show ?thesis using set_item [OF s(5)] by blast
qed

lemma int_item_items:
  assumes "int_item k P c = Inr c'" and "a_dict c"
  shows "a_dict c' \<and> (\<forall>j. j \<noteq> k \<longrightarrow> item j c' = item j c)
    \<and> (\<forall>v. item k c = Some v \<longrightarrow> (if P v then \<exists>i. to_int v = Inr i \<and> item k c' = Some (CInt i) else item k c' = Some v))"
  using assms by (cases c) (auto simp: int_item_def item_of_def rbind_eq_Inr update_conv' split: option.splits if_splits)

lemma check_config_items:
  assumes "check_config L t posix is_local c = Inr (c', ws)" and "a_dict c"
  shows "a_dict c' \<and> (\<forall>k. k \<noteq> ''local_port'' \<and> k \<noteq> ''server_port'' \<longrightarrow> item k c' = item k c)"
proof -
  consider "c' = c" | c1 where "int_item ''local_port'' (\<lambda>_. True) c = Inr c1" "int_item ''server_port'' (\<lambda>v. \<not> is_list v) c1 = Inr c'"
    using assms(1) unfolding check_config_def by (auto simp: sbind_eq_Inr split: if_splits)
  then show ?thesis
  proof cases
    case 2
    from int_item_items [OF 2(1) assms(2)] have c1: "a_dict c1" "\<forall>j. j \<noteq> ''local_port'' \<longrightarrow> item j c1 = item j c" by blast+
    from int_item_items [OF 2(2) c1(1)] c1(2) show ?thesis by simp
  qed (use assms in simp)
qed

lemma get_config_steps:
  assumes "get_config L t env is_local (Some os) = Inr (c, lvl, ws)"
  obtains c0 c1 c2 c3 c4 where "file_config env os = Inr c0" "apply_opts os 0 c0 = Inr c1" "truth c1"
    "fill default_table c1 = Inr c2" "(if is_local then local_part c2 else server_part c2) = Inr c3"
    "rbind (get ''server_port'' (CInt 8388) c3) (\<lambda>v. store ''server_port'' v c3) = Inr c4"
    "check_config L t (is_posix env) is_local c4 = Inr (c, ws)" "item ''verbose'' c4 \<noteq> None"
    "lvl = log_level (the (item ''verbose'' c4))"
proof -
  have go: "(if P then Inl e else x) = Inr y \<longleftrightarrow> \<not> P \<and> x = Inr y" for P and e :: stop and x and y :: 'b by simp
  obtain c0 c1 c2 c3 c4 v r where s: "file_config env os = Inr c0" "apply_opts os 0 c0 = Inr c1" "truth c1"
    "fill default_table c1 = Inr c2" "(if is_local then local_part c2 else server_part c2) = Inr c3"
    "rbind (get ''server_port'' (CInt 8388) c3) (\<lambda>v. store ''server_port'' v c3) = Inr c4"
    "item_of ''verbose'' c4 = Inr v" "check_config L t (is_posix env) is_local c4 = Inr r"
    "Inr (fst r, log_level v, snd r) = (Inr (c, lvl, ws) :: (cval \<times> level \<times> warning list) run)"
    using assms unfolding get_config_def given_config_def option.case
    by (auto simp only: sbind_eq_Inr raising_eq_Inr go case_prod_beta not_not)
  then show thesis using that [OF s(1-6)] item_of_item [OF s(7)] by (cases r) auto
qed

lemma local_part_items:
  "local_part c = Inr c' \<Longrightarrow> a_dict c' \<and> (\<exists>v. item ''server'' c = Some v \<and> v \<noteq> CNone \<and> item ''server'' c' = Some v)
    \<and> (\<forall>k. k \<noteq> ''server'' \<longrightarrow> item k c' = item k c)"
  by (auto simp: local_part_def sbind_eq_Inr dest!: get_item store_item split: if_splits option.splits)

subsection \<open>Properties\<close>

lemma apply_opts_other: "apply_opts os n c = Inr c' \<Longrightarrow> \<not> a_dict c \<Longrightarrow> c' = c"
proof (induction os n c rule: apply_opts.induct)
  case (2 key val os n c)
  have "store k v c \<noteq> Inr x" for k v x using 2(6) by (auto simp: store_def a_dict_def split: cval.splits)
  then show ?case using 2(3,5,6) by (auto simp: rbind_eq_Inr split: option.splits if_splits)
qed simp

lemma fill_needs_dict: "fill default_table c = Inr c' \<Longrightarrow> a_dict c"
  by (auto simp: default_table_def rbind_eq_Inr dest!: get_item)

lemma get_config_defaults:
  assumes "get_config L t env is_local (Some os) = Inr (c, lvl, ws)" and "file_config env os = Inr c0"
  shows "\<exists>c1. apply_opts os 0 c0 = Inr c1 \<and> a_dict c0 \<and> lvl = log_level (the (item ''verbose'' c))
    \<and> (\<forall>(k, cv, d) \<in> set default_table. k \<noteq> ''local_port'' \<longrightarrow> (\<exists>v. item k c = Some v
      \<and> convert cv (case item k c1 of None \<Rightarrow> d | Some v \<Rightarrow> v) = Inr v))"
proof -
  obtain c1 c2 c3 c4 where s: "apply_opts os 0 c0 = Inr c1" "fill default_table c1 = Inr c2"
    "(if is_local then local_part c2 else server_part c2) = Inr c3"
    "rbind (get ''server_port'' (CInt 8388) c3) (\<lambda>v. store ''server_port'' v c3) = Inr c4"
    "check_config L t (is_posix env) is_local c4 = Inr (c, ws)" "lvl = log_level (the (item ''verbose'' c4))"
    using get_config_steps [OF assms(1)] assms(2) by (metis sum.inject(2))
  have c0: "a_dict c0" using fill_needs_dict [OF s(2)] apply_opts_other [OF s(1)] by blast
  note f = fill_items [OF s(2) fill_needs_dict [OF s(2)] default_names]
  have c3: "item k c3 = item k c2" if "k \<notin> set server_names" for k
    using s(3) that server_part_items [of c2 c3] local_part_items [of c2 c3] by (auto simp: server_names_def split: if_splits)
  have c4: "a_dict c4 \<and> (\<forall>k. k \<noteq> ''server_port'' \<longrightarrow> item k c4 = item k c3)" using keep_item [OF s(4)] by blast
  have kept: "item k c = item k c2" if "k \<in> fst ` set default_table" "k \<noteq> ''local_port''" for k
  proof -
    have "k \<notin> set server_names" "k \<noteq> ''server_port''" using that(1) by (auto simp: default_table_def server_names_def)
    then show ?thesis using check_config_items [OF s(5)] c4 c3 that(2) by simp
  qed
  have each: "\<exists>v. item k c = Some v \<and> convert cv (case item k c1 of None \<Rightarrow> d | Some v \<Rightarrow> v) = Inr v"
    if "(k, cv, d) \<in> set default_table" "k \<noteq> ''local_port''" for k cv d
  proof -
    have "k \<in> fst ` set default_table" using that(1) by (metis fst_conv image_eqI)
    then show ?thesis using f that kept by fastforce
  qed
  have "item ''verbose'' c4 = item ''verbose'' c" using check_config_items [OF s(5)] c4 by simp
  then have "lvl = log_level (the (item ''verbose'' c))" using s(6) by (simp only:)
  moreover have "\<forall>(k, cv, d) \<in> set default_table. k \<noteq> ''local_port'' \<longrightarrow> (\<exists>v. item k c = Some v
      \<and> convert cv (case item k c1 of None \<Rightarrow> d | Some v \<Rightarrow> v) = Inr v)" using each by blast
  ultimately show ?thesis using s(1) c0 by blast
qed


text \<open>The settings of a program that goes on\<close>

definition usable :: "bool \<Rightarrow> bool \<Rightarrow> cval \<Rightarrow> bool" where
  "usable posix is_local c \<longleftrightarrow>
     (\<exists>k m. item ''password'' c = Some (CStr k) \<and> item ''method'' c = Some (CStr m) \<and> is_ascii k \<and> k \<noteq> ''mypassword''
        \<and> get_method_info (lower m) \<noteq> None
        \<and> (k = [] \<longrightarrow> \<not> is_local \<and> (\<exists>pp. item ''port_password'' c = Some pp \<and> truth pp)))
     \<and> (\<exists>i. item ''local_port'' c = Some (CInt i))
     \<and> (\<exists>v. item ''server_port'' c = Some v \<and> (is_list v \<or> (\<exists>i. v = CInt i)))
     \<and> (posix \<or> item ''user'' c \<in> {None, Some CNone})"

lemma try_cipher_ok:
  assumes "try_cipher L t key meth = Inr x"
  shows "\<exists>k m. key = CStr k \<and> meth = CStr m \<and> is_ascii k \<and> get_method_info (lower m) \<noteq> None"
proof -
  obtain k m where km: "key = CStr k" "meth = CStr m" and e: "rbind (fst (encryptor_new L k m None t)) (\<lambda>_. Inr ()) = Inr ()"
    using assms by (auto simp: try_cipher_def split: cval.splits)
  obtain kl il cls where g: "get_method_info (lower m) = Some (kl, il, cls)"
    using e by (cases "get_method_info (lower m)") (auto simp: encryptor_new_def)
  then have "kl > 0" using method_key_len by (simp add: get_method_info_def)
  then have "is_ascii k"
    using e g by (cases "is_ascii k") (auto simp: encryptor_new_def get_cipher_def derive_key_def choose_iv_def case_prod_beta Let_def)
  then show ?thesis using km g by simp
qed

lemma check_config_usable:
  assumes "check_config L t posix is_local c = Inr (c', ws)" and c: "a_dict c"
    and "item ''local_port'' c \<noteq> None" and "item ''server_port'' c \<noteq> None"
  shows "(\<exists>d. item ''daemon'' c' = Some d \<and> text_is ''stop'' d) \<or> usable posix is_local c'"
proof (cases "\<exists>d. item ''daemon'' c = Some d \<and> text_is ''stop'' d")
  case True
  then show ?thesis using check_config_items [OF assms(1) c] by simp
next
  case False
  have go: "(if P then Inl e else x) = Inr y \<longleftrightarrow> \<not> P \<and> x = Inr y" for P and e :: stop and x and y :: 'b by simp
  obtain d0 where d0: "get ''daemon'' CNone c = Inr d0" using c by (cases c) (auto simp: a_dict_def)
  have nd: "\<not> text_is ''stop'' d0" using get_item [OF d0] False by (auto simp: text_is_def split: option.splits)
  have r: "raising (Inr x) = Inr x" for x :: cval by simp
  obtain pw pp c1 user key meth x where s: "get ''password'' CNone c = Inr pw" "get ''port_password'' CNone c = Inr pp"
      "\<not> (\<not> truth pw \<and> (is_local \<or> \<not> truth pp))" "int_item ''local_port'' (\<lambda>_. True) c = Inr c1"
      "int_item ''server_port'' (\<lambda>v. \<not> is_list v) c1 = Inr c'" "\<not> text_is ''mypassword'' pw"
      "get ''user'' CNone c' = Inr user" "\<not> (user \<noteq> CNone \<and> \<not> posix)"
      "item_of ''password'' c' = Inr key" "item_of ''method'' c' = Inr meth" "try_cipher L t key meth = Inr x"
    using assms(1)
    unfolding check_config_def d0 r sbind_simps if_not_P [OF nd] sbind_eq_Inr raising_eq_Inr rbind_eq_Inr go sum.inject prod.inject
    by blast
  note keep = check_config_items [OF assms(1) c]
  obtain v where "item ''local_port'' c = Some v" using assms(3) by blast
  then obtain i where c1: "a_dict c1" "\<forall>j. j \<noteq> ''local_port'' \<longrightarrow> item j c1 = item j c" "item ''local_port'' c1 = Some (CInt i)"
    using int_item_items [OF s(4) c] by auto
  obtain w where w: "item ''server_port'' c1 = Some w" using assms(4) c1(2) by auto
  have sp: "\<exists>v. item ''server_port'' c' = Some v \<and> (is_list v \<or> (\<exists>i. v = CInt i))"
    using int_item_items [OF s(5) c1(1)] w by (cases "is_list w") auto
  have lp: "item ''local_port'' c' = Some (CInt i)" using int_item_items [OF s(5) c1(1)] c1(3) by simp
  obtain k m where km: "key = CStr k" "meth = CStr m" "is_ascii k" "get_method_info (lower m) \<noteq> None"
    using try_cipher_ok [OF s(11)] by blast
  have p: "item ''password'' c' = Some (CStr k)" "item ''method'' c' = Some (CStr m)"
    using item_of_item [OF s(9)] item_of_item [OF s(10)] km by simp_all
  then have pw: "pw = CStr k" using get_item [OF s(1)] keep by simp
  have ppw: "\<exists>pp. item ''port_password'' c' = Some pp \<and> truth pp" if "k = []" "\<not> is_local"
    using s(3) that get_item [OF s(2)] keep pw by (auto simp: truth_def split: option.splits)
  have u: "posix \<or> item ''user'' c' \<in> {None, Some CNone}"
    using s(8) get_item [OF s(7)] by (auto split: option.splits)
  have nl: "\<not> is_local" if "k = []" using s(3) that pw by (simp add: truth_def)
  show ?thesis
    unfolding usable_def using p km(3,4) s(6) pw lp sp u ppw nl by (auto simp: text_is_def)
qed

text \<open>C29. What \<^verbatim>\<open>get_config\<close> returns can be used: the timeouts are numbers, a server has its lists of
  networks and ports, a client the address of its server; and unless the daemon is to be stopped there
  is a password, of ASCII and not that of the example, the cipher is a known one, the ports are numbers,
  and a user is named on a Unix only.\<close>

theorem accepted_config_usable:
  assumes "get_config L t env is_local (Some os) = Inr (c, lvl, ws)"
  shows "(\<forall>k \<in> {''timeout'', ''udp_timeout'', ''udp_cache''}. \<exists>i. item k c = Some (CInt i))
    \<and> (if is_local then \<exists>v. item ''server'' c = Some v \<and> v \<noteq> CNone
       else \<exists>n r b. item ''forbidden_ip'' c = Some (CNets n) \<and> item ''forbidden_port'' c = Some (CPorts r)
          \<and> item ''ignore_bind'' c = Some (CNets b))
    \<and> ((\<exists>d. item ''daemon'' c = Some d \<and> text_is ''stop'' d) \<or> usable (is_posix env) is_local c)"
proof -
  obtain c0 where c0: "file_config env os = Inr c0" using get_config_steps [OF assms] by metis
  obtain c1 c2 c3 c4 where s: "fill default_table c1 = Inr c2"
    "(if is_local then local_part c2 else server_part c2) = Inr c3"
    "rbind (get ''server_port'' (CInt 8388) c3) (\<lambda>v. store ''server_port'' v c3) = Inr c4"
    "check_config L t (is_posix env) is_local c4 = Inr (c, ws)"
    using get_config_steps [OF assms] by metis
  note k4 = keep_item [OF s(3)]
  have keep: "item k c = item k c3" if "k \<noteq> ''local_port''" "k \<noteq> ''server_port''" for k
    using check_config_items [OF s(4)] k4 that by simp
  have num: "\<exists>i. item k c = Some (CInt i)" if "(k, AsInt, d) \<in> set default_table" for k d
    using get_config_defaults [OF assms c0] that
    by (auto simp: default_table_def convert_def rbind_eq_Inr)
  have n3: "\<forall>k \<in> {''timeout'', ''udp_timeout'', ''udp_cache''}. \<exists>i. item k c = Some (CInt i)"
    using num [of "''timeout''"] num [of "''udp_timeout''"] num [of "''udp_cache''"] by (simp add: default_table_def)
  have srv: "if is_local then \<exists>v. item ''server'' c = Some v \<and> v \<noteq> CNone
       else \<exists>n r b. item ''forbidden_ip'' c = Some (CNets n) \<and> item ''forbidden_port'' c = Some (CPorts r)
          \<and> item ''ignore_bind'' c = Some (CNets b)"
    using s(2) server_part_items [of c2 c3] local_part_items [of c2 c3] by (auto simp: keep)
  have lp: "item ''local_port'' c4 \<noteq> None"
  proof -
    have "item ''local_port'' c2 \<noteq> None"
      using fill_items [OF s(1) fill_needs_dict [OF s(1)] default_names] by (auto simp: default_table_def)
    moreover have "item ''local_port'' c3 = item ''local_port'' c2"
      using s(2) server_part_items [of c2 c3] local_part_items [of c2 c3] by (auto simp: server_names_def split: if_splits)
    ultimately show ?thesis using k4 by simp
  qed
  show ?thesis
    using n3 srv check_config_usable [OF s(4) _ lp] k4 by simp
qed

subsection \<open>The texts of the file\<close>

fun json_ascii :: "cval \<Rightarrow> bool" and json_ascii_list :: "cval list \<Rightarrow> bool" and json_ascii_dict :: "(bytes \<times> cval) list \<Rightarrow> bool" where
  "json_ascii (CUni s) \<longleftrightarrow> is_ascii s"
| "json_ascii (CStr s) \<longleftrightarrow> is_ascii s"
| "json_ascii (CList l) \<longleftrightarrow> json_ascii_list l"
| "json_ascii (CDict d) \<longleftrightarrow> json_ascii_dict d"
| "json_ascii v \<longleftrightarrow> True"
| "json_ascii_list [] \<longleftrightarrow> True"
| "json_ascii_list (v # vs) \<longleftrightarrow> json_ascii v \<and> json_ascii_list vs"
| "json_ascii_dict [] \<longleftrightarrow> True"
| "json_ascii_dict ((k, v) # kvs) \<longleftrightarrow> json_ascii v \<and> json_ascii_dict kvs"

lemma decode_again:
  "json_ascii v \<Longrightarrow> \<exists>w. decode_val v = Inr w \<and> decode_val w = Inr w"
  "json_ascii_list l \<Longrightarrow> \<exists>w. decode_list l = Inr w \<and> decode_list w = Inr w"
  "json_ascii_dict d \<Longrightarrow> \<exists>w. decode_dict d = Inr w \<and> decode_dict w = Inr w"
  by (induction v and l and d rule: json_ascii_json_ascii_list_json_ascii_dict.induct) auto

lemma hook_then_decode:
  "json_ascii v \<Longrightarrow> \<exists>h. hooked v = Inr h \<and> decode_val h = decode_val v"
  "json_ascii_list l \<Longrightarrow> \<exists>h. hooked_list l = Inr h \<and> decode_list h = decode_list l"
  "json_ascii_dict d \<Longrightarrow> \<exists>h. hooked_dict d = Inr h \<and> decode_dict h = decode_dict d"
proof (induction v and l and d rule: json_ascii_json_ascii_list_json_ascii_dict.induct)
  case (4 d)
  then obtain h w where "hooked_dict d = Inr h" "decode_dict h = decode_dict d" "decode_dict d = Inr w" "decode_dict w = Inr w"
    using decode_again(3) [of d] by auto
  then show ?case by simp
qed auto

text \<open>The hook runs over an inner object once for each object around it, and yet turns an object whose
  texts are ASCII into byte strings like one call of \<^verbatim>\<open>_decode_dict\<close> for the whole. Of a text that is
  not, an inner object makes a \<^verbatim>\<open>UnicodeDecodeError\<close>, where an outer one takes it.\<close>

theorem hook_like_one_decode:
  shows "(json_ascii_dict d \<longrightarrow> hooked (CDict d) = decode_val (CDict d))
    \<and> (\<not> is_ascii s \<longrightarrow> hooked (CDict [(k, CDict [(j, CUni s)])]) = Inl UnicodeDecodeError
      \<and> hooked (CDict [(k, CUni s)]) = Inr (CDict [(k, CStr s)]))"
  using hook_then_decode(3) [of d] by auto

lemma hook_like_one_decode_witness:
  "hooked (CDict [(''users'', CDict [(''8388'', CUni ''pw'')])]) = Inr (CDict [(''users'', CDict [(''8388'', CStr ''pw'')])])
    \<and> hooked (CDict [(''users'', CDict [(''8388'', CUni [chrb 228])])]) = Inl UnicodeDecodeError"
  using hook_like_one_decode [of "[(''users'', CDict [(''8388'', CUni ''pw'')])]" "[chrb 228]" "''users''" "''8388''"]
  by (simp add: is_ascii_def)

lemma rbind_put [simp]: "rbind (rbind x (\<lambda>r. Inr (f r))) (\<lambda>r. Inr (g r)) = rbind x (\<lambda>r. Inr (g (f r)))"
  by (cases x) simp_all

lemma push_char [simp]: "push_code state (ordb c) = Inr (js_push state c)"
  by (simp add: push_code_def)

lemma push_codes [simp]:
  "push_code 0 34 = Inr ([dquote], 1)" "push_code (Suc 0) 34 = Inr ([dquote], 0)" "push_code 2 34 = Inr ([dquote], 1)"
  "push_code (Suc 0) 92 = Inr ([backslash], 2)" "push_code 0 47 = Inr ([], 3)" "push_code 3 47 = Inr ([], 4)"
  "push_code 4 10 = Inr ([newline], 0)"
  using push_char [of 0 dquote] push_char [of 1 dquote] push_char [of 2 dquote] push_char [of 1 backslash]
    push_char [of 0 solidus] push_char [of 3 solidus] push_char [of 4 newline]
  by (simp_all add: js_push_def)

lemma codes_literal:
  "\<forall>c \<in> set l. char_ok c \<Longrightarrow> filter_codes 1 (map ordb (concat (map show_char l)) @ s)
    = rbind (filter_codes 1 s) (\<lambda>r. Inr (concat (map out_char l) @ r))"
proof (induction l)
  case (Cons c l)
  then show ?case by (cases c) (simp_all add: push_simps)
qed (cases "filter_codes 1 s"; simp)

lemma codes_comment: "10 \<notin> set t \<Longrightarrow> filter_codes 4 (t @ s) = filter_codes 4 s"
proof (induction t)
  case (Cons ch t)
  have "push_code 4 ch = Inr ([], 4)"
  proof -
    have n: "ch \<noteq> 10" using Cons(2) by auto
    show ?thesis
    proof (cases "ch < 256")
      case True
      have "chrb ch \<noteq> newline"
      proof
        assume "chrb ch = newline"
        then have "ordb (chrb ch) = ordb newline" by (rule arg_cong)
        then show False using n True by (simp add: ordb_chrb)
      qed
      then show ?thesis using True by (simp add: push_code_def js_push_def)
    next
      case False
      then show ?thesis by (simp add: push_code_def)
    qed
  qed
  then show ?case using Cons by (cases "filter_codes 4 s") simp_all
qed simp

lemma codes_part:
  assumes "part_ok p"
  shows "filter_codes 0 (map ordb (show_part p) @ s) = rbind (filter_codes 0 s) (\<lambda>r. Inr (out_part p @ r))"
proof (cases p)
  case (Literal l)
  then show ?thesis using assms codes_literal [of l "ordb dquote # s"] by (simp add: push_simps)
next
  case (Comment t)
  have "10 \<noteq> ordb c" if "c \<in> set t" for c
  proof
    assume "10 = ordb c"
    then have "ordb c = ordb newline" by simp
    then have "c = newline" by (simp only: ordb_inject)
    then show False using assms Comment that by simp
  qed
  then have "10 \<notin> set (map ordb t)" unfolding set_map by blast
  then show ?thesis using codes_comment [of "map ordb t" "ordb newline # s"] Comment by (simp add: push_simps)
qed (use assms in \<open>simp add: push_simps\<close>)

lemma codes_text:
  "\<forall>p \<in> set ps. part_ok p \<Longrightarrow> filter_codes 0 (map ordb (show_text ps) @ s)
    = rbind (filter_codes 0 s) (\<lambda>r. Inr (concat (map out_part ps) @ r))"
proof (induction ps)
  case (Cons p ps)
  then show ?case using codes_part [of p "map ordb (show_text ps) @ s"] by (simp add: show_text_def)
qed (cases "filter_codes 0 s"; simp add: show_text_def)

text \<open>A character that is not of Latin-1, outside the comments or in a string, makes the whole
  configuration an error, and the program ends with code 1, however well-formed the JSON is.\<close>

theorem foreign_text_refused:
  assumes "\<forall>p \<in> set ps. part_ok p" and "\<forall>c \<in> set l. char_ok c" and "256 \<le> ch"
    and "q = [] \<or> q = dquote # concat (map show_char l)"
    and "file_named env path = Some raw" and "decode_utf8 env raw = Inr (map ordb (show_text ps @ q) @ ch # rest)"
  shows "read_config env path = Inl (Exit 1)"
proof -
  have stuck: "filter_codes st (ch # rest) = Inl ValueError" if "st < 4" for st
    using that assms(3) by (simp add: push_code_def)
  have "filter_codes 0 (map ordb q @ ch # rest) = Inl ValueError"
    using assms(4) stuck [of 0] stuck [of 1] codes_literal [OF assms(2), of "ch # rest"] by auto
  then show ?thesis
    using codes_text [OF assms(1), of "map ordb q @ ch # rest"] assms(5,6) by (simp add: read_config_def value_error_def)
qed

text \<open>In a comment every character is allowed.\<close>

theorem foreign_comment:
  assumes "\<forall>p \<in> set ps. part_ok p" and "\<forall>p \<in> set qs. part_ok p" and "10 \<notin> set t"
  shows "filter_codes 0 (map ordb (show_text ps) @ [47, 47] @ t @ [10] @ map ordb (show_text qs))
    = Inr (concat (map out_part ps) @ [newline] @ concat (map out_part qs))"
proof -
  have "filter_codes 0 (map ordb (show_text qs)) = Inr (concat (map out_part qs))"
    using codes_text [OF assms(2), of "[]"] by simp
  then show ?thesis
    using codes_text [OF assms(1)] codes_comment [OF assms(3), of "10 # map ordb (show_text qs)"] by simp
qed

subsection \<open>A concrete start\<close>

text \<open>A server with a file that names a timeout and empty lists, and options that name another timeout\<close>

definition example_config :: cval where
  "example_config = CDict [(''forbidden_ip'', CUni []), (''ignore_bind'', CUni []), (''timeout'', CInt 500), (''obfs'', CUni ''plain'')]"

definition example_env :: start_env where
  "example_env = \<lparr>file_named = (\<lambda>f. if f = ''config.json'' then Some ''{}'' else None), in_parent = (\<lambda>f. f), is_posix = True,
     decode_utf8 = (\<lambda>s. Inr (map ordb s)), json_loads = (\<lambda>_. Inr example_config)\<rparr>"

definition example_opts :: opts where
  "example_opts = [(''-k'', ''pw''), (''-m'', ''none''), (''-t'', ''50''), (''-t'', ''60''), (''-v'', [])]"

lemma example_run:
  "case get_config plain_lib [] example_env False (Some example_opts) of
     Inl _ \<Rightarrow> False
   | Inr (c, lvl, ws) \<Rightarrow> ws = [ShortTimeout] \<and> item ''daemon'' c = None"
  by code_simp

lemma example_start:
  obtains c lvl where "get_config plain_lib [] example_env False (Some example_opts) = Inr (c, lvl, [ShortTimeout])"
    "item ''daemon'' c = None"
  using example_run by (auto split: sum.splits)

lemma example_file: "file_config example_env example_opts =
    Inr (CDict [(''forbidden_ip'', CStr []), (''ignore_bind'', CStr []), (''timeout'', CInt 500), (''obfs'', CStr ''plain'')])"
  by code_simp

lemma example_last: "last_option ''timeout'' example_opts = Some (CInt 60)" "verbosity example_opts = 1"
  by code_simp+


lemma accepted_config_usable_witness:
  "\<exists>c lvl ws. get_config plain_lib [] example_env False (Some example_opts) = Inr (c, lvl, ws) \<and> usable True False c"
proof -
  obtain c lvl where r: "get_config plain_lib [] example_env False (Some example_opts) = Inr (c, lvl, [ShortTimeout])"
      "item ''daemon'' c = None"
    by (rule example_start)
  then have "usable True False c" using accepted_config_usable [OF r(1)] by (simp add: example_env_def)
  then show ?thesis using r(1) by blast
qed

lemma foreign_text_refused_witness:
  "read_config (example_env\<lparr>decode_utf8 := (\<lambda>_. Inr [123, 34, 19968, 34, 125])\<rparr>) ''config.json'' = Inl (Exit 1)"
  by (rule foreign_text_refused [of "[Outside CHR ''{'']" "[]" 19968 "[dquote]" _ _ "''{}''" "[34, 125]"])
     (simp_all add: show_text_def example_env_def)

end
