(* ===== verification/Spec2Isabelle.thy ===== *)
theory Spec2Isabelle
  imports Encryptor Replay Checksums Verify_Deflate Http_Simple Tls_Ticket Auth_Sha1_V4 Auth_Aes128 Auth_Chain_Proofs Inet Headers Resolver_Proofs Tcp_Proofs Udp_Proofs Server_Pool_Proofs Transfer_Proofs Control_Proofs Db_Rounds Loop_Proofs Relay_Life Mu_Proofs Manager Config_Text Start_Config
begin

text \<open>
  A verification library for the ShadowsocksR server of the package
  \<^verbatim>\<open>newpackage/lean/luci-app-ssrserver-python\<close>, the Python program of this repository. All paths
  below are under \<^verbatim>\<open>root/usr/share/ssr/shadowsocks\<close> of that package. It is written for Python 2.7,
  whose \<^verbatim>\<open>str\<close> and \<^verbatim>\<open>bytes\<close> are one type of 8-bit strings, HOL's \<^typ>\<open>string\<close>.

  \<^bold>\<open>The program.\<close> A client's TCP connection or datagram reaches a relay (\<^verbatim>\<open>tcprelay.py\<close>,
  \<^verbatim>\<open>udprelay.py\<close>). What comes in goes through an obfuscation plugin, the cipher
  (\<^verbatim>\<open>encrypt.py\<close> over \<^verbatim>\<open>crypto/\<close>) and a protocol plugin; the first bytes that remain are a
  header (\<^verbatim>\<open>common.py\<close>) with the target, whose name the resolver (\<^verbatim>\<open>asyncdns.py\<close>) turns into
  an address. What goes out takes the same way back. A port keeps its users, their traffic and
  their limits.

  \<^bold>\<open>The theories.\<close> Each theory opens with what it holds; a definition has the name of the Python
  function or method it models, with a prefix where several classes use the same name (\<open>a1_\<close> for
  \<^verbatim>\<open>auth_aes128\<close>, \<open>s4_\<close> for \<^verbatim>\<open>auth_sha1_v4\<close>, \<open>c_\<close> for \<^verbatim>\<open>auth_chain\<close>, \<open>tls_\<close>,
  \<open>vd_\<close>, \<open>lru_\<close>). Objects are records of their attributes, methods take the record and give it back
  changed. Exceptions are values of \<open>exc\<close> in the left summand of a result.
    \<^item> \<open>Prelude\<close>, \<open>Py_Strings\<close>: exceptions, bytes, slices, \<^verbatim>\<open>struct\<close> codes, randomness as a tape,
      string methods. \<open>Checksums\<close>: CRC-32 and Adler-32 of the standard library.
    \<^item> \<open>Ciphers\<close>, \<open>Encryptor\<close>: \<^verbatim>\<open>crypto/table.py\<close>, \<^verbatim>\<open>sodium.py\<close>, \<^verbatim>\<open>rc4_md5.py\<close>,
      \<^verbatim>\<open>openssl.py\<close> and \<^verbatim>\<open>encrypt.py\<close>. OpenSSL, libsodium and MD5 are the parameter
      \<open>crypto_lib\<close>; what is used of it is that the two directions of a cipher agree byte by byte.
    \<^item> \<open>Lru_Cache\<close>, \<open>Replay\<close>: \<^verbatim>\<open>lru_cache.py\<close> with its refinement to a list of entries in the
      order of their last visit, and the replay windows and client tables of \<^verbatim>\<open>auth.py\<close> and
      \<^verbatim>\<open>auth_chain.py\<close>.
    \<^item> \<open>Framing\<close>: the loop that every receiver runs over its buffer, with the locale of its laws;
      \<open>Plain\<close>, \<open>Verify_Deflate\<close>, \<open>Http_Simple\<close>, \<open>Tls_Ticket\<close>, \<open>Auth_Sha1_V4\<close>,
      \<open>Auth_Aes128\<close>, \<open>Auth_Chain\<close> with \<open>Auth_Chain_Proofs\<close>: the plugins of
      \<^verbatim>\<open>obfsplugin/\<close>. Hash functions and zlib are
      parameters.
    \<^item> \<open>Inet\<close>, \<open>Headers\<close>: \<^verbatim>\<open>common.py\<close>, with the socket module's address functions as its
      documentation gives them.
    \<^item> \<open>Dns_Message\<close>, \<open>Resolver\<close>, \<open>Resolver_Proofs\<close>: \<^verbatim>\<open>asyncdns.py\<close> and
      \<^verbatim>\<open>UDPAsyncDNSHandler\<close>.
    \<^item> \<open>Tcp_Server\<close>: of \<^verbatim>\<open>tcprelay.py\<close>, what a port keeps for its connections.
      \<open>Tcp_Handler\<close>: the handler of a connection, with the state of the port and of the resolver
      in its own; the plugins and the cipher are a record of operations, the answers of the
      operating system a list, the effects a trace. \<open>Tcp_Proofs\<close>: its theorems.
    \<^item> \<open>Event_Loop\<close>, \<open>Loop_Proofs\<close>: \<^verbatim>\<open>eventloop.py\<close>, with the locale of what the loop needs of
      a poller and its interpretations on the two that the module implements. \<open>Relay_Life\<close>: how the
      relays of a port come to the loop and leave it.
    \<^item> \<open>Udp_Relay\<close>, \<open>Udp_Proofs\<close>: \<^verbatim>\<open>udprelay.py\<close>, in the same style.
    \<^item> \<open>Server_Pool\<close>, \<open>Server_Pool_Proofs\<close>: \<^verbatim>\<open>server_pool.py\<close>, the relays of all ports and
      the report of their traffic. \<open>Transfer_Db\<close>, \<open>Transfer_Proofs\<close>: the accounts of
      \<^verbatim>\<open>db_transfer.py\<close>, which books that traffic in a file or a database.
      \<open>Server_Control\<close>, \<open>Control_Proofs\<close>: the pass of \<^verbatim>\<open>db_transfer.py\<close> that starts and
      stops the servers as the rows of the database say. \<open>Db_Rounds\<close>: the rounds of its thread, from
      the traffic that is booked to the servers that run.
    \<^item> \<open>Mu_Manager\<close>, \<open>Mu_Proofs\<close>: \<^verbatim>\<open>mujson_mgr.py\<close>, the tool for the file of users.
      \<open>Manager\<close>: \<^verbatim>\<open>manager.py\<close>, which starts and stops ports by datagrams. \<open>Config_Text\<close>,
      \<open>Start_Config\<close>: \<^verbatim>\<open>shell.py\<close>, the removal of comments, and the way from the options and the
      file to the configuration that is checked.

  \<^bold>\<open>What is shown.\<close> Round trips: what one side writes is exactly what the other side delivers, for
  every cipher, for the plugins and for every way in which the network cuts the stream into pieces.
  Handshakes succeed between the two sides and refuse strangers. A connection id, and a TLS hello
  within five minutes, is accepted once. The LRU cache keeps what it should and forgets the rest.
  Addresses and headers are read back as they were written, with the exact condition where the code
  loses something. The resolver's tables stay consistent and a request that is answered calls all that
  wait for it. The streams of a connection keep their order, a connection is given back once by its
  \<^verbatim>\<open>destroy\<close>, no socket of the UDP relay leaks. Traffic is conserved: counted by a relay, reported by the pool, and
  booked once, limits are kept, the table of users is what it was set to. The ports that run after a
  pass over the database are the permitted ones, and a second pass disturbs none; the file of users keeps names and ports unique. Options go before the file and the file
  before the defaults, and a configuration that is accepted has what the servers need.
  Where the code fails at these, a theorem says how: a late answer of the resolver revives a
  connection that has ended, the rest of a partial write is counted again, a hang-up overtakes kept
  data, a limit of a user's own is not used, an interrupted poll has events handled twice, a failed
  statement stops all servers.

  \<^bold>\<open>Bounds.\<close> Loops are total functions. \<open>stack_depth\<close> is 1000, Python's recursion limit: beyond it a
  recursive method raises \<^verbatim>\<open>RuntimeError\<close>. The loop of \<^verbatim>\<open>EVP_BytesToKey\<close> has the fuel that the
  requested length needs, which \<open>key_loop_enough\<close> proves. A loop of the source that would never end
  has the value \<open>NoReturn\<close>. Each plugin's limits on lengths, where a 16-bit length has to hold them,
  are hypotheses of its theorems. Times and speeds are rational numbers where Python has floats, and
  the clock is read once in a handler.

  \<^bold>\<open>Not modelled.\<close> Making and accepting sockets, the choice of a plugin by name
  (\<^verbatim>\<open>obfs.py\<close>), the text of SQL statements and the connections (\<^verbatim>\<open>db_transfer.py\<close>), the tools around the server
  (\<^verbatim>\<open>asyncmgr.py\<close>) and start-up
  (\<^verbatim>\<open>daemon.py\<close>, \<^verbatim>\<open>server.py\<close>): these are input and output, threads and processes.
\<close>

end
